(* ===== verification/Prelude.thy ===== *)
theory Prelude
  imports Main "HOL-Library.Word" "HOL-Library.Monad_Syntax"
begin

text \<open>
  Shared by every component: the machine types of \<^verbatim>\<open>hdr/portab.h\<close> (a 16-bit compiler, so
  \<^verbatim>\<open>int\<close> and \<^verbatim>\<open>unsigned\<close> have 16 bits and \<^verbatim>\<open>long\<close> has 32), the kernel's error codes, the loop
  combinator that models every loop the C code does not bound, with its total correctness rule,
  and the facts on words and lists that the component proofs share.
\<close>

unbundle bit_operations_syntax

type_synonym u8 = "8 word"
type_synonym u16 = "16 word"
type_synonym u32 = "32 word"

subsection \<open>Error codes of the kernel (hdr/error.h)\<close>

definition SUCCESS :: int where "SUCCESS = 0"
definition DE_INVLDFUNC :: int where "DE_INVLDFUNC = -1"
definition DE_FILENOTFND :: int where "DE_FILENOTFND = -2"
definition DE_PATHNOTFND :: int where "DE_PATHNOTFND = -3"
definition DE_TOOMANY :: int where "DE_TOOMANY = -4"
definition DE_ACCESS :: int where "DE_ACCESS = -5"
definition DE_INVLDHNDL :: int where "DE_INVLDHNDL = -6"
definition DE_MCBDESTRY :: int where "DE_MCBDESTRY = -7"
definition DE_NOMEM :: int where "DE_NOMEM = -8"
definition DE_INVLDMCB :: int where "DE_INVLDMCB = -9"
definition DE_INVLDDRV :: int where "DE_INVLDDRV = -15"
definition DE_RMVCUDIR :: int where "DE_RMVCUDIR = -16"
definition DE_DEVICE :: int where "DE_DEVICE = -17"
definition DE_NFILES :: int where "DE_NFILES = -18"
definition DE_BLKINVLD :: int where "DE_BLKINVLD = -20"
definition DE_SEEK :: int where "DE_SEEK = -25"
definition DE_HNDLDSKFULL :: int where "DE_HNDLDSKFULL = -28"
definition DE_LOCK :: int where "DE_LOCK = -39"
definition DE_FILEEXISTS :: int where "DE_FILEEXISTS = -80"

named_theorems errs \<open>the values of the error codes\<close>

declare SUCCESS_def [errs] DE_INVLDFUNC_def [errs] DE_DEVICE_def [errs] DE_LOCK_def [errs] DE_FILENOTFND_def [errs] DE_PATHNOTFND_def [errs]
  DE_TOOMANY_def [errs] DE_ACCESS_def [errs] DE_INVLDHNDL_def [errs] DE_MCBDESTRY_def [errs]
  DE_NOMEM_def [errs] DE_INVLDMCB_def [errs] DE_INVLDDRV_def [errs] DE_RMVCUDIR_def [errs]
  DE_NFILES_def [errs] DE_BLKINVLD_def [errs] DE_SEEK_def [errs] DE_HNDLDSKFULL_def [errs]
  DE_FILEEXISTS_def [errs]

subsection \<open>Loops that the code does not bound\<close>

text \<open>
  The body of a loop maps the loop's variables to \<^term>\<open>Inl r\<close> (the loop is left with \<open>r\<close>, by
  \<^verbatim>\<open>break\<close>, \<^verbatim>\<open>return\<close>, \<^verbatim>\<open>goto\<close> or a false condition) or to \<^term>\<open>Inr s\<close> (the next round starts
  with \<open>s\<close>). \<^term>\<open>None\<close> is a loop that never ends.
\<close>

partial_function (option) loop :: "('s \<Rightarrow> 'r + 's) \<Rightarrow> 's \<Rightarrow> 'r option" where
  "loop body s = (case body s of Inl r \<Rightarrow> Some r | Inr s' \<Rightarrow> loop body s')"

lemma loop_Inl: "body s = Inl r \<Longrightarrow> loop body s = Some r"
  by (simp add: loop.simps)

lemma loop_Inr: "body s = Inr s' \<Longrightarrow> loop body s = loop body s'"
  by (subst loop.simps) simp

text \<open>
  Total correctness: an invariant indexed by a number (how much is left to do) that every round
  decreases; and the usual form with a measure of the loop's variables.
\<close>

lemma loop_ghost:
  fixes J :: "'s \<Rightarrow> nat \<Rightarrow> bool"
  assumes "J s n"
    and step: "\<And>s n. J s n \<Longrightarrow> (case body s of Inl r \<Rightarrow> Q r | Inr s' \<Rightarrow> \<exists>n'<n. J s' n')"
  shows "\<exists>r. loop body s = Some r \<and> Q r"
  using assms(1)
proof (induction n arbitrary: s rule: less_induct)
  case (less n)
  show ?case
  proof (cases "body s")
    case (Inl r)
    with step [OF less.prems] show ?thesis by (simp add: loop_Inl)
  next
    case (Inr s')
    with step [OF less.prems] obtain n' where "J s' n'" "n' < n" by auto
    with less.IH [of n' s'] Inr show ?thesis by (simp add: loop_Inr)
  qed
qed

lemma loop_total:
  fixes \<mu> :: "'s \<Rightarrow> nat"
  assumes "I s"
    and "\<And>s. I s \<Longrightarrow> (case body s of Inl r \<Rightarrow> Q r | Inr s' \<Rightarrow> I s' \<and> \<mu> s' < \<mu> s)"
  shows "\<exists>r. loop body s = Some r \<and> Q r"
proof (rule loop_ghost [where J = "\<lambda>s n. I s \<and> \<mu> s = n"])
  show "I s \<and> \<mu> s = \<mu> s" using assms(1) by simp
next
  fix s n assume "I s \<and> \<mu> s = n"
  with assms(2) [of s] show "case body s of Inl r \<Rightarrow> Q r | Inr s' \<Rightarrow> \<exists>n'<n. I s' \<and> \<mu> s' = n'"
    by (auto split: sum.splits)
qed

text \<open>Partial correctness, when only the value of a loop that ends matters.\<close>

lemma loop_partial:
  assumes "loop body s = Some r" "I s"
    and step: "\<And>s. I s \<Longrightarrow> (case body s of Inl r \<Rightarrow> Q r | Inr s' \<Rightarrow> I s')"
  shows "Q r"
proof -
  have "body = body \<longrightarrow> I s \<longrightarrow> Q r"
  proof (rule loop.raw_induct [where P = "\<lambda>b s r. b = body \<longrightarrow> I s \<longrightarrow> Q r", OF _ assms(1)])
    fix lp b s r
    assume IH: "\<And>b s r. lp b s = Some r \<Longrightarrow> b = body \<longrightarrow> I s \<longrightarrow> Q r"
      and eq: "(case b s of Inl r \<Rightarrow> Some r | Inr s' \<Rightarrow> lp b s') = Some r"
    show "b = body \<longrightarrow> I s \<longrightarrow> Q r"
      using step [of s] eq IH by (auto split: sum.splits)
  qed
  with assms(2) show ?thesis by simp
qed

lemma case_sum_mono:
  "(case x of Inl r \<Rightarrow> P r | Inr v \<Rightarrow> Q v) \<Longrightarrow> (\<And>v. Q v \<Longrightarrow> Q' v) \<Longrightarrow>
     (case x of Inl r \<Rightarrow> P r | Inr v \<Rightarrow> Q' v)"
  by (simp split: sum.splits)

text \<open>
  The same for a body that may itself fail to end: \<^term>\<open>None\<close> in the body is \<^term>\<open>None\<close> of the loop.
\<close>

partial_function (option) loopM :: "('s \<Rightarrow> ('r + 's) option) \<Rightarrow> 's \<Rightarrow> 'r option" where
  "loopM body s = Option.bind (body s) (\<lambda>x. case x of Inl r \<Rightarrow> Some r | Inr s' \<Rightarrow> loopM body s')"

lemma loopM_Inl: "body s = Some (Inl r) \<Longrightarrow> loopM body s = Some r"
  by (simp add: loopM.simps)

lemma loopM_Inr: "body s = Some (Inr s') \<Longrightarrow> loopM body s = loopM body s'"
  by (subst loopM.simps) simp

lemma loopM_ghost:
  fixes J :: "'s \<Rightarrow> nat \<Rightarrow> bool"
  assumes "J s n"
    and step: "\<And>s n. J s n \<Longrightarrow> \<exists>x. body s = Some x \<and> (case x of Inl r \<Rightarrow> Q r | Inr s' \<Rightarrow> \<exists>n'<n. J s' n')"
  shows "\<exists>r. loopM body s = Some r \<and> Q r"
  using assms(1)
proof (induction n arbitrary: s rule: less_induct)
  case (less n)
  from step [OF less.prems] obtain x where x: "body s = Some x" "case x of Inl r \<Rightarrow> Q r | Inr s' \<Rightarrow> \<exists>n'<n. J s' n'" by blast
  show ?case
  proof (cases x)
    case (Inl r)
    with x show ?thesis by (simp add: loopM_Inl)
  next
    case (Inr s')
    with x obtain n' where "J s' n'" "n' < n" by auto
    with less.IH [of n' s'] x Inr show ?thesis by (simp add: loopM_Inr)
  qed
qed

text \<open>A loop whose rounds keep something keeps it.\<close>

lemma loopM_partial:
  assumes "loopM body s = Some r" "I s"
    and step: "\<And>s x. I s \<Longrightarrow> body s = Some x \<Longrightarrow> (case x of Inl r \<Rightarrow> Q r | Inr s' \<Rightarrow> I s')"
  shows "Q r"
proof -
  have "body = body \<longrightarrow> I s \<longrightarrow> Q r"
  proof (rule loopM.raw_induct [where P = "\<lambda>b s r. b = body \<longrightarrow> I s \<longrightarrow> Q r", OF _ assms(1)])
    fix lp b s r
    assume IH: "\<And>b s r. lp b s = Some r \<Longrightarrow> b = body \<longrightarrow> I s \<longrightarrow> Q r"
      and eq: "Option.bind (b s) (\<lambda>x. case x of Inl r \<Rightarrow> Some r | Inr s' \<Rightarrow> lp b s') = Some r"
    show "b = body \<longrightarrow> I s \<longrightarrow> Q r"
    proof (cases "b s")
      case (Some x)
      then show ?thesis using step [of s x] IH eq by (cases x) auto
    qed (use eq in simp)
  qed
  with assms(2) show ?thesis by simp
qed

subsection \<open>Words\<close>

lemma unat_of_nat16: "n < 65536 \<Longrightarrow> unat (of_nat n :: u16) = n"
  by (simp add: unat_of_nat)

lemma unat_add16: "unat a + unat b < 65536 \<Longrightarrow> unat (a + b :: u16) = unat a + unat b"
  by (simp add: unat_word_ariths)

lemma unat_lt16 [simp]: "unat (a :: u16) < 65536"
  using unsigned_less [of a, where ?'a = nat] by simp

lemma unat_ucast_le: "unat (w :: 'a::len word) < 2 ^ LENGTH('b) \<Longrightarrow> unat (ucast w :: 'b::len word) = unat w"
  by (simp only: unsigned_ucast_eq take_bit_eq_mod) simp

lemma unat_ucast8_16 [simp]: "unat (ucast (w :: u8) :: u16) = unat w"
  by (rule unat_ucast_le) (rule less_trans [OF unsigned_less], simp)

lemma word16_eqI: "unat a = unat b \<Longrightarrow> a = (b :: u16)"
  by (simp add: word_unat_eq_iff)

end
