(* ===== verification/MemMgr.thy ===== *)
theory MemMgr
  imports Prelude
begin

text \<open>
  The memory manager, \<^verbatim>\<open>kernel/memmgr.c\<close>. Conventional and upper memory is a chain of blocks, each
  preceded by a 16-byte memory control block (MCB, \<^verbatim>\<open>hdr/mcb.h\<close>) on a paragraph boundary. Every
  \<^verbatim>\<open>mcb FAR *\<close> of the C code has offset 0, so a pointer is its segment and the store is a function
  from segments to MCBs; distinct segments are disjoint paragraphs. A \<^verbatim>\<open>NULL\<close> pointer is segment 0.
  Segments, sizes and modes keep their 16 bits and wrap around as in C.
\<close>

subsection \<open>Memory control blocks (hdr/mcb.h)\<close>

record mcb =
  m_type :: u8
  m_psp :: u16
  m_size :: u16
  m_name :: "u8 list"

type_synonym arena = "u16 \<Rightarrow> mcb"

definition LARGEST :: u16 where "LARGEST = 0xFFFF"
definition FIRST_FIT :: u16 where "FIRST_FIT = 0"
definition BEST_FIT :: u16 where "BEST_FIT = 1"
definition LAST_FIT :: u16 where "LAST_FIT = 2"
definition FIRST_FIT_UO :: u16 where "FIRST_FIT_UO = 0x40"
definition BEST_FIT_UO :: u16 where "BEST_FIT_UO = 0x41"
definition LAST_FIT_UO :: u16 where "LAST_FIT_UO = 0x42"
definition FIRST_FIT_U :: u16 where "FIRST_FIT_U = 0x80"
definition BEST_FIT_U :: u16 where "BEST_FIT_U = 0x81"
definition LAST_FIT_U :: u16 where "LAST_FIT_U = 0x82"
definition MCB_NORMAL :: u8 where "MCB_NORMAL = 0x4D"
definition MCB_LAST :: u8 where "MCB_LAST = 0x5A"
definition FREE_PSP :: u16 where "FREE_PSP = 0"

named_theorems mcb_consts \<open>the constants of hdr/mcb.h\<close>

declare LARGEST_def [mcb_consts] FIRST_FIT_def [mcb_consts] BEST_FIT_def [mcb_consts]
  LAST_FIT_def [mcb_consts] FIRST_FIT_UO_def [mcb_consts] BEST_FIT_UO_def [mcb_consts]
  LAST_FIT_UO_def [mcb_consts] FIRST_FIT_U_def [mcb_consts] BEST_FIT_U_def [mcb_consts]
  LAST_FIT_U_def [mcb_consts] MCB_NORMAL_def [mcb_consts] MCB_LAST_def [mcb_consts]
  FREE_PSP_def [mcb_consts]

text \<open>The kernel variables the memory manager reads and writes (\<^verbatim>\<open>kernel/globals.h\<close>).\<close>

record memstate =
  mcbs :: arena
  first_mcb :: u16
  uppermem_root :: u16
  uppermem_link :: u8
  mem_access_mode :: u8
  cu_psp :: u16

definition nxtMCBsize :: "u16 \<Rightarrow> u16 \<Rightarrow> u16" where
  "nxtMCBsize p sz = p + sz + 1"

definition nxtMCB :: "arena \<Rightarrow> u16 \<Rightarrow> u16" where
  "nxtMCB m p = nxtMCBsize p (m_size (m p))"

definition mcbFree :: "mcb \<Rightarrow> bool" where
  "mcbFree b \<longleftrightarrow> m_psp b = FREE_PSP"

definition mcbFreeable :: "mcb \<Rightarrow> bool" where
  "mcbFreeable b \<longleftrightarrow> m_type b = MCB_NORMAL \<or> m_type b = MCB_LAST"

definition mcbValid :: "mcb \<Rightarrow> bool" where
  "mcbValid b \<longleftrightarrow> m_size b \<noteq> 0xFFFF \<and> (m_type b = MCB_NORMAL \<or> m_type b = MCB_LAST)"

subsection \<open>joinMCBs\<close>

text \<open>
  Each round makes one more MCB other than \<open>p\<close> carry the size \<open>0xFFFF\<close>, so the loop ends whatever
  the arena holds.
\<close>

function joinMCBs :: "u16 \<Rightarrow> arena \<Rightarrow> int \<times> arena" where
  "joinMCBs p m =
     (if m_type (m p) = MCB_NORMAL then
        let q = nxtMCB m p in
        if \<not> mcbFree (m q) then (SUCCESS, m)
        else if \<not> mcbValid (m q) then (DE_MCBDESTRY, m)
        else
          let m1 = m(p := (m p)\<lparr>m_type := m_type (m q)\<rparr>);
              m2 = m1(p := (m1 p)\<lparr>m_size := m_size (m1 p) + (m_size (m1 q) + 1)\<rparr>);
              m3 = m2(q := (m2 q)\<lparr>m_size := 0xFFFF\<rparr>)
          in joinMCBs p m3
      else (SUCCESS, m))"
  by pat_completeness auto

lemma plus1_eq_0: "x + 1 = 0 \<longleftrightarrow> x = (0xFFFF :: u16)"
proof -
  have "(-1 :: u16) = 0xFFFF" by simp
  then show ?thesis by (metis eq_neg_iff_add_eq_0)
qed

lemma nxtMCB_self: "nxtMCB m p = p \<longleftrightarrow> m_size (m p) = 0xFFFF"
proof -
  have "p + m_size (m p) + 1 = p \<longleftrightarrow> m_size (m p) + 1 = 0" by (simp add: add.assoc)
  then show ?thesis by (simp add: nxtMCB_def nxtMCBsize_def plus1_eq_0)
qed

definition live :: "u16 \<Rightarrow> arena \<Rightarrow> u16 set" where
  "live p m = {s. s \<noteq> p \<and> m_size (m s) \<noteq> 0xFFFF}"

termination joinMCBs
proof (relation "measure (\<lambda>(p, m). card (live p m))", goal_cases)
  case 1
  show ?case by simp
next
  case (2 p m q m1 m2 m3)
  then have "q \<in> live p m" "live p m3 = live p m - {q}"
    using nxtMCB_self [of m p] by (auto simp: live_def mcbValid_def)
  then have "card (live p m3) < card (live p m)"
    by (metis card_Diff1_less finite)
  then show ?case by simp
qed

declare joinMCBs.simps [simp del]

subsection \<open>adjust_far\<close>

text \<open>A far pointer as its segment and offset; the build defines \<^verbatim>\<open>I86\<close>.\<close>

definition adjust_far :: "u16 \<times> u16 \<Rightarrow> u16 \<times> u16" where
  "adjust_far fp =
     (if fst fp = 0xFFFF then fp
      else (fst fp + drop_bit 4 (snd fp), snd fp AND 0xF))"

subsection \<open>DosMemAlloc\<close>

text \<open>
  The scan of the chain. Its variables are \<open>p\<close>, \<open>biggestSeg\<close>, \<open>foundSeg\<close> and the arena; it is left
  because a block is corrupt, by \<^verbatim>\<open>goto stopIt\<close> (first fit), or at the end of the chain.
\<close>

datatype scan_exit =
    Scan_corrupt arena
  | Scan_stopIt u16 arena
  | Scan_end u16 u16 arena

type_synonym scan_vars = "u16 \<times> u16 \<times> u16 \<times> arena"

text \<open>The \<^verbatim>\<open>switch (mode)\<close> on a block that is large enough: the new \<open>foundSeg\<close>, or a stop.\<close>

definition fit_rule :: "u16 \<Rightarrow> arena \<Rightarrow> u16 \<Rightarrow> u16 \<Rightarrow> u16 option" where
  "fit_rule mode m p foundSeg =
     (if mode = LARGEST then Some foundSeg
      else if mode = BEST_FIT \<or> mode = BEST_FIT_U \<or> mode = BEST_FIT_UO then
        Some (if foundSeg = 0 \<or> m_size (m foundSeg) > m_size (m p) then p else foundSeg)
      else if mode = FIRST_FIT \<or> mode = FIRST_FIT_U \<or> mode = FIRST_FIT_UO then None
      else Some p)"

definition scan_next :: "scan_vars \<Rightarrow> scan_exit + scan_vars" where
  "scan_next v = (case v of (p, biggestSeg, foundSeg, m) \<Rightarrow>
     if m_type (m p) = MCB_LAST then Inl (Scan_end biggestSeg foundSeg m)
     else Inr (nxtMCB m p, biggestSeg, foundSeg, m))"

definition scan_body :: "u16 \<Rightarrow> u16 \<Rightarrow> scan_vars \<Rightarrow> scan_exit + scan_vars" where
  "scan_body sz mode v = (case v of (p, biggestSeg, foundSeg, m) \<Rightarrow>
     if \<not> mcbValid (m p) then Inl (Scan_corrupt m)
     else if mcbFree (m p) then
       (case joinMCBs p m of (rc, m1) \<Rightarrow>
          if rc \<noteq> SUCCESS then Inl (Scan_corrupt m1)
          else
            let big = (if biggestSeg = 0 \<or> m_size (m1 biggestSeg) < m_size (m1 p) then p else biggestSeg)
            in if m_size (m1 p) \<ge> sz then
                 (case fit_rule mode m1 p foundSeg of
                    None \<Rightarrow> Inl (Scan_stopIt p m1)
                  | Some found \<Rightarrow> scan_next (p, big, found, m1))
               else scan_next (p, big, foundSeg, m1))
     else scan_next v)"

definition upper_linked :: "memstate \<Rightarrow> bool" where
  "upper_linked st \<longleftrightarrow> uppermem_link st AND 1 \<noteq> 0 \<and> uppermem_root st \<noteq> 0xFFFF"

definition scan_start :: "u16 \<Rightarrow> u16 \<Rightarrow> memstate \<Rightarrow> u16" where
  "scan_start sz mode st =
     (let tmpmode = (if mode = LARGEST then ucast (mem_access_mode st) else mode) in
      if upper_linked st \<and> (mode \<noteq> LARGEST \<or> sz = 0xFFFF)
         \<and> tmpmode AND (FIRST_FIT_UO OR FIRST_FIT_U) \<noteq> 0
      then uppermem_root st else first_mcb st)"

text \<open>What follows the label \<^verbatim>\<open>stopIt\<close>: split the block unless it fits exactly, and give it away.\<close>

definition split_last :: "u16 \<Rightarrow> u16 \<Rightarrow> arena \<Rightarrow> u16 \<times> arena" where
  "split_last sz foundSeg m =
     (let p = foundSeg;
          m1 = m(p := (m p)\<lparr>m_size := m_size (m p) - (sz + 1)\<rparr>);
          f = nxtMCB m1 p;
          m2 = m1(f := (m1 f)\<lparr>m_type := m_type (m1 p)\<rparr>);
          m3 = m2(p := (m2 p)\<lparr>m_type := MCB_NORMAL\<rparr>);
          m4 = m3(p := (m3 p)\<lparr>m_psp := FREE_PSP\<rparr>);
          m5 = m4(f := (m4 f)\<lparr>m_size := sz\<rparr>)
      in (f, m5))"

definition split_first :: "u16 \<Rightarrow> u16 \<Rightarrow> arena \<Rightarrow> u16 \<times> arena" where
  "split_first sz foundSeg m =
     (let p = nxtMCBsize foundSeg sz;
          m1 = m(p := (m p)\<lparr>m_type := m_type (m foundSeg)\<rparr>);
          m2 = m1(p := (m1 p)\<lparr>m_size := m_size (m1 foundSeg) - sz - 1\<rparr>);
          m3 = m2(foundSeg := (m2 foundSeg)\<lparr>m_type := MCB_NORMAL\<rparr>);
          m4 = m3(p := (m3 p)\<lparr>m_psp := FREE_PSP\<rparr>);
          m5 = m4(foundSeg := (m4 foundSeg)\<lparr>m_size := sz\<rparr>)
      in (foundSeg, m5))"

definition alloc_take :: "u16 \<Rightarrow> u16 \<Rightarrow> u16 \<Rightarrow> u16 \<Rightarrow> arena \<Rightarrow> u16 \<times> arena" where
  "alloc_take sz mode psp foundSeg m =
     (let (f, m1) =
        (if mode \<noteq> LARGEST \<and> sz \<noteq> m_size (m foundSeg) then
           if mode = LAST_FIT \<or> mode = LAST_FIT_UO \<or> mode = LAST_FIT_U
           then split_last sz foundSeg m else split_first sz foundSeg m
         else (foundSeg, m));
        m2 = m1(f := (m1 f)\<lparr>m_psp := psp\<rparr>);
        m3 = m2(f := (m2 f)\<lparr>m_name := (m_name (m2 f))[0 := 0]\<rparr>)
      in (f, m3))"

text \<open>
  The result: the error code, \<^verbatim>\<open>*para\<close> and \<^verbatim>\<open>*asize\<close> where the call assigns them, and the state.
\<close>

record alloc_ret =
  al_rc :: int
  al_para :: "u16 option"
  al_asize :: "u16 option"
  al_st :: memstate

definition alloc_give :: "u16 \<Rightarrow> u16 \<Rightarrow> u16 \<Rightarrow> u16 option \<Rightarrow> memstate \<Rightarrow> arena \<Rightarrow> alloc_ret" where
  "alloc_give sz mode foundSeg asize st m =
     (case alloc_take sz mode (cu_psp st) foundSeg m of (f, m1) \<Rightarrow>
        \<lparr>al_rc = SUCCESS, al_para = Some f, al_asize = asize, al_st = st\<lparr>mcbs := m1\<rparr>\<rparr>)"

text \<open>One pass from \<^verbatim>\<open>searchAgain\<close>; \<^term>\<open>Inr\<close> is the \<^verbatim>\<open>goto searchAgain\<close> with the new mode.\<close>

definition alloc_end :: "u16 \<Rightarrow> u16 \<Rightarrow> u16 \<Rightarrow> u16 \<Rightarrow> memstate \<Rightarrow> arena \<Rightarrow>
    alloc_ret + (u16 \<times> memstate)" where
  "alloc_end sz mode biggestSeg foundSeg st m =
     (let large = (mode = LARGEST \<and> biggestSeg \<noteq> 0 \<and> m_size (m biggestSeg) \<ge> sz);
          found = (if large then biggestSeg else foundSeg);
          asize = (if large then Some (m_size (m biggestSeg)) else None)
      in if found = 0 \<or> m_size (m found) = 0 then
           if mode \<noteq> LARGEST \<and> mode AND FIRST_FIT_U \<noteq> 0 \<and> upper_linked st
           then Inr (mode AND NOT FIRST_FIT_U, st\<lparr>mcbs := m\<rparr>)
           else Inl \<lparr>al_rc = DE_NOMEM, al_para = None,
                     al_asize = Some (if biggestSeg \<noteq> 0 then m_size (m biggestSeg) else 0),
                     al_st = st\<lparr>mcbs := m\<rparr>\<rparr>
         else Inl (alloc_give sz mode found asize st m))"

definition alloc_pass :: "u16 \<Rightarrow> u16 \<Rightarrow> memstate \<Rightarrow> (alloc_ret + (u16 \<times> memstate)) option" where
  "alloc_pass sz mode st = do {
     ex \<leftarrow> loop (scan_body sz mode) (scan_start sz mode st, 0, 0, mcbs st);
     Some (case ex of
       Scan_corrupt m \<Rightarrow>
         Inl \<lparr>al_rc = DE_MCBDESTRY, al_para = None, al_asize = None, al_st = st\<lparr>mcbs := m\<rparr>\<rparr>
     | Scan_stopIt found m \<Rightarrow> Inl (alloc_give sz mode found None st m)
     | Scan_end biggestSeg foundSeg m \<Rightarrow> alloc_end sz mode biggestSeg foundSeg st m)
   }"

text \<open>The second pass runs with bit \<open>0x80\<close> cleared, so there is no third one.\<close>

definition DosMemAlloc :: "u16 \<Rightarrow> u16 \<Rightarrow> memstate \<Rightarrow> alloc_ret option" where
  "DosMemAlloc sz mode st = do {
     r \<leftarrow> alloc_pass sz mode st;
     case r of
       Inl ret \<Rightarrow> Some ret
     | Inr (mode', st') \<Rightarrow> do {
         r' \<leftarrow> alloc_pass sz mode' st';
         case r' of Inl ret \<Rightarrow> Some ret | Inr _ \<Rightarrow> None }
   }"

subsection \<open>DosMemLargest, DosMemFree, DosMemChange, DosMemCheck\<close>

definition DosMemLargest :: "memstate \<Rightarrow> (int \<times> u16 \<times> memstate) option" where
  "DosMemLargest st = do {
     r \<leftarrow> DosMemAlloc 0xFFFF LARGEST st;
     let sz = (case al_asize r of Some a \<Rightarrow> a | None \<Rightarrow> 0);
     let st1 = al_st r;
     (sz2, st2) \<leftarrow>
       (if mem_access_mode st1 AND 0x80 \<noteq> 0 then do {
          r2 \<leftarrow> DosMemAlloc 0xFFFF LARGEST (st1\<lparr>mem_access_mode := mem_access_mode st1 AND NOT 0x80\<rparr>);
          let lowsize = (case al_asize r2 of Some a \<Rightarrow> a | None \<Rightarrow> 0);
          let st2 = al_st r2;
          Some (if lowsize > sz then lowsize else sz,
                st2\<lparr>mem_access_mode := mem_access_mode st2 OR 0x80\<rparr>)
        } else Some (sz, st1));
     Some (if sz2 \<noteq> 0 then SUCCESS else DE_NOMEM, sz2, st2)
   }"

definition DosMemFree :: "u16 \<Rightarrow> memstate \<Rightarrow> int \<times> memstate" where
  "DosMemFree para st =
     (if para = 0 then (DE_INVLDMCB, st)
      else if \<not> mcbFreeable (mcbs st para) then (DE_INVLDMCB, st)
      else (SUCCESS, st\<lparr>mcbs := (mcbs st)(para :=
              (mcbs st para)\<lparr>m_psp := FREE_PSP, m_name := replicate 8 0\<rparr>)\<rparr>))"

text \<open>The second component is \<^verbatim>\<open>*maxSize\<close> where the call assigns it.\<close>

definition shrink_block :: "u16 \<Rightarrow> u16 \<Rightarrow> arena \<Rightarrow> int \<times> arena" where
  "shrink_block p sz m =
     (let q = nxtMCBsize p sz;
          m1 = m(q := (m q)\<lparr>m_size := m_size (m p) - sz - 1\<rparr>);
          m2 = m1(q := (m1 q)\<lparr>m_type := m_type (m1 p)\<rparr>);
          m3 = m2(p := (m2 p)\<lparr>m_size := sz\<rparr>);
          m4 = m3(p := (m3 p)\<lparr>m_type := MCB_NORMAL\<rparr>);
          m5 = m4(q := (m4 q)\<lparr>m_psp := FREE_PSP, m_name := replicate 8 0\<rparr>)
      in joinMCBs q m5)"

definition DosMemChange :: "u16 \<Rightarrow> u16 \<Rightarrow> memstate \<Rightarrow> int \<times> u16 option \<times> memstate" where
  "DosMemChange para sz st =
     (let p = para - 1; m = mcbs st in
      if \<not> mcbValid (m p) then (DE_MCBDESTRY, None, st)
      else
        let (rc, m1) = (if sz > m_size (m p) then joinMCBs p m else (SUCCESS, m)) in
        if rc \<noteq> SUCCESS then (DE_MCBDESTRY, None, st\<lparr>mcbs := m1\<rparr>)
        else if sz > m_size (m1 p) then (DE_NOMEM, Some (m_size (m1 p)), st\<lparr>mcbs := m1\<rparr>)
        else
          let (rc2, m2) = (if sz < m_size (m1 p) then shrink_block p sz m1 else (SUCCESS, m1)) in
          if rc2 \<noteq> SUCCESS then (DE_MCBDESTRY, None, st\<lparr>mcbs := m2\<rparr>)
          else (SUCCESS, None, st\<lparr>mcbs := m2(p := (m2 p)\<lparr>m_psp := cu_psp st\<rparr>)\<rparr>))"

definition memcheck_body :: "arena \<Rightarrow> u16 \<Rightarrow> int + u16" where
  "memcheck_body m p =
     (if m_type (m p) = MCB_LAST then Inl SUCCESS
      else if m_type (m p) \<noteq> MCB_NORMAL then Inl DE_MCBDESTRY
      else Inr (nxtMCB m p))"

definition DosMemCheck :: "memstate \<Rightarrow> int option" where
  "DosMemCheck st = loop (memcheck_body (mcbs st)) (first_mcb st)"

subsection \<open>DosUmbLink and FreeProcessMem\<close>

text \<open>
  \<^verbatim>\<open>q\<close> is not initialised before the loop: \<open>q0\<close> stands for whatever segment it holds. The loop is
  left by its condition (\<^term>\<open>Inl (Some (p, q))\<close>) or by the \<^verbatim>\<open>return\<close> on an invalid block.
\<close>

definition umblink_body :: "memstate \<Rightarrow> u16 \<times> u16 \<Rightarrow> (u16 \<times> u16) option + (u16 \<times> u16)" where
  "umblink_body st pq = (case pq of (p, q) \<Rightarrow>
     if p \<noteq> uppermem_root st \<and> m_type (mcbs st p) \<noteq> MCB_LAST then
       if \<not> mcbValid (mcbs st p) then Inl None
       else Inr (nxtMCB (mcbs st) p, p)
     else Inl (Some (p, q)))"

definition umblink_set :: "u16 \<Rightarrow> u16 \<Rightarrow> u16 \<Rightarrow> memstate \<Rightarrow> memstate" where
  "umblink_set n p q st =
     (let m = mcbs st in
      if n = 0 then
        (if m_type (m q) = MCB_NORMAL \<and> p = uppermem_root st
         then st\<lparr>mcbs := m(q := (m q)\<lparr>m_type := MCB_LAST\<rparr>)\<rparr> else st)\<lparr>uppermem_link := ucast n\<rparr>
      else if m_type (m p) = MCB_LAST then
        st\<lparr>mcbs := m(p := (m p)\<lparr>m_type := MCB_NORMAL\<rparr>), uppermem_link := ucast n\<rparr>
      else st)"

definition DosUmbLink :: "u16 \<Rightarrow> u16 \<Rightarrow> memstate \<Rightarrow> memstate option" where
  "DosUmbLink q0 n st =
     (if uppermem_root st = 0xFFFF then Some st
      else if n > 1 \<or> ucast (uppermem_link st AND 1) = n then Some st
      else do {
        r \<leftarrow> loop (umblink_body st) (first_mcb st, q0);
        Some (case r of None \<Rightarrow> st | Some (p, q) \<Rightarrow> umblink_set n p q st)
      })"

definition freeproc_body :: "u16 \<Rightarrow> u16 \<times> memstate \<Rightarrow> (int \<times> memstate) + (u16 \<times> memstate)" where
  "freeproc_body ps v = (case v of (p, st) \<Rightarrow>
     if \<not> mcbValid (mcbs st p) then Inl (DE_MCBDESTRY, st)
     else
       let st1 = (if m_psp (mcbs st p) = ps then snd (DosMemFree p st) else st) in
       if m_type (mcbs st1 p) = MCB_LAST then Inl (SUCCESS, st1)
       else Inr (nxtMCB (mcbs st1) p, st1))"

definition FreeProcessMem :: "u16 \<Rightarrow> u16 \<Rightarrow> u16 \<Rightarrow> memstate \<Rightarrow> (int \<times> memstate) option" where
  "FreeProcessMem q0 q1 ps st = do {
     let oldumbstate = uppermem_link st AND 1;
     st1 \<leftarrow> DosUmbLink q0 1 st;
     (rc, st2) \<leftarrow> loop (freeproc_body ps) (first_mcb st1, st1);
     if rc \<noteq> SUCCESS then Some (DE_MCBDESTRY, st2)
     else do {
       st3 \<leftarrow> DosUmbLink q1 (ucast oldumbstate) st2;
       Some (SUCCESS, st3)
     }
   }"

end
