(* ===== verification/MemArena.thy ===== *)
theory MemArena
  imports MemMgr
begin

text \<open>
  What the MCB chain stands for: a list of blocks (size, owner) that lie one after the other from
  a first paragraph, the last one marked \<^verbatim>\<open>MCB_LAST\<close>. Positions are natural numbers, so that a
  chain never wraps around the end of the segment space.
\<close>

subsection \<open>Chains\<close>

type_synonym blk = "u16 \<times> u16"

definition blen :: "blk \<Rightarrow> nat" where
  "blen b = unat (fst b) + 1"

definition span :: "blk list \<Rightarrow> nat" where
  "span bs = sum_list (map blen bs)"

definition blk_at :: "arena \<Rightarrow> nat \<Rightarrow> u8 \<Rightarrow> blk \<Rightarrow> bool" where
  "blk_at m a t b \<longleftrightarrow> m_type (m (of_nat a)) = t \<and> m_size (m (of_nat a)) = fst b
     \<and> m_psp (m (of_nat a)) = snd b \<and> 0 < a \<and> a + unat (fst b) < 65536"

fun blocks :: "arena \<Rightarrow> nat \<Rightarrow> blk list \<Rightarrow> bool" where
  "blocks m a [] = True"
| "blocks m a (b # bs) = (blk_at m a MCB_NORMAL b \<and> blocks m (a + blen b) bs)"

fun chain :: "arena \<Rightarrow> nat \<Rightarrow> blk list \<Rightarrow> bool" where
  "chain m a [] = False"
| "chain m a [b] = blk_at m a MCB_LAST b"
| "chain m a (b # c # bs) = (blk_at m a MCB_NORMAL b \<and> chain m (a + blen b) (c # bs))"

text \<open>The free blocks that follow \<open>b\<close> are merged into it; every free run is merged.\<close>

fun absorb :: "blk \<Rightarrow> blk list \<Rightarrow> blk list" where
  "absorb b [] = [b]"
| "absorb b (c # cs) =
     (if snd c = FREE_PSP then absorb (fst b + (fst c + 1), snd b) cs else b # c # cs)"

definition same_outside :: "nat \<Rightarrow> nat \<Rightarrow> arena \<Rightarrow> arena \<Rightarrow> bool" where
  "same_outside lo hi m m' \<longleftrightarrow> (\<forall>s. unat s < lo \<or> hi \<le> unat s \<longrightarrow> m' s = m s)"

lemma span_simps [simp]: "span [] = 0" "span (b # bs) = blen b + span bs"
  "span (xs @ ys) = span xs + span ys"
  by (simp_all add: span_def)

lemma blen_pos [simp]: "0 < blen b" "blen b \<noteq> 0"
  by (simp_all add: blen_def)

lemma same_outside_refl [simp, intro]: "same_outside lo hi m m"
  by (simp add: same_outside_def)

lemma same_outside_trans:
  "same_outside lo hi m m1 \<Longrightarrow> same_outside lo hi m1 m2 \<Longrightarrow> same_outside lo hi m m2"
  by (simp add: same_outside_def)

lemma same_outside_mono:
  "same_outside lo hi m m' \<Longrightarrow> lo' \<le> lo \<Longrightarrow> hi \<le> hi' \<Longrightarrow> same_outside lo' hi' m m'"
  by (auto simp: same_outside_def)

lemma same_outside_two:
  "(\<And>s. s \<noteq> p \<Longrightarrow> s \<noteq> q \<Longrightarrow> m' s = m s) \<Longrightarrow> lo \<le> unat p \<Longrightarrow> unat p < hi \<Longrightarrow>
     lo \<le> unat q \<Longrightarrow> unat q < hi \<Longrightarrow> same_outside lo hi m m'"
  unfolding same_outside_def by (metis not_less)

lemma blk_atI:
  "p = of_nat a \<Longrightarrow> m_type (m p) = t \<Longrightarrow> m_size (m p) = fst b \<Longrightarrow> m_psp (m p) = snd b \<Longrightarrow>
     0 < a \<Longrightarrow> a + unat (fst b) < 65536 \<Longrightarrow> blk_at m a t b"
  by (simp add: blk_at_def)

lemma blk_at_bound: "blk_at m a t b \<Longrightarrow> 0 < a \<and> a + blen b \<le> 65536"
  by (simp add: blk_at_def blen_def)

lemma blk_at_less: "blk_at m a t b \<Longrightarrow> a < 65536"
  by (simp add: blk_at_def)

lemma chain_bound: "chain m a bs \<Longrightarrow> 0 < a \<and> a + span bs \<le> 65536"
  by (induction m a bs rule: chain.induct) (auto dest: blk_at_bound)

lemma blocks_bound: "blocks m a bs \<Longrightarrow> bs \<noteq> [] \<Longrightarrow> 0 < a \<and> a + span bs \<le> 65536"
proof (induction m a bs rule: blocks.induct)
  case (2 m a b bs)
  then show ?case by (cases bs) (auto dest: blk_at_bound)
qed simp

lemma chain_Cons: "bs \<noteq> [] \<Longrightarrow>
    chain m a (b # bs) \<longleftrightarrow> blk_at m a MCB_NORMAL b \<and> chain m (a + blen b) bs"
  by (cases bs) simp_all

lemma chain_append: "ys \<noteq> [] \<Longrightarrow>
    chain m a (xs @ ys) \<longleftrightarrow> blocks m a xs \<and> chain m (a + span xs) ys"
  by (induction xs arbitrary: a) (simp_all add: chain_Cons add.assoc)

lemma blocks_append: "blocks m a (xs @ ys) \<longleftrightarrow> blocks m a xs \<and> blocks m (a + span xs) ys"
  by (induction xs arbitrary: a) (simp_all add: add.assoc)

lemma blk_at_frame:
  assumes "blk_at m a t b" "m' (of_nat a) = m (of_nat a)"
  shows "blk_at m' a t b"
  using assms by (simp add: blk_at_def)

lemma chain_frame:
  assumes "chain m a bs" "\<And>s. a \<le> unat s \<Longrightarrow> unat s < a + span bs \<Longrightarrow> m' s = m s"
  shows "chain m' a bs"
  using assms
proof (induction m a bs rule: chain.induct)
  case (2 m a b)
  then have "a < 65536" using blk_at_less [of m a MCB_LAST b] by simp
  with 2 show ?case by (auto intro!: blk_at_frame [of m] simp: unat_of_nat16)
next
  case (3 m a b c bs)
  then have "a < 65536" using blk_at_less [of m a MCB_NORMAL b] by simp
  with 3 show ?case by (auto intro!: blk_at_frame [of m] simp: unat_of_nat16)
qed simp

lemma blocks_frame:
  assumes "blocks m a bs" "\<And>s. a \<le> unat s \<Longrightarrow> unat s < a + span bs \<Longrightarrow> m' s = m s"
  shows "blocks m' a bs"
  using assms
proof (induction m a bs rule: blocks.induct)
  case (2 m a b bs)
  then have "a < 65536" using blk_at_less [of m a MCB_NORMAL b] by simp
  with 2 show ?case by (auto intro!: blk_at_frame [of m] simp: unat_of_nat16)
qed simp

lemma chain_frame_above:
  "chain m a bs \<Longrightarrow> same_outside lo hi m m' \<Longrightarrow> hi \<le> a \<Longrightarrow> chain m' a bs"
  by (erule chain_frame) (auto simp: same_outside_def)

lemma blocks_frame_below:
  "blocks m a bs \<Longrightarrow> same_outside lo hi m m' \<Longrightarrow> a + span bs \<le> lo \<Longrightarrow> blocks m' a bs"
  by (erule blocks_frame) (auto simp: same_outside_def)

subsection \<open>Reading a chain\<close>

lemma nxtMCB_of_nat:
  "m_size (m (of_nat a)) = fst b \<Longrightarrow> nxtMCB m (of_nat a) = of_nat (a + blen b)"
  by (simp add: nxtMCB_def nxtMCBsize_def blen_def add.commute)

lemma chain_hd:
  assumes "chain m a (b # bs)"
  shows "blk_at m a (if bs = [] then MCB_LAST else MCB_NORMAL) b"
  using assms by (cases bs) simp_all

lemma blk_at_valid: "blk_at m a t b \<Longrightarrow> t = MCB_NORMAL \<or> t = MCB_LAST \<Longrightarrow> mcbValid (m (of_nat a))"
  by (auto simp: blk_at_def mcbValid_def)

lemma types_differ [simp]: "MCB_NORMAL \<noteq> MCB_LAST" "MCB_LAST \<noteq> MCB_NORMAL"
  by (simp_all add: mcb_consts)

subsection \<open>joinMCBs merges the free blocks that follow\<close>

lemma absorb_ne [simp]: "absorb b bs \<noteq> []"
  by (induction b bs rule: absorb.induct) simp_all

lemma span_absorb: "span (b # bs) \<le> 65536 \<Longrightarrow> span (absorb b bs) = span (b # bs)"
proof (induction b bs rule: absorb.induct)
  case (2 b c cs)
  then show ?case by (auto simp: blen_def unat_word_ariths)
qed simp

lemma joinMCBs_chain:
  assumes "chain m a (b # bs)"
  shows "\<exists>m'. joinMCBs (of_nat a) m = (SUCCESS, m') \<and> chain m' a (absorb b bs)
    \<and> same_outside a (a + span (b # bs)) m m'"
  using assms
proof (induction b bs arbitrary: m rule: absorb.induct)
  case (1 b)
  then show ?case by (subst joinMCBs.simps) (auto simp: blk_at_def)
next
  case (2 b c cs)
  let ?p = "of_nat a :: u16" and ?q = "of_nat (a + blen b) :: u16"
  from "2.prems" have p: "blk_at m a MCB_NORMAL b" and rest: "chain m (a + blen b) (c # cs)" by auto
  have q: "blk_at m (a + blen b) (if cs = [] then MCB_LAST else MCB_NORMAL) c"
    using rest by (rule chain_hd)
  have nxt: "nxtMCB m ?p = ?q" using p by (intro nxtMCB_of_nat) (simp add: blk_at_def)
  have bnd: "a + blen b + blen c \<le> 65536" using q by (auto dest: blk_at_bound)
  then have up: "unat ?p = a" "unat ?q = a + blen b"
    using unat_of_nat16 [of a] unat_of_nat16 [of "a + blen b"] blen_pos(1) [of c] by linarith+
  show ?case
  proof (cases "snd c = FREE_PSP")
    case False
    with p q nxt "2.prems" show ?thesis
      by (subst joinMCBs.simps) (auto simp: blk_at_def mcbFree_def)
  next
    case True
    let ?b' = "(fst b + (fst c + 1), snd b)"
    let ?m1 = "m(?p := (m ?p)\<lparr>m_type := m_type (m ?q)\<rparr>)"
    let ?m2 = "?m1(?p := (?m1 ?p)\<lparr>m_size := m_size (?m1 ?p) + (m_size (?m1 ?q) + 1)\<rparr>)"
    let ?m3 = "?m2(?q := (?m2 ?q)\<lparr>m_size := 0xFFFF\<rparr>)"
    have ne: "?p \<noteq> ?q" using up by auto
    have so: "same_outside a (a + blen b + blen c) m ?m3"
      using up by (auto simp: same_outside_def)
    have len: "blen ?b' = blen b + blen c" using bnd p by (auto simp: blen_def unat_word_ariths blk_at_def)
    have step: "joinMCBs ?p m = joinMCBs ?p ?m3"
      using p q nxt True blk_at_valid [OF q]
      by (subst joinMCBs.simps) (auto simp: blk_at_def mcbFree_def Let_def)
    have hd3: "blk_at ?m3 a (if cs = [] then MCB_LAST else MCB_NORMAL) ?b'"
      using p q ne bnd len by (auto simp: blk_at_def blen_def)
    have "chain ?m3 a (?b' # cs)"
    proof (cases "cs = []")
      case True
      with hd3 show ?thesis by simp
    next
      case False
      with rest have "chain m (a + blen b + blen c) cs" by (simp add: chain_Cons)
      then have "chain ?m3 (a + blen b + blen c) cs" using so by (rule chain_frame_above) simp
      with False hd3 len show ?thesis by (simp add: chain_Cons add.assoc)
    qed
    from "2.IH" [OF True this] obtain m' where
      j: "joinMCBs ?p ?m3 = (SUCCESS, m')" "chain m' a (absorb ?b' cs)"
      "same_outside a (a + span (?b' # cs)) ?m3 m'" by blast
    have "same_outside a (a + span (b # c # cs)) m m'"
    proof (rule same_outside_trans)
      show "same_outside a (a + span (b # c # cs)) m ?m3" using so by (rule same_outside_mono) simp_all
      show "same_outside a (a + span (b # c # cs)) ?m3 m'"
        using j(3) len by (simp only: span_simps add.assoc)
    qed
    with True j(1,2) show ?thesis unfolding step by simp
  qed
qed

subsection \<open>Placed blocks, owned and free ones\<close>

fun placed :: "nat \<Rightarrow> blk list \<Rightarrow> (nat \<times> blk) list" where
  "placed a [] = []"
| "placed a (b # bs) = (a, b) # placed (a + blen b) bs"

definition owned :: "nat \<Rightarrow> blk list \<Rightarrow> (nat \<times> blk) set" where
  "owned a bs = {x \<in> set (placed a bs). snd (snd x) \<noteq> FREE_PSP}"

definition free_of :: "nat \<Rightarrow> blk list \<Rightarrow> (nat \<times> blk) set" where
  "free_of a bs = {x \<in> set (placed a bs). snd (snd x) = FREE_PSP}"

definition fits :: "u16 \<Rightarrow> nat \<Rightarrow> blk list \<Rightarrow> (nat \<times> blk) set" where
  "fits sz a bs = {x \<in> free_of a bs. sz \<le> fst (snd x)}"

lemma placed_append [simp]: "placed a (xs @ ys) = placed a xs @ placed (a + span xs) ys"
  by (induction xs arbitrary: a) (simp_all add: add.assoc)

lemma owned_simps [simp]:
  "owned a [] = {}"
  "owned a (b # bs) = (if snd b = FREE_PSP then {} else {(a, b)}) \<union> owned (a + blen b) bs"
  "owned a (xs @ ys) = owned a xs \<union> owned (a + span xs) ys"
  by (auto simp: owned_def)

lemma free_of_simps [simp]:
  "free_of a [] = {}"
  "free_of a (b # bs) = (if snd b = FREE_PSP then {(a, b)} else {}) \<union> free_of (a + blen b) bs"
  "free_of a (xs @ ys) = free_of a xs \<union> free_of (a + span xs) ys"
  by (auto simp: free_of_def)

lemma fits_simps [simp]:
  "fits sz a [] = {}"
  "fits sz a (b # bs) =
     (if snd b = FREE_PSP \<and> sz \<le> fst b then {(a, b)} else {}) \<union> fits sz (a + blen b) bs"
  "fits sz a (xs @ ys) = fits sz a xs \<union> fits sz (a + span xs) ys"
  by (auto simp: fits_def)

lemma owned_placed: "x \<in> owned a bs \<Longrightarrow> x \<in> set (placed a bs)"
  by (simp add: owned_def)

lemma placed_range: "(x, b) \<in> set (placed a bs) \<Longrightarrow> a \<le> x \<and> x + blen b \<le> a + span bs"
proof (induction bs arbitrary: a)
  case (Cons c cs)
  then consider "x = a" "b = c" | "(x, b) \<in> set (placed (a + blen c) cs)" by auto
  then show ?case
  proof cases
    case 2
    from Cons.IH [OF this] show ?thesis by simp
  qed simp
qed simp

lemma placed_blk_at:
  "chain m a bs \<Longrightarrow> (x, b) \<in> set (placed a bs) \<Longrightarrow>
     blk_at m x MCB_NORMAL b \<or> blk_at m x MCB_LAST b"
  by (induction m a bs rule: chain.induct) auto

lemma blocks_placed: "blocks m a bs \<Longrightarrow> (x, b) \<in> set (placed a bs) \<Longrightarrow> blk_at m x MCB_NORMAL b"
  by (induction m a bs rule: blocks.induct) auto

lemma of_nat16_0: "x < 65536 \<Longrightarrow> (of_nat x :: u16) = 0 \<longleftrightarrow> x = 0"
  using unat_eq_0 [of "of_nat x :: u16"] by (simp only: unat_of_nat16)

lemma blk_at_ptr: "blk_at m x t b \<Longrightarrow> (of_nat x :: u16) \<noteq> 0 \<and> m_size (m (of_nat x)) = fst b"
  using of_nat16_0 [of x] by (auto simp: blk_at_def)

text \<open>Two blocks of a chain never overlap.\<close>

lemma placed_disjoint:
  "(x, b) \<in> set (placed a bs) \<Longrightarrow> (y, c) \<in> set (placed a bs) \<Longrightarrow> (x, b) \<noteq> (y, c)
     \<Longrightarrow> x + blen b \<le> y \<or> y + blen c \<le> x"
proof (induction bs arbitrary: a)
  case (Cons d ds)
  then show ?case using placed_range [of _ _ "a + blen d" ds] by fastforce
qed simp

subsection \<open>Merging every free run\<close>

lemma length_absorb: "length (absorb b bs) \<le> Suc (length bs)"
proof (induction b bs rule: absorb.induct)
  case (2 b c cs)
  then show ?case by (cases "snd c = FREE_PSP") simp_all
qed simp

function coalesce :: "blk list \<Rightarrow> blk list" where
  "coalesce [] = []"
| "coalesce (b # bs) =
     (if snd b = FREE_PSP then hd (absorb b bs) # coalesce (tl (absorb b bs))
      else b # coalesce bs)"
  by pat_completeness auto
termination
proof (relation "measure length", goal_cases)
  case (2 b bs)
  have "length (tl (absorb b bs)) \<le> length bs" using length_absorb [of b bs] by simp
  then show ?case by simp
qed simp_all

lemma snd_hd_absorb [simp]: "snd (hd (absorb b bs)) = snd b"
  by (induction b bs rule: absorb.induct) auto

lemma absorb_eq: "absorb b bs = hd (absorb b bs) # tl (absorb b bs)"
  by simp

lemma owned_absorb:
  "snd b = FREE_PSP \<Longrightarrow> span (b # bs) \<le> 65536 \<Longrightarrow> owned a (absorb b bs) = owned a (b # bs)"
proof (induction b bs rule: absorb.induct)
  case (2 b c cs)
  show ?case
  proof (cases "snd c = FREE_PSP")
    case True
    have "blen (fst b + (fst c + 1), snd b) = blen b + blen c"
      using "2.prems"(2) by (auto simp: blen_def unat_word_ariths)
    with True 2 show ?thesis by (auto simp: add.assoc)
  qed simp
qed simp

lemma coalesce_ne [simp]: "coalesce bs = [] \<longleftrightarrow> bs = []"
  by (cases bs) simp_all

lemma coalesce_span_owned:
  "span bs \<le> 65536 \<Longrightarrow> span (coalesce bs) = span bs \<and> owned a (coalesce bs) = owned a bs"
proof (induction bs arbitrary: a rule: coalesce.induct)
  case (2 b bs)
  show ?case
  proof (cases "snd b = FREE_PSP")
    case True
    obtain c cs where ab: "absorb b bs = c # cs" by (metis absorb_eq)
    have sp: "blen c + span cs = blen b + span bs"
      using span_absorb [of b bs] "2.prems" ab by simp
    have ow: "owned a (c # cs) = owned a (b # bs)"
      using owned_absorb [OF True "2.prems", of a] ab by simp
    have "span (coalesce cs) = span cs \<and> owned (a + blen c) (coalesce cs) = owned (a + blen c) cs"
      using "2.IH"(1) [OF True, of "a + blen c"] "2.prems" sp ab by simp
    with True sp ow ab show ?thesis by simp
  next
    case False
    with "2.IH"(2) [OF False, of "a + blen b"] "2.prems" show ?thesis by simp
  qed
qed simp

end
