(* ===== verification/MemAlloc.thy ===== *)
theory MemAlloc
  imports MemArena
begin

text \<open>
  Correctness of \<^const>\<open>DosMemAlloc\<close>: on a well-formed chain the scan ends, merges every free run it
  passes, and leaves \<open>biggestSeg\<close> and \<open>foundSeg\<close> at the blocks the allocation strategy asks for.
\<close>

subsection \<open>The strategies\<close>

definition is_best :: "u16 \<Rightarrow> bool" where
  "is_best mode \<longleftrightarrow> mode = BEST_FIT \<or> mode = BEST_FIT_U \<or> mode = BEST_FIT_UO"

definition is_first :: "u16 \<Rightarrow> bool" where
  "is_first mode \<longleftrightarrow> mode = FIRST_FIT \<or> mode = FIRST_FIT_U \<or> mode = FIRST_FIT_UO"

lemma mode_classes [simp]: "is_best LARGEST = False" "is_first LARGEST = False"
  "is_best mode \<Longrightarrow> \<not> is_first mode" "is_best mode \<Longrightarrow> mode \<noteq> LARGEST"
  "is_first mode \<Longrightarrow> mode \<noteq> LARGEST"
  by (auto simp: is_best_def is_first_def mcb_consts)

lemma fit_rule_eq:
  "fit_rule mode m p found =
     (if mode = LARGEST then Some found
      else if is_best mode then Some (if found = 0 \<or> m_size (m found) > m_size (m p) then p else found)
      else if is_first mode then None else Some p)"
  by (simp add: fit_rule_def is_best_def is_first_def)

text \<open>\<open>big\<close> is the largest free block of the list; \<open>found\<close> is the block the strategy selects.\<close>

definition big_ok :: "nat \<Rightarrow> blk list \<Rightarrow> u16 \<Rightarrow> bool" where
  "big_ok a bs big \<longleftrightarrow>
     (if free_of a bs = {} then big = 0
      else \<exists>x \<in> free_of a bs. big = of_nat (fst x) \<and> (\<forall>y \<in> free_of a bs. fst (snd y) \<le> fst (snd x)))"

definition selects :: "u16 \<Rightarrow> (nat \<times> blk) set \<Rightarrow> nat \<times> blk \<Rightarrow> bool" where
  "selects mode F x \<longleftrightarrow> x \<in> F \<and>
     (if is_best mode then \<forall>y \<in> F. fst (snd x) \<le> fst (snd y)
      else if is_first mode then \<forall>y \<in> F. fst x \<le> fst y
      else \<forall>y \<in> F. fst y \<le> fst x)"

definition found_ok :: "u16 \<Rightarrow> u16 \<Rightarrow> nat \<Rightarrow> blk list \<Rightarrow> u16 \<Rightarrow> bool" where
  "found_ok mode sz a bs found \<longleftrightarrow>
     (if mode = LARGEST \<or> fits sz a bs = {} then found = 0
      else \<exists>x. selects mode (fits sz a bs) x \<and> found = of_nat (fst x))"

lemma found_okI:
  "selects mode (fits sz a bs) x \<Longrightarrow> mode \<noteq> LARGEST \<Longrightarrow> found = of_nat (fst x) \<Longrightarrow>
     found_ok mode sz a bs found"
  unfolding found_ok_def by (metis empty_iff selects_def)

lemma free_of_ptr:
  "blocks m a bs \<Longrightarrow> x \<in> free_of a bs \<Longrightarrow>
     (of_nat (fst x) :: u16) \<noteq> 0 \<and> m_size (m (of_nat (fst x))) = fst (snd x)"
  using blocks_placed [of m a bs "fst x" "snd x"] blk_at_ptr [of m "fst x"]
  by (auto simp: free_of_def)

lemma big_ok_snoc:
  assumes "blocks m a dn" "big_ok a dn big" "snd b = FREE_PSP"
    and b: "blk_at m (a + span dn) t b"
  shows "big_ok a (dn @ [b])
    (if big = 0 \<or> m_size (m big) < m_size (m (of_nat (a + span dn))) then of_nat (a + span dn) else big)"
proof -
  have ptr: "(of_nat (a + span dn) :: u16) \<noteq> 0" "m_size (m (of_nat (a + span dn))) = fst b"
    using blk_at_ptr [OF b] by auto
  show ?thesis
  proof (cases "free_of a dn = {}")
    case True
    with assms(2,3) ptr show ?thesis by (simp add: big_ok_def)
  next
    case False
    with assms(2) obtain x where x: "x \<in> free_of a dn" "big = of_nat (fst x)"
      "\<forall>y \<in> free_of a dn. fst (snd y) \<le> fst (snd x)" by (auto simp: big_ok_def)
    from free_of_ptr [OF assms(1) x(1)] x(2) have "big \<noteq> 0" "m_size (m big) = fst (snd x)" by auto
    with x ptr assms(3) show ?thesis
      by (cases "fst (snd x) < fst b") (force simp: big_ok_def not_less)+
  qed
qed

lemma big_ok_snoc_used: "snd b \<noteq> FREE_PSP \<Longrightarrow> big_ok a (dn @ [b]) big = big_ok a dn big"
  by (simp add: big_ok_def)

lemma found_ok_snoc_skip:
  "\<not> (snd b = FREE_PSP \<and> sz \<le> fst b) \<Longrightarrow> found_ok mode sz a (dn @ [b]) found = found_ok mode sz a dn found"
  by (auto simp: found_ok_def)

lemma fits_below: "x \<in> fits sz a dn \<Longrightarrow> fst x < a + span dn"
  using placed_range [of "fst x" "snd x" a dn] by (cases x) (auto simp: fits_def free_of_def blen_def)

lemma found_ok_snoc:
  assumes "blocks m a dn" "found_ok mode sz a dn found" "snd b = FREE_PSP" "sz \<le> fst b"
    and b: "blk_at m (a + span dn) t b"
    and r: "fit_rule mode m (of_nat (a + span dn)) found = Some found'"
  shows "found_ok mode sz a (dn @ [b]) found'"
proof -
  let ?x = "(a + span dn, b)"
  have ptr: "(of_nat (a + span dn) :: u16) \<noteq> 0" "m_size (m (of_nat (a + span dn))) = fst b"
    using blk_at_ptr [OF b] by auto
  consider (large) "mode = LARGEST" | (best) "is_best mode" | (other) "mode \<noteq> LARGEST" "\<not> is_best mode"
    by blast
  then show ?thesis
  proof cases
    case large
    with assms(2) r show ?thesis by (simp add: found_ok_def fit_rule_eq)
  next
    case other
    with r have "\<not> is_first mode" "found' = of_nat (a + span dn)"
      by (auto simp: fit_rule_eq split: if_splits)
    moreover have "selects mode (fits sz a (dn @ [b])) ?x"
      using other assms(3,4) fits_below [of _ sz a dn] calculation by (auto simp: selects_def less_imp_le)
    ultimately show ?thesis using other by (intro found_okI [where x = ?x]) simp_all
  next
    case best
    show ?thesis
    proof (cases "fits sz a dn = {}")
      case True
      with best assms(2,3,4) r ptr show ?thesis
        by (auto simp: found_ok_def fit_rule_eq selects_def)
    next
      case False
      with best assms(2) obtain x where x: "selects mode (fits sz a dn) x" "found = of_nat (fst x)"
        unfolding found_ok_def by (metis mode_classes(4))
      then have "x \<in> free_of a dn" by (auto simp: selects_def fits_def)
      with free_of_ptr [OF assms(1) this] x(2) best r ptr
      have f': "found \<noteq> 0" "found' = (if fst (snd x) > fst b then of_nat (a + span dn) else found)"
        by (auto simp: fit_rule_eq split: if_splits)
      have "selects mode (fits sz a (dn @ [b])) (if fst (snd x) > fst b then ?x else x)"
        using x(1) best assms(3,4) by (fastforce simp: selects_def)
      with f'(2) x(2) best show ?thesis
        by (intro found_okI [where x = "if fst (snd x) > fst b then ?x else x"]) simp_all
    qed
  qed
qed

subsection \<open>The scan\<close>

text \<open>
  \<open>pre\<close> are the blocks before the start of the scan, \<open>dn\<close> the ones it has passed (free runs merged),
  \<open>rest\<close> those ahead.
\<close>

definition scan_inv :: "u16 \<Rightarrow> u16 \<Rightarrow> nat \<Rightarrow> blk list \<Rightarrow> blk list \<Rightarrow> scan_vars \<Rightarrow> blk list \<Rightarrow> blk list \<Rightarrow> bool" where
  "scan_inv sz mode a pre bs v dn rest = (case v of (p, big, found, m) \<Rightarrow>
     chain m a (pre @ dn @ rest) \<and> rest \<noteq> [] \<and> coalesce bs = dn @ coalesce rest
     \<and> p = of_nat (a + span pre + span dn)
     \<and> big_ok (a + span pre) dn big \<and> found_ok mode sz (a + span pre) dn found
     \<and> (is_first mode \<longrightarrow> fits sz (a + span pre) dn = {}))"

definition scan_post :: "u16 \<Rightarrow> u16 \<Rightarrow> nat \<Rightarrow> blk list \<Rightarrow> blk list \<Rightarrow> scan_exit \<Rightarrow> bool" where
  "scan_post sz mode a pre bs ex = (case ex of
     Scan_corrupt m \<Rightarrow> False
   | Scan_stopIt f m \<Rightarrow> is_first mode \<and>
       (\<exists>dn b rest. chain m a (pre @ dn @ b # rest) \<and> coalesce bs = dn @ b # coalesce rest
          \<and> f = of_nat (a + span pre + span dn)
          \<and> snd b = FREE_PSP \<and> sz \<le> fst b \<and> fits sz (a + span pre) dn = {})
   | Scan_end big found m \<Rightarrow> chain m a (pre @ coalesce bs)
       \<and> big_ok (a + span pre) (coalesce bs) big
       \<and> found_ok mode sz (a + span pre) (coalesce bs) found
       \<and> (is_first mode \<longrightarrow> fits sz (a + span pre) (coalesce bs) = {}))"

text \<open>Passing block \<open>b\<close>, once it is merged with what follows it.\<close>

lemma scan_next_step:
  assumes ch: "chain m a (pre @ dn @ b # rest)" and co: "coalesce bs = dn @ b # coalesce rest"
    and p: "p = of_nat (a + span pre + span dn)"
    and big: "big_ok (a + span pre) (dn @ [b]) big"
    and found: "found_ok mode sz (a + span pre) (dn @ [b]) found"
    and first: "is_first mode \<longrightarrow> fits sz (a + span pre) (dn @ [b]) = {}"
  shows "case scan_next (p, big, found, m) of
      Inl r \<Rightarrow> scan_post sz mode a pre bs r
    | Inr v \<Rightarrow> scan_inv sz mode a pre bs v (dn @ [b]) rest"
proof -
  from ch have chp: "chain m (a + span pre + span dn) (b # rest)"
    using chain_append [of "b # rest" m a "pre @ dn"] by (simp add: add.assoc)
  have b: "blk_at m (a + span pre + span dn) (if rest = [] then MCB_LAST else MCB_NORMAL) b"
    using chp by (rule chain_hd)
  show ?thesis
  proof (cases "rest = []")
    case True
    with b p have "scan_next (p, big, found, m) = Inl (Scan_end big found m)"
      by (simp add: scan_next_def blk_at_def)
    with True ch co big found first show ?thesis by (simp add: scan_post_def)
  next
    case False
    have "nxtMCB m p = of_nat (a + span pre + span (dn @ [b]))"
      using b p nxtMCB_of_nat [of m "a + span pre + span dn" b] by (simp add: blk_at_def add.assoc)
    with b p False have "scan_next (p, big, found, m) =
        Inr (of_nat (a + span pre + span (dn @ [b])), big, found, m)"
      by (simp add: scan_next_def blk_at_def)
    with False ch co big found first show ?thesis by (simp add: scan_inv_def)
  qed
qed

lemma scan_body_step:
  assumes inv: "scan_inv sz mode a pre bs (p, big, found, m) dn rest"
  shows "case scan_body sz mode (p, big, found, m) of
      Inl r \<Rightarrow> scan_post sz mode a pre bs r
    | Inr v \<Rightarrow> (\<exists>dn' rest'. scan_inv sz mode a pre bs v dn' rest' \<and> length rest' < length rest)"
proof -
  let ?a = "a + span pre + span dn"
  obtain b rs where rest: "rest = b # rs" using inv by (cases rest) (auto simp: scan_inv_def)
  from inv have ch: "chain m a (pre @ dn @ b # rs)" and co: "coalesce bs = dn @ coalesce (b # rs)"
    and p: "p = of_nat ?a" and big: "big_ok (a + span pre) dn big"
    and found: "found_ok mode sz (a + span pre) dn found"
    and first: "is_first mode \<longrightarrow> fits sz (a + span pre) dn = {}"
    by (auto simp: scan_inv_def rest)
  from ch have bl: "blocks m a (pre @ dn)" and chp: "chain m ?a (b # rs)"
    using chain_append [of "b # rs" m a "pre @ dn"] by (simp_all add: add.assoc)
  have hd: "blk_at m ?a (if rs = [] then MCB_LAST else MCB_NORMAL) b" using chp by (rule chain_hd)
  have val: "mcbValid (m p)" unfolding p by (rule blk_at_valid [OF hd]) simp
  show ?thesis
  proof (cases "snd b = FREE_PSP")
    case False
    with hd p have "\<not> mcbFree (m p)" by (simp add: mcbFree_def blk_at_def)
    with val have "scan_body sz mode (p, big, found, m) = scan_next (p, big, found, m)"
      by (simp add: scan_body_def)
    moreover have "case scan_next (p, big, found, m) of Inl r \<Rightarrow> scan_post sz mode a pre bs r
        | Inr v \<Rightarrow> scan_inv sz mode a pre bs v (dn @ [b]) rs"
      using False co big found first
      by (intro scan_next_step [OF ch _ p]) (simp_all add: big_ok_snoc_used found_ok_snoc_skip)
    ultimately show ?thesis by (simp only: rest) (erule case_sum_mono, auto)
  next
    case True
    with hd p have fr: "mcbFree (m p)" by (simp add: mcbFree_def blk_at_def)
    obtain c cs where ab: "absorb b rs = c # cs" by (metis absorb_eq)
    from joinMCBs_chain [OF chp] obtain m1 where j: "joinMCBs p m = (SUCCESS, m1)"
      and ch1: "chain m1 ?a (c # cs)" and so: "same_outside ?a (?a + span (b # rs)) m m1"
      using ab p by auto
    have free_c: "snd c = FREE_PSP" using True snd_hd_absorb [of b rs] ab by simp
    have co1: "coalesce bs = dn @ c # coalesce cs" using co True ab by simp
    have bl1: "blocks m1 a (pre @ dn)" using bl so by (rule blocks_frame_below) simp
    with ch1 have chain1: "chain m1 a (pre @ dn @ c # cs)"
      using chain_append [of "c # cs" m1 a "pre @ dn"] by (simp add: add.assoc)
    from bl1 have bd1: "blocks m1 (a + span pre) dn" by (simp add: blocks_append)
    have hd1: "blk_at m1 (a + span pre + span dn) (if cs = [] then MCB_LAST else MCB_NORMAL) c"
      using ch1 by (rule chain_hd)
    have psz: "m_size (m1 p) = fst c" using hd1 p by (simp add: blk_at_def)
    have len: "length cs < length rest" using length_absorb [of b rs] ab rest by simp
    let ?big = "if big = 0 \<or> m_size (m1 big) < m_size (m1 p) then p else big"
    have big': "big_ok (a + span pre) (dn @ [c]) ?big"
      unfolding p by (rule big_ok_snoc [OF bd1 big free_c hd1])
    have body: "scan_body sz mode (p, big, found, m) =
        (if sz \<le> m_size (m1 p) then
           (case fit_rule mode m1 p found of None \<Rightarrow> Inl (Scan_stopIt p m1)
            | Some f \<Rightarrow> scan_next (p, ?big, f, m1))
         else scan_next (p, ?big, found, m1))"
      using val fr by (simp add: scan_body_def j Let_def)
    show ?thesis
    proof (cases "sz \<le> fst c")
      case False
      have "found_ok mode sz (a + span pre) (dn @ [c]) found"
        using found False by (simp add: found_ok_snoc_skip)
      from scan_next_step [OF chain1 co1 p big' this] False first
      have "case scan_next (p, ?big, found, m1) of Inl r \<Rightarrow> scan_post sz mode a pre bs r
        | Inr v \<Rightarrow> scan_inv sz mode a pre bs v (dn @ [c]) cs" by simp
      then show ?thesis using False len unfolding body psz
        by (simp only: if_False) (erule case_sum_mono, blast)
    next
      case fit: True
      show ?thesis
      proof (cases "fit_rule mode m1 p found")
        case None
        then have "is_first mode" by (auto simp: fit_rule_eq split: if_splits)
        with fit chain1 co1 p free_c first have "scan_post sz mode a pre bs (Scan_stopIt p m1)"
          unfolding scan_post_def by (simp only: scan_exit.case) blast
        then show ?thesis using fit unfolding body psz None by (simp only: if_True option.case sum.case)
      next
        case (Some f)
        have f: "found_ok mode sz (a + span pre) (dn @ [c]) f"
          by (rule found_ok_snoc [OF bd1 found free_c fit hd1 Some [unfolded p]])
        have "\<not> is_first mode" using Some by (auto simp: fit_rule_eq split: if_splits)
        with scan_next_step [OF chain1 co1 p big' f]
        have "case scan_next (p, ?big, f, m1) of Inl r \<Rightarrow> scan_post sz mode a pre bs r
          | Inr v \<Rightarrow> scan_inv sz mode a pre bs v (dn @ [c]) cs" by simp
        then show ?thesis using fit len unfolding body psz Some
          by (simp only: if_True option.case) (erule case_sum_mono, blast)
      qed
    qed
  qed
qed

lemma scan_correct:
  assumes "chain m a (pre @ bs)" "bs \<noteq> []"
  shows "\<exists>ex. loop (scan_body sz mode) (of_nat (a + span pre), 0, 0, m) = Some ex
    \<and> scan_post sz mode a pre bs ex"
proof (rule loop_ghost [where J = "\<lambda>v n. \<exists>dn rest. scan_inv sz mode a pre bs v dn rest \<and> length rest = n"])
  show "\<exists>dn rest. scan_inv sz mode a pre bs (of_nat (a + span pre), 0, 0, m) dn rest \<and> length rest = length bs"
    using assms by (intro exI [of _ "[]"] exI [of _ bs]) (simp add: scan_inv_def big_ok_def found_ok_def)
next
  fix v n
  assume "\<exists>dn rest. scan_inv sz mode a pre bs v dn rest \<and> length rest = n"
  then obtain dn rest where inv: "scan_inv sz mode a pre bs v dn rest" "length rest = n" by blast
  obtain p big found m where v: "v = (p, big, found, m)" by (cases v) auto
  show "case scan_body sz mode v of Inl r \<Rightarrow> scan_post sz mode a pre bs r
      | Inr v' \<Rightarrow> \<exists>n'<n. \<exists>dn rest. scan_inv sz mode a pre bs v' dn rest \<and> length rest = n'"
    using scan_body_step [OF inv(1) [unfolded v]] unfolding v inv(2) [symmetric]
    by (rule case_sum_mono) blast
qed

subsection \<open>Splitting and giving away a block\<close>

lemma chain_mid:
  "chain m a (pre @ b # rest) \<longleftrightarrow> blocks m a pre
     \<and> blk_at m (a + span pre) (if rest = [] then MCB_LAST else MCB_NORMAL) b
     \<and> (rest \<noteq> [] \<longrightarrow> chain m (a + span pre + blen b) rest)"
  by (cases "rest = []") (simp_all add: chain_append chain_Cons)

text \<open>Rewriting the inside of one block of a chain.\<close>

lemma chain_replace:
  assumes "chain m a (pre @ b # rest)" "mid \<noteq> []" "span mid = blen b"
    and "same_outside (a + span pre) (a + span pre + blen b) m m'"
    and "blocks m' (a + span pre) (butlast mid)"
    and "blk_at m' (a + span pre + span (butlast mid)) (if rest = [] then MCB_LAST else MCB_NORMAL) (last mid)"
  shows "chain m' a (pre @ mid @ rest)"
proof -
  let ?a = "a + span pre"
  from assms(1) have pre: "blocks m a pre" and rest: "rest \<noteq> [] \<longrightarrow> chain m (?a + blen b) rest"
    by (auto simp: chain_mid)
  have "blocks m' a pre" using pre assms(4) by (rule blocks_frame_below) simp
  moreover have "rest \<noteq> [] \<longrightarrow> chain m' (?a + blen b) rest"
    using rest assms(4) chain_frame_above by blast
  moreover have mid: "mid = butlast mid @ [last mid]" using assms(2) by simp
  moreover have "span (butlast mid) + blen (last mid) = blen b"
    using assms(3) mid by (metis span_simps(1) span_simps(2) span_simps(3) add.right_neutral)
  ultimately have "chain m' a ((pre @ butlast mid) @ last mid # rest)"
    using assms(5,6) unfolding chain_mid by (simp add: blocks_append add.assoc)
  then show ?thesis using mid by (metis append.assoc append_Cons append_Nil)
qed

definition carve :: "u16 \<Rightarrow> u16 \<Rightarrow> u16 \<Rightarrow> blk \<Rightarrow> blk list" where
  "carve sz mode psp b =
     (if mode = LARGEST \<or> sz = fst b then [(fst b, psp)]
      else if mode = LAST_FIT \<or> mode = LAST_FIT_UO \<or> mode = LAST_FIT_U
      then [(fst b - (sz + 1), FREE_PSP), (sz, psp)]
      else [(sz, psp), (fst b - sz - 1, FREE_PSP)])"

definition carve_pos :: "u16 \<Rightarrow> u16 \<Rightarrow> blk \<Rightarrow> nat" where
  "carve_pos sz mode b =
     (if mode \<noteq> LARGEST \<and> sz \<noteq> fst b \<and> (mode = LAST_FIT \<or> mode = LAST_FIT_UO \<or> mode = LAST_FIT_U)
      then unat (fst b) - unat sz else 0)"

lemma unat_diff16: "sz < x \<Longrightarrow> unat (x - (sz + 1) :: u16) = unat x - unat sz - 1"
proof -
  assume "sz < x"
  then have lt: "unat sz < unat x" by (simp add: word_less_nat_alt)
  then have "unat sz + 1 < 65536" using unat_lt16 [of x] by linarith
  then have "unat (sz + 1) = unat sz + 1" using unat_add16 [of sz 1] by simp
  then show ?thesis using lt unat_sub_if' [of x "sz + 1"] by simp
qed

lemma unat_diff16': "sz < x \<Longrightarrow> unat (x - sz - 1 :: u16) = unat x - unat sz - 1"
  using unat_diff16 [of sz x] by (simp only: diff_diff_add)

lemma span_carve: "mode = LARGEST \<or> sz \<le> fst b \<Longrightarrow> span (carve sz mode psp b) = blen b"
proof -
  assume h: "mode = LARGEST \<or> sz \<le> fst b"
  show ?thesis
  proof (cases "mode = LARGEST \<or> sz = fst b")
    case False
    with h have lt: "sz < fst b" by (auto simp: le_neq_trans)
    then have "unat sz < unat (fst b)" by (simp add: word_less_nat_alt)
    then show ?thesis using False unat_diff16 [OF lt] unat_diff16' [OF lt]
      by (simp add: carve_def blen_def)
  qed (auto simp: carve_def blen_def)
qed

lemma of_nat_after:
  "sz < x \<Longrightarrow> of_nat a + (x - (sz + 1)) + 1 = (of_nat (a + (unat x - unat sz)) :: u16)"
  by (simp add: word_less_nat_alt)

lemma split_last_chain:
  assumes ch: "chain m a (pre @ b # rest)" and lt: "sz < fst b" and fr: "snd b = FREE_PSP"
  shows "\<exists>m'. split_last sz (of_nat (a + span pre)) m = (of_nat (a + span pre + (unat (fst b) - unat sz)), m')
    \<and> chain m' a (pre @ [(fst b - (sz + 1), FREE_PSP), (sz, m_psp (m' (of_nat (a + span pre + (unat (fst b) - unat sz)))))] @ rest)
    \<and> same_outside (a + span pre) (a + span pre + blen b) m m'"
proof -
  let ?a = "a + span pre" and ?d = "unat (fst b) - unat sz"
  let ?t = "if rest = [] then MCB_LAST else MCB_NORMAL"
  have b: "blk_at m ?a ?t b" using ch by (simp add: chain_mid)
  have ltn: "unat sz < unat (fst b)" using lt by (simp add: word_less_nat_alt)
  have bnd: "?a + unat (fst b) < 65536" using b by (simp add: blk_at_def)
  then have un: "unat (of_nat ?a :: u16) = ?a" "unat (of_nat (?a + ?d) :: u16) = ?a + ?d"
    using ltn unat_of_nat16 [of ?a] unat_of_nat16 [of "?a + ?d"] by linarith+
  then have ne: "(of_nat ?a :: u16) \<noteq> of_nat (?a + ?d)" using ltn by auto
  have d: "unat (fst b - (sz + 1)) = ?d - 1" using unat_diff16 [OF lt] by simp
  define p f where "p = (of_nat ?a :: u16)" and "f = (of_nat (?a + ?d) :: u16)"
  have f: "p + (fst b - (sz + 1)) + 1 = f" using of_nat_after [OF lt] by (simp only: p_def f_def)
  obtain f' m' where sl: "split_last sz p m = (f', m')" by fastforce
  have pb: "m_type (m p) = ?t" "m_size (m p) = fst b" "m_psp (m p) = FREE_PSP"
    using b fr by (simp_all add: blk_at_def p_def)
  have nepf: "p \<noteq> f" using ne by (simp only: p_def f_def not_False_eq_True)
  have f': "f' = f" and m'p: "m_type (m' p) = MCB_NORMAL \<and> m_size (m' p) = fst b - (sz + 1) \<and> m_psp (m' p) = FREE_PSP"
    and m'f: "m_type (m' f) = ?t \<and> m_size (m' f) = sz" and m'o: "\<And>s. s \<noteq> p \<Longrightarrow> s \<noteq> f \<Longrightarrow> m' s = m s"
    using sl pb nepf f by (auto simp: split_last_def Let_def nxtMCB_def nxtMCBsize_def)
  have so: "same_outside ?a (?a + blen b) m m'"
  proof (rule same_outside_two [OF m'o])
    show "?a \<le> unat p" "unat p < ?a + blen b" "?a \<le> unat f" "unat f < ?a + blen b"
      using un ltn unfolding p_def f_def blen_def by linarith+
  qed
  have "chain m' a (pre @ [(fst b - (sz + 1), FREE_PSP), (sz, m_psp (m' f))] @ rest)"
  proof (rule chain_replace [OF ch _ _ so])
    show "span [(fst b - (sz + 1), FREE_PSP), (sz, m_psp (m' f))] = blen b"
      using d ltn by (simp add: blen_def)
    show "blocks m' ?a (butlast [(fst b - (sz + 1), FREE_PSP), (sz, m_psp (m' f))])"
      using m'p bnd d ltn b by (simp add: blk_at_def p_def)
    show "blk_at m' (?a + span (butlast [(fst b - (sz + 1), FREE_PSP), (sz, m_psp (m' f))])) ?t
        (last [(fst b - (sz + 1), FREE_PSP), (sz, m_psp (m' f))])"
    proof (rule blk_atI [of f])
      show "f = of_nat (?a + span (butlast [(fst b - (sz + 1), FREE_PSP), (sz, m_psp (m' f))]))"
        using ltn d unfolding f_def by (intro arg_cong [where f = of_nat]) (simp add: blen_def)
      show "?a + span (butlast [(fst b - (sz + 1), FREE_PSP), (sz, m_psp (m' f))])
          + unat (fst (last [(fst b - (sz + 1), FREE_PSP), (sz, m_psp (m' f))])) < 65536"
        using bnd d ltn by (simp add: blen_def)
    qed (use m'f b in \<open>simp_all add: blk_at_def\<close>)
  qed simp
  with sl f' so show ?thesis unfolding p_def f_def by blast
qed

lemma split_first_chain:
  assumes ch: "chain m a (pre @ b # rest)" and lt: "sz < fst b"
  shows "\<exists>m'. split_first sz (of_nat (a + span pre)) m = (of_nat (a + span pre), m')
    \<and> chain m' a (pre @ [(sz, snd b), (fst b - sz - 1, FREE_PSP)] @ rest)
    \<and> same_outside (a + span pre) (a + span pre + blen b) m m'"
proof -
  let ?a = "a + span pre" and ?d = "unat sz + 1"
  let ?t = "if rest = [] then MCB_LAST else MCB_NORMAL"
  have b: "blk_at m ?a ?t b" using ch by (simp add: chain_mid)
  have ltn: "unat sz < unat (fst b)" using lt by (simp add: word_less_nat_alt)
  have bnd: "?a + unat (fst b) < 65536" using b by (simp add: blk_at_def)
  then have un: "unat (of_nat ?a :: u16) = ?a" "unat (of_nat (?a + ?d) :: u16) = ?a + ?d"
    using ltn unat_of_nat16 [of ?a] unat_of_nat16 [of "?a + ?d"] by linarith+
  have d: "unat (fst b - sz - 1) = unat (fst b) - unat sz - 1"
    by (rule unat_diff16' [OF lt])
  define p f where "p = (of_nat ?a :: u16)" and "f = (of_nat (?a + ?d) :: u16)"
  have f: "nxtMCBsize p sz = f" by (simp add: p_def f_def nxtMCBsize_def)
  obtain p' m' where sl: "split_first sz p m = (p', m')" by fastforce
  have pb: "m_type (m p) = ?t" "m_size (m p) = fst b" "m_psp (m p) = snd b"
    using b by (simp_all add: blk_at_def p_def)
  have nepf: "p \<noteq> f" using un unfolding p_def f_def by (metis add_cancel_left_right add_is_0 one_neq_zero)
  have p': "p' = p" and m'p: "m_type (m' p) = MCB_NORMAL \<and> m_size (m' p) = sz \<and> m_psp (m' p) = snd b"
    and m'f: "m_type (m' f) = ?t \<and> m_size (m' f) = fst b - sz - 1 \<and> m_psp (m' f) = FREE_PSP"
    and m'o: "\<And>s. s \<noteq> p \<Longrightarrow> s \<noteq> f \<Longrightarrow> m' s = m s"
    using sl pb nepf f by (auto simp: split_first_def Let_def)
  have so: "same_outside ?a (?a + blen b) m m'"
  proof (rule same_outside_two [OF m'o])
    show "?a \<le> unat p" "unat p < ?a + blen b" "?a \<le> unat f" "unat f < ?a + blen b"
      using un ltn unfolding p_def f_def blen_def by linarith+
  qed
  have "chain m' a (pre @ [(sz, snd b), (fst b - sz - 1, FREE_PSP)] @ rest)"
  proof (rule chain_replace [OF ch _ _ so])
    show "span [(sz, snd b), (fst b - sz - 1, FREE_PSP)] = blen b"
      using d ltn by (simp add: blen_def)
    show "blocks m' ?a (butlast [(sz, snd b), (fst b - sz - 1, FREE_PSP)])"
      using m'p bnd ltn b by (simp add: blk_at_def p_def)
    show "blk_at m' (?a + span (butlast [(sz, snd b), (fst b - sz - 1, FREE_PSP)])) ?t
        (last [(sz, snd b), (fst b - sz - 1, FREE_PSP)])"
      using m'f bnd d ltn b by (simp add: blk_at_def f_def blen_def add.assoc)
  qed simp
  with sl p' so show ?thesis unfolding p_def f_def by blast
qed

lemma chain_set_psp:
  assumes ch: "chain m a (pre @ b # rest)" and p: "p = of_nat (a + span pre)"
    and m': "m_type (m' p) = m_type (m p)" "m_size (m' p) = m_size (m p)" "m_psp (m' p) = psp"
      "\<And>s. s \<noteq> p \<Longrightarrow> m' s = m s"
  shows "chain m' a (pre @ (fst b, psp) # rest)"
proof -
  let ?a = "a + span pre"
  have b: "blk_at m ?a (if rest = [] then MCB_LAST else MCB_NORMAL) b" using ch by (simp add: chain_mid)
  then have "unat p = ?a" using blk_at_less unat_of_nat16 unfolding p by blast
  then have so: "same_outside ?a (?a + blen b) m m'"
    using m'(4) by (intro same_outside_two [of p p]) (simp_all add: blen_def)
  have "chain m' a (pre @ [(fst b, psp)] @ rest)"
    by (rule chain_replace [OF ch _ _ so])
      (use b m' in \<open>auto intro!: blk_atI [OF p] simp: blen_def blk_at_def p\<close>)
  then show ?thesis by simp
qed

lemma alloc_take_chain:
  assumes ch: "chain m a (pre @ b # rest)" and fr: "snd b = FREE_PSP" and le: "mode = LARGEST \<or> sz \<le> fst b"
  shows "\<exists>m'. alloc_take sz mode psp (of_nat (a + span pre)) m
      = (of_nat (a + span pre + carve_pos sz mode b), m')
    \<and> chain m' a (pre @ carve sz mode psp b @ rest)"
proof -
  let ?p = "of_nat (a + span pre) :: u16"
  let ?last = "mode = LAST_FIT \<or> mode = LAST_FIT_UO \<or> mode = LAST_FIT_U"
  have psz: "m_size (m ?p) = fst b" using ch by (simp add: chain_mid blk_at_def)
  have lt: "sz < fst b" if "mode \<noteq> LARGEST" "sz \<noteq> fst b" using that le by (simp add: le_neq_trans)
  define give where "give f m1 = (let m2 = m1(f := (m1 f)\<lparr>m_psp := psp\<rparr>)
    in m2(f := (m2 f)\<lparr>m_name := (m_name (m2 f))[0 := 0]\<rparr>))" for f and m1 :: arena
  have give: "chain (give (of_nat (a + span xs)) m1) a (xs @ (fst c, psp) # ys)"
    if "chain m1 a (xs @ c # ys)" for m1 xs c ys
    by (rule chain_set_psp [OF that refl]) (simp_all add: give_def Let_def)
  consider (whole) "mode = LARGEST \<or> sz = fst b" | (last) "mode \<noteq> LARGEST" "sz \<noteq> fst b" ?last
    | (first) "mode \<noteq> LARGEST" "sz \<noteq> fst b" "\<not> ?last" by blast
  then show ?thesis
  proof cases
    case whole
    with psz have "alloc_take sz mode psp ?p m = (?p, give ?p m)"
      by (auto simp: alloc_take_def give_def Let_def)
    with whole give [OF ch] show ?thesis by (auto simp: carve_def carve_pos_def)
  next
    case last
    let ?d = "unat (fst b) - unat sz"
    obtain m1 where m1: "split_last sz ?p m = (of_nat (a + span pre + ?d), m1)"
      "chain m1 a (pre @ [(fst b - (sz + 1), FREE_PSP), (sz, m_psp (m1 (of_nat (a + span pre + ?d))))] @ rest)"
      using split_last_chain [OF ch lt [OF last(1,2)] fr] by blast
    have pos: "span (pre @ [(fst b - (sz + 1), FREE_PSP)]) = span pre + ?d"
      using unat_diff16 [OF lt [OF last(1,2)]] lt [OF last(1,2)] by (simp add: blen_def word_less_nat_alt)
    have "alloc_take sz mode psp ?p m = (of_nat (a + span pre + ?d), give (of_nat (a + span pre + ?d)) m1)"
      using last psz m1(1) by (auto simp: alloc_take_def give_def Let_def)
    moreover have "chain (give (of_nat (a + span pre + ?d)) m1) a
        (pre @ [(fst b - (sz + 1), FREE_PSP), (sz, psp)] @ rest)"
      using give [of m1 "pre @ [(fst b - (sz + 1), FREE_PSP)]"
          "(sz, m_psp (m1 (of_nat (a + span pre + ?d))))" rest] m1(2) pos by (simp add: add.assoc)
    ultimately show ?thesis using last by (simp add: carve_def carve_pos_def del: of_nat_add)
  next
    case first
    obtain m1 where m1: "split_first sz ?p m = (?p, m1)"
      "chain m1 a (pre @ [(sz, snd b), (fst b - sz - 1, FREE_PSP)] @ rest)"
      using split_first_chain [OF ch lt [OF first(1,2)]] by blast
    have "alloc_take sz mode psp ?p m = (?p, give ?p m1)"
      using first psz m1(1) by (simp add: alloc_take_def give_def Let_def)
    with give [of m1 pre "(sz, snd b)"] m1(2) first show ?thesis by (simp add: carve_def carve_pos_def)
  qed
qed

subsection \<open>One pass\<close>

text \<open>
  \<open>tail\<close> are the blocks from the start of the scan on. A pass either gives away a block \<open>b\<close> that the
  strategy selects among the merged free runs of \<open>tail\<close>, or finds that none of them is usable.
\<close>

definition chosen :: "u16 \<Rightarrow> u16 \<Rightarrow> nat \<Rightarrow> blk list \<Rightarrow> nat \<times> blk \<Rightarrow> bool" where
  "chosen sz mode a bs x \<longleftrightarrow>
     (if mode = LARGEST
      then x \<in> free_of a bs \<and> (\<forall>y \<in> free_of a bs. fst (snd y) \<le> fst (snd x)) \<and> sz \<le> fst (snd x)
      else selects mode (fits sz a bs) x)"

definition gives :: "u16 \<Rightarrow> u16 \<Rightarrow> memstate \<Rightarrow> nat \<Rightarrow> blk list \<Rightarrow> blk list \<Rightarrow> alloc_ret \<Rightarrow> bool" where
  "gives sz mode st a pre tail r \<longleftrightarrow> (\<exists>dn b rest m.
     chosen sz mode (a + span pre) (coalesce tail) (a + span pre + span dn, b)
     \<and> span (dn @ b # rest) = span tail \<and> owned (a + span pre) (dn @ b # rest) = owned (a + span pre) tail
     \<and> chain m a (pre @ dn @ carve sz mode (cu_psp st) b @ rest)
     \<and> al_rc r = SUCCESS \<and> al_para r = Some (of_nat (a + span pre + span dn + carve_pos sz mode b))
     \<and> al_asize r = (if mode = LARGEST then Some (fst b) else None) \<and> al_st r = st\<lparr>mcbs := m\<rparr>)"

definition none_usable :: "u16 \<Rightarrow> u16 \<Rightarrow> nat \<Rightarrow> blk list \<Rightarrow> bool" where
  "none_usable sz mode a bs \<longleftrightarrow> (\<forall>x. chosen sz mode a bs x \<longrightarrow> fst (snd x) = 0)
     \<and> (is_first mode \<longrightarrow> fits sz a bs = {})"

definition largest_free :: "nat \<Rightarrow> blk list \<Rightarrow> u16" where
  "largest_free a bs = Max (insert 0 ((fst \<circ> snd) ` free_of a bs))"

lemma big_ok_largest:
  assumes "chain m a (pre @ bs)" "bs \<noteq> []" "big_ok (a + span pre) bs big"
  shows "(if big \<noteq> 0 then m_size (m big) else 0) = largest_free (a + span pre) bs"
proof (cases "free_of (a + span pre) bs = {}")
  case True
  with assms(3) show ?thesis by (simp add: big_ok_def largest_free_def)
next
  case False
  with assms(3) obtain x where x: "x \<in> free_of (a + span pre) bs" "big = of_nat (fst x)"
    "\<forall>y \<in> free_of (a + span pre) bs. fst (snd y) \<le> fst (snd x)" by (auto simp: big_ok_def)
  have "(fst x, snd x) \<in> set (placed (a + span pre) bs)" using x(1) by (simp add: free_of_def)
  moreover have "chain m (a + span pre) bs" using assms(1,2) by (simp add: chain_append)
  ultimately have "big \<noteq> 0 \<and> m_size (m big) = fst (snd x)"
    using placed_blk_at [of m "a + span pre" bs "fst x" "snd x"] blk_at_ptr x(2) by metis
  moreover have "Max (insert 0 ((fst \<circ> snd) ` free_of (a + span pre) bs)) = fst (snd x)"
    using x by (intro Max_eqI) (auto simp: free_of_def)
  ultimately show ?thesis by (simp add: largest_free_def)
qed

lemma gives_alloc_give:
  assumes ch: "chain m a (pre @ dn @ b # rest)"
    and sel: "chosen sz mode (a + span pre) (coalesce tail) (a + span pre + span dn, b)"
    and eq: "span (dn @ b # rest) = span tail" "owned (a + span pre) (dn @ b # rest) = owned (a + span pre) tail"
    and f: "f = of_nat (a + span pre + span dn)"
    and asz: "asize = (if mode = LARGEST then Some (fst b) else None)"
  shows "gives sz mode st a pre tail (alloc_give sz mode f asize st m)"
proof -
  have b: "snd b = FREE_PSP" "mode = LARGEST \<or> sz \<le> fst b"
    using sel by (auto simp: chosen_def selects_def fits_def free_of_def split: if_splits)
  obtain m' where m': "alloc_take sz mode (cu_psp st) f m
      = (of_nat (a + span pre + span dn + carve_pos sz mode b), m')"
    "chain m' a (pre @ dn @ carve sz mode (cu_psp st) b @ rest)"
    using alloc_take_chain [of m a "pre @ dn" b rest mode sz "cu_psp st"] ch b
    by (auto simp add: f add.assoc simp del: of_nat_add)
  show ?thesis unfolding gives_def
    by (rule exI [of _ dn], rule exI [of _ b], rule exI [of _ rest], rule exI [of _ m'])
      (use sel eq m' asz in \<open>simp add: alloc_give_def del: of_nat_add\<close>)
qed

lemma placed_ex: "x \<in> set (placed a bs) \<Longrightarrow> \<exists>dn rest. bs = dn @ snd x # rest \<and> fst x = a + span dn"
proof (induction bs arbitrary: a)
  case (Cons c cs)
  then consider "x = (a, c)" | "x \<in> set (placed (a + blen c) cs)" by auto
  then show ?case
  proof cases
    case 1
    then show ?thesis by (intro exI [of _ "[]"] exI [of _ cs]) simp
  next
    case 2
    from Cons.IH [OF this] obtain dn rest where "cs = dn @ snd x # rest" "fst x = a + blen c + span dn" by auto
    then show ?thesis by (intro exI [of _ "c # dn"] exI [of _ rest]) (simp add: add.assoc)
  qed
qed simp

definition falls_back :: "u16 \<Rightarrow> memstate \<Rightarrow> bool" where
  "falls_back mode st \<longleftrightarrow> mode \<noteq> LARGEST \<and> mode AND FIRST_FIT_U \<noteq> 0 \<and> upper_linked st"

definition pass_post :: "u16 \<Rightarrow> u16 \<Rightarrow> memstate \<Rightarrow> nat \<Rightarrow> blk list \<Rightarrow> blk list \<Rightarrow>
    alloc_ret + (u16 \<times> memstate) \<Rightarrow> bool" where
  "pass_post sz mode st a pre tail r = (case r of
     Inl ret \<Rightarrow> gives sz mode st a pre tail ret
       \<or> (none_usable sz mode (a + span pre) (coalesce tail) \<and> \<not> falls_back mode st
          \<and> (\<exists>m. chain m a (pre @ coalesce tail)
               \<and> ret = \<lparr>al_rc = DE_NOMEM, al_para = None,
                        al_asize = Some (largest_free (a + span pre) (coalesce tail)), al_st = st\<lparr>mcbs := m\<rparr>\<rparr>))
   | Inr ms \<Rightarrow> none_usable sz mode (a + span pre) (coalesce tail) \<and> falls_back mode st
       \<and> (\<exists>m. chain m a (pre @ coalesce tail) \<and> ms = (mode AND NOT FIRST_FIT_U, st\<lparr>mcbs := m\<rparr>)))"

lemma placed_same_pos:
  "x \<in> set (placed a bs) \<Longrightarrow> y \<in> set (placed a bs) \<Longrightarrow> fst x = fst y \<Longrightarrow> x = y"
  using placed_disjoint [of "fst x" "snd x" a bs "fst y" "snd y"] by (cases x; cases y) force

lemma chosen_free: "chosen sz mode a bs x \<Longrightarrow> x \<in> free_of a bs"
  by (auto simp: chosen_def selects_def fits_def split: if_splits)

lemma chosen_size_unique:
  assumes x: "chosen sz mode a bs x" and y: "chosen sz mode a bs y"
  shows "fst (snd x) = fst (snd y)"
proof -
  have "x \<in> set (placed a bs)" "y \<in> set (placed a bs)"
    using x y [THEN chosen_free] chosen_free by (auto simp: free_of_def)
  then have "fst x = fst y \<Longrightarrow> x = y" by (rule placed_same_pos)
  moreover have "fst (snd x) = fst (snd y) \<or> fst x = fst y"
    using x y by (auto simp: chosen_def selects_def split: if_splits intro: antisym)
  ultimately show ?thesis by blast
qed

lemma free_of_chain_ptr:
  assumes "chain m a bs" "x \<in> free_of a bs"
  shows "(of_nat (fst x) :: u16) \<noteq> 0 \<and> m_size (m (of_nat (fst x))) = fst (snd x)"
  using placed_blk_at [of m a bs "fst x" "snd x"] blk_at_ptr [of m "fst x" _ "snd x"] assms
  by (fastforce simp: free_of_def)

text \<open>\<open>foundSeg\<close> at the end of the scan: 0, or the block the strategy chooses.\<close>

lemma found_chosen:
  assumes ch: "chain m a bs" and big: "big_ok a bs big" and found: "found_ok mode sz a bs found"
    and f: "f = (if mode = LARGEST \<and> big \<noteq> 0 \<and> sz \<le> m_size (m big) then big else found)"
  shows "f \<noteq> 0 \<or> chosen sz mode a bs x \<Longrightarrow> \<exists>y. chosen sz mode a bs y \<and> f = of_nat (fst y)"
proof (cases "mode = LARGEST")
  case False
  assume "f \<noteq> 0 \<or> chosen sz mode a bs x"
  with False show ?thesis using found unfolding f found_ok_def chosen_def
    by (metis empty_iff selects_def)
next
  case True
  assume h: "f \<noteq> 0 \<or> chosen sz mode a bs x"
  have f0: "found = 0" using True found by (simp add: found_ok_def)
  show ?thesis
  proof (cases "free_of a bs = {}")
    case empty: True
    then show ?thesis using True big f0 h by (simp add: f big_ok_def chosen_def)
  next
    case False
    with big obtain y where y: "y \<in> free_of a bs" "big = of_nat (fst y)"
      "\<forall>z \<in> free_of a bs. fst (snd z) \<le> fst (snd y)" by (auto simp: big_ok_def)
    note ptr = free_of_chain_ptr [OF ch y(1)]
    show ?thesis
    proof (cases "sz \<le> fst (snd y)")
      case True
      then have "chosen sz mode a bs y" using \<open>mode = LARGEST\<close> y by (simp add: chosen_def)
      moreover have "f = of_nat (fst y)" using True \<open>mode = LARGEST\<close> ptr y(2) by (simp add: f)
      ultimately show ?thesis by blast
    next
      case False
      then have "\<not> chosen sz mode a bs x"
        using \<open>mode = LARGEST\<close> y(3) order_trans by (auto simp: chosen_def)
      then show ?thesis using False \<open>mode = LARGEST\<close> ptr y(2) f0 h by (simp add: f)
    qed
  qed
qed

lemma alloc_end_post:
  assumes ch: "chain m a (pre @ coalesce tail)" and ne: "tail \<noteq> []" and sp: "span tail \<le> 65536"
    and big: "big_ok (a + span pre) (coalesce tail) big"
    and found: "found_ok mode sz (a + span pre) (coalesce tail) found"
    and first: "is_first mode \<longrightarrow> fits sz (a + span pre) (coalesce tail) = {}"
  shows "pass_post sz mode st a pre tail (alloc_end sz mode big found st m)"
proof -
  let ?a = "a + span pre" and ?cs = "coalesce tail"
  define f where "f = (if mode = LARGEST \<and> big \<noteq> 0 \<and> sz \<le> m_size (m big) then big else found)"
  have chm: "chain m ?a ?cs" using ch ne by (simp add: chain_append)
  have lf: "(if big \<noteq> 0 then m_size (m big) else 0) = largest_free ?a ?cs"
    using big_ok_largest [OF ch _ big] ne by simp
  note fc = found_chosen [OF chm big found f_def]
  show ?thesis
  proof (cases "f = 0 \<or> m_size (m f) = 0")
    case True
    have "fst (snd x) = 0" if x: "chosen sz mode ?a ?cs x" for x
    proof -
      from fc x obtain y where y: "chosen sz mode ?a ?cs y" "f = of_nat (fst y)" by blast
      with True free_of_chain_ptr [OF chm chosen_free [OF y(1)]] have "fst (snd y) = 0" by auto
      with chosen_size_unique [OF x y(1)] show ?thesis by simp
    qed
    with first have "none_usable sz mode ?a ?cs" by (auto simp: none_usable_def)
    moreover have "alloc_end sz mode big found st m =
        (if falls_back mode st then Inr (mode AND NOT FIRST_FIT_U, st\<lparr>mcbs := m\<rparr>)
         else Inl \<lparr>al_rc = DE_NOMEM, al_para = None, al_asize = Some (largest_free ?a ?cs),
                   al_st = st\<lparr>mcbs := m\<rparr>\<rparr>)"
      using True by (simp add: alloc_end_def Let_def f_def [symmetric] falls_back_def lf)
    ultimately show ?thesis using ch by (auto simp: pass_post_def)
  next
    case False
    then obtain x where x: "chosen sz mode ?a ?cs x" "f = of_nat (fst x)" using fc by blast
    have xf: "x \<in> free_of ?a ?cs" using x(1) by (rule chosen_free)
    obtain dn rest where dn: "?cs = dn @ snd x # rest" "fst x = ?a + span dn"
      using placed_ex [of x ?a ?cs] xf by (auto simp: free_of_def)
    let ?asz = "if mode = LARGEST \<and> big \<noteq> 0 \<and> sz \<le> m_size (m big) then Some (m_size (m big)) else None"
    have asz: "?asz = (if mode = LARGEST then Some (fst (snd x)) else None)"
      using False x(2) found free_of_chain_ptr [OF chm xf] by (auto simp: f_def found_ok_def split: if_splits)
    have "alloc_end sz mode big found st m = Inl (alloc_give sz mode f ?asz st m)"
      using False by (simp add: alloc_end_def Let_def f_def [symmetric])
    moreover have "gives sz mode st a pre tail (alloc_give sz mode f ?asz st m)"
    proof (rule gives_alloc_give [where dn = dn and b = "snd x" and rest = rest])
      show "chain m a (pre @ dn @ snd x # rest)" using ch dn(1) by simp
      show "chosen sz mode ?a ?cs (?a + span dn, snd x)" using x(1) dn(2) by (metis prod.collapse)
      show "f = of_nat (?a + span dn)" using x(2) dn(2) by simp
    qed (use asz coalesce_span_owned [OF sp, of ?a] dn in \<open>simp_all\<close>)
    ultimately show ?thesis by (simp add: pass_post_def)
  qed
qed

lemma alloc_pass_correct:
  assumes ch: "chain (mcbs st) a (pre @ tail)" and ne: "tail \<noteq> []"
    and start: "scan_start sz mode st = of_nat (a + span pre)"
  shows "\<exists>r. alloc_pass sz mode st = Some r \<and> pass_post sz mode st a pre tail r"
proof -
  let ?a = "a + span pre"
  have sp: "span tail \<le> 65536" using chain_bound [OF ch] by simp
  obtain ex where ex: "loop (scan_body sz mode) (scan_start sz mode st, 0, 0, mcbs st) = Some ex"
    "scan_post sz mode a pre tail ex"
    using scan_correct [OF ch ne] start by auto
  show ?thesis
  proof (cases ex)
    case (Scan_corrupt m)
    with ex(2) show ?thesis by (simp add: scan_post_def)
  next
    case (Scan_end big found m)
    then have "pass_post sz mode st a pre tail (alloc_end sz mode big found st m)"
      using ex(2) ne sp by (intro alloc_end_post) (auto simp: scan_post_def)
    with ex(1) Scan_end show ?thesis by (simp add: alloc_pass_def)
  next
    case (Scan_stopIt f m)
    with ex(2) obtain dn b rest where d: "is_first mode" "chain m a (pre @ dn @ b # rest)"
      "coalesce tail = dn @ b # coalesce rest" "f = of_nat (?a + span dn)"
      "snd b = FREE_PSP" "sz \<le> fst b" "fits sz ?a dn = {}"
      unfolding scan_post_def by (simp only: scan_exit.case) blast
    have spr: "span rest \<le> 65536" using chain_bound [OF d(2)] by simp
    have below: "?a + span dn \<le> fst y" if "y \<in> fits sz (?a + span dn + blen b) (coalesce rest)" for y
      using that placed_range [of "fst y" "snd y"] by (fastforce simp: fits_def free_of_def)
    have "gives sz mode st a pre tail (alloc_give sz mode f None st m)"
    proof (rule gives_alloc_give [OF d(2)])
      show "chosen sz mode ?a (coalesce tail) (?a + span dn, b)"
        using d below by (auto simp: chosen_def selects_def)
    qed (use d coalesce_span_owned [OF sp, of ?a] coalesce_span_owned [OF spr]
        in \<open>simp_all add: add.assoc\<close>)
    with ex(1) Scan_stopIt show ?thesis by (simp add: alloc_pass_def pass_post_def)
  qed
qed

subsection \<open>The whole call\<close>

text \<open>
  The arena of a kernel state: the chain from \<^const>\<open>first_mcb\<close>, and, while upper memory is linked
  in, an owned block at \<^const>\<open>uppermem_root\<close> (the MCB that covers the video memory).
\<close>

definition arena_wf :: "memstate \<Rightarrow> blk list \<Rightarrow> bool" where
  "arena_wf st bs \<longleftrightarrow> chain (mcbs st) (unat (first_mcb st)) bs
     \<and> (upper_linked st \<longrightarrow> (\<exists>b. (unat (uppermem_root st), b) \<in> owned (unat (first_mcb st)) bs))"

abbreviation allocated :: "memstate \<Rightarrow> blk list \<Rightarrow> (nat \<times> blk) set" where
  "allocated st bs \<equiv> owned (unat (first_mcb st)) bs"

lemma scan_start_split:
  assumes "arena_wf st bs"
  obtains pre tail where "bs = pre @ tail" "tail \<noteq> []"
    "scan_start sz mode st = of_nat (unat (first_mcb st) + span pre)"
    "scan_start sz mode st = first_mcb st \<Longrightarrow> pre = []"
proof (cases "scan_start sz mode st = first_mcb st")
  case True
  have "bs \<noteq> []" using assms by (auto simp: arena_wf_def)
  with True show ?thesis by (intro that [of "[]" bs]) simp_all
next
  case False
  then have "scan_start sz mode st = uppermem_root st" "upper_linked st"
    by (auto simp: scan_start_def Let_def split: if_splits)
  with assms obtain b where "(unat (uppermem_root st), b) \<in> set (placed (unat (first_mcb st)) bs)"
    by (auto simp: arena_wf_def owned_def)
  from placed_ex [OF this] obtain dn rest where "bs = dn @ b # rest"
    "unat (uppermem_root st) = unat (first_mcb st) + span dn" by auto
  moreover have "uppermem_root st = of_nat (unat (uppermem_root st))" by simp
  ultimately show ?thesis using False \<open>scan_start sz mode st = uppermem_root st\<close>
    by (intro that [of dn "b # rest"]) simp_all
qed

lemma upper_linked_mcbs [simp]: "upper_linked (st\<lparr>mcbs := m\<rparr>) = upper_linked st"
  by (simp add: upper_linked_def)

lemma owned_carve:
  assumes "psp \<noteq> FREE_PSP" "mode = LARGEST \<or> sz \<le> fst b"
  shows "owned p (carve sz mode psp b) = {(p + carve_pos sz mode b, (if mode = LARGEST then fst b else sz, psp))}"
proof (cases "mode = LARGEST \<or> sz = fst b")
  case True
  with assms show ?thesis by (auto simp: carve_def carve_pos_def)
next
  case False
  with assms have lt: "sz < fst b" by (auto simp: le_neq_trans)
  then have "blen (fst b - (sz + 1), FREE_PSP) = unat (fst b) - unat sz"
    using unat_diff16 [OF lt] by (simp add: blen_def word_less_nat_alt)
  with False assms(1) show ?thesis by (auto simp: carve_def carve_pos_def)
qed

lemma carve_inside:
  "mode = LARGEST \<or> sz \<le> fst b \<Longrightarrow>
     carve_pos sz mode b + blen (if mode = LARGEST then fst b else sz, psp) \<le> blen b"
  by (auto simp: carve_pos_def blen_def word_le_nat_alt)

definition alloc_ok :: "u16 \<Rightarrow> u16 \<Rightarrow> memstate \<Rightarrow> blk list \<Rightarrow> alloc_ret \<Rightarrow> blk list \<Rightarrow> bool" where
  "alloc_ok sz mode st bs r bs' \<longleftrightarrow> arena_wf (al_st r) bs' \<and> span bs' = span bs
     \<and> al_st r = st\<lparr>mcbs := mcbs (al_st r)\<rparr>
     \<and> (al_rc r = DE_NOMEM \<and> al_para r = None \<and> allocated st bs' = allocated st bs
        \<or> (\<exists>f sz'. al_rc r = SUCCESS \<and> al_para r = Some f \<and> (if mode = LARGEST then sz \<le> sz' else sz' = sz)
            \<and> allocated st bs' = insert (unat f, (sz', cu_psp st)) (allocated st bs)
            \<and> (\<forall>(y, c) \<in> allocated st bs. unat f + blen (sz', cu_psp st) \<le> y \<or> y + blen c \<le> unat f)))"

lemma gives_alloc_ok:
  assumes wf: "arena_wf st bs" and psp: "cu_psp st \<noteq> FREE_PSP" and bs: "bs = pre @ tail"
    and g: "gives sz mode st (unat (first_mcb st)) pre tail r"
  shows "\<exists>bs'. alloc_ok sz mode st bs r bs'"
proof -
  let ?a = "unat (first_mcb st)"
  from g obtain dn b rest m where
    sel: "chosen sz mode (?a + span pre) (coalesce tail) (?a + span pre + span dn, b)"
    and sp: "span (dn @ b # rest) = span tail"
    and ow: "owned (?a + span pre) (dn @ b # rest) = owned (?a + span pre) tail"
    and ch: "chain m ?a (pre @ dn @ carve sz mode (cu_psp st) b @ rest)"
    and r: "al_rc r = SUCCESS" "al_para r = Some (of_nat (?a + span pre + span dn + carve_pos sz mode b))"
      "al_st r = st\<lparr>mcbs := m\<rparr>"
    unfolding gives_def by blast
  let ?bs = "pre @ dn @ carve sz mode (cu_psp st) b @ rest"
  let ?x = "?a + span pre + span dn + carve_pos sz mode b" and ?sz = "if mode = LARGEST then fst b else sz"
  have b: "snd b = FREE_PSP" and le: "mode = LARGEST \<or> sz \<le> fst b" and lg: "mode = LARGEST \<longrightarrow> sz \<le> fst b"
    using sel by (auto simp: chosen_def selects_def fits_def free_of_def split: if_splits)
  note carve = span_carve [OF le] owned_carve [OF psp le] carve_inside [OF le, of "cu_psp st"]
  have spb: "span ?bs = span bs" using sp carve(1) bs by simp
  have oth: "owned ?a bs = owned ?a (pre @ dn) \<union> owned (?a + span pre + span dn + blen b) rest"
    using ow b bs by (auto simp: add.assoc)
  have new: "owned ?a ?bs = insert (?x, (?sz, cu_psp st)) (owned ?a bs)"
    unfolding oth by (auto simp: carve(1,2) add.assoc)
  have "?x < 65536"
    using chain_bound [OF ch] carve(1,3) by (auto simp: blen_def)
  then have ux: "unat (of_nat ?x :: u16) = ?x" by (rule unat_of_nat16)
  have dis: "?x + blen (?sz, cu_psp st) \<le> y \<or> y + blen c \<le> ?x" if "(y, c) \<in> owned ?a bs" for y c
  proof -
    from that consider "(y, c) \<in> set (placed ?a (pre @ dn))"
      | "(y, c) \<in> set (placed (?a + span pre + span dn + blen b) rest)"
      unfolding oth by (blast dest: owned_placed)
    then show ?thesis
    proof cases
      case 1
      from placed_range [OF 1] show ?thesis by simp
    next
      case 2
      from placed_range [OF 2] carve(3) show ?thesis by linarith
    qed
  qed
  have wf': "arena_wf (al_st r) ?bs" using wf ch new r(3) by (auto simp: arena_wf_def)
  define f where "f = (of_nat ?x :: u16)"
  define sz' where "sz' = ?sz"
  have goal: "al_rc r = SUCCESS \<and> al_para r = Some f \<and> (if mode = LARGEST then sz \<le> sz' else sz' = sz)
      \<and> owned ?a ?bs = insert (unat f, (sz', cu_psp st)) (owned ?a bs)
      \<and> (\<forall>(y, c) \<in> owned ?a bs. unat f + blen (sz', cu_psp st) \<le> y \<or> y + blen c \<le> unat f)"
    unfolding f_def ux sz'_def
  proof (intro conjI ballI)
    fix z assume z: "z \<in> owned ?a bs"
    obtain y c where "z = (y, c)" by (cases z)
    with dis z show "case z of (y, c) \<Rightarrow> ?x + blen (?sz, cu_psp st) \<le> y \<or> y + blen c \<le> ?x" by blast
  qed (use r new lg in simp_all)
  have "al_st r = st\<lparr>mcbs := mcbs (al_st r)\<rparr>" using r(3) by simp
  with wf' spb goal have "alloc_ok sz mode st bs r ?bs" unfolding alloc_ok_def by blast
  then show ?thesis by blast
qed

lemma pass_arena_wf:
  assumes wf: "arena_wf st (pre @ tail)" and ch: "chain m (unat (first_mcb st)) (pre @ coalesce tail)"
  shows "arena_wf (st\<lparr>mcbs := m\<rparr>) (pre @ coalesce tail)"
    "span (pre @ coalesce tail) = span (pre @ tail)"
    "allocated st (pre @ coalesce tail) = allocated st (pre @ tail)"
proof -
  have "span tail \<le> 65536" using wf chain_bound by (fastforce simp: arena_wf_def)
  note co = coalesce_span_owned [OF this]
  show "span (pre @ coalesce tail) = span (pre @ tail)"
    "allocated st (pre @ coalesce tail) = allocated st (pre @ tail)" using co by simp_all
  with wf ch show "arena_wf (st\<lparr>mcbs := m\<rparr>) (pre @ coalesce tail)" by (auto simp: arena_wf_def)
qed

text \<open>What a failing pass returns keeps every allocated block; a pass that falls back as well.\<close>

definition pass_ok :: "u16 \<Rightarrow> u16 \<Rightarrow> memstate \<Rightarrow> blk list \<Rightarrow> alloc_ret + (u16 \<times> memstate) \<Rightarrow> bool" where
  "pass_ok sz mode st bs r = (case r of
      Inl ret \<Rightarrow> (\<exists>bs'. alloc_ok sz mode st bs ret bs')
    | Inr ms \<Rightarrow> falls_back mode st \<and> (\<exists>m bs'. ms = (mode AND NOT FIRST_FIT_U, st\<lparr>mcbs := m\<rparr>)
        \<and> arena_wf (st\<lparr>mcbs := m\<rparr>) bs' \<and> span bs' = span bs \<and> allocated st bs' = allocated st bs))"

lemma alloc_pass_ok:
  assumes wf: "arena_wf st bs" and psp: "cu_psp st \<noteq> FREE_PSP"
  shows "\<exists>r. alloc_pass sz mode st = Some r \<and> pass_ok sz mode st bs r"
proof -
  obtain pre tail where d: "bs = pre @ tail" "tail \<noteq> []"
    "scan_start sz mode st = of_nat (unat (first_mcb st) + span pre)"
    using scan_start_split [OF wf] by metis
  have "chain (mcbs st) (unat (first_mcb st)) (pre @ tail)" using wf d(1) by (simp add: arena_wf_def)
  from alloc_pass_correct [OF this d(2,3)] obtain r where r: "alloc_pass sz mode st = Some r"
    "pass_post sz mode st (unat (first_mcb st)) pre tail r" by blast
  note keep = pass_arena_wf [OF wf [unfolded d(1)]]
  have "pass_ok sz mode st bs r"
  proof (cases r)
    case (Inr ms)
    with r(2) obtain m where "falls_back mode st" "ms = (mode AND NOT FIRST_FIT_U, st\<lparr>mcbs := m\<rparr>)"
      "chain m (unat (first_mcb st)) (pre @ coalesce tail)" by (auto simp: pass_post_def)
    with Inr keep [OF this(3)] d(1) show ?thesis unfolding pass_ok_def by (simp only: sum.case) blast
  next
    case (Inl ret)
    show ?thesis
    proof (cases "gives sz mode st (unat (first_mcb st)) pre tail ret")
      case True
      from gives_alloc_ok [OF wf psp d(1) True] Inl show ?thesis by (simp add: pass_ok_def)
    next
      case False
      with r(2) Inl obtain m where m: "chain m (unat (first_mcb st)) (pre @ coalesce tail)"
        "al_rc ret = DE_NOMEM" "al_para ret = None" "al_st ret = st\<lparr>mcbs := m\<rparr>"
        by (auto simp: pass_post_def)
      have "alloc_ok sz mode st bs ret (pre @ coalesce tail)"
        unfolding alloc_ok_def m using keep [OF m(1)] d(1) by simp
      with Inl show ?thesis by (auto simp: pass_ok_def)
    qed
  qed
  with r(1) show ?thesis by blast
qed

lemma no_third_pass: "\<not> falls_back (mode AND NOT FIRST_FIT_U) st"
proof -
  have "(mode AND NOT FIRST_FIT_U) AND FIRST_FIT_U = 0"
    by (simp add: and.assoc and.commute [of "NOT FIRST_FIT_U"])
  then show ?thesis by (simp add: falls_back_def)
qed

theorem DosMemAlloc_ok:
  assumes wf: "arena_wf st bs" and psp: "cu_psp st \<noteq> FREE_PSP"
  shows "\<exists>r bs'. DosMemAlloc sz mode st = Some r \<and> alloc_ok sz mode st bs r bs'"
proof -
  obtain r where r: "alloc_pass sz mode st = Some r" and post: "pass_ok sz mode st bs r"
    using alloc_pass_ok [OF wf psp] by blast
  show ?thesis
  proof (cases r)
    case (Inl ret)
    with r post show ?thesis by (auto simp: DosMemAlloc_def pass_ok_def)
  next
    case (Inr ms)
    let ?mode = "mode AND NOT FIRST_FIT_U"
    from Inr post obtain m bs1 where ms: "ms = (?mode, st\<lparr>mcbs := m\<rparr>)" "mode \<noteq> LARGEST"
      and wf1: "arena_wf (st\<lparr>mcbs := m\<rparr>) bs1" "span bs1 = span bs" "allocated st bs1 = allocated st bs"
      by (auto simp: falls_back_def pass_ok_def)
    have nl: "?mode \<noteq> LARGEST"
    proof
      assume "?mode = LARGEST"
      then have "bit (?mode) 7" by (simp add: LARGEST_def bit_simps)
      then show False by (simp add: FIRST_FIT_U_def bit_simps)
    qed
    obtain r1 where r1: "alloc_pass sz ?mode (st\<lparr>mcbs := m\<rparr>) = Some r1"
      "pass_ok sz ?mode (st\<lparr>mcbs := m\<rparr>) bs1 r1"
      using alloc_pass_ok [OF wf1(1), of sz ?mode] psp by auto
    then obtain r' bs' where r': "alloc_pass sz ?mode (st\<lparr>mcbs := m\<rparr>) = Some (Inl r')"
      "alloc_ok sz ?mode (st\<lparr>mcbs := m\<rparr>) bs1 r' bs'"
      using no_third_pass [of mode "st\<lparr>mcbs := m\<rparr>"] by (auto simp: pass_ok_def split: sum.splits)
    then have "alloc_ok sz mode st bs r' bs'"
      using wf1 nl ms(2) by (simp add: alloc_ok_def)
    moreover have "DosMemAlloc sz mode st = Some r'" using r Inr ms r'(1) by (simp add: DosMemAlloc_def)
    ultimately show ?thesis by blast
  qed
qed

end
