(* ===== verification/MemOps.thy ===== *)
theory MemOps
  imports MemAlloc
begin

text \<open>
  The other entry points of \<^verbatim>\<open>memmgr.c\<close> on well-formed arenas: freeing, resizing, checking, linking
  upper memory and freeing all memory of a process.
\<close>

lemma split_allocated:
  assumes "(x, b) \<in> owned a bs"
  obtains dn rest where "bs = dn @ b # rest" "x = a + span dn" "snd b \<noteq> FREE_PSP"
  using placed_ex [OF owned_placed [OF assms]] assms by (auto simp: owned_def)

lemma owned_replace:
  assumes "snd b \<noteq> FREE_PSP" "span mid = blen b"
  shows "owned a (dn @ mid @ rest) = owned a (dn @ b # rest) - {(a + span dn, b)} \<union> owned (a + span dn) mid"
proof -
  have "(a + span dn, b) \<notin> owned a dn" "(a + span dn, b) \<notin> owned (a + span dn + blen b) rest"
    using placed_range [of "a + span dn" b] owned_placed by (fastforce simp: blen_def)+
  with assms show ?thesis by (auto simp: add.assoc)
qed

lemma arena_wf_update:
  assumes "arena_wf st bs" "chain m (unat (first_mcb st)) bs'"
    and "upper_linked st \<Longrightarrow> \<exists>b. (unat (uppermem_root st), b) \<in> allocated st bs'"
  shows "arena_wf (st\<lparr>mcbs := m\<rparr>) bs'"
  using assms by (simp add: arena_wf_def)

subsection \<open>DosMemFree\<close>

lemma DosMemFree_ok:
  assumes wf: "arena_wf st bs" and own: "(unat para, b) \<in> allocated st bs"
    and pin: "upper_linked st \<Longrightarrow> para \<noteq> uppermem_root st"
  shows "\<exists>st' bs'. DosMemFree para st = (SUCCESS, st') \<and> arena_wf st' bs' \<and> span bs' = span bs
    \<and> st' = st\<lparr>mcbs := mcbs st'\<rparr> \<and> allocated st bs' = allocated st bs - {(unat para, b)}"
proof -
  let ?a = "unat (first_mcb st)" and ?m = "mcbs st"
  obtain dn rest where d: "bs = dn @ b # rest" "unat para = ?a + span dn" "snd b \<noteq> FREE_PSP"
    using own by (rule split_allocated)
  have ch: "chain ?m ?a (dn @ b # rest)" using wf d(1) by (simp add: arena_wf_def)
  then have blk: "blk_at ?m (unat para) (if rest = [] then MCB_LAST else MCB_NORMAL) b"
    using d(2) by (simp add: chain_mid)
  then have p: "para \<noteq> 0" "mcbFreeable (?m para)"
    by (auto simp: blk_at_def mcbFreeable_def)
  let ?m' = "?m(para := (?m para)\<lparr>m_psp := FREE_PSP, m_name := replicate 8 0\<rparr>)"
  have "para = of_nat (?a + span dn)" using d(2) [symmetric] by simp
  then have ch': "chain ?m' ?a (dn @ (fst b, FREE_PSP) # rest)"
    by (rule chain_set_psp [OF ch]) simp_all
  have ow: "allocated st (dn @ [(fst b, FREE_PSP)] @ rest) = allocated st bs - {(unat para, b)}"
    using owned_replace [OF d(3), of "[(fst b, FREE_PSP)]" ?a dn rest] d by (simp add: blen_def)
  have "arena_wf (st\<lparr>mcbs := ?m'\<rparr>) (dn @ (fst b, FREE_PSP) # rest)"
  proof (rule arena_wf_update [OF wf ch'])
    assume up: "upper_linked st"
    with wf obtain c where "(unat (uppermem_root st), c) \<in> allocated st bs" by (auto simp: arena_wf_def)
    moreover have "unat (uppermem_root st) \<noteq> unat para" using pin [OF up] word16_eqI by metis
    ultimately have "(unat (uppermem_root st), c) \<in> allocated st bs - {(unat para, b)}" by blast
    then have "(unat (uppermem_root st), c) \<in> allocated st (dn @ [(fst b, FREE_PSP)] @ rest)" by (simp only: ow)
    then show "\<exists>b'. (unat (uppermem_root st), b') \<in> allocated st (dn @ (fst b, FREE_PSP) # rest)"
      by (intro exI [of _ c]) simp
  qed
  with p ow d show ?thesis
    by (intro exI [of _ "st\<lparr>mcbs := ?m'\<rparr>"] exI [of _ "dn @ (fst b, FREE_PSP) # rest"])
      (simp add: DosMemFree_def blen_def)
qed

subsection \<open>DosMemChange\<close>

text \<open>How far the block \<open>b\<close> can grow into the free blocks \<open>rest\<close> that follow it.\<close>

definition room :: "blk \<Rightarrow> blk list \<Rightarrow> u16" where
  "room b rest = fst (hd (absorb b rest))"

lemma absorb_owned:
  assumes "snd b \<noteq> FREE_PSP" "span (b # rest) \<le> 65536"
  shows "owned a (absorb b rest) = insert (a, (room b rest, snd b)) (owned (a + blen b) rest)"
  using assms
proof (induction b rest arbitrary: a rule: absorb.induct)
  case (2 b c cs)
  show ?case
  proof (cases "snd c = FREE_PSP")
    case True
    have "blen (fst b + (fst c + 1), snd b) = blen b + blen c"
      using "2.prems"(2) by (auto simp: blen_def unat_word_ariths)
    with True 2 show ?thesis by (simp add: room_def add.assoc)
  next
    case False
    with "2.prems" show ?thesis by (auto simp: room_def)
  qed
qed (simp add: room_def)

lemma absorb_room: "absorb b rest = (room b rest, snd b) # tl (absorb b rest)"
  using absorb_eq [of b rest] snd_hd_absorb [of b rest] by (metis prod.collapse room_def)

lemma shrink_block_chain:
  assumes ch: "chain m a (dn @ b # rest)" and lt: "sz < fst b"
  shows "\<exists>m'. shrink_block (of_nat (a + span dn)) sz m = (SUCCESS, m')
    \<and> chain m' a (dn @ (sz, snd b) # absorb (fst b - sz - 1, FREE_PSP) rest)"
proof -
  let ?a = "a + span dn" and ?p = "of_nat (a + span dn) :: u16"
  let ?q = "nxtMCBsize ?p sz"
  define m5 where "m5 = (let m1 = m(?q := (m ?q)\<lparr>m_size := m_size (m ?p) - sz - 1\<rparr>);
      m2 = m1(?q := (m1 ?q)\<lparr>m_type := m_type (m1 ?p)\<rparr>);
      m3 = m2(?p := (m2 ?p)\<lparr>m_size := sz\<rparr>);
      m4 = m3(?p := (m3 ?p)\<lparr>m_type := MCB_NORMAL\<rparr>)
      in m4(?q := (m4 ?q)\<lparr>m_psp := FREE_PSP, m_name := replicate 8 0\<rparr>))"
  have sb: "shrink_block ?p sz m = joinMCBs ?q m5" by (simp add: shrink_block_def m5_def Let_def)
  let ?t = "if rest = [] then MCB_LAST else MCB_NORMAL"
  have b: "blk_at m ?a ?t b" using ch by (simp add: chain_mid)
  have ltn: "unat sz < unat (fst b)" using lt by (simp add: word_less_nat_alt)
  have bnd: "?a + unat (fst b) < 65536" using b by (simp add: blk_at_def)
  have q: "?q = of_nat (?a + (unat sz + 1))" by (simp add: nxtMCBsize_def)
  have un: "unat ?p = ?a" "unat ?q = ?a + (unat sz + 1)"
    using bnd ltn unat_of_nat16 [of ?a] unat_of_nat16 [of "?a + (unat sz + 1)"] unfolding q by linarith+
  have ne: "?p \<noteq> ?q" using un by (metis add_cancel_left_right add_is_0 one_neq_zero)
  have d: "unat (fst b - sz - 1) = unat (fst b) - unat sz - 1" by (rule unat_diff16' [OF lt])
  have pb: "m_type (m ?p) = ?t" "m_size (m ?p) = fst b" "m_psp (m ?p) = snd b"
    using b by (simp_all only: blk_at_def)
  have m5p: "m_type (m5 ?p) = MCB_NORMAL \<and> m_size (m5 ?p) = sz \<and> m_psp (m5 ?p) = snd b"
    and m5q: "m_type (m5 ?q) = ?t \<and> m_size (m5 ?q) = fst b - sz - 1 \<and> m_psp (m5 ?q) = FREE_PSP"
    and m5o: "\<And>s. s \<noteq> ?p \<Longrightarrow> s \<noteq> ?q \<Longrightarrow> m5 s = m s"
    using pb ne by (auto simp: m5_def Let_def)
  have so: "same_outside ?a (?a + blen b) m m5"
    by (rule same_outside_two [OF m5o]) (use un ltn in \<open>simp_all only: blen_def\<close>, linarith+)
  let ?mid = "[(sz, snd b), (fst b - sz - 1, FREE_PSP)]"
  have "chain m5 a (dn @ ?mid @ rest)"
  proof (rule chain_replace [OF ch _ _ so])
    show "span ?mid = blen b" using d ltn by (simp add: blen_def)
    show "blocks m5 ?a (butlast ?mid)" using m5p bnd ltn b by (auto intro!: blk_atI simp: blk_at_def)
    show "blk_at m5 (?a + span (butlast ?mid)) ?t (last ?mid)"
      using m5q bnd d ltn by (intro blk_atI [of ?q]) (simp_all add: nxtMCBsize_def blen_def)
  qed simp
  then have ch5: "chain m5 a ((dn @ [(sz, snd b)]) @ (fst b - sz - 1, FREE_PSP) # rest)" by simp
  then have bl: "blocks m5 a (dn @ [(sz, snd b)])"
    and chq: "chain m5 (a + span (dn @ [(sz, snd b)])) ((fst b - sz - 1, FREE_PSP) # rest)"
    using chain_append [of "(fst b - sz - 1, FREE_PSP) # rest" m5 a "dn @ [(sz, snd b)]"] by blast+
  have pos: "a + span (dn @ [(sz, snd b)]) = ?a + (unat sz + 1)" by (simp add: blen_def)
  from joinMCBs_chain [OF chq] obtain m' where m': "joinMCBs ?q m5 = (SUCCESS, m')"
    "chain m' (a + span (dn @ [(sz, snd b)])) (absorb (fst b - sz - 1, FREE_PSP) rest)"
    "same_outside (a + span (dn @ [(sz, snd b)])) (a + span (dn @ [(sz, snd b)]) + span ((fst b - sz - 1, FREE_PSP) # rest)) m5 m'"
    unfolding q pos by blast
  have "blocks m' a (dn @ [(sz, snd b)])" using bl m'(3) by (rule blocks_frame_below) simp
  with m'(2) have "chain m' a ((dn @ [(sz, snd b)]) @ absorb (fst b - sz - 1, FREE_PSP) rest)"
    using chain_append [OF absorb_ne, of m' a "dn @ [(sz, snd b)]"] by blast
  with m'(1) sb show ?thesis by simp
qed


definition grow_room :: "u16 \<Rightarrow> blk \<Rightarrow> blk list \<Rightarrow> u16" where
  "grow_room sz b rest = (if sz > fst b then room b rest else fst b)"

text \<open>The two steps of \<^const>\<open>DosMemChange\<close> on the block list.\<close>

lemma grow_step:
  assumes ch: "chain m a (dn @ b # rest)" and own: "snd b \<noteq> FREE_PSP"
  shows "\<exists>m' tl'. (if sz > fst b then joinMCBs (of_nat (a + span dn)) m else (SUCCESS, m)) = (SUCCESS, m')
    \<and> chain m' a (dn @ (grow_room sz b rest, snd b) # tl')
    \<and> blen (grow_room sz b rest, snd b) + span tl' = blen b + span rest
    \<and> owned (a + span dn + blen (grow_room sz b rest, snd b)) tl' = owned (a + span dn + blen b) rest"
proof (cases "sz > fst b")
  case False
  then show ?thesis using ch by (intro exI [of _ m] exI [of _ rest]) (simp add: grow_room_def)
next
  case True
  let ?a = "a + span dn" and ?b = "(room b rest, snd b)"
  obtain T where ab: "absorb b rest = ?b # T" using absorb_room by blast
  have bl: "blocks m a dn" and chp: "chain m ?a (b # rest)" using ch by (simp_all add: chain_append)
  have sp: "span (b # rest) \<le> 65536" using chain_bound [OF chp] by simp
  from joinMCBs_chain [OF chp] obtain m' where m': "joinMCBs (of_nat ?a) m = (SUCCESS, m')"
    "chain m' ?a (absorb b rest)" "same_outside ?a (?a + span (b # rest)) m m'" by blast
  have "blocks m' a dn" using bl m'(3) by (rule blocks_frame_below) simp
  with m'(2) have ch': "chain m' a (dn @ ?b # T)"
    using chain_append [of "?b # T" m' a dn] by (simp add: ab)
  have sp': "blen ?b + span T = blen b + span rest"
    using span_absorb [OF sp, unfolded ab] by simp
  have "(?a, ?b) \<notin> owned (?a + blen ?b) T" "(?a, ?b) \<notin> owned (?a + blen b) rest"
    using placed_range [of ?a ?b] owned_placed by (fastforce simp: blen_def)+
  moreover have "insert (?a, ?b) (owned (?a + blen ?b) T) = insert (?a, ?b) (owned (?a + blen b) rest)"
    using absorb_owned [OF own sp, of ?a, unfolded ab] own by simp
  ultimately have "owned (?a + blen ?b) T = owned (?a + blen b) rest" using insert_ident by metis
  with True m'(1) ch' sp' show ?thesis
    by (intro exI [of _ m'] exI [of _ T]) (simp add: grow_room_def)
qed

lemma shrink_step:
  assumes ch: "chain m a (dn @ b # rest)" and le: "sz \<le> fst b"
  shows "\<exists>m' tl'. (if sz < fst b then shrink_block (of_nat (a + span dn)) sz m else (SUCCESS, m)) = (SUCCESS, m')
    \<and> chain m' a (dn @ (sz, snd b) # tl') \<and> blen (sz, snd b) + span tl' = blen b + span rest
    \<and> owned (a + span dn + blen (sz, snd b)) tl' = owned (a + span dn + blen b) rest"
proof (cases "sz < fst b")
  case False
  with le have "(sz, snd b) = b" by (metis le_neq_trans prod.collapse)
  with False ch show ?thesis by (intro exI [of _ m] exI [of _ rest]) simp
next
  case True
  let ?q = "(fst b - sz - 1, FREE_PSP)"
  have sp: "blen b + span rest \<le> 65536" using chain_bound [OF ch] by simp
  have len: "blen (sz, snd b) + blen ?q = blen b"
    using unat_diff16' [OF True] True by (simp add: blen_def word_less_nat_alt)
  then have sp': "span (?q # rest) \<le> 65536" using sp by simp
  obtain m' where m': "shrink_block (of_nat (a + span dn)) sz m = (SUCCESS, m')"
    "chain m' a (dn @ (sz, snd b) # absorb ?q rest)"
    using shrink_block_chain [OF ch True] by blast
  have "owned (a + span dn + blen (sz, snd b)) (absorb ?q rest) = owned (a + span dn + blen b) rest"
    using owned_absorb [OF _ sp', of "a + span dn + blen (sz, snd b)"] len by (simp add: add.assoc)
  with True m' span_absorb [OF sp'] len show ?thesis
    by (intro exI [of _ m'] exI [of _ "absorb ?q rest"]) simp
qed

text \<open>
  Resizing the block \<open>b\<close>: it gets exactly the requested size and goes to the current process if the
  size fits into the block and the free blocks behind it; otherwise it is left as large as possible
  and the call reports that size. No other allocated block changes.
\<close>

lemma DosMemChange_ok:
  fixes st :: memstate
  assumes wf: "arena_wf st (dn @ b # rest)" and own: "snd b \<noteq> FREE_PSP" and psp: "cu_psp st \<noteq> FREE_PSP"
    and para: "unat (para - 1) = unat (first_mcb st) + span dn" and rm: "rm = grow_room sz b rest"
  shows "\<exists>st' bs'. DosMemChange para sz st
      = (if sz \<le> rm then (SUCCESS, None, st') else (DE_NOMEM, Some rm, st'))
    \<and> arena_wf st' bs' \<and> span bs' = span (dn @ b # rest) \<and> st' = st\<lparr>mcbs := mcbs st'\<rparr>
    \<and> allocated st bs' = insert (unat (para - 1), if sz \<le> rm then (sz, cu_psp st) else (rm, snd b))
        (allocated st (dn @ b # rest) - {(unat (para - 1), b)})"
proof -
  let ?a = "unat (first_mcb st)" and ?m = "mcbs st"
  define p where "p = para - 1"
  have "of_nat (unat p) = p" by simp
  then have p: "p = of_nat (?a + span dn)" using para by (simp only: p_def)
  have ch: "chain ?m ?a (dn @ b # rest)" using wf by (simp add: arena_wf_def)
  have blk: "blk_at ?m (?a + span dn) (if rest = [] then MCB_LAST else MCB_NORMAL) b"
    using ch by (simp add: chain_mid)
  have val: "mcbValid (?m p)" unfolding p by (rule blk_at_valid [OF blk]) simp
  have psz: "m_size (?m p) = fst b" using blk by (simp only: blk_at_def p)
  have keep: "arena_wf (st\<lparr>mcbs := m'\<rparr>) (dn @ c # tl') \<and> span (dn @ c # tl') = span (dn @ b # rest)
      \<and> allocated st (dn @ c # tl') = insert (unat p, c) (allocated st (dn @ b # rest) - {(unat p, b)})"
    if "chain m' ?a (dn @ c # tl')" "blen c + span tl' = blen b + span rest" "snd c \<noteq> FREE_PSP"
      "owned (?a + span dn + blen c) tl' = owned (?a + span dn + blen b) rest" for m' c tl'
  proof -
    have eq: "allocated st (dn @ c # tl') = insert (unat p, c) (allocated st (dn @ b # rest) - {(unat p, b)})"
    proof -
      have "(unat p, b) \<notin> owned ?a dn" "(unat p, b) \<notin> owned (?a + span dn + blen b) rest"
        using placed_range [of "unat p" b] owned_placed para unfolding p_def by (fastforce simp: blen_def)+
      then show ?thesis using that own para by (auto simp: p_def)
    qed
    have "arena_wf (st\<lparr>mcbs := m'\<rparr>) (dn @ c # tl')"
    proof (rule arena_wf_update [OF wf that(1)])
      assume "upper_linked st"
      with wf obtain d where "(unat (uppermem_root st), d) \<in> allocated st (dn @ b # rest)"
        unfolding arena_wf_def by blast
      then show "\<exists>b. (unat (uppermem_root st), b) \<in> allocated st (dn @ c # tl')"
        unfolding eq by (cases "unat (uppermem_root st) = unat p") blast+
    qed
    with eq that(2) show ?thesis by simp
  qed
  obtain m1 tl1 where g: "(if sz > m_size (?m p) then joinMCBs p ?m else (SUCCESS, ?m)) = (SUCCESS, m1)"
    "chain m1 ?a (dn @ (rm, snd b) # tl1)" "blen (rm, snd b) + span tl1 = blen b + span rest"
    "owned (?a + span dn + blen (rm, snd b)) tl1 = owned (?a + span dn + blen b) rest"
    using grow_step [OF ch own, of sz, folded p rm, folded psz] by blast
  have m1p: "m_size (m1 p) = rm" using g(2) by (simp add: chain_mid blk_at_def p)
  show ?thesis
  proof (cases "sz \<le> rm")
    case False
    have "DosMemChange para sz st = (DE_NOMEM, Some rm, st\<lparr>mcbs := m1\<rparr>)"
      using val g(1) m1p False by (simp add: DosMemChange_def Let_def p_def [symmetric] not_le)
    with False keep [OF g(2,3) _ g(4)] own show ?thesis unfolding p_def by auto
  next
    case True
    obtain m2 tl2 where h: "(if sz < m_size (m1 p) then shrink_block p sz m1 else (SUCCESS, m1)) = (SUCCESS, m2)"
      "chain m2 ?a (dn @ (sz, snd b) # tl2)" "blen (sz, snd b) + span tl2 = blen (rm, snd b) + span tl1"
      "owned (?a + span dn + blen (sz, snd b)) tl2 = owned (?a + span dn + blen (rm, snd b)) tl1"
      using shrink_step [OF g(2), of sz, folded p] True by (auto simp: m1p)
    let ?m3 = "m2(p := (m2 p)\<lparr>m_psp := cu_psp st\<rparr>)"
    have ch3: "chain ?m3 ?a (dn @ (sz, cu_psp st) # tl2)"
      using chain_set_psp [OF h(2) p, of ?m3 "cu_psp st"] by simp
    have "DosMemChange para sz st = (SUCCESS, None, st\<lparr>mcbs := ?m3\<rparr>)"
      using val g(1) h(1) m1p True by (simp add: DosMemChange_def Let_def p_def [symmetric] not_le)
    moreover have "blen (sz, cu_psp st) = blen (sz, snd b)" by (simp add: blen_def)
    then have "arena_wf (st\<lparr>mcbs := ?m3\<rparr>) (dn @ (sz, cu_psp st) # tl2)
      \<and> span (dn @ (sz, cu_psp st) # tl2) = span (dn @ b # rest) \<and> allocated st (dn @ (sz, cu_psp st) # tl2)
        = insert (unat p, (sz, cu_psp st)) (allocated st (dn @ b # rest) - {(unat p, b)})"
      using h(3,4) g(3,4) psp by (intro keep [OF ch3]) simp_all
    ultimately show ?thesis using True unfolding p_def [symmetric]
      by (intro exI [of _ "st\<lparr>mcbs := ?m3\<rparr>"] exI [of _ "dn @ (sz, cu_psp st) # tl2"]) simp
  qed
qed

subsection \<open>DosMemCheck\<close>

lemma chain_walk_Cons:
  assumes "chain m a (b # bs)"
  shows "m_type (m (of_nat a)) = (if bs = [] then MCB_LAST else MCB_NORMAL)"
    "mcbValid (m (of_nat a))" "m_psp (m (of_nat a)) = snd b" "nxtMCB m (of_nat a) = of_nat (a + blen b)"
    "bs \<noteq> [] \<Longrightarrow> chain m (a + blen b) bs"
proof -
  have h: "blk_at m a (if bs = [] then MCB_LAST else MCB_NORMAL) b" using assms by (rule chain_hd)
  then show "m_type (m (of_nat a)) = (if bs = [] then MCB_LAST else MCB_NORMAL)"
    "m_psp (m (of_nat a)) = snd b" by (simp_all only: blk_at_def)
  show "mcbValid (m (of_nat a))" using h by (rule blk_at_valid) simp
  show "nxtMCB m (of_nat a) = of_nat (a + blen b)" using h by (intro nxtMCB_of_nat) (simp only: blk_at_def)
  show "bs \<noteq> [] \<Longrightarrow> chain m (a + blen b) bs" using assms by (simp add: chain_Cons)
qed

lemma memcheck_chain: "chain m a bs \<Longrightarrow> loop (memcheck_body m) (of_nat a) = Some SUCCESS"
proof (induction bs arbitrary: a)
  case (Cons b bs)
  note w = chain_walk_Cons [OF Cons.prems]
  show ?case
  proof (cases "bs = []")
    case True
    with w show ?thesis by (simp add: loop_Inl memcheck_body_def)
  next
    case False
    then have "memcheck_body m (of_nat a) = Inr (of_nat (a + blen b))"
      using w by (simp add: memcheck_body_def)
    with Cons.IH [OF w(5) [OF False]] show ?thesis by (simp add: loop_Inr)
  qed
qed simp

end
