(* ===== verification/MemLink.thy ===== *)
theory MemLink
  imports MemOps
begin

text \<open>
  Upper memory. The low chain ends right below the MCB at \<^const>\<open>uppermem_root\<close>; while upper
  memory is linked the two chains are one, otherwise the last low block is marked \<^verbatim>\<open>MCB_LAST\<close>.
  \<^const>\<open>DosUmbLink\<close> goes from one form to the other and \<^const>\<open>FreeProcessMem\<close> visits both chains
  whichever form it starts from.
\<close>

definition two_chains :: "memstate \<Rightarrow> bool \<Rightarrow> blk list \<Rightarrow> blk list \<Rightarrow> bool" where
  "two_chains st linked lows ups \<longleftrightarrow> lows \<noteq> [] \<and> ups \<noteq> [] \<and> uppermem_root st \<noteq> 0xFFFF
     \<and> unat (uppermem_root st) = unat (first_mcb st) + span lows
     \<and> uppermem_link st = (if linked then 1 else 0)
     \<and> (if linked then chain (mcbs st) (unat (first_mcb st)) (lows @ ups)
        else chain (mcbs st) (unat (first_mcb st)) lows \<and> chain (mcbs st) (unat (uppermem_root st)) ups)"

text \<open>The two chains, as blocks below the last low one, that one, and the upper chain.\<close>

lemma two_chains_split:
  "two_chains st linked (xs @ [b]) ups \<longleftrightarrow> ups \<noteq> [] \<and> uppermem_root st \<noteq> 0xFFFF
     \<and> unat (uppermem_root st) = unat (first_mcb st) + span xs + blen b
     \<and> uppermem_link st = (if linked then 1 else 0)
     \<and> blocks (mcbs st) (unat (first_mcb st)) xs
     \<and> blk_at (mcbs st) (unat (first_mcb st) + span xs) (if linked then MCB_NORMAL else MCB_LAST) b
     \<and> chain (mcbs st) (unat (first_mcb st) + span xs + blen b) ups"
  by (auto simp: two_chains_def chain_append chain_Cons blocks_append add.assoc)

lemma two_chains_cases:
  assumes "two_chains st linked lows ups"
  obtains xs b where "lows = xs @ [b]"
  using assms by (cases lows rule: rev_cases) (auto simp: two_chains_def)

lemma umblink_walk:
  assumes "blocks (mcbs st) a xs" "a + span xs \<le> unat (uppermem_root st)"
  shows "\<exists>q. loop (umblink_body st) (of_nat a, q0) = loop (umblink_body st) (of_nat (a + span xs), q)"
  using assms
proof (induction xs arbitrary: a q0)
  case (Cons b xs)
  then have b: "blk_at (mcbs st) a MCB_NORMAL b" and le: "a + blen b + span xs \<le> unat (uppermem_root st)" by auto
  have "of_nat a \<noteq> uppermem_root st"
    using b le unat_of_nat16 [OF blk_at_less [OF b]] blen_pos(1) [of b] by auto
  then have "umblink_body st (of_nat a, q0) = Inr (of_nat (a + blen b), of_nat a)"
    using b blk_at_valid [OF b] nxtMCB_of_nat [of "mcbs st" a b] by (simp add: umblink_body_def blk_at_def)
  with Cons.IH [of "a + blen b" "of_nat a"] Cons.prems le show ?case by (simp add: loop_Inr add.assoc)
qed auto

lemma umblink_loop:
  assumes "two_chains st linked (xs @ [b]) ups"
  defines "z \<equiv> of_nat (unat (first_mcb st) + span xs)"
  shows "\<exists>q. loop (umblink_body st) (first_mcb st, q0)
    = Some (Some (if linked then (uppermem_root st, z) else (z, q)))"
proof -
  let ?a = "unat (first_mcb st)"
  note tc = assms(1) [unfolded two_chains_split]
  have b: "blk_at (mcbs st) (?a + span xs) (if linked then MCB_NORMAL else MCB_LAST) b" using tc by simp
  obtain q where w: "loop (umblink_body st) (first_mcb st, q0) = loop (umblink_body st) (z, q)"
    using umblink_walk [of st ?a xs q0] tc unfolding z_def by auto
  have "unat (z :: u16) = ?a + span xs" unfolding z_def using blk_at_less [OF b] by (rule unat_of_nat16)
  then have nz: "z \<noteq> uppermem_root st" using tc by auto
  show ?thesis
  proof (cases linked)
    case False
    with b nz have "umblink_body st (z, q) = Inl (Some (z, q))"
      by (simp add: umblink_body_def blk_at_def z_def)
    with False w show ?thesis by (simp add: loop_Inl)
  next
    case True
    have "uppermem_root st = of_nat (unat (uppermem_root st))" by simp
    also have "\<dots> = of_nat (?a + span xs + blen b)" using tc by simp
    finally have rt: "nxtMCB (mcbs st) z = uppermem_root st"
      using b nxtMCB_of_nat [of "mcbs st" "?a + span xs" b] by (simp only: z_def blk_at_def)
    have "m_type (mcbs st z) = MCB_NORMAL" "mcbValid (mcbs st z)"
      using b True blk_at_valid [OF b] by (auto simp: blk_at_def z_def)
    then have "umblink_body st (z, q) = Inr (uppermem_root st, z)"
      using nz rt by (simp add: umblink_body_def)
    moreover have "umblink_body st (uppermem_root st, z) = Inl (Some (uppermem_root st, z))"
      by (simp add: umblink_body_def)
    ultimately show ?thesis using True w by (simp add: loop_Inr loop_Inl)
  qed
qed

text \<open>What linking and unlinking do: only the mark of the last low block changes.\<close>

definition mark_low :: "u8 \<Rightarrow> u16 \<Rightarrow> arena \<Rightarrow> arena" where
  "mark_low t z m = m(z := (m z)\<lparr>m_type := t\<rparr>)"

lemma two_chains_mark:
  assumes "two_chains st l (xs @ [b]) ups" "z = of_nat (unat (first_mcb st) + span xs)"
  shows "two_chains (st\<lparr>mcbs := mark_low (if l' then MCB_NORMAL else MCB_LAST) z (mcbs st),
      uppermem_link := if l' then 1 else 0\<rparr>) l' (xs @ [b]) ups"
proof -
  let ?a = "unat (first_mcb st)" and ?m = "mark_low (if l' then MCB_NORMAL else MCB_LAST) z (mcbs st)"
  note tc = assms(1) [unfolded two_chains_split]
  have b: "blk_at (mcbs st) (?a + span xs) (if l then MCB_NORMAL else MCB_LAST) b" using tc by simp
  have uz: "unat z = ?a + span xs" unfolding assms(2) using blk_at_less [OF b] by (rule unat_of_nat16)
  have so: "same_outside (unat z) (unat z + 1) (mcbs st) ?m"
    by (rule same_outside_two [of z z]) (simp_all add: mark_low_def)
  have "blk_at ?m (?a + span xs) (if l' then MCB_NORMAL else MCB_LAST) b"
    using b assms(2) by (simp add: blk_at_def mark_low_def)
  moreover have "blocks ?m ?a xs" using tc so uz by (auto elim: blocks_frame_below)
  moreover have "chain ?m (?a + span xs + blen b) ups"
    using so by (rule chain_frame_above [rotated]) (use tc uz in \<open>auto simp: blen_def\<close>)
  ultimately show ?thesis using tc by (simp add: two_chains_split)
qed

lemma DosUmbLink_step:
  assumes tc: "two_chains st l (xs @ [b]) ups"
  shows "DosUmbLink q0 (if l' then 1 else 0) st = Some (if l = l' then st else
    st\<lparr>mcbs := mark_low (if l' then MCB_NORMAL else MCB_LAST) (of_nat (unat (first_mcb st) + span xs)) (mcbs st),
       uppermem_link := if l' then 1 else 0\<rparr>)"
proof (cases "l = l'")
  case True
  with tc show ?thesis by (simp add: DosUmbLink_def two_chains_def)
next
  case False
  let ?z = "of_nat (unat (first_mcb st) + span xs) :: u16"
  obtain q where q: "loop (umblink_body st) (first_mcb st, q0)
    = Some (Some (if l then (uppermem_root st, ?z) else (?z, q)))"
    using umblink_loop [OF tc] by blast
  have "m_type (mcbs st ?z) = (if l then MCB_NORMAL else MCB_LAST)"
    using tc by (simp only: two_chains_split blk_at_def)
  with False tc q show ?thesis
    by (cases l) (auto simp: DosUmbLink_def two_chains_def umblink_set_def mark_low_def Let_def)
qed

lemma DosUmbLink_two_chains:
  assumes "two_chains st l lows ups"
  shows "\<exists>st'. DosUmbLink q0 (if l' then 1 else 0) st = Some st' \<and> two_chains st' l' lows ups
    \<and> first_mcb st' = first_mcb st \<and> uppermem_root st' = uppermem_root st"
proof -
  from assms obtain xs b where lows: "lows = xs @ [b]" by (rule two_chains_cases)
  note tc = assms [unfolded lows]
  show ?thesis
    unfolding lows DosUmbLink_step [OF tc] using tc two_chains_mark [OF tc refl, of l'] by auto
qed

subsection \<open>FreeProcessMem\<close>

definition release :: "u16 \<Rightarrow> blk \<Rightarrow> blk" where
  "release ps b = (fst b, if snd b = ps then FREE_PSP else snd b)"

lemma release_simps [simp]: "blen (release ps b) = blen b" "fst (release ps b) = fst b"
  by (simp_all add: release_def blen_def)

lemma span_release [simp]: "span (map (release ps) bs) = span bs"
  by (induction bs) simp_all

lemma freeproc_step:
  assumes b: "blk_at (mcbs st) a t b" and t: "t = MCB_NORMAL \<or> t = MCB_LAST"
  shows "\<exists>m'. freeproc_body ps (of_nat a, st) = (if t = MCB_LAST then Inl (SUCCESS, st\<lparr>mcbs := m'\<rparr>)
      else Inr (of_nat (a + blen b), st\<lparr>mcbs := m'\<rparr>))
    \<and> blk_at m' a t (release ps b) \<and> same_outside a (a + 1) (mcbs st) m'"
proof -
  let ?p = "of_nat a :: u16"
  have p: "unat ?p = a" "?p \<noteq> 0" using unat_of_nat16 [OF blk_at_less [OF b]] blk_at_ptr [OF b] by simp_all
  define m' where "m' = (if snd b = ps then (mcbs st)(?p := (mcbs st ?p)\<lparr>m_psp := FREE_PSP, m_name := replicate 8 0\<rparr>)
    else mcbs st)"
  have bm: "blk_at m' a t (release ps b)" using b by (auto simp: m'_def blk_at_def release_def)
  have so: "same_outside a (a + 1) (mcbs st) m'"
    by (rule same_outside_two [of ?p ?p]) (simp_all add: m'_def p)
  have nxt: "nxtMCB m' ?p = of_nat (a + blen b)"
    using bm nxtMCB_of_nat [of m' a "release ps b"] by (simp add: blk_at_def)
  have "(if m_psp (mcbs st ?p) = ps then snd (DosMemFree ?p st) else st) = st\<lparr>mcbs := m'\<rparr>"
    using b t p(2) by (auto simp: m'_def DosMemFree_def blk_at_def mcbFreeable_def)
  moreover have "m_type (m' ?p) = t" using bm by (simp add: blk_at_def)
  ultimately have "freeproc_body ps (?p, st) = (if t = MCB_LAST then Inl (SUCCESS, st\<lparr>mcbs := m'\<rparr>)
      else Inr (of_nat (a + blen b), st\<lparr>mcbs := m'\<rparr>))"
    using blk_at_valid [OF b t] nxt by (simp add: freeproc_body_def Let_def)
  with bm so show ?thesis by blast
qed

lemma freeproc_chain:
  "chain (mcbs st) a bs \<Longrightarrow> \<exists>m'. loop (freeproc_body ps) (of_nat a, st) = Some (SUCCESS, st\<lparr>mcbs := m'\<rparr>)
     \<and> chain m' a (map (release ps) bs) \<and> same_outside a (a + span bs) (mcbs st) m'"
proof (induction bs arbitrary: a st)
  case (Cons b bs)
  from freeproc_step [OF chain_hd [OF Cons.prems], of ps] obtain m1 where
    s: "freeproc_body ps (of_nat a, st) = (if bs = [] then Inl (SUCCESS, st\<lparr>mcbs := m1\<rparr>)
      else Inr (of_nat (a + blen b), st\<lparr>mcbs := m1\<rparr>))"
    and h: "blk_at m1 a (if bs = [] then MCB_LAST else MCB_NORMAL) (release ps b)"
    and so: "same_outside a (a + 1) (mcbs st) m1" by (cases "bs = []") auto
  show ?case
  proof (cases "bs = []")
    case True
    with s h so show ?thesis
      by (intro exI [of _ m1]) (auto simp: loop_Inl blen_def elim: same_outside_mono)
  next
    case False
    have "chain (mcbs st) (a + blen b) bs" using Cons.prems False by (simp add: chain_Cons)
    then have "chain m1 (a + blen b) bs" using so by (rule chain_frame_above) (simp add: blen_def)
    with Cons.IH [of "st\<lparr>mcbs := m1\<rparr>" "a + blen b"] obtain m2 where
      r: "loop (freeproc_body ps) (of_nat (a + blen b), st\<lparr>mcbs := m1\<rparr>) = Some (SUCCESS, st\<lparr>mcbs := m2\<rparr>)"
      "chain m2 (a + blen b) (map (release ps) bs)" "same_outside (a + blen b) (a + blen b + span bs) m1 m2" by auto
    have "m2 (of_nat a) = m1 (of_nat a)"
      using r(3) unat_of_nat16 [OF blk_at_less [OF h]] by (simp add: same_outside_def)
    with h r(2) False have "chain m2 a (map (release ps) (b # bs))"
      by (simp add: chain_Cons blk_at_frame [of m1])
    moreover have "same_outside a (a + span (b # bs)) (mcbs st) m2"
      by (rule same_outside_trans [of _ _ _ m1])
        (rule same_outside_mono [OF so], simp_all add: blen_def, rule same_outside_mono [OF r(3)], simp_all add: blen_def)
    ultimately show ?thesis using s r(1) False by (intro exI [of _ m2]) (simp add: loop_Inr)
  qed
qed simp

text \<open>Exactly the blocks of the process become free, in both chains, and the link state is restored.\<close>

lemma FreeProcessMem_two_chains:
  assumes tc: "two_chains st l lows ups"
  shows "\<exists>st'. FreeProcessMem q0 q1 ps st = Some (SUCCESS, st')
    \<and> two_chains st' l (map (release ps) lows) (map (release ps) ups)"
proof -
  obtain st1 where s1: "DosUmbLink q0 1 st = Some st1" "two_chains st1 True lows ups"
    using DosUmbLink_two_chains [OF tc, of q0 True] by auto
  then have "chain (mcbs st1) (unat (first_mcb st1)) (lows @ ups)" by (simp add: two_chains_def)
  from freeproc_chain [OF this, of ps] obtain m where
    m: "loop (freeproc_body ps) (first_mcb st1, st1) = Some (SUCCESS, st1\<lparr>mcbs := m\<rparr>)"
    "chain m (unat (first_mcb st1)) (map (release ps) lows @ map (release ps) ups)" by auto
  have "two_chains (st1\<lparr>mcbs := m\<rparr>) True (map (release ps) lows) (map (release ps) ups)"
    using s1(2) m(2) by (simp add: two_chains_def)
  from DosUmbLink_two_chains [OF this, of q1 l] obtain st' where
    s': "DosUmbLink q1 (if l then 1 else 0) (st1\<lparr>mcbs := m\<rparr>) = Some st'"
    "two_chains st' l (map (release ps) lows) (map (release ps) ups)" by blast
  have "ucast (uppermem_link st AND 1) = (if l then 1 else 0 :: u16)"
    using tc by (simp add: two_chains_def)
  with s1(1) m(1) s' show ?thesis by (simp add: FreeProcessMem_def)
qed

text \<open>Without upper memory there is one chain.\<close>

lemma FreeProcessMem_low:
  assumes ch: "chain (mcbs st) (unat (first_mcb st)) bs" and no: "uppermem_root st = 0xFFFF"
  shows "\<exists>m. FreeProcessMem q0 q1 ps st = Some (SUCCESS, st\<lparr>mcbs := m\<rparr>)
    \<and> chain m (unat (first_mcb st)) (map (release ps) bs)"
proof -
  from freeproc_chain [OF ch, of ps] obtain m where
    "loop (freeproc_body ps) (first_mcb st, st) = Some (SUCCESS, st\<lparr>mcbs := m\<rparr>)"
    "chain m (unat (first_mcb st)) (map (release ps) bs)" by auto
  with no show ?thesis by (intro exI [of _ m]) (simp add: FreeProcessMem_def DosUmbLink_def)
qed

end
