(* ===== verification/MemIface.thy ===== *)
theory MemIface
  imports MemLink
begin

text \<open>
  What the rest of the kernel relies on when it calls the memory manager, as an interface: an
  allocator keeps a set of disjoint regions (first paragraph, number of paragraphs), a call adds
  the region it returns, a release takes it away again. The interface is interpreted on
  \<^const>\<open>DosMemAlloc\<close> and \<^const>\<open>DosMemFree\<close> the way \<^verbatim>\<open>inthndlr.c\<close> calls them.
\<close>

type_synonym region = "nat \<times> nat"

definition apart :: "region \<Rightarrow> region \<Rightarrow> bool" where
  "apart r r' \<longleftrightarrow> fst r + snd r \<le> fst r' \<or> fst r' + snd r' \<le> fst r"

text \<open>A client that makes several requests, one after the other.\<close>

fun alloc_all :: "(u16 \<Rightarrow> 's \<Rightarrow> (u16 option \<times> 's) option) \<Rightarrow> u16 list \<Rightarrow> 's \<Rightarrow>
    (u16 option list \<times> 's) option" where
  "alloc_all alloc [] s = Some ([], s)"
| "alloc_all alloc (n # ns) s = do {
     (p, s1) \<leftarrow> alloc n s;
     (ps, s2) \<leftarrow> alloc_all alloc ns s1;
     Some (p # ps, s2)
   }"

locale block_allocator =
  fixes inv :: "'s \<Rightarrow> bool"
    and regions :: "'s \<Rightarrow> region set"
    and pinned :: "'s \<Rightarrow> nat set"
    and alloc :: "u16 \<Rightarrow> 's \<Rightarrow> (u16 option \<times> 's) option"
    and free :: "u16 \<Rightarrow> 's \<Rightarrow> int \<times> 's"
  assumes apart: "inv s \<Longrightarrow> r \<in> regions s \<Longrightarrow> r' \<in> regions s \<Longrightarrow> r \<noteq> r' \<Longrightarrow> apart r r'"
    and nonempty: "inv s \<Longrightarrow> r \<in> regions s \<Longrightarrow> 0 < snd r"
    and pinned_used: "inv s \<Longrightarrow> x \<in> pinned s \<Longrightarrow> \<exists>n. (x, n) \<in> regions s"
    and alloc: "inv s \<Longrightarrow> \<exists>p s'. alloc n s = Some (p, s') \<and> inv s' \<and> pinned s' = pinned s
      \<and> (case p of None \<Rightarrow> regions s' = regions s
         | Some q \<Rightarrow> regions s' = insert (unat q, unat n + 1) (regions s)
             \<and> (\<forall>r \<in> regions s. apart (unat q, unat n + 1) r))"
    and free: "inv s \<Longrightarrow> (unat q, k) \<in> regions s \<Longrightarrow> unat q \<notin> pinned s \<Longrightarrow>
      \<exists>s'. free q s = (SUCCESS, s') \<and> inv s' \<and> regions s' = regions s - {(unat q, k)}"
begin

lemma new_region_apart:
  assumes "inv s" "\<forall>r \<in> regions s. apart (x, n) r" "0 < n"
  shows "(x, n) \<notin> regions s" "x \<notin> pinned s"
proof -
  show "(x, n) \<notin> regions s" using assms by (auto simp: apart_def)
  show "x \<notin> pinned s"
  proof
    assume "x \<in> pinned s"
    then obtain k where "(x, k) \<in> regions s" using pinned_used assms(1) by blast
    with assms nonempty [OF assms(1) this] show False by (auto simp: apart_def)
  qed
qed

lemma alloc_then_free:
  assumes "inv s" "alloc n s = Some (Some q, s1)"
  shows "\<exists>s2. free q s1 = (SUCCESS, s2) \<and> inv s2 \<and> regions s2 = regions s"
proof -
  have a: "inv s1" "pinned s1 = pinned s" "regions s1 = insert (unat q, unat n + 1) (regions s)"
    "\<forall>r \<in> regions s. apart (unat q, unat n + 1) r"
    using alloc [OF assms(1), of n] assms(2) by auto
  note new = new_region_apart [OF assms(1) a(4)]
  obtain s2 where "free q s1 = (SUCCESS, s2)" "inv s2"
    "regions s2 = regions s1 - {(unat q, unat n + 1)}"
    using free [OF a(1), of q "unat n + 1"] a(2,3) new by auto
  with a(3) new(1) show ?thesis by auto
qed

lemma alloc_all_Cons:
  assumes "inv s" "alloc_all alloc (n # ns) s = Some (ps, s')"
  obtains p s1 ps' where "alloc_all alloc ns s1 = Some (ps', s')" "ps = p # ps'" "inv s1"
    "regions s \<subseteq> regions s1" "\<And>q. p = Some q \<Longrightarrow> (unat q, unat n + 1) \<in> regions s1 - regions s"
proof -
  from alloc [OF assms(1), of n] obtain p s1 where a: "alloc n s = Some (p, s1)" "inv s1"
    "case p of None \<Rightarrow> regions s1 = regions s
       | Some q \<Rightarrow> regions s1 = insert (unat q, unat n + 1) (regions s)
           \<and> (\<forall>r \<in> regions s. apart (unat q, unat n + 1) r)" by blast
  with assms(2) obtain ps' where r: "alloc_all alloc ns s1 = Some (ps', s')" "ps = p # ps'"
    by (cases "alloc_all alloc ns s1") auto
  show ?thesis
  proof (rule that [OF r a(2)])
    show "regions s \<subseteq> regions s1" using a(3) by (auto split: option.splits)
    show "(unat q, unat n + 1) \<in> regions s1 - regions s" if "p = Some q" for q
      using a(3) that new_region_apart(1) [OF assms(1)] by simp
  qed
qed

lemma alloc_all_regions:
  assumes "inv s" "alloc_all alloc ns s = Some (ps, s')"
  shows "inv s' \<and> regions s \<subseteq> regions s' \<and> length ps = length ns"
  using assms
proof (induction ns arbitrary: s ps)
  case (Cons n ns)
  from alloc_all_Cons [OF Cons.prems] obtain p s1 ps' where
    "alloc_all alloc ns s1 = Some (ps', s')" "ps = p # ps'" "inv s1" "regions s \<subseteq> regions s1" by metis
  with Cons.IH [of s1 ps'] show ?case by auto
qed simp

lemma alloc_all_new:
  assumes "inv s" "alloc_all alloc ns s = Some (ps, s')" "i < length ns" "ps ! i = Some q"
  shows "(unat q, unat (ns ! i) + 1) \<in> regions s' - regions s"
  using assms
proof (induction ns arbitrary: s ps i)
  case (Cons n ns)
  from alloc_all_Cons [OF Cons.prems(1,2)] obtain p s1 ps' where
    a: "alloc_all alloc ns s1 = Some (ps', s')" "ps = p # ps'" "inv s1" "regions s \<subseteq> regions s1"
    "\<And>q. p = Some q \<Longrightarrow> (unat q, unat n + 1) \<in> regions s1 - regions s" by metis
  note sub = alloc_all_regions [OF a(3,1)]
  show ?case
  proof (cases i)
    case 0
    with a(2) Cons.prems(4) have "(unat q, unat n + 1) \<in> regions s1 - regions s" by (intro a(5)) simp
    with 0 sub show ?thesis by auto
  next
    case (Suc j)
    with Cons.IH [OF a(3,1), of j] Cons.prems(3,4) a(2,4) show ?thesis by auto
  qed
qed simp

text \<open>The regions a client gets from successive requests never overlap.\<close>

lemma alloc_all_apart:
  assumes "inv s" "alloc_all alloc ns s = Some (ps, s')" "i < j" "j < length ns"
    "ps ! i = Some q" "ps ! j = Some q'"
  shows "apart (unat q, unat (ns ! i) + 1) (unat q', unat (ns ! j) + 1)"
  using assms
proof (induction ns arbitrary: s ps i j)
  case (Cons n ns)
  from alloc_all_Cons [OF Cons.prems(1,2)] obtain p s1 ps' where
    a: "alloc_all alloc ns s1 = Some (ps', s')" "ps = p # ps'" "inv s1" "regions s \<subseteq> regions s1"
    "\<And>q. p = Some q \<Longrightarrow> (unat q, unat n + 1) \<in> regions s1 - regions s" by metis
  note sub = alloc_all_regions [OF a(3,1)]
  obtain j' where j: "j = Suc j'" using Cons.prems(3) by (cases j) auto
  show ?case
  proof (cases i)
    case 0
    have "(unat q, unat n + 1) \<in> regions s1" using 0 a(5) [of q] a(2) Cons.prems(5) by simp
    moreover have "(unat q', unat (ns ! j') + 1) \<in> regions s' - regions s1"
      using alloc_all_new [OF a(3,1), of j' q'] Cons.prems(4,6) a(2) j by simp
    ultimately have "apart (unat q, unat n + 1) (unat q', unat (ns ! j') + 1)"
      using sub by (intro apart [of s']) (blast, blast, blast, metis DiffD2)
    with 0 j show ?thesis by simp
  next
    case (Suc i')
    with Cons.IH [OF a(3,1), of i' j'] Cons.prems(3-6) a(2) j show ?thesis by simp
  qed
qed simp

end

subsection \<open>The memory manager is a block allocator\<close>

lemma chain_unique: "chain m a bs \<Longrightarrow> chain m a bs' \<Longrightarrow> bs = bs'"
proof (induction bs arbitrary: a bs')
  case (Cons b bs)
  then obtain c cs where bs': "bs' = c # cs" by (cases bs') auto
  have "b = c" "bs = [] \<longleftrightarrow> cs = []"
    using chain_hd [OF Cons.prems(1)] chain_hd [OF Cons.prems(2) [unfolded bs']]
    by (auto simp: blk_at_def prod_eq_iff split: if_splits)
  with Cons bs' show ?case by (cases "bs = []") (auto simp: chain_Cons)
qed simp

definition mem_inv :: "memstate \<Rightarrow> bool" where
  "mem_inv st \<longleftrightarrow> (\<exists>bs. arena_wf st bs) \<and> cu_psp st \<noteq> FREE_PSP"

definition mem_regions :: "memstate \<Rightarrow> region set" where
  "mem_regions st = {(x, blen b) |x b bs. arena_wf st bs \<and> (x, b) \<in> allocated st bs}"

definition mem_pinned :: "memstate \<Rightarrow> nat set" where
  "mem_pinned st = (if upper_linked st then {unat (uppermem_root st)} else {})"

text \<open>Interrupt 21h, functions 48h and 49h: the allocation strategy is \<^const>\<open>mem_access_mode\<close>.\<close>

definition mem_alloc :: "u16 \<Rightarrow> memstate \<Rightarrow> (u16 option \<times> memstate) option" where
  "mem_alloc sz st = do {
     r \<leftarrow> DosMemAlloc sz (ucast (mem_access_mode st)) st;
     Some (if al_rc r = SUCCESS then al_para r else None, al_st r)
   }"

lemma mem_regions_eq: "arena_wf st bs \<Longrightarrow> mem_regions st = (\<lambda>(x, b). (x, blen b)) ` allocated st bs"
proof -
  assume wf: "arena_wf st bs"
  then have "arena_wf st bs' \<longleftrightarrow> bs' = bs" for bs' by (auto simp: arena_wf_def dest: chain_unique)
  then show ?thesis by (auto simp: mem_regions_def)
qed

lemma placed_apart:
  assumes "(x, b) \<in> owned a bs" "(y, c) \<in> owned a bs" "(x, blen b) \<noteq> (y, blen c)"
  shows "apart (x, blen b) (y, blen c)"
  using placed_disjoint [OF owned_placed [OF assms(1)] owned_placed [OF assms(2)]] assms(3)
  by (auto simp: apart_def)

lemma mode_not_largest: "(ucast (w :: u8) :: u16) \<noteq> LARGEST"
proof
  assume "(ucast w :: u16) = LARGEST"
  then have "bit (ucast w :: u16) 8" by (simp add: LARGEST_def)
  then show False using bit_imp_le_length [of w 8] by (simp add: bit_simps)
qed

lemma mem_alloc_ok:
  assumes inv: "mem_inv st"
  shows "\<exists>p st'. mem_alloc sz st = Some (p, st') \<and> mem_inv st' \<and> mem_pinned st' = mem_pinned st
      \<and> (case p of None \<Rightarrow> mem_regions st' = mem_regions st
         | Some q \<Rightarrow> mem_regions st' = insert (unat q, unat sz + 1) (mem_regions st)
             \<and> (\<forall>r \<in> mem_regions st. apart (unat q, unat sz + 1) r))"
proof -
  obtain bs where wf: "arena_wf st bs" "cu_psp st \<noteq> FREE_PSP" using inv by (auto simp: mem_inv_def)
  from DosMemAlloc_ok [OF this] obtain r bs' where
    r: "DosMemAlloc sz (ucast (mem_access_mode st)) st = Some r"
    and ok: "alloc_ok sz (ucast (mem_access_mode st)) st bs r bs'" by blast
  have wf': "arena_wf (al_st r) bs'" using ok by (simp add: alloc_ok_def)
  obtain m where st': "al_st r = st\<lparr>mcbs := m\<rparr>" using ok unfolding alloc_ok_def by metis
  have reg: "mem_regions st = (\<lambda>(x, b). (x, blen b)) ` allocated st bs"
    "mem_regions (al_st r) = (\<lambda>(x, b). (x, blen b)) ` allocated st bs'"
    using mem_regions_eq [OF wf(1)] mem_regions_eq [OF wf'] by (simp_all add: st')
  have inv': "mem_inv (al_st r)" "mem_pinned (al_st r) = mem_pinned st"
    using wf' wf(2) by (auto simp: mem_inv_def mem_pinned_def st')
  show ?thesis
  proof (cases "al_rc r = SUCCESS")
    case False
    with ok have "mem_regions (al_st r) = mem_regions st" by (auto simp: alloc_ok_def reg)
    with False r inv' show ?thesis by (simp add: mem_alloc_def)
  next
    case True
    with ok obtain f where f: "al_para r = Some f"
      "allocated st bs' = insert (unat f, (sz, cu_psp st)) (allocated st bs)"
      "\<forall>(y, c) \<in> allocated st bs. unat f + blen (sz, cu_psp st) \<le> y \<or> y + blen c \<le> unat f"
      by (auto simp: alloc_ok_def mode_not_largest errs)
    then have "mem_regions (al_st r) = insert (unat f, unat sz + 1) (mem_regions st)"
      "\<forall>r \<in> mem_regions st. apart (unat f, unat sz + 1) r"
      by (fastforce simp: reg blen_def apart_def)+
    with True r inv' f(1) show ?thesis by (simp add: mem_alloc_def)
  qed
qed

lemma mem_free_ok:
  assumes "mem_inv st" "(unat q, n) \<in> mem_regions st" "unat q \<notin> mem_pinned st"
  shows "\<exists>st'. DosMemFree q st = (SUCCESS, st') \<and> mem_inv st' \<and> mem_regions st' = mem_regions st - {(unat q, n)}"
proof -
  obtain bs where wf: "arena_wf st bs" "cu_psp st \<noteq> FREE_PSP" using assms(1) by (auto simp: mem_inv_def)
  with assms(2) obtain b where b: "(unat q, b) \<in> allocated st bs" "n = blen b"
    by (auto simp: mem_regions_eq)
  have "upper_linked st \<Longrightarrow> q \<noteq> uppermem_root st" using assms(3) by (auto simp: mem_pinned_def)
  from DosMemFree_ok [OF wf(1) b(1) this] obtain st' bs' where
    s: "DosMemFree q st = (SUCCESS, st')" "arena_wf st' bs'" "st' = st\<lparr>mcbs := mcbs st'\<rparr>"
    "allocated st bs' = allocated st bs - {(unat q, b)}" by blast
  have eq: "first_mcb st' = first_mcb st" "cu_psp st' = cu_psp st"
    using s(3) by (metis memstate.select_convs(2) memstate.surjective memstate.update_convs(1),
      metis memstate.select_convs(6) memstate.surjective memstate.update_convs(1))
  have only: "y = b" if "(unat q, y) \<in> allocated st bs" for y
    using placed_disjoint [OF owned_placed [OF that] owned_placed [OF b(1)]] blen_pos(1) [of y] blen_pos(1) [of b] by auto
  have "mem_regions st' = mem_regions st - {(unat q, n)}"
    unfolding mem_regions_eq [OF wf(1)] mem_regions_eq [OF s(2)] eq s(4) b(2) using only by auto
  with s(1,2) eq wf(2) show ?thesis unfolding mem_inv_def by auto
qed

interpretation dosmem: block_allocator mem_inv mem_regions mem_pinned mem_alloc DosMemFree
proof unfold_locales
  fix s r r' assume "mem_inv s" "r \<in> mem_regions s" "r' \<in> mem_regions s" "r \<noteq> r'"
  moreover obtain bs where "arena_wf s bs" using \<open>mem_inv s\<close> by (auto simp: mem_inv_def)
  ultimately obtain x b y c where "r = (x, blen b)" "r' = (y, blen c)"
    "(x, b) \<in> allocated s bs" "(y, c) \<in> allocated s bs"
    unfolding mem_regions_eq [OF \<open>arena_wf s bs\<close>] by fast
  with placed_apart \<open>r \<noteq> r'\<close> show "apart r r'" by metis
next
  fix s r assume "mem_inv s" "r \<in> mem_regions s"
  then show "0 < snd r" by (auto simp: mem_inv_def mem_regions_eq)
next
  fix s x assume "mem_inv s" "x \<in> mem_pinned s"
  then show "\<exists>n. (x, n) \<in> mem_regions s"
    by (fastforce simp: mem_inv_def mem_regions_eq mem_pinned_def arena_wf_def split: if_splits)
qed (rule mem_alloc_ok mem_free_ok, assumption+)+

end
