(* ===== verification/MemProps.thy ===== *)
theory MemProps
  imports MemIface
begin

text \<open>
  The properties of the memory manager, with a small arena on which their hypotheses hold.
\<close>

subsection \<open>An arena\<close>

text \<open>
  The chain starts at segment 1: a block of 9 paragraphs of process 8, a free block of 19, a block
  of 4 of process 7, a free block of 29 that ends the chain. There is no upper memory.
\<close>

definition demo_arena :: arena where
  "demo_arena = (\<lambda>_. \<lparr>m_type = 0, m_psp = 0, m_size = 0, m_name = replicate 8 0\<rparr>)
     (1 := \<lparr>m_type = MCB_NORMAL, m_psp = 8, m_size = 9, m_name = replicate 8 0\<rparr>,
      11 := \<lparr>m_type = MCB_NORMAL, m_psp = 0, m_size = 19, m_name = replicate 8 0\<rparr>,
      31 := \<lparr>m_type = MCB_NORMAL, m_psp = 7, m_size = 4, m_name = replicate 8 0\<rparr>,
      36 := \<lparr>m_type = MCB_LAST, m_psp = 0, m_size = 29, m_name = replicate 8 0\<rparr>)"

definition demo_mem :: memstate where
  "demo_mem = \<lparr>mcbs = demo_arena, first_mcb = 1, uppermem_root = 0xFFFF, uppermem_link = 0, mem_access_mode = 0, cu_psp = 7\<rparr>"

definition demo_blks :: "blk list" where
  "demo_blks = [(9, 8), (19, 0), (4, 7), (29, 0)]"

lemma demo_mem_wf: "arena_wf demo_mem demo_blks"
  by (simp add: arena_wf_def demo_mem_def demo_arena_def demo_blks_def blk_at_def blen_def upper_linked_def mcb_consts)

lemma demo_allocated: "allocated demo_mem demo_blks = {(1, (9, 8)), (31, (4, 7))}"
  by (auto simp: demo_mem_def demo_blks_def blen_def FREE_PSP_def)

lemma demo_mem_inv: "mem_inv demo_mem"
  using demo_mem_wf by (auto simp: mem_inv_def demo_mem_def FREE_PSP_def)

text \<open>Two first-fit requests, of 5 and of 2 paragraphs.\<close>

lemma demo_scan1: "alloc_pass 5 0 demo_mem = Some (Inl (alloc_give 5 0 11 None demo_mem demo_arena))"
proof -
  have "scan_body 5 0 (1, 0, 0, demo_arena) = Inr (11, 0, 0, demo_arena)"
    by (simp add: scan_body_def scan_next_def demo_arena_def mcbValid_def mcbFree_def nxtMCB_def nxtMCBsize_def mcb_consts)
  moreover have "joinMCBs 11 demo_arena = (SUCCESS, demo_arena)"
    by (simp add: joinMCBs.simps demo_arena_def mcbFree_def nxtMCB_def nxtMCBsize_def mcb_consts)
  then have "scan_body 5 0 (11, 0, 0, demo_arena) = Inl (Scan_stopIt 11 demo_arena)"
    by (simp add: scan_body_def fit_rule_def demo_arena_def mcbValid_def mcbFree_def mcb_consts)
  ultimately show ?thesis
    by (simp add: alloc_pass_def scan_start_def upper_linked_def demo_mem_def loop_Inr loop_Inl)
qed

definition demo_st1 :: memstate where
  "demo_st1 = al_st (alloc_give 5 0 11 None demo_mem demo_arena)"

lemma demo_alloc1: "mem_alloc 5 demo_mem = Some (Some 11, demo_st1)"
  using demo_scan1 by (simp add: mem_alloc_def DosMemAlloc_def demo_mem_def demo_st1_def alloc_give_def alloc_take_def
    split_first_def demo_arena_def nxtMCBsize_def Let_def mcb_consts)

lemma demo_st1_mcbs:
  "mcbs demo_st1 1 = demo_arena 1" "m_type (mcbs demo_st1 11) = MCB_NORMAL" "m_psp (mcbs demo_st1 11) = 7"
  "m_size (mcbs demo_st1 11) = 5" "m_type (mcbs demo_st1 17) = MCB_NORMAL" "m_psp (mcbs demo_st1 17) = 0"
  "m_size (mcbs demo_st1 17) = 13" "mcbs demo_st1 31 = demo_arena 31"
  "first_mcb demo_st1 = 1" "uppermem_link demo_st1 = 0" "mem_access_mode demo_st1 = 0"
  by (simp_all add: demo_st1_def alloc_give_def alloc_take_def split_first_def demo_mem_def demo_arena_def
    nxtMCBsize_def Let_def mcb_consts)

lemma demo_scan2: "alloc_pass 2 0 demo_st1 = Some (Inl (alloc_give 2 0 17 None demo_st1 (mcbs demo_st1)))"
proof -
  let ?m = "mcbs demo_st1"
  have "scan_body 2 0 (1, 0, 0, ?m) = Inr (11, 0, 0, ?m)" "scan_body 2 0 (11, 0, 0, ?m) = Inr (17, 0, 0, ?m)"
    by (simp_all add: scan_body_def scan_next_def demo_st1_mcbs demo_arena_def mcbValid_def mcbFree_def nxtMCB_def
      nxtMCBsize_def mcb_consts)
  moreover have "joinMCBs 17 ?m = (SUCCESS, ?m)"
    by (subst joinMCBs.simps) (simp add: demo_st1_mcbs demo_arena_def mcbFree_def nxtMCB_def nxtMCBsize_def mcb_consts)
  then have "scan_body 2 0 (17, 0, 0, ?m) = Inl (Scan_stopIt 17 ?m)"
    by (simp add: scan_body_def fit_rule_def demo_st1_mcbs mcbValid_def mcbFree_def mcb_consts)
  ultimately show ?thesis
    by (simp add: alloc_pass_def scan_start_def upper_linked_def demo_st1_mcbs loop_Inr loop_Inl)
qed

lemma demo_alloc2: "\<exists>st2. mem_alloc 2 demo_st1 = Some (Some 17, st2)"
  using demo_scan2 by (simp add: mem_alloc_def DosMemAlloc_def demo_st1_mcbs alloc_give_def alloc_take_def
    split_first_def nxtMCBsize_def Let_def mcb_consts)

text \<open>The same low chain, not linked to an upper one of two blocks at segment 66.\<close>

definition demo_umb :: memstate where
  "demo_umb = demo_mem\<lparr>mcbs := demo_arena(66 := \<lparr>m_type = MCB_NORMAL, m_psp = 8, m_size = 9, m_name = replicate 8 0\<rparr>,
      76 := \<lparr>m_type = MCB_LAST, m_psp = 7, m_size = 3, m_name = replicate 8 0\<rparr>), uppermem_root := 66\<rparr>"

lemma demo_umb_chains: "two_chains demo_umb False demo_blks [(9, 8), (3, 7)]"
  by (simp add: two_chains_def demo_umb_def demo_mem_def demo_arena_def demo_blks_def blk_at_def blen_def mcb_consts)

subsection \<open>Allocation\<close>

text \<open>
  C1. On every well-formed chain of memory control blocks \<^const>\<open>DosMemAlloc\<close> returns. The chain it
  leaves is well formed and covers the same paragraphs, and no other kernel variable changes. Either it
  reports \<^const>\<open>DE_NOMEM\<close> and every allocated block is as before, or it returns the address of a new
  block of the requested size (at least that size for \<^const>\<open>LARGEST\<close>), owned by the current process,
  that overlaps no block allocated before; all of those are still allocated.
\<close>

theorem DosMemAlloc_safe:
  assumes "arena_wf st bs" "cu_psp st \<noteq> FREE_PSP"
  shows "\<exists>r bs'. DosMemAlloc sz mode st = Some r \<and> arena_wf (al_st r) bs' \<and> span bs' = span bs
    \<and> al_st r = st\<lparr>mcbs := mcbs (al_st r)\<rparr>
    \<and> (al_rc r = DE_NOMEM \<and> al_para r = None \<and> allocated st bs' = allocated st bs
       \<or> (\<exists>f sz'. al_rc r = SUCCESS \<and> al_para r = Some f \<and> (if mode = LARGEST then sz \<le> sz' else sz' = sz)
           \<and> allocated st bs' = insert (unat f, (sz', cu_psp st)) (allocated st bs)
           \<and> (\<forall>(y, c) \<in> allocated st bs. unat f + blen (sz', cu_psp st) \<le> y \<or> y + blen c \<le> unat f)))"
  using DosMemAlloc_ok [OF assms] unfolding alloc_ok_def .

theorem DosMemAlloc_safe_witness:
  "\<exists>r bs'. DosMemAlloc 19 BEST_FIT demo_mem = Some r \<and> arena_wf (al_st r) bs' \<and> span bs' = 65"
  using DosMemAlloc_safe [OF demo_mem_wf, of 19 BEST_FIT]
  by (auto simp: demo_mem_def demo_blks_def FREE_PSP_def blen_def)

text \<open>
  C17. Which block the strategies choose. From the start of the scan (upper memory when it is linked
  and the mode asks for it) the free neighbours are merged, and the new block is cut from the
  smallest free block that is large enough (best fit), from the one at the lowest address (first fit),
  from the one at the highest address (last fit), or is the largest free block itself
  (\<^const>\<open>LARGEST\<close>). When there is none the size of the largest free block is reported, unless the mode
  allows a second pass over low memory.
\<close>

theorem alloc_pass_strategy:
  assumes "arena_wf st bs"
  shows "\<exists>pre tail r. bs = pre @ tail \<and> scan_start sz mode st = of_nat (unat (first_mcb st) + span pre)
    \<and> alloc_pass sz mode st = Some r
    \<and> (case r of
         Inr (mode', st') \<Rightarrow> none_usable sz mode (unat (first_mcb st) + span pre) (coalesce tail)
           \<and> falls_back mode st \<and> mode' = mode AND NOT FIRST_FIT_U
       | Inl ret \<Rightarrow>
           al_rc ret = SUCCESS \<and> (\<exists>x b. chosen sz mode (unat (first_mcb st) + span pre) (coalesce tail) (x, b)
              \<and> al_para ret = Some (of_nat (x + carve_pos sz mode b)))
         \<or> al_rc ret = DE_NOMEM \<and> none_usable sz mode (unat (first_mcb st) + span pre) (coalesce tail)
           \<and> \<not> falls_back mode st
           \<and> al_asize ret = Some (largest_free (unat (first_mcb st) + span pre) (coalesce tail)))"
proof -
  obtain pre tail where d: "bs = pre @ tail" "tail \<noteq> []"
    "scan_start sz mode st = of_nat (unat (first_mcb st) + span pre)"
    using scan_start_split [OF assms] by metis
  have "chain (mcbs st) (unat (first_mcb st)) (pre @ tail)" using assms d(1) by (simp add: arena_wf_def)
  from alloc_pass_correct [OF this d(2,3)] obtain r where r: "alloc_pass sz mode st = Some r"
    "pass_post sz mode st (unat (first_mcb st)) pre tail r" by blast
  with d(1,3) show ?thesis
    by (intro exI [of _ pre] exI [of _ tail] exI [of _ r]) (fastforce simp: pass_post_def gives_def split: sum.splits)
qed

theorem alloc_pass_strategy_witness:
  "\<exists>pre tail r. demo_blks = pre @ tail \<and> alloc_pass 5 LAST_FIT demo_mem = Some r"
  using alloc_pass_strategy [OF demo_mem_wf, of 5 LAST_FIT] by metis

subsection \<open>Release and resize\<close>

lemma memcheck_damaged:
  "blocks m a bs \<Longrightarrow> m_type (m (of_nat (a + span bs))) \<notin> {MCB_NORMAL, MCB_LAST} \<Longrightarrow>
     loop (memcheck_body m) (of_nat a) = Some DE_MCBDESTRY"
proof (induction bs arbitrary: a)
  case (Cons b bs)
  then have "memcheck_body m (of_nat a) = Inr (of_nat (a + blen b))"
    using nxtMCB_of_nat [of m a b] by (simp add: memcheck_body_def blk_at_def mcb_consts)
  then show ?case using Cons.IH [of "a + blen b"] Cons.prems by (simp add: loop_Inr add.assoc)
qed (simp add: loop_Inl memcheck_body_def)

lemma remark_low:
  assumes "m_type (mcbs st z) = t" "uppermem_link st = k"
  shows "st\<lparr>mcbs := (mcbs st)(z := (mcbs st z)\<lparr>m_type := t\<rparr>), uppermem_link := k\<rparr> = st"
proof -
  have "(mcbs st z)\<lparr>m_type := t\<rparr> = mcbs st z" using assms(1) by (cases "mcbs st z") simp
  with assms(2) show ?thesis by (cases st) simp
qed

text \<open>
  C18. \<^const>\<open>DosMemChange\<close> of an allocated block. The free blocks behind the block are merged into it
  when it has to grow. If the size fits into that room the block gets it, owned by the current process,
  and the rest becomes a free block; otherwise \<^const>\<open>DE_NOMEM\<close> and the largest possible size are
  returned, and the block keeps the room. Every other allocated block is untouched.
\<close>

theorem DosMemChange_resizes:
  assumes "arena_wf st (dn @ b # rest)" "snd b \<noteq> FREE_PSP" "cu_psp st \<noteq> FREE_PSP"
    and "unat (para - 1) = unat (first_mcb st) + span dn" and rm: "rm = grow_room sz b rest"
  shows "\<exists>st' bs'. DosMemChange para sz st = (if sz \<le> rm then (SUCCESS, None, st') else (DE_NOMEM, Some rm, st'))
    \<and> arena_wf st' bs' \<and> span bs' = span (dn @ b # rest) \<and> st' = st\<lparr>mcbs := mcbs st'\<rparr>
    \<and> allocated st bs' = insert (unat (para - 1), if sz \<le> rm then (sz, cu_psp st) else (rm, snd b))
        (allocated st (dn @ b # rest) - {(unat (para - 1), b)})"
  using DosMemChange_ok [OF assms] .

theorem DosMemChange_resizes_witness:
  "\<exists>st' bs'. DosMemChange 32 40 demo_mem = (DE_NOMEM, Some 34, st')
     \<and> allocated demo_mem bs' = {(1, (9, 8)), (31, (34, 7))}"
proof -
  have wf: "arena_wf demo_mem ([(9, 8), (19, 0)] @ (4, 7) # [(29, 0)])" using demo_mem_wf by (simp add: demo_blks_def)
  have rm: "34 = grow_room 40 (4, 7) [(29, 0)]" by (simp add: grow_room_def room_def FREE_PSP_def)
  have al: "allocated demo_mem ([(9, 8), (19, 0)] @ (4, 7) # [(29, 0)]) - {(31, (4, 7))} = {(1, (9, 8))}"
    using demo_allocated by (auto simp: demo_blks_def)
  show ?thesis using DosMemChange_resizes [OF wf _ _ _ rm, of 32] al
    by (auto simp: demo_mem_def FREE_PSP_def blen_def insert_commute)
qed

text \<open>
  C34. \<^const>\<open>DosMemCheck\<close> tells a sound chain from a damaged one: it returns \<^const>\<open>SUCCESS\<close> when the
  chain is well formed, and \<^const>\<open>DE_MCBDESTRY\<close> when sound blocks lead to one whose type is neither
  that of a normal nor that of the last block.
\<close>

theorem DosMemCheck_detects:
  "(\<forall>bs. chain (mcbs st) (unat (first_mcb st)) bs \<longrightarrow> DosMemCheck st = Some SUCCESS)
   \<and> (\<forall>bs. blocks (mcbs st) (unat (first_mcb st)) bs
       \<longrightarrow> m_type (mcbs st (of_nat (unat (first_mcb st) + span bs))) \<notin> {MCB_NORMAL, MCB_LAST}
       \<longrightarrow> DosMemCheck st = Some DE_MCBDESTRY)"
  using memcheck_damaged [of "mcbs st" "unat (first_mcb st)"] memcheck_chain [of "mcbs st" "unat (first_mcb st)"]
  by (simp add: DosMemCheck_def)

theorem DosMemCheck_detects_witness:
  "DosMemCheck demo_mem = Some SUCCESS \<and> DosMemCheck (demo_mem\<lparr>mcbs := demo_arena(31 := (demo_arena 31)\<lparr>m_type := 0\<rparr>)\<rparr>) = Some DE_MCBDESTRY"
proof -
  let ?st = "demo_mem\<lparr>mcbs := demo_arena(31 := (demo_arena 31)\<lparr>m_type := 0\<rparr>)\<rparr>"
  have ch: "chain (mcbs demo_mem) (unat (first_mcb demo_mem)) demo_blks" using demo_mem_wf by (simp add: arena_wf_def)
  have bl: "blocks (mcbs ?st) (unat (first_mcb ?st)) [(9, 8), (19, 0)]"
    "m_type (mcbs ?st (of_nat (unat (first_mcb ?st) + span [(9, 8), (19, 0)]))) \<notin> {MCB_NORMAL, MCB_LAST}"
    by (simp_all add: demo_mem_def demo_arena_def blk_at_def blen_def mcb_consts)
  show ?thesis using DosMemCheck_detects [of demo_mem] DosMemCheck_detects [of ?st] ch bl by blast
qed

subsection \<open>Upper memory and the end of a process\<close>

text \<open>
  C23. \<^const>\<open>DosUmbLink\<close> joins the upper chain to the low one and takes it off again. Whatever the
  uninitialised variable of the code holds, it returns, the low and the upper blocks are what they were,
  and linking and then unlinking (or the other way round) restores the whole memory.
\<close>

theorem DosUmbLink_round_trip:
  assumes "two_chains st l lows ups"
  shows "\<exists>st'. DosUmbLink q0 (if l then 0 else 1) st = Some st' \<and> two_chains st' (\<not> l) lows ups
    \<and> DosUmbLink q1 (if l then 1 else 0) st' = Some st"
proof -
  obtain xs b where lo: "lows = xs @ [b]" using two_chains_cases [OF assms] .
  note tc = assms [unfolded lo]
  obtain st' where s': "DosUmbLink q0 (if l then 0 else 1) st = Some st'" "two_chains st' (\<not> l) lows ups"
    "first_mcb st' = first_mcb st"
    using DosUmbLink_two_chains [OF assms, of q0 "\<not> l"] by (auto split: if_splits)
  let ?z = "of_nat (unat (first_mcb st) + span xs) :: u16"
  have "m_type (mcbs st ?z) = (if l then MCB_NORMAL else MCB_LAST)" "uppermem_link st = (if l then 1 else 0)"
    using tc by (auto simp: two_chains_split blk_at_def)
  moreover have "st' = st\<lparr>mcbs := mark_low (if l then MCB_LAST else MCB_NORMAL) ?z (mcbs st), uppermem_link := if l then 0 else 1\<rparr>"
    using DosUmbLink_step [OF tc, of q0 "\<not> l"] s'(1) by (cases l) auto
  ultimately have "DosUmbLink q1 (if l then 1 else 0) st' = Some st"
    using DosUmbLink_step [OF s'(2) [unfolded lo], of q1 l] s'(3) by (cases l) (auto simp: mark_low_def remark_low)
  with s' show ?thesis by blast
qed

theorem DosUmbLink_round_trip_witness:
  "\<exists>st'. DosUmbLink 0 1 demo_umb = Some st' \<and> two_chains st' True demo_blks [(9, 8), (3, 7)]
    \<and> DosUmbLink 0 0 st' = Some demo_umb"
  using DosUmbLink_round_trip [OF demo_umb_chains, of 0 0] by simp

text \<open>
  C20. \<^const>\<open>FreeProcessMem\<close> at the end of a process releases every block of the process in low and in
  upper memory and no other block, whether upper memory is linked or not, and leaves the link state as
  it found it.
\<close>

theorem FreeProcessMem_releases:
  assumes "two_chains st l lows ups"
  shows "\<exists>st'. FreeProcessMem q0 q1 ps st = Some (SUCCESS, st')
    \<and> two_chains st' l (map (release ps) lows) (map (release ps) ups)"
  using FreeProcessMem_two_chains [OF assms] .

theorem FreeProcessMem_releases_witness:
  "\<exists>st'. FreeProcessMem 0 0 7 demo_umb = Some (SUCCESS, st')
    \<and> two_chains st' False [(9, 8), (19, 0), (4, 0), (29, 0)] [(9, 8), (3, 0)]"
  using FreeProcessMem_releases [OF demo_umb_chains, of 0 0 7] by (simp add: demo_blks_def release_def FREE_PSP_def)

subsection \<open>Clients\<close>

text \<open>
  Successive requests through interrupt 21h never get overlapping memory: of any sequence of
  allocations made one after the other, any two that succeed return disjoint regions.
\<close>

lemma requests_apart:
  assumes "mem_inv st" "alloc_all mem_alloc ns st = Some (ps, st')" "i < j" "j < length ns"
    "ps ! i = Some q" "ps ! j = Some q'"
  shows "apart (unat q, unat (ns ! i) + 1) (unat q', unat (ns ! j) + 1)"
  using dosmem.alloc_all_apart [OF assms] .

text \<open>
  Memory that has just been allocated can be given back, and then the allocated regions are those
  from before the call.
\<close>

lemma alloc_free_round_trip:
  assumes "mem_inv st" "mem_alloc n st = Some (Some q, st1)"
  shows "\<exists>st2. DosMemFree q st1 = (SUCCESS, st2) \<and> mem_inv st2 \<and> mem_regions st2 = mem_regions st"
  using dosmem.alloc_then_free [OF assms] .

subsection \<open>Far pointers\<close>

text \<open>
  \<^const>\<open>adjust_far\<close> normalises a far pointer: the offset becomes smaller than 16 and the linear
  address stays the same up to the wrap-around of the 20-bit address space; a pointer into segment
  \<open>0xFFFF\<close> is left alone.
\<close>

definition linear :: "u16 \<times> u16 \<Rightarrow> nat" where
  "linear fp = 16 * unat (fst fp) + unat (snd fp)"

lemma adjust_far_linear:
  "linear (adjust_far fp) mod 1048576 = linear fp mod 1048576
    \<and> (if fst fp = 0xFFFF then adjust_far fp = fp else unat (snd (adjust_far fp)) < 16)"
proof (cases fp)
  case (Pair sg off)
  have "off AND 0xF = take_bit 4 off" by (simp add: take_bit_eq_mask mask_eq_exp_minus_1)
  then have lo: "unat (off AND 0xF) = unat off mod 16" by (simp add: take_bit_eq_mod unat_mod_distrib)
  have hi: "unat (drop_bit 4 off) = unat off div 16" by (simp add: drop_bit_eq_div unat_div_distrib)
  have "(16 * ((unat sg + unat off div 16) mod 65536) + unat off mod 16) mod 1048576
      = (16 * unat sg + unat off) mod 1048576"
  proof -
    have "16 * (x mod 65536) = (16 * x) mod (1048576 :: nat)" for x using mult_mod_right [of 16 x 65536] by simp
    then have "(16 * (x mod 65536) + y) mod 1048576 = (16 * x + y) mod (1048576 :: nat)" for x y
      by (simp add: mod_add_left_eq)
    moreover have "16 * (unat sg + unat off div 16) + unat off mod 16 = 16 * unat sg + unat off" by simp
    ultimately show ?thesis by presburger
  qed
  then show ?thesis using Pair by (simp add: adjust_far_def linear_def unat_word_ariths hi lo)
qed

end
