(* ===== verification/Share.thy ===== *)
theory Share
  imports Prelude
begin

text \<open>
  File sharing and record locking, \<^verbatim>\<open>share/share.c\<close>: the table of open instances with the sharing
  rules, the table of locked regions, and the multiplex handler through which the kernel calls them.
  An array is the list of its elements; a read or write outside an array (an unterminated name, an
  index that is no entry) has no defined value in C and is \<^term>\<open>None\<close> here. Critical errors
  (\<^verbatim>\<open>INT 24h\<close>) are recorded in the order they are raised, as the registers AL and DI.
\<close>

subsection \<open>Constants, tables and entries\<close>

definition OPEN_READ_ONLY :: u16 where "OPEN_READ_ONLY = 0"
definition OPEN_WRITE_ONLY :: u16 where "OPEN_WRITE_ONLY = 1"
definition OPEN_READ_WRITE :: u16 where "OPEN_READ_WRITE = 2"
definition SHARE_COMPAT :: u16 where "SHARE_COMPAT = 0"
definition SHARE_DENY_ALL :: u16 where "SHARE_DENY_ALL = 1"
definition SHARE_DENY_WRITE :: u16 where "SHARE_DENY_WRITE = 2"
definition SHARE_DENY_READ :: u16 where "SHARE_DENY_READ = 3"
definition SHARE_DENY_NONE :: u16 where "SHARE_DENY_NONE = 4"
definition MULTIPLEX_ID :: u16 where "MULTIPLEX_ID = 0x10"

named_theorems share_consts \<open>the constants of share.c\<close>

declare OPEN_READ_ONLY_def [share_consts] OPEN_WRITE_ONLY_def [share_consts]
  OPEN_READ_WRITE_def [share_consts] SHARE_COMPAT_def [share_consts] SHARE_DENY_ALL_def [share_consts]
  SHARE_DENY_WRITE_def [share_consts] SHARE_DENY_READ_def [share_consts]
  SHARE_DENY_NONE_def [share_consts] MULTIPLEX_ID_def [share_consts]

definition open_actions :: "u8 list list" where
  "open_actions =
    [[0, 1, 1, 1, 1],
     [2, 1, 1, 1, 1],
     [2, 1, 1, 1, 1],
     [2, 1, 1, 1, 1],
     [2, 1, 1, 1, 0]]"

text \<open>First sharing mode, first open mode, current sharing mode, current open mode, action.\<close>

type_synonym open_action_exception_t = "u8 \<times> u8 \<times> u8 \<times> u8 \<times> u8"

definition open_exceptions :: "open_action_exception_t list" where
  "open_exceptions =
    [(0, 0, 2, 0, 3),
     (0, 0, 4, 0, 3),
     (2, 0, 0, 0, 4),
     (2, 0, 2, 0, 0),
     (2, 0, 4, 0, 0),
     (3, 0, 2, 1, 0),
     (3, 0, 4, 1, 0),
     (3, 1, 4, 1, 0),
     (3, 2, 4, 1, 0),
     (4, 0, 0, 0, 4),
     (4, 0, 0, 1, 0),
     (4, 0, 0, 2, 0),
     (4, 0, 2, 0, 0),
     (4, 0, 2, 1, 0),
     (4, 0, 2, 2, 0),
     (4, 1, 3, 0, 0),
     (4, 1, 3, 1, 0),
     (4, 1, 3, 2, 0)]"

record file_t =
  filename :: "u8 list"
  f_psp :: u16
  openmode :: u8
  sharemode :: u8
  first_openmode :: u8
  first_sharemode :: u8

record lock_t =
  used :: u8
  l_start :: u32
  l_end :: u32
  fileno :: u16
  l_psp :: u16

record share =
  file_table :: "file_t list"
  lock_table :: "lock_t list"
  criterrs :: "(u8 \<times> u16) list"

subsection \<open>Helpers\<close>

definition remove_all_locks :: "u16 \<Rightarrow> share \<Rightarrow> share" where
  "remove_all_locks fno s =
     s\<lparr>lock_table := map (\<lambda>l. if fileno l = fno then l\<lparr>used := 0\<rparr> else l) (lock_table s)\<rparr>"

definition file_at :: "nat \<Rightarrow> share \<Rightarrow> file_t option" where
  "file_at i s = (if i < length (file_table s) then Some (file_table s ! i) else None)"

definition free_file_table_entry :: "nat \<Rightarrow> share \<Rightarrow> share option" where
  "free_file_table_entry i s = do {
     f \<leftarrow> file_at i s;
     Some (s\<lparr>file_table := (file_table s)[i := f\<lparr>filename := (filename f)[0 := 0]\<rparr>]\<rparr>)
   }"

fun fnmatches :: "u8 list \<Rightarrow> u8 list \<Rightarrow> bool option" where
  "fnmatches (c # cs) (d # ds) =
     (if c \<noteq> 0 then if c \<noteq> d then Some False else fnmatches cs ds
      else Some (c = d))"
| "fnmatches _ _ = None"

text \<open>The critical error of a sharing or lock violation: drive letter in AL, error code in DI.\<close>

definition crit_error :: "u16 \<Rightarrow> file_t \<Rightarrow> share \<Rightarrow> share" where
  "crit_error di f s =
     (let al = (if filename f ! 0 \<noteq> 0 \<and> filename f ! 1 = 0x3A then filename f ! 0 - 0x41 else 0)
      in s\<lparr>criterrs := criterrs s @ [(al, di)]\<rparr>)"

subsection \<open>Opening and closing\<close>

text \<open>
  The loop of \<^verbatim>\<open>do_open_check\<close> over the other entries ends at the first one with the same name
  (each way through the \<^verbatim>\<open>switch\<close> leaves it).
\<close>

fun first_match :: "u8 list \<Rightarrow> nat \<Rightarrow> nat \<Rightarrow> file_t list \<Rightarrow> file_t option option" where
  "first_match fn skip i [] = Some None"
| "first_match fn skip i (p # ps) =
     (if i = skip then first_match fn skip (Suc i) ps
      else if filename p ! 0 = 0 then first_match fn skip (Suc i) ps
      else do {
        b \<leftarrow> fnmatches (filename p) fn;
        if \<not> b then first_match fn skip (Suc i) ps else Some (Some p)
      })"

fun find_exception :: "u8 \<Rightarrow> u8 \<Rightarrow> u8 \<Rightarrow> u8 \<Rightarrow> open_action_exception_t list \<Rightarrow> u8 option" where
  "find_exception fs fo cs co [] = None"
| "find_exception fs fo cs co ((fs', fo', cs', co', a) # es) =
     (if fs' = fs \<and> cs' = cs \<and> fo' = fo \<and> co' = co then Some a else find_exception fs fo cs co es)"

definition open_action :: "u8 \<Rightarrow> u8 \<Rightarrow> u8 \<Rightarrow> u8 \<Rightarrow> u8 option" where
  "open_action fs fo cs co =
     (case find_exception fs fo cs co open_exceptions of
        Some a \<Rightarrow> Some a
      | None \<Rightarrow>
          if unat fs < length open_actions \<and> unat cs < length (open_actions ! unat fs)
          then Some (open_actions ! unat fs ! unat cs) else None)"

definition do_open_check :: "nat \<Rightarrow> share \<Rightarrow> (int \<times> share) option" where
  "do_open_check i s = do {
     f \<leftarrow> file_at i s;
     let f1 = f\<lparr>first_sharemode := sharemode f, first_openmode := openmode f\<rparr>;
     let s1 = s\<lparr>file_table := (file_table s)[i := f1]\<rparr>;
     m \<leftarrow> first_match (filename f1) i 0 (file_table s1);
     case m of
       None \<Rightarrow> Some (int i, s1)
     | Some p \<Rightarrow> do {
         let f2 = f1\<lparr>first_sharemode := first_sharemode p, first_openmode := first_openmode p\<rparr>;
         let s2 = s1\<lparr>file_table := (file_table s1)[i := f2]\<rparr>;
         action \<leftarrow> open_action (first_sharemode f2) (first_openmode f2) (sharemode f) (openmode f);
         if action = 1 then do {
           s3 \<leftarrow> free_file_table_entry i s2;
           Some (-5, s3)
         } else if action = 2 then do {
           s3 \<leftarrow> free_file_table_entry i s2;
           Some (-0x20, crit_error 0x0d f2 s3)
         } else Some (int i, s2)
       }
   }"

text \<open>The copy of the caller's name stops after the terminator or at the end of the array.\<close>

fun copy_name :: "(nat \<Rightarrow> u8) \<Rightarrow> nat \<Rightarrow> nat \<Rightarrow> u8 list \<Rightarrow> u8 list" where
  "copy_name name i 0 buf = buf"
| "copy_name name i (Suc n) buf =
     (let buf' = buf[i := name i] in if name i = 0 then buf' else copy_name name (Suc i) n buf')"

fun free_slot :: "nat \<Rightarrow> file_t list \<Rightarrow> nat option" where
  "free_slot i [] = None"
| "free_slot i (f # fs) = (if filename f ! 0 = 0 then Some i else free_slot (Suc i) fs)"

definition open_check :: "(nat \<Rightarrow> u8) \<Rightarrow> u16 \<Rightarrow> u16 \<Rightarrow> u16 \<Rightarrow> share \<Rightarrow> (int \<times> share) option" where
  "open_check name psp omode smode s =
     (let smode1 = smode AND 7;
          smode2 = (if smode1 > SHARE_DENY_NONE then SHARE_COMPAT else smode1);
          omode1 = omode AND 3;
          omode2 = (if omode1 > OPEN_READ_WRITE then OPEN_READ_ONLY else omode1)
      in case free_slot 0 (file_table s) of
           None \<Rightarrow> Some (-1, s)
         | Some i \<Rightarrow>
             let f = file_table s ! i;
                 f' = f\<lparr>filename := copy_name name 0 (length (filename f)) (filename f), f_psp := psp,
                        openmode := ucast omode2, sharemode := ucast smode2\<rparr>
             in do_open_check i (s\<lparr>file_table := (file_table s)[i := f']\<rparr>))"

definition close_file :: "u16 \<Rightarrow> share \<Rightarrow> share option" where
  "close_file fno s = free_file_table_entry (unat fno) (remove_all_locks fno s)"

subsection \<open>Locks\<close>

text \<open>The end of the region, saturated where the 32-bit sum wraps, and its length.\<close>

definition lock_region :: "u32 \<Rightarrow> u32 \<Rightarrow> u32 \<times> u32" where
  "lock_region ofs len =
     (let endofs = ofs + len in
      if endofs < ofs then (0xFFFFFFFF, 0xFFFFFFFF - ofs) else (endofs, len))"

definition lock_hits :: "u32 \<Rightarrow> u32 \<Rightarrow> lock_t \<Rightarrow> bool" where
  "lock_hits ofs endofs l \<longleftrightarrow>
     ofs \<ge> l_start l \<and> ofs < l_end l \<or> endofs > l_start l \<and> endofs \<le> l_end l"

text \<open>The loop of \<^verbatim>\<open>access_check\<close>: is there a lock that forbids the access?\<close>

fun locked_by_other :: "u16 \<Rightarrow> u8 list \<Rightarrow> u32 \<Rightarrow> u32 \<Rightarrow> share \<Rightarrow> lock_t list \<Rightarrow> bool option" where
  "locked_by_other psp fn ofs endofs s [] = Some False"
| "locked_by_other psp fn ofs endofs s (l # ls) =
     (if used l \<noteq> 0 \<and> (psp = 0 \<or> l_psp l \<noteq> psp) then do {
        g \<leftarrow> file_at (unat (fileno l)) s;
        b \<leftarrow> fnmatches fn (filename g);
        if b \<and> lock_hits ofs endofs l then Some True
        else locked_by_other psp fn ofs endofs s ls
      } else locked_by_other psp fn ofs endofs s ls)"

definition access_check :: "u16 \<Rightarrow> u16 \<Rightarrow> u32 \<Rightarrow> u32 \<Rightarrow> bool \<Rightarrow> share \<Rightarrow> (int \<times> share) option" where
  "access_check psp fno ofs len allowcriter s =
     (case lock_region ofs len of (endofs, len1) \<Rightarrow>
        if len1 < 1 then Some (0, s)
        else do {
          f \<leftarrow> file_at (unat fno) s;
          hit \<leftarrow> locked_by_other psp (filename f) ofs endofs s (lock_table s);
          if \<not> hit then Some (0, s)
          else if allowcriter then do {
            s1 \<leftarrow> free_file_table_entry (unat fno) s;
            Some (-0x21, crit_error 0x0e f s1)
          } else Some (-0x21, s)
        })"

fun unlock_entry :: "u16 \<Rightarrow> u16 \<Rightarrow> u32 \<Rightarrow> u32 \<Rightarrow> lock_t list \<Rightarrow> lock_t list option" where
  "unlock_entry psp fno ofs endofs [] = None"
| "unlock_entry psp fno ofs endofs (l # ls) =
     (if used l \<noteq> 0 \<and> l_psp l = psp \<and> fileno l = fno \<and> l_start l = ofs \<and> l_end l = endofs
      then Some (l\<lparr>used := 0\<rparr> # ls)
      else map_option ((#) l) (unlock_entry psp fno ofs endofs ls))"

fun lock_entry :: "u16 \<Rightarrow> u16 \<Rightarrow> u32 \<Rightarrow> u32 \<Rightarrow> lock_t list \<Rightarrow> lock_t list option" where
  "lock_entry psp fno ofs endofs [] = None"
| "lock_entry psp fno ofs endofs (l # ls) =
     (if used l = 0
      then Some (l\<lparr>used := 1, l_start := ofs, l_end := endofs, fileno := fno, l_psp := psp\<rparr> # ls)
      else map_option ((#) l) (lock_entry psp fno ofs endofs ls))"

definition lock_unlock :: "u16 \<Rightarrow> u16 \<Rightarrow> u32 \<Rightarrow> u32 \<Rightarrow> bool \<Rightarrow> share \<Rightarrow> (int \<times> share) option" where
  "lock_unlock psp fno ofs len unlock s =
     (case lock_region ofs len of (endofs, len1) \<Rightarrow>
        if len1 < 1 then Some (0, s)
        else if unlock then
          (case unlock_entry psp fno ofs endofs (lock_table s) of
             None \<Rightarrow> Some (-0x21, s)
           | Some ls \<Rightarrow> Some (0, s\<lparr>lock_table := ls\<rparr>))
        else do {
          (rc, s1) \<leftarrow> access_check 0 fno ofs len1 False s;
          if rc \<noteq> 0 then Some (-0x21, s1)
          else
            (case lock_entry psp fno ofs (ofs + len1) (lock_table s1) of
               None \<Rightarrow> Some (-0x24, s1)
             | Some ls \<Rightarrow> Some (0, s1\<lparr>lock_table := ls\<rparr>))
        })"

subsection \<open>Initialisation and the multiplex handler\<close>

definition zero_file :: file_t where
  "zero_file = \<lparr>filename = replicate 128 0, f_psp = 0, openmode = 0, sharemode = 0,
     first_openmode = 0, first_sharemode = 0\<rparr>"

definition zero_lock :: lock_t where
  "zero_lock = \<lparr>used = 0, l_start = 0, l_end = 0, fileno = 0, l_psp = 0\<rparr>"

text \<open>A \<^verbatim>\<open>file_t\<close> has 134 bytes; the two allocations may fail, which the flags say.\<close>

definition init :: "nat \<Rightarrow> nat \<Rightarrow> bool \<Rightarrow> bool \<Rightarrow> int \<times> share option" where
  "init file_table_size_bytes lock_table_size malloc1 malloc2 =
     (if \<not> malloc1 \<or> \<not> malloc2 then (1, None)
      else (0, Some \<lparr>file_table = replicate (file_table_size_bytes div 134) zero_file,
                     lock_table = replicate lock_table_size zero_lock, criterrs = []\<rparr>))"

record intregs_t =
  r_ax :: u16
  r_bx :: u16
  r_cx :: u16
  r_dx :: u16
  r_si :: u16
  r_di :: u16
  r_ds :: u16
  r_es :: u16

definition long_of :: "u16 \<Rightarrow> u16 \<Rightarrow> u32" where
  "long_of hi lo = push_bit 16 (ucast hi) OR ucast lo"

text \<open>
  \<^term>\<open>Inr\<close> is the jump to the previous handler. \<open>mem\<close> reads the byte at a segment and offset.
\<close>

definition handler2f :: "(u16 \<Rightarrow> u16 \<Rightarrow> u8) \<Rightarrow> intregs_t \<Rightarrow> share \<Rightarrow>
    ((intregs_t \<times> share) + (intregs_t \<times> share)) option" where
  "handler2f mem r s =
     (if drop_bit 8 (r_ax r) AND 0xff = MULTIPLEX_ID then
        if r_ax r AND 0xff = 0 then Some (Inl (r\<lparr>r_ax := r_ax r OR 0xff\<rparr>, s))
        else if r_ax r AND 0xff = 0xa0 then do {
          (rc, s1) \<leftarrow> open_check (\<lambda>i. mem (r_ds r) (r_si r + of_nat i)) (r_bx r) (r_cx r) (r_dx r) s;
          Some (Inl (r\<lparr>r_ax := word_of_int rc\<rparr>, s1))
        }
        else if r_ax r AND 0xff = 0xa1 then do {
          s1 \<leftarrow> close_file (r_bx r) s;
          Some (Inl (r, s1))
        }
        else if r_ax r AND 0xfe = 0xa2 then do {
          (rc, s1) \<leftarrow> access_check (r_bx r) (r_cx r) (push_bit 16 (ucast (r_si r)) + ucast (r_di r))
            (push_bit 16 (ucast (r_es r)) + ucast (r_dx r)) (r_ax r AND 1 \<noteq> 0) s;
          Some (Inl (r\<lparr>r_ax := word_of_int rc\<rparr>, s1))
        }
        else if r_ax r AND 0xfe = 0xa4 then do {
          (rc, s1) \<leftarrow> lock_unlock (r_bx r) (r_cx r) (long_of (r_si r) (r_di r))
            (long_of (r_es r) (r_dx r)) (r_ax r AND 1 \<noteq> 0) s;
          Some (Inl (r\<lparr>r_ax := word_of_int rc\<rparr>, s1))
        }
        else Some (Inr (r, s))
      else Some (Inr (r, s)))"

end
