(* ===== verification/ShareTable.thy ===== *)
theory ShareTable
  imports Share
begin

text \<open>
  The table of open instances: what an entry stands for, the sharing rules as a relation between
  the modes of the first and of a later open, the abstract specification of an open request that
  \<^const>\<open>open_check\<close> refines, and the invariant of every reachable table.
\<close>

subsection \<open>Names\<close>

definition cname :: "u8 list \<Rightarrow> u8 list" where
  "cname buf = takeWhile (\<lambda>c. c \<noteq> 0) buf"

definition cstring :: "(nat \<Rightarrow> u8) \<Rightarrow> nat \<Rightarrow> bool" where
  "cstring name n \<longleftrightarrow> name n = 0 \<and> (\<forall>i<n. name i \<noteq> 0)"

lemma fnmatches_eq: "0 \<in> set a \<Longrightarrow> 0 \<in> set b \<Longrightarrow> fnmatches a b = Some (cname a = cname b)"
  by (induction a b rule: fnmatches.induct) (auto simp: cname_def)

lemma cname_Nil_iff: "a \<noteq> [] \<Longrightarrow> cname a = [] \<longleftrightarrow> a ! 0 = 0"
  by (cases a) (simp_all add: cname_def)

lemma length_copy_name [simp]: "length (copy_name name i n buf) = length buf"
  by (induction name i n buf rule: copy_name.induct) (simp_all add: Let_def)

lemma copy_name_cstring:
  assumes "cstring name k" "i \<le> k" "k < i + n" "i + n = length buf"
  shows "copy_name name i n buf = take i buf @ map name [i..<Suc k] @ drop (Suc k) buf"
  using assms
proof (induction name i n buf rule: copy_name.induct)
  case (2 name i n buf)
  show ?case
  proof (cases "name i = 0")
    case True
    with "2.prems" have "i = k" by (cases "i = k") (auto simp: cstring_def)
    with True "2.prems" show ?thesis by (simp add: Let_def upd_conv_take_nth_drop)
  next
    case False
    with "2.prems" have "i < k" by (cases "i = k") (auto simp: cstring_def)
    with False "2.prems" have "copy_name name i (Suc n) buf =
        take (Suc i) (buf[i := name i]) @ map name [Suc i..<Suc k] @ drop (Suc k) (buf[i := name i])"
      using "2.IH" by (simp add: Let_def)
    moreover have "[i..<Suc k] = i # [Suc i..<Suc k]" using \<open>i < k\<close> by (simp add: upt_conv_Cons)
    ultimately show ?thesis using \<open>i < k\<close> "2.prems" by (simp add: take_Suc_conv_app_nth)
  qed
qed simp

lemma cname_copy:
  assumes "cstring name k" "k < length buf"
  shows "cname (copy_name name 0 (length buf) buf) = map name [0..<k]"
    "0 \<in> set (copy_name name 0 (length buf) buf)"
proof -
  have eq: "copy_name name 0 (length buf) buf = map name [0..<k] @ 0 # drop (Suc k) buf"
    using copy_name_cstring [OF assms(1), of 0 "length buf" buf] assms by (simp add: cstring_def)
  have "c \<noteq> 0" if "c \<in> set (map name [0..<k])" for c using assms(1) that by (auto simp: cstring_def)
  then show "cname (copy_name name 0 (length buf) buf) = map name [0..<k]"
    unfolding eq cname_def by (subst takeWhile_append2) simp_all
  show "0 \<in> set (copy_name name 0 (length buf) buf)" unfolding eq by simp
qed

subsection \<open>The sharing rules\<close>

definition admitted :: "u8 \<Rightarrow> u8 \<Rightarrow> u8 \<Rightarrow> u8 \<Rightarrow> bool" where
  "admitted fs fo cs co \<longleftrightarrow> (case open_action fs fo cs co of None \<Rightarrow> False | Some a \<Rightarrow> a \<noteq> 1 \<and> a \<noteq> 2)"

lemma word8_cases5: "x \<le> 4 \<Longrightarrow> x = 0 \<or> x = 1 \<or> x = 2 \<or> x = 3 \<or> x = (4 :: u8)"
  by (simp add: word_le_nat_alt word_unat_eq_iff) linarith

lemma unat_le4: "x \<le> 4 \<Longrightarrow> unat (x :: u8) < 5"
  by (simp add: word_le_nat_alt)

lemma length_open_actions [simp]: "length open_actions = 5"
  by (simp add: open_actions_def)

lemma length_open_actions_row [simp]: "i < 5 \<Longrightarrow> length (open_actions ! i) = 5"
  by (cases i; simp add: open_actions_def; (rename_tac j; case_tac j; simp)+)

lemma open_action_defined: "fs \<le> 4 \<Longrightarrow> cs \<le> 4 \<Longrightarrow> \<exists>a. open_action fs fo cs co = Some a"
  using unat_le4 [of fs] unat_le4 [of cs] by (simp add: open_action_def split: option.splits)

lemma deny_all_rule: "cs \<le> 4 \<Longrightarrow> \<not> admitted 1 fo cs co"
  by (drule word8_cases5) (auto simp: admitted_def open_action_def open_exceptions_def open_actions_def)

lemma deny_write_rule: "cs \<le> 4 \<Longrightarrow> admitted 2 fo cs co \<Longrightarrow> co = 0"
  by (drule word8_cases5) (auto simp: admitted_def open_action_def open_exceptions_def open_actions_def
    split: if_splits)

lemma deny_read_rule: "cs \<le> 4 \<Longrightarrow> admitted 3 fo cs co \<Longrightarrow> co = 1"
  by (drule word8_cases5) (auto simp: admitted_def open_action_def open_exceptions_def open_actions_def
    split: if_splits)

subsection \<open>Well-formed tables\<close>

definition in_use :: "file_t \<Rightarrow> bool" where
  "in_use f \<longleftrightarrow> filename f ! 0 \<noteq> 0"

definition file_wf :: "file_t \<Rightarrow> bool" where
  "file_wf f \<longleftrightarrow> length (filename f) = 128 \<and> 0 \<in> set (filename f) \<and> sharemode f \<le> 4 \<and> openmode f \<le> 2
     \<and> first_sharemode f \<le> 4 \<and> first_openmode f \<le> 2"

definition share_wf :: "share \<Rightarrow> bool" where
  "share_wf s \<longleftrightarrow> (\<forall>f \<in> set (file_table s). file_wf f) \<and> length (file_table s) < 65536
     \<and> (\<forall>l \<in> set (lock_table s). used l \<noteq> 0 \<longrightarrow> unat (fileno l) < length (file_table s))"

abbreviation fname :: "file_t \<Rightarrow> u8 list" where
  "fname f \<equiv> cname (filename f)"

lemma in_use_iff: "file_wf f \<Longrightarrow> in_use f \<longleftrightarrow> fname f \<noteq> []"
  using cname_Nil_iff [of "filename f"] by (cases "filename f = []") (auto simp: file_wf_def in_use_def)

subsection \<open>An open request\<close>

text \<open>The open instances, without the representation of the table.\<close>

record inst =
  i_name :: "u8 list"
  i_psp :: u16
  i_open :: u8
  i_share :: u8
  i_fopen :: u8
  i_fshare :: u8

definition inst_of :: "file_t \<Rightarrow> inst option" where
  "inst_of f = (if in_use f then Some \<lparr>i_name = fname f, i_psp = f_psp f, i_open = openmode f,
     i_share = sharemode f, i_fopen = first_openmode f, i_fshare = first_sharemode f\<rparr> else None)"

definition insts :: "share \<Rightarrow> inst option list" where
  "insts s = map inst_of (file_table s)"

definition named :: "u8 list \<Rightarrow> inst option \<Rightarrow> bool" where
  "named nm x = (case x of None \<Rightarrow> False | Some i \<Rightarrow> i_name i = nm)"

fun first_None :: "nat \<Rightarrow> 'a option list \<Rightarrow> nat option" where
  "first_None k [] = None"
| "first_None k (x # xs) = (if x = None then Some k else first_None (Suc k) xs)"

text \<open>The specification: the first free slot is used if the first open of the file admits it.\<close>

definition spec_open :: "u8 list \<Rightarrow> u16 \<Rightarrow> u8 \<Rightarrow> u8 \<Rightarrow> inst option list \<Rightarrow> int \<times> inst option list" where
  "spec_open nm psp om sm xs =
     (case first_None 0 xs of
        None \<Rightarrow> (-1, xs)
      | Some k \<Rightarrow>
          (case find (named nm) xs of
             Some (Some p) \<Rightarrow>
               if admitted (i_fshare p) (i_fopen p) sm om
               then (int k, xs[k := Some \<lparr>i_name = nm, i_psp = psp, i_open = om, i_share = sm,
                                          i_fopen = i_fopen p, i_fshare = i_fshare p\<rparr>])
               else (if open_action (i_fshare p) (i_fopen p) sm om = Some 2 then -0x20 else -5, xs)
           | _ \<Rightarrow> (int k, xs[k := Some \<lparr>i_name = nm, i_psp = psp, i_open = om, i_share = sm,
                                        i_fopen = om, i_fshare = sm\<rparr>])))"

definition norm_share :: "u16 \<Rightarrow> u8" where
  "norm_share m = (if m AND 7 > 4 then 0 else ucast (m AND 7))"

definition norm_open :: "u16 \<Rightarrow> u8" where
  "norm_open m = (if m AND 3 > 2 then 0 else ucast (m AND 3))"

lemma norm_le: "norm_share m \<le> 4" "norm_open m \<le> 2"
proof -
  have "unat (ucast w :: u8) \<le> unat w" for w :: u16
    by (simp add: unsigned_ucast_eq take_bit_eq_mod)
  from this [of "m AND 7"] this [of "m AND 3"] show "norm_share m \<le> 4" "norm_open m \<le> 2"
    by (auto simp: norm_share_def norm_open_def word_le_nat_alt not_less)
qed

lemma first_match_after:
  assumes "\<forall>f \<in> set fs. file_wf f" "0 \<in> set fn" "skip < k"
  shows "first_match fn skip k fs = Some (find (\<lambda>f. in_use f \<and> fname f = cname fn) fs)"
  using assms
proof (induction fs arbitrary: k)
  case (Cons f fs)
  then have "fnmatches (filename f) fn = Some (fname f = cname fn)" by (simp add: file_wf_def fnmatches_eq)
  with Cons show ?case by (simp add: in_use_def)
qed simp

lemma first_match_find:
  assumes "\<forall>f \<in> set fs. file_wf f" "0 \<in> set fn" "i < length fs" "\<not> in_use (fs ! i)"
  shows "first_match fn (k + i) k (fs[i := x]) = Some (find (\<lambda>f. in_use f \<and> fname f = cname fn) fs)"
  using assms
proof (induction fs arbitrary: i k)
  case (Cons f fs)
  then have fm: "fnmatches (filename f) fn = Some (fname f = cname fn)" by (simp add: file_wf_def fnmatches_eq)
  show ?case
  proof (cases i)
    case 0
    with Cons.prems show ?thesis by (simp add: first_match_after)
  next
    case (Suc j)
    with Cons.IH [of j "Suc k"] Cons.prems fm show ?thesis by (simp add: in_use_def)
  qed
qed simp

lemma find_inst:
  "find (named nm) (map inst_of fs) = map_option inst_of (find (\<lambda>f. in_use f \<and> fname f = nm) fs)"
  by (induction fs) (auto simp: named_def inst_of_def)

lemma free_slot_inst: "free_slot k fs = first_None k (map inst_of fs)"
  by (induction k fs rule: free_slot.induct) (simp_all add: inst_of_def in_use_def)

lemma first_None_Some: "first_None k xs = Some i \<Longrightarrow> k \<le> i \<and> i - k < length xs \<and> xs ! (i - k) = None"
proof (induction k xs rule: first_None.induct)
  case (2 k x xs)
  then show ?case by (cases "x = None") (auto simp: nth_Cons' Suc_diff_le)
qed simp

lemma find_Some_in: "find P xs = Some x \<Longrightarrow> P x \<and> x \<in> set xs"
  by (induction xs) (auto split: if_splits)

lemma share_wf_update:
  assumes "share_wf s" "file_wf f"
  shows "share_wf (s\<lparr>file_table := (file_table s)[i := f]\<rparr>)"
  using assms set_update_subset_insert [of "file_table s" i f] by (auto simp: share_wf_def)

definition new_entry :: "(nat \<Rightarrow> u8) \<Rightarrow> u16 \<Rightarrow> u8 \<Rightarrow> u8 \<Rightarrow> u8 \<Rightarrow> u8 \<Rightarrow> file_t \<Rightarrow> file_t" where
  "new_entry name psp om sm fo fs f = f\<lparr>filename := copy_name name 0 (length (filename f)) (filename f),
     f_psp := psp, openmode := om, sharemode := sm, first_openmode := fo, first_sharemode := fs\<rparr>"

lemma new_entry_wf:
  assumes "file_wf f" "cstring name k" "k < 128" "om \<le> 2" "sm \<le> 4" "fo \<le> 2" "fs \<le> 4"
  shows "file_wf (new_entry name psp om sm fo fs f)"
    "fname (new_entry name psp om sm fo fs f) = map name [0..<k]"
  using assms cname_copy [OF assms(2), of "filename f"] by (simp_all add: new_entry_def file_wf_def)

lemma inst_new_entry:
  assumes "file_wf f" "cstring name k" "0 < k" "k < 128" "om \<le> 2" "sm \<le> 4" "fo \<le> 2" "fs \<le> 4"
  shows "inst_of (new_entry name psp om sm fo fs f) = Some \<lparr>i_name = map name [0..<k], i_psp = psp,
    i_open = om, i_share = sm, i_fopen = fo, i_fshare = fs\<rparr>"
proof -
  note wf = new_entry_wf [OF assms(1,2,4-8), of psp]
  have "in_use (new_entry name psp om sm fo fs f)" using in_use_iff [OF wf(1)] wf(2) assms(3) by simp
  with wf(2) show ?thesis by (simp add: inst_of_def) (simp add: new_entry_def)
qed

lemma do_open_check_new:
  fixes psp :: u16
  assumes wf: "share_wf s" and i: "i < length (file_table s)" "\<not> in_use (file_table s ! i)"
    and name: "cstring name k" "0 < k" "k < 128" and om: "om \<le> 2" and sm: "sm \<le> 4"
  defines "f \<equiv> (file_table s ! i)\<lparr>filename := copy_name name 0 (length (filename (file_table s ! i)))
      (filename (file_table s ! i)), f_psp := psp, openmode := om, sharemode := sm\<rparr>"
    and "m \<equiv> find (\<lambda>f. in_use f \<and> fname f = map name [0..<k]) (file_table s)"
    and "e \<equiv> \<lambda>fo fs. new_entry name psp om sm fo fs (file_table s ! i)"
  shows "do_open_check i (s\<lparr>file_table := (file_table s)[i := f]\<rparr>) = (case m of
      None \<Rightarrow> Some (int i, s\<lparr>file_table := (file_table s)[i := e om sm]\<rparr>)
    | Some p \<Rightarrow> (let s2 = s\<lparr>file_table := (file_table s)[i := e (first_openmode p) (first_sharemode p)]\<rparr> in
        do { action \<leftarrow> open_action (first_sharemode p) (first_openmode p) sm om;
             if action = 1 then do { s3 \<leftarrow> free_file_table_entry i s2; Some (-5, s3) }
             else if action = 2 then do { s3 \<leftarrow> free_file_table_entry i s2;
               Some (-0x20, crit_error 0x0d (e (first_openmode p) (first_sharemode p)) s3) }
             else Some (int i, s2) }))"
proof -
  let ?t = "file_table s"
  have w: "\<forall>f \<in> set ?t. file_wf f" "file_wf (?t ! i)" using wf i by (auto simp: share_wf_def)
  note ne = new_entry_wf [OF w(2) name(1,3) om sm om sm, of psp]
  have f1: "f\<lparr>first_sharemode := a, first_openmode := b\<rparr> = e b a" "filename f = filename (e b a)" for a b
    by (simp_all add: f_def e_def new_entry_def)
  have "cname (filename (e om sm)) = map name [0..<k]" "0 \<in> set (filename (e om sm))"
    using ne by (simp_all add: e_def file_wf_def)
  then have fm: "first_match (filename f) i 0 (?t[i := e om sm]) = Some m"
    using first_match_find [OF w(1) _ i, of "filename (e om sm)" 0 "e om sm"] f1(2) [of om sm] by (simp add: m_def)
  have fs: "sharemode f = sm" "openmode f = om" by (simp_all add: f_def)
  have up: "(e om sm)\<lparr>first_sharemode := a, first_openmode := b\<rparr> = e b a" for a b
    by (simp add: e_def new_entry_def)
  have sel: "first_sharemode (e b a) = a" "first_openmode (e b a) = b" for a b
    by (simp_all add: e_def new_entry_def)
  show ?thesis
  proof (cases m)
    case None
    with i(1) show ?thesis by (simp add: do_open_check_def file_at_def fs f1(1) fm Let_def)
  next
    case (Some p)
    with i(1) show ?thesis
      by (cases "open_action (first_sharemode p) (first_openmode p) sm om")
        (simp_all add: do_open_check_def file_at_def fs f1(1) fm up sel Let_def)
  qed
qed

lemma free_entry_insts:
  assumes "i < length (file_table s)" "file_wf f" "\<not> in_use (file_table s ! i)" "share_wf s"
  shows "\<exists>s3. free_file_table_entry i (s\<lparr>file_table := (file_table s)[i := f]\<rparr>) = Some s3
    \<and> share_wf s3 \<and> insts s3 = insts s \<and> lock_table s3 = lock_table s \<and> criterrs s3 = criterrs s"
proof -
  let ?g = "f\<lparr>filename := (filename f)[0 := 0]\<rparr>"
  have "filename ?g ! 0 = 0" using assms(2) by (cases "filename f") (auto simp: file_wf_def)
  then have g: "file_wf ?g" "inst_of ?g = None"
    using assms(2) set_update_memI [of 0 "filename f" 0] by (auto simp: file_wf_def inst_of_def in_use_def)
  have "(map inst_of (file_table s))[i := None] = map inst_of (file_table s)"
    using assms(1,3) by (intro list_update_same_conv [THEN iffD2]) (simp_all add: inst_of_def)
  with g share_wf_update [OF assms(4) g(1), of i] assms(1) show ?thesis
    by (simp add: free_file_table_entry_def file_at_def insts_def map_update)
qed

lemma crit_error_simps [simp]:
  "insts (crit_error d f s) = insts s" "lock_table (crit_error d f s) = lock_table s"
  "file_table (crit_error d f s) = file_table s" "share_wf (crit_error d f s) = share_wf s"
  by (simp_all add: crit_error_def Let_def insts_def share_wf_def)

text \<open>
  \<^const>\<open>open_check\<close> never leaves its tables, keeps them well formed and refines \<^const>\<open>spec_open\<close>.
\<close>

lemma open_check_refines:
  assumes wf: "share_wf s" and name: "cstring name k" "0 < k" "k < 128"
  shows "\<exists>rc s'. open_check name psp omode smode s = Some (rc, s') \<and> share_wf s' \<and> lock_table s' = lock_table s
    \<and> (rc, insts s') = spec_open (map name [0..<k]) psp (norm_open omode) (norm_share smode) (insts s)"
proof -
  let ?t = "file_table s" and ?om = "norm_open omode" and ?sm = "norm_share smode" and ?nm = "map name [0..<k]"
  note le = norm_le [of smode] norm_le [of omode]
  have modes: "ucast (if omode AND 3 > OPEN_READ_WRITE then OPEN_READ_ONLY else omode AND 3) = ?om"
    "ucast (if smode AND 7 > SHARE_DENY_NONE then SHARE_COMPAT else smode AND 7) = ?sm"
    by (simp_all add: norm_open_def norm_share_def share_consts)
  show ?thesis
  proof (cases "first_None 0 (insts s)")
    case None
    then have "open_check name psp omode smode s = Some (-1, s)"
      by (simp add: open_check_def free_slot_inst insts_def [symmetric] Let_def)
    with None wf show ?thesis by (simp add: spec_open_def)
  next
    case (Some i)
    from first_None_Some [OF this] have i: "i < length ?t" "\<not> in_use (?t ! i)"
      by (auto simp: insts_def inst_of_def split: if_splits)
    have wfi: "file_wf (?t ! i)" using wf i by (auto simp: share_wf_def)
    define m where "m = find (\<lambda>f. in_use f \<and> fname f = ?nm) ?t"
    define e where "e fo fs = new_entry name psp ?om ?sm fo fs (?t ! i)" for fo fs
    have fi: "find (named ?nm) (insts s) = map_option inst_of m" by (simp add: insts_def find_inst m_def)
    have oc: "open_check name psp omode smode s = (case m of
        None \<Rightarrow> Some (int i, s\<lparr>file_table := ?t[i := e ?om ?sm]\<rparr>)
      | Some p \<Rightarrow> (let s2 = s\<lparr>file_table := ?t[i := e (first_openmode p) (first_sharemode p)]\<rparr> in
          do { action \<leftarrow> open_action (first_sharemode p) (first_openmode p) ?sm ?om;
               if action = 1 then do { s3 \<leftarrow> free_file_table_entry i s2; Some (-5, s3) }
               else if action = 2 then do { s3 \<leftarrow> free_file_table_entry i s2;
                 Some (-0x20, crit_error 0x0d (e (first_openmode p) (first_sharemode p)) s3) }
               else Some (int i, s2) }))"
      using do_open_check_new [OF wf i name le(4,1), of psp] Some modes unfolding e_def m_def
      by (simp add: open_check_def free_slot_inst insts_def [symmetric] Let_def)
    have new: "share_wf (s\<lparr>file_table := ?t[i := e fo fs]\<rparr>)" "file_wf (e fo fs)"
      "insts (s\<lparr>file_table := ?t[i := e fo fs]\<rparr>) = (insts s)[i := Some \<lparr>i_name = ?nm, i_psp = psp,
         i_open = ?om, i_share = ?sm, i_fopen = fo, i_fshare = fs\<rparr>]" if "fo \<le> 2" "fs \<le> 4" for fo fs
      using that share_wf_update [OF wf] new_entry_wf(1) [OF wfi name(1,3) le(4,1) that]
        inst_new_entry [OF wfi name le(4,1) that] by (simp_all add: e_def insts_def map_update)
    show ?thesis
    proof (cases m)
      case None
      with Some fi oc new [OF le(4,1)] show ?thesis by (simp add: spec_open_def)
    next
      case m: (Some p)
      from find_Some_in [OF m [unfolded m_def]] have p: "in_use p" "p \<in> set ?t" by auto
      then have pw: "first_openmode p \<le> 2" "first_sharemode p \<le> 4" using wf by (auto simp: share_wf_def file_wf_def)
      have ip: "inst_of p = Some \<lparr>i_name = fname p, i_psp = f_psp p, i_open = openmode p,
          i_share = sharemode p, i_fopen = first_openmode p, i_fshare = first_sharemode p\<rparr>"
        using p by (simp add: inst_of_def)
      obtain a where a: "open_action (first_sharemode p) (first_openmode p) ?sm ?om = Some a"
        using open_action_defined [OF pw(2) le(1)] by blast
      note new = new [OF pw]
      obtain s3 where s3: "free_file_table_entry i (s\<lparr>file_table := ?t[i := e (first_openmode p) (first_sharemode p)]\<rparr>) = Some s3"
        "share_wf s3" "insts s3 = insts s" "lock_table s3 = lock_table s"
        using free_entry_insts [OF i(1) new(2) i(2) wf] by blast
      consider "a = 1" | "a = 2" | "a \<noteq> 1" "a \<noteq> 2" by blast
      then show ?thesis
      proof cases
        case 1
        with Some m fi ip a s3 oc show ?thesis by (simp add: spec_open_def admitted_def Let_def)
      next
        case 2
        with Some m fi ip a s3 oc show ?thesis by (simp add: spec_open_def admitted_def Let_def)
      next
        case 3
        with Some m fi ip a new oc show ?thesis by (simp add: spec_open_def admitted_def Let_def)
      qed
    qed
  qed
qed

end
