(* ===== verification/ShareSafety.thy ===== *)
theory ShareSafety
  imports ShareTable
begin

text \<open>
  Safety of the sharing table over every sequence of calls, and what the lock table guarantees.
\<close>

subsection \<open>The sharing invariant on open instances\<close>

definition adm :: "inst \<Rightarrow> bool" where
  "adm a \<longleftrightarrow> admitted (i_fshare a) (i_fopen a) (i_share a) (i_open a)"

text \<open>
  Two instances of one file agree on the modes of its first open, and at least one of them was
  admitted by the sharing rules against those modes.
\<close>

definition compatible :: "inst \<Rightarrow> inst \<Rightarrow> bool" where
  "compatible a b \<longleftrightarrow> i_fshare a = i_fshare b \<and> i_fopen a = i_fopen b \<and> (adm a \<or> adm b)"

definition sharing_ok :: "inst option list \<Rightarrow> bool" where
  "sharing_ok xs \<longleftrightarrow> (\<forall>i<length xs. \<forall>j<length xs. \<forall>a b. i \<noteq> j \<longrightarrow> xs ! i = Some a \<longrightarrow> xs ! j = Some b \<longrightarrow>
     i_name a = i_name b \<longrightarrow> compatible a b)"

lemma sharing_okD:
  "sharing_ok xs \<Longrightarrow> i < length xs \<Longrightarrow> j < length xs \<Longrightarrow> i \<noteq> j \<Longrightarrow> xs ! i = Some a \<Longrightarrow> xs ! j = Some b
     \<Longrightarrow> i_name a = i_name b \<Longrightarrow> compatible a b"
  by (simp add: sharing_ok_def)

lemma compatible_sym: "compatible a b \<Longrightarrow> compatible b a"
  by (auto simp: compatible_def)

lemma sharing_ok_None:
  assumes "sharing_ok xs"
  shows "sharing_ok (xs[k := None])"
proof -
  have "xs ! i = Some a" if "xs[k := None] ! i = Some a" "i < length xs" for i a
    using that by (cases "i = k") auto
  with assms show ?thesis unfolding sharing_ok_def by (metis length_list_update)
qed

lemma sharing_ok_add:
  assumes "sharing_ok xs"
    and "\<And>j b. j < length xs \<Longrightarrow> j \<noteq> k \<Longrightarrow> xs ! j = Some b \<Longrightarrow> i_name b = i_name a \<Longrightarrow> compatible a b"
  shows "sharing_ok (xs[k := Some a])"
  unfolding sharing_ok_def
proof (intro allI impI)
  fix i j c d
  assume h: "i < length (xs[k := Some a])" "j < length (xs[k := Some a])" "i \<noteq> j"
    "xs[k := Some a] ! i = Some c" "xs[k := Some a] ! j = Some d" "i_name c = i_name d"
  consider "i = k" "j \<noteq> k" | "j = k" "i \<noteq> k" | "i \<noteq> k" "j \<noteq> k" using h(3) by blast
  then show "compatible c d"
  proof cases
    case 1
    with h assms(2) [of j d] show ?thesis by simp
  next
    case 2
    with h assms(2) [of i c] show ?thesis by (simp add: compatible_sym)
  next
    case 3
    with h sharing_okD [OF assms(1), of i j c d] show ?thesis by simp
  qed
qed

lemma find_None_nth: "find P xs = None \<Longrightarrow> i < length xs \<Longrightarrow> \<not> P (xs ! i)"
  by (induction xs arbitrary: i) (auto simp: nth_Cons split: if_splits nat.splits)

lemma spec_open_ok:
  assumes ok: "sharing_ok xs"
  shows "sharing_ok (snd (spec_open nm psp om sm xs))"
proof (cases "first_None 0 xs")
  case None
  with ok show ?thesis by (simp add: spec_open_def)
next
  case (Some k)
  show ?thesis
  proof (cases "find (named nm) xs")
    case None
    have "i_name b \<noteq> nm" if "j < length xs" "xs ! j = Some b" for j b
      using find_None_nth [OF None that(1)] that(2) by (simp add: named_def)
    then have "sharing_ok (xs[k := Some \<lparr>i_name = nm, i_psp = psp, i_open = om, i_share = sm,
        i_fopen = om, i_fshare = sm\<rparr>])"
      using ok by (intro sharing_ok_add) auto
    with Some None show ?thesis by (simp add: spec_open_def)
  next
    case found: (Some x)
    with find_Some_in [OF found] obtain p where p: "x = Some p" "i_name p = nm" "Some p \<in> set xs"
      by (auto simp: named_def split: option.splits)
    then obtain n where n: "n < length xs" "xs ! n = Some p" by (auto simp: in_set_conv_nth)
    show ?thesis
    proof (cases "admitted (i_fshare p) (i_fopen p) sm om")
      case False
      with Some found p ok show ?thesis by (simp add: spec_open_def)
    next
      case True
      let ?a = "\<lparr>i_name = nm, i_psp = psp, i_open = om, i_share = sm, i_fopen = i_fopen p, i_fshare = i_fshare p\<rparr>"
      have "sharing_ok (xs[k := Some ?a])"
      proof (rule sharing_ok_add [OF ok])
        fix j b assume j: "j < length xs" "xs ! j = Some b" "i_name b = i_name ?a"
        have "i_fshare p = i_fshare b \<and> i_fopen p = i_fopen b"
          using sharing_okD [OF ok n(1) j(1) _ n(2) j(2)] p(2) j n by (cases "n = j") (auto simp: compatible_def)
        with True show "compatible ?a b" by (simp add: compatible_def adm_def)
      qed
      with Some found p True show ?thesis by (simp add: spec_open_def)
    qed
  qed
qed

subsection \<open>Closing\<close>

lemma free_entry_general:
  assumes "share_wf s" "i < length (file_table s)"
  shows "\<exists>s'. free_file_table_entry i s = Some s' \<and> share_wf s' \<and> insts s' = (insts s)[i := None]
    \<and> lock_table s' = lock_table s \<and> length (file_table s') = length (file_table s)"
proof -
  let ?f = "file_table s ! i"
  let ?g = "?f\<lparr>filename := (filename ?f)[0 := 0]\<rparr>"
  have wf: "file_wf ?f" using assms by (simp add: share_wf_def)
  then have "filename ?g ! 0 = 0" by (cases "filename ?f") (auto simp: file_wf_def)
  then have g: "file_wf ?g" "inst_of ?g = None"
    using wf set_update_memI [of 0 "filename ?f" 0] by (auto simp: file_wf_def inst_of_def in_use_def)
  with share_wf_update [OF assms(1) g(1), of i] assms(2) show ?thesis
    by (simp add: free_file_table_entry_def file_at_def insts_def map_update)
qed

lemma remove_all_locks_wf: "share_wf s \<Longrightarrow> share_wf (remove_all_locks fno s)"
  by (auto simp: share_wf_def remove_all_locks_def split: if_splits)

lemma close_file_ok:
  assumes "share_wf s" "unat fno < length (file_table s)"
  shows "\<exists>s'. close_file fno s = Some s' \<and> share_wf s' \<and> insts s' = (insts s)[unat fno := None]
    \<and> filter (\<lambda>l. used l \<noteq> 0) (lock_table s') = filter (\<lambda>l. used l \<noteq> 0 \<and> fileno l \<noteq> fno) (lock_table s)"
proof -
  have rm: "insts (remove_all_locks fno s) = insts s" "length (file_table (remove_all_locks fno s)) = length (file_table s)"
    by (simp_all add: remove_all_locks_def insts_def)
  obtain s' where s': "free_file_table_entry (unat fno) (remove_all_locks fno s) = Some s'" "share_wf s'"
    "insts s' = (insts s)[unat fno := None]" "lock_table s' = lock_table (remove_all_locks fno s)"
    using free_entry_general [OF remove_all_locks_wf [OF assms(1)], of "unat fno" fno] assms(2) by (auto simp: rm)
  have "filter (\<lambda>l. used l \<noteq> 0) (map (\<lambda>l. if fileno l = fno then l\<lparr>used := 0\<rparr> else l) ls)
    = filter (\<lambda>l. used l \<noteq> 0 \<and> fileno l \<noteq> fno) ls" for ls by (induction ls) auto
  with s' show ?thesis by (simp add: close_file_def remove_all_locks_def)
qed

subsection \<open>Access checks\<close>

definition same_name :: "share \<Rightarrow> u16 \<Rightarrow> u16 \<Rightarrow> bool" where
  "same_name s i j \<longleftrightarrow> fname (file_table s ! unat i) = fname (file_table s ! unat j)"

definition forbids :: "share \<Rightarrow> u16 \<Rightarrow> u16 \<Rightarrow> u32 \<Rightarrow> u32 \<Rightarrow> lock_t \<Rightarrow> bool" where
  "forbids s psp fno ofs endofs l \<longleftrightarrow> used l \<noteq> 0 \<and> (psp = 0 \<or> l_psp l \<noteq> psp)
     \<and> same_name s fno (fileno l) \<and> lock_hits ofs endofs l"

text \<open>A non-empty region hits a lock if the lock covers its first or its last byte.\<close>

definition covers :: "lock_t \<Rightarrow> u32 \<Rightarrow> bool" where
  "covers l x \<longleftrightarrow> l_start l \<le> x \<and> x < l_end l"

lemma lock_hits_covers: "ofs < endofs \<Longrightarrow> lock_hits ofs endofs l \<longleftrightarrow> covers l ofs \<or> covers l (endofs - 1)"
proof -
  assume "ofs < endofs"
  then have "0 < endofs" by (simp add: word_less_nat_alt)
  then have u: "unat (endofs - 1) = unat endofs - 1" "0 < unat endofs"
    by (simp_all add: word_less_nat_alt unat_minus_one unat_gt_0)
  show ?thesis using u by (auto simp: lock_hits_def covers_def word_le_nat_alt word_less_nat_alt)
qed

lemma lock_region_less:
  assumes "lock_region ofs len = (e, n)" "n \<noteq> 0"
  shows "ofs < e" "e = ofs + n"
proof -
  have "ofs \<le> 0xFFFFFFFF" using unsigned_less [of ofs, where ?'a = nat] by (simp add: word_le_nat_alt)
  then have "e = ofs + n" "ofs \<le> e"
    using assms(1) by (auto simp: lock_region_def Let_def not_less split: if_splits)
  moreover have "n \<noteq> 0" using assms(2) by auto
  ultimately show "ofs < e" "e = ofs + n" by (auto simp: order.strict_iff_order)
qed

lemma locked_by_other_eq:
  assumes wf: "share_wf s" and fno: "unat fno < length (file_table s)"
    and "\<forall>l \<in> set ls. used l \<noteq> 0 \<longrightarrow> unat (fileno l) < length (file_table s)"
  shows "locked_by_other psp (filename (file_table s ! unat fno)) ofs e s ls
    = Some (\<exists>l \<in> set ls. forbids s psp fno ofs e l)"
  using assms(3)
proof (induction ls)
  case (Cons l ls)
  have t: "unat (fileno l) < length (file_table s) \<Longrightarrow>
      fnmatches (filename (file_table s ! unat fno)) (filename (file_table s ! unat (fileno l)))
        = Some (same_name s fno (fileno l))"
    using wf fno unfolding same_name_def by (intro fnmatches_eq) (auto simp: share_wf_def file_wf_def)
  show ?case
  proof (cases "used l \<noteq> 0 \<and> (psp = 0 \<or> l_psp l \<noteq> psp)")
    case True
    with Cons t show ?thesis by (auto simp: file_at_def forbids_def)
  next
    case False
    with Cons show ?thesis by (auto simp: forbids_def)
  qed
qed simp

lemma access_check_eq:
  assumes wf: "share_wf s" and fno: "unat fno < length (file_table s)" and reg: "lock_region ofs len = (e, n)"
  shows "access_check psp fno ofs len False s
    = Some (if n \<noteq> 0 \<and> (\<exists>l \<in> set (lock_table s). forbids s psp fno ofs e l) then -0x21 else 0, s)"
  using locked_by_other_eq [OF wf fno, of "lock_table s" psp ofs e] wf fno reg
  by (auto simp: access_check_def file_at_def share_wf_def)

lemma access_check_crit:
  assumes wf: "share_wf s" and fno: "unat fno < length (file_table s)"
  shows "\<exists>rc s'. access_check psp fno ofs len True s = Some (rc, s') \<and> share_wf s'
    \<and> (insts s' = insts s \<or> insts s' = (insts s)[unat fno := None])"
proof -
  obtain e n where reg: "lock_region ofs len = (e, n)" by force
  obtain s1 where s1: "free_file_table_entry (unat fno) s = Some s1" "share_wf s1" "insts s1 = (insts s)[unat fno := None]"
    using free_entry_general [OF wf fno] by blast
  have "locked_by_other psp (filename (file_table s ! unat fno)) ofs e s (lock_table s)
    = Some (\<exists>l \<in> set (lock_table s). forbids s psp fno ofs e l)"
    using wf by (intro locked_by_other_eq [OF wf fno]) (simp add: share_wf_def)
  with reg fno wf s1 show ?thesis by (simp add: access_check_def file_at_def)
qed

subsection \<open>Locking and unlocking\<close>

definition active :: "lock_t list \<Rightarrow> lock_t list" where
  "active ls = filter (\<lambda>l. used l \<noteq> 0) ls"

definition new_lock :: "u16 \<Rightarrow> u16 \<Rightarrow> u32 \<Rightarrow> u32 \<Rightarrow> lock_t" where
  "new_lock psp fno ofs e = \<lparr>used = 1, l_start = ofs, l_end = e, fileno = fno, l_psp = psp\<rparr>"

lemma lock_entry_spec:
  "case lock_entry psp fno ofs e ls of None \<Rightarrow> \<forall>l \<in> set ls. used l \<noteq> 0
   | Some ls' \<Rightarrow> \<exists>xs l ys. ls = xs @ l # ys \<and> (\<forall>x \<in> set xs. used x \<noteq> 0) \<and> used l = 0
       \<and> ls' = xs @ new_lock psp fno ofs e # ys"
proof (induction psp fno ofs e ls rule: lock_entry.induct)
  case (2 psp fno ofs e l ls)
  show ?case
  proof (cases "used l = 0")
    case True
    then have "lock_entry psp fno ofs e (l # ls) = Some (new_lock psp fno ofs e # ls)"
      by (simp add: new_lock_def)
    with True show ?thesis by (auto intro!: exI [of _ "[]"])
  next
    case False
    show ?thesis
    proof (cases "lock_entry psp fno ofs e ls")
      case None
      with 2 False show ?thesis by simp
    next
      case (Some ls')
      with 2 False obtain xs l' ys where "ls = xs @ l' # ys" "\<forall>x \<in> set xs. used x \<noteq> 0" "used l' = 0"
        "ls' = xs @ new_lock psp fno ofs e # ys" by auto
      with False Some show ?thesis by (auto intro!: exI [of _ "l # xs"])
    qed
  qed
qed simp

lemma unlock_entry_first:
  assumes "\<forall>x \<in> set xs. \<not> (used x \<noteq> 0 \<and> l_psp x = psp \<and> fileno x = fno \<and> l_start x = ofs \<and> l_end x = e)"
  shows "unlock_entry psp fno ofs e (xs @ new_lock psp fno ofs e # ys)
    = Some (xs @ (new_lock psp fno ofs e)\<lparr>used := 0\<rparr> # ys)"
  using assms by (induction xs) (auto simp: new_lock_def)

lemma unlock_entry_active:
  "unlock_entry psp fno ofs e ls = Some ls' \<Longrightarrow>
     \<exists>xs l ys. active ls = xs @ l # ys \<and> active ls' = xs @ ys
       \<and> l_psp l = psp \<and> fileno l = fno \<and> l_start l = ofs \<and> l_end l = e"
proof (induction ls arbitrary: ls')
  case (Cons l ls)
  show ?case
  proof (cases "used l \<noteq> 0 \<and> l_psp l = psp \<and> fileno l = fno \<and> l_start l = ofs \<and> l_end l = e")
    case True
    with Cons.prems show ?thesis by (auto simp: active_def intro!: exI [of _ "[]"])
  next
    case False
    with Cons.prems obtain ls1 where ls1: "unlock_entry psp fno ofs e ls = Some ls1" "ls' = l # ls1" by auto
    from Cons.IH [OF ls1(1)] obtain xs l' ys where "active ls = xs @ l' # ys" "active ls1 = xs @ ys"
      "l_psp l' = psp" "fileno l' = fno" "l_start l' = ofs" "l_end l' = e" by blast
    with ls1(2) show ?thesis
      by (intro exI [of _ "active [l] @ xs"] exI [of _ l'] exI [of _ ys]) (simp add: active_def)
  qed
qed simp

lemma lock_wf:
  assumes "share_wf s" "\<forall>l \<in> set ls. used l \<noteq> 0 \<longrightarrow> unat (fileno l) < length (file_table s)"
  shows "share_wf (s\<lparr>lock_table := ls\<rparr>)"
  using assms by (simp add: share_wf_def)

lemma lock_ok:
  assumes wf: "share_wf s" and fno: "unat fno < length (file_table s)" and reg: "lock_region ofs len = (e, n)" "n \<noteq> 0"
  shows "\<exists>rc s'. lock_unlock psp fno ofs len False s = Some (rc, s') \<and> share_wf s' \<and> file_table s' = file_table s
    \<and> (if \<exists>l \<in> set (lock_table s). forbids s 0 fno ofs e l then rc = -0x21 \<and> s' = s
       else if \<forall>l \<in> set (lock_table s). used l \<noteq> 0 then rc = -0x24 \<and> s' = s
       else rc = 0 \<and> (\<exists>xs l ys. lock_table s = xs @ l # ys \<and> (\<forall>x \<in> set xs. used x \<noteq> 0) \<and> used l = 0
         \<and> lock_table s' = xs @ new_lock psp fno ofs e # ys))"
proof -
  have e: "e = ofs + n" "ofs < e" using lock_region_less [OF reg] by simp_all
  then have reg2: "lock_region ofs n = (e, n)" by (auto simp: lock_region_def Let_def)
  note ac = access_check_eq [OF wf fno reg2, of 0]
  let ?hit = "\<exists>l \<in> set (lock_table s). forbids s 0 fno ofs e l"
  note sp = lock_entry_spec [where psp = psp and fno = fno and ofs = ofs and e = e and ls = "lock_table s"]
  have lu: "lock_unlock psp fno ofs len False s = (if ?hit then Some (-0x21, s)
      else (case lock_entry psp fno ofs e (lock_table s) of None \<Rightarrow> Some (-0x24, s)
            | Some ls \<Rightarrow> Some (0, s\<lparr>lock_table := ls\<rparr>)))"
    using reg ac e(1) by (simp add: lock_unlock_def not_less)
  show ?thesis
  proof (cases "?hit")
    case True
    with lu wf show ?thesis by simp
  next
    case False
    show ?thesis
    proof (cases "lock_entry psp fno ofs e (lock_table s)")
      case None
      with False lu wf sp show ?thesis by auto
    next
      case (Some ls)
      with sp obtain xs l ys where d: "lock_table s = xs @ l # ys" "\<forall>x \<in> set xs. used x \<noteq> 0" "used l = 0"
        "ls = xs @ new_lock psp fno ofs e # ys" by auto
      have "share_wf (s\<lparr>lock_table := ls\<rparr>)"
        using wf d fno by (intro lock_wf [OF wf]) (auto simp: share_wf_def new_lock_def)
      moreover have "\<not> (\<forall>l \<in> set (lock_table s). used l \<noteq> 0)" using d by auto
      ultimately show ?thesis using False lu Some d by auto
    qed
  qed
qed

text \<open>Unlocking takes away one lock of the caller or fails without a change.\<close>

lemma active_unlock_subset:
  "unlock_entry psp fno ofs e ls = Some ls' \<Longrightarrow> l \<in> set ls' \<Longrightarrow> used l \<noteq> 0 \<Longrightarrow> l \<in> set ls"
  by (induction ls arbitrary: ls') (auto split: if_splits)

lemma unlock_ok:
  assumes wf: "share_wf s"
  shows "\<exists>rc s'. lock_unlock psp fno ofs len True s = Some (rc, s') \<and> share_wf s' \<and> file_table s' = file_table s"
proof -
  obtain e n where "lock_region ofs len = (e, n)" by force
  moreover have "share_wf (s\<lparr>lock_table := ls\<rparr>)" if "unlock_entry psp fno ofs e (lock_table s) = Some ls" for ls
    using wf active_unlock_subset [OF that] by (intro lock_wf [OF wf]) (auto simp: share_wf_def)
  ultimately show ?thesis using wf by (auto simp: lock_unlock_def split: option.splits)
qed

subsection \<open>Every sequence of calls\<close>

inductive share_step :: "share \<Rightarrow> share \<Rightarrow> bool" where
  step_open: "cstring name k \<Longrightarrow> 0 < k \<Longrightarrow> k < 128 \<Longrightarrow> open_check name psp om sm s = Some (rc, s')
    \<Longrightarrow> share_step s s'"
| step_close: "unat fno < length (file_table s) \<Longrightarrow> close_file fno s = Some s' \<Longrightarrow> share_step s s'"
| step_access: "unat fno < length (file_table s) \<Longrightarrow> access_check psp fno ofs len crit s = Some (rc, s')
    \<Longrightarrow> share_step s s'"
| step_lock: "unat fno < length (file_table s) \<Longrightarrow> lock_unlock psp fno ofs len unlock s = Some (rc, s')
    \<Longrightarrow> share_step s s'"

inductive share_reach :: "share \<Rightarrow> share \<Rightarrow> bool" for s0 where
  reach_init: "share_reach s0 s0"
| reach_step: "share_reach s0 s \<Longrightarrow> share_step s s' \<Longrightarrow> share_reach s0 s'"

definition share_inv :: "share \<Rightarrow> bool" where
  "share_inv s \<longleftrightarrow> share_wf s \<and> sharing_ok (insts s)"

lemma share_inv_insts: "share_wf s' \<Longrightarrow> insts s' = xs \<Longrightarrow> sharing_ok xs \<Longrightarrow> share_inv s'"
  by (simp add: share_inv_def)

lemma lock_unlock_inv:
  assumes wf: "share_wf s" and fno: "unat fno < length (file_table s)"
    and lu: "lock_unlock psp fno ofs len unlock s = Some (rc, s')"
  shows "share_wf s' \<and> file_table s' = file_table s"
proof (cases unlock)
  case True
  with unlock_ok [OF wf, of psp fno ofs len] lu show ?thesis by auto
next
  case False
  obtain e n where reg: "lock_region ofs len = (e, n)" by force
  show ?thesis
  proof (cases "n = 0")
    case True
    with reg lu wf show ?thesis by (simp add: lock_unlock_def)
  next
    case n: False
    from lock_ok [OF wf fno reg this, of psp] lu \<open>\<not> unlock\<close> show ?thesis by auto
  qed
qed

lemma access_check_inv:
  assumes wf: "share_wf s" and fno: "unat fno < length (file_table s)"
    and ac: "access_check psp fno ofs len crit s = Some (rc, s')"
  shows "share_wf s' \<and> (insts s' = insts s \<or> insts s' = (insts s)[unat fno := None])"
proof (cases crit)
  case True
  with access_check_crit [OF wf fno, of psp ofs len] ac show ?thesis by auto
next
  case False
  obtain e n where "lock_region ofs len = (e, n)" by force
  from access_check_eq [OF wf fno this, of psp] ac False wf show ?thesis by auto
qed

lemma share_step_inv: "share_step s s' \<Longrightarrow> share_inv s \<Longrightarrow> share_inv s'"
proof (induction rule: share_step.induct)
  case (step_open name k psp om sm s rc s')
  then obtain x where "share_wf s'"
    "(x, insts s') = spec_open (map name [0..<k]) psp (norm_open om) (norm_share sm) (insts s)"
    using open_check_refines [OF _ step_open(1-3), of s psp om sm] by (auto simp: share_inv_def)
  then have "insts s' = snd (spec_open (map name [0..<k]) psp (norm_open om) (norm_share sm) (insts s))"
    by (metis snd_conv)
  with \<open>share_wf s'\<close> step_open.prems spec_open_ok show ?case by (simp add: share_inv_def)
next
  case (step_close fno s s')
  then show ?case using close_file_ok [of s fno] sharing_ok_None by (auto simp: share_inv_def)
next
  case (step_access fno s psp ofs len crit rc s')
  then show ?case using access_check_inv [of s fno psp ofs len crit rc s'] sharing_ok_None
    by (auto simp: share_inv_def)
next
  case (step_lock fno s psp ofs len unlock rc s')
  then show ?case using lock_unlock_inv [of s fno psp ofs len unlock rc s']
    by (auto simp: share_inv_def insts_def)
qed

lemma share_reach_inv: "share_reach s0 s \<Longrightarrow> share_inv s0 \<Longrightarrow> share_inv s"
  by (induction rule: share_reach.induct) (auto intro: share_step_inv)

lemma init_inv:
  assumes "init fb ln m1 m2 = (0, Some s)" "fb < 65536"
  shows "share_inv s"
proof -
  have s: "s = \<lparr>file_table = replicate (fb div 134) zero_file, lock_table = replicate ln zero_lock, criterrs = []\<rparr>"
    using assms(1) by (auto simp: init_def split: if_splits)
  have "file_wf zero_file" "inst_of zero_file = None"
    by (simp_all add: file_wf_def zero_file_def inst_of_def in_use_def)
  then show ?thesis
    using assms(2) by (auto simp: s share_inv_def share_wf_def sharing_ok_def insts_def zero_lock_def)
qed

lemma two_instances:
  assumes "share_inv s" "i < length (file_table s)" "j < length (file_table s)" "i \<noteq> j"
    "in_use (file_table s ! i)" "in_use (file_table s ! j)" "fname (file_table s ! i) = fname (file_table s ! j)"
  defines "f \<equiv> file_table s ! i" and "g \<equiv> file_table s ! j"
  shows "first_sharemode f = first_sharemode g" "sharemode f \<le> 4" "sharemode g \<le> 4"
    "admitted (first_sharemode f) (first_openmode f) (sharemode f) (openmode f)
     \<or> admitted (first_sharemode f) (first_openmode f) (sharemode g) (openmode g)"
proof -
  have "sharing_ok (insts s)" using assms(1) by (simp add: share_inv_def)
  from sharing_okD [OF this, of i j "the (inst_of f)" "the (inst_of g)"] assms(2-7) have
    "first_sharemode f = first_sharemode g \<and> (admitted (first_sharemode f) (first_openmode f) (sharemode f) (openmode f)
     \<or> admitted (first_sharemode f) (first_openmode f) (sharemode g) (openmode g))"
    by (auto simp: insts_def inst_of_def compatible_def adm_def f_def g_def)
  moreover have "file_wf f" "file_wf g" using assms by (auto simp: share_inv_def share_wf_def)
  ultimately show "first_sharemode f = first_sharemode g" "sharemode f \<le> 4" "sharemode g \<le> 4"
    "admitted (first_sharemode f) (first_openmode f) (sharemode f) (openmode f)
     \<or> admitted (first_sharemode f) (first_openmode f) (sharemode g) (openmode g)"
    by (auto simp: file_wf_def)
qed

end
