(* ===== verification/ShareProps.thy ===== *)
theory ShareProps
  imports ShareSafety
begin

text \<open>
  The properties of SHARE, with two small tables on which their hypotheses hold.
\<close>

subsection \<open>Tables\<close>

text \<open>Three entries for open files and two for locks, all free, and two opens of the file \<open>A\<close>.\<close>

definition demo_share :: share where
  "demo_share = \<lparr>file_table = replicate 3 zero_file, lock_table = replicate 2 zero_lock, criterrs = []\<rparr>"

definition nameA :: "nat \<Rightarrow> u8" where
  "nameA i = (if i = 0 then 0x41 else 0)"

definition fileA :: "u16 \<Rightarrow> u8 \<Rightarrow> u8 \<Rightarrow> u8 \<Rightarrow> u8 \<Rightarrow> file_t" where
  "fileA psp om sm fo fs = \<lparr>filename = 0x41 # replicate 127 0, f_psp = psp, openmode = om, sharemode = sm,
     first_openmode = fo, first_sharemode = fs\<rparr>"

definition shareA :: "file_t list \<Rightarrow> lock_t list \<Rightarrow> share" where
  "shareA fs ls = \<lparr>file_table = fs, lock_table = ls, criterrs = []\<rparr>"

lemma nameA_cstring: "cstring nameA 1"
  by (simp add: cstring_def nameA_def)

lemma demo_init: "init 402 2 True True = (0, Some demo_share)"
  by (simp add: init_def demo_share_def)

text \<open>Process 5 opens for reading and denies nothing, process 6 opens for reading and writing and denies writing.\<close>

abbreviation "demo_first \<equiv> fileA 5 0 4 0 4"
abbreviation "demo_second \<equiv> fileA 6 2 2 0 4"
abbreviation "no_locks \<equiv> replicate 2 zero_lock"

lemma demo_open1: "open_check nameA 5 0 4 demo_share = Some (0, shareA [demo_first, zero_file, zero_file] no_locks)"
  by code_simp

lemma demo_open2: "open_check nameA 6 2 2 (shareA [demo_first, zero_file, zero_file] no_locks)
  = Some (1, shareA [demo_first, demo_second, zero_file] no_locks)"
  by code_simp

definition demo_two :: share where
  "demo_two = shareA [demo_first, demo_second, zero_file] no_locks"

lemma demo_reach: "share_reach demo_share demo_two"
  unfolding demo_two_def
  using reach_step [OF reach_step [OF reach_init step_open [OF nameA_cstring _ _ demo_open1]]
    step_open [OF nameA_cstring _ _ demo_open2]] by simp

lemma demo_two_wf: "share_wf demo_two"
  using share_reach_inv [OF demo_reach init_inv [OF demo_init]] by (simp add: share_inv_def)

lemma demo_files: "length (file_table demo_two) = 3" "file_table demo_two ! 0 = demo_first" "file_table demo_two ! Suc 0 = demo_second"
  "lock_table demo_two = no_locks"
  by (simp_all add: demo_two_def shareA_def)

subsection \<open>Opening\<close>

text \<open>
  C14. The open check refines its specification: on a well-formed table it returns, keeps the table well
  formed and the locks as they are, uses the first free entry, and admits the open exactly when the
  file is not open yet or the table of sharing rules admits the new modes against the modes of the
  first open. The strings in the table are compared up to their terminator only.
\<close>

theorem open_check_spec:
  assumes "share_wf s" "cstring name k" "0 < k" "k < 128"
  shows "\<exists>rc s'. open_check name psp omode smode s = Some (rc, s') \<and> share_wf s' \<and> lock_table s' = lock_table s
    \<and> (rc, insts s') = spec_open (map name [0..<k]) psp (norm_open omode) (norm_share smode) (insts s)"
  using open_check_refines [OF assms] .

theorem open_check_spec_witness:
  "\<exists>rc s'. open_check nameA 7 0 1 demo_two = Some (rc, s') \<and> share_wf s'
    \<and> (rc, insts s') = spec_open [0x41] 7 (norm_open 0) (norm_share 1) (insts demo_two)"
proof -
  have "map nameA [0..<1] = [0x41]" by (simp add: nameA_def)
  with open_check_spec [OF demo_two_wf nameA_cstring, of 7 0 1] show ?thesis by auto
qed

text \<open>
  C12. In every state SHARE can reach from its start by opens, closes, access checks, locks and unlocks,
  two open instances of one file respect the sharing mode of its first open: that mode is not
  \<^const>\<open>SHARE_DENY_ALL\<close>; if it denies writing one of the two is open for reading only; if it denies
  reading one of the two is open for writing only.
\<close>

theorem sharing_modes_respected:
  assumes "init fb ln m1 m2 = (0, Some s0)" "fb < 65536" "share_reach s0 s"
    and "i < length (file_table s)" "j < length (file_table s)" "i \<noteq> j"
    and "in_use (file_table s ! i)" "in_use (file_table s ! j)"
    and "fname (file_table s ! i) = fname (file_table s ! j)"
  shows "first_sharemode (file_table s ! i) = first_sharemode (file_table s ! j)
    \<and> first_sharemode (file_table s ! i) \<noteq> ucast SHARE_DENY_ALL
    \<and> (first_sharemode (file_table s ! i) = ucast SHARE_DENY_WRITE \<longrightarrow>
         openmode (file_table s ! i) = ucast OPEN_READ_ONLY \<or> openmode (file_table s ! j) = ucast OPEN_READ_ONLY)
    \<and> (first_sharemode (file_table s ! i) = ucast SHARE_DENY_READ \<longrightarrow>
         openmode (file_table s ! i) = ucast OPEN_WRITE_ONLY \<or> openmode (file_table s ! j) = ucast OPEN_WRITE_ONLY)"
proof -
  have "share_inv s" using share_reach_inv [OF assms(3) init_inv [OF assms(1,2)]] .
  note t = two_instances [OF this assms(4-9)]
  show ?thesis using t(1,4) deny_all_rule [OF t(2)] deny_all_rule [OF t(3)] deny_write_rule [OF t(2)] deny_write_rule [OF t(3)]
    deny_read_rule [OF t(2)] deny_read_rule [OF t(3)] by (auto simp: share_consts)
qed

theorem sharing_modes_respected_witness:
  "first_sharemode (file_table demo_two ! 0) \<noteq> ucast SHARE_DENY_ALL"
proof -
  have "in_use demo_first" "in_use demo_second" "fname demo_first = fname demo_second"
    by (simp_all add: in_use_def fileA_def)
  then show ?thesis
    using sharing_modes_respected [OF demo_init _ demo_reach, of 0 1] by (auto simp: demo_files)
qed

lemma first_None_free: "None \<in> set xs \<Longrightarrow> \<exists>n. first_None k xs = Some n"
  by (induction k xs rule: first_None.induct) auto

lemma deny_none_rule: "admitted 4 fo 4 co"
  by (simp add: admitted_def open_action_def open_exceptions_def open_actions_def)

text \<open>
  C36. Only the first open counts. When the first open of a file denied nothing, a further open that denies nothing is
  granted, for any kind of access, as long as the table has a free entry: whatever mode another instance of
  the file has asked for, also one that denies writing or reading. The
  other instance stays open with its mode.
\<close>

theorem later_deny_ignored:
  assumes inv: "share_inv s" and name: "cstring name k" "0 < k" "k < 128"
    and other: "j < length (insts s)" "insts s ! j = Some a" "i_name a = map name [0..<k]" "i_fshare a = ucast SHARE_DENY_NONE"
    and free: "None \<in> set (insts s)"
  shows "\<exists>n s' b. open_check name psp omode SHARE_DENY_NONE s = Some (int n, s') \<and> n < length (insts s') \<and> n \<noteq> j
    \<and> insts s' ! n = Some b \<and> i_name b = i_name a \<and> i_psp b = psp \<and> i_open b = norm_open omode
    \<and> insts s' ! j = Some a \<and> share_inv s'"
proof -
  let ?nm = "map name [0..<k]" and ?om = "norm_open omode"
  have wf: "share_wf s" and so: "sharing_ok (insts s)" using inv by (simp_all add: share_inv_def)
  have sm: "norm_share SHARE_DENY_NONE = 4" by (simp add: norm_share_def share_consts)
  obtain n where n: "first_None 0 (insts s) = Some n" using first_None_free [OF free] by blast
  have n': "n < length (insts s)" "insts s ! n = None" using first_None_Some [OF n] by simp_all
  have "find (named ?nm) (insts s) \<noteq> None" using find_None_nth [of "named ?nm" "insts s" j] other by (auto simp: named_def)
  then obtain x where x: "find (named ?nm) (insts s) = Some x" by blast
  with find_Some_in [OF x] obtain p where p: "x = Some p" "i_name p = ?nm" "Some p \<in> set (insts s)" by (auto simp: named_def split: option.splits)
  then obtain m where m: "m < length (insts s)" "insts s ! m = Some p" by (auto simp: in_set_conv_nth)
  have "i_fshare p = 4"
    using sharing_okD [OF so m(1) other(1) _ m(2) other(2)] p(2) other m by (cases "m = j") (auto simp: compatible_def share_consts)
  then have adm: "admitted (i_fshare p) (i_fopen p) 4 ?om" using deny_none_rule by simp
  let ?b = "\<lparr>i_name = ?nm, i_psp = psp, i_open = ?om, i_share = 4, i_fopen = i_fopen p, i_fshare = i_fshare p\<rparr>"
  obtain rc s' where o: "open_check name psp omode SHARE_DENY_NONE s = Some (rc, s')"
    "(rc, insts s') = spec_open ?nm psp ?om 4 (insts s)" using open_check_refines [OF wf name, of psp omode SHARE_DENY_NONE] sm by auto
  have "(rc, insts s') = (int n, (insts s)[n := Some ?b])" using o(2) n x p(1) adm by (simp add: spec_open_def)
  moreover have "share_inv s'" using share_step_inv [OF step_open [OF name o(1)] inv] .
  moreover have "n \<noteq> j" using n'(2) other(2) by auto
  ultimately show ?thesis using o(1) n'(1) other
    by (intro exI [of _ n] exI [of _ s'] exI [of _ ?b]) simp
qed

text \<open>Process 6 denies writing; process 7 opens the file for reading and writing.\<close>

theorem later_deny_ignored_witness:
  "\<exists>n s' b. open_check nameA 7 OPEN_READ_WRITE SHARE_DENY_NONE demo_two = Some (int n, s') \<and> insts s' ! n = Some b \<and> i_open b = 2
    \<and> (\<exists>a. insts s' ! 1 = Some a \<and> i_share a = ucast SHARE_DENY_WRITE \<and> i_name a = i_name b)"
proof -
  have inv: "share_inv demo_two" using share_reach_inv [OF demo_reach init_inv [OF demo_init]] by simp
  let ?a = "\<lparr>i_name = [0x41], i_psp = 6, i_open = 2, i_share = 2, i_fopen = 0, i_fshare = 4\<rparr>"
  have "insts demo_two ! 1 = Some ?a" "None \<in> set (insts demo_two)" "length (insts demo_two) = 3"
    by (simp_all add: insts_def demo_two_def shareA_def fileA_def inst_of_def in_use_def cname_def zero_file_def)
  moreover have "map nameA [0..<1] = [0x41]" "norm_open OPEN_READ_WRITE = 2" by (simp_all add: nameA_def norm_open_def share_consts)
  ultimately show ?thesis using later_deny_ignored [OF inv nameA_cstring, of 1 ?a 7 OPEN_READ_WRITE] by (auto simp: share_consts)
qed

subsection \<open>Locks\<close>

text \<open>
  C28. The access check, exactly: without the critical error dialogue an access to a non-empty region
  is refused if and only if a lock of another process (any process for \<open>psp = 0\<close>) on the same file
  covers the first or the last byte of the region; the tables do not change.
\<close>

theorem access_check_exact:
  assumes "share_wf s" "unat fno < length (file_table s)" "lock_region ofs len = (e, n)"
  shows "access_check psp fno ofs len False s
    = Some (if n \<noteq> 0 \<and> (\<exists>l \<in> set (lock_table s). used l \<noteq> 0 \<and> (psp = 0 \<or> l_psp l \<noteq> psp)
        \<and> same_name s fno (fileno l) \<and> (covers l ofs \<or> covers l (e - 1))) then -0x21 else 0, s)"
  using access_check_eq [OF assms, of psp] lock_hits_covers [OF lock_region_less(1) [OF assms(3)]]
  by (auto simp: forbids_def)

theorem access_check_exact_witness: "access_check 9 0 100 10 False demo_two = Some (0, demo_two)"
  using access_check_exact [OF demo_two_wf, of 0 100 10 110 10 9]
  by (simp add: demo_files lock_region_def zero_lock_def)

text \<open>
  C21. A lock that was granted protects: afterwards an access by any other process to the same file is
  refused when it starts or ends inside the locked region, through whichever entry of the table the
  other process has the file open.
\<close>

theorem lock_protects:
  assumes "share_wf s" "unat fno < length (file_table s)" "lock_region ofs len = (e, n)" "n \<noteq> 0"
    and "lock_unlock psp fno ofs len False s = Some (0, s')"
    and "unat fno' < length (file_table s)" "same_name s fno' fno" "psp' \<noteq> psp"
    and "lock_region ofs' len' = (e', n')" "n' \<noteq> 0" "ofs \<le> ofs' \<and> ofs' < e \<or> ofs \<le> e' - 1 \<and> e' - 1 < e"
  shows "access_check psp' fno' ofs' len' False s' = Some (-0x21, s')"
proof -
  from lock_ok [OF assms(1-4), of psp] assms(5) have wf: "share_wf s'" "file_table s' = file_table s"
    and new: "new_lock psp fno ofs e \<in> set (lock_table s')" by (auto split: if_splits)
  have "forbids s' psp' fno' ofs' e' (new_lock psp fno ofs e)"
    using assms(7,8,11) wf(2) lock_hits_covers [OF lock_region_less(1) [OF assms(9,10)]]
    by (auto simp: forbids_def new_lock_def covers_def same_name_def)
  with new access_check_eq [OF wf(1) _ assms(9), of fno' psp'] assms(6,10) wf(2) show ?thesis by auto
qed

lemma demo_lock: "lock_unlock 5 0 100 10 False demo_two
  = Some (0, demo_two\<lparr>lock_table := [new_lock 5 0 100 110, zero_lock]\<rparr>)"
  by code_simp

theorem lock_protects_witness:
  "access_check 6 1 90 15 False (demo_two\<lparr>lock_table := [new_lock 5 0 100 110, zero_lock]\<rparr>)
    = Some (-0x21, demo_two\<lparr>lock_table := [new_lock 5 0 100 110, zero_lock]\<rparr>)"
proof -
  have r: "lock_region 100 10 = (110, 10)" "lock_region 90 15 = (105, 15)" by (simp_all add: lock_region_def)
  have nm: "same_name demo_two 1 0" by (simp add: same_name_def demo_files fileA_def)
  show ?thesis using lock_protects [OF demo_two_wf _ r(1) _ demo_lock _ nm _ r(2), of 6] by (simp add: demo_files)
qed

text \<open>
  C30. Unlocking undoes locking: when a lock of a region of at least one byte was granted, the same call with the unlock flag succeeds
  and the locks in force are again those from before, in the same order, whichever entry of the table it took.
\<close>

theorem lock_unlock_round_trip:
  assumes "share_wf s" "unat fno < length (file_table s)" "lock_region ofs len = (e, n)" "n \<noteq> 0"
    and "lock_unlock psp fno ofs len False s = Some (0, s')"
  shows "\<exists>s''. lock_unlock psp fno ofs len True s' = Some (0, s'') \<and> active (lock_table s'') = active (lock_table s)
    \<and> file_table s'' = file_table s"
proof -
  from lock_ok [OF assms(1-4), of psp] assms(5) obtain xs l ys where
    no: "\<not> (\<exists>l \<in> set (lock_table s). forbids s 0 fno ofs e l)" and d: "lock_table s = xs @ l # ys" "used l = 0"
    "lock_table s' = xs @ new_lock psp fno ofs e # ys" "file_table s' = file_table s"
    by (auto split: if_splits)
  have "\<not> (used x \<noteq> 0 \<and> l_psp x = psp \<and> fileno x = fno \<and> l_start x = ofs \<and> l_end x = e)" if "x \<in> set xs" for x
    using no that d(1) lock_region_less(1) [OF assms(3,4)] by (auto simp: forbids_def same_name_def lock_hits_def)
  then have "unlock_entry psp fno ofs e (lock_table s') = Some (xs @ (new_lock psp fno ofs e)\<lparr>used := 0\<rparr> # ys)"
    unfolding d(3) by (intro unlock_entry_first) blast
  then show ?thesis using assms(3,4) d by (simp add: lock_unlock_def active_def not_less)
qed

theorem lock_unlock_round_trip_witness:
  "\<exists>s. lock_unlock 5 0 100 10 True (demo_two\<lparr>lock_table := [new_lock 5 0 100 110, zero_lock]\<rparr>) = Some (0, s) \<and> active (lock_table s) = []"
proof -
  have "lock_region 100 10 = (110, 10)" by (simp add: lock_region_def)
  from lock_unlock_round_trip [OF demo_two_wf _ this _ demo_lock] show ?thesis
    by (auto simp: demo_files active_def zero_lock_def)
qed

text \<open>
  C35. A lock request that contains a locked region is not refused: when the regions that are locked on the file, by
  whichever process, all lie strictly inside the requested one and the table has a free entry, the lock is granted, and it
  is in force together with that of the other process. (C28 says why: only the first and the last byte are tested.)
\<close>

theorem enclosing_lock_granted:
  assumes wf: "share_wf s" "unat fno < length (file_table s)" and reg: "lock_region ofs len = (e, n)" "n \<noteq> 0"
    and inside: "\<forall>l \<in> set (lock_table s). used l \<noteq> 0 \<and> same_name s fno (fileno l) \<longrightarrow> ofs < l_start l \<and> l_end l < e"
    and other: "l \<in> set (lock_table s)" "used l \<noteq> 0" "same_name s fno (fileno l)" "l_psp l \<noteq> psp"
    and free: "\<exists>l \<in> set (lock_table s). used l = 0"
  shows "\<exists>s'. lock_unlock psp fno ofs len False s = Some (0, s') \<and> l \<in> set (lock_table s') \<and> ofs < l_start l \<and> l_end l < e
    \<and> new_lock psp fno ofs e \<in> set (lock_table s') \<and> file_table s' = file_table s"
proof -
  have no: "\<not> (\<exists>l \<in> set (lock_table s). forbids s 0 fno ofs e l)" using inside by (auto simp: forbids_def lock_hits_def)
  have nf: "\<not> (\<forall>l \<in> set (lock_table s). used l \<noteq> 0)" using free by blast
  obtain s' xs y ys where "lock_unlock psp fno ofs len False s = Some (0, s')" "file_table s' = file_table s"
    "lock_table s = xs @ y # ys" "used y = 0" "lock_table s' = xs @ new_lock psp fno ofs e # ys"
    using lock_ok [OF wf reg, of psp] unfolding if_not_P [OF no] if_not_P [OF nf] by blast
  moreover have "l \<noteq> y" using other(2) \<open>used y = 0\<close> by auto
  ultimately show ?thesis using other inside by auto
qed

theorem enclosing_lock_granted_witness:
  "\<exists>s. lock_unlock 6 1 50 100 False (demo_two\<lparr>lock_table := [new_lock 5 0 100 110, zero_lock]\<rparr>) = Some (0, s)
    \<and> new_lock 5 0 100 110 \<in> set (lock_table s) \<and> new_lock 6 1 50 150 \<in> set (lock_table s)"
proof -
  let ?s = "demo_two\<lparr>lock_table := [new_lock 5 0 100 110, zero_lock]\<rparr>"
  have wf: "share_wf ?s" using demo_two_wf by (simp add: share_wf_def new_lock_def zero_lock_def demo_files)
  have r: "lock_region 50 100 = (150, 100)" by (simp add: lock_region_def)
  have nm: "same_name ?s 1 0" by (simp add: same_name_def demo_files fileA_def)
  show ?thesis
    using enclosing_lock_granted [OF wf _ r, of 1 "new_lock 5 0 100 110" 6] nm by (auto simp: demo_files new_lock_def zero_lock_def)
qed

subsection \<open>Closing, and the interrupt handler\<close>

text \<open>
  What each function of the handler needs in the registers it uses: the file to open is a non-empty name of less than 128
  characters at DS:SI, and a file number, in BX to close and in CX to access and lock, is one of the table.
\<close>

definition handler_args :: "(u16 \<Rightarrow> u16 \<Rightarrow> u8) \<Rightarrow> intregs_t \<Rightarrow> share \<Rightarrow> bool" where
  "handler_args mem r s \<longleftrightarrow> (drop_bit 8 (r_ax r) AND 0xff = MULTIPLEX_ID \<longrightarrow>
     (r_ax r AND 0xff = 0xa0 \<longrightarrow> (\<exists>k. 0 < k \<and> k < 128 \<and> cstring (\<lambda>i. mem (r_ds r) (r_si r + of_nat i)) k))
     \<and> (r_ax r AND 0xff = 0xa1 \<longrightarrow> unat (r_bx r) < length (file_table s))
     \<and> (r_ax r AND 0xfe = 0xa2 \<or> r_ax r AND 0xfe = 0xa4 \<longrightarrow> unat (r_cx r) < length (file_table s)))"

text \<open>The calls that are for SHARE: the multiplex number in AH, and in AL the installation check or a function.\<close>

definition for_share :: "intregs_t \<Rightarrow> bool" where
  "for_share r \<longleftrightarrow> drop_bit 8 (r_ax r) AND 0xff = MULTIPLEX_ID
     \<and> (r_ax r AND 0xff \<in> {0, 0xa0, 0xa1} \<or> r_ax r AND 0xfe \<in> {0xa2, 0xa4})"

lemma access_check_total:
  assumes wf: "share_wf s" and fno: "unat fno < length (file_table s)"
  shows "\<exists>rc s'. access_check psp fno ofs len crit s = Some (rc, s')"
proof (cases crit)
  case False
  obtain e n where "lock_region ofs len = (e, n)" by force
  with access_check_eq [OF wf fno this, of psp] False show ?thesis by simp
qed (use access_check_crit [OF wf fno, of psp ofs len] in auto)

lemma lock_unlock_total:
  assumes wf: "share_wf s" and fno: "unat fno < length (file_table s)"
  shows "\<exists>rc s'. lock_unlock psp fno ofs len unlock s = Some (rc, s')"
proof (cases unlock)
  case True
  with unlock_ok [OF wf, of psp fno ofs len] show ?thesis by auto
next
  case False
  obtain e n where "lock_region ofs len = (e, n)" by force
  then show ?thesis using lock_ok [OF wf fno, of ofs len e n psp] False
    by (cases "n = 0") (auto simp: lock_unlock_def)
qed

text \<open>
  C27. The multiplex handler is memory safe and keeps the sharing invariant. On tables that satisfy the invariant a
  call that is for SHARE, with arguments as its function needs them, returns without an access outside the
  tables; it has made at most one step of SHARE, after which the invariant holds again, and changed no register but AX.
  A call that is not for SHARE goes to the previous handler with the registers and the tables unchanged. The other registers of a function, as the process in BX and the
  sharing and open modes, are arbitrary.
\<close>

theorem handler2f_safe:
  assumes inv: "share_inv s" and args: "handler_args mem r s"
  shows "if for_share r then \<exists>ax s'. handler2f mem r s = Some (Inl (r\<lparr>r_ax := ax\<rparr>, s')) \<and> (s' = s \<or> share_step s s') \<and> share_inv s'
    else handler2f mem r s = Some (Inr (r, s))"
proof -
  let ?nm = "\<lambda>i. mem (r_ds r) (r_si r + of_nat i)"
  have wf: "share_wf s" using inv by (simp add: share_inv_def)
  note steps = share_step_inv [OF _ inv]
  consider "drop_bit 8 (r_ax r) AND 0xff \<noteq> MULTIPLEX_ID"
    | (install) "drop_bit 8 (r_ax r) AND 0xff = MULTIPLEX_ID" "r_ax r AND 0xff = 0"
    | (op) "drop_bit 8 (r_ax r) AND 0xff = MULTIPLEX_ID" "r_ax r AND 0xff = 0xa0"
    | (cl) "drop_bit 8 (r_ax r) AND 0xff = MULTIPLEX_ID" "r_ax r AND 0xff = 0xa1"
    | (other) "drop_bit 8 (r_ax r) AND 0xff = MULTIPLEX_ID" "r_ax r AND 0xff \<noteq> 0" "r_ax r AND 0xff \<noteq> 0xa0" "r_ax r AND 0xff \<noteq> 0xa1" by blast
  then show ?thesis
  proof cases
    case op
    then obtain k where k: "cstring ?nm k" "0 < k" "k < 128" using args by (auto simp: handler_args_def)
    obtain rc s1 where o: "open_check ?nm (r_bx r) (r_cx r) (r_dx r) s = Some (rc, s1)"
      using open_check_refines [OF wf k] by blast
    then show ?thesis using op step_open [OF k o] steps by (auto simp: handler2f_def for_share_def)
  next
    case cl
    then have bx: "unat (r_bx r) < length (file_table s)" using args by (simp add: handler_args_def)
    obtain s1 where c: "close_file (r_bx r) s = Some s1" using close_file_ok [OF wf bx] by blast
    have "handler2f mem r s = Some (Inl (r\<lparr>r_ax := r_ax r\<rparr>, s1))" using cl c by (simp add: handler2f_def)
    moreover have fs: "for_share r" using cl by (simp add: for_share_def)
    ultimately show ?thesis using step_close [OF bx c] steps unfolding if_P [OF fs] by blast
  next
    case other
    consider (acc) "r_ax r AND 0xfe = 0xa2" | (lck) "r_ax r AND 0xfe = 0xa4" | "r_ax r AND 0xfe \<noteq> 0xa2" "r_ax r AND 0xfe \<noteq> 0xa4" by blast
    then show ?thesis
    proof cases
      case acc
      then have cx: "unat (r_cx r) < length (file_table s)" using args other by (simp add: handler_args_def)
      obtain rc s1 where a: "access_check (r_bx r) (r_cx r) (push_bit 16 (ucast (r_si r)) + ucast (r_di r))
            (push_bit 16 (ucast (r_es r)) + ucast (r_dx r)) (r_ax r AND 1 \<noteq> 0) s = Some (rc, s1)" using access_check_total [OF wf cx] by blast
      then show ?thesis using other acc step_access [OF cx a] steps by (auto simp: handler2f_def for_share_def)
    next
      case lck
      then have cx: "unat (r_cx r) < length (file_table s)" using args other by (simp add: handler_args_def)
      obtain rc s1 where l: "lock_unlock (r_bx r) (r_cx r) (long_of (r_si r) (r_di r))
            (long_of (r_es r) (r_dx r)) (r_ax r AND 1 \<noteq> 0) s = Some (rc, s1)" using lock_unlock_total [OF wf cx] by blast
      then show ?thesis using other lck step_lock [OF cx l] steps by (auto simp: handler2f_def for_share_def)
    qed (use other in \<open>simp add: handler2f_def for_share_def\<close>)
  qed (use inv in \<open>auto simp: handler2f_def for_share_def\<close>)
qed

text \<open>A read check of process 0x1234 through the second entry.\<close>

theorem handler2f_safe_witness:
  "\<exists>ax s'. handler2f (\<lambda>_ _. 0)
      \<lparr>r_ax = 0x10a2, r_bx = 0x1234, r_cx = 1, r_dx = 4, r_si = 0, r_di = 100, r_ds = 0, r_es = 0\<rparr> demo_two =
    Some (Inl (\<lparr>r_ax = ax, r_bx = 0x1234, r_cx = 1, r_dx = 4, r_si = 0, r_di = 100, r_ds = 0, r_es = 0\<rparr>, s')) \<and> share_inv s'"
proof -
  let ?r = "\<lparr>r_ax = 0x10a2, r_bx = 0x1234, r_cx = 1, r_dx = 4, r_si = 0, r_di = 100, r_ds = 0, r_es = 0\<rparr>"
  have inv: "share_inv demo_two" using share_reach_inv [OF demo_reach init_inv [OF demo_init]] by simp
  have "handler_args (\<lambda>_ _. 0) ?r demo_two" by (simp add: handler_args_def demo_files)
  moreover have "for_share ?r" by (simp add: for_share_def share_consts)
  ultimately show ?thesis using handler2f_safe [OF inv, of "\<lambda>_ _. 0" ?r] by auto
qed

end
