(* ===== verification/SysTime.thy ===== *)
theory SysTime
  imports Prelude "HOL-Library.Signed_Division"
begin

text \<open>
  The system date and time: \<^verbatim>\<open>kernel/systime.c\<close> (the DOS services), the character requests of
  \<^verbatim>\<open>kernel/chario.c\<close> they use, and the kernel's own clock driver \<^verbatim>\<open>kernel/sysclk.c\<close>. The device that
  serves \<^verbatim>\<open>CLOCK$\<close> and the critical error dialogue are parameters of the services; the driver of the
  kernel is one instance. The BIOS clock below it (\<^verbatim>\<open>int 1Ah\<close>) is a parameter in turn.
\<close>

subsection \<open>Data (hdr/clock.h, hdr/time.h)\<close>

record ClockRecord =
  clkDays :: u16
  clkMinutes :: u8
  clkHours :: u8
  clkHundredths :: u8
  clkSeconds :: u8

record dostime =
  t_minute :: u8
  t_hour :: u8
  t_hundredth :: u8
  t_second :: u8

record dosdate =
  d_year :: u16
  d_monthday :: u8
  d_month :: u8

definition DE_INVLDACC :: int where "DE_INVLDACC = -12"
definition DE_INVLDDATA :: int where "DE_INVLDDATA = -13"
definition K_INPUT :: u8 where "K_INPUT = 0x04"
definition K_OUTPUT :: u8 where "K_OUTPUT = 0x08"
definition ST_ERROR :: u16 where "ST_ERROR = 0x8000"
definition ST_DONE :: u16 where "ST_DONE = 0x0100"

named_theorems clk_consts \<open>the constants of the clock\<close>

declare DE_INVLDACC_def [clk_consts] DE_INVLDDATA_def [clk_consts] K_INPUT_def [clk_consts]
  K_OUTPUT_def [clk_consts] ST_ERROR_def [clk_consts] ST_DONE_def [clk_consts]

subsection \<open>Character requests (chario.c)\<close>

text \<open>
  A character device: \<open>cd_exec\<close> executes a command with a count on a transfer area and returns the
  status, the count, the transfer area and the device; \<open>cd_error\<close> is \<^verbatim>\<open>char_error\<close>, which answers
  \<open>CONTINUE = 0\<close>, \<open>RETRY = 1\<close>, \<open>ABORT = 2\<close> or \<open>FAIL = 3\<close>.
\<close>

record ('a, 'c) chardrv =
  cd_exec :: "u8 \<Rightarrow> u16 \<Rightarrow> 'a \<Rightarrow> 'c \<Rightarrow> u16 \<times> u16 \<times> 'a \<times> 'c"
  cd_error :: "u16 \<Rightarrow> 'c \<Rightarrow> u16 \<times> 'c"

definition char_answer :: "('a, 'c) chardrv \<Rightarrow> u16 \<Rightarrow> 'c \<Rightarrow> (int \<times> 'c) + 'c" where
  "char_answer drv st c = (case cd_error drv st c of (a, c') \<Rightarrow>
     if a = 2 \<or> a = 3 then Inl (DE_INVLDACC, c')
     else if a = 0 then Inl (0, c')
     else if a = 1 then Inl (1, c')
     else Inr c')"

text \<open>The result is the error code, the status, the count, the transfer area and the device.\<close>

definition CharRequest :: "('a, 'c) chardrv \<Rightarrow> u8 \<Rightarrow> u16 \<Rightarrow> 'a \<Rightarrow> 'c \<Rightarrow> (int \<times> u16 \<times> u16 \<times> 'a \<times> 'c) option" where
  "CharRequest drv cmd n area c = (case cd_exec drv cmd n area c of (st, n', area', c') \<Rightarrow>
     if st AND ST_ERROR \<noteq> 0 then do {
       (r, c2) \<leftarrow> loop (char_answer drv st) c';
       Some (r, st, if r = 0 then 0 else n', area', c2)
     } else Some (SUCCESS, st, n', area', c'))"

definition BinaryCharIO :: "('a, 'c) chardrv \<Rightarrow> u16 \<Rightarrow> u8 \<Rightarrow> 'a \<Rightarrow> 'c \<Rightarrow> (int \<times> u16 \<times> 'a \<times> 'c) option" where
  "BinaryCharIO drv n cmd area c =
     loopM (\<lambda>(area, c). do {
       (err, st, n', area', c') \<leftarrow> CharRequest drv cmd n area c;
       Some (if err = 1 then Inr (area', c')
             else Inl (if err = SUCCESS then int (unat n') else err, st, area', c'))
     }) (area, c)"

subsection \<open>The calendar (systime.c)\<close>

definition days_common :: "u16 list" where
  "days_common = [0, 31, 59, 90, 120, 151, 181, 212, 243, 273, 304, 334, 365]"

definition days_leap :: "u16 list" where
  "days_leap = [0, 31, 60, 91, 121, 152, 182, 213, 244, 274, 305, 335, 366]"

definition is_leap_year_monthdays :: "u16 \<Rightarrow> u16 list" where
  "is_leap_year_monthdays y = (if y AND 3 \<noteq> 0 \<or> y = 2100 then days_common else days_leap)"

definition DaysFromYearMonthDay :: "u16 \<Rightarrow> u16 \<Rightarrow> u16 \<Rightarrow> u16" where
  "DaysFromYearMonthDay Year Month DayOfMonth =
     (if Year < 1980 then 0
      else DayOfMonth - 1 + is_leap_year_monthdays Year ! unat (Month - 1)
           + ((Year - 1980) * 365) + ((Year - 1980 + 3) div 4))"

text \<open>The loop that takes off whole years; it ends because a year has days.\<close>

function year_loop :: "u16 \<Rightarrow> u16 \<Rightarrow> u16 \<times> u16" where
  "year_loop Year c =
     (if c \<ge> is_leap_year_monthdays Year ! 12 then year_loop (Year + 1) (c - is_leap_year_monthdays Year ! 12)
      else (Year, c))"
  by pat_completeness auto

lemma year_length: "is_leap_year_monthdays y ! 12 = (if y AND 3 \<noteq> 0 \<or> y = 2100 then 365 else 366)"
  by (simp add: is_leap_year_monthdays_def days_common_def days_leap_def)

termination year_loop
proof (relation "measure (\<lambda>(y, c). unat c)", simp)
  fix Year c :: u16
  assume c: "c \<ge> is_leap_year_monthdays Year ! 12"
  have "0 < unat (is_leap_year_monthdays Year ! 12)" by (simp add: year_length)
  with c show "((Year + 1, c - is_leap_year_monthdays Year ! 12), Year, c) \<in> measure (\<lambda>(y, c). unat c)"
    by (simp add: unat_sub word_le_nat_alt)
qed

declare year_loop.simps [simp del]

function month_loop :: "u16 list \<Rightarrow> u16 \<Rightarrow> nat \<Rightarrow> nat" where
  "month_loop pdays c m = (if m < 13 \<and> c \<ge> pdays ! m then month_loop pdays c (m + 1) else m)"
  by pat_completeness auto
termination by (relation "measure (\<lambda>(ps, c, m). 13 - m)") auto

declare month_loop.simps [simp del]

text \<open>The date of a day number, and its weekday.\<close>

definition date_of_days :: "u16 \<Rightarrow> dosdate" where
  "date_of_days n = (case year_loop 1980 n of (Year, c) \<Rightarrow>
     let pdays = is_leap_year_monthdays Year; Month = month_loop pdays c 1
     in \<lparr>d_year = Year, d_monthday = ucast (c - pdays ! (Month - 1) + 1), d_month = of_nat Month\<rparr>)"

subsection \<open>The services (systime.c)\<close>

text \<open>
  The state of the services: the record exchanged with the driver, the status word of the request
  header \<^verbatim>\<open>ClkReqHdr\<close> (the same memory as \<^verbatim>\<open>CharReqHdr\<close>) and the device. A clock record has 6 bytes.
\<close>

record 'c clockst =
  ClkRecord :: ClockRecord
  ClkReq_status :: u16
  cdev :: 'c

definition ExecuteClockDriverRequest :: "(ClockRecord, 'c) chardrv \<Rightarrow> u8 \<Rightarrow> 'c clockst \<Rightarrow> 'c clockst option" where
  "ExecuteClockDriverRequest drv cmd s = do {
     (_, st, area, c) \<leftarrow> BinaryCharIO drv 6 cmd (ClkRecord s) (cdev s);
     Some \<lparr>ClkRecord = area, ClkReq_status = st, cdev = c\<rparr>
   }"

definition DosGetTime :: "(ClockRecord, 'c) chardrv \<Rightarrow> dostime \<Rightarrow> 'c clockst \<Rightarrow> (dostime \<times> 'c clockst) option" where
  "DosGetTime drv dt s = do {
     s1 \<leftarrow> ExecuteClockDriverRequest drv K_INPUT s;
     Some (if ClkReq_status s1 AND ST_ERROR \<noteq> 0 then dt
           else \<lparr>t_minute = clkMinutes (ClkRecord s1), t_hour = clkHours (ClkRecord s1),
                 t_hundredth = clkHundredths (ClkRecord s1), t_second = clkSeconds (ClkRecord s1)\<rparr>, s1)
   }"

definition clock_result :: "(ClockRecord, 'c) chardrv \<Rightarrow> 'c clockst \<Rightarrow> int \<times> 'c clockst" where
  "clock_result drv s =
     (if ClkReq_status s AND ST_ERROR \<noteq> 0 then
        (case cd_error drv (ClkReq_status s) (cdev s) of (a, c) \<Rightarrow> (int (unat a), s\<lparr>cdev := c\<rparr>))
      else (SUCCESS, s))"

definition DosSetTime :: "(ClockRecord, 'c) chardrv \<Rightarrow> dostime \<Rightarrow> 'c clockst \<Rightarrow> (int \<times> 'c clockst) option" where
  "DosSetTime drv dt s =
     (if t_hour dt > 23 \<or> t_minute dt > 59 \<or> t_second dt > 59 \<or> t_hundredth dt > 99 then Some (DE_INVLDDATA, s)
      else do {
        s1 \<leftarrow> ExecuteClockDriverRequest drv K_INPUT s;
        s2 \<leftarrow> ExecuteClockDriverRequest drv K_OUTPUT (s1\<lparr>ClkRecord := (ClkRecord s1)
          \<lparr>clkHours := t_hour dt, clkMinutes := t_minute dt, clkSeconds := t_second dt, clkHundredths := t_hundredth dt\<rparr>\<rparr>);
        Some (clock_result drv s2)
      })"

text \<open>\<^verbatim>\<open>DosGetDate\<close> returns the weekday.\<close>

definition DosGetDate :: "(ClockRecord, 'c) chardrv \<Rightarrow> dosdate \<Rightarrow> 'c clockst \<Rightarrow> (u8 \<times> dosdate \<times> 'c clockst) option" where
  "DosGetDate drv dd s = do {
     s1 \<leftarrow> ExecuteClockDriverRequest drv K_INPUT s;
     Some (if ClkReq_status s1 AND ST_ERROR \<noteq> 0 then (0, dd, s1)
           else (ucast ((clkDays (ClkRecord s1) + 2) mod 7), date_of_days (clkDays (ClkRecord s1)), s1))
   }"

definition valid_date :: "dosdate \<Rightarrow> bool" where
  "valid_date dd \<longleftrightarrow> (let pdays = is_leap_year_monthdays (d_year dd); m = unat (d_month dd) in
     \<not> (d_year dd < 1980 \<or> d_year dd > 2099 \<or> m < 1 \<or> m > 12 \<or> d_monthday dd < 1
        \<or> ucast (d_monthday dd) > pdays ! m - pdays ! (m - 1)))"

definition DosSetDate :: "(ClockRecord, 'c) chardrv \<Rightarrow> dosdate \<Rightarrow> 'c clockst \<Rightarrow> (int \<times> 'c clockst) option" where
  "DosSetDate drv dd s =
     (if \<not> valid_date dd then Some (DE_INVLDDATA, s)
      else do {
        s1 \<leftarrow> ExecuteClockDriverRequest drv K_INPUT s;
        s2 \<leftarrow> ExecuteClockDriverRequest drv K_OUTPUT (s1\<lparr>ClkRecord := (ClkRecord s1)
          \<lparr>clkDays := DaysFromYearMonthDay (d_year dd) (ucast (d_month dd)) (ucast (d_monthday dd))\<rparr>\<rparr>);
        Some (clock_result drv s2)
      })"

subsection \<open>The clock driver (sysclk.c)\<close>

text \<open>
  The BIOS: \<open>pc_read\<close> is \<^verbatim>\<open>int 1Ah\<close> function 0, the count of midnights passed since the last call and
  the tick counter; \<open>pc_write\<close> is function 1; \<open>at_write\<close> is functions 3 and 5, the real time clock.
\<close>

record 'h bios =
  pc_read :: "'h \<Rightarrow> u8 \<times> u32 \<times> 'h"
  pc_write :: "u32 \<Rightarrow> 'h \<Rightarrow> 'h"
  at_write :: "u8 list \<Rightarrow> u8 \<Rightarrow> u8 \<Rightarrow> u8 \<Rightarrow> 'h \<Rightarrow> 'h"

record 'h sysclk =
  DaysSinceEpoch :: u16
  hw :: 'h

definition ByteToBcd :: "u16 \<Rightarrow> u8" where
  "ByteToBcd x = ucast (push_bit 4 (x div 10) OR (x mod 10))"

definition DayToBcd :: "u16 \<Rightarrow> u16 \<Rightarrow> u16 \<Rightarrow> u8 list" where
  "DayToBcd mon day yr = [ByteToBcd day, ByteToBcd mon, ByteToBcd (yr mod 100), ByteToBcd (yr div 100)]"

definition ReadPCClock :: "'h bios \<Rightarrow> 'h sysclk \<Rightarrow> u32 \<times> 'h sysclk" where
  "ReadPCClock b s = (case pc_read b (hw s) of (midnights, t, h) \<Rightarrow>
     (t, \<lparr>DaysSinceEpoch = DaysSinceEpoch s + ucast midnights, hw = h\<rparr>))"

definition ticks_to_hs :: "u32 \<Rightarrow> u32" where
  "ticks_to_hs t = (let ticks = 5 * t in push_bit 16 (ticks div 59659) + push_bit 16 (ticks mod 59659) div 59659)"

definition hs_to_ticks :: "u32 \<Rightarrow> u32" where
  "hs_to_ticks hs = (drop_bit 16 hs * 59659 + drop_bit 16 ((hs AND 0xffff) * 59659)) div 5"

definition clk_input :: "'h bios \<Rightarrow> 'h sysclk \<Rightarrow> ClockRecord \<times> 'h sysclk" where
  "clk_input b s = (case ReadPCClock b s of (t, s1) \<Rightarrow>
     let ticks = ticks_to_hs t;
         tmp1 = sint (ucast (ticks div 6000) :: u16);
         tmp2 = sint (ucast (ticks mod 6000) :: u16)
     in (\<lparr>clkDays = DaysSinceEpoch s1, clkMinutes = word_of_int (tmp1 smod 60), clkHours = word_of_int (tmp1 sdiv 60),
          clkHundredths = word_of_int (tmp2 smod 100), clkSeconds = word_of_int (tmp2 sdiv 100)\<rparr>, s1))"

definition clk_output :: "'h bios \<Rightarrow> ClockRecord \<Rightarrow> 'h sysclk \<Rightarrow> 'h sysclk" where
  "clk_output b clk s =
     (let hs = 6000 * ucast (60 * ucast (clkHours clk) + ucast (clkMinutes clk) :: u16)
               + ucast (100 * ucast (clkSeconds clk) + ucast (clkHundredths clk) :: u16);
          h1 = pc_write b (hs_to_ticks hs) (hw s);
          (Year, Day) = year_loop 1980 (clkDays clk);
          pdays = is_leap_year_monthdays Year;
          Month = month_loop pdays Day 1;
          Day' = (if Month < 13 then Day - pdays ! (Month - 1) + 1 else Day);
          h2 = at_write b (DayToBcd (of_nat Month) Day' Year) (ByteToBcd (ucast (clkHours clk)))
                 (ByteToBcd (ucast (clkMinutes clk))) (ByteToBcd (ucast (clkSeconds clk))) h1
      in \<lparr>DaysSinceEpoch = clkDays clk, hw = h2\<rparr>)"

definition clk_driver :: "'h bios \<Rightarrow> u8 \<Rightarrow> u16 \<Rightarrow> ClockRecord \<Rightarrow> 'h sysclk \<Rightarrow> u16 \<times> u16 \<times> ClockRecord \<times> 'h sysclk" where
  "clk_driver b cmd n area s =
     (if cmd = 0 then (ST_DONE, n, area, s)
      else if cmd = K_INPUT then
        if n \<noteq> 6 then (ST_ERROR + ST_DONE + 5, n, area, s)
        else (case clk_input b s of (clk, s1) \<Rightarrow> (ST_DONE, n, clk, s1))
      else if cmd = K_OUTPUT then
        if n \<noteq> 6 then (ST_ERROR + ST_DONE + 5, n, area, s)
        else (ST_DONE, n, area, clk_output b area s)
      else if cmd = 0x0b \<or> cmd = 0x07 then (ST_DONE, n, area, s)
      else (ST_ERROR + ST_DONE + 12, n, area, s))"

text \<open>\<^verbatim>\<open>CLOCK$\<close> served by this driver.\<close>

definition clock_dev :: "'h bios \<Rightarrow> (u16 \<Rightarrow> 'h sysclk \<Rightarrow> u16 \<times> 'h sysclk) \<Rightarrow> (ClockRecord, 'h sysclk) chardrv" where
  "clock_dev b err = \<lparr>cd_exec = clk_driver b, cd_error = err\<rparr>"

end
