(* ===== verification/SysTimeProps.thy ===== *)
theory SysTimeProps
  imports SysTime
begin

text \<open>
  The system date and time: day numbers and dates are inverse to each other over the whole range the
  services accept, the rule for leap years is the Gregorian one up to 2199, a date and a time that
  are set are the ones read back (the time up to one tick of the PC clock).
\<close>

subsection \<open>Years\<close>

definition ylen :: "nat \<Rightarrow> nat" where
  "ylen y = (if y mod 4 \<noteq> 0 \<or> y = 2100 then 365 else 366)"

definition jan1 :: "nat \<Rightarrow> nat" where
  "jan1 y = (y - 1980) * 365 + (y - 1980 + 3) div 4"

lemma and_3: "y AND 3 \<noteq> 0 \<longleftrightarrow> unat (y :: u16) mod 4 \<noteq> 0"
proof -
  have "y AND 3 = take_bit 2 y" by (simp add: take_bit_eq_mask mask_eq_exp_minus_1)
  then have "unat (y AND 3) = unat y mod 4" by (simp add: take_bit_eq_mod unat_mod_distrib)
  then show ?thesis by (metis unat_eq_zero)
qed

lemma leap_iff: "(y AND 3 \<noteq> 0 \<or> y = 2100) = (unat y mod 4 \<noteq> 0 \<or> unat (y :: u16) = 2100)"
  using and_3 [of y] by (auto simp: word_unat_eq_iff)

lemma monthdays_nat:
  "is_leap_year_monthdays y = (if unat y mod 4 \<noteq> 0 \<or> unat y = 2100 then days_common else days_leap)"
  unfolding is_leap_year_monthdays_def leap_iff ..

lemma year_length_nat: "unat (is_leap_year_monthdays y ! 12) = ylen (unat y)"
  by (simp add: monthdays_nat ylen_def days_common_def days_leap_def)

lemma jan1_Suc:
  assumes "1980 \<le> y" "y \<le> 2099"
  shows "jan1 (Suc y) = jan1 y + ylen y"
proof -
  define k where "k = y - 1980"
  then have k: "y = 1980 + k" "k < 120" using assms by auto
  have "(k + 4) div 4 = (k + 3) div 4 + (if k mod 4 = 0 then 1 else 0)" by presburger
  moreover have "y mod 4 = k mod 4" using k by presburger
  ultimately show ?thesis using k by (simp add: jan1_def ylen_def add.commute [of 4])
qed

lemma year_loop_run:
  assumes "1980 \<le> unat Y0" "unat Y0 \<le> unat Y" "unat Y \<le> 2099" "unat c < ylen (unat Y)"
    "unat n + jan1 (unat Y0) = jan1 (unat Y) + unat c"
  shows "year_loop Y0 n = (Y, c)"
  using assms
proof (induction Y0 n rule: year_loop.induct)
  case (1 Y0 n)
  show ?case
  proof (cases "Y0 = Y")
    case True
    with "1.prems" have n: "n = c" by (simp add: word_unat_eq_iff)
    with "1.prems" True have "\<not> n \<ge> is_leap_year_monthdays Y0 ! 12" by (simp add: word_le_nat_alt year_length_nat)
    with n True show ?thesis by (subst year_loop.simps) simp
  next
    case False
    then have lt: "unat Y0 < unat Y" using "1.prems"(2) by (simp add: word_unat_eq_iff)
    have s: "unat (Y0 + 1) = Suc (unat Y0)" using unat_add16 [of Y0 1] lt "1.prems"(3) by simp
    have mono: "jan1 i \<le> jan1 j" if "i \<le> j" for i j unfolding jan1_def using that by (intro add_mono mult_right_mono div_le_mono) auto
    have j: "jan1 (Suc (unat Y0)) = jan1 (unat Y0) + ylen (unat Y0)" using "1.prems"(1,3) lt by (intro jan1_Suc) auto
    with mono [of "Suc (unat Y0)" "unat Y"] lt "1.prems"(5) have ge: "ylen (unat Y0) \<le> unat n" by linarith
    then have c: "n \<ge> is_leap_year_monthdays Y0 ! 12" by (simp add: word_le_nat_alt year_length_nat)
    then have u: "unat (n - is_leap_year_monthdays Y0 ! 12) = unat n - ylen (unat Y0)" by (simp add: unat_sub year_length_nat)
    have "year_loop (Y0 + 1) (n - is_leap_year_monthdays Y0 ! 12) = (Y, c)"
    proof (rule "1.IH" [OF c])
      show "unat (n - is_leap_year_monthdays Y0 ! 12) + jan1 (unat (Y0 + 1)) = jan1 (unat Y) + unat c"
        unfolding s u j using "1.prems"(5) ge by simp
    qed (use "1.prems" s lt in linarith)+
    then show ?thesis using c by (subst year_loop.simps) simp
  qed
qed

subsection \<open>Months\<close>

lemma month_loop_run:
  assumes "k \<le> m" "m < 13" "\<And>i. k \<le> i \<Longrightarrow> i < m \<Longrightarrow> c \<ge> pd ! i" "\<not> c \<ge> pd ! m"
  shows "month_loop pd c k = m"
  using assms
proof (induction "m - k" arbitrary: k)
  case 0
  then show ?case by (simp add: month_loop.simps [of pd c k])
next
  case (Suc x)
  then have "month_loop pd c (Suc k) = m" by simp
  with Suc show ?case by (simp add: month_loop.simps [of pd c k])
qed

lemma table_mono:
  assumes "i \<le> j" "j \<le> 12"
  shows "unat (is_leap_year_monthdays y ! i) \<le> unat (is_leap_year_monthdays y ! j)"
proof -
  have "sorted days_common" "sorted days_leap" "length days_common = 13" "length days_leap = 13"
    by (simp_all add: days_common_def days_leap_def)
  then have "is_leap_year_monthdays y ! i \<le> is_leap_year_monthdays y ! j"
    using assms by (auto simp: is_leap_year_monthdays_def intro: sorted_nth_mono)
  then show ?thesis by (simp add: word_le_nat_alt)
qed


lemma table_0: "is_leap_year_monthdays y ! 0 = 0"
  by (simp add: is_leap_year_monthdays_def days_common_def days_leap_def)

lemma month_loop_table:
  assumes "1 \<le> m" "m \<le> 12" "unat (is_leap_year_monthdays y ! (m - 1)) \<le> unat c" "unat c < unat (is_leap_year_monthdays y ! m)"
  shows "month_loop (is_leap_year_monthdays y) c 1 = m"
proof (rule month_loop_run)
  fix i assume "1 \<le> i" "i < m"
  then have "i \<le> m - 1" "m - 1 \<le> 12" using assms by auto
  then show "c \<ge> is_leap_year_monthdays y ! i" using table_mono [of i "m - 1" y] assms(3) by (simp add: word_le_nat_alt)
qed (use assms in \<open>auto simp: word_le_nat_alt\<close>)

subsection \<open>Dates\<close>

lemma DaysFrom_nat:
  assumes "1980 \<le> unat y" "unat y \<le> 2099" "1 \<le> unat m" "unat m \<le> 12" "1 \<le> unat d"
    "unat d + unat (is_leap_year_monthdays y ! (unat m - 1)) \<le> unat (is_leap_year_monthdays y ! 12)"
  shows "unat (DaysFromYearMonthDay y m d) = jan1 (unat y) + (unat (is_leap_year_monthdays y ! (unat m - 1)) + unat d - 1)"
proof -
  let ?t = "is_leap_year_monthdays y ! (unat m - 1)"
  have ge: "\<not> y < 1980" "1 \<le> m" "1 \<le> d" "1980 \<le> y" using assms by (auto simp: word_less_nat_alt word_le_nat_alt)
  have u: "unat (m - 1) = unat m - 1" "unat (d - 1) = unat d - 1" "unat (y - 1980) = unat y - 1980"
    using unat_sub [OF ge(2)] unat_sub [OF ge(3)] unat_sub [OF ge(4)] by simp_all
  have y: "unat (is_leap_year_monthdays y ! 12) \<le> 366" by (simp add: year_length_nat ylen_def)
  have k: "unat y - 1980 \<le> 119" using assms by simp
  have a: "unat (d - 1 + ?t) = unat d - 1 + unat ?t" using u assms(5,6) y unat_add16 [of "d - 1" ?t] by simp
  have b: "unat ((y - 1980) * 365) = (unat y - 1980) * 365" by (simp only: unat_word_ariths u) (use k in simp)
  have e: "unat ((y - 1980 + 3) div 4) = (unat y - 1980 + 3) div 4"
    by (simp only: unat_div_distrib unat_word_ariths u) (use k in simp)
  have "unat (d - 1 + ?t + (y - 1980) * 365) = unat d - 1 + unat ?t + (unat y - 1980) * 365"
    using a b assms(5,6) y k unat_add16 [of "d - 1 + ?t" "(y - 1980) * 365"] by simp
  moreover have "(unat y - 1980 + 3) div 4 \<le> 30" using k by simp
  ultimately have "unat (d - 1 + ?t + (y - 1980) * 365) + unat ((y - 1980 + 3) div 4) < 65536"
    unfolding e using assms(5,6) y k by linarith
  note f = unat_add16 [OF this, unfolded e \<open>unat (d - 1 + ?t + (y - 1980) * 365) = _\<close>]
  have "DaysFromYearMonthDay y m d = d - 1 + ?t + (y - 1980) * 365 + (y - 1980 + 3) div 4"
    unfolding DaysFromYearMonthDay_def u(1) using ge(1) by (simp only: if_False)
  with f show ?thesis using assms(5) by (simp only: jan1_def) linarith
qed

lemma valid_dateD:
  assumes "valid_date dd"
  shows "1980 \<le> unat (d_year dd)" "unat (d_year dd) \<le> 2099" "1 \<le> unat (d_month dd)" "unat (d_month dd) \<le> 12"
    "1 \<le> unat (d_monthday dd)"
    "unat (d_monthday dd) + unat (is_leap_year_monthdays (d_year dd) ! (unat (d_month dd) - 1))
       \<le> unat (is_leap_year_monthdays (d_year dd) ! unat (d_month dd))"
proof -
  let ?p = "is_leap_year_monthdays (d_year dd)" and ?m = "unat (d_month dd)"
  show v: "1980 \<le> unat (d_year dd)" "unat (d_year dd) \<le> 2099" "1 \<le> ?m" "?m \<le> 12" "1 \<le> unat (d_monthday dd)"
    using assms by (auto simp: valid_date_def Let_def word_less_nat_alt)
  have "?p ! (?m - 1) \<le> ?p ! ?m" using table_mono [of "?m - 1" ?m] v by (simp add: word_le_nat_alt)
  then have "unat (?p ! ?m - ?p ! (?m - 1)) = unat (?p ! ?m) - unat (?p ! (?m - 1))" by (rule unat_sub)
  moreover have "unat (ucast (d_monthday dd) :: u16) = unat (d_monthday dd)" by (rule unat_ucast8_16)
  moreover have "\<not> ucast (d_monthday dd) > ?p ! ?m - ?p ! (?m - 1)" using assms by (auto simp: valid_date_def Let_def)
  ultimately show "unat (d_monthday dd) + unat (?p ! (?m - 1)) \<le> unat (?p ! ?m)" using v(5)
    by (simp add: word_less_nat_alt)
qed

lemma date_inverse:
  assumes "valid_date dd"
  shows "date_of_days (DaysFromYearMonthDay (d_year dd) (ucast (d_month dd)) (ucast (d_monthday dd))) = dd"
proof -
  let ?y = "d_year dd" and ?m = "unat (d_month dd)" and ?d = "d_monthday dd"
  let ?p = "is_leap_year_monthdays ?y"
  note v = valid_dateD [OF assms]
  have le12: "unat (?p ! ?m) \<le> unat (?p ! 12)" using v by (intro table_mono) auto
  define c :: u16 where "c = of_nat (unat (?p ! (?m - 1)) + unat ?d - 1)"
  have c: "unat c = unat (?p ! (?m - 1)) + unat ?d - 1" unfolding c_def
    using v(6) le12 by (intro unat_of_nat16) (simp add: year_length_nat ylen_def split: if_splits)
  have n: "unat (DaysFromYearMonthDay ?y (ucast (d_month dd)) (ucast ?d)) = jan1 (unat ?y) + unat c"
    using DaysFrom_nat [of ?y "ucast (d_month dd)" "ucast ?d"] v le12 c by (simp add: unat_ucast8_16)
  have yl: "year_loop 1980 (DaysFromYearMonthDay ?y (ucast (d_month dd)) (ucast ?d)) = (?y, c)"
    using n v c le12 by (intro year_loop_run) (auto simp: year_length_nat jan1_def [of 1980])
  have ml: "month_loop ?p c 1 = ?m" using v c by (intro month_loop_table) auto
  have "c - ?p ! (?m - 1) + 1 = ucast ?d"
  proof (rule word16_eqI)
    have "?p ! (?m - 1) \<le> c" using c v by (simp add: word_le_nat_alt)
    then have "unat (c - ?p ! (?m - 1)) = unat ?d - 1" using c v by (simp add: unat_sub)
    then show "unat (c - ?p ! (?m - 1) + 1) = unat (ucast ?d :: u16)"
      using v unsigned_less [of ?d, where ?'a = nat] by (simp add: unat_ucast8_16 unat_add16)
  qed
  moreover have "ucast (ucast ?d :: u16) = ?d" by (simp add: ucast_up_ucast_id is_up)
  ultimately show ?thesis using yl ml by (simp add: date_of_days_def Let_def)
qed

lemma year_exists:
  assumes "n < jan1 2100"
  shows "\<exists>Y. 1980 \<le> Y \<and> Y \<le> 2099 \<and> jan1 Y \<le> n \<and> n < jan1 Y + ylen Y"
proof -
  define Y where "Y = (GREATEST Y. Y \<le> 2099 \<and> jan1 Y \<le> n \<and> 1980 \<le> Y)"
  have "\<exists>Y. Y \<le> 2099 \<and> jan1 Y \<le> n \<and> 1980 \<le> Y" by (rule exI [of _ 1980]) (simp add: jan1_def)
  then have Y: "Y \<le> 2099 \<and> jan1 Y \<le> n \<and> 1980 \<le> Y" unfolding Y_def by (rule GreatestI_ex_nat [where b = 2099]) simp
  have "n < jan1 (Suc Y)"
  proof (rule ccontr)
    assume a: "\<not> n < jan1 (Suc Y)"
    show False
    proof (cases "Y = 2099")
      case True
      with a assms show False by simp
    next
      case False
      then have "Suc Y \<le> Y" unfolding Y_def using a Y by (intro Greatest_le_nat [where b = 2099]) (auto simp: Y_def)
      then show False by simp
    qed
  qed
  with Y jan1_Suc [of Y] show ?thesis by auto
qed

lemma month_exists:
  assumes "unat c < unat (is_leap_year_monthdays y ! 12)"
  shows "\<exists>m. 1 \<le> m \<and> m \<le> 12 \<and> unat (is_leap_year_monthdays y ! (m - 1)) \<le> unat c \<and> unat c < unat (is_leap_year_monthdays y ! m)"
proof -
  let ?P = "\<lambda>m. unat c < unat (is_leap_year_monthdays y ! m)"
  define m where "m = (LEAST m. ?P m)"
  have p: "?P m" and le: "m \<le> 12" unfolding m_def using assms by (rule LeastI, rule Least_le)
  have "m \<noteq> 0" using p table_0 [of y] by (intro notI) simp
  moreover have "\<not> ?P (m - 1)" unfolding m_def using \<open>m \<noteq> 0\<close> by (intro not_less_Least) (simp add: m_def)
  ultimately show ?thesis using p le by (intro exI [of _ m]) auto
qed

lemma month_gap:
  "list_all (\<lambda>m. unat (days_common ! m) - unat (days_common ! (m - 1)) \<le> 31) [1..<13]"
  "list_all (\<lambda>m. unat (days_leap ! m) - unat (days_leap ! (m - 1)) \<le> 31) [1..<13]"
  by code_simp+

lemma days_inverse:
  assumes "unat n < jan1 2100"
  shows "valid_date (date_of_days n)"
    "DaysFromYearMonthDay (d_year (date_of_days n)) (ucast (d_month (date_of_days n))) (ucast (d_monthday (date_of_days n))) = n"
proof -
  obtain Y where Y: "1980 \<le> Y" "Y \<le> 2099" "jan1 Y \<le> unat n" "unat n < jan1 Y + ylen Y" using year_exists [OF assms] by blast
  define y :: u16 where "y = of_nat Y"
  have y: "unat y = Y" using Y by (simp add: y_def unat_of_nat16)
  define c :: u16 where "c = of_nat (unat n - jan1 Y)"
  have c: "unat c = unat n - jan1 Y" unfolding c_def
    by (rule unat_of_nat16) (rule le_less_trans [OF diff_le_self unat_lt16])
  have lt: "unat c < unat (is_leap_year_monthdays y ! 12)" using Y c y by (simp add: year_length_nat)
  obtain m where m: "1 \<le> m" "m \<le> 12" "unat (is_leap_year_monthdays y ! (m - 1)) \<le> unat c"
    "unat c < unat (is_leap_year_monthdays y ! m)" using month_exists [OF lt] by blast
  let ?p = "is_leap_year_monthdays y"
  have yl: "year_loop 1980 n = (y, c)" using Y y c lt by (intro year_loop_run) (auto simp: year_length_nat jan1_def [of 1980])
  have ml: "month_loop ?p c 1 = m" using m by (intro month_loop_table) auto
  have gap: "unat (?p ! m) - unat (?p ! (m - 1)) \<le> 31" using month_gap m(1,2) by (auto simp: list_all_iff monthdays_nat)
  let ?d = "unat c - unat (?p ! (m - 1)) + 1"
  have u: "unat (c - ?p ! (m - 1) + 1) = ?d"
  proof -
    have "unat (c - ?p ! (m - 1)) = unat c - unat (?p ! (m - 1))" using m(3) by (simp add: unat_sub word_le_nat_alt)
    then show ?thesis using gap m(3,4) unat_add16 [of "c - ?p ! (m - 1)" 1] by simp
  qed
  then have ub: "unat (ucast (c - ?p ! (m - 1) + 1) :: u8) = ?d" using gap m(3,4) by (subst unat_ucast_le) auto
  have um: "unat (of_nat m :: u8) = m" using m(2) by (simp add: unat_of_nat)
  have dd: "date_of_days n = \<lparr>d_year = y, d_monthday = ucast (c - ?p ! (m - 1) + 1), d_month = of_nat m\<rparr>"
    unfolding date_of_days_def yl prod.case Let_def ml ..
  have pm: "unat (?p ! m - ?p ! (m - 1)) = unat (?p ! m) - unat (?p ! (m - 1))"
    using table_mono [of "m - 1" m y] m(2) by (intro unat_sub) (simp add: word_le_nat_alt)
  have le_d: "\<not> unat (?p ! m) - unat (?p ! (m - 1)) < ?d" using m(3,4) by linarith
  show "valid_date (date_of_days n)"
    using Y m y um ub pm le_d unfolding dd valid_date_def Let_def by (simp add: word_less_nat_alt)
  have le12: "unat (?p ! m) \<le> unat (?p ! 12)" using m by (intro table_mono) auto
  have "unat (DaysFromYearMonthDay y (ucast (of_nat m :: u8)) (ucast (ucast (c - ?p ! (m - 1) + 1) :: u8))) = unat n"
    using Y y m um ub c le12 by (subst DaysFrom_nat) auto
  then show "DaysFromYearMonthDay (d_year (date_of_days n)) (ucast (d_month (date_of_days n))) (ucast (d_monthday (date_of_days n))) = n"
    unfolding dd by (simp add: word_unat_eq_iff)
qed

subsection \<open>Times\<close>

lemma scale: "x div b * c * b + x mod b * c = x * (c :: nat)"
proof -
  have "x * c = (x div b * b + x mod b) * c" by (simp only: div_mult_mod_eq)
  also have "\<dots> = x div b * c * b + x mod b * c" by (simp only: add_mult_distrib mult.assoc mult.commute [of b c])
  finally show ?thesis by simp
qed

lemma hs_to_ticks_nat:
  assumes "unat hs < 8640000"
  shows "unat (hs_to_ticks hs) = unat hs * 59659 div 327680"
proof -
  have m: "hs AND 0xffff = take_bit 16 hs" by (simp add: take_bit_eq_mask mask_eq_exp_minus_1)
  have a: "unat (drop_bit 16 hs) = unat hs div 65536" by (simp add: drop_bit_eq_div unat_div_distrib)
  have b: "unat (hs AND 0xffff) = unat hs mod 65536" unfolding m by (simp add: take_bit_eq_mod unat_mod_distrib)
  have bm: "unat ((hs AND 0xffff) * 59659) = unat hs mod 65536 * 59659"
    unfolding unat_word_ariths b using mod_less_divisor [of 65536 "unat hs"] by (simp add: mod_less)
  have am: "unat (drop_bit 16 hs * 59659) = unat hs div 65536 * 59659"
    unfolding unat_word_ariths a using assms by (simp add: mod_less less_mult_imp_div_less)
  have c: "unat (drop_bit 16 ((hs AND 0xffff) * 59659)) = unat hs mod 65536 * 59659 div 65536"
    by (simp add: drop_bit_eq_div unat_div_distrib bm)
  let ?q = "unat hs div 65536" and ?r = "unat hs mod 65536"
  have "unat (drop_bit 16 hs * 59659 + drop_bit 16 ((hs AND 0xffff) * 59659)) = ?q * 59659 + ?r * 59659 div 65536"
    unfolding unat_word_ariths(1) am c using assms by (simp add: mod_less)
  also have "\<dots> = (?q * 59659 * 65536 + ?r * 59659) div 65536" by simp
  also have "?q * 59659 * 65536 + ?r * 59659 = unat hs * 59659" by (rule scale)
  finally have "unat (drop_bit 16 hs * 59659 + drop_bit 16 ((hs AND 0xffff) * 59659)) = unat hs * 59659 div 65536" .
  then show ?thesis by (simp add: hs_to_ticks_def unat_div_distrib div_mult2_eq [symmetric])
qed

lemma ticks_to_hs_nat:
  assumes "unat t < 1600000"
  shows "unat (ticks_to_hs t) = unat t * 327680 div 59659"
proof -
  have f: "unat (5 * t) = 5 * unat t" unfolding unat_word_ariths using assms by simp
  have p: "push_bit 16 x = x * 65536" for x :: u32 by (simp add: push_bit_eq_mult)
  let ?q = "5 * unat t div 59659" and ?r = "5 * unat t mod 59659"
  have q: "unat (push_bit 16 (5 * t div 59659)) = ?q * 65536"
    unfolding p unat_word_ariths using assms by (simp add: unat_div_distrib f mod_less)
  have r: "unat (push_bit 16 (5 * t mod 59659)) = ?r * 65536"
    unfolding p unat_word_ariths(2) using mod_less_divisor [of 59659 "5 * unat t"] by (simp add: unat_mod_distrib f mod_less)
  have "unat (ticks_to_hs t) = ?q * 65536 + ?r * 65536 div 59659"
    unfolding ticks_to_hs_def Let_def unat_word_ariths(1) unat_div_distrib q r using assms by (simp add: mod_less)
  also have "\<dots> = (?q * 65536 * 59659 + ?r * 65536) div 59659" by simp
  also have "?q * 65536 * 59659 + ?r * 65536 = 5 * unat t * 65536" by (rule scale)
  finally show ?thesis by simp
qed

lemma tick_bound:
  fixes n :: nat
  defines "m \<equiv> n * 59659 div 327680 * 327680 div 59659"
  shows "m \<le> n" "n \<le> m + 6"
proof -
  have a: "n * 59659 div 327680 * 327680 \<le> n * 59659" by simp
  then have "m \<le> n * 59659 div 59659" unfolding m_def by (rule div_le_mono)
  then show "m \<le> n" by simp
  have "n * 59659 < n * 59659 div 327680 * 327680 + 327680"
    using dividend_less_div_times [of 327680 "n * 59659"] by simp
  moreover have "n * 59659 div 327680 * 327680 < m * 59659 + 59659"
    unfolding m_def using dividend_less_div_times [of 59659 "n * 59659 div 327680 * 327680"] by simp
  ultimately have "n * 59659 < (m + 7) * 59659" by simp
  then show "n \<le> m + 6" by simp
qed

text \<open>A time as hundredths of a second since midnight.\<close>

definition valid_time :: "dostime \<Rightarrow> bool" where
  "valid_time dt \<longleftrightarrow> unat (t_hour dt) \<le> 23 \<and> unat (t_minute dt) \<le> 59 \<and> unat (t_second dt) \<le> 59 \<and> unat (t_hundredth dt) \<le> 99"

definition hundredths :: "dostime \<Rightarrow> nat" where
  "hundredths dt = 6000 * (60 * unat (t_hour dt) + unat (t_minute dt)) + (100 * unat (t_second dt) + unat (t_hundredth dt))"

lemma hs_word:
  assumes "valid_time dt"
  shows "unat (6000 * ucast (60 * ucast (t_hour dt) + ucast (t_minute dt) :: u16)
    + ucast (100 * ucast (t_second dt) + ucast (t_hundredth dt) :: u16) :: u32) = hundredths dt" "hundredths dt < 8640000"
proof -
  have w: "unat (ucast x :: u32) = unat x" for x :: u16 by (rule unat_ucast_le) (rule less_trans [OF unat_lt16], simp)
  have a: "unat (60 * ucast (t_hour dt) + ucast (t_minute dt) :: u16) = 60 * unat (t_hour dt) + unat (t_minute dt)"
    "unat (100 * ucast (t_second dt) + ucast (t_hundredth dt) :: u16) = 100 * unat (t_second dt) + unat (t_hundredth dt)"
    using assms by (simp_all add: unat_word_ariths valid_time_def mod_less)
  have g: "unat (6000 * x + y) = (6000 * unat x + unat y) mod 4294967296" for x y :: u32
    by (simp add: unat_word_ariths mod_simps)
  show lt: "hundredths dt < 8640000" using assms by (simp add: valid_time_def hundredths_def)
  show "unat (6000 * ucast (60 * ucast (t_hour dt) + ucast (t_minute dt) :: u16)
    + ucast (100 * ucast (t_second dt) + ucast (t_hundredth dt) :: u16) :: u32) = hundredths dt"
    unfolding g w a using lt by (simp add: hundredths_def mod_less)
qed

lemma small_div:
  fixes h :: u32
  assumes "unat h < 8640000"
  shows "sint (ucast (h div 6000) :: u16) = int (unat h div 6000)" "sint (ucast (h mod 6000) :: u16) = int (unat h mod 6000)"
proof -
  have s: "sint (ucast w :: u16) = int (unat w)" if "unat w < 32768" for w :: u32
  proof -
    have u: "unat (ucast w :: u16) = unat w" using that by (intro unat_ucast_le) simp
    have "sint (ucast w :: u16) = signed_take_bit 15 (int (unat (ucast w :: u16)))"
      by (simp only: sint_uint uint_nat [symmetric] of_nat_unat) simp
    also have "\<dots> = int (unat w)" unfolding u
      using that of_nat_less_iff [of "unat w" 32768, where ?'a = int]
      by (intro signed_take_bit_int_eq_self) (auto intro: order_trans [OF _ uint_ge_0])
    finally show ?thesis .
  qed
  have "unat (h div 6000) = unat h div 6000" "unat (h mod 6000) = unat h mod 6000"
    by (simp_all add: unat_div_distrib unat_mod_distrib)
  moreover have "unat h div 6000 < 32768" "unat h mod 6000 < 32768"
    using assms mod_less_divisor [of 6000 "unat h"] by (auto intro: order.strict_trans)
  ultimately show "sint (ucast (h div 6000) :: u16) = int (unat h div 6000)" "sint (ucast (h mod 6000) :: u16) = int (unat h mod 6000)"
    by (simp_all add: s)
qed

subsection \<open>The driver\<close>

lemma exec_input: "ExecuteClockDriverRequest (clock_dev b err) K_INPUT s =
    Some (case clk_input b (cdev s) of (clk, c) \<Rightarrow> \<lparr>ClkRecord = clk, ClkReq_status = ST_DONE, cdev = c\<rparr>)"
proof (cases "clk_input b (cdev s)")
  case (Pair clk c)
  have "BinaryCharIO (clock_dev b err) 6 K_INPUT (ClkRecord s) (cdev s) = Some (6, ST_DONE, clk, c)"
    unfolding BinaryCharIO_def
    by (rule loopM_Inl) (simp add: CharRequest_def clock_dev_def clk_driver_def Pair clk_consts SUCCESS_def)
  then show ?thesis by (simp add: ExecuteClockDriverRequest_def Pair)
qed

lemma exec_output: "ExecuteClockDriverRequest (clock_dev b err) K_OUTPUT s =
    Some \<lparr>ClkRecord = ClkRecord s, ClkReq_status = ST_DONE, cdev = clk_output b (ClkRecord s) (cdev s)\<rparr>"
proof -
  have "BinaryCharIO (clock_dev b err) 6 K_OUTPUT (ClkRecord s) (cdev s)
      = Some (6, ST_DONE, ClkRecord s, clk_output b (ClkRecord s) (cdev s))"
    unfolding BinaryCharIO_def
    by (rule loopM_Inl) (simp add: CharRequest_def clock_dev_def clk_driver_def clk_consts SUCCESS_def)
  then show ?thesis by (simp add: ExecuteClockDriverRequest_def)
qed

lemma st_done: "ST_DONE AND ST_ERROR = 0"
  by (simp add: clk_consts)

text \<open>What the BIOS clock promises: a tick count that has just been set is the one that is read.\<close>

definition keeps_ticks :: "'h bios \<Rightarrow> bool" where
  "keeps_ticks b \<longleftrightarrow> (\<forall>t h x y z w. \<exists>h'. pc_read b (at_write b x y z w (pc_write b t h)) = (0, t, h'))"

lemma output_input:
  assumes "keeps_ticks b"
  shows "\<exists>h. ReadPCClock b (clk_output b clk c) = (hs_to_ticks (6000 *
      ucast (60 * ucast (clkHours clk) + ucast (clkMinutes clk) :: u16)
      + ucast (100 * ucast (clkSeconds clk) + ucast (clkHundredths clk) :: u16)), \<lparr>DaysSinceEpoch = clkDays clk, hw = h\<rparr>)"
proof (cases "year_loop 1980 (clkDays clk)")
  case (Pair y d)
  let ?t = "hs_to_ticks (6000 * ucast (60 * ucast (clkHours clk) + ucast (clkMinutes clk) :: u16)
      + ucast (100 * ucast (clkSeconds clk) + ucast (clkHundredths clk) :: u16))"
  obtain X Y Z W where o: "clk_output b clk c = \<lparr>DaysSinceEpoch = clkDays clk, hw = at_write b X Y Z W (pc_write b ?t (hw c))\<rparr>"
    unfolding clk_output_def Let_def Pair prod.case by blast
  obtain h where "pc_read b (at_write b X Y Z W (pc_write b ?t (hw c))) = (0, ?t, h)" using assms unfolding keeps_ticks_def by blast
  then show ?thesis unfolding o ReadPCClock_def by simp
qed

lemma split_time:
  fixes n :: nat
  assumes "n < 8640000"
  defines "dt \<equiv> \<lparr>t_minute = word_of_int (int (n div 6000) smod 60), t_hour = word_of_int (int (n div 6000) sdiv 60),
    t_hundredth = word_of_int (int (n mod 6000) smod 100), t_second = word_of_int (int (n mod 6000) sdiv 100)\<rparr>"
  shows "valid_time dt" "hundredths dt = n"
proof -
  have d: "int i sdiv numeral k = int (i div numeral k)" "int i smod numeral k = int (i mod numeral k)" for i k
    by (simp_all add: signed_divide_int_def signed_modulo_int_def sgn_if zdiv_int zmod_int minus_div_mult_eq_mod)
  have u: "unat (word_of_int (int i) :: u8) = i" if "i < 256" for i using that by (simp add: unat_of_nat)
  have b: "n div 6000 div 60 \<le> 23" "n div 6000 mod 60 \<le> 59" "n mod 6000 div 100 \<le> 59" "n mod 6000 mod 100 \<le> 99"
    using assms(1) mod_less_divisor [of 6000 n] mod_less_divisor [of 60 "n div 6000"] mod_less_divisor [of 100 "n mod 6000"]
    by (simp_all add: less_Suc_eq_le [symmetric] less_mult_imp_div_less)
  then have f: "unat (t_hour dt) = n div 6000 div 60" "unat (t_minute dt) = n div 6000 mod 60"
    "unat (t_second dt) = n mod 6000 div 100" "unat (t_hundredth dt) = n mod 6000 mod 100"
    unfolding dt_def by (simp_all add: d u del: of_int_of_nat_eq)
  show "valid_time dt" unfolding valid_time_def f using b by simp
  show "hundredths dt = n" unfolding hundredths_def f by (simp add: mult.commute [of 60] mult.commute [of 100])
qed

subsection \<open>Properties\<close>

text \<open>
  C32. A date that \<^verbatim>\<open>DosSetDate\<close> accepts is stored and is the date \<^verbatim>\<open>DosGetDate\<close> then returns, for every
  date from 1980 to 2099: the conversion to a day number, the clock driver and the conversion back
  compose to the identity. The clock of the BIOS is only assumed to keep a tick count just set.
\<close>

theorem set_date_read_back:
  assumes "keeps_ticks b" "valid_date dd"
  shows "\<exists>s1 wd s2. DosSetDate (clock_dev b err) dd s = Some (SUCCESS, s1)
    \<and> DosGetDate (clock_dev b err) dd0 s1 = Some (wd, dd, s2) \<and> unat wd < 7"
proof -
  obtain clk c where i: "clk_input b (cdev s) = (clk, c)" by fastforce
  define clk' where "clk' = clk\<lparr>clkDays := DaysFromYearMonthDay (d_year dd) (ucast (d_month dd)) (ucast (d_monthday dd))\<rparr>"
  obtain t h where r: "ReadPCClock b (clk_output b clk' c) = (t, \<lparr>DaysSinceEpoch = clkDays clk', hw = h\<rparr>)"
    using output_input [OF assms(1), of clk' c] by metis
  have s: "DosSetDate (clock_dev b err) dd s = Some (SUCCESS, \<lparr>ClkRecord = clk', ClkReq_status = ST_DONE, cdev = clk_output b clk' c\<rparr>)"
    using assms(2) by (simp add: DosSetDate_def exec_input exec_output i clock_result_def st_done clk'_def)
  obtain q where q: "clk_input b (clk_output b clk' c) = (q, \<lparr>DaysSinceEpoch = clkDays clk', hw = h\<rparr>)" "clkDays q = clkDays clk'"
    by (simp add: clk_input_def r Let_def)
  have "date_of_days (clkDays clk') = dd" using date_inverse [OF assms(2)] by (simp add: clk'_def)
  moreover have "unat (ucast ((clkDays clk' + 2) mod 7) :: u8) < 7"
  proof -
    have "unat ((clkDays clk' + 2) mod 7) < 7" by (simp add: unat_mod_distrib)
    then show ?thesis by (subst unat_ucast_le) auto
  qed
  ultimately show ?thesis unfolding s by (simp add: DosGetDate_def exec_input q st_done)
qed

text \<open>
  C33. A time that \<^verbatim>\<open>DosSetTime\<close> accepts is stored, and \<^verbatim>\<open>DosGetTime\<close> returns a valid time that is never
  later and at most six hundredths of a second, one tick of the PC clock, earlier.
\<close>

theorem set_time_read_back:
  assumes "keeps_ticks b" "valid_time dt"
  shows "\<exists>s1 dt' s2. DosSetTime (clock_dev b err) dt s = Some (SUCCESS, s1)
    \<and> DosGetTime (clock_dev b err) dt0 s1 = Some (dt', s2) \<and> valid_time dt'
    \<and> hundredths dt' \<le> hundredths dt \<and> hundredths dt \<le> hundredths dt' + 6"
proof -
  obtain clk c where i: "clk_input b (cdev s) = (clk, c)" by fastforce
  define clk' where "clk' = clk\<lparr>clkHours := t_hour dt, clkMinutes := t_minute dt, clkSeconds := t_second dt, clkHundredths := t_hundredth dt\<rparr>"
  define hs :: u32 where "hs = 6000 * ucast (60 * ucast (t_hour dt) + ucast (t_minute dt) :: u16)
      + ucast (100 * ucast (t_second dt) + ucast (t_hundredth dt) :: u16)"
  obtain h where r: "ReadPCClock b (clk_output b clk' c) = (hs_to_ticks hs, \<lparr>DaysSinceEpoch = clkDays clk', hw = h\<rparr>)"
    using output_input [OF assms(1), of clk' c] unfolding hs_def by (auto simp: clk'_def)
  have v: "\<not> (t_hour dt > 23 \<or> t_minute dt > 59 \<or> t_second dt > 59 \<or> t_hundredth dt > 99)"
    using assms(2) by (auto simp: valid_time_def word_less_nat_alt)
  have s: "DosSetTime (clock_dev b err) dt s = Some (SUCCESS, \<lparr>ClkRecord = clk', ClkReq_status = ST_DONE, cdev = clk_output b clk' c\<rparr>)"
    unfolding DosSetTime_def using v by (simp add: exec_input exec_output i clock_result_def st_done clk'_def)
  have hs: "unat hs = hundredths dt" "unat hs < 8640000" using hs_word [OF assms(2)] by (simp_all add: hs_def)
  define n where "n = ticks_to_hs (hs_to_ticks hs)"
  have t: "unat (hs_to_ticks hs) = unat hs * 59659 div 327680" by (rule hs_to_ticks_nat [OF hs(2)])
  have n: "unat n = unat hs * 59659 div 327680 * 327680 div 59659"
    unfolding n_def using ticks_to_hs_nat [of "hs_to_ticks hs"] hs(2) t by (simp add: t)
  note tb = tick_bound [of "unat hs"]
  have lt: "unat n < 8640000" using n tb(1) hs(2) by simp
  note sd = small_div [OF lt]
  define dt' where "dt' = \<lparr>t_minute = word_of_int (int (unat n div 6000) smod 60), t_hour = word_of_int (int (unat n div 6000) sdiv 60),
    t_hundredth = word_of_int (int (unat n mod 6000) smod 100), t_second = word_of_int (int (unat n mod 6000) sdiv 100)\<rparr>"
  have "DosGetTime (clock_dev b err) dt0 \<lparr>ClkRecord = clk', ClkReq_status = ST_DONE, cdev = clk_output b clk' c\<rparr>
      = Some (dt', \<lparr>ClkRecord = fst (clk_input b (clk_output b clk' c)), ClkReq_status = ST_DONE, cdev = \<lparr>DaysSinceEpoch = clkDays clk', hw = h\<rparr>\<rparr>)"
    by (simp add: DosGetTime_def exec_input clk_input_def r Let_def st_done n_def [symmetric] sd dt'_def)
  moreover note split_time [OF lt, folded dt'_def]
  ultimately show ?thesis unfolding s using hs(1) n tb by simp
qed

text \<open>
  Day numbers and dates correspond: every day number below 43830 (the first of January 2100) is
  converted to a date that \<^verbatim>\<open>DosSetDate\<close> accepts, and that date is converted back to the day number.
\<close>

lemma days_date_round_trip:
  assumes "unat n < 43830"
  shows "valid_date (date_of_days n) \<and> DaysFromYearMonthDay (d_year (date_of_days n))
    (ucast (d_month (date_of_days n))) (ucast (d_monthday (date_of_days n))) = n"
proof -
  have "unat n < jan1 2100" using assms by (simp add: jan1_def)
  then show ?thesis using days_inverse by blast
qed

text \<open>The Gregorian rule.\<close>

definition gregorian_leap :: "nat \<Rightarrow> bool" where
  "gregorian_leap y \<longleftrightarrow> 4 dvd y \<and> (100 dvd y \<longrightarrow> 400 dvd y)"

text \<open>
  The shortcut of \<^verbatim>\<open>is_leap_year_monthdays\<close> selects the table of the Gregorian calendar for every
  year up to 2199, as its comment says.
\<close>

lemma leap_year_gregorian:
  assumes "1980 \<le> unat y" "unat y < 2200"
  shows "is_leap_year_monthdays y = (if gregorian_leap (unat y) then days_leap else days_common)"
proof -
  have "(unat y mod 4 \<noteq> 0 \<or> unat y = 2100) = (\<not> gregorian_leap (unat y))"
  proof (cases "100 dvd unat y")
    case True
    then obtain k where k: "unat y = 100 * k" by (elim dvdE)
    with assms have "k = 20 \<or> k = 21" by auto
    with k show ?thesis by (auto simp: gregorian_leap_def)
  next
    case False
    then have "unat y \<noteq> 2100" by auto
    with False show ?thesis by (simp add: gregorian_leap_def dvd_eq_mod_eq_0)
  qed
  then show ?thesis by (simp add: monthdays_nat)
qed

subsection \<open>Witnesses\<close>

definition demo_bios :: "u32 bios" where
  "demo_bios = \<lparr>pc_read = (\<lambda>h. (0, h, h)), pc_write = (\<lambda>t h. t), at_write = (\<lambda>d h m s x. x)\<rparr>"

definition demo_clock :: "u32 sysclk clockst" where
  "demo_clock = \<lparr>ClkRecord = \<lparr>clkDays = 0, clkMinutes = 0, clkHours = 0, clkHundredths = 0, clkSeconds = 0\<rparr>,
     ClkReq_status = 0, cdev = \<lparr>DaysSinceEpoch = 7, hw = 1000\<rparr>\<rparr>"

lemma demo_bios_ticks: "keeps_ticks demo_bios"
  by (simp add: keeps_ticks_def demo_bios_def)

theorem set_date_read_back_witness:
  "\<exists>s1 wd s2. DosSetDate (clock_dev demo_bios (\<lambda>st c. (3, c))) \<lparr>d_year = 2004, d_monthday = 29, d_month = 2\<rparr> demo_clock = Some (SUCCESS, s1)
    \<and> DosGetDate (clock_dev demo_bios (\<lambda>st c. (3, c))) \<lparr>d_year = 1980, d_monthday = 1, d_month = 1\<rparr> s1
      = Some (wd, \<lparr>d_year = 2004, d_monthday = 29, d_month = 2\<rparr>, s2) \<and> unat wd < 7"
  by (rule set_date_read_back [OF demo_bios_ticks])
    (simp add: valid_date_def Let_def is_leap_year_monthdays_def days_leap_def)

theorem set_time_read_back_witness:
  "\<exists>s1 dt' s2. DosSetTime (clock_dev demo_bios (\<lambda>st c. (3, c))) \<lparr>t_minute = 59, t_hour = 23, t_hundredth = 99, t_second = 59\<rparr> demo_clock
      = Some (SUCCESS, s1)
    \<and> DosGetTime (clock_dev demo_bios (\<lambda>st c. (3, c))) \<lparr>t_minute = 0, t_hour = 0, t_hundredth = 0, t_second = 0\<rparr> s1 = Some (dt', s2)
    \<and> valid_time dt'
    \<and> hundredths dt' \<le> hundredths \<lparr>t_minute = 59, t_hour = 23, t_hundredth = 99, t_second = 59\<rparr>
    \<and> hundredths \<lparr>t_minute = 59, t_hour = 23, t_hundredth = 99, t_second = 59\<rparr> \<le> hundredths dt' + 6"
  by (rule set_time_read_back [OF demo_bios_ticks]) (simp add: valid_time_def)

end
