(* ===== verification/BlockIO.thy ===== *)
theory BlockIO
  imports Prelude
begin

text \<open>
  The block cache and the calls of the block device drivers, \<^verbatim>\<open>kernel/blockio.c\<close> with
  \<^verbatim>\<open>hdr/buffer.h\<close>, \<^verbatim>\<open>hdr/dcb.h\<close> and the request header of \<^verbatim>\<open>hdr/device.h\<close>. All buffers lie in
  one segment, so a pointer to a buffer is its offset, and the cache is a heap of buffers linked
  into a ring by \<^verbatim>\<open>b_next\<close> and \<^verbatim>\<open>b_prev\<close>. Drive parameter blocks are a heap of their own. The device
  drivers (\<^verbatim>\<open>execrh\<close>) and the critical error dialogue (\<^verbatim>\<open>block_error\<close>) are parameters, functions on
  a device state of any type. A result \<^term>\<open>None\<close> means that the call does not return (a driver error
  that is retried for ever); a \<^verbatim>\<open>NULL\<close> pointer is the \<^term>\<open>None\<close> inside a result.
\<close>

subsection \<open>Data\<close>

record buffer =
  b_next :: u16
  b_prev :: u16
  b_unit :: u8
  b_flag :: u8
  b_blkno :: u32
  b_copies :: u8
  b_offset :: u16
  b_dpbp :: u16
  b_buffer :: "u8 list"

definition BFR_DIRTY :: u8 where "BFR_DIRTY = 0x40"
definition BFR_VALID :: u8 where "BFR_VALID = 0x20"
definition BFR_DATA :: u8 where "BFR_DATA = 0x08"
definition BFR_DIR :: u8 where "BFR_DIR = 0x04"
definition BFR_FAT :: u8 where "BFR_FAT = 0x02"
definition BFR_UNCACHE :: u8 where "BFR_UNCACHE = 0x01"

named_theorems bfr \<open>the flag bits of hdr/buffer.h\<close>

declare BFR_DIRTY_def [bfr] BFR_VALID_def [bfr] BFR_DATA_def [bfr] BFR_DIR_def [bfr]
  BFR_FAT_def [bfr] BFR_UNCACHE_def [bfr]

text \<open>
  The drive parameter block. \<^verbatim>\<open>dpb_nfreeclst\<close> is the low word of the union with
  \<^verbatim>\<open>dpb_xnfreeclst\<close>, see \<open>dpb_nfreeclst\<close> below; \<^verbatim>\<open>dpb_next\<close> is not used by the modelled code.
\<close>

record dpb =
  dpb_unit :: u8
  dpb_subunit :: u8
  dpb_secsize :: u16
  dpb_clsmask :: u8
  dpb_shftcnt :: u8
  dpb_fatstrt :: u16
  dpb_fats :: u8
  dpb_dirents :: u16
  dpb_data :: u16
  dpb_size :: u16
  dpb_fatsize :: u16
  dpb_dirstrt :: u16
  dpb_device :: u16
  dpb_mdb :: u8
  dpb_flags :: u8
  dpb_cluster :: u16
  dpb_xnfreeclst :: u32
  dpb_xflags :: u16
  dpb_xfsinfosec :: u16
  dpb_xbackupsec :: u16
  dpb_xdata :: u32
  dpb_xsize :: u32
  dpb_xfatsize :: u32
  dpb_xrootclst :: u32
  dpb_xcluster :: u32

definition dpb_nfreeclst :: "dpb \<Rightarrow> u16" where
  "dpb_nfreeclst d = ucast (dpb_xnfreeclst d)"

definition set_nfreeclst :: "u16 \<Rightarrow> dpb \<Rightarrow> dpb" where
  "set_nfreeclst n d = d\<lparr>dpb_xnfreeclst := (dpb_xnfreeclst d AND 0xFFFF0000) OR ucast n\<rparr>"

text \<open>The request header passed to a driver.\<close>

record request =
  r_unit :: u8
  r_command :: u8
  r_meddesc :: u8
  r_count :: u16
  r_start :: u16
  r_huge :: u32

text \<open>
  A driver executes a request on a transfer area and returns the status word, the transfer area and
  the new device state; \<open>drv_error\<close> is the answer of the critical error dialogue to a status word.
\<close>

record 'd driver =
  drv_exec :: "request \<Rightarrow> u16 \<Rightarrow> u8 list \<Rightarrow> 'd \<Rightarrow> u16 \<times> u8 list \<times> 'd"
  drv_error :: "request \<Rightarrow> u16 \<Rightarrow> u8 \<Rightarrow> u16 \<Rightarrow> 'd \<Rightarrow> u16 \<times> 'd"

text \<open>
  The kernel variables: \<open>drives\<close> is \<^verbatim>\<open>get_dpb\<close>, \<open>dh_attr\<close> the attribute word of a device header,
  \<open>bufhigh\<close> says that the buffers lie at or above segment \<open>0xA000\<close>, \<open>bufloc_conv\<close> that
  \<^verbatim>\<open>bufloc == LOC_CONV\<close>, \<open>faterrs\<close> collects the messages about bad FAT entries.
\<close>

record 'd kst =
  bufs :: "u16 \<Rightarrow> buffer"
  firstbuf :: u16
  dpbs :: "u16 \<Rightarrow> dpb"
  drives :: "u8 \<Rightarrow> u16 option"
  dh_attr :: "u16 \<Rightarrow> u16"
  verify_ena :: bool
  bufhigh :: bool
  bufloc_conv :: bool
  deblock_buf :: "u8 list"
  nbuffers :: nat
  faterrs :: "(string \<times> u32) list"
  device :: 'd

definition upd_buf :: "u16 \<Rightarrow> (buffer \<Rightarrow> buffer) \<Rightarrow> 'd kst \<Rightarrow> 'd kst" where
  "upd_buf p f s = s\<lparr>bufs := (bufs s)(p := f (bufs s p))\<rparr>"

abbreviation has :: "u8 \<Rightarrow> u8 \<Rightarrow> bool" where
  "has flags b \<equiv> flags AND b \<noteq> 0"

subsection \<open>dskxfer\<close>

definition DSKWRITE :: u16 where "DSKWRITE = 1"
definition DSKREAD :: u16 where "DSKREAD = 2"
definition DSKWRITEINT26 :: u16 where "DSKWRITEINT26 = 3"
definition DSKREADINT25 :: u16 where "DSKREADINT25 = 4"
definition C_INPUT :: u8 where "C_INPUT = 0x04"
definition C_OUTPUT :: u8 where "C_OUTPUT = 0x08"
definition C_OUTVFY :: u8 where "C_OUTVFY = 0x09"
definition S_ERROR :: u16 where "S_ERROR = 0x8000"
definition S_DONE :: u16 where "S_DONE = 0x0100"
definition ATTR_HUGE :: u16 where "ATTR_HUGE = 0x0002"
definition HUGECOUNT :: u16 where "HUGECOUNT = 0xFFFF"
definition CONTINUE :: u16 where "CONTINUE = 0"
definition RETRY :: u16 where "RETRY = 1"
definition ABORT :: u16 where "ABORT = 2"
definition FAIL :: u16 where "FAIL = 3"

named_theorems dsk \<open>the constants of the driver interface\<close>

declare DSKWRITE_def [dsk] DSKREAD_def [dsk] DSKWRITEINT26_def [dsk] DSKREADINT25_def [dsk]
  C_INPUT_def [dsk] C_OUTPUT_def [dsk] C_OUTVFY_def [dsk] S_ERROR_def [dsk] S_DONE_def [dsk]
  ATTR_HUGE_def [dsk] HUGECOUNT_def [dsk] CONTINUE_def [dsk] RETRY_def [dsk] ABORT_def [dsk] FAIL_def [dsk]

definition xfer_command :: "u16 \<Rightarrow> 'd kst \<Rightarrow> u8 option" where
  "xfer_command mode s =
     (if mode = DSKWRITE then Some (if verify_ena s then C_OUTVFY else C_OUTPUT)
      else if mode = DSKWRITEINT26 then Some C_OUTPUT
      else if mode = DSKREADINT25 \<or> mode = DSKREAD then Some C_INPUT
      else None)"

definition mk_request :: "dpb \<Rightarrow> u32 \<Rightarrow> u16 \<Rightarrow> u8 \<Rightarrow> 'd kst \<Rightarrow> request" where
  "mk_request d blkno numblocks cmd s =
     (let huge = (dh_attr s (dpb_device d) AND ATTR_HUGE \<noteq> 0 \<or> blkno \<ge> 0xFFFF) in
      \<lparr>r_unit = dpb_subunit d, r_command = cmd, r_meddesc = dpb_mdb d, r_count = numblocks,
       r_start = (if huge then HUGECOUNT else ucast blkno), r_huge = (if huge then blkno else 0)\<rparr>)"

text \<open>
  One call of the driver: a single block whose buffer lies high goes through \<^verbatim>\<open>deblock_buf\<close>, with
  the copies the code makes for \<^verbatim>\<open>DSKWRITE\<close> and \<^verbatim>\<open>DSKREAD\<close>.
\<close>

definition xfer_once :: "'d driver \<Rightarrow> dpb \<Rightarrow> request \<Rightarrow> bool \<Rightarrow> u16 \<Rightarrow> u8 list \<Rightarrow> 'd kst \<Rightarrow>
    u16 \<times> u8 list \<times> 'd kst" where
  "xfer_once drv d rq high mode buf s =
     (if high \<and> r_count rq = 1 \<and> \<not> bufloc_conv s then
        let area = (if mode = DSKWRITE then take 512 buf @ drop 512 (deblock_buf s) else deblock_buf s);
            (st, area', dv) = drv_exec drv rq (dpb_device d) area (device s);
            buf' = (if mode = DSKREAD then take 512 area' @ drop 512 buf else buf)
        in (st, buf', s\<lparr>device := dv, deblock_buf := area'\<rparr>)
      else
        let (st, buf', dv) = drv_exec drv rq (dpb_device d) buf (device s)
        in (st, buf', s\<lparr>device := dv\<rparr>))"

text \<open>
  The retry loop: \<^term>\<open>None\<close> before a call of the driver, \<^term>\<open>Some st\<close> at the label \<^verbatim>\<open>loop\<close> with
  the status of the failed call. The loop is left with the function's result.
\<close>

definition dskxfer_body :: "'d driver \<Rightarrow> dpb \<Rightarrow> request \<Rightarrow> bool \<Rightarrow> u16 \<Rightarrow>
    u16 option \<times> u8 list \<times> 'd kst \<Rightarrow>
    (u16 \<times> u8 list \<times> 'd kst) + (u16 option \<times> u8 list \<times> 'd kst)" where
  "dskxfer_body drv d rq high mode v = (case v of (ph, buf, s) \<Rightarrow>
     case ph of
       None \<Rightarrow>
         let (st, buf', s') = xfer_once drv d rq high mode buf s in
         if st AND (S_ERROR OR S_DONE) = S_DONE then Inl (0, buf', s')
         else if mode \<ge> DSKWRITEINT26 then Inl (st, buf', s')
         else Inr (Some st, buf', s')
     | Some st \<Rightarrow>
         let (act, dv) = drv_error drv rq st (dpb_unit d) (dpb_device d) (device s); s' = s\<lparr>device := dv\<rparr> in
         if act = ABORT \<or> act = FAIL then Inl (st, buf, s')
         else if act = RETRY then Inr (None, buf, s')
         else if act = CONTINUE then Inl (0, buf, s')
         else Inr (Some st, buf, s'))"

definition dskxfer :: "'d driver \<Rightarrow> u8 \<Rightarrow> u32 \<Rightarrow> bool \<Rightarrow> u8 list \<Rightarrow> u16 \<Rightarrow> u16 \<Rightarrow> 'd kst \<Rightarrow>
    (u16 \<times> u8 list \<times> 'd kst) option" where
  "dskxfer drv dsk blkno high buf numblocks mode s =
     (case drives s dsk of
        None \<Rightarrow> Some (0x0201, buf, s)
      | Some dp \<Rightarrow>
          (case xfer_command mode s of
             None \<Rightarrow> Some (0x0100, buf, s)
           | Some cmd \<Rightarrow>
               loop (dskxfer_body drv (dpbs s dp) (mk_request (dpbs s dp) blkno numblocks cmd s) high mode)
                 (None, buf, s)))"

subsection \<open>flush1\<close>

fun write_copies :: "'d driver \<Rightarrow> u8 \<Rightarrow> u8 list \<Rightarrow> u32 \<Rightarrow> nat \<Rightarrow> u32 \<Rightarrow> bool \<Rightarrow> 'd kst \<Rightarrow>
    (bool \<times> 'd kst) option" where
  "write_copies drv unit buf off 0 blkno ok s = Some (ok, s)"
| "write_copies drv unit buf off (Suc n) blkno ok s = do {
     (st, _, s1) \<leftarrow> dskxfer drv unit blkno (bufhigh s) buf 1 DSKWRITE s;
     write_copies drv unit buf off n (blkno + off) (if st \<noteq> 0 then False else ok) s1
   }"

definition is_dirty :: "buffer \<Rightarrow> bool" where
  "is_dirty b \<longleftrightarrow> b_flag b AND (BFR_VALID OR BFR_DIRTY) = BFR_VALID OR BFR_DIRTY"

definition flush_copies :: "'d kst \<Rightarrow> buffer \<Rightarrow> nat \<times> u32" where
  "flush_copies s b =
     (if has (b_flag b) BFR_FAT then
        (unat (b_copies b),
         if b_offset b = 0 then dpb_xfatsize (dpbs s (b_dpbp b)) else ucast (b_offset b))
      else (1, 0))"

definition flush1 :: "'d driver \<Rightarrow> u16 \<Rightarrow> 'd kst \<Rightarrow> (bool \<times> 'd kst) option" where
  "flush1 drv bp s = do {
     (ok, s1) \<leftarrow>
       (let b = bufs s bp in
        if is_dirty b then
          (case flush_copies s b of (n, off) \<Rightarrow>
             write_copies drv (b_unit b) (b_buffer b) off n (b_blkno b) True s)
        else Some (True, s));
     let s2 = upd_buf bp (\<lambda>b. b\<lparr>b_flag := b_flag b AND NOT BFR_DIRTY\<rparr>) s1;
     let s3 = (if \<not> ok then upd_buf bp (\<lambda>b. b\<lparr>b_flag := b_flag b AND NOT BFR_VALID\<rparr>) s2 else s2);
     Some (ok, s3)
   }"

subsection \<open>The LRU ring\<close>

definition move_buffer :: "u16 \<Rightarrow> u16 \<Rightarrow> 'd kst \<Rightarrow> 'd kst" where
  "move_buffer bp firstbp s0 =
     (let s1 = upd_buf (b_next (bufs s0 bp)) (\<lambda>b. b\<lparr>b_prev := b_prev (bufs s0 bp)\<rparr>) s0;
          s2 = upd_buf (b_prev (bufs s1 bp)) (\<lambda>b. b\<lparr>b_next := b_next (bufs s1 bp)\<rparr>) s1;
          s3 = upd_buf bp (\<lambda>b. b\<lparr>b_prev := b_prev (bufs s2 firstbp)\<rparr>) s2;
          s4 = upd_buf bp (\<lambda>b. b\<lparr>b_next := firstbp\<rparr>) s3;
          s5 = upd_buf (b_next (bufs s4 bp)) (\<lambda>b. b\<lparr>b_prev := bp\<rparr>) s4
      in upd_buf (b_prev (bufs s5 bp)) (\<lambda>b. b\<lparr>b_next := bp\<rparr>) s5)"

text \<open>
  The search: the variables are \<open>bp\<close>, \<open>fat_count\<close>, \<open>lastNonFat\<close>, \<open>uncacheBuf\<close>. It ends with the
  buffer found or, back at the first buffer, with the three variables.
\<close>

definition is_block :: "u32 \<Rightarrow> u8 \<Rightarrow> buffer \<Rightarrow> bool" where
  "is_block blkno dsk b \<longleftrightarrow> b_blkno b = blkno \<and> has (b_flag b) BFR_VALID \<and> b_unit b = dsk"

definition search_body :: "'d kst \<Rightarrow> u32 \<Rightarrow> u8 \<Rightarrow> u16 \<times> nat \<times> u16 \<times> u16 \<Rightarrow>
    (u16 + (nat \<times> u16 \<times> u16)) + (u16 \<times> nat \<times> u16 \<times> u16)" where
  "search_body s blkno dsk v = (case v of (bp, fat_count, lastNonFat, uncacheBuf) \<Rightarrow>
     let b = bufs s bp in
     if is_block blkno dsk b then Inl (Inl bp)
     else
       let uncacheBuf' = (if has (b_flag b) BFR_UNCACHE then bp else uncacheBuf);
           (fat_count', lastNonFat') =
             (if has (b_flag b) BFR_FAT then (fat_count + 1, lastNonFat) else (fat_count, bp))
       in if b_next b \<noteq> firstbuf s then Inr (b_next b, fat_count', lastNonFat', uncacheBuf')
          else Inl (Inr (fat_count', lastNonFat', uncacheBuf')))"

definition victim :: "'d kst \<Rightarrow> nat \<times> u16 \<times> u16 \<Rightarrow> u16" where
  "victim s v = (case v of (fat_count, lastNonFat, uncacheBuf) \<Rightarrow>
     if uncacheBuf \<noteq> 0 then uncacheBuf
     else if has (b_flag (bufs s (firstbuf s))) BFR_FAT \<and> fat_count < 3 \<and> lastNonFat \<noteq> 0 then lastNonFat
     else b_prev (bufs s (firstbuf s)))"

definition to_front :: "u16 \<Rightarrow> 'd kst \<Rightarrow> 'd kst" where
  "to_front bp s = (if bp \<noteq> firstbuf s then (move_buffer bp (firstbuf s) s)\<lparr>firstbuf := bp\<rparr> else s)"

definition searchblock :: "u32 \<Rightarrow> u8 \<Rightarrow> 'd kst \<Rightarrow> (u16 \<times> 'd kst) option" where
  "searchblock blkno dsk s = do {
     r \<leftarrow> loop (search_body s blkno dsk) (firstbuf s, 0, 0, 0);
     Some (case r of
       Inl bp \<Rightarrow> (bp, to_front bp (upd_buf bp (\<lambda>b. b\<lparr>b_flag := b_flag b AND NOT BFR_UNCACHE\<rparr>) s))
     | Inr v \<Rightarrow>
         let bp = victim s v
         in (bp, to_front bp (upd_buf bp (\<lambda>b. b\<lparr>b_flag := b_flag b OR BFR_UNCACHE\<rparr>) s)))
   }"

subsection \<open>getblk\<close>

definition getblk :: "'d driver \<Rightarrow> u32 \<Rightarrow> u8 \<Rightarrow> bool \<Rightarrow> 'd kst \<Rightarrow> (u16 option \<times> 'd kst) option" where
  "getblk drv blkno dsk overwrite s = do {
     (bp, s1) \<leftarrow> searchblock blkno dsk s;
     if \<not> has (b_flag (bufs s1 bp)) BFR_UNCACHE then Some (Some bp, s1)
     else do {
       (ok, s2) \<leftarrow> flush1 drv bp s1;
       if \<not> ok then Some (None, s2)
       else do {
         (err, s3) \<leftarrow>
           (if overwrite then Some (0, s2)
            else do {
              (st, buf, s3) \<leftarrow> dskxfer drv dsk blkno (bufhigh s2) (b_buffer (bufs s2 bp)) 1 DSKREAD s2;
              Some (st, upd_buf bp (\<lambda>b. b\<lparr>b_buffer := buf\<rparr>) s3)
            });
         if err \<noteq> 0 then Some (None, s3)
         else Some (Some bp, upd_buf bp (\<lambda>b. b\<lparr>b_flag := BFR_VALID OR BFR_DATA, b_unit := dsk,
                                                  b_blkno := blkno\<rparr>) s3)
       }
     }
   }"

abbreviation "getblock drv blkno dsk \<equiv> getblk drv blkno dsk False"
abbreviation "getblockOver drv blkno dsk \<equiv> getblk drv blkno dsk True"

subsection \<open>Walks around the ring\<close>

text \<open>\<^verbatim>\<open>do { act; bp = b_next(bp); } while (FP_OFF(bp) != FP_OFF(firstbuf))\<close>.\<close>

definition ring_body :: "(u16 \<Rightarrow> 'a \<times> 'd kst \<Rightarrow> ('a \<times> 'd kst) option) \<Rightarrow> u16 \<times> 'a \<times> 'd kst \<Rightarrow>
    (('a \<times> 'd kst) + (u16 \<times> 'a \<times> 'd kst)) option" where
  "ring_body act v = (case v of (bp, x) \<Rightarrow> do {
     (a, s) \<leftarrow> act bp x;
     let bp' = b_next (bufs s bp);
     Some (if bp' \<noteq> firstbuf s then Inr (bp', a, s) else Inl (a, s))
   })"

definition ring_do :: "(u16 \<Rightarrow> 'a \<times> 'd kst \<Rightarrow> ('a \<times> 'd kst) option) \<Rightarrow> 'a \<Rightarrow> 'd kst \<Rightarrow> ('a \<times> 'd kst) option" where
  "ring_do act a s = loopM (ring_body act) (firstbuf s, a, s)"

definition XFR_READ :: u16 where "XFR_READ = 1"
definition XFR_WRITE :: u16 where "XFR_WRITE = 2"

definition delete_act :: "'d driver \<Rightarrow> u32 \<Rightarrow> u32 \<Rightarrow> u8 \<Rightarrow> u16 \<Rightarrow> u16 \<Rightarrow> unit \<times> 'd kst \<Rightarrow> (unit \<times> 'd kst) option" where
  "delete_act drv low high dsk mode bp x = (case x of (_, s) \<Rightarrow>
     let b = bufs s bp in
     if low \<le> b_blkno b \<and> b_blkno b \<le> high \<and> has (b_flag b) BFR_VALID \<and> b_unit b = dsk then
       if mode = XFR_READ then do { (_, s1) \<leftarrow> flush1 drv bp s; Some ((), s1) }
       else Some ((), upd_buf bp (\<lambda>b. b\<lparr>b_flag := 0\<rparr>) s)
     else Some ((), s))"

definition DeleteBlockInBufferCache :: "'d driver \<Rightarrow> u32 \<Rightarrow> u32 \<Rightarrow> u8 \<Rightarrow> u16 \<Rightarrow> 'd kst \<Rightarrow> (bool \<times> 'd kst) option" where
  "DeleteBlockInBufferCache drv low high dsk mode s = do {
     (_, s1) \<leftarrow> ring_do (delete_act drv low high dsk mode) () s;
     Some (False, s1)
   }"

definition setinvld_act :: "u8 \<Rightarrow> u16 \<Rightarrow> unit \<times> 'd kst \<Rightarrow> (unit \<times> 'd kst) option" where
  "setinvld_act dsk bp x = (case x of (_, s) \<Rightarrow>
     Some ((), if b_unit (bufs s bp) = dsk then upd_buf bp (\<lambda>b. b\<lparr>b_flag := 0\<rparr>) s else s))"

definition setinvld :: "u8 \<Rightarrow> 'd kst \<Rightarrow> 'd kst option" where
  "setinvld dsk s = do { (_, s1) \<leftarrow> ring_do (setinvld_act dsk) () s; Some s1 }"

text \<open>The early \<^verbatim>\<open>return TRUE\<close> leaves the loop; the state does not change.\<close>

definition dirty_body :: "'d kst \<Rightarrow> u8 \<Rightarrow> u16 \<Rightarrow> bool + u16" where
  "dirty_body s dsk bp =
     (if b_unit (bufs s bp) = dsk \<and> is_dirty (bufs s bp) then Inl True
      else if b_next (bufs s bp) \<noteq> firstbuf s then Inr (b_next (bufs s bp)) else Inl False)"

definition dirty_buffers :: "u8 \<Rightarrow> 'd kst \<Rightarrow> bool option" where
  "dirty_buffers dsk s = loop (dirty_body s dsk) (firstbuf s)"

definition flush_buffers_act :: "'d driver \<Rightarrow> u8 \<Rightarrow> u16 \<Rightarrow> bool \<times> 'd kst \<Rightarrow> (bool \<times> 'd kst) option" where
  "flush_buffers_act drv dsk bp x = (case x of (ok, s) \<Rightarrow>
     if b_unit (bufs s bp) = dsk then do {
       (ok1, s1) \<leftarrow> flush1 drv bp s;
       Some (if \<not> ok1 then False else ok, s1)
     } else Some (ok, s))"

definition flush_buffers :: "'d driver \<Rightarrow> u8 \<Rightarrow> 'd kst \<Rightarrow> (bool \<times> 'd kst) option" where
  "flush_buffers drv dsk s = ring_do (flush_buffers_act drv dsk) True s"

definition flush_act :: "'d driver \<Rightarrow> u16 \<Rightarrow> bool \<times> 'd kst \<Rightarrow> (bool \<times> 'd kst) option" where
  "flush_act drv bp x = (case x of (ok, s) \<Rightarrow> do {
     (ok1, s1) \<leftarrow> flush1 drv bp s;
     Some (if \<not> ok1 then False else ok, upd_buf bp (\<lambda>b. b\<lparr>b_flag := b_flag b AND NOT BFR_VALID\<rparr>) s1)
   })"

text \<open>The call of the network redirector that follows concerns remote drives only.\<close>

definition flush :: "'d driver \<Rightarrow> 'd kst \<Rightarrow> (bool \<times> 'd kst) option" where
  "flush drv s = ring_do (flush_act drv) True s"

subsection \<open>AllocateHMASpace\<close>

text \<open>\<open>bufseg\<close> is the segment of \<^verbatim>\<open>firstbuf\<close>; a \<^verbatim>\<open>struct buffer\<close> has 532 bytes; \<^verbatim>\<open>--n\<close> wraps around at 16 bits.\<close>

definition hma_step :: "'d driver \<Rightarrow> u16 \<Rightarrow> u16 \<Rightarrow> u16 \<times> 'd kst \<Rightarrow> (u16 \<times> 'd kst) option" where
  "hma_step drv low high v = (case v of (bp, s) \<Rightarrow> do {
     s1 \<leftarrow>
       (if bp < high \<and> bp + 532 > low then do {
          (_, s1) \<leftarrow> flush1 drv bp s;
          let s2 = upd_buf (b_prev (bufs s1 bp)) (\<lambda>b. b\<lparr>b_next := b_next (bufs s1 bp)\<rparr>) s1;
          let s3 = upd_buf (b_next (bufs s2 bp)) (\<lambda>b. b\<lparr>b_prev := b_prev (bufs s2 bp)\<rparr>) s2;
          let s4 = (if bp = firstbuf s3 then s3\<lparr>firstbuf := b_next (bufs s3 bp)\<rparr> else s3);
          Some (s4\<lparr>nbuffers := nbuffers s4 - 1\<rparr>)
        } else Some s);
     Some (b_next (bufs s1 bp), s1)
   })"

fun hma_steps :: "'d driver \<Rightarrow> u16 \<Rightarrow> u16 \<Rightarrow> nat \<Rightarrow> u16 \<times> 'd kst \<Rightarrow> 'd kst option" where
  "hma_steps drv low high 0 v = Some (snd v)"
| "hma_steps drv low high (Suc n) v = do { v1 \<leftarrow> hma_step drv low high v; hma_steps drv low high n v1 }"

definition AllocateHMASpace :: "'d driver \<Rightarrow> u16 \<Rightarrow> u16 \<Rightarrow> u16 \<Rightarrow> 'd kst \<Rightarrow> 'd kst option" where
  "AllocateHMASpace drv bufseg low high s =
     (if bufseg \<noteq> 0xFFFF then Some s
      else hma_steps drv low high (if nbuffers s = 0 then 65536 else nbuffers s) (firstbuf s, s))"

end
