(* ===== verification/BlockRing.thy ===== *)
theory BlockRing
  imports BlockIO
begin

text \<open>
  The pointer structure of the block cache: the buffers form a ring, \<^const>\<open>move_buffer\<close> moves one
  of them to the front, and the search of \<^const>\<open>searchblock\<close> visits each buffer once.
\<close>

definition linked :: "(u16 \<Rightarrow> buffer) \<Rightarrow> u16 \<Rightarrow> u16 \<Rightarrow> bool" where
  "linked h x y \<longleftrightarrow> b_next (h x) = y \<and> b_prev (h y) = x"

fun path :: "(u16 \<Rightarrow> buffer) \<Rightarrow> u16 list \<Rightarrow> bool" where
  "path h (x # y # zs) = (linked h x y \<and> path h (y # zs))"
| "path h _ = True"

definition ring :: "'d kst \<Rightarrow> u16 list \<Rightarrow> bool" where
  "ring s xs \<longleftrightarrow> xs \<noteq> [] \<and> distinct xs \<and> 0 \<notin> set xs \<and> firstbuf s = hd xs \<and> path (bufs s) (xs @ [hd xs])"

text \<open>A buffer without its links.\<close>

definition core :: "buffer \<Rightarrow> buffer" where
  "core b = b\<lparr>b_next := 0, b_prev := 0\<rparr>"

lemma core_eqD:
  assumes "core b = core c"
  shows "b_unit b = b_unit c" "b_flag b = b_flag c" "b_blkno b = b_blkno c" "b_copies b = b_copies c"
    "b_offset b = b_offset c" "b_dpbp b = b_dpbp c" "b_buffer b = b_buffer c"
  using arg_cong [OF assms, of b_unit] arg_cong [OF assms, of b_flag] arg_cong [OF assms, of b_blkno]
    arg_cong [OF assms, of b_copies] arg_cong [OF assms, of b_offset] arg_cong [OF assms, of b_dpbp]
    arg_cong [OF assms, of b_buffer]
  by (simp_all add: core_def)

lemma path_append:
  "path h (xs @ y # zs) \<longleftrightarrow> path h (xs @ [y]) \<and> path h (y # zs)"
  by (induction h xs rule: path.induct) auto

lemma path_snoc2: "path h (xs @ [x, y]) \<longleftrightarrow> path h (xs @ [x]) \<and> linked h x y"
  using path_append [of h xs x "[y]"] by simp

lemma path_frame:
  assumes "path h xs" "\<And>x. x \<in> set (butlast xs) \<Longrightarrow> b_next (h' x) = b_next (h x)"
    and "\<And>x. x \<in> set (tl xs) \<Longrightarrow> b_prev (h' x) = b_prev (h x)"
  shows "path h' xs"
  using assms by (induction h xs rule: path.induct) (auto simp: linked_def split: if_splits)

lemma bufs_upd_buf [simp]: "bufs (upd_buf p f s) = (bufs s)(p := f (bufs s p))"
  and upd_buf_sel [simp]: "firstbuf (upd_buf p f s) = firstbuf s" "dpbs (upd_buf p f s) = dpbs s"
    "drives (upd_buf p f s) = drives s" "dh_attr (upd_buf p f s) = dh_attr s"
    "verify_ena (upd_buf p f s) = verify_ena s" "bufhigh (upd_buf p f s) = bufhigh s"
    "bufloc_conv (upd_buf p f s) = bufloc_conv s" "deblock_buf (upd_buf p f s) = deblock_buf s"
    "device (upd_buf p f s) = device s" "faterrs (upd_buf p f s) = faterrs s"
  by (simp_all add: upd_buf_def)

text \<open>Updates that keep the links keep the ring.\<close>

lemma ring_upd_buf:
  assumes "\<And>b. b_next (f b) = b_next b" "\<And>b. b_prev (f b) = b_prev b"
  shows "ring (upd_buf p f s) xs \<longleftrightarrow> ring s xs"
proof -
  have "path (bufs (upd_buf p f s)) ys \<longleftrightarrow> path (bufs s) ys" for ys
    by (rule iffI; erule path_frame) (simp_all add: assms)
  then show ?thesis by (simp add: ring_def)
qed

subsection \<open>Moving a buffer to the front\<close>

text \<open>The links after \<^const>\<open>move_buffer\<close>, with the neighbours \<open>pr\<close> and \<open>nx\<close> of \<open>bp\<close> and the last buffer \<open>z\<close>.\<close>

definition moved :: "u16 \<Rightarrow> u16 \<Rightarrow> u16 \<Rightarrow> u16 \<Rightarrow> (u16 \<Rightarrow> buffer) \<Rightarrow> (u16 \<Rightarrow> buffer) \<Rightarrow> bool" where
  "moved bp f pr nx h h' \<longleftrightarrow> (\<forall>p. core (h' p) = core (h p))
     \<and> (let z = (if nx = f then pr else b_prev (h f)) in
        (\<forall>p. b_next (h' p) = (if p = z then bp else if p = bp then f else if p = pr then nx else b_next (h p)))
        \<and> (\<forall>p. b_prev (h' p) = (if p = f then bp else if p = bp then z else if p = nx then pr else b_prev (h p))))"

lemma move_buffer_moved:
  assumes "bp \<noteq> f" "b_next (bufs s bp) \<noteq> bp" "b_prev (bufs s bp) \<noteq> bp"
    "b_next (bufs s bp) \<noteq> f \<Longrightarrow> b_prev (bufs s f) \<noteq> bp"
  shows "moved bp f (b_prev (bufs s bp)) (b_next (bufs s bp)) (bufs s) (bufs (move_buffer bp f s))"
proof -
  let ?h = "bufs s"
  define pr where "pr = b_prev (?h bp)"
  define nx where "nx = b_next (?h bp)"
  define z where "z = (if nx = f then pr else b_prev (?h f))"
  define h2 where "h2 = (?h(nx := (?h nx)\<lparr>b_prev := pr\<rparr>))(pr := ((?h(nx := (?h nx)\<lparr>b_prev := pr\<rparr>)) pr)\<lparr>b_next := nx\<rparr>)"
  define h4 where "h4 = h2(bp := (h2 bp)\<lparr>b_prev := z, b_next := f\<rparr>)"
  define h5 where "h5 = h4(f := (h4 f)\<lparr>b_prev := bp\<rparr>)"
  have ne: "nx \<noteq> bp" "pr \<noteq> bp" "z \<noteq> bp" using assms by (auto simp: nx_def pr_def z_def)
  have z2: "b_prev (h2 f) = z" by (auto simp: h2_def z_def)
  define s1 where "s1 = upd_buf (b_next (?h bp)) (\<lambda>b. b\<lparr>b_prev := b_prev (?h bp)\<rparr>) s"
  define s2 where "s2 = upd_buf (b_prev (bufs s1 bp)) (\<lambda>b. b\<lparr>b_next := b_next (bufs s1 bp)\<rparr>) s1"
  define s3 where "s3 = upd_buf bp (\<lambda>b. b\<lparr>b_prev := b_prev (bufs s2 f)\<rparr>) s2"
  define s4 where "s4 = upd_buf bp (\<lambda>b. b\<lparr>b_next := f\<rparr>) s3"
  define s5 where "s5 = upd_buf (b_next (bufs s4 bp)) (\<lambda>b. b\<lparr>b_prev := bp\<rparr>) s4"
  have "b_prev (bufs s1 bp) = pr" "b_next (bufs s1 bp) = nx" using ne by (simp_all add: s1_def nx_def pr_def)
  then have b2: "bufs s2 = h2" by (simp only: s2_def bufs_upd_buf) (simp add: s1_def h2_def nx_def pr_def)
  then have b4: "bufs s4 = h4" by (simp add: s4_def s3_def h4_def z2)
  then have "b_next (bufs s4 bp) = f" by (simp add: h4_def)
  then have b5: "bufs s5 = h5" by (simp add: s5_def h5_def b4)
  then have "b_prev (bufs s5 bp) = z" using assms(1) by (simp add: h5_def h4_def)
  moreover have "move_buffer bp f s = upd_buf (b_prev (bufs s5 bp)) (\<lambda>b. b\<lparr>b_next := bp\<rparr>) s5"
    by (simp only: move_buffer_def Let_def s5_def s4_def s3_def s2_def s1_def)
  ultimately have eq: "bufs (move_buffer bp f s) = h5(z := (h5 z)\<lparr>b_next := bp\<rparr>)" by (simp add: b5)
  have c2: "core (h2 p) = core (?h p)" "b_next (h2 p) = (if p = pr then nx else b_next (?h p))"
    "b_prev (h2 p) = (if p = nx then pr else b_prev (?h p))" for p
    by (simp_all add: h2_def core_def)
  have c5: "core (h5 p) = core (?h p)" "b_next (h5 p) = (if p = bp then f else b_next (h2 p))"
    "b_prev (h5 p) = (if p = f then bp else if p = bp then z else b_prev (h2 p))" for p
    using assms(1) c2(1) [of p] by (auto simp: h5_def h4_def core_def)
  show ?thesis
    unfolding moved_def eq Let_def pr_def [symmetric] nx_def [symmetric] z_def [symmetric]
    using c5 c2 by (simp add: core_def)
qed

lemma move_buffer_sel [simp]:
  "firstbuf (move_buffer bp f s) = firstbuf s" "dpbs (move_buffer bp f s) = dpbs s"
  "drives (move_buffer bp f s) = drives s" "dh_attr (move_buffer bp f s) = dh_attr s"
  "verify_ena (move_buffer bp f s) = verify_ena s" "bufhigh (move_buffer bp f s) = bufhigh s"
  "bufloc_conv (move_buffer bp f s) = bufloc_conv s" "deblock_buf (move_buffer bp f s) = deblock_buf s"
  "device (move_buffer bp f s) = device s" "faterrs (move_buffer bp f s) = faterrs s"
  by (simp_all add: move_buffer_def Let_def)

lemma ring_ends:
  assumes "path h (xs @ [x] @ ys)" "xs \<noteq> []"
  shows "b_prev (h x) = last xs" "b_next (h (last xs)) = x"
proof -
  have "xs = butlast xs @ [last xs]" using assms(2) by simp
  then have "path h (butlast xs @ last xs # x # ys)" using assms(1) by (metis append_Cons append_assoc append_Nil)
  then have "linked h (last xs) x" using path_append [of h "butlast xs" "last xs" "x # ys"] by simp
  then show "b_prev (h x) = last xs" "b_next (h (last xs)) = x" by (simp_all add: linked_def)
qed

lemma move_buffer_path:
  assumes p: "path h (f # as @ bp # bs @ [f])" and d: "distinct (f # as @ bp # bs)"
    and m: "moved bp f (last (f # as)) (hd (bs @ [f])) h h'"
  shows "path h' (bp # f # as @ bs @ [bp])"
proof -
  define pr where "pr = last (f # as)"
  define nx where "nx = hd (bs @ [f])"
  define z where "z = last (f # as @ bs)"
  have pr: "pr \<in> set (f # as)" "pr \<noteq> bp" "pr \<notin> set bs"
    using d last_in_set [of "f # as"] unfolding pr_def by (fastforce simp del: last.simps)+
  have p1: "path h ((f # as) @ bp # bs @ [f])" using p by simp
  then have pa: "path h ((f # as) @ [bp])" and pb: "path h (bp # bs @ [f])" using path_append by blast+
  have pas: "path h (f # as)" using pa path_append [of h "butlast (f # as)" "last (f # as)" "[bp]"]
    by (metis append_Cons append_assoc append_Nil append_butlast_last_id list.distinct(1))
  have zz: "z = (if nx = f then pr else b_prev (h f))"
  proof (cases "bs = []")
    case True
    then show ?thesis by (simp add: z_def nx_def pr_def)
  next
    case False
    then have "nx \<noteq> f" using d by (cases bs) (auto simp: nx_def)
    moreover have "path h ((bp # bs) @ [f] @ [])" using pb by simp
    from ring_ends(1) [OF this] have "b_prev (h f) = z" using False by (simp add: z_def)
    ultimately show ?thesis by simp
  qed
  note nxt = m [unfolded moved_def Let_def pr_def [symmetric] nx_def [symmetric] zz [symmetric], THEN conjunct2]
  have nextE: "b_next (h' p) = (if p = z then bp else if p = bp then f else if p = pr then nx else b_next (h p))" for p
    using nxt by blast
  have prevE: "b_prev (h' p) = (if p = f then bp else if p = bp then z else if p = nx then pr else b_prev (h p))" for p
    using nxt by blast
  have zbp: "z \<noteq> bp" using d last_in_set [of "f # as @ bs"] unfolding z_def by (fastforce simp del: last.simps)
  have fas: "path h' (f # as)"
  proof (rule path_frame [OF pas])
    fix x assume x: "x \<in> set (butlast (f # as))"
    have "x \<noteq> pr" using x d unfolding pr_def
      by (metis append_butlast_last_id distinct_append list.distinct(1) not_distinct_conv_prefix append_Cons)
    moreover have "x \<in> set (f # as)" using x by (meson in_set_butlastD)
    moreover have "x \<noteq> z"
    proof (cases "bs = []")
      case True
      with \<open>x \<noteq> pr\<close> show ?thesis by (simp add: z_def pr_def)
    next
      case False
      then have "z \<in> set bs" by (simp add: z_def)
      with \<open>x \<in> set (f # as)\<close> d show ?thesis by auto
    qed
    ultimately show "b_next (h' x) = b_next (h x)" using d nextE [of x] by auto
  next
    fix x assume x: "x \<in> set (tl (f # as))"
    moreover have "nx \<in> set (bs @ [f])" unfolding nx_def by (rule hd_in_set) simp
    ultimately have "x \<noteq> nx" "x \<noteq> f" "x \<noteq> bp" using d by auto
    then show "b_prev (h' x) = b_prev (h x)" using prevE [of x] by auto
  qed
  have bpf: "linked h' bp f" using zbp nextE [of bp] prevE [of f] by (simp add: linked_def)
  show ?thesis
  proof (cases bs)
    case Nil
    have "linked h' pr bp" using Nil nextE [of z] prevE [of bp] d zz by (auto simp: linked_def nx_def)
    then have "path h' (f # as @ [bp])"
      using fas path_append [of h' "butlast (f # as)" pr "[bp]"] unfolding pr_def
      by (metis append_Cons append_assoc append_Nil append_butlast_last_id list.distinct(1) path.simps(1,3))
    with bpf Nil show ?thesis by simp
  next
    case (Cons c cs)
    then have nxc: "nx = c" by (simp add: nx_def)
    have zl: "z = last bs" using Cons by (simp add: z_def)
    have z: "z \<in> set bs" using Cons by (simp add: zl)
    have pbs: "path h bs" using pb path_append [of h "bp # butlast bs" "last bs" "[f]"] Cons
      by (metis append_Cons append_assoc append_Nil append_butlast_last_id list.distinct(1) path.simps(1))
    have fbs: "path h' bs"
    proof (rule path_frame [OF pbs])
      fix x assume x: "x \<in> set (butlast bs)"
      have "x \<noteq> z" using x d Cons unfolding zl
        by (metis append_butlast_last_id distinct.simps(2) distinct_append list.distinct(1) not_distinct_conv_prefix append_Cons)
      moreover have "x \<in> set bs" using x by (meson in_set_butlastD)
      ultimately show "b_next (h' x) = b_next (h x)" using d pr nextE [of x] by auto
    next
      fix x assume "x \<in> set (tl bs)"
      then show "b_prev (h' x) = b_prev (h x)" using d Cons nxc prevE [of x] by auto
    qed
    have "linked h' pr c" using nextE [of pr] prevE [of c] pr z d Cons nxc by (auto simp: linked_def)
    moreover have "linked h' z bp" using nextE [of z] prevE [of bp] d by (auto simp: linked_def)
    moreover have "path h' (bs @ [bp])" using fbs \<open>linked h' z bp\<close> path_append [of h' "butlast bs" z "[bp]"] Cons unfolding zl
      by (metis append_Cons append_assoc append_Nil append_butlast_last_id list.distinct(1) path.simps(1,3))
    ultimately have "path h' ((f # as) @ bs @ [bp])"
      using fas path_append [of h' "butlast (f # as)" pr "c # cs @ [bp]"] Cons unfolding pr_def
      by (metis append_Cons append_assoc append_Nil append_butlast_last_id list.distinct(1) path.simps(1))
    with bpf show ?thesis by simp
  qed
qed

lemma ring_first: "ring s xs \<Longrightarrow> firstbuf s \<in> set xs"
  by (cases xs) (auto simp: ring_def)

lemma ring_last: "ring s xs \<Longrightarrow> b_prev (bufs s (firstbuf s)) = last xs"
proof -
  assume r: "ring s xs"
  then have "path (bufs s) (xs @ [hd xs] @ [])" "xs \<noteq> []" by (simp_all add: ring_def)
  from ring_ends(1) [OF this] r show ?thesis by (simp add: ring_def)
qed

lemma to_front_ring:
  assumes r: "ring s xs" and bp: "bp \<in> set xs"
  shows "ring (to_front bp s) (bp # remove1 bp xs)" "core (bufs (to_front bp s) p) = core (bufs s p)"
proof -
  obtain f ys where xs: "xs = f # ys" using r by (cases xs) (auto simp: ring_def)
  have first: "firstbuf s = f" using r xs by (simp add: ring_def)
  have "ring (to_front bp s) (bp # remove1 bp xs) \<and> core (bufs (to_front bp s) p) = core (bufs s p)"
  proof (cases "bp = f")
    case True
    with r xs first show ?thesis by (simp add: to_front_def)
  next
    case False
    with bp xs have "bp \<in> set ys" by simp
    then obtain as bs where ys: "ys = as @ bp # bs" "bp \<notin> set as" by (meson split_list_first)
    have p: "path (bufs s) (f # as @ bp # bs @ [f])" and d: "distinct (f # as @ bp # bs)"
      using r xs ys by (simp_all add: ring_def)
    have nb: "b_prev (bufs s bp) = last (f # as)" using ring_ends(1) [of "bufs s" "f # as" bp "bs @ [f]"] p by simp
    have nn: "b_next (bufs s bp) = hd (bs @ [f])"
      using path_append [of "bufs s" "f # as" bp "bs @ [f]"] p by (cases bs) (auto simp: linked_def)
    have mem: "last (f # as) \<in> set (f # as)" "hd (bs @ [f]) \<in> set (bs @ [f])"
      by (rule last_in_set, simp, rule hd_in_set, simp)
    have zb: "b_prev (bufs s f) \<noteq> bp" if "hd (bs @ [f]) \<noteq> f"
    proof -
      have "bs \<noteq> []" using that by auto
      then have "last bs \<in> set bs" by simp
      moreover have "b_prev (bufs s f) = last bs"
        using ring_ends(1) [of "bufs s" "f # as @ bp # bs" f "[]"] p \<open>bs \<noteq> []\<close> by simp
      ultimately show ?thesis using d by auto
    qed
    have m: "moved bp f (last (f # as)) (hd (bs @ [f])) (bufs s) (bufs (move_buffer bp f s))"
    proof -
      have "last (f # as) \<noteq> bp" "hd (bs @ [f]) \<noteq> bp" using mem d by (metis distinct.simps(2) distinct_append
        Un_iff append_Cons disjoint_iff list.set_intros(1), use mem d False in auto)
      with move_buffer_moved [of bp f s] False zb show ?thesis unfolding nb nn by blast
    qed
    from move_buffer_path [OF p d m] have "path (bufs (move_buffer bp f s)) (bp # f # as @ bs @ [bp])" .
    moreover have "remove1 bp xs = f # as @ bs" using xs ys False by (simp add: remove1_append)
    ultimately show ?thesis using r xs ys d m False first
      by (auto simp: to_front_def ring_def moved_def)
  qed
  then show "ring (to_front bp s) (bp # remove1 bp xs)" "core (bufs (to_front bp s) p) = core (bufs s p)" by blast+
qed

lemma to_front_sel [simp]:
  "dpbs (to_front bp s) = dpbs s" "drives (to_front bp s) = drives s" "dh_attr (to_front bp s) = dh_attr s"
  "verify_ena (to_front bp s) = verify_ena s" "bufhigh (to_front bp s) = bufhigh s"
  "bufloc_conv (to_front bp s) = bufloc_conv s" "deblock_buf (to_front bp s) = deblock_buf s"
  "device (to_front bp s) = device s" "faterrs (to_front bp s) = faterrs s" "firstbuf (to_front bp s) = bp"
  by (simp_all add: to_front_def)

subsection \<open>The search\<close>

definition fat_bufs :: "'d kst \<Rightarrow> u16 list \<Rightarrow> u16 list" where
  "fat_bufs s xs = filter (\<lambda>p. has (b_flag (bufs s p)) BFR_FAT) xs"

definition other_bufs :: "'d kst \<Rightarrow> u16 list \<Rightarrow> u16 list" where
  "other_bufs s xs = filter (\<lambda>p. \<not> has (b_flag (bufs s p)) BFR_FAT) xs"

definition uncached_bufs :: "'d kst \<Rightarrow> u16 list \<Rightarrow> u16 list" where
  "uncached_bufs s xs = filter (\<lambda>p. has (b_flag (bufs s p)) BFR_UNCACHE) xs"

lemma search_loop:
  assumes "path (bufs s) (xs @ [firstbuf s])" "xs \<noteq> []" "firstbuf s \<notin> set (tl xs)"
  shows "loop (search_body s blkno dsk) (hd xs, fc, ln, ub) = Some
    (case find (\<lambda>p. is_block blkno dsk (bufs s p)) xs of Some p \<Rightarrow> Inl p
     | None \<Rightarrow> Inr (fc + length (fat_bufs s xs), last (ln # other_bufs s xs), last (ub # uncached_bufs s xs)))"
  using assms
proof (induction xs arbitrary: fc ln ub)
  case (Cons x xs)
  define fc' where "fc' = (if has (b_flag (bufs s x)) BFR_FAT then fc + 1 else fc)"
  define ln' where "ln' = (if has (b_flag (bufs s x)) BFR_FAT then ln else x)"
  define ub' where "ub' = (if has (b_flag (bufs s x)) BFR_UNCACHE then x else ub)"
  have acc: "fc' + length (fat_bufs s xs) = fc + length (fat_bufs s (x # xs))"
    "last (ln' # other_bufs s xs) = last (ln # other_bufs s (x # xs))"
    "last (ub' # uncached_bufs s xs) = last (ub # uncached_bufs s (x # xs))"
    by (auto simp: fc'_def ln'_def ub'_def fat_bufs_def other_bufs_def uncached_bufs_def)
  show ?case
  proof (cases "is_block blkno dsk (bufs s x)")
    case True
    then show ?thesis by (simp add: loop_Inl search_body_def Let_def)
  next
    case False
    have nx: "b_next (bufs s x) = hd (xs @ [firstbuf s])"
      using Cons.prems(1) by (cases xs) (auto simp: linked_def)
    have step: "search_body s blkno dsk (x, fc, ln, ub) = (if hd (xs @ [firstbuf s]) \<noteq> firstbuf s
        then Inr (hd (xs @ [firstbuf s]), fc', ln', ub') else Inl (Inr (fc', ln', ub')))"
      using False nx by (auto simp: search_body_def Let_def fc'_def ln'_def ub'_def)
    show ?thesis
    proof (cases xs)
      case Nil
      then show ?thesis using False step acc
        by (simp add: loop_Inl fat_bufs_def other_bufs_def uncached_bufs_def)
    next
      case (Cons y ys)
      then have "hd (xs @ [firstbuf s]) = hd xs" "hd xs \<noteq> firstbuf s" using Cons.prems(3) by auto
      moreover have "path (bufs s) (xs @ [firstbuf s])" "firstbuf s \<notin> set (tl xs)" "xs \<noteq> []"
        using Cons.prems Cons by auto
      ultimately show ?thesis using step Cons.IH [of fc' ln' ub', unfolded acc] False by (simp add: loop_Inr)
    qed
  qed
qed simp

text \<open>The buffer to be recycled is one of the ring.\<close>

lemma victim_in_ring:
  assumes "ring s xs"
  shows "victim s (length (fat_bufs s xs), last (0 # other_bufs s xs), last (0 # uncached_bufs s xs)) \<in> set xs"
proof -
  have "last (0 # filter P xs) \<in> set xs" if "last (0 # filter P xs) \<noteq> 0" for P
    using that last_in_set [of "filter P xs"] by (auto split: if_splits)
  moreover have "last xs \<in> set xs" using assms by (simp add: ring_def)
  ultimately show ?thesis
    unfolding victim_def fat_bufs_def other_bufs_def uncached_bufs_def ring_last [OF assms] by (simp del: last.simps)
qed

definition lru_victim :: "'d kst \<Rightarrow> u16 list \<Rightarrow> u16" where
  "lru_victim s xs = (if uncached_bufs s xs \<noteq> [] then last (uncached_bufs s xs)
     else if has (b_flag (bufs s (hd xs))) BFR_FAT \<and> length (fat_bufs s xs) < 3 \<and> other_bufs s xs \<noteq> []
     then last (other_bufs s xs) else last xs)"

lemma victim_lru:
  assumes r: "ring s xs"
  shows "victim s (length (fat_bufs s xs), last (0 # other_bufs s xs), last (0 # uncached_bufs s xs)) = lru_victim s xs"
proof -
  have z: "last (0 # filter P xs) = 0 \<longleftrightarrow> filter P xs = []" for P
    using r last_in_set [of "filter P xs"] by (auto simp: ring_def)
  have "firstbuf s = hd xs" using r by (simp add: ring_def)
  with z show ?thesis
    unfolding victim_def lru_victim_def ring_last [OF r] fat_bufs_def other_bufs_def uncached_bufs_def
    by (simp split: if_splits)
qed

lemma searchblock_ring:
  assumes r: "ring s xs"
  shows "searchblock blkno dsk s = Some
    (case find (\<lambda>p. is_block blkno dsk (bufs s p)) xs of
       Some p \<Rightarrow> (p, to_front p (upd_buf p (\<lambda>b. b\<lparr>b_flag := b_flag b AND NOT BFR_UNCACHE\<rparr>) s))
     | None \<Rightarrow> let p = lru_victim s xs in
         (p, to_front p (upd_buf p (\<lambda>b. b\<lparr>b_flag := b_flag b OR BFR_UNCACHE\<rparr>) s)))"
proof -
  have "path (bufs s) (xs @ [firstbuf s])" "xs \<noteq> []" "firstbuf s \<notin> set (tl xs)" "hd xs = firstbuf s"
    using r by (auto simp: ring_def) (cases xs, auto)
  from search_loop [OF this(1-3), of blkno dsk 0 0 0] this(4) show ?thesis
    using victim_lru [OF r] by (auto simp: searchblock_def Let_def simp del: last.simps split: option.splits)
qed

end
