(* ===== verification/BlockCache.thy ===== *)
theory BlockCache
  imports BlockRing
begin

text \<open>
  What the block cache stands for: the contents of the disks as the file system sees them, a
  cached block or else the sector on the disk. Under a driver that transfers sectors faithfully,
  \<^const>\<open>getblk\<close> returns a buffer with the contents of the block it is asked for and no block changes,
  whatever buffer is recycled and written back. FAT sectors are written in several copies: the
  blocks of the further copies (the set \<open>M\<close>) are the only ones that a write-back may change.
\<close>

subsection \<open>Drivers\<close>

definition rq_block :: "request \<Rightarrow> u32" where
  "rq_block rq = (if r_start rq = HUGECOUNT then r_huge rq else ucast (r_start rq))"

definition st_done :: "u16 \<Rightarrow> bool" where
  "st_done st \<longleftrightarrow> st AND (S_ERROR OR S_DONE) = S_DONE"

text \<open>
  \<open>rd d dev unit b\<close> is sector \<open>b\<close> of a unit of a device: what a request reads and writes, which may be for
  several sectors in a row.
\<close>

definition disk_driver :: "'d driver \<Rightarrow> ('d \<Rightarrow> u16 \<Rightarrow> u8 \<Rightarrow> u32 \<Rightarrow> u8 list) \<Rightarrow> bool" where
  "disk_driver drv rd \<longleftrightarrow>
     (\<forall>rq dev area d. length area = 512 * unat (r_count rq) \<longrightarrow> r_command rq = C_INPUT \<longrightarrow>
        (\<exists>st d'. drv_exec drv rq dev area d
             = (st, concat (map (\<lambda>i. rd d dev (r_unit rq) (rq_block rq + of_nat i)) [0..<unat (r_count rq)]), d')
           \<and> st_done st \<and> rd d' = rd d))
   \<and> (\<forall>rq dev area d. length area = 512 * unat (r_count rq) \<longrightarrow> r_command rq = C_OUTPUT \<or> r_command rq = C_OUTVFY \<longrightarrow>
        (\<exists>st d'. drv_exec drv rq dev area d = (st, area, d') \<and> st_done st
           \<and> (\<forall>v u b. rd d' v u b = (let i = unat (b - rq_block rq) in
                if v = dev \<and> u = r_unit rq \<and> i < unat (r_count rq) then take 512 (drop (512 * i) area) else rd d v u b))))
   \<and> (\<forall>d v u b. length (rd d v u b) = 512)"

lemma disk_driver_one:
  assumes drv: "disk_driver drv rd" and one: "r_count rq = 1" "length area = 512"
  shows "r_command rq = C_INPUT \<Longrightarrow>
      \<exists>st d'. drv_exec drv rq dev area d = (st, rd d dev (r_unit rq) (rq_block rq), d') \<and> st_done st \<and> rd d' = rd d"
    "r_command rq = C_OUTPUT \<or> r_command rq = C_OUTVFY \<Longrightarrow>
      \<exists>st d'. drv_exec drv rq dev area d = (st, area, d') \<and> st_done st
        \<and> (\<forall>v u b. rd d' v u b = (if v = dev \<and> u = r_unit rq \<and> b = rq_block rq then area else rd d v u b))"
proof -
  have len: "length area = 512 * unat (r_count rq)" using one by simp
  show "\<exists>st d'. drv_exec drv rq dev area d = (st, rd d dev (r_unit rq) (rq_block rq), d') \<and> st_done st \<and> rd d' = rd d"
    if "r_command rq = C_INPUT"
    using drv [unfolded disk_driver_def, THEN conjunct1, rule_format, OF len that, of dev d] one(1) by simp
  have i: "unat (b - rq_block rq) = 0 \<longleftrightarrow> b = rq_block rq" for b by (simp add: unat_eq_0)
  show "\<exists>st d'. drv_exec drv rq dev area d = (st, area, d') \<and> st_done st
      \<and> (\<forall>v u b. rd d' v u b = (if v = dev \<and> u = r_unit rq \<and> b = rq_block rq then area else rd d v u b))"
    if "r_command rq = C_OUTPUT \<or> r_command rq = C_OUTVFY"
    using drv [unfolded disk_driver_def, THEN conjunct2, THEN conjunct1, rule_format, OF len that, of dev d] one i
    by (fastforce simp: Let_def)
qed

text \<open>The sector of a drive.\<close>

definition sector_on :: "('d \<Rightarrow> u16 \<Rightarrow> u8 \<Rightarrow> u32 \<Rightarrow> u8 list) \<Rightarrow> 'd \<Rightarrow> 'd kst \<Rightarrow> u8 \<Rightarrow> u32 \<Rightarrow> u8 list" where
  "sector_on rd dv s u b = (let d = dpbs s (the (drives s u)) in rd dv (dpb_device d) (dpb_subunit d) b)"

abbreviation sector :: "('d \<Rightarrow> u16 \<Rightarrow> u8 \<Rightarrow> u32 \<Rightarrow> u8 list) \<Rightarrow> 'd kst \<Rightarrow> u8 \<Rightarrow> u32 \<Rightarrow> u8 list" where
  "sector rd s u b \<equiv> sector_on rd (device s) s u b"

definition units_ok :: "'d kst \<Rightarrow> bool" where
  "units_ok s \<longleftrightarrow> (\<forall>u v du dv. drives s u = Some du \<longrightarrow> drives s v = Some dv \<longrightarrow>
     dpb_device (dpbs s du) = dpb_device (dpbs s dv) \<longrightarrow> dpb_subunit (dpbs s du) = dpb_subunit (dpbs s dv) \<longrightarrow> u = v)"

lemma rq_block_mk [simp]: "rq_block (mk_request d blkno n cmd s) = blkno"
proof -
  have "(ucast (ucast blkno :: u16) :: u32) = blkno" "(ucast blkno :: u16) \<noteq> 0xFFFF" if "blkno < 0xFFFF"
  proof -
    have n: "unat blkno < 65535" using that by (simp add: word_less_nat_alt)
    then have u: "unat (ucast blkno :: u16) = unat blkno" by (simp only: unsigned_ucast_eq take_bit_eq_mod) simp
    have "unat (ucast (ucast blkno :: u16) :: u32) = unat blkno"
      using n u by (simp only: unsigned_ucast_eq [of "ucast blkno :: u16"] take_bit_eq_mod) simp
    then show "(ucast (ucast blkno :: u16) :: u32) = blkno" by (simp add: word_unat_eq_iff)
    show "(ucast blkno :: u16) \<noteq> 0xFFFF"
    proof
      assume "(ucast blkno :: u16) = 0xFFFF"
      with u have "unat blkno = unat (0xFFFF :: u16)" by simp
      with n show False by simp
    qed
  qed
  then show ?thesis by (auto simp: rq_block_def mk_request_def Let_def HUGECOUNT_def not_le)
qed

lemma mk_request_sel [simp]:
  "r_unit (mk_request d b n cmd s) = dpb_subunit d" "r_count (mk_request d b n cmd s) = n"
  "r_command (mk_request d b n cmd s) = cmd"
  by (simp_all add: mk_request_def Let_def)

text \<open>A state in which only the device and \<^const>\<open>deblock_buf\<close> differ.\<close>

definition dev_only :: "'d \<Rightarrow> u8 list \<Rightarrow> 'd kst \<Rightarrow> 'd kst" where
  "dev_only dv db s = s\<lparr>device := dv, deblock_buf := db\<rparr>"

lemma dev_only_sel [simp]:
  "bufs (dev_only dv db s) = bufs s" "firstbuf (dev_only dv db s) = firstbuf s" "dpbs (dev_only dv db s) = dpbs s"
  "drives (dev_only dv db s) = drives s" "dh_attr (dev_only dv db s) = dh_attr s"
  "verify_ena (dev_only dv db s) = verify_ena s" "bufhigh (dev_only dv db s) = bufhigh s"
  "bufloc_conv (dev_only dv db s) = bufloc_conv s" "faterrs (dev_only dv db s) = faterrs s"
  "deblock_buf (dev_only dv db s) = db" "device (dev_only dv db s) = dv"
  "dev_only dv db (dev_only dv' db' s) = dev_only dv db s" "sector_on rd dv' (dev_only dv db s) = sector_on rd dv' s"
  "units_ok (dev_only dv db s) = units_ok s" "ring (dev_only dv db s) xs = ring s xs"
  by (simp_all add: dev_only_def sector_on_def units_ok_def ring_def fun_eq_iff)

lemma dev_only_self: "dev_only (device s) (deblock_buf s) s = s"
  by (simp add: dev_only_def)

lemma dskxfer_read:
  assumes drv: "disk_driver drv rd" and u: "drives s u = Some dp" and len: "length buf = 512" "length (deblock_buf s) = 512"
  shows "\<exists>dv db. dskxfer drv u b hi buf 1 DSKREAD s = Some (0, sector rd s u b, dev_only dv db s)
    \<and> rd dv = rd (device s) \<and> length db = 512"
proof -
  let ?d = "dpbs s dp"
  let ?rq = "mk_request ?d b 1 C_INPUT s"
  have ex: "\<exists>st d'. drv_exec drv ?rq (dpb_device ?d) area d = (st, rd d (dpb_device ?d) (dpb_subunit ?d) b, d')
      \<and> st_done st \<and> rd d' = rd d" if "length area = 512" for area d
    using disk_driver_one(1) [OF drv _ that, of ?rq "dpb_device ?d" d] by simp
  have l: "length (rd d v u b) = 512" for d v u b using drv by (simp add: disk_driver_def)
  have sec: "sector rd s u b = rd (device s) (dpb_device ?d) (dpb_subunit ?d) b" by (simp add: sector_on_def u Let_def)
  have cmd: "xfer_command DSKREAD s = Some C_INPUT" by (simp add: xfer_command_def dsk)
  have "\<exists>st db dv. xfer_once drv ?d ?rq hi DSKREAD buf s = (st, sector rd s u b, dev_only dv db s)
      \<and> st_done st \<and> rd dv = rd (device s) \<and> length db = 512"
  proof (cases "hi \<and> \<not> bufloc_conv s")
    case True
    obtain st d' where "drv_exec drv ?rq (dpb_device ?d) (deblock_buf s) (device s) = (st, sector rd s u b, d')"
      "st_done st" "rd d' = rd (device s)" using ex [OF len(2)] unfolding sec by blast
    with True len l sec show ?thesis
      by (intro exI [of _ st] exI [of _ "sector rd s u b"] exI [of _ d']) (simp add: xfer_once_def dsk dev_only_def)
  next
    case False
    obtain st d' where "drv_exec drv ?rq (dpb_device ?d) buf (device s) = (st, sector rd s u b, d')"
      "st_done st" "rd d' = rd (device s)" using ex [OF len(1)] unfolding sec by blast
    with False len show ?thesis
      by (intro exI [of _ st] exI [of _ "deblock_buf s"] exI [of _ d']) (auto simp: xfer_once_def dev_only_def)
  qed
  then obtain st db dv where x: "xfer_once drv ?d ?rq hi DSKREAD buf s = (st, sector rd s u b, dev_only dv db s)"
    "st_done st" "rd dv = rd (device s)" "length db = 512" by blast
  then have "dskxfer drv u b hi buf 1 DSKREAD s = Some (0, sector rd s u b, dev_only dv db s)"
    by (simp add: dskxfer_def u cmd loop_Inl dskxfer_body_def st_done_def)
  with x show ?thesis by blast
qed

lemma dskxfer_write:
  assumes drv: "disk_driver drv rd" and u: "drives s u = Some dp" and len: "length buf = 512" "length (deblock_buf s) = 512"
    and units: "units_ok s"
  shows "\<exists>dv db. dskxfer drv u b hi buf 1 DSKWRITE s = Some (0, buf, dev_only dv db s) \<and> length db = 512
    \<and> (\<forall>u' b'. drives s u' \<noteq> None \<longrightarrow>
         sector_on rd dv s u' b' = (if u' = u \<and> b' = b then buf else sector rd s u' b'))"
proof -
  let ?d = "dpbs s dp"
  obtain cmd where cmd: "xfer_command DSKWRITE s = Some cmd" "cmd = C_OUTPUT \<or> cmd = C_OUTVFY"
    by (auto simp: xfer_command_def)
  let ?rq = "mk_request ?d b 1 cmd s"
  have "\<exists>st d'. drv_exec drv ?rq (dpb_device ?d) buf (device s) = (st, buf, d') \<and> st_done st
    \<and> (\<forall>v u b'. rd d' v u b' = (if v = dpb_device ?d \<and> u = dpb_subunit ?d \<and> b' = b then buf else rd (device s) v u b'))"
    using disk_driver_one(2) [OF drv _ len(1), of ?rq "dpb_device ?d" "device s"] cmd(2) by simp
  then obtain st d' where x: "drv_exec drv ?rq (dpb_device ?d) buf (device s) = (st, buf, d')" "st_done st"
    and r: "\<And>v u b'. rd d' v u b' = (if v = dpb_device ?d \<and> u = dpb_subunit ?d \<and> b' = b then buf else rd (device s) v u b')"
    by blast
  have "\<exists>db. xfer_once drv ?d ?rq hi DSKWRITE buf s = (st, buf, dev_only d' db s) \<and> length db = 512"
  proof (cases "hi \<and> \<not> bufloc_conv s")
    case True
    with x len show ?thesis by (intro exI [of _ buf]) (simp add: xfer_once_def dsk dev_only_def)
  next
    case False
    with x len show ?thesis
      by (intro exI [of _ "deblock_buf s"]) (auto simp: xfer_once_def dev_only_def)
  qed
  then obtain db where "xfer_once drv ?d ?rq hi DSKWRITE buf s = (st, buf, dev_only d' db s)" "length db = 512" by blast
  moreover have "sector_on rd d' s u' b' = (if u' = u \<and> b' = b then buf else sector rd s u' b')"
    if "drives s u' \<noteq> None" for u' b'
    using that units u unfolding units_ok_def sector_on_def Let_def r by auto
  ultimately show ?thesis using x(2)
    by (intro exI [of _ d'] exI [of _ db]) (simp add: dskxfer_def u cmd loop_Inl dskxfer_body_def st_done_def)
qed

text \<open>Writing a block in several copies.\<close>

lemma write_copies_ok:
  assumes drv: "disk_driver drv rd" and u: "drives s u \<noteq> None" and len: "length buf = 512" "length (deblock_buf s) = 512"
    and units: "units_ok s"
  shows "\<exists>dv db. write_copies drv u buf off n b ok s = Some (ok, dev_only dv db s) \<and> length db = 512
    \<and> (\<forall>u' b'. drives s u' \<noteq> None \<longrightarrow> sector_on rd dv s u' b' =
         (if u' = u \<and> (\<exists>k<n. b' = b + of_nat k * off) then buf else sector rd s u' b'))"
  using u len(2) units
proof (induction n arbitrary: b s)
  case 0
  then show ?case by (intro exI [of _ "device s"] exI [of _ "deblock_buf s"]) (simp add: dev_only_self)
next
  case (Suc n)
  then obtain dp where dp: "drives s u = Some dp" by blast
  obtain dv db where w: "dskxfer drv u b (bufhigh s) buf 1 DSKWRITE s = Some (0, buf, dev_only dv db s)" "length db = 512"
    "\<And>u' b'. drives s u' \<noteq> None \<Longrightarrow> sector_on rd dv s u' b' = (if u' = u \<and> b' = b then buf else sector rd s u' b')"
    using dskxfer_write [OF drv dp len(1) Suc.prems(2,3)] by blast
  obtain dv2 db2 where w2: "write_copies drv u buf off n (b + off) ok (dev_only dv db s) = Some (ok, dev_only dv2 db2 s)"
    "length db2 = 512" "\<And>u' b'. drives s u' \<noteq> None \<Longrightarrow> sector_on rd dv2 s u' b' =
       (if u' = u \<and> (\<exists>k<n. b' = b + off + of_nat k * off) then buf else sector_on rd dv s u' b')"
  proof -
    have "\<exists>dv2 db2. write_copies drv u buf off n (b + off) ok (dev_only dv db s) = Some (ok, dev_only dv2 db2 s)
      \<and> length db2 = 512 \<and> (\<forall>u' b'. drives s u' \<noteq> None \<longrightarrow> sector_on rd dv2 s u' b' =
         (if u' = u \<and> (\<exists>k<n. b' = b + off + of_nat k * off) then buf else sector_on rd dv s u' b'))"
      using Suc.IH [of "dev_only dv db s" "b + off", unfolded dev_only_sel] Suc.prems w(2) by blast
    then show thesis using that by blast
  qed
  have k: "(\<exists>k<Suc n. b' = b + of_nat k * off) \<longleftrightarrow> b' = b \<or> (\<exists>k<n. b' = b + off + of_nat k * off)" for b'
    by (auto simp: less_Suc_eq_0_disj algebra_simps)
  have "sector_on rd dv2 s u' b' = (if u' = u \<and> (\<exists>k<Suc n. b' = b + of_nat k * off) then buf else sector rd s u' b')"
    if "drives s u' \<noteq> None" for u' b' unfolding k w2(3) [OF that] w(3) [OF that] by auto
  moreover have "write_copies drv u buf off (Suc n) b ok s = Some (ok, dev_only dv2 db2 s)"
    using w(1) w2(1) by simp
  ultimately show ?case using w2(2) by blast
qed

subsection \<open>The cache invariant\<close>

definition fvalid :: "buffer \<Rightarrow> bool" where "fvalid b \<longleftrightarrow> has (b_flag b) BFR_VALID"
definition fdirty :: "buffer \<Rightarrow> bool" where "fdirty b \<longleftrightarrow> has (b_flag b) BFR_DIRTY"
definition ffat :: "buffer \<Rightarrow> bool" where "ffat b \<longleftrightarrow> has (b_flag b) BFR_FAT"

definition blk_of :: "buffer \<Rightarrow> u8 \<times> u32" where
  "blk_of b = (b_unit b, b_blkno b)"

text \<open>The blocks a write-back of the buffer writes besides the block itself.\<close>

definition extra_blocks :: "'d kst \<Rightarrow> buffer \<Rightarrow> (u8 \<times> u32) set" where
  "extra_blocks s b = {(b_unit b, b_blkno b + of_nat k * snd (flush_copies s b)) |k. 0 < k \<and> k < fst (flush_copies s b)}"

definition buf_ok :: "('d \<Rightarrow> u16 \<Rightarrow> u8 \<Rightarrow> u32 \<Rightarrow> u8 list) \<Rightarrow> (u8 \<times> u32) set \<Rightarrow> 'd kst \<Rightarrow> buffer \<Rightarrow> bool" where
  "buf_ok rd M s b \<longleftrightarrow> length (b_buffer b) = 512 \<and> (fvalid b \<longrightarrow>
     drives s (b_unit b) \<noteq> None
     \<and> (\<not> fdirty b \<longrightarrow> blk_of b \<notin> M \<longrightarrow> b_buffer b = sector rd s (b_unit b) (b_blkno b))
     \<and> (ffat b \<longrightarrow> 0 < b_copies b \<and> extra_blocks s b \<subseteq> M))"

definition cache_inv :: "'d driver \<Rightarrow> ('d \<Rightarrow> u16 \<Rightarrow> u8 \<Rightarrow> u32 \<Rightarrow> u8 list) \<Rightarrow> (u8 \<times> u32) set \<Rightarrow> u16 list \<Rightarrow> 'd kst \<Rightarrow> bool" where
  "cache_inv drv rd M xs s \<longleftrightarrow> disk_driver drv rd \<and> ring s xs \<and> length (deblock_buf s) = 512 \<and> units_ok s
     \<and> (\<forall>p \<in> set xs. buf_ok rd M s (bufs s p))
     \<and> (\<forall>p \<in> set xs. \<forall>q \<in> set xs. fvalid (bufs s p) \<longrightarrow> fvalid (bufs s q) \<longrightarrow>
          blk_of (bufs s p) = blk_of (bufs s q) \<longrightarrow> p = q)"

definition view :: "('d \<Rightarrow> u16 \<Rightarrow> u8 \<Rightarrow> u32 \<Rightarrow> u8 list) \<Rightarrow> u16 list \<Rightarrow> 'd kst \<Rightarrow> u8 \<Rightarrow> u32 \<Rightarrow> u8 list" where
  "view rd xs s u b = (case find (\<lambda>p. is_block b u (bufs s p)) xs of
     Some p \<Rightarrow> b_buffer (bufs s p) | None \<Rightarrow> sector rd s u b)"

lemma is_block_iff: "is_block b u f \<longleftrightarrow> fvalid f \<and> blk_of f = (u, b)"
  by (auto simp: is_block_def fvalid_def blk_of_def)

lemma find_Some_iff2: "find P xs = Some p \<Longrightarrow> p \<in> set xs \<and> P p"
  by (induction xs) (auto split: if_splits)

lemma view_hit:
  assumes inv: "cache_inv drv rd M xs s" and p: "p \<in> set xs" "is_block b u (bufs s p)"
  shows "view rd xs s u b = b_buffer (bufs s p)"
proof -
  obtain q where q: "find (\<lambda>p. is_block b u (bufs s p)) xs = Some q"
    using p by (cases "find (\<lambda>p. is_block b u (bufs s p)) xs") (auto simp: find_None_iff)
  from find_Some_iff2 [OF q] have "q \<in> set xs" "is_block b u (bufs s q)" by auto
  then have "q = p" using inv p unfolding cache_inv_def is_block_iff by metis
  with q show ?thesis by (simp add: view_def)
qed

lemma view_miss: "\<forall>p \<in> set xs. \<not> is_block b u (bufs s p) \<Longrightarrow> view rd xs s u b = sector rd s u b"
proof -
  assume "\<forall>p \<in> set xs. \<not> is_block b u (bufs s p)"
  then have "find (\<lambda>p. is_block b u (bufs s p)) xs = None" by (auto simp: find_None_iff)
  then show ?thesis by (simp add: view_def)
qed

lemma view_cases:
  assumes "cache_inv drv rd M xs s"
  obtains p where "p \<in> set xs" "is_block b u (bufs s p)" "view rd xs s u b = b_buffer (bufs s p)"
  | "\<forall>p \<in> set xs. \<not> is_block b u (bufs s p)" "view rd xs s u b = sector rd s u b"
  using view_hit [OF assms] view_miss [of xs b u s rd] by blast

text \<open>States whose buffers differ in their links and in the UNCACHE bit only.\<close>

definition sem :: "buffer \<Rightarrow> bool \<times> bool \<times> bool \<times> u8 \<times> u32 \<times> u8 \<times> u16 \<times> u16 \<times> u8 list" where
  "sem b = (fvalid b, fdirty b, ffat b, b_unit b, b_blkno b, b_copies b, b_offset b, b_dpbp b, b_buffer b)"

definition same_env :: "'d kst \<Rightarrow> 'd kst \<Rightarrow> bool" where
  "same_env s s' \<longleftrightarrow> dpbs s' = dpbs s \<and> drives s' = drives s \<and> bufhigh s' = bufhigh s \<and> bufloc_conv s' = bufloc_conv s
     \<and> dh_attr s' = dh_attr s \<and> verify_ena s' = verify_ena s \<and> faterrs s' = faterrs s"

lemma same_env_refl [simp]: "same_env s s"
  and same_env_trans: "same_env s s' \<Longrightarrow> same_env s' s'' \<Longrightarrow> same_env s s''"
  by (simp_all add: same_env_def)

lemma same_env_sector: "same_env s s' \<Longrightarrow> sector_on rd dv s' = sector_on rd dv s"
  and same_env_units: "same_env s s' \<Longrightarrow> units_ok s' = units_ok s"
  and same_env_copies: "same_env s s' \<Longrightarrow> flush_copies s' b = flush_copies s b"
  by (simp_all add: same_env_def sector_on_def units_ok_def flush_copies_def fun_eq_iff)

lemma same_env_upd [simp]: "same_env s (upd_buf p f s)"
  and same_env_front [simp]: "same_env s (to_front p s)"
  and same_env_dev [simp]: "same_env s (dev_only dv db s)"
  by (simp_all add: same_env_def)

lemma sem_eqD:
  assumes "sem b = sem c"
  shows "fvalid b = fvalid c" "fdirty b = fdirty c" "ffat b = ffat c" "blk_of b = blk_of c"
    "b_unit b = b_unit c" "b_blkno b = b_blkno c" "b_buffer b = b_buffer c" "b_copies b = b_copies c"
    "flush_copies s b = flush_copies s c" "is_block n u b = is_block n u c"
  using assms by (auto simp: sem_def blk_of_def flush_copies_def ffat_def is_block_iff split: if_splits)

lemma buf_ok_sem:
  assumes "sem b = sem c" "same_env s s'" "device s' = device s"
  shows "buf_ok rd M s' b \<longleftrightarrow> buf_ok rd M s c"
proof -
  note e = sem_eqD [OF assms(1)]
  have "drives s' = drives s" using assms(2) by (simp add: same_env_def)
  then show ?thesis
    using same_env_sector [OF assms(2)] same_env_copies [OF assms(2)] assms(3)
    by (simp add: buf_ok_def extra_blocks_def e(1-8) e(9) [of s])
qed

lemma cache_inv_sem:
  assumes inv: "cache_inv drv rd M xs s" and r: "ring s' xs'" "set xs' = set xs"
    and sem: "\<And>p. sem (bufs s' p) = sem (bufs s p)"
    and env: "same_env s s'" "device s' = device s" "length (deblock_buf s') = 512"
  shows "cache_inv drv rd M xs' s'" "view rd xs' s' u b = view rd xs s u b"
proof -
  have q: "fvalid (bufs s' p) = fvalid (bufs s p)" "blk_of (bufs s' p) = blk_of (bufs s p)" for p
    using sem_eqD(1,4) [OF sem] by auto
  show inv': "cache_inv drv rd M xs' s'"
    unfolding cache_inv_def q
  proof (intro conjI ballI)
    fix p assume "p \<in> set xs'"
    then show "buf_ok rd M s' (bufs s' p)"
      using inv r(2) buf_ok_sem [OF sem env(1,2)] by (simp add: cache_inv_def)
  qed (use inv r env same_env_units [OF env(1)] in \<open>auto simp: cache_inv_def\<close>)
  have ib: "is_block b u (bufs s' p) = is_block b u (bufs s p)" "b_buffer (bufs s' p) = b_buffer (bufs s p)" for p
    using sem_eqD(7,10) [OF sem] by auto
  from inv show "view rd xs' s' u b = view rd xs s u b"
  proof (rule view_cases [where u = u and b = b])
    fix p assume "p \<in> set xs" "is_block b u (bufs s p)" "view rd xs s u b = b_buffer (bufs s p)"
    then show ?thesis using view_hit [OF inv', of p b u] r(2) ib by simp
  next
    assume "\<forall>p \<in> set xs. \<not> is_block b u (bufs s p)" "view rd xs s u b = sector rd s u b"
    then show ?thesis using view_miss [of xs' b u s' rd] r(2) ib env(2) same_env_sector [OF env(1)] by simp
  qed
qed

end
