(* ===== verification/BlockGet.thy ===== *)
theory BlockGet
  imports BlockCache
begin

text \<open>
  \<^const>\<open>flush1\<close> and \<^const>\<open>getblk\<close> on a cache that satisfies the invariant.
\<close>

lemma has_bit: "has f BFR_VALID = bit f 5" "has f BFR_DIRTY = bit f 6" "has f BFR_FAT = bit f 1"
  "has f BFR_UNCACHE = bit f 0" "has f BFR_DATA = bit f 3" "has f BFR_DIR = bit f 2"
  by (simp_all add: bit_iff_and_push_bit_not_eq_0 bfr)

lemma bfr_bit: "bit BFR_VALID n = (n = 5)" "bit BFR_DIRTY n = (n = 6)" "bit BFR_FAT n = (n = 1)"
  "bit BFR_UNCACHE n = (n = 0)" "bit BFR_DATA n = (n = 3)" "bit BFR_DIR n = (n = 2)"
proof -
  have p: "BFR_VALID = 2 ^ 5" "BFR_DIRTY = 2 ^ 6" "BFR_FAT = 2 ^ 1" "BFR_UNCACHE = 2 ^ 0" "BFR_DATA = 2 ^ 3"
    "BFR_DIR = 2 ^ 2" by (simp_all add: bfr)
  show "bit BFR_VALID n = (n = 5)" "bit BFR_DIRTY n = (n = 6)" "bit BFR_FAT n = (n = 1)"
    "bit BFR_UNCACHE n = (n = 0)" "bit BFR_DATA n = (n = 3)" "bit BFR_DIR n = (n = 2)"
    unfolding p bit_exp_iff by auto
qed

lemmas flag_bits = fvalid_def fdirty_def ffat_def has_bit bit_and_iff bit_or_iff bit_not_iff bfr_bit

lemma is_dirty_iff: "is_dirty b \<longleftrightarrow> fvalid b \<and> fdirty b"
proof -
  have "b_flag b AND (BFR_VALID OR BFR_DIRTY) = BFR_VALID OR BFR_DIRTY \<longleftrightarrow> bit (b_flag b) 5 \<and> bit (b_flag b) 6"
    unfolding bit_eq_iff [where ?'a = u8] by (auto simp: bit_and_iff bit_or_iff bfr_bit dest: spec [of _ 5] spec [of _ 6])
  then show ?thesis by (simp add: is_dirty_def fvalid_def fdirty_def has_bit)
qed

lemma flush_copies_pos: "buf_ok rd M s b \<Longrightarrow> fvalid b \<Longrightarrow> 0 < fst (flush_copies s b)"
  by (auto simp: buf_ok_def flush_copies_def ffat_def word_less_nat_alt)

lemma extra_blocks_plain: "\<not> ffat b \<Longrightarrow> extra_blocks s b = {}"
  by (auto simp: extra_blocks_def flush_copies_def ffat_def)

text \<open>The blocks that a write-back writes: the block itself and extra ones in \<open>M\<close>.\<close>

lemma written_blocks:
  assumes "buf_ok rd M s b" "fvalid b" "k < fst (flush_copies s b)"
  shows "k = 0 \<or> (b_unit b, b_blkno b + of_nat k * snd (flush_copies s b)) \<in> M"
proof (cases "ffat b")
  case True
  with assms show ?thesis by (auto simp: buf_ok_def extra_blocks_def)
next
  case False
  with assms show ?thesis by (simp add: flush_copies_def ffat_def)
qed

definition clean :: "buffer \<Rightarrow> buffer" where
  "clean b = b\<lparr>b_flag := b_flag b AND NOT BFR_DIRTY\<rparr>"

lemma clean_simps [simp]: "fvalid (clean b) = fvalid b" "\<not> fdirty (clean b)" "ffat (clean b) = ffat b"
  "blk_of (clean b) = blk_of b" "b_buffer (clean b) = b_buffer b" "b_unit (clean b) = b_unit b"
  "b_blkno (clean b) = b_blkno b" "b_copies (clean b) = b_copies b" "flush_copies s (clean b) = flush_copies s b"
  "is_block n u (clean b) = is_block n u b" "b_next (clean b) = b_next b" "b_prev (clean b) = b_prev b"
  "extra_blocks s (clean b) = extra_blocks s b"
  by (simp_all add: clean_def flag_bits blk_of_def flush_copies_def is_block_def extra_blocks_def)

lemma flush1_disk:
  assumes inv: "cache_inv drv rd M xs s" and p: "p \<in> set xs"
  shows "\<exists>dv db. flush1 drv p s = Some (True, upd_buf p clean (dev_only dv db s)) \<and> length db = 512
    \<and> (\<forall>u b. drives s u \<noteq> None \<longrightarrow> (u, b) \<notin> M \<longrightarrow> sector_on rd dv s u b =
        (if is_dirty (bufs s p) \<and> blk_of (bufs s p) = (u, b) then b_buffer (bufs s p) else sector rd s u b))"
proof (cases "is_dirty (bufs s p)")
  case False
  then show ?thesis using inv
    by (intro exI [of _ "device s"] exI [of _ "deblock_buf s"])
      (simp add: flush1_def dev_only_self clean_def [abs_def] cache_inv_def)
next
  case True
  let ?b = "bufs s p"
  have ok: "buf_ok rd M s ?b" and v: "fvalid ?b" using inv p True by (auto simp: cache_inv_def is_dirty_iff)
  obtain n off where c: "flush_copies s ?b = (n, off)" by force
  have "drives s (b_unit ?b) \<noteq> None" "length (b_buffer ?b) = 512" using ok v by (auto simp: buf_ok_def)
  from write_copies_ok [OF _ this, of drv rd off n "b_blkno ?b" True] inv obtain dv db where
    w: "write_copies drv (b_unit ?b) (b_buffer ?b) off n (b_blkno ?b) True s = Some (True, dev_only dv db s)"
    "length db = 512" "\<And>u b. drives s u \<noteq> None \<Longrightarrow> sector_on rd dv s u b =
      (if u = b_unit ?b \<and> (\<exists>k<n. b = b_blkno ?b + of_nat k * off) then b_buffer ?b else sector rd s u b)"
    unfolding cache_inv_def by blast
  have n: "0 < n" using flush_copies_pos [OF ok v] c by simp
  have "sector_on rd dv s u b = (if blk_of ?b = (u, b) then b_buffer ?b else sector rd s u b)"
    if "drives s u \<noteq> None" "(u, b) \<notin> M" for u b
  proof -
    have "u = b_unit ?b \<and> (\<exists>k<n. b = b_blkno ?b + of_nat k * off) \<longleftrightarrow> blk_of ?b = (u, b)"
    proof
      assume "blk_of ?b = (u, b)"
      with n show "u = b_unit ?b \<and> (\<exists>k<n. b = b_blkno ?b + of_nat k * off)"
        by (auto simp: blk_of_def intro!: exI [of _ 0])
    next
      assume "u = b_unit ?b \<and> (\<exists>k<n. b = b_blkno ?b + of_nat k * off)"
      then obtain k where k: "u = b_unit ?b" "k < n" "b = b_blkno ?b + of_nat k * off" by blast
      with written_blocks [OF ok v, of k] c that(2) have "k = 0" by auto
      with k show "blk_of ?b = (u, b)" by (simp add: blk_of_def)
    qed
    with w(3) [OF that(1)] show ?thesis by simp
  qed
  moreover have "flush1 drv p s = Some (True, upd_buf p clean (dev_only dv db s))"
    using True w(1) c by (simp add: flush1_def clean_def [abs_def])
  ultimately show ?thesis using True w(2) by (intro exI [of _ dv] exI [of _ db]) simp
qed

lemma flush1_ok:
  assumes inv: "cache_inv drv rd M xs s" and p: "p \<in> set xs"
  shows "\<exists>dv db. let s' = upd_buf p clean (dev_only dv db s) in flush1 drv p s = Some (True, s')
    \<and> cache_inv drv rd M xs s' \<and> (\<forall>u b. drives s u \<noteq> None \<longrightarrow> (u, b) \<notin> M \<longrightarrow> view rd xs s' u b = view rd xs s u b)"
proof -
  obtain dv db where f: "flush1 drv p s = Some (True, upd_buf p clean (dev_only dv db s))" "length db = 512"
    and sec: "\<And>u b. drives s u \<noteq> None \<Longrightarrow> (u, b) \<notin> M \<Longrightarrow> sector_on rd dv s u b =
        (if is_dirty (bufs s p) \<and> blk_of (bufs s p) = (u, b) then b_buffer (bufs s p) else sector rd s u b)"
    using flush1_disk [OF inv p] by blast
  define s' where "s' = upd_buf p clean (dev_only dv db s)"
  have env: "same_env s s'" unfolding s'_def by (rule same_env_trans [OF same_env_dev same_env_upd])
  have s': "device s' = dv" "drives s' = drives s" "deblock_buf s' = db" by (simp_all add: s'_def)
  have uniq: "q = p" if "q \<in> set xs" "fvalid (bufs s q)" "fvalid (bufs s p)" "blk_of (bufs s q) = blk_of (bufs s p)" for q
    using inv p that unfolding cache_inv_def by metis
  have b': "fvalid (bufs s' q) = fvalid (bufs s q)" "blk_of (bufs s' q) = blk_of (bufs s q)"
    "b_buffer (bufs s' q) = b_buffer (bufs s q)" "is_block n u (bufs s' q) = is_block n u (bufs s q)"
    "ffat (bufs s' q) = ffat (bufs s q)" "b_copies (bufs s' q) = b_copies (bufs s q)"
    "extra_blocks s (bufs s' q) = extra_blocks s (bufs s q)" "b_unit (bufs s' q) = b_unit (bufs s q)"
    "b_blkno (bufs s' q) = b_blkno (bufs s q)" "fdirty (bufs s' q) = (q \<noteq> p \<and> fdirty (bufs s q))" for q n u
    by (simp_all add: s'_def)
  have sec': "sector rd s' u b = sector_on rd dv s u b" for u b using same_env_sector [OF env] s'(1) by simp
  have ex: "extra_blocks s' b = extra_blocks s b" for b using same_env_copies [OF env] by (simp add: extra_blocks_def)
  have ok: "buf_ok rd M s' (bufs s' q)" if q: "q \<in> set xs" for q
  proof -
    have o: "buf_ok rd M s (bufs s q)" using inv q by (simp add: cache_inv_def)
    have "b_buffer (bufs s q) = sector_on rd dv s (b_unit (bufs s q)) (b_blkno (bufs s q))"
      if v: "fvalid (bufs s q)" "\<not> (q \<noteq> p \<and> fdirty (bufs s q))" "blk_of (bufs s q) \<notin> M"
      using sec [of "b_unit (bufs s q)" "b_blkno (bufs s q)"] o v uniq [OF q] unfolding is_dirty_iff
      by (cases "q = p") (auto simp: buf_ok_def blk_of_def)
    with o show ?thesis unfolding buf_ok_def b' sec' ex s'(2) by blast
  qed
  have "ring s' xs" using inv by (simp add: s'_def ring_upd_buf cache_inv_def)
  then have inv': "cache_inv drv rd M xs s'"
    using inv ok f(2) same_env_units [OF env] unfolding cache_inv_def b' s'(3) by blast
  have "view rd xs s' u b = view rd xs s u b" if u: "drives s u \<noteq> None" "(u, b) \<notin> M" for u b
  proof (rule view_cases [OF inv, of b u])
    fix q assume "q \<in> set xs" "is_block b u (bufs s q)" "view rd xs s u b = b_buffer (bufs s q)"
    then show ?thesis using view_hit [OF inv', of q b u] b' by simp
  next
    assume m: "\<forall>p \<in> set xs. \<not> is_block b u (bufs s p)" "view rd xs s u b = sector rd s u b"
    then have "\<not> (is_dirty (bufs s p) \<and> blk_of (bufs s p) = (u, b))" using p by (auto simp: is_dirty_iff is_block_iff)
    then show ?thesis using view_miss [of xs b u s' rd] m b' sec [OF u] sec' by auto
  qed
  with f(1) inv' show ?thesis unfolding s'_def Let_def by blast
qed

subsection \<open>Filling a buffer\<close>

definition loaded :: "u8 \<Rightarrow> u32 \<Rightarrow> u8 list \<Rightarrow> buffer \<Rightarrow> buffer" where
  "loaded u n d b = b\<lparr>b_buffer := d, b_flag := BFR_VALID OR BFR_DATA, b_unit := u, b_blkno := n\<rparr>"

lemma loaded_simps [simp]: "fvalid (loaded u n d b)" "\<not> fdirty (loaded u n d b)" "\<not> ffat (loaded u n d b)"
  "blk_of (loaded u n d b) = (u, n)" "b_buffer (loaded u n d b) = d" "b_next (loaded u n d b) = b_next b"
  "b_prev (loaded u n d b) = b_prev b" "b_unit (loaded u n d b) = u" "b_blkno (loaded u n d b) = n"
  "\<not> has (b_flag (loaded u n d b)) BFR_UNCACHE"
  by (simp_all add: loaded_def fvalid_def fdirty_def ffat_def blk_of_def bfr)

lemma load_ok:
  assumes inv: "cache_inv drv rd M xs s" and p: "p \<in> set xs" "\<not> is_dirty (bufs s p)"
    and miss: "\<forall>q \<in> set xs. \<not> is_block n u (bufs s q)" and u: "drives s u \<noteq> None"
  shows "cache_inv drv rd M xs (upd_buf p (loaded u n (sector rd s u n)) s)"
    "(v, b) \<notin> M \<Longrightarrow> view rd xs (upd_buf p (loaded u n (sector rd s u n)) s) v b = view rd xs s v b"
proof -
  let ?d = "sector rd s u n"
  define s' where "s' = upd_buf p (loaded u n ?d) s"
  have env: "same_env s s'" "device s' = device s" "deblock_buf s' = deblock_buf s" by (simp_all add: s'_def)
  have sec: "sector rd s' = sector rd s" using same_env_sector [OF env(1)] env(2) by simp
  have ex: "extra_blocks s' b = extra_blocks s b" for b using same_env_copies [OF env(1)] by (simp add: extra_blocks_def)
  have dr: "drives s' = drives s" using env(1) by (simp add: same_env_def)
  have oth: "bufs s' q = bufs s q" if "q \<noteq> p" for q using that by (simp add: s'_def)
  have new: "bufs s' p = loaded u n ?d (bufs s p)" by (simp add: s'_def)
  have len: "length ?d = 512" using inv by (simp add: cache_inv_def disk_driver_def sector_on_def Let_def)
  have ok: "buf_ok rd M s' (bufs s' q)" if q: "q \<in> set xs" for q
  proof (cases "q = p")
    case True
    with len u show ?thesis by (simp add: buf_ok_def new sec dr)
  next
    case False
    have "buf_ok rd M s (bufs s q)" using inv q by (simp add: cache_inv_def)
    then show ?thesis unfolding oth [OF False] buf_ok_def sec dr ex by blast
  qed
  have uniq: "q = r" if "q \<in> set xs" "r \<in> set xs" "fvalid (bufs s' q)" "fvalid (bufs s' r)"
    "blk_of (bufs s' q) = blk_of (bufs s' r)" for q r
  proof -
    have "bufs s' r = bufs s r \<Longrightarrow> blk_of (bufs s' r) \<noteq> (u, n)" if "r \<in> set xs" "fvalid (bufs s' r)" for r
      using miss that by (auto simp: is_block_iff)
    then show ?thesis using that oth new inv unfolding cache_inv_def by (metis loaded_simps(4))
  qed
  have "ring s' xs" using inv by (simp add: s'_def ring_upd_buf cache_inv_def)
  then have inv': "cache_inv drv rd M xs s'"
    using inv ok uniq same_env_units [OF env(1)] unfolding cache_inv_def env(3) by blast
  then show "cache_inv drv rd M xs (upd_buf p (loaded u n ?d) s)" by (simp add: s'_def)
  assume m: "(v, b) \<notin> M"
  have "view rd xs s' v b = view rd xs s v b"
  proof (cases "(v, b) = (u, n)")
    case True
    then have "is_block b v (bufs s' p)" by (simp add: new is_block_iff)
    with True new view_hit [OF inv' p(1)] view_miss [OF miss, of rd] show ?thesis by simp
  next
    case False
    from inv show ?thesis
    proof (rule view_cases [where b = b and u = v])
      fix q assume q: "q \<in> set xs" "is_block b v (bufs s q)" "view rd xs s v b = b_buffer (bufs s q)"
      show ?thesis
      proof (cases "q = p")
        case False
        with q view_hit [OF inv' q(1), of b v] oth show ?thesis by simp
      next
        case True
        then have "b_buffer (bufs s q) = sector rd s v b"
          using q p(2) inv m unfolding cache_inv_def buf_ok_def by (auto simp: is_block_iff is_dirty_iff blk_of_def)
        moreover have "\<forall>r \<in> set xs. \<not> is_block b v (bufs s' r)"
        proof
          fix r assume r: "r \<in> set xs"
          have "fvalid (bufs s r) \<Longrightarrow> blk_of (bufs s r) = (v, b) \<Longrightarrow> r = q"
            using inv r q unfolding cache_inv_def is_block_iff by metis
          then show "\<not> is_block b v (bufs s' r)" using False True new oth by (cases "r = p") (auto simp: is_block_iff)
        qed
        ultimately show ?thesis using view_miss [of xs b v s' rd] q(3) sec by simp
      qed
    next
      assume h: "\<forall>p \<in> set xs. \<not> is_block b v (bufs s p)" "view rd xs s v b = sector rd s v b"
      have "\<forall>r \<in> set xs. \<not> is_block b v (bufs s' r)"
        using h(1) False new oth by (metis is_block_iff loaded_simps(4))
      with h(2) view_miss [of xs b v s' rd] sec show ?thesis by simp
    qed
  qed
  then show "view rd xs (upd_buf p (loaded u n ?d) s) v b = view rd xs s v b" by (simp add: s'_def)
qed

lemma cache_inv_dev:
  assumes inv: "cache_inv drv rd M xs s" and rd: "rd dv = rd (device s)" and db: "length db = 512"
  shows "cache_inv drv rd M xs (dev_only dv db s)" "view rd xs (dev_only dv db s) = view rd xs s"
    "sector rd (dev_only dv db s) = sector rd s"
proof -
  show sec: "sector rd (dev_only dv db s) = sector rd s" using rd by (simp add: sector_on_def fun_eq_iff Let_def)
  have "flush_copies (dev_only dv db s) b = flush_copies s b" for b by (simp add: flush_copies_def)
  then have "extra_blocks (dev_only dv db s) b = extra_blocks s b" for b by (simp add: extra_blocks_def)
  then have "buf_ok rd M (dev_only dv db s) b = buf_ok rd M s b" for b by (simp add: buf_ok_def sec [unfolded dev_only_sel])
  with inv db show "cache_inv drv rd M xs (dev_only dv db s)" by (simp add: cache_inv_def)
  show "view rd xs (dev_only dv db s) = view rd xs s" by (simp only: view_def fun_eq_iff dev_only_sel(1) sec) simp
qed

subsection \<open>getblk\<close>

lemma sem_uncache:
  "sem (b\<lparr>b_flag := b_flag b AND NOT BFR_UNCACHE\<rparr>) = sem b" "sem (b\<lparr>b_flag := b_flag b OR BFR_UNCACHE\<rparr>) = sem b"
  by (simp_all add: sem_def flag_bits)

lemma sem_core: "core b = core c \<Longrightarrow> sem b = sem c"
  using core_eqD [of b c] by (simp add: sem_def fvalid_def fdirty_def ffat_def)

text \<open>Moving a buffer to the front and touching its UNCACHE bit.\<close>

lemma touch_ok:
  assumes inv: "cache_inv drv rd M xs s" and p: "p \<in> set xs" and f: "\<And>b. sem (f b) = sem b"
    "\<And>b. b_next (f b) = b_next b" "\<And>b. b_prev (f b) = b_prev b"
  defines "s' \<equiv> to_front p (upd_buf p f s)"
  shows "cache_inv drv rd M (p # remove1 p xs) s'" "view rd (p # remove1 p xs) s' u b = view rd xs s u b"
    "set (p # remove1 p xs) = set xs" "same_env s s'" "sem (bufs s' q) = sem (bufs s q)"
    "b_flag (bufs s' q) = b_flag (if q = p then f (bufs s p) else bufs s q)" "device s' = device s"
proof -
  have r: "ring (upd_buf p f s) xs" using inv f by (simp add: ring_upd_buf cache_inv_def)
  note tf = to_front_ring [OF r p]
  have d: "distinct xs" using inv by (simp add: cache_inv_def ring_def)
  show st: "set (p # remove1 p xs) = set xs" using p d by (auto simp: set_remove1_eq)
  show env: "same_env s s'" unfolding s'_def by (rule same_env_trans [OF same_env_upd same_env_front])
  show dv: "device s' = device s" by (simp add: s'_def)
  have sm: "sem (bufs s' q) = sem (bufs s q)" for q
    using sem_core [OF tf(2), of q] f(1) by (simp add: s'_def)
  then show "sem (bufs s' q) = sem (bufs s q)" .
  show "b_flag (bufs s' q) = b_flag (if q = p then f (bufs s p) else bufs s q)"
    using core_eqD(2) [OF tf(2), of q] by (simp add: s'_def)
  have db: "length (deblock_buf s') = 512" using inv by (simp add: s'_def cache_inv_def)
  note c = cache_inv_sem [OF inv tf(1) [folded s'_def] st sm env dv db]
  show "cache_inv drv rd M (p # remove1 p xs) s'" by (rule c(1))
  show "view rd (p # remove1 p xs) s' u b = view rd xs s u b" by (rule c(2))
qed

definition got :: "'d driver \<Rightarrow> ('d \<Rightarrow> u16 \<Rightarrow> u8 \<Rightarrow> u32 \<Rightarrow> u8 list) \<Rightarrow> (u8 \<times> u32) set \<Rightarrow> u16 list \<Rightarrow> 'd kst \<Rightarrow> u8 \<Rightarrow> u32 \<Rightarrow>
    u16 \<Rightarrow> u16 list \<Rightarrow> 'd kst \<Rightarrow> bool" where
  "got drv rd M xs s u n p xs' s' \<longleftrightarrow> cache_inv drv rd M xs' s' \<and> set xs' = set xs \<and> hd xs' = p
     \<and> is_block n u (bufs s' p) \<and> \<not> has (b_flag (bufs s' p)) BFR_UNCACHE \<and> same_env s s'
     \<and> (\<forall>v b. drives s v \<noteq> None \<longrightarrow> (v, b) \<notin> M \<longrightarrow> view rd xs' s' v b = view rd xs s v b)"

lemma lru_victim_in: "ring s xs \<Longrightarrow> lru_victim s xs \<in> set xs"
  using victim_in_ring victim_lru by metis

lemma getblk_ok:
  assumes inv: "cache_inv drv rd M xs s" and u: "drives s u \<noteq> None"
  shows "\<exists>p xs' s'. getblk drv n u False s = Some (Some p, s') \<and> got drv rd M xs s u n p xs' s'
    \<and> (p \<in> set xs \<and> is_block n u (bufs s p) \<or> p = lru_victim s xs \<and> (\<forall>q \<in> set xs. \<not> is_block n u (bufs s q)))
    \<and> (\<forall>q. q \<noteq> p \<longrightarrow> sem (bufs s' q) = sem (bufs s q) \<and> b_flag (bufs s' q) = b_flag (bufs s q))"
proof -
  have r: "ring s xs" using inv by (simp add: cache_inv_def)
  show ?thesis
  proof (cases "find (\<lambda>p. is_block n u (bufs s p)) xs")
    case (Some p)
    from find_Some_iff2 [OF this] have p: "p \<in> set xs" "is_block n u (bufs s p)" by auto
    let ?f = "\<lambda>b. b\<lparr>b_flag := b_flag b AND NOT BFR_UNCACHE\<rparr>"
    define s' where "s' = to_front p (upd_buf p ?f s)"
    note t = touch_ok [OF inv p(1), of ?f, folded s'_def, simplified sem_uncache, simplified]
    have ib: "is_block n u (bufs s' p)" using sem_eqD(10) [OF t(5) [of p]] p(2) by simp
    have fl: "\<not> has (b_flag (bufs s' p)) BFR_UNCACHE" unfolding t(6) has_bit by (simp add: bit_and_iff bit_not_iff bfr_bit)
    have "getblk drv n u False s = Some (Some p, s')"
      using searchblock_ring [OF r, of n u] Some fl by (simp add: getblk_def s'_def)
    moreover have "got drv rd M xs s u n p (p # remove1 p xs) s'" using t(1-4) ib fl by (simp add: got_def)
    ultimately show ?thesis using t(5,6) p by auto
  next
    case None
    then have miss: "\<forall>q \<in> set xs. \<not> is_block n u (bufs s q)" by (auto simp: find_None_iff)
    define p where "p = lru_victim s xs"
    have p: "p \<in> set xs" unfolding p_def using r by (rule lru_victim_in)
    let ?f = "\<lambda>b. b\<lparr>b_flag := b_flag b OR BFR_UNCACHE\<rparr>" and ?xs = "p # remove1 p xs"
    define s1 where "s1 = to_front p (upd_buf p ?f s)"
    note t = touch_ok [OF inv p, of ?f, folded s1_def, simplified sem_uncache, simplified]
    have sb: "searchblock n u s = Some (p, s1)" using searchblock_ring [OF r, of n u] None by (simp add: p_def s1_def Let_def)
    have fl: "has (b_flag (bufs s1 p)) BFR_UNCACHE" unfolding t(6) has_bit by (simp add: bit_or_iff bfr_bit)
    have px: "p \<in> set ?xs" by simp
    obtain dv db where f: "flush1 drv p s1 = Some (True, upd_buf p clean (dev_only dv db s1))"
      and i2: "cache_inv drv rd M ?xs (upd_buf p clean (dev_only dv db s1))"
      and v2: "\<And>v b. drives s1 v \<noteq> None \<Longrightarrow> (v, b) \<notin> M \<Longrightarrow>
          view rd ?xs (upd_buf p clean (dev_only dv db s1)) v b = view rd ?xs s1 v b"
      using flush1_ok [OF t(1) px] unfolding Let_def by blast
    define s2 where "s2 = upd_buf p clean (dev_only dv db s1)"
    note i2 = i2 [folded s2_def] and v2 = v2 [folded s2_def]
    have e2: "same_env s s2" unfolding s2_def
      by (rule same_env_trans [OF t(4) same_env_trans [OF same_env_dev same_env_upd]])
    have dr: "drives s2 = drives s" "drives s1 = drives s" using e2 t(4) by (simp_all add: same_env_def)
    have miss2: "\<forall>q \<in> set ?xs. \<not> is_block n u (bufs s2 q)"
      using miss t(3) sem_eqD(10) [OF t(5)] by (simp add: s2_def)
    have nd: "\<not> is_dirty (bufs s2 p)" by (simp add: s2_def is_dirty_iff)
    have u2: "drives s2 u \<noteq> None" using u dr by simp
    obtain dp where dp: "drives s2 u = Some dp" using u2 by blast
    have lens: "length (b_buffer (bufs s2 p)) = 512" "length (deblock_buf s2) = 512" "disk_driver drv rd"
      using i2 by (simp_all add: cache_inv_def buf_ok_def)
    obtain dv3 db3 where x: "dskxfer drv u n (bufhigh s2) (b_buffer (bufs s2 p)) 1 DSKREAD s2
        = Some (0, sector rd s2 u n, dev_only dv3 db3 s2)" "rd dv3 = rd (device s2)" "length db3 = 512"
      using dskxfer_read [OF lens(3) dp lens(1,2)] by blast
    define s3 where "s3 = dev_only dv3 db3 s2"
    have b3: "bufs s3 = bufs s2" "drives s3 = drives s2" by (simp_all add: s3_def)
    note i3 = cache_inv_dev [OF i2 x(2,3), folded s3_def]
    define s4 where "s4 = upd_buf p (loaded u n (sector rd s2 u n)) s3"
    note l = load_ok [OF i3(1) px _ _ , of n u, unfolded i3(3), folded s4_def]
    have i4: "cache_inv drv rd M ?xs s4" using l(1) nd miss2 u2 b3 by simp
    have v4: "view rd ?xs s4 v b = view rd ?xs s2 v b" if "(v, b) \<notin> M" for v b
      using l(2) nd miss2 u2 b3 that i3(2) by simp
    have e4: "same_env s s4" unfolding s4_def s3_def
      by (rule same_env_trans [OF e2 same_env_trans [OF same_env_dev same_env_upd]])
    have "getblk drv n u False s = Some (Some p, s4)"
      using sb fl f x(1) by (simp add: getblk_def s2_def [symmetric] s3_def [symmetric])
        (simp add: s4_def upd_buf_def loaded_def)
    moreover have "got drv rd M xs s u n p ?xs s4"
      unfolding got_def using i4 e4 t(3) v4 v2 t(2) dr by (simp add: s4_def is_block_iff)
    moreover have "sem (bufs s4 q) = sem (bufs s q) \<and> b_flag (bufs s4 q) = b_flag (bufs s q)" if "q \<noteq> p" for q
      using that t(5,6) by (simp add: s4_def s3_def s2_def)
    ultimately show ?thesis using miss p_def by blast
  qed
qed

end
