(* ===== verification/BlockFlush.thy ===== *)
theory BlockFlush
  imports BlockGet
begin

text \<open>
  Changing a cached block, giving a buffer up, and the walks around the ring that write back:
  after \<^const>\<open>flush\<close> the disks hold what the file system saw.
\<close>

lemma modify_ok:
  assumes inv: "cache_inv drv rd M xs s" and p: "p \<in> set xs" "is_block n u (bufs s p)"
    and b: "b' = f (bufs s p)" "b_next b' = b_next (bufs s p)" "b_prev b' = b_prev (bufs s p)"
      "is_block n u b'" "length (b_buffer b') = 512"
      "fdirty b' \<or> (u, n) \<in> M \<or> b_buffer b' = sector rd s u n" "ffat b' \<Longrightarrow> 0 < b_copies b' \<and> extra_blocks s b' \<subseteq> M"
  shows "cache_inv drv rd M xs (upd_buf p f s)"
    "view rd xs (upd_buf p f s) v c = (if v = u \<and> c = n then b_buffer b' else view rd xs s v c)"
proof -
  define s' where "s' = upd_buf p f s"
  have env: "same_env s s'" "device s' = device s" "deblock_buf s' = deblock_buf s" by (simp_all add: s'_def)
  have sec: "sector rd s' = sector rd s" using same_env_sector [OF env(1)] env(2) by simp
  have ex: "extra_blocks s' b = extra_blocks s b" for b using same_env_copies [OF env(1)] by (simp add: extra_blocks_def)
  have dr: "drives s' = drives s" using env(1) by (simp add: same_env_def)
  have oth: "bufs s' q = bufs s q" if "q \<noteq> p" for q using that by (simp add: s'_def)
  have new: "bufs s' p = b'" by (simp add: s'_def b)
  have blk: "fvalid b'" "blk_of b' = (u, n)" "fvalid (bufs s p)" "blk_of (bufs s p) = (u, n)"
    using p b(4) by (simp_all add: is_block_iff)
  have ok: "buf_ok rd M s' (bufs s' q)" if q: "q \<in> set xs" for q
  proof -
    have o: "buf_ok rd M s (bufs s q)" using inv q by (simp add: cache_inv_def)
    show ?thesis
    proof (cases "q = p")
      case True
      have "b_unit (bufs s p) = u" "b_unit b' = u" "b_blkno b' = n" using blk by (simp_all add: blk_of_def)
      with True o b(5-7) blk show ?thesis unfolding buf_ok_def True new sec dr ex by auto
    next
      case False
      with o show ?thesis unfolding oth [OF False] buf_ok_def sec dr ex by blast
    qed
  qed
  have "b_next (bufs s' q) = b_next (bufs s q)" "b_prev (bufs s' q) = b_prev (bufs s q)" for q
    by (cases "q = p"; simp add: new oth b(2,3))+
  then have "path (bufs s') ys = path (bufs s) ys" for ys by (intro iffI; elim path_frame) simp_all
  then have r': "ring s' xs" using inv by (simp add: cache_inv_def ring_def s'_def)
  have q: "fvalid (bufs s' q) = fvalid (bufs s q)" "blk_of (bufs s' q) = blk_of (bufs s q)" for q
    by (cases "q = p"; simp add: blk new oth)+
  have inv': "cache_inv drv rd M xs s'"
    using r' inv ok same_env_units [OF env(1)] unfolding cache_inv_def env(3) q by blast
  then show "cache_inv drv rd M xs (upd_buf p f s)" by (simp add: s'_def)
  have ib: "is_block c v (bufs s' q) = is_block c v (bufs s q)" for q c v using q by (simp add: is_block_iff)
  have "view rd xs s' v c = (if v = u \<and> c = n then b_buffer b' else view rd xs s v c)"
  proof (cases "v = u \<and> c = n")
    case True
    with view_hit [OF inv' p(1), of n u] b(4) new show ?thesis by simp
  next
    case False
    from inv show ?thesis
    proof (rule view_cases [where b = c and u = v])
      fix q assume q: "q \<in> set xs" "is_block c v (bufs s q)" "view rd xs s v c = b_buffer (bufs s q)"
      have "q \<noteq> p" using q(2) False blk by (auto simp: is_block_iff)
      with q view_hit [OF inv' q(1), of c v] ib oth False show ?thesis by auto
    next
      assume "\<forall>p \<in> set xs. \<not> is_block c v (bufs s p)" "view rd xs s v c = sector rd s v c"
      with view_miss [of xs c v s' rd] ib sec False show ?thesis by auto
    qed
  qed
  then show "view rd xs (upd_buf p f s) v c = (if v = u \<and> c = n then b_buffer b' else view rd xs s v c)"
    by (simp add: s'_def)
qed

definition drop_valid :: "buffer \<Rightarrow> buffer" where
  "drop_valid b = b\<lparr>b_flag := b_flag b AND NOT BFR_VALID\<rparr>"

lemma drop_valid_simps [simp]: "\<not> fvalid (drop_valid b)" "b_next (drop_valid b) = b_next b" "b_prev (drop_valid b) = b_prev b"
  "b_buffer (drop_valid b) = b_buffer b" "\<not> is_block n u (drop_valid b)"
proof -
  show "\<not> fvalid (drop_valid b)" by (simp add: drop_valid_def flag_bits)
  then show "\<not> is_block n u (drop_valid b)" by (simp add: is_block_iff)
qed (simp_all add: drop_valid_def)

lemma drop_view:
  assumes inv: "cache_inv drv rd M xs s" and p: "p \<in> set xs"
    and f: "\<not> fvalid (f (bufs s p))" "\<And>b. b_next (f b) = b_next b" "\<And>b. b_prev (f b) = b_prev b" "\<And>b. b_buffer (f b) = b_buffer b"
  shows "cache_inv drv rd M xs (upd_buf p f s)"
    "view rd xs (upd_buf p f s) v c = (if is_block c v (bufs s p) then sector rd s v c else view rd xs s v c)"
proof -
  define s' where "s' = upd_buf p f s"
  have env: "same_env s s'" "device s' = device s" "deblock_buf s' = deblock_buf s" by (simp_all add: s'_def)
  have sec: "sector rd s' = sector rd s" using same_env_sector [OF env(1)] env(2) by simp
  have ex: "extra_blocks s' b = extra_blocks s b" for b using same_env_copies [OF env(1)] by (simp add: extra_blocks_def)
  have dr: "drives s' = drives s" using env(1) by (simp add: same_env_def)
  have oth: "bufs s' q = bufs s q" if "q \<noteq> p" for q using that by (simp add: s'_def)
  have new: "bufs s' p = f (bufs s p)" by (simp add: s'_def)
  have ok: "buf_ok rd M s' (bufs s' q)" if q: "q \<in> set xs" for q
  proof -
    have "buf_ok rd M s (bufs s q)" using inv q by (simp add: cache_inv_def)
    then show ?thesis
      by (cases "q = p") (auto simp: new oth buf_ok_def sec dr ex f)
  qed
  have sub: "fvalid (bufs s' q) \<Longrightarrow> q \<noteq> p \<and> bufs s' q = bufs s q" for q using f(1) new oth by (cases "q = p") auto
  have "ring s' xs" using inv f by (simp add: s'_def ring_upd_buf cache_inv_def)
  then have inv': "cache_inv drv rd M xs s'"
    using inv ok sub same_env_units [OF env(1)] unfolding cache_inv_def env(3) by metis
  then show "cache_inv drv rd M xs (upd_buf p f s)" by (simp add: s'_def)
  from inv have "view rd xs s' v c = (if is_block c v (bufs s p) then sector rd s v c else view rd xs s v c)"
  proof (rule view_cases [where b = c and u = v])
    fix q assume q: "q \<in> set xs" "is_block c v (bufs s q)" "view rd xs s v c = b_buffer (bufs s q)"
    show ?thesis
    proof (cases "q = p")
      case False
      have "\<not> is_block c v (bufs s p)" using inv q(1,2) p False unfolding cache_inv_def is_block_iff by metis
      with False q view_hit [OF inv' q(1), of c v] oth show ?thesis by simp
    next
      case True
      have "\<forall>r \<in> set xs. \<not> is_block c v (bufs s' r)"
        using inv q True sub unfolding cache_inv_def is_block_iff by metis
      then show ?thesis using view_miss [of xs c v s' rd] q(2) True sec by simp
    qed
  next
    assume h: "\<forall>p \<in> set xs. \<not> is_block c v (bufs s p)" "view rd xs s v c = sector rd s v c"
    then have "\<forall>r \<in> set xs. \<not> is_block c v (bufs s' r)" using sub by (metis is_block_iff)
    with h view_miss [of xs c v s' rd] sec show ?thesis by simp
  qed
  then show "view rd xs (upd_buf p f s) v c = (if is_block c v (bufs s p) then sector rd s v c else view rd xs s v c)" by (simp add: s'_def)
qed

lemma drop_ok:
  assumes inv: "cache_inv drv rd M xs s" and p: "p \<in> set xs" "\<not> is_dirty (bufs s p)"
    and f: "\<not> fvalid (f (bufs s p))" "\<And>b. b_next (f b) = b_next b" "\<And>b. b_prev (f b) = b_prev b"
      "\<And>b. b_buffer (f b) = b_buffer b"
  shows "cache_inv drv rd M xs (upd_buf p f s)"
    "(v, c) \<notin> M \<Longrightarrow> view rd xs (upd_buf p f s) v c = view rd xs s v c"
proof -
  note d = drop_view [OF inv p(1) f]
  show "cache_inv drv rd M xs (upd_buf p f s)" by (rule d(1))
  assume m: "(v, c) \<notin> M"
  have "sector rd s v c = view rd xs s v c" if b: "is_block c v (bufs s p)"
    using view_hit [OF inv p(1) b] b p inv m unfolding cache_inv_def buf_ok_def by (auto simp: is_block_iff is_dirty_iff blk_of_def)
  then show "view rd xs (upd_buf p f s) v c = view rd xs s v c" unfolding d(2) by simp
qed

subsection \<open>Walking around the ring\<close>

lemma ring_walk:
  assumes ps: "xs = qs @ ps" "ps \<noteq> []" and I: "I ps a s" and r: "ring s xs"
    and step: "\<And>p ps a s. p \<in> set xs \<Longrightarrow> ring s xs \<Longrightarrow> I (p # ps) a s \<Longrightarrow>
      \<exists>a' s'. act p (a, s) = Some (a', s') \<and> ring s' xs \<and> I ps a' s'"
  shows "\<exists>a' s'. loopM (ring_body act) (hd ps, a, s) = Some (a', s') \<and> ring s' xs \<and> I [] a' s'"
  using ps I r
proof (induction ps arbitrary: qs a s)
  case (Cons p ps)
  have "p \<in> set xs" using Cons.prems(1) by simp
  from step [OF this Cons.prems(4,3)] obtain a' s' where
    st: "act p (a, s) = Some (a', s')" "ring s' xs" "I ps a' s'" by blast
  have pth: "path (bufs s') ((qs @ p # ps) @ [hd xs])" "firstbuf s' = hd xs" "distinct xs"
    using st(2) Cons.prems(1) by (simp_all add: ring_def)
  then have nx: "b_next (bufs s' p) = hd (ps @ [hd xs])"
    using path_append [of "bufs s'" qs p "ps @ [hd xs]"] by (cases ps) (auto simp: linked_def)
  show ?case
  proof (cases "ps = []")
    case True
    with st nx pth show ?thesis by (simp add: ring_body_def loopM_Inl)
  next
    case False
    have "hd ps \<noteq> hd xs" using False pth(3) Cons.prems(1) by (cases qs; cases ps) auto
    then have "ring_body act (p, a, s) = Some (Inr (hd ps, a', s'))"
      using st nx pth False by (simp add: ring_body_def)
    moreover from Cons.IH [of "qs @ [p]" a' s'] Cons.prems(1) False st
    have "\<exists>a'' s''. loopM (ring_body act) (hd ps, a', s') = Some (a'', s'') \<and> ring s'' xs \<and> I [] a'' s''" by simp
    ultimately show ?thesis by (simp add: loopM_Inr)
  qed
qed simp

lemma ring_do_rule:
  assumes r: "ring s xs" and I: "I xs a s"
    and step: "\<And>p ps a s. p \<in> set xs \<Longrightarrow> ring s xs \<Longrightarrow> I (p # ps) a s \<Longrightarrow>
      \<exists>a' s'. act p (a, s) = Some (a', s') \<and> ring s' xs \<and> I ps a' s'"
  shows "\<exists>a' s'. ring_do act a s = Some (a', s') \<and> ring s' xs \<and> I [] a' s'"
proof -
  have "xs \<noteq> []" "firstbuf s = hd xs" using r by (simp_all add: ring_def)
  with ring_walk [of xs "[]" xs I a s act] r I step show ?thesis unfolding ring_do_def by simp
qed

text \<open>The relation between a state and the one a walk has reached.\<close>

definition kept :: "'d driver \<Rightarrow> ('d \<Rightarrow> u16 \<Rightarrow> u8 \<Rightarrow> u32 \<Rightarrow> u8 list) \<Rightarrow> (u8 \<times> u32) set \<Rightarrow> u16 list \<Rightarrow> 'd kst \<Rightarrow> 'd kst \<Rightarrow> bool" where
  "kept drv rd M xs s0 s \<longleftrightarrow> cache_inv drv rd M xs s \<and> same_env s0 s
     \<and> (\<forall>v c. drives s0 v \<noteq> None \<longrightarrow> (v, c) \<notin> M \<longrightarrow> view rd xs s v c = view rd xs s0 v c)"

lemma kept_flush1:
  assumes k: "kept drv rd M xs s0 s" and p: "p \<in> set xs"
  obtains s1 where "flush1 drv p s = Some (True, s1)" "kept drv rd M xs s0 s1" "bufs s1 = (bufs s)(p := clean (bufs s p))"
proof -
  have inv: "cache_inv drv rd M xs s" and env: "same_env s0 s" using k by (simp_all add: kept_def)
  from flush1_ok [OF inv p] obtain dv db where
    f: "flush1 drv p s = Some (True, upd_buf p clean (dev_only dv db s))"
      "cache_inv drv rd M xs (upd_buf p clean (dev_only dv db s))"
      "\<forall>u b. drives s u \<noteq> None \<longrightarrow> (u, b) \<notin> M \<longrightarrow> view rd xs (upd_buf p clean (dev_only dv db s)) u b = view rd xs s u b"
    unfolding Let_def by blast
  have "same_env s0 (upd_buf p clean (dev_only dv db s))"
    by (rule same_env_trans [OF env same_env_trans [OF same_env_dev same_env_upd]])
  moreover have "drives s = drives s0" using env by (simp add: same_env_def)
  ultimately show ?thesis using f k by (intro that [of "upd_buf p clean (dev_only dv db s)"]) (simp_all add: kept_def)
qed

lemma kept_refl: "cache_inv drv rd M xs s \<Longrightarrow> kept drv rd M xs s s"
  by (simp add: kept_def)

lemma flush_ok:
  assumes inv: "cache_inv drv rd M xs s"
  shows "\<exists>s'. flush drv s = Some (True, s') \<and> kept drv rd M xs s s' \<and> (\<forall>p \<in> set xs. \<not> fvalid (bufs s' p))"
proof -
  let ?I = "\<lambda>ps ok s1. ok \<and> kept drv rd M xs s s1 \<and> (\<forall>p \<in> set xs. p \<notin> set ps \<longrightarrow> \<not> fvalid (bufs s1 p))"
  have "\<exists>a' s'. ring_do (flush_act drv) True s = Some (a', s') \<and> ring s' xs \<and> ?I [] a' s'"
  proof (rule ring_do_rule)
    show "ring s xs" "?I xs True s" using inv by (simp_all add: kept_refl cache_inv_def)
  next
    fix p ps ok s1 assume p: "p \<in> set xs" and I: "?I (p # ps) ok s1"
    then have "kept drv rd M xs s s1" by simp
    then obtain s2 where s2: "flush1 drv p s1 = Some (True, s2)" "kept drv rd M xs s s2"
      "bufs s2 = (bufs s1)(p := clean (bufs s1 p))" using p by (rule kept_flush1)
    let ?s3 = "upd_buf p drop_valid s2"
    have nd: "\<not> is_dirty (bufs s2 p)" by (simp add: s2(3) is_dirty_iff)
    have i2: "cache_inv drv rd M xs s2" using s2(2) by (simp add: kept_def)
    note d = drop_ok [OF i2 p nd, of drop_valid, simplified]
    have "kept drv rd M xs s ?s3"
      using d s2(2) same_env_trans [OF _ same_env_upd, of s s2] by (simp add: kept_def)
    moreover have "flush_act drv p (ok, s1) = Some (True, ?s3)"
      using s2(1) I by (simp add: flush_act_def drop_valid_def [abs_def])
    moreover have "ring ?s3 xs" using d(1) by (simp add: cache_inv_def)
    moreover have "\<forall>q \<in> set xs. q \<notin> set ps \<longrightarrow> \<not> fvalid (bufs ?s3 q)" using I s2(3) by auto
    ultimately show "\<exists>a' s'. flush_act drv p (ok, s1) = Some (a', s') \<and> ring s' xs \<and> ?I ps a' s'" by blast
  qed
  then show ?thesis by (auto simp: flush_def)
qed

lemma flush_buffers_ok:
  assumes inv: "cache_inv drv rd M xs s"
  shows "\<exists>s'. flush_buffers drv dsk s = Some (True, s') \<and> kept drv rd M xs s s'
    \<and> (\<forall>p \<in> set xs. b_unit (bufs s' p) = dsk \<longrightarrow> \<not> is_dirty (bufs s' p))"
proof -
  let ?I = "\<lambda>ps ok s1. ok \<and> kept drv rd M xs s s1
    \<and> (\<forall>p \<in> set xs. p \<notin> set ps \<longrightarrow> b_unit (bufs s1 p) = dsk \<longrightarrow> \<not> is_dirty (bufs s1 p))"
  have "\<exists>a' s'. ring_do (flush_buffers_act drv dsk) True s = Some (a', s') \<and> ring s' xs \<and> ?I [] a' s'"
  proof (rule ring_do_rule)
    show "ring s xs" "?I xs True s" using inv by (simp_all add: kept_refl cache_inv_def)
  next
    fix p ps ok s1 assume p: "p \<in> set xs" and I: "?I (p # ps) ok s1" and r: "ring s1 xs"
    show "\<exists>a' s'. flush_buffers_act drv dsk p (ok, s1) = Some (a', s') \<and> ring s' xs \<and> ?I ps a' s'"
    proof (cases "b_unit (bufs s1 p) = dsk")
      case False
      with I r show ?thesis by (auto simp: flush_buffers_act_def)
    next
      case True
      from I have "kept drv rd M xs s s1" by simp
      then obtain s2 where s2: "flush1 drv p s1 = Some (True, s2)" "kept drv rd M xs s s2"
        "bufs s2 = (bufs s1)(p := clean (bufs s1 p))" using p by (rule kept_flush1)
      moreover have "ring s2 xs" using s2(2) by (simp add: kept_def cache_inv_def)
      moreover have "\<forall>q \<in> set xs. q \<notin> set ps \<longrightarrow> b_unit (bufs s2 q) = dsk \<longrightarrow> \<not> is_dirty (bufs s2 q)"
        using I s2(3) by (auto simp: is_dirty_iff)
      ultimately show ?thesis using True I by (intro exI [of _ True] exI [of _ s2]) (simp add: flush_buffers_act_def)
    qed
  qed
  then show ?thesis by (auto simp: flush_buffers_def)
qed

end
