(* ===== verification/FatTab.thy ===== *)
theory FatTab
  imports BlockFlush
begin

text \<open>
  The file allocation table, \<^verbatim>\<open>kernel/fattab.c\<close>: reading and writing FAT entries of the three formats
  through the block cache, the free cluster count and the FAT32 information sector. A cluster
  number has 32 bits. \<^term>\<open>None\<close> is, besides a driver call that never ends, an access through the
  \<^verbatim>\<open>NULL\<close> pointer that \<^verbatim>\<open>getblock\<close> returns on an error and that \<^verbatim>\<open>read_fsinfo\<close> and
  \<^verbatim>\<open>write_fsinfo\<close> do not test for.
\<close>

subsection \<open>Constants and formats (hdr/fat.h)\<close>

definition READ_CLUSTER :: u32 where "READ_CLUSTER = 1"
definition FREE :: u32 where "FREE = 0"
definition LONG_LAST_CLUSTER :: u32 where "LONG_LAST_CLUSTER = 0x0FFFFFFF"
definition LONG_BAD :: u32 where "LONG_BAD = 0x0FFFFFF7"
definition MASK16 :: u16 where "MASK16 = 0xFFF8"
definition BAD16 :: u16 where "BAD16 = 0xFFF7"
definition MASK12 :: u16 where "MASK12 = 0xFF8"
definition BAD12 :: u16 where "BAD12 = 0xFF7"
definition XUNKNCLSTFREE :: u32 where "XUNKNCLSTFREE = 0xFFFFFFFF"
definition UNKNCLSTFREE :: u16 where "UNKNCLSTFREE = 0xFFFF"
definition UNKNCLUSTER :: u32 where "UNKNCLUSTER = 0"
definition FAT_NO_MIRRORING :: u16 where "FAT_NO_MIRRORING = 0x80"

named_theorems fat_consts \<open>the constants of hdr/fat.h\<close>

declare READ_CLUSTER_def [fat_consts] FREE_def [fat_consts] LONG_LAST_CLUSTER_def [fat_consts]
  LONG_BAD_def [fat_consts] MASK16_def [fat_consts] BAD16_def [fat_consts] MASK12_def [fat_consts]
  BAD12_def [fat_consts] XUNKNCLSTFREE_def [fat_consts] UNKNCLSTFREE_def [fat_consts]
  UNKNCLUSTER_def [fat_consts] FAT_NO_MIRRORING_def [fat_consts]

definition ISFAT32 :: "dpb \<Rightarrow> bool" where "ISFAT32 d \<longleftrightarrow> dpb_fatsize d = 0"
definition ISFAT16 :: "dpb \<Rightarrow> bool" where "ISFAT16 d \<longleftrightarrow> dpb_size d > 4085 \<and> dpb_size d \<le> 65525"
definition ISFAT12 :: "dpb \<Rightarrow> bool" where "ISFAT12 d \<longleftrightarrow> dpb_size d - 1 < 4085"

definition upd_dpb :: "u16 \<Rightarrow> (dpb \<Rightarrow> dpb) \<Rightarrow> 'd kst \<Rightarrow> 'd kst" where
  "upd_dpb dp f s = s\<lparr>dpbs := (dpbs s)(dp := f (dpbs s dp))\<rparr>"

text \<open>Little-endian words in a buffer.\<close>

definition getword :: "u8 list \<Rightarrow> nat \<Rightarrow> u16" where
  "getword bs i = ucast (bs ! i) OR push_bit 8 (ucast (bs ! (i + 1)))"

definition putword :: "nat \<Rightarrow> u16 \<Rightarrow> u8 list \<Rightarrow> u8 list" where
  "putword i w bs = bs[i := ucast w, i + 1 := ucast (drop_bit 8 w)]"

definition getlong :: "u8 list \<Rightarrow> nat \<Rightarrow> u32" where
  "getlong bs i = ucast (getword bs i) OR push_bit 16 (ucast (getword bs (i + 2)))"

definition putlong :: "nat \<Rightarrow> u32 \<Rightarrow> u8 list \<Rightarrow> u8 list" where
  "putlong i w bs = putword (i + 2) (ucast (drop_bit 16 w)) (putword i (ucast w) bs)"

subsection \<open>Blocks of the FAT\<close>

definition clusterMessage :: "string \<Rightarrow> u32 \<Rightarrow> 'd kst \<Rightarrow> 'd kst" where
  "clusterMessage msg c s = s\<lparr>faterrs := faterrs s @ [(msg, c)]\<rparr>"

definition mark_fat :: "dpb \<Rightarrow> u16 \<Rightarrow> buffer \<Rightarrow> buffer" where
  "mark_fat d dp b =
     b\<lparr>b_flag := (b_flag b AND NOT (BFR_DATA OR BFR_DIR)) OR (BFR_FAT OR BFR_VALID), b_dpbp := dp,
       b_copies := (if ISFAT32 d \<and> dpb_xflags d AND FAT_NO_MIRRORING \<noteq> 0 then 1 else dpb_fats d),
       b_offset := dpb_fatsize d\<rparr>"

definition getFATblock :: "'d driver \<Rightarrow> u16 \<Rightarrow> u32 \<Rightarrow> 'd kst \<Rightarrow> (u16 option \<times> 'd kst) option" where
  "getFATblock drv dp clussec s = do {
     (bp, s1) \<leftarrow> getblock drv clussec (dpb_unit (dpbs s dp)) s;
     Some (case bp of
       Some p \<Rightarrow> (Some p, upd_buf p (mark_fat (dpbs s1 dp) dp) s1)
     | None \<Rightarrow> (None, clusterMessage ''I/O: 0x'' clussec s1))
   }"

subsection \<open>The FAT32 information sector\<close>

definition read_fsinfo :: "'d driver \<Rightarrow> u16 \<Rightarrow> 'd kst \<Rightarrow> 'd kst option" where
  "read_fsinfo drv dp s =
     (if dpb_xfsinfosec (dpbs s dp) = 0xFFFF then Some s
      else do {
        (bp, s1) \<leftarrow> getblock drv (ucast (dpb_xfsinfosec (dpbs s dp))) (dpb_unit (dpbs s dp)) s;
        p \<leftarrow> bp;
        let s2 = upd_buf p (\<lambda>b. b\<lparr>b_flag := (b_flag b AND NOT (BFR_DATA OR BFR_DIR OR BFR_FAT OR BFR_DIRTY)) OR BFR_VALID\<rparr>) s1;
        let buf = b_buffer (bufs s2 p);
        let d = dpbs s2 dp;
        let nfree = getlong buf (0x1e4 + 4);
        let nfree' = (if nfree \<ge> dpb_xsize d then XUNKNCLSTFREE else nfree);
        let clust = getlong buf (0x1e4 + 8);
        let clust' = (if clust < 2 \<or> clust > dpb_xsize d then UNKNCLUSTER else clust);
        Some (upd_dpb dp (\<lambda>d. d\<lparr>dpb_xnfreeclst := nfree', dpb_xcluster := clust'\<rparr>) s2)
      })"

definition write_fsinfo :: "'d driver \<Rightarrow> u16 \<Rightarrow> 'd kst \<Rightarrow> 'd kst option" where
  "write_fsinfo drv dp s =
     (if dpb_xfsinfosec (dpbs s dp) = 0xFFFF then Some s
      else do {
        (bp, s1) \<leftarrow> getblock drv (ucast (dpb_xfsinfosec (dpbs s dp))) (dpb_unit (dpbs s dp)) s;
        p \<leftarrow> bp;
        let s2 = upd_buf p (\<lambda>b. b\<lparr>b_flag := (b_flag b AND NOT (BFR_DATA OR BFR_DIR OR BFR_FAT)) OR BFR_VALID\<rparr>) s1;
        let buf = b_buffer (bufs s2 p);
        let d = dpbs s2 dp;
        let s3 = (if getlong buf (0x1e4 + 4) \<noteq> dpb_xnfreeclst d \<or> getlong buf (0x1e4 + 8) \<noteq> dpb_xcluster d
                  then upd_buf p (\<lambda>b. b\<lparr>b_flag := b_flag b OR BFR_DIRTY\<rparr>) s2 else s2);
        Some (upd_buf p (\<lambda>b. b\<lparr>b_buffer := putlong (0x1e4 + 8) (dpb_xcluster d)
                (putlong (0x1e4 + 4) (dpb_xnfreeclst d) (b_buffer b))\<rparr>) s3)
      })"

subsection \<open>link_fat\<close>

definition max_cluster :: "dpb \<Rightarrow> u32" where
  "max_cluster d = (if ISFAT32 d then dpb_xsize d else ucast (dpb_size d))"

text \<open>The sector of the FAT that holds the entry of a cluster and the index of the entry in it.\<close>

definition fat_pos :: "dpb \<Rightarrow> u32 \<Rightarrow> u32 \<times> u16" where
  "fat_pos d c =
     (let clussec = (if ISFAT12 d then ucast (ucast c * 3 :: u16) else c);
          secdiv = (if ISFAT12 d then dpb_secsize d * 2
                    else if ISFAT32 d then dpb_secsize d div 2 div 2 else dpb_secsize d div 2);
          idx = ucast (clussec mod ucast secdiv);
          sec = clussec div ucast secdiv + ucast (dpb_fatstrt d);
          sec' = (if ISFAT32 d \<and> dpb_xflags d AND FAT_NO_MIRRORING \<noteq> 0
                  then sec + ucast (dpb_xflags d AND 0xf) * dpb_xfatsize d else sec)
      in (sec', idx))"

text \<open>
  The three formats. Each returns \<^term>\<open>Inl r\<close> for a \<^verbatim>\<open>return r\<close> and \<^term>\<open>Inr wasfree\<close> when the entry was
  written and the code below the case distinction follows.
\<close>

definition unpack12 :: "u32 \<Rightarrow> u16 \<Rightarrow> u16" where
  "unpack12 c w = (if c AND 1 \<noteq> 0 then drop_bit 4 w else w) AND 0xfff"

definition pack12 :: "u32 \<Rightarrow> u16 \<Rightarrow> u32 \<Rightarrow> u16" where
  "pack12 c w v =
     (let v12 = ucast v AND 0xfff in
      if ucast c AND (1 :: u16) \<noteq> 0 then (w AND 0xf) OR push_bit 4 v12 else (w AND 0xf000) OR v12)"

definition set_dirty :: "buffer \<Rightarrow> buffer" where
  "set_dirty b = b\<lparr>b_flag := b_flag b OR (BFR_DIRTY OR BFR_VALID)\<rparr>"

definition put_byte :: "nat \<Rightarrow> u8 \<Rightarrow> buffer \<Rightarrow> buffer" where
  "put_byte i v b = b\<lparr>b_buffer := (b_buffer b)[i := v]\<rparr>"

definition link12 :: "'d driver \<Rightarrow> u16 \<Rightarrow> u32 \<Rightarrow> u32 \<Rightarrow> u32 \<Rightarrow> u16 \<Rightarrow> u16 \<Rightarrow> 'd kst \<Rightarrow>
    ((u32 + bool) \<times> 'd kst) option" where
  "link12 drv dp c1 c2 clussec idx0 bp s =
     (let idx = unat (idx0 div 2) in do {
        (p1, s1) \<leftarrow>
          (if idx0 div 2 \<ge> dpb_secsize (dpbs s dp) - 1 then do {
             (bp1, s1) \<leftarrow> getFATblock drv dp (ucast (ucast clussec + 1 :: u16)) s;
             Some (case bp1 of
               None \<Rightarrow> (None, s1)
             | Some p \<Rightarrow> (Some (p, 0), if c2 \<noteq> READ_CLUSTER then upd_buf p set_dirty s1 else s1))
           } else Some (Some (bp, idx + 1), s));
        case p1 of
          None \<Rightarrow> Some (Inl 1, s1)
        | Some (q, j) \<Rightarrow>
            let w = ucast (b_buffer (bufs s1 bp) ! idx) OR push_bit 8 (ucast (b_buffer (bufs s1 q) ! j));
                cluster = unpack12 c1 w
            in if (ucast c2 :: u16) = 1 then
                 Some (Inl (if cluster \<ge> MASK12 then LONG_LAST_CLUSTER
                            else if cluster = BAD12 then LONG_BAD else ucast cluster), s1)
               else
                 let v = pack12 c1 w c2;
                     s2 = upd_buf bp (put_byte idx (ucast v)) s1;
                     s3 = upd_buf q (put_byte j (ucast (drop_bit 8 v))) s2
                 in Some (Inr (cluster = 0), s3)
      })"

definition link16 :: "u32 \<Rightarrow> u16 \<Rightarrow> u16 \<Rightarrow> 'd kst \<Rightarrow> (u32 + bool) \<times> 'd kst" where
  "link16 c2 idx bp s =
     (let res = getword (b_buffer (bufs s bp)) (unat (idx * 2)) in
      if (ucast c2 :: u16) = 1 then
        (Inl (if res \<ge> MASK16 then LONG_LAST_CLUSTER else if res = BAD16 then LONG_BAD else ucast res), s)
      else (Inr (res = 0),
            upd_buf bp (\<lambda>b. b\<lparr>b_buffer := putword (unat (idx * 2)) (ucast c2) (b_buffer b)\<rparr>) s))"

definition link32 :: "u32 \<Rightarrow> u16 \<Rightarrow> u16 \<Rightarrow> 'd kst \<Rightarrow> (u32 + bool) \<times> 'd kst" where
  "link32 c2 idx bp s =
     (let res = getlong (b_buffer (bufs s bp)) (unat (idx * 4)) AND LONG_LAST_CLUSTER in
      if c2 = READ_CLUSTER then (Inl (if res > LONG_BAD then LONG_LAST_CLUSTER else res), s)
      else (Inr (res = FREE),
            upd_buf bp (\<lambda>b. b\<lparr>b_buffer := putlong (unat (idx * 4)) (c2 AND LONG_LAST_CLUSTER) (b_buffer b)\<rparr>) s))"

text \<open>The free cluster count follows a write.\<close>

definition count_free :: "'d driver \<Rightarrow> u16 \<Rightarrow> u32 \<Rightarrow> bool \<Rightarrow> 'd kst \<Rightarrow> 'd kst option" where
  "count_free drv dp c2 wasfree s =
     (if c2 = FREE \<or> wasfree then
        let adjust = (if \<not> wasfree then 1 else if c2 \<noteq> FREE then -1 else 0);
            d = dpbs s dp
        in if ISFAT32 d \<and> dpb_xnfreeclst d \<noteq> XUNKNCLSTFREE then
             write_fsinfo drv dp (upd_dpb dp (\<lambda>d. d\<lparr>dpb_xnfreeclst := dpb_xnfreeclst d + adjust\<rparr>) s)
           else if dpb_nfreeclst d \<noteq> UNKNCLSTFREE then
             Some (upd_dpb dp (\<lambda>d. set_nfreeclst (dpb_nfreeclst d + ucast adjust) d) s)
           else Some s
      else Some s)"

definition link_fat :: "'d driver \<Rightarrow> u16 \<Rightarrow> u32 \<Rightarrow> u32 \<Rightarrow> 'd kst \<Rightarrow> (u32 \<times> 'd kst) option" where
  "link_fat drv dp c1 c2 s =
     (let d = dpbs s dp; maxc = max_cluster d in
      if c1 \<le> 1 \<or> c1 > maxc then Some (1, clusterMessage ''index: 0x'' c1 s)
      else if c2 < LONG_BAD \<and> c2 > maxc then Some (1, clusterMessage ''write: 0x'' c2 s)
      else (case fat_pos d c1 of (clussec, idx) \<Rightarrow> do {
        (bp, s1) \<leftarrow> getFATblock drv dp clussec s;
        case bp of
          None \<Rightarrow> Some (1, s1)
        | Some p \<Rightarrow> do {
            (r, s2) \<leftarrow>
              (if ISFAT12 d then link12 drv dp c1 c2 clussec idx p s1
               else if ISFAT16 d then Some (link16 c2 idx p s1)
               else if ISFAT32 d then Some (link32 c2 idx p s1)
               else Some (Inl 1, s1));
            case r of
              Inl v \<Rightarrow> Some (v, s2)
            | Inr wasfree \<Rightarrow> do {
                s3 \<leftarrow> count_free drv dp c2 wasfree (upd_buf p set_dirty s2);
                Some (0, s3)
              }
          }
      }))"

definition next_cluster :: "'d driver \<Rightarrow> u16 \<Rightarrow> u32 \<Rightarrow> 'd kst \<Rightarrow> (u32 \<times> 'd kst) option" where
  "next_cluster drv dp c s = do {
     (candidate, s1) \<leftarrow> link_fat drv dp c READ_CLUSTER s;
     if candidate < 2 \<or> candidate \<ge> LONG_BAD then Some (candidate, s1)
     else do {
       let maxc = max_cluster (dpbs s1 dp);
       (following, s2) \<leftarrow> link_fat drv dp candidate READ_CLUSTER s1;
       if following < 2 \<or> following < LONG_BAD \<and> following > maxc
       then Some (1, clusterMessage ''value: 0x'' following s2)
       else Some (candidate, s2)
     }
   }"

definition is_free_cluster :: "'d driver \<Rightarrow> u16 \<Rightarrow> u32 \<Rightarrow> 'd kst \<Rightarrow> (bool \<times> 'd kst) option" where
  "is_free_cluster drv dp c s = do {
     (v, s1) \<leftarrow> link_fat drv dp c READ_CLUSTER s;
     Some (v = FREE, s1)
   }"

end
