(* ===== verification/FatNode.thy ===== *)
theory FatNode
  imports FatTab SysTime Share
begin

text \<open>
  The data of the FAT file system: directory entries (\<^verbatim>\<open>hdr/fat.h\<close>), file nodes (\<^verbatim>\<open>hdr/fnode.h\<close>),
  directory searches (\<^verbatim>\<open>hdr/dirmatch.h\<close>), system file table entries (\<^verbatim>\<open>hdr/sft.h\<close>) and current
  directories (\<^verbatim>\<open>hdr/cds.h\<close>), the state of the file system, and the functions of \<^verbatim>\<open>kernel/fatfs.c\<close> and
  \<^verbatim>\<open>kernel/fatdir.c\<close> on these data alone. Characters are bytes; a string argument is the list of its
  characters before the terminating zero. A far pointer to a drive parameter block is its offset.
\<close>

subsection \<open>Constants\<close>

definition D_RDONLY :: u8 where "D_RDONLY = 0x01"
definition D_HIDDEN :: u8 where "D_HIDDEN = 0x02"
definition D_SYSTEM :: u8 where "D_SYSTEM = 0x04"
definition D_VOLID :: u8 where "D_VOLID = 0x08"
definition D_DIR :: u8 where "D_DIR = 0x10"
definition D_ARCHIVE :: u8 where "D_ARCHIVE = 0x20"
definition D_DEVICE :: u8 where "D_DEVICE = 0x40"
definition D_LFN :: u8 where "D_LFN = D_RDONLY OR D_HIDDEN OR D_SYSTEM OR D_VOLID"
definition D_ALL :: u8 where "D_ALL = D_RDONLY OR D_HIDDEN OR D_SYSTEM OR D_DIR OR D_ARCHIVE"
definition DELETED :: u8 where "DELETED = 0x05"
definition EXT_DELETED :: u8 where "EXT_DELETED = 0xe5"
definition FAT_MAGIC :: u16 where "FAT_MAGIC = 4085"
definition SFT_FSHARED :: u16 where "SFT_FSHARED = 0x8000"
definition SFT_FDEVICE :: u16 where "SFT_FDEVICE = 0x0080"
definition SFT_FDATE :: u16 where "SFT_FDATE = 0x4000"
definition SFT_FCLEAN :: u16 where "SFT_FCLEAN = 0x0040"
definition O_ACCMODE :: u16 where "O_ACCMODE = 0x0003"
definition O_RDONLY :: u16 where "O_RDONLY = 0x0000"
definition O_OPEN :: u16 where "O_OPEN = 0x0100"
definition O_TRUNC :: u16 where "O_TRUNC = 0x0200"
definition O_CREAT :: u16 where "O_CREAT = 0x0400"
definition O_FCB :: u16 where "O_FCB = 0x8000"
definition S_OPENED :: int where "S_OPENED = 1"
definition S_CREATED :: int where "S_CREATED = 2"
definition S_REPLACED :: int where "S_REPLACED = 3"
definition MAX_CDSPATH :: nat where "MAX_CDSPATH = 67"

named_theorems attrs \<open>attribute bits, flags and open modes\<close>

declare D_RDONLY_def [attrs] D_HIDDEN_def [attrs] D_SYSTEM_def [attrs] D_VOLID_def [attrs] D_DIR_def [attrs]
  D_ARCHIVE_def [attrs] D_DEVICE_def [attrs] D_LFN_def [attrs] D_ALL_def [attrs] DELETED_def [attrs]
  EXT_DELETED_def [attrs] FAT_MAGIC_def [attrs] SFT_FSHARED_def [attrs] SFT_FDEVICE_def [attrs]
  SFT_FDATE_def [attrs] SFT_FCLEAN_def [attrs] O_ACCMODE_def [attrs] O_RDONLY_def [attrs] O_OPEN_def [attrs]
  O_TRUNC_def [attrs] O_CREAT_def [attrs] O_FCB_def [attrs] S_OPENED_def [attrs] S_CREATED_def [attrs]
  S_REPLACED_def [attrs] MAX_CDSPATH_def [attrs]

subsection \<open>Records\<close>

record dirent =
  dir_name :: "u8 list"
  dir_attrib :: u8
  dir_case :: u8
  dir_crtimems :: u8
  dir_crtime :: u16
  dir_crdate :: u16
  dir_accdate :: u16
  dir_start_high :: u16
  dir_time :: u16
  dir_date :: u16
  dir_start :: u16
  dir_size :: u32

text \<open>The fields of a search that the kernel itself uses; the found file is copied by the callers.\<close>

record dmatch =
  dm_drive :: u8
  dm_name_pat :: "u8 list"
  dm_attr_srch :: u8
  dm_entry :: u16
  dm_dircluster :: u32

text \<open>
  A file node. Its \<^verbatim>\<open>f_dmp\<close> is not a field: the first node always uses \<^verbatim>\<open>sda_tmp_dm\<close> and the second
  one \<^verbatim>\<open>sda_tmp_dm_ren\<close>, see \<^verbatim>\<open>dir_init_fnode\<close>.
\<close>

record f_node =
  f_flags :: u16
  f_dir :: dirent
  f_dirsector :: u32
  f_diridx :: u8
  f_dpb :: u16
  f_offset :: u32
  f_cluster_offset :: u32
  f_cluster :: u32
  f_sft_idx :: u8

record sft =
  sft_count :: u16
  sft_mode :: u16
  sft_attrib :: u8
  sft_flags :: u16
  sft_dcb :: u16
  sft_relclust_high :: u16
  sft_time :: u16
  sft_date :: u16
  sft_size :: u32
  sft_posit :: u32
  sft_relclust :: u16
  sft_dirsector :: u32
  sft_diridx :: u8
  sft_name :: "u8 list"
  sft_stclust :: u32
  sft_psp :: u16
  sft_shroff :: u16
  sft_cuclust :: u32

record cds =
  cdsCurrentPath :: "u8 list"
  cdsFlags :: u16
  cdsDpb :: "u16 option"
  cdsStrtClst :: u16
  cdsBackslashOffset :: u16

text \<open>
  The state: \<open>ks\<close> is the kernel below the file system, \<open>fnode\<close> and \<open>dmat\<close> the two file nodes and their
  searches, \<open>sfts\<close> the entries of the tables linked from \<^verbatim>\<open>sfthead\<close> in order, \<open>CDSp\<close> the array of current directories of \<^verbatim>\<open>lastdrive\<close> drives,
  \<open>share_resident\<close> says whether SHARE answers its installation check and \<open>shares\<close> is its state;
  \<open>clock\<close> is the clock, \<open>stack_time\<close> and \<open>stack_date\<close> what the locals of \<^verbatim>\<open>dos_gettime\<close> and
  \<^verbatim>\<open>dos_getdate\<close> hold before they are assigned.
\<close>

record ('d, 'c) fs =
  ks :: "'d kst"
  fnode :: "nat \<Rightarrow> f_node"
  dmat :: "nat \<Rightarrow> dmatch"
  sfts :: "sft list"
  CDSp :: "cds list"
  share_installed :: bool
  share_resident :: bool
  shares :: share
  SearchDir :: dirent
  clock :: "'c clockst"
  stack_time :: dostime
  stack_date :: dosdate

definition upd_fn :: "nat \<Rightarrow> (f_node \<Rightarrow> f_node) \<Rightarrow> ('d, 'c) fs \<Rightarrow> ('d, 'c) fs" where
  "upd_fn k f s = s\<lparr>fnode := (fnode s)(k := f (fnode s k))\<rparr>"

definition upd_dm :: "nat \<Rightarrow> (dmatch \<Rightarrow> dmatch) \<Rightarrow> ('d, 'c) fs \<Rightarrow> ('d, 'c) fs" where
  "upd_dm k f s = s\<lparr>dmat := (dmat s)(k := f (dmat s k))\<rparr>"

definition upd_dir :: "nat \<Rightarrow> (dirent \<Rightarrow> dirent) \<Rightarrow> ('d, 'c) fs \<Rightarrow> ('d, 'c) fs" where
  "upd_dir k f = upd_fn k (\<lambda>fn. fn\<lparr>f_dir := f (f_dir fn)\<rparr>)"

definition CDSNETWDRV :: u16 where "CDSNETWDRV = 0x8000"
definition CDSPHYSDRV :: u16 where "CDSPHYSDRV = 0x4000"
definition CDSJOINED :: u16 where "CDSJOINED = 0x2000"
definition CDSSUBST :: u16 where "CDSSUBST = 0x1000"
definition CDSVALID :: u16 where "CDSVALID = CDSNETWDRV OR CDSPHYSDRV"

definition get_cds :: "u16 \<Rightarrow> ('d, 'c) fs \<Rightarrow> cds option" where
  "get_cds drive s =
     (if unat drive \<ge> length (CDSp s) then None
      else let c = CDSp s ! unat drive in
        if cdsFlags c AND CDSVALID = 0 \<or> cdsFlags c AND CDSJOINED \<noteq> 0 then None
        else if cdsFlags c AND CDSNETWDRV = 0 \<and> cdsDpb c = None then None
        else Some c)"

abbreviation dpb_of :: "nat \<Rightarrow> ('d, 'c) fs \<Rightarrow> dpb" where
  "dpb_of k s \<equiv> dpbs (ks s) (f_dpb (fnode s k))"

abbreviation dir_of :: "nat \<Rightarrow> ('d, 'c) fs \<Rightarrow> dirent" where
  "dir_of k s \<equiv> f_dir (fnode s k)"

text \<open>A character of a string, zero at its end.\<close>

definition ch :: "u8 list \<Rightarrow> nat \<Rightarrow> u8" where
  "ch p i = (if i < length p then p ! i else 0)"

text \<open>Bytes copied over a part of a buffer.\<close>

definition overlay :: "nat \<Rightarrow> 'a list \<Rightarrow> 'a list \<Rightarrow> 'a list" where
  "overlay i ys xs = take i xs @ take (length xs - i) ys @ drop (i + length ys) xs"

subsection \<open>Directory entries on disk\<close>

definition getdirent :: "u8 list \<Rightarrow> dirent" where
  "getdirent bs =
     \<lparr>dir_name = take 11 bs, dir_attrib = bs ! 11, dir_case = bs ! 12, dir_crtimems = bs ! 13,
      dir_crtime = getword bs 14, dir_crdate = getword bs 16, dir_accdate = getword bs 18,
      dir_start_high = getword bs 20, dir_time = getword bs 22, dir_date = getword bs 24,
      dir_start = getword bs 26, dir_size = getlong bs 28\<rparr>"

definition word_bytes2 :: "u16 \<Rightarrow> u8 list" where
  "word_bytes2 w = [ucast w, ucast (drop_bit 8 w)]"

definition long_bytes4 :: "u32 \<Rightarrow> u8 list" where
  "long_bytes4 w = word_bytes2 (ucast w) @ word_bytes2 (ucast (drop_bit 16 w))"

definition putdirent :: "dirent \<Rightarrow> u8 list" where
  "putdirent e =
     dir_name e @ [dir_attrib e, dir_case e, dir_crtimems e] @ word_bytes2 (dir_crtime e) @ word_bytes2 (dir_crdate e)
     @ word_bytes2 (dir_accdate e) @ word_bytes2 (dir_start_high e) @ word_bytes2 (dir_time e) @ word_bytes2 (dir_date e)
     @ word_bytes2 (dir_start e) @ long_bytes4 (dir_size e)"

definition dirent0 :: dirent where
  "dirent0 = \<lparr>dir_name = replicate 11 0, dir_attrib = 0, dir_case = 0, dir_crtimems = 0, dir_crtime = 0,
     dir_crdate = 0, dir_accdate = 0, dir_start_high = 0, dir_time = 0, dir_date = 0, dir_start = 0, dir_size = 0\<rparr>"

definition getdstart :: "dpb \<Rightarrow> dirent \<Rightarrow> u32" where
  "getdstart d e =
     (if \<not> ISFAT32 d then ucast (dir_start e)
      else push_bit 16 (ucast (dir_start_high e)) OR ucast (dir_start e))"

definition setdstart :: "dpb \<Rightarrow> u32 \<Rightarrow> dirent \<Rightarrow> dirent" where
  "setdstart d v e =
     (let e1 = e\<lparr>dir_start := ucast v\<rparr> in if ISFAT32 d then e1\<lparr>dir_start_high := ucast (drop_bit 16 v)\<rparr> else e1)"

definition clus2phys :: "u32 \<Rightarrow> dpb \<Rightarrow> u32" where
  "clus2phys cl_no d =
     push_bit (unat (dpb_shftcnt d)) (cl_no - 2) + (if ISFAT32 d then dpb_xdata d else ucast (dpb_data d))"

definition swap_deleted :: "u8 list \<Rightarrow> u8 list" where
  "swap_deleted name =
     (if ch name 0 = DELETED \<or> ch name 0 = EXT_DELETED then name[0 := ch name 0 XOR (EXT_DELETED - DELETED)] else name)"

subsection \<open>Dates and times of files\<close>

definition DT_ENCODE :: "u16 \<Rightarrow> u16 \<Rightarrow> u16 \<Rightarrow> u16" where
  "DT_ENCODE m d y = push_bit 5 (m AND 0x0f) OR (d AND 0x1f) OR push_bit 9 (y AND 0x7f)"

definition DT_YEAR :: "u16 \<Rightarrow> u16" where "DT_YEAR d = drop_bit 9 d AND 0x7f"
definition DT_MONTH :: "u16 \<Rightarrow> u16" where "DT_MONTH d = drop_bit 5 d AND 0x0f"
definition DT_DAY :: "u16 \<Rightarrow> u16" where "DT_DAY d = d AND 0x1f"

definition time_encode :: "dostime \<Rightarrow> u16" where
  "time_encode t = push_bit 11 (ucast (t_hour t)) OR push_bit 5 (ucast (t_minute t)) OR drop_bit 1 (ucast (t_second t))"

definition dos_getdate :: "(ClockRecord, 'c) chardrv \<Rightarrow> ('d, 'c) fs \<Rightarrow> (u16 \<times> ('d, 'c) fs) option" where
  "dos_getdate clk s = do {
     (_, dd, c) \<leftarrow> DosGetDate clk (stack_date s) (clock s);
     Some (DT_ENCODE (ucast (d_month dd)) (ucast (d_monthday dd)) (d_year dd - 1980), s\<lparr>clock := c\<rparr>)
   }"

definition dos_gettime :: "(ClockRecord, 'c) chardrv \<Rightarrow> ('d, 'c) fs \<Rightarrow> (u16 \<times> ('d, 'c) fs) option" where
  "dos_gettime clk s = do {
     (dt, c) \<leftarrow> DosGetTime clk (stack_time s) (clock s);
     Some (time_encode dt, s\<lparr>clock := c\<rparr>)
   }"

text \<open>\<^verbatim>\<open>unsigned char\<close> is truncated where the attribute is stored.\<close>

definition init_direntry :: "(ClockRecord, 'c) chardrv \<Rightarrow> u16 \<Rightarrow> u32 \<Rightarrow> u8 list \<Rightarrow> ('d, 'c) fs \<Rightarrow> (dirent \<times> ('d, 'c) fs) option" where
  "init_direntry clk attrib cluster name s = do {
     (t, s1) \<leftarrow> dos_gettime clk s;
     (d, s2) \<leftarrow> dos_getdate clk s1;
     Some (dirent0\<lparr>dir_name := take 11 name, dir_start_high := ucast (drop_bit 16 cluster), dir_start := ucast cluster,
             dir_attrib := ucast attrib, dir_time := t, dir_date := d\<rparr>, s2)
   }"

subsection \<open>Names\<close>

definition fcmp_wild :: "u8 list \<Rightarrow> u8 list \<Rightarrow> nat \<Rightarrow> bool" where
  "fcmp_wild s1 s2 n \<longleftrightarrow> (\<forall>i \<in> set [0..<n]. \<not> (ch s1 i \<noteq> 0x3f \<and> ch s1 i \<noteq> ch s2 i))"

definition fcbmatch :: "u8 list \<Rightarrow> u8 list \<Rightarrow> bool" where
  "fcbmatch a b \<longleftrightarrow> take 11 a = take 11 b"

text \<open>The position after the last character that is not a blank: the loops over \<^verbatim>\<open>loop\<close>, plus one.\<close>

fun trimmed :: "u8 list \<Rightarrow> nat \<Rightarrow> nat" where
  "trimmed cs 0 = 0"
| "trimmed cs (Suc n) = (if ch cs n \<noteq> 0x20 then Suc n else trimmed cs n)"

definition ConvertName83ToNameSZ :: "u8 list \<Rightarrow> u8 list" where
  "ConvertName83ToNameSZ src =
     (let noExtension = (ch src 0 = 0x2e);
          base = take (trimmed (take 8 src) 8) (take 8 src);
          ext = drop 8 src;
          n = trimmed ext 3
      in if \<not> noExtension \<and> n > 0 then base @ [0x2e] @ take n ext else base)"

text \<open>
  The name is built in a field of 11 blanks; \<open>i\<close> is the position. A second dot sets the position back.
  The loop ends at the end of the name, at a backslash or when the field is full; the rest of the path
  is returned.
\<close>

fun sz83_loop :: "nat \<Rightarrow> u8 list \<Rightarrow> u8 list \<Rightarrow> u8 list \<times> u8 list" where
  "sz83_loop i fcb [] = (fcb, [])"
| "sz83_loop i fcb (c # cs) =
     (if \<not> i < 11 then (fcb, c # cs)
      else if c = 0x2e then sz83_loop 8 fcb cs
      else if c \<noteq> 0 \<and> c \<noteq> 0x5c then sz83_loop (i + 1) (fcb[i := c]) cs
      else (fcb, c # cs))"

definition ConvertNameSZToName83 :: "u8 list \<Rightarrow> u8 list \<times> u8 list" where
  "ConvertNameSZToName83 dirname = sz83_loop 0 (replicate 11 0x20) dirname"

end
