(* ===== verification/FatClus.thy ===== *)
theory FatClus
  imports FatNode
begin

text \<open>
  The part of \<^verbatim>\<open>kernel/fatfs.c\<close> that works on clusters: finding, chaining and releasing clusters,
  following the chain of a file, the free space of a drive, and the drive parameter block built from a
  BIOS parameter block when the medium has changed. \<^term>\<open>None\<close> is a call that does not return, as in
  \<^verbatim>\<open>fattab.c\<close>. Messages on the console are not modelled. A sector size is never zero.
\<close>

subsection \<open>Free clusters\<close>

definition set_hint :: "u16 \<Rightarrow> u32 \<Rightarrow> 'd kst \<Rightarrow> 'd kst" where
  "set_hint dp c = upd_dpb dp (\<lambda>d. if ISFAT32 d then d\<lparr>dpb_xcluster := c\<rparr> else d\<lparr>dpb_cluster := ucast c\<rparr>)"

definition ffree_body :: "'d driver \<Rightarrow> u16 \<Rightarrow> u32 \<Rightarrow> u32 \<Rightarrow> u32 \<times> 'd kst \<Rightarrow>
    ((u32 \<times> u32 \<times> 'd kst) + (u32 \<times> 'd kst)) option" where
  "ffree_body drv dp sz cluster v = (case v of (idx, s) \<Rightarrow> do {
     (fr, s1) \<leftarrow> is_free_cluster drv dp idx s;
     Some (if fr then Inl (idx, idx, s1)
           else let idx' = (if idx + 1 > sz then 2 else idx + 1)
                in if idx' = cluster then Inl (UNKNCLUSTER, LONG_LAST_CLUSTER, s1) else Inr (idx', s1))
   })"

definition find_fat_free :: "'d driver \<Rightarrow> u16 \<Rightarrow> 'd kst \<Rightarrow> (u32 \<times> 'd kst) option" where
  "find_fat_free drv dp s =
     (let d = dpbs s dp;
          sz = (if ISFAT32 d then dpb_xsize d else ucast (dpb_size d));
          idx = (if ISFAT32 d then if dpb_xcluster d \<noteq> UNKNCLUSTER then dpb_xcluster d else 2
                 else if dpb_cluster d \<noteq> 0 then ucast (dpb_cluster d) else 2)
      in do {
        (cluster, idx', s1) \<leftarrow> loopM (ffree_body drv dp sz idx) (idx, s);
        let s2 = set_hint dp cluster s1;
        s3 \<leftarrow> (if ISFAT32 (dpbs s2 dp) then write_fsinfo drv dp s2 else Some s2);
        Some (idx', s3)
      })"

definition free_body :: "'d driver \<Rightarrow> u16 \<Rightarrow> u32 \<Rightarrow> u32 \<times> u32 \<times> 'd kst \<Rightarrow>
    ((u32 \<times> 'd kst) + (u32 \<times> u32 \<times> 'd kst)) option" where
  "free_body drv dp maxc v = (case v of (i, cnt, s) \<Rightarrow>
     if i \<le> maxc then do {
       (fr, s1) \<leftarrow> is_free_cluster drv dp i s;
       Some (Inr (if fr then (i + 1, cnt + 1, if cnt = 0 then set_hint dp i s1 else s1) else (i + 1, cnt, s1)))
     } else Some (Inl (cnt, s)))"

definition dos_free :: "'d driver \<Rightarrow> u16 \<Rightarrow> 'd kst \<Rightarrow> (u32 \<times> 'd kst) option" where
  "dos_free drv dp s =
     (let d = dpbs s dp in
      if ISFAT32 d \<and> dpb_xnfreeclst d \<noteq> XUNKNCLSTFREE then Some (dpb_xnfreeclst d, s)
      else if \<not> ISFAT32 d \<and> dpb_nfreeclst d \<noteq> UNKNCLSTFREE then Some (ucast (dpb_nfreeclst d), s)
      else do {
        (cnt, s1) \<leftarrow> loopM (free_body drv dp (if ISFAT32 d then dpb_xsize d else ucast (dpb_size d))) (2, 0, s);
        if ISFAT32 (dpbs s1 dp) then do {
          s2 \<leftarrow> write_fsinfo drv dp (upd_dpb dp (\<lambda>d. d\<lparr>dpb_xnfreeclst := cnt\<rparr>) s1);
          Some (cnt, s2)
        } else Some (cnt, upd_dpb dp (set_nfreeclst (ucast cnt)) s1)
      })"

subsection \<open>Releasing a chain\<close>

definition lower_hint :: "u16 \<Rightarrow> u32 \<Rightarrow> 'd kst \<Rightarrow> 'd kst" where
  "lower_hint dp st = upd_dpb dp (\<lambda>d.
     if ISFAT32 d then
       if dpb_xcluster d = UNKNCLUSTER \<or> dpb_xcluster d > st then d\<lparr>dpb_xcluster := st\<rparr> else d
     else if dpb_cluster d = 0 \<or> dpb_cluster d > ucast st then d\<lparr>dpb_cluster := ucast st\<rparr> else d)"

definition wipe_body :: "'d driver \<Rightarrow> u16 \<Rightarrow> u32 \<times> 'd kst \<Rightarrow> ('d kst + (u32 \<times> 'd kst)) option" where
  "wipe_body drv dp v = (case v of (st, s) \<Rightarrow>
     if st \<noteq> LONG_LAST_CLUSTER then do {
       (nxt, s1) \<leftarrow> next_cluster drv dp st s;
       if nxt \<le> 1 then Some (Inl s1)
       else do {
         (r, s2) \<leftarrow> link_fat drv dp st FREE s1;
         Some (if r \<noteq> 0 then Inl s2 else Inr (nxt, lower_hint dp st s2))
       }
     } else do {
       s1 \<leftarrow> (if ISFAT32 (dpbs s dp) then write_fsinfo drv dp s else Some s);
       Some (Inl s1)
     })"

definition wipe_out_clusters :: "'d driver \<Rightarrow> u16 \<Rightarrow> u32 \<Rightarrow> 'd kst \<Rightarrow> 'd kst option" where
  "wipe_out_clusters drv dp st s = loopM (wipe_body drv dp) (st, s)"

definition wipe_out :: "'d driver \<Rightarrow> f_node \<Rightarrow> 'd kst \<Rightarrow> 'd kst option" where
  "wipe_out drv fn s =
     (let cluster = getdstart (dpbs s (f_dpb fn)) (f_dir fn)
      in if cluster \<noteq> FREE then wipe_out_clusters drv (f_dpb fn) cluster s else Some s)"

subsection \<open>Growing a chain\<close>

definition extend_chain :: "'d driver \<Rightarrow> f_node \<Rightarrow> 'd kst \<Rightarrow> (u32 \<times> f_node \<times> 'd kst) option" where
  "extend_chain drv fn s = do {
     (free_fat, s1) \<leftarrow> find_fat_free drv (f_dpb fn) s;
     if free_fat = LONG_LAST_CLUSTER then Some (free_fat, fn, s1)
     else do {
       (r, s2) \<leftarrow> link_fat drv (f_dpb fn) free_fat LONG_LAST_CLUSTER s1;
       if r \<noteq> 0 then Some (LONG_LAST_CLUSTER, fn, s2)
       else if f_cluster fn = FREE then
         Some (free_fat, fn\<lparr>f_dir := setdstart (dpbs s2 (f_dpb fn)) free_fat (f_dir fn)\<rparr>, s2)
       else do {
         (nxt, s3) \<leftarrow> next_cluster drv (f_dpb fn) (f_cluster fn) s2;
         if nxt \<noteq> LONG_LAST_CLUSTER then Some (LONG_LAST_CLUSTER, fn, s3)
         else do {
           (r2, s4) \<leftarrow> link_fat drv (f_dpb fn) (f_cluster fn) free_fat s3;
           Some (if r2 \<noteq> 0 then LONG_LAST_CLUSTER else free_fat, fn, s4)
         }
       }
     }
   }"

subsection \<open>Following a chain\<close>

definition map_body :: "'d driver \<Rightarrow> u16 \<Rightarrow> u32 \<Rightarrow> f_node \<times> 'd kst \<Rightarrow>
    ((int \<times> f_node \<times> 'd kst) + (f_node \<times> 'd kst)) option" where
  "map_body drv mode relcluster v = (case v of (fn, s) \<Rightarrow>
     if f_cluster_offset fn = relcluster then Some (Inl (SUCCESS, fn, s))
     else do {
       (cluster, s1) \<leftarrow> next_cluster drv (f_dpb fn) (f_cluster fn) s;
       if cluster \<le> 1 then Some (Inl (DE_SEEK, fn, s1))
       else if cluster = LONG_LAST_CLUSTER then
         if mode = XFR_READ then Some (Inl (DE_SEEK, fn, s1))
         else do {
           (cluster', fn2, s2) \<leftarrow> extend_chain drv fn s1;
           Some (if cluster' = LONG_LAST_CLUSTER then Inl (DE_HNDLDSKFULL, fn2, s2)
                 else Inr (fn2\<lparr>f_cluster := cluster', f_cluster_offset := f_cluster_offset fn2 + 1\<rparr>, s2))
         }
       else Some (Inr (fn\<lparr>f_cluster := cluster, f_cluster_offset := f_cluster_offset fn + 1\<rparr>, s1))
     })"

text \<open>\<open>dircl\<close> is the \<^verbatim>\<open>dm_dircluster\<close> of the node's search.\<close>

definition map_start :: "u32 \<Rightarrow> u32 \<Rightarrow> dpb \<Rightarrow> f_node \<Rightarrow> f_node" where
  "map_start dircl relcluster d fn =
     (if relcluster < f_cluster_offset fn then
        fn\<lparr>f_cluster := (if f_sft_idx fn = 0xff then dircl else getdstart d (f_dir fn)), f_cluster_offset := 0\<rparr>
      else fn)"

definition map_cluster :: "'d driver \<Rightarrow> u32 \<Rightarrow> u16 \<Rightarrow> f_node \<Rightarrow> 'd kst \<Rightarrow> (int \<times> f_node \<times> 'd kst) option" where
  "map_cluster drv dircl mode fn s =
     (if f_cluster fn = FREE \<and> mode = XFR_READ then Some (DE_SEEK, fn, s)
      else do {
        (full, fn1, s1) \<leftarrow>
          (if f_cluster fn = FREE then do {
             (cluster, fn1, s1) \<leftarrow> extend_chain drv fn s;
             Some (if cluster = LONG_LAST_CLUSTER then (True, fn1, s1) else (False, fn1\<lparr>f_cluster := cluster\<rparr>, s1))
           } else Some (False, fn, s));
        if full then Some (DE_HNDLDSKFULL, fn1, s1)
        else
          let d = dpbs s1 (f_dpb fn1);
              relcluster = drop_bit (unat (dpb_shftcnt d)) (f_offset fn1 div ucast (dpb_secsize d))
          in loopM (map_body drv mode relcluster) (map_start dircl relcluster d fn1, s1)
      })"

subsection \<open>Clearing a cluster\<close>

fun clear_blocks :: "'d driver \<Rightarrow> u16 \<Rightarrow> u32 \<Rightarrow> nat \<Rightarrow> u32 \<Rightarrow> 'd kst \<Rightarrow> (int \<times> 'd kst) option" where
  "clear_blocks drv dp cluster 0 idx s = Some (SUCCESS, s)"
| "clear_blocks drv dp cluster (Suc n) idx s = do {
     (bp, s1) \<leftarrow> getblockOver drv (clus2phys cluster (dpbs s dp) + idx) (dpb_unit (dpbs s dp)) s;
     case bp of
       None \<Rightarrow> Some (DE_ACCESS, s1)
     | Some p \<Rightarrow> clear_blocks drv dp cluster n (idx + 1)
         (upd_buf p (\<lambda>b. b\<lparr>b_buffer := replicate 512 0, b_flag := b_flag b OR (BFR_DIRTY OR BFR_VALID)
            OR (if idx \<noteq> 0 then BFR_UNCACHE else 0)\<rparr>) s1)
   }"

definition clear_dir :: "'d driver \<Rightarrow> f_node \<Rightarrow> u32 \<Rightarrow> 'd kst \<Rightarrow> (int \<times> 'd kst) option" where
  "clear_dir drv fn cluster s =
     clear_blocks drv (f_dpb fn) cluster (unat (dpb_clsmask (dpbs s (f_dpb fn))) + 1) 0 s"

subsection \<open>Truncating a file\<close>

definition shrink_file :: "'d driver \<Rightarrow> u32 \<Rightarrow> f_node \<Rightarrow> 'd kst \<Rightarrow> (int \<times> f_node \<times> 'd kst) option" where
  "shrink_file drv dircl fn s =
     (let lastoffset = f_offset fn; dp = f_dpb fn; finish = (\<lambda>r fn s. Some (r, fn\<lparr>f_offset := lastoffset\<rparr>, s)) in
      if f_offset fn = 0 \<and> f_cluster fn = FREE then finish SUCCESS fn s
      else do {
        (rc, fn1, s1) \<leftarrow> map_cluster drv dircl XFR_READ (if f_offset fn \<noteq> 0 then fn\<lparr>f_offset := f_offset fn - 1\<rparr> else fn) s;
        if rc \<noteq> SUCCESS then finish DE_ACCESS fn1 s1
        else do {
          let st = f_cluster fn1;
          (nxt, s2) \<leftarrow> next_cluster drv dp st s1;
          if nxt \<le> 1 then finish DE_ACCESS fn1 s2
          else
            let empty = (dir_size (f_dir fn1) = 0);
                fn2 = (if empty then fn1\<lparr>f_cluster := FREE, f_dir := setdstart (dpbs s2 dp) FREE (f_dir fn1)\<rparr> else fn1)
            in if \<not> empty \<and> nxt = LONG_LAST_CLUSTER then finish SUCCESS fn2 s2
               else do {
                 (r, s3) \<leftarrow> link_fat drv dp st (if empty then FREE else LONG_LAST_CLUSTER) s2;
                 if r \<noteq> 0 then finish DE_ACCESS fn2 s3
                 else do {
                   s4 \<leftarrow> wipe_out_clusters drv dp nxt s3;
                   (ok, s5) \<leftarrow> flush_buffers drv (dpb_unit (dpbs s4 (f_dpb fn2))) s4;
                   finish (if ok then SUCCESS else DE_ACCESS) fn2 s5
                 }
               }
        }
      })"

subsection \<open>The parameters of a drive\<close>

record bpb =
  bpb_nbyte :: u16
  bpb_nsector :: u8
  bpb_nreserved :: u16
  bpb_nfat :: u8
  bpb_ndirent :: u16
  bpb_nsize :: u16
  bpb_mdesc :: u8
  bpb_nfsect :: u16
  bpb_nsecs :: u16
  bpb_nheads :: u16
  bpb_hidden :: u32
  bpb_huge :: u32
  bpb_xnfsect :: u32
  bpb_xflags :: u16
  bpb_xfsversion :: u16
  bpb_xrootclst :: u32
  bpb_xfsinfosec :: u16
  bpb_xbackupsec :: u16

definition dpb16to32 :: "dpb \<Rightarrow> dpb" where
  "dpb16to32 d = d\<lparr>dpb_xflags := 0, dpb_xfsinfosec := 0xffff, dpb_xbackupsec := 0xffff, dpb_xrootclst := 0,
     dpb_xdata := ucast (dpb_data d), dpb_xsize := ucast (dpb_size d)\<rparr>"

function shift_loop :: "u8 \<Rightarrow> nat \<Rightarrow> nat" where
  "shift_loop n k = (if drop_bit k n > 1 then shift_loop n (k + 1) else k)"
  by pat_completeness auto

lemma drop_bit_big: "8 \<le> k \<Longrightarrow> drop_bit k (n :: u8) = 0"
  by (rule bit_word_eqI) (auto simp: bit_simps dest: bit_imp_le_length)

termination shift_loop
proof (relation "measure (\<lambda>(n, k). 8 - k)", simp)
  fix n :: u8 and k :: nat
  assume "drop_bit k n > 1"
  then have "k < 8" using drop_bit_big [of k n] by (cases "k < 8") auto
  then show "((n, k + 1), n, k) \<in> measure (\<lambda>(n, k). 8 - k)" by auto
qed

declare shift_loop.simps [simp del]

text \<open>The number of clusters is backed down to what the FAT can hold, without a change of its type.\<close>

definition fit_size :: "dpb \<Rightarrow> u16" where
  "fit_size d =
     (let tmp = ucast (dpb_fatsize d) * ucast (dpb_secsize d div 2) :: u32;
          fatsiz = ucast tmp :: u16
      in if tmp \<ge> 0x10000 then dpb_size d
         else if dpb_size d > FAT_MAGIC then
           if fatsiz \<le> FAT_MAGIC then dpb_size d
           else if dpb_size d \<ge> fatsiz then fatsiz - 1 else dpb_size d
         else
           if fatsiz \<ge> 0x4000 then dpb_size d
           else let fatsiz' = fatsiz * 4 div 3 in if dpb_size d \<ge> fatsiz' then fatsiz' - 1 else dpb_size d)"

definition bpb_volume :: "bpb \<Rightarrow> u32" where
  "bpb_volume b = (if bpb_nsize b = 0 then bpb_huge b else ucast (bpb_nsize b))"

definition bpb_base :: "bpb \<Rightarrow> dpb \<Rightarrow> dpb" where
  "bpb_base b d =
     (let shftcnt = shift_loop (bpb_nsector b) 0;
          dirstrt = bpb_nreserved b + ucast (bpb_nfat b) * bpb_nfsect b;
          dat = dirstrt + (bpb_ndirent b + bpb_nbyte b div 32 - 1) div (bpb_nbyte b div 32);
          d1 = d\<lparr>dpb_shftcnt := of_nat shftcnt, dpb_mdb := bpb_mdesc b, dpb_secsize := bpb_nbyte b,
                 dpb_clsmask := bpb_nsector b - 1, dpb_fatstrt := bpb_nreserved b, dpb_fats := bpb_nfat b,
                 dpb_dirents := bpb_ndirent b, dpb_fatsize := bpb_nfsect b, dpb_dirstrt := dirstrt, dpb_data := dat,
                 dpb_size := ucast (drop_bit shftcnt (bpb_volume b - ucast dat)) + 1\<rparr>
      in set_nfreeclst UNKNCLSTFREE (d1\<lparr>dpb_size := fit_size d1, dpb_flags := 0, dpb_cluster := 0\<rparr>))"

definition bpb_ext :: "bpb \<Rightarrow> dpb \<Rightarrow> dpb" where
  "bpb_ext b d =
     (let d1 = dpb16to32 (d\<lparr>dpb_xfatsize := (if bpb_nfsect b = 0 then bpb_xnfsect b else ucast (bpb_nfsect b)),
                 dpb_xcluster := UNKNCLUSTER, dpb_xnfreeclst := XUNKNCLSTFREE\<rparr>)
      in if ISFAT32 d1 then
           let xdata = ucast (dpb_fatstrt d1) + ucast (dpb_fats d1) * dpb_xfatsize d1
           in d1\<lparr>dpb_xflags := bpb_xflags b, dpb_xfsinfosec := bpb_xfsinfosec b, dpb_xbackupsec := bpb_xbackupsec b,
                 dpb_dirents := 0, dpb_dirstrt := 0xffff, dpb_size := 0, dpb_xdata := xdata,
                 dpb_xsize := drop_bit (shift_loop (bpb_nsector b) 0) (bpb_volume b - xdata) + 1,
                 dpb_xrootclst := bpb_xrootclst b\<rparr>
         else d1)"

definition bpb_to_dpb :: "'d driver \<Rightarrow> bpb \<Rightarrow> u16 \<Rightarrow> bool \<Rightarrow> 'd kst \<Rightarrow> 'd kst option" where
  "bpb_to_dpb drv b dp extended s =
     (let s1 = upd_dpb dp (bpb_base b) s in
      if extended then
        let s2 = upd_dpb dp (bpb_ext b) s1
        in if ISFAT32 (dpbs s2 dp) then read_fsinfo drv dp s2 else Some s2
      else Some s1)"

text \<open>
  The requests about the medium. \<open>md_exec\<close> executes a command for a subunit and a media descriptor and
  returns the status, the return code of a media check, the BIOS parameter block and the device.
\<close>

record 'd media =
  md_exec :: "u8 \<Rightarrow> u8 \<Rightarrow> u8 \<Rightarrow> u16 \<Rightarrow> 'd \<Rightarrow> u16 \<times> u8 \<times> bpb \<times> 'd"
  md_error :: "u8 \<Rightarrow> u16 \<Rightarrow> u8 \<Rightarrow> u16 \<Rightarrow> 'd \<Rightarrow> u16 \<times> 'd"

definition C_MEDIACHK :: u8 where "C_MEDIACHK = 0x01"
definition C_BLDBPB :: u8 where "C_BLDBPB = 0x02"

text \<open>The loop: before a call (\<^term>\<open>None\<close>) or with its outcome at the error dialogue.\<close>

definition rq_body :: "'d media \<Rightarrow> u8 \<Rightarrow> dpb \<Rightarrow> (u16 \<times> u8 \<times> bpb) option \<times> 'd \<Rightarrow>
    ((int \<times> u8 \<times> bpb \<times> 'd) + ((u16 \<times> u8 \<times> bpb) option \<times> 'd))" where
  "rq_body md cmd d v = (case v of (ph, dv) \<Rightarrow>
     case ph of
       None \<Rightarrow>
         (case md_exec md cmd (dpb_subunit d) (dpb_mdb d) (dpb_device d) dv of (st, rc, b, dv1) \<Rightarrow>
            if st AND S_ERROR \<noteq> 0 \<or> st AND S_DONE = 0 then Inr (Some (st, rc, b), dv1) else Inl (SUCCESS, rc, b, dv1))
     | Some (st, rc, b) \<Rightarrow>
         (case md_error md cmd st (dpb_unit d) (dpb_device d) dv of (act, dv1) \<Rightarrow>
            if act = ABORT \<or> act = FAIL then Inl (DE_INVLDDRV, rc, b, dv1)
            else if act = RETRY then Inr (None, dv1)
            else if act = CONTINUE then Inl (SUCCESS, rc, b, dv1)
            else Inr (Some (st, rc, b), dv1)))"

definition rqblockio :: "'d media \<Rightarrow> u8 \<Rightarrow> u16 \<Rightarrow> 'd kst \<Rightarrow> (int \<times> u8 \<times> bpb \<times> 'd kst) option" where
  "rqblockio md cmd dp s = do {
     (r, rc, b, dv) \<leftarrow> loop (rq_body md cmd (dpbs s dp)) (None, device s);
     Some (r, rc, b, s\<lparr>device := dv\<rparr>)
   }"

text \<open>\<open>internal\<close> tells whether a drive parameter block lies in the kernel's own segment.\<close>

definition media_check :: "'d driver \<Rightarrow> 'd media \<Rightarrow> (u16 \<Rightarrow> bool) \<Rightarrow> u16 option \<Rightarrow> 'd kst \<Rightarrow> (int \<times> 'd kst) option" where
  "media_check drv md internal dpo s =
     (case dpo of
        None \<Rightarrow> Some (DE_INVLDDRV, s)
      | Some dp \<Rightarrow> do {
          (r, rc, _, s1) \<leftarrow> rqblockio md C_MEDIACHK dp s;
          if r < SUCCESS then Some (r, s1)
          else
            let code = rc OR dpb_flags (dpbs s1 dp) in
            if code = 1 then Some (SUCCESS, s1)
            else do {
              dirty \<leftarrow> (if code = 0 then dirty_buffers (dpb_unit (dpbs s1 dp)) s1 else Some False);
              if dirty then Some (SUCCESS, s1)
              else do {
                s2 \<leftarrow> setinvld (dpb_unit (dpbs s1 dp)) s1;
                (r2, _, b, s3) \<leftarrow> rqblockio md C_BLDBPB dp s2;
                if r2 < SUCCESS then Some (r2, s3)
                else do {
                  s4 \<leftarrow> bpb_to_dpb drv b dp (bpb_nfsect b = 0 \<or> internal dp) s3;
                  Some (SUCCESS, s4)
                }
              }
            }
        })"

end
