(* ===== verification/FatDir.thy ===== *)
theory FatDir
  imports FatClus
begin

text \<open>
  Directories, \<^verbatim>\<open>kernel/fatdir.c\<close>: reading and writing directory entries, opening a directory by its
  path, and searching. The operations take the number of the file node they work on. \<^term>\<open>None\<close> is, besides
  a call that does not return, an access through a \<^verbatim>\<open>NULL\<close> drive parameter block.
\<close>

subsection \<open>Entries\<close>

definition dir_init_fnode :: "nat \<Rightarrow> u32 \<Rightarrow> ('d, 'c) fs \<Rightarrow> ('d, 'c) fs" where
  "dir_init_fnode k dirstart s =
     (let start = (if dirstart = 0 \<and> ISFAT32 (dpb_of k s) then dpb_xrootclst (dpb_of k s) else dirstart)
      in upd_fn k (\<lambda>fn. fn\<lparr>f_sft_idx := 0xff, f_offset := 0, f_cluster_offset := 0, f_cluster := start\<rparr>)
           (upd_dm k (\<lambda>dm. dm\<lparr>dm_dircluster := start\<rparr>) s))"

definition map_node :: "'d driver \<Rightarrow> u16 \<Rightarrow> nat \<Rightarrow> ('d, 'c) fs \<Rightarrow> (int \<times> ('d, 'c) fs) option" where
  "map_node drv mode k s = do {
     (rc, fn, t) \<leftarrow> map_cluster drv (dm_dircluster (dmat s k)) mode (fnode s k) (ks s);
     Some (rc, upd_fn k (\<lambda>_. fn) (s\<lparr>ks := t\<rparr>))
   }"

text \<open>The sector of an entry: \<^term>\<open>None\<close> when it lies behind the end of the directory.\<close>

definition dir_seek :: "'d driver \<Rightarrow> nat \<Rightarrow> ('d, 'c) fs \<Rightarrow> (u32 option \<times> ('d, 'c) fs) option" where
  "dir_seek drv k s =
     (let entry = dm_entry (dmat s k); d = dpb_of k s; secsize = dpb_secsize d in
      if dm_dircluster (dmat s k) = 0 then
        if entry \<ge> dpb_dirents d then Some (None, s)
        else Some (Some (ucast (entry div (secsize div 32) + dpb_dirstrt d)), s)
      else do {
        (rc, s1) \<leftarrow> map_node drv XFR_READ k (upd_fn k (\<lambda>fn. fn\<lparr>f_offset := ucast entry * 32\<rparr>) s);
        if rc \<noteq> SUCCESS then Some (None, s1)
        else
          let secno = ucast (f_offset (fnode s1 k) div ucast secsize) AND dpb_clsmask (dpb_of k s1)
          in Some (Some (clus2phys (f_cluster (fnode s1 k)) (dpb_of k s1) + ucast secno), s1)
      })"

definition mark_dir :: "buffer \<Rightarrow> buffer" where
  "mark_dir b = b\<lparr>b_flag := (b_flag b AND NOT (BFR_DATA OR BFR_FAT)) OR (BFR_DIR OR BFR_VALID)\<rparr>"

definition dir_read :: "'d driver \<Rightarrow> nat \<Rightarrow> ('d, 'c) fs \<Rightarrow> (int \<times> ('d, 'c) fs) option" where
  "dir_read drv k s =
     (let entry = dm_entry (dmat s k); secsize = dpb_secsize (dpb_of k s) in
      if entry \<ge> 65535 then Some (DE_SEEK, s)
      else do {
        (sec, s1) \<leftarrow> dir_seek drv k s;
        case sec of
          None \<Rightarrow> Some (DE_SEEK, s1)
        | Some secno \<Rightarrow> do {
            let s2 = upd_fn k (\<lambda>fn. fn\<lparr>f_dirsector := secno\<rparr>) s1;
            (bp, t) \<leftarrow> getblock drv secno (dpb_unit (dpb_of k s2)) (ks s2);
            case bp of
              None \<Rightarrow> Some (DE_BLKINVLD, s2\<lparr>ks := t\<rparr>)
            | Some p \<Rightarrow>
                let t1 = upd_buf p mark_dir t;
                    idx = ucast (entry mod (secsize div 32)) :: u8;
                    e = getdirent (take 32 (drop (unat idx * 32) (b_buffer (bufs t1 p))));
                    e' = e\<lparr>dir_name := swap_deleted (dir_name e)\<rparr>;
                    s3 = upd_fn k (\<lambda>fn. fn\<lparr>f_diridx := idx, f_dir := e'\<rparr>) (s2\<lparr>ks := t1\<rparr>)
                in Some (if ch (dir_name e') 0 \<noteq> 0 then 1 else 0, s3)
          }
      })"

text \<open>The bytes of the fields that are also in the system file table.\<close>

definition update_bytes :: "dpb \<Rightarrow> dirent \<Rightarrow> nat \<Rightarrow> u8 list \<Rightarrow> u8 list" where
  "update_bytes d e i bs =
     (let b1 = (overlay i (dir_name e) bs)[i + 11 := dir_attrib e];
          b2 = putword (i + 26) (dir_start e) (putword (i + 24) (dir_date e) (putword (i + 22) (dir_time e) b1));
          b3 = (if ISFAT32 d then putword (i + 20) (dir_start_high e) b2 else b2)
      in putlong (i + 28) (dir_size e) b3)"

definition dir_write_update :: "'d driver \<Rightarrow> nat \<Rightarrow> bool \<Rightarrow> ('d, 'c) fs \<Rightarrow> (bool \<times> ('d, 'c) fs) option" where
  "dir_write_update drv k update s = do {
     (ok, s1) \<leftarrow>
       (if \<not> update \<or> f_flags (fnode s k) AND (SFT_FCLEAN OR SFT_FDATE) \<noteq> SFT_FCLEAN then do {
          (bp, t) \<leftarrow> getblock drv (f_dirsector (fnode s k)) (dpb_unit (dpb_of k s)) (ks s);
          Some (case bp of
            None \<Rightarrow> (False, s\<lparr>ks := t\<rparr>)
          | Some p \<Rightarrow>
              let e = (dir_of k s)\<lparr>dir_name := swap_deleted (dir_name (dir_of k s))\<rparr>;
                  i = unat (f_diridx (fnode s k)) * 32;
                  put = (\<lambda>bs. if update then update_bytes (dpb_of k s) e i bs else overlay i (putdirent e) bs);
                  name' = swap_deleted (dir_name e)
              in (True, upd_dir k (\<lambda>e. e\<lparr>dir_name := name'\<rparr>) (s\<lparr>ks := upd_buf p (\<lambda>b.
                    (mark_dir b)\<lparr>b_flag := b_flag (mark_dir b) OR BFR_DIRTY, b_buffer := put (b_buffer b)\<rparr>) t\<rparr>)))
        } else Some (True, s));
     if \<not> ok then Some (False, s1)
     else do {
       (r, t) \<leftarrow> flush_buffers drv (dpb_unit (dpb_of k s1)) (ks s1);
       Some (r, s1\<lparr>ks := t\<rparr>)
     }
   }"

abbreviation "dir_write drv k \<equiv> dir_write_update drv k False"

definition next_entry :: "nat \<Rightarrow> ('d, 'c) fs \<Rightarrow> ('d, 'c) fs" where
  "next_entry k = upd_dm k (\<lambda>dm. dm\<lparr>dm_entry := dm_entry dm + 1\<rparr>)"

subsection \<open>Opening a directory\<close>

text \<open>The search for a name in a directory; the loop is left with whether it was found.\<close>

definition scan_dir :: "'d driver \<Rightarrow> nat \<Rightarrow> (dirent \<Rightarrow> bool) \<Rightarrow> ('d, 'c) fs \<Rightarrow> (int \<times> ('d, 'c) fs) option" where
  "scan_dir drv k hit s =
     loopM (\<lambda>s. do {
       (r, s1) \<leftarrow> dir_read drv k s;
       Some (if r = 1 then if hit (dir_of k s1) then Inl (1, s1) else Inr (next_entry k s1) else Inl (r, s1))
     }) s"

definition open_body :: "'d driver \<Rightarrow> nat \<Rightarrow> bool \<Rightarrow> u8 list \<times> ('d, 'c) fs \<Rightarrow>
    ((bool \<times> ('d, 'c) fs) + (u8 list \<times> ('d, 'c) fs)) option" where
  "open_body drv k split v = (case v of (pname, s) \<Rightarrow>
     case pname of
       [] \<Rightarrow> Some (Inl (True, s))
     | _ # rest \<Rightarrow>
         if rest = [] then Some (Inl (True, s))
         else
           let (fcb, rest') = ConvertNameSZToName83 rest; s1 = upd_dm k (\<lambda>dm. dm\<lparr>dm_name_pat := fcb\<rparr>) s
           in if split \<and> rest' = [] then Some (Inl (True, s1))
              else do {
                (r, s2) \<leftarrow> scan_dir drv k (\<lambda>e. dir_attrib e AND D_VOLID = 0 \<and> fcbmatch fcb (dir_name e)) s1;
                Some (if r \<noteq> 1 \<or> dir_attrib (dir_of k s2) AND D_DIR = 0 then Inl (False, s2)
                      else Inr (rest', upd_dm k (\<lambda>dm. dm\<lparr>dm_entry := 0\<rparr>)
                                  (dir_init_fnode k (getdstart (dpb_of k s2) (dir_of k s2)) s2)))
              })"

text \<open>\<^verbatim>\<open>get_dpb\<close> of the drive letter; the result is \<^verbatim>\<open>fnp\<close> or \<^verbatim>\<open>NULL\<close>.\<close>

definition dir_open :: "'d driver \<Rightarrow> u8 list \<Rightarrow> bool \<Rightarrow> nat \<Rightarrow> ('d, 'c) fs \<Rightarrow> (bool \<times> ('d, 'c) fs) option" where
  "dir_open drv dirname split k s = do {
     dp \<leftarrow> drives (ks s) (ch dirname 0 - 0x41);
     let s1 = dir_init_fnode k 0 (upd_fn k (\<lambda>fn. fn\<lparr>f_dpb := dp\<rparr>) s);
     loopM (open_body drv k split) (drop 2 dirname, upd_dm k (\<lambda>dm. dm\<lparr>dm_entry := 0\<rparr>) s1)
   }"

definition split_path :: "'d driver \<Rightarrow> u8 list \<Rightarrow> nat \<Rightarrow> ('d, 'c) fs \<Rightarrow> (bool \<times> ('d, 'c) fs) option" where
  "split_path drv pname k s =
     (if ch pname (length pname - 1) = 0x5c then Some (False, s) else dir_open drv pname True k s)"

definition dir_exists :: "'d driver \<Rightarrow> u8 list \<Rightarrow> ('d, 'c) fs \<Rightarrow> (bool \<times> ('d, 'c) fs) option" where
  "dir_exists drv pname s = split_path drv pname 0 s"

subsection \<open>Searching\<close>

text \<open>The test of an entry against the search.\<close>

definition find_hit :: "dmatch \<Rightarrow> dirent \<Rightarrow> bool" where
  "find_hit dm e \<longleftrightarrow>
     ch (dir_name e) 0 \<noteq> DELETED \<and> dir_attrib e AND D_LFN \<noteq> D_LFN \<and> fcmp_wild (dm_name_pat dm) (dir_name e) 11
     \<and> (let attr_srch = dm_attr_srch dm AND NOT (D_RDONLY OR D_ARCHIVE OR D_DEVICE) in
        if attr_srch = D_VOLID then dir_attrib e AND D_VOLID \<noteq> 0
        else NOT attr_srch AND (D_DIR OR D_SYSTEM OR D_HIDDEN OR D_VOLID) AND dir_attrib e = 0)"

definition findnext_body :: "'d driver \<Rightarrow> ('d, 'c) fs \<Rightarrow> ((int \<times> ('d, 'c) fs) + ('d, 'c) fs) option" where
  "findnext_body drv s = do {
     (r, s1) \<leftarrow> dir_read drv 0 s;
     Some (if r = 1 then
             let s2 = next_entry 0 s1
             in if find_hit (dmat s2 0) (dir_of 0 s2) then Inl (SUCCESS, s2\<lparr>SearchDir := dir_of 0 s2\<rparr>) else Inr s2
           else Inl (DE_NFILES, s1))
   }"

definition dos_findnext :: "'d driver \<Rightarrow> 'd media \<Rightarrow> (u16 \<Rightarrow> bool) \<Rightarrow> ('d, 'c) fs \<Rightarrow> (int \<times> ('d, 'c) fs) option" where
  "dos_findnext drv md internal s =
     (let dpo = drives (ks s) (dm_drive (dmat s 0));
          s0 = (case dpo of Some dp \<Rightarrow> upd_fn 0 (\<lambda>fn. fn\<lparr>f_dpb := dp\<rparr>) s | None \<Rightarrow> s)
      in do {
        (rc, t) \<leftarrow> media_check drv md internal dpo (ks s0);
        let s1 = s0\<lparr>ks := t\<rparr>;
        if rc < 0 then Some (DE_NFILES, s1)
        else loopM (findnext_body drv) (dir_init_fnode 0 (dm_dircluster (dmat s1 0)) s1)
      })"

definition dos_findfirst :: "'d driver \<Rightarrow> 'd media \<Rightarrow> (u16 \<Rightarrow> bool) \<Rightarrow> u16 \<Rightarrow> u8 list \<Rightarrow> ('d, 'c) fs \<Rightarrow>
    (int \<times> ('d, 'c) fs) option" where
  "dos_findfirst drv md internal attr name s =
     (if ch name 3 = 0 then Some (DE_NFILES, s)
      else do {
        (found, s1) \<leftarrow> split_path drv name 0 s;
        if \<not> found then Some (DE_PATHNOTFND, s1)
        else
          let s2 = (if attr AND NOT (ucast (D_RDONLY OR D_ARCHIVE OR D_DEVICE)) = ucast D_VOLID then dir_init_fnode 0 0 s1 else s1)
          in dos_findnext drv md internal
               (upd_dm 0 (\<lambda>dm. dm\<lparr>dm_drive := ch name 0 - 0x41, dm_attr_srch := ucast attr\<rparr>) s2)
      })"

end
