(* ===== verification/FatFs.thy ===== *)
theory FatFs
  imports FatDir
begin

text \<open>
  Files, the rest of \<^verbatim>\<open>kernel/fatfs.c\<close>: opening, closing, deleting, renaming, creating directories,
  attributes, reading and writing; with \<^verbatim>\<open>idx_to_sft\<close>, \<^verbatim>\<open>DosCloseSft\<close> and \<^verbatim>\<open>IsShareInstalled\<close> of
  \<^verbatim>\<open>kernel/dosfns.c\<close>, which these call. \<^term>\<open>None\<close> is a call that does not return or an access through an
  invalid pointer. Calls of SHARE go to its model.
\<close>

subsection \<open>System file table\<close>

definition idx_to_sft :: "nat \<Rightarrow> ('d, 'c) fs \<Rightarrow> sft option" where
  "idx_to_sft i s = (if i < length (sfts s) \<and> sft_count (sfts s ! i) \<noteq> 0 then Some (sfts s ! i) else None)"

definition upd_sft :: "nat \<Rightarrow> (sft \<Rightarrow> sft) \<Rightarrow> ('d, 'c) fs \<Rightarrow> ('d, 'c) fs" where
  "upd_sft i f s = s\<lparr>sfts := (sfts s)[i := f (sfts s ! i)]\<rparr>"

definition sft_to_fnode :: "nat \<Rightarrow> ('d, 'c) fs \<Rightarrow> ('d, 'c) fs option" where
  "sft_to_fnode fd s = do {
     sf \<leftarrow> idx_to_sft fd s;
     Some (upd_fn 0 (\<lambda>fn. fn\<lparr>f_sft_idx := of_nat fd, f_flags := sft_flags sf,
       f_dir := setdstart (dpbs (ks s) (sft_dcb sf)) (sft_stclust sf) ((f_dir fn)\<lparr>dir_attrib := sft_attrib sf,
         dir_name := sft_name sf, dir_time := sft_time sf, dir_date := sft_date sf, dir_size := sft_size sf\<rparr>),
       f_dpb := sft_dcb sf, f_diridx := sft_diridx sf, f_dirsector := sft_dirsector sf, f_offset := sft_posit sf,
       f_cluster := sft_cuclust sf,
       f_cluster_offset := ucast (sft_relclust sf) OR push_bit 16 (ucast (sft_relclust_high sf))\<rparr>) s)
   }"

definition fnode_to_sft :: "nat \<Rightarrow> ('d, 'c) fs \<Rightarrow> ('d, 'c) fs option" where
  "fnode_to_sft k s = (let fn = fnode s k in do {
     _ \<leftarrow> idx_to_sft (unat (f_sft_idx fn)) s;
     Some (upd_sft (unat (f_sft_idx fn)) (\<lambda>sf. sf\<lparr>sft_flags := f_flags fn, sft_attrib := dir_attrib (f_dir fn),
       sft_name := dir_name (f_dir fn), sft_time := dir_time (f_dir fn), sft_date := dir_date (f_dir fn),
       sft_size := dir_size (f_dir fn), sft_stclust := getdstart (dpb_of k s) (f_dir fn), sft_diridx := f_diridx fn,
       sft_dirsector := f_dirsector fn, sft_dcb := f_dpb fn, sft_posit := f_offset fn, sft_cuclust := f_cluster fn,
       sft_relclust := ucast (f_cluster_offset fn), sft_relclust_high := ucast (drop_bit 16 (f_cluster_offset fn))\<rparr>) s)
   })"

subsection \<open>Other open instances of a file\<close>

definition same_file :: "nat \<Rightarrow> nat \<Rightarrow> ('d, 'c) fs \<Rightarrow> bool" where
  "same_file k i s \<longleftrightarrow> (let fn = fnode s k; sf = sfts s ! i in
     i \<noteq> unat (f_sft_idx fn) \<and> sft_count sf \<noteq> 0 \<and> f_dpb fn = sft_dcb sf
     \<and> dir_attrib (f_dir fn) AND D_VOLID = 0 \<and> sft_attrib sf AND D_VOLID = 0
     \<and> f_diridx fn = sft_diridx sf \<and> f_dirsector fn = sft_dirsector sf)"

text \<open>Collecting changes stops at the first instance that may have written; distributing visits all.\<close>

fun collect_changes :: "nat \<Rightarrow> nat list \<Rightarrow> ('d, 'c) fs \<Rightarrow> ('d, 'c) fs" where
  "collect_changes k [] s = s"
| "collect_changes k (i # is) s =
     (if same_file k i s \<and> sft_mode (sfts s ! i) AND O_ACCMODE \<noteq> O_RDONLY then
        upd_dir k (\<lambda>e. (setdstart (dpb_of k s) (sft_stclust (sfts s ! i)) e)\<lparr>dir_size := sft_size (sfts s ! i),
          dir_date := sft_date (sfts s ! i), dir_time := sft_time (sfts s ! i)\<rparr>) s
      else collect_changes k is s)"

fun distribute_changes :: "nat \<Rightarrow> nat list \<Rightarrow> ('d, 'c) fs \<Rightarrow> ('d, 'c) fs" where
  "distribute_changes k [] s = s"
| "distribute_changes k (i # is) s = distribute_changes k is
     (if same_file k i s then
        upd_sft i (\<lambda>sf. sf\<lparr>sft_stclust := getdstart (dpb_of k s) (dir_of k s), sft_size := dir_size (dir_of k s),
          sft_date := dir_date (dir_of k s), sft_time := dir_time (dir_of k s)\<rparr>) s
      else s)"

definition merge_changes :: "bool \<Rightarrow> nat \<Rightarrow> ('d, 'c) fs \<Rightarrow> ('d, 'c) fs" where
  "merge_changes collect k s =
     (if \<not> share_installed s then s
      else if collect then collect_changes k [0..<length (sfts s)] s
      else distribute_changes k [0..<length (sfts s)] s)"

definition dos_merge_file_changes :: "nat \<Rightarrow> ('d, 'c) fs \<Rightarrow> ('d, 'c) fs option" where
  "dos_merge_file_changes fd s = do { s1 \<leftarrow> sft_to_fnode fd s; Some (merge_changes False 0 s1) }"

subsection \<open>Closing\<close>

definition dos_close :: "'d driver \<Rightarrow> (ClockRecord, 'c) chardrv \<Rightarrow> nat \<Rightarrow> ('d, 'c) fs \<Rightarrow> (int \<times> ('d, 'c) fs) option" where
  "dos_close drv clk fd s = do {
     s1 \<leftarrow> sft_to_fnode fd s;
     s2 \<leftarrow>
       (if f_flags (fnode s1 0) AND SFT_FCLEAN = 0 then do {
          s2 \<leftarrow>
            (if f_flags (fnode s1 0) AND SFT_FDATE = 0 then do {
               (t, s2) \<leftarrow> dos_gettime clk s1;
               (d, s3) \<leftarrow> dos_getdate clk s2;
               Some (upd_dir 0 (\<lambda>e. e\<lparr>dir_time := t, dir_date := d\<rparr>) s3)
             } else Some s1);
          Some (merge_changes False 0 s2)
        } else Some s1);
     (ok, s3) \<leftarrow> dir_write_update drv 0 True (upd_fn 0 (\<lambda>fn. fn\<lparr>f_sft_idx := 0xff\<rparr>) s2);
     Some (if ok then SUCCESS else DE_INVLDHNDL, s3)
   }"

definition IsShareInstalled :: "bool \<Rightarrow> ('d, 'c) fs \<Rightarrow> bool \<times> ('d, 'c) fs" where
  "IsShareInstalled recheck s =
     (if \<not> recheck then (share_installed s, s)
      else let s1 = (if \<not> share_installed s \<and> share_resident s then s\<lparr>share_installed := True\<rparr> else s)
           in (share_installed s1, s1))"

text \<open>
  What \<^verbatim>\<open>DosCloseSft\<close> calls outside the file system: the network redirector (the result and the entry
  it leaves) and the character device of an entry.
\<close>

record 'd extern =
  net_close :: "bool \<Rightarrow> sft \<Rightarrow> int \<times> sft"
  chr_dev :: "u16 \<Rightarrow> (unit, 'd) chardrv"

definition SFT_FOCRM :: u16 where "SFT_FOCRM = 0x0800"
definition C_CLOSE :: u8 where "C_CLOSE = 0x0e"

definition share_drop :: "nat \<Rightarrow> ('d, 'c) fs \<Rightarrow> ('d, 'c) fs option" where
  "share_drop i s = (case IsShareInstalled True s of (inst, s1) \<Rightarrow>
     if inst then do {
       sh \<leftarrow> (if sft_shroff (sfts s1 ! i) < 0x8000 then close_file (sft_shroff (sfts s1 ! i)) (shares s1) else Some (shares s1));
       Some (upd_sft i (\<lambda>sf. sf\<lparr>sft_shroff := 0xffff\<rparr>) (s1\<lparr>shares := sh\<rparr>))
     } else Some s1)"

definition DosCloseSft :: "'d driver \<Rightarrow> (ClockRecord, 'c) chardrv \<Rightarrow> 'd extern \<Rightarrow> nat \<Rightarrow> bool \<Rightarrow> ('d, 'c) fs \<Rightarrow>
    (int \<times> ('d, 'c) fs) option" where
  "DosCloseSft drv clk ext i commitonly s =
     (case idx_to_sft i s of
        None \<Rightarrow> Some (DE_INVLDHNDL, s)
      | Some sf \<Rightarrow>
          if sft_flags sf AND SFT_FSHARED \<noteq> 0 then
            (case net_close ext commitonly sf of (r, sf') \<Rightarrow> Some (r, upd_sft i (\<lambda>_. sf') s))
          else if sft_flags sf AND SFT_FDEVICE \<noteq> 0 then do {
            (ok, s1) \<leftarrow>
              (if dh_attr (ks s) (sft_dcb sf) AND SFT_FOCRM \<noteq> 0 then do {
                 (r, _, _, dv) \<leftarrow> BinaryCharIO (chr_dev ext (sft_dcb sf)) 0 C_CLOSE () (device (ks s));
                 Some (r = SUCCESS, s\<lparr>ks := (ks s)\<lparr>device := dv\<rparr>\<rparr>)
               } else Some (True, s));
            Some (if \<not> ok then (DE_INVLDHNDL, s1)
                  else (SUCCESS, if commitonly then s1 else upd_sft i (\<lambda>sf. sf\<lparr>sft_count := sft_count sf - 1\<rparr>) s1))
          }
          else do {
            (result, s1) \<leftarrow> dos_close drv clk i s;
            if commitonly \<or> result \<noteq> SUCCESS then Some (result, s1)
            else do {
              s2 \<leftarrow> (if sft_count (sfts s1 ! i) = 1 then share_drop i s1 else Some s1);
              Some (SUCCESS, upd_sft i (\<lambda>sf. sf\<lparr>sft_count := sft_count sf - 1\<rparr>) s2)
            }
          })"

text \<open>\<^verbatim>\<open>merge_file_changes\<close> with its third mode, closing the other instances.\<close>

fun close_others :: "'d driver \<Rightarrow> (ClockRecord, 'c) chardrv \<Rightarrow> 'd extern \<Rightarrow> nat \<Rightarrow> nat list \<Rightarrow> ('d, 'c) fs \<Rightarrow>
    (int \<times> ('d, 'c) fs) option" where
  "close_others drv clk ext k [] s = Some (SUCCESS, s)"
| "close_others drv clk ext k (i # is) s =
     (if same_file k i s then do {
        (rc, s1) \<leftarrow> DosCloseSft drv clk ext i False s;
        if rc \<noteq> SUCCESS then Some (rc, s1) else close_others drv clk ext k is s1
      } else close_others drv clk ext k is s)"

definition merge_file_changes :: "'d driver \<Rightarrow> (ClockRecord, 'c) chardrv \<Rightarrow> 'd extern \<Rightarrow> int \<Rightarrow> nat \<Rightarrow> ('d, 'c) fs \<Rightarrow>
    (int \<times> ('d, 'c) fs) option" where
  "merge_file_changes drv clk ext collect k s =
     (if collect = -1 then
        if share_installed s then close_others drv clk ext k [0..<length (sfts s)] s else Some (SUCCESS, s)
      else Some (SUCCESS, merge_changes (collect \<noteq> 0) k s))"

subsection \<open>Finding and deleting entries\<close>

definition find_fname :: "'d driver \<Rightarrow> u8 list \<Rightarrow> u16 \<Rightarrow> nat \<Rightarrow> ('d, 'c) fs \<Rightarrow> (int \<times> ('d, 'c) fs) option" where
  "find_fname drv pname attr k s = do {
     (found, s1) \<leftarrow> split_path drv pname k s;
     if \<not> found then Some (DE_PATHNOTFND, s1)
     else do {
       (r, s2) \<leftarrow> scan_dir drv k (\<lambda>e. fcbmatch (dir_name e) (dm_name_pat (dmat s1 k))
         \<and> dir_attrib e AND NOT (D_RDONLY OR D_ARCHIVE OR ucast attr) = 0) s1;
       Some (if r = 1 then SUCCESS else DE_FILENOTFND, s2)
     }
   }"

definition set_entry :: "nat \<Rightarrow> u16 \<Rightarrow> ('d, 'c) fs \<Rightarrow> ('d, 'c) fs" where
  "set_entry k e = upd_dm k (\<lambda>dm. dm\<lparr>dm_entry := e\<rparr>)"

definition mark_deleted :: "nat \<Rightarrow> ('d, 'c) fs \<Rightarrow> ('d, 'c) fs" where
  "mark_deleted k = upd_dir k (\<lambda>e. e\<lparr>dir_name := (dir_name e)[0 := DELETED]\<rparr>)"

text \<open>The loop is left with whether it succeeded.\<close>

definition lfn_body :: "'d driver \<Rightarrow> nat \<Rightarrow> ('d, 'c) fs \<Rightarrow> ((bool \<times> ('d, 'c) fs) + ('d, 'c) fs) option" where
  "lfn_body drv k s =
     (if dm_entry (dmat s k) = 0 then Some (Inl (True, s))
      else do {
        (r, s1) \<leftarrow> dir_read drv k (set_entry k (dm_entry (dmat s k) - 1) s);
        if r \<le> 0 then Some (Inl (False, s1))
        else if dir_attrib (dir_of k s1) \<noteq> D_LFN then Some (Inl (True, s1))
        else do {
          (ok, s2) \<leftarrow> dir_write drv k (mark_deleted k s1);
          Some (if \<not> ok then Inl (False, s2) else Inr s2)
        }
      })"

definition remove_lfn_entries :: "'d driver \<Rightarrow> nat \<Rightarrow> ('d, 'c) fs \<Rightarrow> (int \<times> ('d, 'c) fs) option" where
  "remove_lfn_entries drv k s = do {
     (ok, s1) \<leftarrow> loopM (lfn_body drv k) s;
     if \<not> ok then Some (DE_ACCESS, s1)
     else do {
       (r, s2) \<leftarrow> dir_read drv k (set_entry k (dm_entry (dmat s k)) s1);
       Some (if r \<le> 0 then DE_ACCESS else SUCCESS, s2)
     }
   }"

definition wipe_node :: "'d driver \<Rightarrow> nat \<Rightarrow> ('d, 'c) fs \<Rightarrow> ('d, 'c) fs option" where
  "wipe_node drv k s = do { t \<leftarrow> wipe_out drv (fnode s k) (ks s); Some (s\<lparr>ks := t\<rparr>) }"

definition delete_dir_entry :: "'d driver \<Rightarrow> nat \<Rightarrow> ('d, 'c) fs \<Rightarrow> (int \<times> ('d, 'c) fs) option" where
  "delete_dir_entry drv k s = do {
     (rc, s1) \<leftarrow> remove_lfn_entries drv k s;
     if rc < 0 then Some (rc, s1)
     else do {
       s2 \<leftarrow> wipe_node drv k s1;
       (ok, s3) \<leftarrow> dir_write drv k (mark_deleted k s2);
       Some (if \<not> ok then DE_ACCESS else SUCCESS, s3)
     }
   }"

definition dos_delete :: "'d driver \<Rightarrow> u8 list \<Rightarrow> u16 \<Rightarrow> ('d, 'c) fs \<Rightarrow> (int \<times> ('d, 'c) fs) option" where
  "dos_delete drv pname attrib s = do {
     (ret, s1) \<leftarrow> find_fname drv pname attrib 0 s;
     if ret = SUCCESS then
       if dir_attrib (dir_of 0 s1) AND (D_RDONLY OR D_DIR) \<noteq> 0 then Some (DE_ACCESS, s1)
       else delete_dir_entry drv 0 s1
     else Some (ret, s1)
   }"

definition dos_rmdir :: "'d driver \<Rightarrow> u8 list \<Rightarrow> ('d, 'c) fs \<Rightarrow> (int \<times> ('d, 'c) fs) option" where
  "dos_rmdir drv pname s = do {
     c \<leftarrow> get_cds (ucast (ch pname 0 - 0x41)) s;
     if pname = cdsCurrentPath c then Some (DE_RMVCUDIR, s)
     else if ch pname 2 = 0x5c \<and> ch pname 3 = 0 then Some (DE_ACCESS, s)
     else do {
       (found, s1) \<leftarrow> dir_open drv pname False 0 s;
       if \<not> found then Some (DE_PATHNOTFND, s1)
       else if dir_attrib (dir_of 0 s1) AND NOT (D_DIR OR D_ARCHIVE) \<noteq> 0 then Some (DE_ACCESS, s1)
       else do {
         (_, s2) \<leftarrow> dir_read drv 0 s1;
         if ch (dir_name (dir_of 0 s2)) 0 \<noteq> 0x2e \<or> ch (dir_name (dir_of 0 s2)) 1 \<noteq> 0x20 then Some (DE_ACCESS, s2)
         else do {
           (_, s3) \<leftarrow> dir_read drv 0 (next_entry 0 s2);
           if ch (dir_name (dir_of 0 s3)) 0 \<noteq> 0x2e \<or> ch (dir_name (dir_of 0 s3)) 1 \<noteq> 0x2e then Some (DE_ACCESS, s3)
           else do {
             (r, s4) \<leftarrow> scan_dir drv 0 (\<lambda>e. ch (dir_name e) 0 \<noteq> DELETED \<and> dir_attrib e \<noteq> D_LFN) (next_entry 0 s3);
             if r = 1 then Some (DE_ACCESS, s4)
             else do {
               (ret, s5) \<leftarrow> find_fname drv pname (ucast D_ALL) 0 s4;
               if ret \<noteq> SUCCESS then Some (DE_PATHNOTFND, s5) else delete_dir_entry drv 0 s5
             }
           }
         }
       }
     }
   }"

subsection \<open>New entries\<close>

definition find_free :: "'d driver \<Rightarrow> nat \<Rightarrow> ('d, 'c) fs \<Rightarrow> (bool \<times> ('d, 'c) fs) option" where
  "find_free drv k s = do {
     (rc, s1) \<leftarrow> scan_dir drv k (\<lambda>e. ch (dir_name e) 0 = DELETED) s;
     Some (rc \<ge> 0, s1)
   }"

definition extend_dir :: "'d driver \<Rightarrow> nat \<Rightarrow> ('d, 'c) fs \<Rightarrow> (int \<times> ('d, 'c) fs) option" where
  "extend_dir drv k s = do {
     (cluster, fn, t) \<leftarrow> extend_chain drv (fnode s k) (ks s);
     let s1 = upd_fn k (\<lambda>_. fn) (s\<lparr>ks := t\<rparr>);
     if cluster = LONG_LAST_CLUSTER then Some (DE_HNDLDSKFULL, s1)
     else do {
       (ret, t1) \<leftarrow> clear_dir drv (fnode s1 k) cluster (ks s1);
       let s2 = s1\<lparr>ks := t1\<rparr>;
       if ret \<noteq> SUCCESS then Some (ret, s2)
       else do {
         (free, s3) \<leftarrow> find_free drv k s2;
         if \<not> free then Some (DE_HNDLDSKFULL, s3)
         else do {
           (ok, t2) \<leftarrow> flush_buffers drv (dpb_unit (dpb_of k s3)) (ks s3);
           Some (if \<not> ok then DE_ACCESS else SUCCESS, s3\<lparr>ks := t2\<rparr>)
         }
       }
     }
   }"

definition alloc_find_free :: "'d driver \<Rightarrow> u8 list \<Rightarrow> nat \<Rightarrow> ('d, 'c) fs \<Rightarrow> (int \<times> ('d, 'c) fs) option" where
  "alloc_find_free drv pname k s = do {
     (found, s1) \<leftarrow> split_path drv pname k s;
     if \<not> found then None
     else do {
       (free, s2) \<leftarrow> find_free drv k s1;
       if \<not> free then
         if dm_dircluster (dmat s2 k) = 0 then Some (DE_TOOMANY, s2) else extend_dir drv k s2
       else Some (SUCCESS, s2)
     }
   }"

definition dos_rename :: "'d driver \<Rightarrow> u8 list \<Rightarrow> u8 list \<Rightarrow> u16 \<Rightarrow> ('d, 'c) fs \<Rightarrow> (int \<times> ('d, 'c) fs) option" where
  "dos_rename drv path1 path2 attrib s =
     (let put_name = (\<lambda>k s. do {
            (ok, s1) \<leftarrow> dir_write drv k (upd_dir k (\<lambda>e. e\<lparr>dir_name := take 11 (dm_name_pat (dmat s 1))\<rparr>) s);
            Some (if ok then SUCCESS else DE_ACCESS, s1)
          })
      in do {
        c \<leftarrow> get_cds (ucast (ch path1 0 - 0x41)) s;
        if path1 = cdsCurrentPath c then Some (DE_RMVCUDIR, s)
        else do {
          (ret, s1) \<leftarrow> find_fname drv path1 attrib 0 s;
          if ret \<noteq> SUCCESS then Some (ret, s1)
          else do {
            (ret2, s2) \<leftarrow> find_fname drv path2 attrib 1 s1;
            if ret2 \<noteq> DE_FILENOTFND then Some (if ret2 = SUCCESS then DE_ACCESS else ret2, s2)
            else if dm_dircluster (dmat s2 0) = dm_dircluster (dmat s2 1) then do {
              (rc, s3) \<leftarrow> remove_lfn_entries drv 0 s2;
              if rc < 0 then Some (rc, s3) else put_name 0 s3
            }
            else if dir_attrib (dir_of 0 s2) AND D_DIR \<noteq> 0 then Some (DE_ACCESS, s2)
            else do {
              (ret3, s3) \<leftarrow> alloc_find_free drv path2 1 s2;
              if ret3 \<noteq> SUCCESS then Some (ret3, s3)
              else do {
                (rc, s4) \<leftarrow> remove_lfn_entries drv 0 s3;
                if rc < 0 then Some (rc, s4)
                else do {
                  let s5 = upd_dir 1 (\<lambda>_. dir_of 0 s4) s4;
                  (ok, s6) \<leftarrow> dir_write drv 0 (mark_deleted 0 s5);
                  if \<not> ok then Some (DE_ACCESS, s6) else put_name 1 s6
                }
              }
            }
          }
        }
      })"

definition dot_name :: "u8 list" where
  "dot_name = 0x2e # replicate 10 0x20"

definition dos_mkdir :: "'d driver \<Rightarrow> (ClockRecord, 'c) chardrv \<Rightarrow> u8 list \<Rightarrow> ('d, 'c) fs \<Rightarrow> (int \<times> ('d, 'c) fs) option" where
  "dos_mkdir drv clk dir s =
     (if length dir \<ge> MAX_CDSPATH then Some (DE_PATHNOTFND, s)
      else do {
        (ret, s1) \<leftarrow> find_fname drv dir (ucast D_ALL) 0 s;
        if ret \<noteq> DE_FILENOTFND then Some (if ret = SUCCESS then DE_ACCESS else ret, s1)
        else do {
          let parent = dm_dircluster (dmat s1 0);
          (ret2, s2) \<leftarrow> alloc_find_free drv dir 0 s1;
          if ret2 \<noteq> SUCCESS then Some (ret2, s2)
          else do {
            (free_fat, t) \<leftarrow> find_fat_free drv (f_dpb (fnode s2 0)) (ks s2);
            let s3 = s2\<lparr>ks := t\<rparr>;
            if free_fat = LONG_LAST_CLUSTER then Some (DE_HNDLDSKFULL, s3)
            else do {
              (e, s4) \<leftarrow> init_direntry clk (ucast D_DIR) free_fat (dm_name_pat (dmat s3 0)) s3;
              let s5 = upd_dir 0 (\<lambda>_. e) s4;
              (r, t1) \<leftarrow> link_fat drv (f_dpb (fnode s5 0)) free_fat LONG_LAST_CLUSTER (ks s5);
              let s6 = s5\<lparr>ks := t1\<rparr>;
              if r \<noteq> 0 then Some (DE_HNDLDSKFULL, s6)
              else do {
                (ret3, t2) \<leftarrow> clear_dir drv (fnode s6 0) free_fat (ks s6);
                let s7 = s6\<lparr>ks := t2\<rparr>;
                if ret3 \<noteq> SUCCESS then Some (ret3, s7)
                else do {
                  (ok, s8) \<leftarrow> dir_write drv 0 s7;
                  if \<not> ok then Some (DE_ACCESS, s8)
                  else do {
                    (_, s9) \<leftarrow> find_free drv 0 (set_entry 0 0 (dir_init_fnode 0 free_fat s8));
                    (e1, s10) \<leftarrow> init_direntry clk (ucast D_DIR) free_fat dot_name s9;
                    (ok1, s11) \<leftarrow> dir_write drv 0 (upd_dir 0 (\<lambda>_. e1) s10);
                    if \<not> ok1 then Some (DE_ACCESS, s11)
                    else do {
                      (free, s12) \<leftarrow> find_free drv 0 s11;
                      (ret4, s13) \<leftarrow> (if \<not> free then extend_dir drv 0 s12 else Some (SUCCESS, s12));
                      if ret4 \<noteq> SUCCESS then Some (ret4, s13)
                      else do {
                        let parent' = (if ISFAT32 (dpb_of 0 s13) \<and> parent = dpb_xrootclst (dpb_of 0 s13) then 0 else parent);
                        (e2, s14) \<leftarrow> init_direntry clk (ucast D_DIR) parent' dot_name s13;
                        (ok2, s15) \<leftarrow> dir_write drv 0 (upd_dir 0 (\<lambda>_. e2\<lparr>dir_name := (dir_name e2)[1 := 0x2e]\<rparr>) s14);
                        Some (if \<not> ok2 then DE_ACCESS else SUCCESS, s15)
                      }
                    }
                  }
                }
              }
            }
          }
        }
      })"

subsection \<open>Opening\<close>

text \<open>Its first part decides what is to be done with the file: the status, or an error.\<close>

definition open_action_of :: "'d driver \<Rightarrow> u8 list \<Rightarrow> u16 \<Rightarrow> u16 \<Rightarrow> int \<Rightarrow> ('d, 'c) fs \<Rightarrow> ((int + int) \<times> ('d, 'c) fs) option" where
  "open_action_of drv pname flags attrib status s =
     (if status = SUCCESS then
        let a = dir_attrib (dir_of 0 s) in
        if flags AND O_TRUNC \<noteq> 0 then
          if a AND (D_RDONLY OR D_DIR OR D_VOLID) \<noteq> 0 \<or> a AND NOT D_ARCHIVE AND NOT (ucast attrib) \<noteq> 0 then Some (Inl DE_ACCESS, s)
          else do { s1 \<leftarrow> wipe_node drv 0 s; Some (Inr S_REPLACED, s1) }
        else if flags AND O_OPEN \<noteq> 0 then
          let flags' = (if flags AND O_FCB \<noteq> 0 \<and> a AND D_RDONLY \<noteq> 0 then (flags AND NOT 3) OR O_RDONLY else flags)
          in if a AND (D_DIR OR D_VOLID) \<noteq> 0 \<or> a AND D_RDONLY \<noteq> 0 \<and> flags' AND O_ACCMODE \<noteq> O_RDONLY
             then Some (Inl DE_ACCESS, s)
             else Some (Inr S_OPENED, s)
        else Some (Inl DE_FILEEXISTS, s)
      else if status = DE_FILENOTFND \<and> flags AND O_CREAT \<noteq> 0 then do {
        (ret, s1) \<leftarrow> alloc_find_free drv pname 0 s;
        Some (if ret \<noteq> SUCCESS then Inl ret else Inr S_CREATED, s1)
      }
      else Some (Inl status, s))"

definition dos_open :: "'d driver \<Rightarrow> (ClockRecord, 'c) chardrv \<Rightarrow> u8 list \<Rightarrow> u16 \<Rightarrow> u16 \<Rightarrow> nat \<Rightarrow> ('d, 'c) fs \<Rightarrow>
    (int \<times> ('d, 'c) fs) option" where
  "dos_open drv clk pname flags attrib fd s = do {
     s1 \<leftarrow> sft_to_fnode fd s;
     (st0, s2) \<leftarrow> find_fname drv pname (ucast D_ALL OR attrib) 0 s1;
     (act, s3) \<leftarrow> open_action_of drv pname flags attrib st0 s2;
     case act of
       Inl e \<Rightarrow> Some (e, s3)
     | Inr status \<Rightarrow> do {
         let s4 = upd_fn 0 (\<lambda>fn. fn\<lparr>f_sft_idx := of_nat fd, f_offset := 0, f_cluster_offset := 0,
                     f_flags := (f_flags fn AND NOT SFT_FDATE) OR SFT_FCLEAN\<rparr>) s3;
         (ok, s5) \<leftarrow>
           (if status \<noteq> S_OPENED then do {
              (e, s5) \<leftarrow> init_direntry clk attrib FREE (dm_name_pat (dmat s4 0)) s4;
              dir_write drv 0 (upd_dir 0 (\<lambda>_. e) s5)
            } else Some (True, s4));
         if \<not> ok then Some (DE_ACCESS, s5)
         else do {
           let s6 = merge_changes (status = S_OPENED) 0 s5;
           s7 \<leftarrow> fnode_to_sft 0 (upd_fn 0 (\<lambda>fn. fn\<lparr>f_cluster := getdstart (dpb_of 0 s6) (dir_of 0 s6)\<rparr>) s6);
           Some (status, s7)
         }
       }
   }"

subsection \<open>Attributes and the current directory\<close>

definition dos_cd :: "'d driver \<Rightarrow> u8 list \<Rightarrow> ('d, 'c) fs \<Rightarrow> (int \<times> ('d, 'c) fs) option" where
  "dos_cd drv pname s = do {
     (found, s1) \<leftarrow> dir_open drv pname False 0 s;
     if \<not> found then Some (DE_PATHNOTFND, s1)
     else do {
       c \<leftarrow> get_cds (ucast (ch pname 0 - 0x41)) s1;
       Some (SUCCESS, s1\<lparr>CDSp := (CDSp s1)[unat (ch pname 0 - 0x41) := c\<lparr>cdsStrtClst := ucast (dm_dircluster (dmat s1 0))\<rparr>]\<rparr>)
     }
   }"

definition dos_getfattr :: "'d driver \<Rightarrow> u8 list \<Rightarrow> ('d, 'c) fs \<Rightarrow> (int \<times> ('d, 'c) fs) option" where
  "dos_getfattr drv name s = do {
     (ret, s1) \<leftarrow> find_fname drv name (ucast D_ALL) 0 s;
     Some (if ret = SUCCESS then int (unat (dir_attrib (dir_of 0 s1))) else ret, s1)
   }"

definition dos_setfattr :: "'d driver \<Rightarrow> (ClockRecord, 'c) chardrv \<Rightarrow> 'd extern \<Rightarrow> u8 list \<Rightarrow> u16 \<Rightarrow> ('d, 'c) fs \<Rightarrow>
    (int \<times> ('d, 'c) fs) option" where
  "dos_setfattr drv clk ext name attrp s =
     (if attrp AND (ucast D_VOLID OR 0xC0) \<noteq> 0 then Some (DE_ACCESS, s)
      else do {
        (rc, s1) \<leftarrow> find_fname drv name (ucast D_ALL) 0 s;
        if rc \<noteq> SUCCESS then Some (rc, s1)
        else if attrp AND ucast D_DIR \<noteq> 0 \<and> dir_attrib (dir_of 0 s1) AND D_DIR = 0 then Some (DE_ACCESS, s1)
        else do {
          let s2 = upd_dir 0 (\<lambda>e. e\<lparr>dir_attrib := (dir_attrib e AND (D_VOLID OR D_DIR)) OR ucast attrp\<rparr>) s1;
          (rc2, s3) \<leftarrow> merge_file_changes drv clk ext (-1) 0 s2;
          if rc2 = SUCCESS then do {
            (ok, s4) \<leftarrow> dir_write drv 0 s3;
            Some (if \<not> ok then DE_ACCESS else SUCCESS, s4)
          } else Some (rc2, s3)
        }
      })"

end
