(* ===== verification/FatRw.thy ===== *)
theory FatRw
  imports FatFs
begin

text \<open>
  Reading and writing files: \<^verbatim>\<open>dos_extend\<close> and \<^verbatim>\<open>rwblock\<close> of \<^verbatim>\<open>kernel/fatfs.c\<close>. The user's buffer is a
  list of bytes; the far pointer into it only ever advances by what was transferred, so its position is
  the number of bytes transferred, and \<open>high\<close> tells whether the memory at a position lies at or above
  segment \<open>0xA000\<close>.
\<close>

definition dos_extend :: "'d driver \<Rightarrow> nat \<Rightarrow> ('d, 'c) fs \<Rightarrow> (int \<times> ('d, 'c) fs) option" where
  "dos_extend drv k s =
     (if f_offset (fnode s k) \<le> dir_size (dir_of k s) then Some (SUCCESS, s)
      else do {
        (rc, s1) \<leftarrow> map_node drv XFR_WRITE k s;
        if rc \<noteq> SUCCESS then Some (DE_HNDLDSKFULL, s1)
        else Some (SUCCESS, merge_changes False k (upd_dir k (\<lambda>e. e\<lparr>dir_size := f_offset (fnode s1 k)\<rparr>) s1))
      })"

definition advance :: "nat \<Rightarrow> u32 \<Rightarrow> ('d, 'c) fs \<Rightarrow> ('d, 'c) fs" where
  "advance k n = upd_fn k (\<lambda>fn. fn\<lparr>f_offset := n\<rparr>)"

text \<open>The loop that gathers clusters that lie behind each other on the disk.\<close>

definition gather_body :: "'d driver \<Rightarrow> u16 \<Rightarrow> u32 \<Rightarrow> u16 \<Rightarrow> u32 \<Rightarrow> u16 \<Rightarrow> u16 \<times> ('d, 'c) fs \<Rightarrow>
    ((u16 \<times> ('d, 'c) fs) + (u16 \<times> ('d, 'c) fs)) option" where
  "gather_body drv mode currentblock secsize startoffset wanted v = (case v of (n, s) \<Rightarrow>
     if n < wanted then do {
       (rc, s1) \<leftarrow> map_node drv mode 0 s;
       Some (if rc \<noteq> SUCCESS then Inl (n, s1)
             else if clus2phys (f_cluster (fnode s1 0)) (dpb_of 0 s1) \<noteq> currentblock + ucast n then Inl (n, s1)
             else let n' = min (n + (ucast (dpb_clsmask (dpb_of 0 s1)) + 1)) wanted
                  in Inr (n', advance 0 (startoffset + ucast (n' * secsize)) s1))
     } else Some (Inl (n, s)))"

text \<open>
  A transfer of whole sectors past the cache. The result is the number of bytes, or \<^term>\<open>None\<close> when
  \<^verbatim>\<open>rwblock\<close> returns \<^verbatim>\<open>DE_ACCESS\<close>.
\<close>

definition direct_xfer :: "'d driver \<Rightarrow> (nat \<Rightarrow> bool) \<Rightarrow> u16 \<Rightarrow> u32 \<Rightarrow> u16 \<Rightarrow> u16 \<Rightarrow> nat \<Rightarrow> u8 list \<Rightarrow> ('d, 'c) fs \<Rightarrow>
    (u16 option \<times> u8 list \<times> ('d, 'c) fs) option" where
  "direct_xfer drv high mode currentblock secno wanted pos buf s =
     (let secsize = dpb_secsize (dpb_of 0 s);
          startoffset = f_offset (fnode s 0);
          n0 = min (ucast (dpb_clsmask (dpb_of 0 s)) + 1 - secno) wanted
      in do {
        (n, s1) \<leftarrow> loopM (gather_body drv mode currentblock secsize startoffset wanted)
          (n0, advance 0 (startoffset + ucast (n0 * secsize)) s);
        (_, t) \<leftarrow> DeleteBlockInBufferCache drv currentblock (currentblock + ucast n - 1) (dpb_unit (dpb_of 0 s1)) mode (ks s1);
        (st, area, t1) \<leftarrow> dskxfer drv (dpb_unit (dpb_of 0 s1)) currentblock (high pos)
          (take (unat (n * secsize)) (drop pos buf)) n (if mode = XFR_READ then DSKREAD else DSKWRITE) t;
        let buf' = (if mode = XFR_READ then overlay pos area buf else buf);
        if st \<noteq> 0 then do {
          s2 \<leftarrow> fnode_to_sft 0 (advance 0 startoffset (s1\<lparr>ks := t1\<rparr>));
          Some (None, buf', s2)
        } else Some (Some (n * secsize), buf', s1\<lparr>ks := t1\<rparr>)
      })"

text \<open>A transfer through the cache: the number of bytes, or \<^term>\<open>None\<close> when there is no buffer.\<close>

definition cached_xfer :: "'d driver \<Rightarrow> u16 \<Rightarrow> u32 \<Rightarrow> u16 \<Rightarrow> u16 \<Rightarrow> nat \<Rightarrow> u8 list \<Rightarrow> ('d, 'c) fs \<Rightarrow>
    (u16 option \<times> u8 list \<times> ('d, 'c) fs) option" where
  "cached_xfer drv mode currentblock boff to_xfer pos buf s = do {
     (bp, t) \<leftarrow> getblock drv currentblock (dpb_unit (dpb_of 0 s)) (ks s);
     case bp of
       None \<Rightarrow> Some (None, buf, s\<lparr>ks := t\<rparr>)
     | Some p \<Rightarrow>
         let n0 = min to_xfer (dpb_secsize (dpb_of 0 s) - boff);
             left = dir_size (dir_of 0 s) - f_offset (fnode s 0);
             n = (if mode = XFR_READ then ucast (min (ucast n0) left) else n0) :: u16;
             t1 = (if mode = XFR_WRITE then
                     upd_buf p (\<lambda>b. b\<lparr>b_buffer := overlay (unat boff) (take (unat n) (drop pos buf)) (b_buffer b),
                       b_flag := b_flag b OR (BFR_DIRTY OR BFR_VALID)\<rparr>) t
                   else t);
             buf' = (if mode = XFR_WRITE then buf
                     else overlay pos (take (unat n) (drop (unat boff) (b_buffer (bufs t p)))) buf);
             t2 = (if n = 512 \<or> mode = XFR_READ \<and> f_offset (fnode s 0) + ucast n = dir_size (dir_of 0 s)
                   then upd_buf p (\<lambda>b. b\<lparr>b_flag := b_flag b OR BFR_UNCACHE\<rparr>) t1 else t1)
         in Some (Some n, buf', advance 0 (f_offset (fnode s 0) + ucast n) (s\<lparr>ks := t2\<rparr>))
   }"

text \<open>The transfer of one round, below the mapping of the cluster.\<close>

definition xfer_round :: "'d driver \<Rightarrow> (nat \<Rightarrow> bool) \<Rightarrow> u16 \<Rightarrow> u16 \<Rightarrow> u16 \<Rightarrow> u8 list \<Rightarrow> ('d, 'c) fs \<Rightarrow>
    ((int + u16) \<times> u8 list \<times> ('d, 'c) fs) option" where
  "xfer_round drv high mode ret_cnt to_xfer buf s =
     (let d = dpb_of 0 s; secsize = dpb_secsize d; off = f_offset (fnode s 0);
          secno = ucast ((ucast (off div ucast secsize) :: u8) AND dpb_clsmask d) :: u16;
          boff = ucast (off mod ucast secsize) :: u16;
          currentblock = clus2phys (f_cluster (fnode s 0)) d + ucast secno;
          left = dir_size (dir_of 0 s) - off;
          wanted = (if mode = XFR_READ \<and> ucast to_xfer > left then ucast left else to_xfer) div secsize
      in if boff = 0 \<and> wanted \<noteq> 0 then do {
           (r, buf1, s1) \<leftarrow> direct_xfer drv high mode currentblock secno wanted (unat ret_cnt) buf s;
           Some (case r of None \<Rightarrow> Inl DE_ACCESS | Some n \<Rightarrow> Inr n, buf1, s1)
         } else do {
           (r, buf1, s1) \<leftarrow> cached_xfer drv mode currentblock boff to_xfer (unat ret_cnt) buf s;
           case r of
             None \<Rightarrow> do { s2 \<leftarrow> fnode_to_sft 0 s1; Some (Inl (int (unat ret_cnt)), buf1, s2) }
           | Some n \<Rightarrow> Some (Inr n, buf1, s1)
         })"

definition rw_body :: "'d driver \<Rightarrow> (nat \<Rightarrow> bool) \<Rightarrow> u16 \<Rightarrow> u16 \<Rightarrow> u16 \<times> u16 \<times> u8 list \<times> ('d, 'c) fs \<Rightarrow>
    ((int \<times> u8 list \<times> ('d, 'c) fs) + (u16 \<times> u16 \<times> u8 list \<times> ('d, 'c) fs)) option" where
  "rw_body drv high mode count v = (case v of (ret_cnt, to_xfer, buf, s) \<Rightarrow>
     let leave = (\<lambda>s. do { s1 \<leftarrow> fnode_to_sft 0 s; Some (Inl (int (unat ret_cnt), buf, s1)) }) in
     if \<not> ret_cnt < count then leave s
     else if mode = XFR_READ \<and> f_offset (fnode s 0) \<ge> dir_size (dir_of 0 s) then leave s
     else do {
       (rc, s1) \<leftarrow> map_node drv mode 0 s;
       if rc \<noteq> SUCCESS then leave s1
       else do {
         let s2 = (if mode = XFR_WRITE then merge_changes False 0 s1 else s1);
         (r, buf1, s3) \<leftarrow> xfer_round drv high mode ret_cnt to_xfer buf s2;
         case r of
           Inl e \<Rightarrow> Some (Inl (e, buf1, s3))
         | Inr n \<Rightarrow>
             let s4 = (if mode = XFR_WRITE then
                         merge_changes False 0 (if f_offset (fnode s3 0) > dir_size (dir_of 0 s3)
                           then upd_dir 0 (\<lambda>e. e\<lparr>dir_size := f_offset (fnode s3 0)\<rparr>) s3 else s3)
                       else s3)
             in Some (Inr (ret_cnt + n, to_xfer - n, buf1, s4))
       }
     })"

definition rwblock :: "'d driver \<Rightarrow> (nat \<Rightarrow> bool) \<Rightarrow> nat \<Rightarrow> u8 list \<Rightarrow> u16 \<Rightarrow> u16 \<Rightarrow> ('d, 'c) fs \<Rightarrow>
    (int \<times> u8 list \<times> ('d, 'c) fs) option" where
  "rwblock drv high fd buf count mode s = do {
     s1 \<leftarrow> sft_to_fnode fd s;
     (full, s2) \<leftarrow>
       (if mode = XFR_WRITE then do {
          (rc, s2) \<leftarrow> dos_extend drv 0 (upd_fn 0 (\<lambda>fn. fn\<lparr>f_dir := (f_dir fn)\<lparr>dir_attrib := dir_attrib (f_dir fn) OR D_ARCHIVE\<rparr>,
            f_flags := f_flags fn AND NOT (SFT_FCLEAN OR SFT_FDATE)\<rparr>) s1);
          Some (rc \<noteq> SUCCESS, s2)
        } else Some (False, s1));
     if full then do { s3 \<leftarrow> fnode_to_sft 0 s2; Some (0, buf, s3) }
     else if count = 0 then
       if mode = XFR_WRITE then do {
         (rc, fn, t) \<leftarrow> shrink_file drv (dm_dircluster (dmat s2 0))
           ((fnode s2 0)\<lparr>f_dir := (dir_of 0 s2)\<lparr>dir_size := f_offset (fnode s2 0)\<rparr>\<rparr>) (ks s2);
         let s3 = upd_fn 0 (\<lambda>_. fn) (s2\<lparr>ks := t\<rparr>);
         if rc < 0 then Some (DE_ACCESS, buf, s3)
         else do { s4 \<leftarrow> fnode_to_sft 0 s3; Some (0, buf, s4) }
       } else do { s3 \<leftarrow> fnode_to_sft 0 s2; Some (0, buf, s3) }
     else loopM (rw_body drv high mode count) (0, count, buf, s2)
   }"

end
