(* ===== verification/FatFrame.thy ===== *)
theory FatFrame
  imports FatRw
begin

text \<open>
  What the file system leaves of the system file table: searches, directory operations and the opening of a directory do not
  touch it; the others change entries, but neither the number of entries nor how often they are in use.
\<close>

named_theorems frames \<open>operations that keep the system file table\<close>

lemma sfts_upd [simp]: "sfts (upd_fn k f s) = sfts s" "sfts (upd_dm k g s) = sfts s" "sfts (upd_dir k h s) = sfts s"
  by (simp_all add: upd_fn_def upd_dm_def upd_dir_def)

lemma sfts_dir_init_fnode [simp]: "sfts (dir_init_fnode k c s) = sfts s" "sfts (next_entry k s) = sfts s" "sfts (set_entry k e s) = sfts s"
  "sfts (mark_deleted k s) = sfts s" "sfts (advance k n s) = sfts s"
  by (simp_all add: dir_init_fnode_def next_entry_def set_entry_def mark_deleted_def advance_def Let_def)

lemma map_node_frame [frames]: "map_node drv mode k s = Some (r, s') \<Longrightarrow> sfts s' = sfts s"
  by (auto simp: map_node_def bind_eq_Some_conv)

lemma dir_seek_frame [frames]: "dir_seek drv k s = Some (r, s') \<Longrightarrow> sfts s' = sfts s"
  by (auto simp: dir_seek_def bind_eq_Some_conv Let_def dest!: frames split: if_split_asm)

lemma dir_read_frame [frames]: "dir_read drv k s = Some (r, s') \<Longrightarrow> sfts s' = sfts s"
  by (auto simp: dir_read_def Let_def dest!: frames split: if_split_asm Option.bind_split_asm option.split_asm)

lemma dir_write_frame [frames]: "dir_write_update drv k u s = Some (r, s') \<Longrightarrow> sfts s' = sfts s"
  by (auto simp: dir_write_update_def bind_eq_Some_conv Let_def split: if_split_asm option.split_asm)

lemma scan_dir_frame [frames]:
  assumes "scan_dir drv k hit s = Some (r, s')"
  shows "sfts s' = sfts s"
proof -
  have "sfts (snd v) = sfts s" if "scan_dir drv k hit s = Some v" for v
    using that unfolding scan_dir_def
  proof (rule loopM_partial [where I = "\<lambda>t. sfts t = sfts s"])
    show "sfts t = sfts s \<Longrightarrow> do { (r, s1) \<leftarrow> dir_read drv k t; Some (if r = 1 then if hit (dir_of k s1) then Inl (1, s1) else Inr (next_entry k s1) else Inl (r, s1)) } = Some x
      \<Longrightarrow> case x of Inl v \<Rightarrow> sfts (snd v) = sfts s | Inr t' \<Rightarrow> sfts t' = sfts s" for t x
      by (auto simp: bind_eq_Some_conv dest!: frames)
  qed simp
  then show ?thesis using assms by fastforce
qed

lemma open_body_frame:
  "open_body drv k sp (p, s) = Some x \<Longrightarrow> (case x of Inl (r, s') \<Rightarrow> sfts s' = sfts s | Inr (p', s') \<Rightarrow> sfts s' = sfts s)"
  by (auto simp: open_body_def bind_eq_Some_conv Let_def split_beta dest!: frames split: list.splits if_split_asm)

lemma dir_open_frame [frames]:
  assumes "dir_open drv p sp k s = Some (r, s')"
  shows "sfts s' = sfts s"
proof -
  obtain dp where "loopM (open_body drv k sp) (drop 2 p, upd_dm k (\<lambda>dm. dm\<lparr>dm_entry := 0\<rparr>) (dir_init_fnode k 0 (upd_fn k (\<lambda>fn. fn\<lparr>f_dpb := dp\<rparr>) s))) = Some (r, s')"
    using assms by (auto simp: dir_open_def bind_eq_Some_conv)
  then have "sfts (snd (r, s')) = sfts s"
    by (rule loopM_partial [where I = "\<lambda>(p, t). sfts t = sfts s"]) (auto dest!: open_body_frame split: sum.split_asm)
  then show ?thesis by simp
qed

lemma find_frames [frames]:
  "split_path drv p k s = Some (r, s') \<Longrightarrow> sfts s' = sfts s"
  "dir_exists drv p s = Some (r, s') \<Longrightarrow> sfts s' = sfts s"
  by (auto simp: dir_exists_def split_path_def dest!: frames split: if_split_asm)

lemma find_fname_frame [frames]: "find_fname drv p a k s = Some (x, s') \<Longrightarrow> sfts s' = sfts s"
  by (auto simp: find_fname_def bind_eq_Some_conv dest!: frames split: if_split_asm)

lemma find_free_frame [frames]: "find_free drv k s = Some (b, s') \<Longrightarrow> sfts s' = sfts s"
  by (auto simp: find_free_def bind_eq_Some_conv dest!: frames)

lemma extend_dir_frame [frames]: "extend_dir drv k s = Some (x, s') \<Longrightarrow> sfts s' = sfts s"
  by (auto simp: extend_dir_def Let_def dest!: frames split: if_split_asm Option.bind_split_asm)

lemma alloc_find_free_frame [frames]: "alloc_find_free drv p k s = Some (x, s') \<Longrightarrow> sfts s' = sfts s"
  by (auto simp: alloc_find_free_def bind_eq_Some_conv dest!: frames split: if_split_asm)

lemma clock_frames [frames]:
  "dos_getdate c s = Some (d, s') \<Longrightarrow> sfts s' = sfts s" "dos_gettime c s = Some (d, s') \<Longrightarrow> sfts s' = sfts s"
  by (auto simp: dos_getdate_def dos_gettime_def bind_eq_Some_conv)

lemma init_direntry_frame [frames]: "init_direntry c a cl n s = Some (e, s') \<Longrightarrow> sfts s' = sfts s"
  by (auto simp: init_direntry_def bind_eq_Some_conv dest!: frames)

lemma sft_to_fnode_frame: "sft_to_fnode i s = Some s' \<Longrightarrow> sfts s' = sfts s"
  by (auto simp: sft_to_fnode_def bind_eq_Some_conv)

lemma wipe_node_frame: "wipe_node drv k s = Some s' \<Longrightarrow> sfts s' = sfts s"
  by (auto simp: wipe_node_def bind_eq_Some_conv)

lemma open_action_of_frame [frames]: "open_action_of drv p f a st s = Some (act, s') \<Longrightarrow> sfts s' = sfts s"
  by (auto simp: open_action_of_def bind_eq_Some_conv Let_def dest!: frames wipe_node_frame split: if_split_asm)

lemma dos_cd_frame [frames]: "dos_cd drv p s = Some (x, s') \<Longrightarrow> sfts s' = sfts s"
  by (auto simp: dos_cd_def bind_eq_Some_conv dest!: frames split: if_split_asm)

subsection \<open>How often entries are in use\<close>

definition counts :: "('d, 'c) fs \<Rightarrow> u16 list" where
  "counts s = map sft_count (sfts s)"

named_theorems keeps \<open>operations that keep the counts of the system file table\<close>

lemma counts_ks [simp]: "counts (s\<lparr>ks := t\<rparr>) = counts s"
  by (simp add: counts_def)

lemma counts_frame: "sfts s' = sfts s \<Longrightarrow> counts s' = counts s"
  by (simp add: counts_def)

lemma length_counts [simp]: "length (counts s) = length (sfts s)"
  by (simp add: counts_def)

lemma nth_counts [simp]: "i < length (sfts s) \<Longrightarrow> counts s ! i = sft_count (sfts s ! i)"
  by (simp add: counts_def)

lemma counts_upd_sft: "counts (upd_sft i f s) = (counts s)[i := sft_count (f (sfts s ! i))]"
  by (simp add: counts_def upd_sft_def map_update)

lemma counts_upd_same: "(\<And>sf. sft_count (f sf) = sft_count sf) \<Longrightarrow> counts (upd_sft i f s) = counts s"
  by (cases "i < length (sfts s)") (simp_all add: counts_upd_sft list_update_beyond not_less flip: nth_counts)

lemma counts_upd [simp]: "counts (upd_fn k f s) = counts s" "counts (upd_dm k g s) = counts s" "counts (upd_dir k h s) = counts s" "counts (advance k n s) = counts s"
  by (simp_all add: counts_def)

lemma fnode_to_sft_keeps [keeps]: "fnode_to_sft k s = Some s' \<Longrightarrow> counts s' = counts s"
  by (auto simp: fnode_to_sft_def Let_def bind_eq_Some_conv intro!: counts_upd_same)

lemma collect_changes_keeps [simp]: "sfts (collect_changes k is s) = sfts s"
  by (induction k "is" s rule: collect_changes.induct) auto

lemma distribute_changes_keeps [simp]: "counts (distribute_changes k is s) = counts s"
proof (induction "is" arbitrary: s)
  case (Cons i "is")
  then show ?case by (simp add: counts_upd_same)
qed simp

lemma merge_changes_keeps [simp]: "counts (merge_changes c k s) = counts s"
  by (simp add: merge_changes_def counts_frame [of "collect_changes k [0..<length (sfts s)] s"])

lemma dos_open_keeps [keeps]:
  assumes "dos_open drv clk p fl a fd s = Some (x, s')"
  shows "counts s' = counts s"
  using assms by (auto simp: dos_open_def Let_def dest!: frames [THEN counts_frame] sft_to_fnode_frame [THEN counts_frame] keeps
    split: Option.bind_split_asm sum.split_asm if_split_asm)

lemma dos_close_keeps [keeps]: "dos_close drv clk fd s = Some (x, s') \<Longrightarrow> counts s' = counts s"
  by (auto simp: dos_close_def Let_def dest!: frames [THEN counts_frame] sft_to_fnode_frame [THEN counts_frame] 
    split: Option.bind_split_asm if_split_asm)

lemma IsShareInstalled_keeps: "sfts (snd (IsShareInstalled b s)) = sfts s"
  by (simp add: IsShareInstalled_def Let_def)

lemma share_drop_keeps [keeps]: "share_drop i s = Some s' \<Longrightarrow> counts s' = counts s"
  using counts_frame [OF IsShareInstalled_keeps, of True s]
  by (auto simp: share_drop_def counts_upd_same split: prod.split_asm if_split_asm Option.bind_split_asm) (auto simp: counts_def upd_sft_def)

text \<open>The redirector takes an entry it closes off its count, or leaves it.\<close>

definition net_ok :: "'d extern \<Rightarrow> bool" where
  "net_ok ext \<longleftrightarrow> (\<forall>sf. sft_count (snd (net_close ext False sf)) \<in> {sft_count sf, sft_count sf - 1})"

lemma DosCloseSft_keeps:
  assumes "DosCloseSft drv clk ext i False s = Some (r, s')" "net_ok ext"
  shows "counts s' = counts s \<or> counts s' = (counts s)[i := sft_count (sfts s ! i) - 1]"
proof (cases "idx_to_sft i s")
  case (Some sf)
  then have i: "i < length (sfts s)" "sf = sfts s ! i" by (auto simp: idx_to_sft_def split: if_splits)
  then have same: "(counts s)[i := sft_count sf] = counts s" by (metis list_update_id nth_counts)
  have less: "counts (upd_sft i (\<lambda>sf. sf\<lparr>sft_count := sft_count sf - 1\<rparr>) t) = (counts s)[i := sft_count (sfts s ! i) - 1]" if "counts t = counts s" for t
  proof -
    have "sft_count (sfts t ! i) = sft_count (sfts s ! i)" using i that by (metis length_counts nth_counts)
    then show ?thesis by (simp add: counts_upd_sft that)
  qed
  consider (net) "sft_flags sf AND SFT_FSHARED \<noteq> 0"
    | (dev) "sft_flags sf AND SFT_FSHARED = 0" "sft_flags sf AND SFT_FDEVICE \<noteq> 0"
    | (local) "sft_flags sf AND SFT_FSHARED = 0" "sft_flags sf AND SFT_FDEVICE = 0" by blast
  then show ?thesis
  proof cases
    case net
    then have "counts s' = (counts s)[i := sft_count (snd (net_close ext False sf))]"
      using assms(1) Some by (auto simp: DosCloseSft_def counts_upd_sft split: prod.splits)
    then show ?thesis using assms(2) same i(2) by (auto simp: net_ok_def dest!: spec [of _ sf])
  next
    case dev
    then show ?thesis using assms(1) Some i(2)
      by (auto simp: DosCloseSft_def less split: if_split_asm Option.bind_split_asm)
  next
    case local
    then show ?thesis using assms(1) Some i(2)
      by (auto simp: DosCloseSft_def less dest!: keeps split: if_split_asm Option.bind_split_asm)
  qed
qed (use assms(1) in \<open>simp add: DosCloseSft_def\<close>)

subsection \<open>Transfers\<close>

lemma dos_extend_keeps [keeps]: "dos_extend drv k s = Some (r, s') \<Longrightarrow> counts s' = counts s"
  by (auto simp: dos_extend_def dest!: frames [THEN counts_frame] split: if_split_asm Option.bind_split_asm)

lemma gather_keeps:
  assumes "loopM (gather_body drv mode cb sz so w) (n, s) = Some (n', s')"
  shows "sfts s' = sfts s"
proof -
  have "sfts (snd (n', s')) = sfts s" using assms
  proof (rule loopM_partial [where I = "\<lambda>(_, t). sfts t = sfts s"])
    show "case v of (_, t) \<Rightarrow> sfts t = sfts s \<Longrightarrow> gather_body drv mode cb sz so w v = Some x \<Longrightarrow>
      case x of Inl r \<Rightarrow> sfts (snd r) = sfts s | Inr (_, t) \<Rightarrow> sfts t = sfts s" for v x
      by (cases v) (auto simp: gather_body_def Let_def dest!: frames split: if_split_asm Option.bind_split_asm)
  qed simp
  then show ?thesis by simp
qed

lemma direct_xfer_keeps [keeps]: "direct_xfer drv high mode cb sn w pos buf s = Some (r, b, s') \<Longrightarrow> counts s' = counts s"
  by (auto simp: direct_xfer_def Let_def dest!: gather_keeps [THEN counts_frame] keeps split: if_split_asm Option.bind_split_asm)

lemma cached_xfer_keeps [keeps]: "cached_xfer drv mode cb bo tx pos buf s = Some (r, b, s') \<Longrightarrow> counts s' = counts s"
  by (auto simp: cached_xfer_def Let_def split: if_split_asm Option.bind_split_asm option.split_asm)

lemma xfer_round_keeps [keeps]: "xfer_round drv high mode rc tx buf s = Some (r, b, s') \<Longrightarrow> counts s' = counts s"
  by (auto simp: xfer_round_def Let_def dest!: keeps split: if_split_asm Option.bind_split_asm option.split_asm)

lemma rw_body_keeps:
  "rw_body drv high mode count (rc, tx, buf, s) = Some x \<Longrightarrow>
    (case x of Inl (_, _, s') \<Rightarrow> counts s' = counts s | Inr (_, _, _, s') \<Rightarrow> counts s' = counts s)"
  by (auto simp: rw_body_def Let_def dest!: frames [THEN counts_frame] keeps split: if_split_asm Option.bind_split_asm sum.split_asm)

lemma rwblock_keeps [keeps]:
  assumes "rwblock drv high fd buf count mode s = Some (r, b, s')"
  shows "counts s' = counts s"
proof -
  have L: "counts s2 = counts s1" if "loopM (rw_body drv high m count) (0, count, buf, s1) = Some (r, b, s2)" for m s1 s2
  proof -
    have "counts (snd (snd (r, b, s2))) = counts s1"
      using that by (rule loopM_partial [where I = "\<lambda>(_, _, _, t). counts t = counts s1"]) (auto dest!: rw_body_keeps split: sum.split_asm)
    then show ?thesis by simp
  qed
  show ?thesis using assms
    by (auto simp: rwblock_def Let_def dest!: L keeps sft_to_fnode_frame [THEN counts_frame] split: if_split_asm Option.bind_split_asm)
qed

end
