(* ===== verification/PathName.thy ===== *)
theory PathName
  imports Prelude
begin

text \<open>
  Canonical path names: the part of \<^verbatim>\<open>truename\<close> of \<^verbatim>\<open>kernel/newstuff.c\<close> that appends the path given by a
  program to the current directory, component by component. Strings are lists of bytes without the final
  zero byte; the destination up to its pointer \<^verbatim>\<open>p\<close> is a list in reverse, so that its head is \<^verbatim>\<open>p[-1]\<close>.
\<close>

subsection \<open>Characters\<close>

definition SFTMAX :: nat where "SFTMAX = 128"

definition is_sep :: "u8 \<Rightarrow> bool" where
  "is_sep c \<longleftrightarrow> c = 0x2f \<or> c = 0x5c"

definition DirChars :: "u8 list" where
  "DirChars = [0x22, 0x5b, 0x5d, 0x3a, 0x7c, 0x3c, 0x3e, 0x2b, 0x3d, 0x3b, 0x2c]"

definition DirChar :: "u8 \<Rightarrow> bool" where
  "DirChar c \<longleftrightarrow> 0x20 \<le> c \<and> c \<notin> set DirChars"

definition at_end :: "u8 list \<Rightarrow> bool" where
  "at_end src \<longleftrightarrow> (case src of [] \<Rightarrow> True | c # _ \<Rightarrow> is_sep c)"

definition addChar :: "u8 \<Rightarrow> u8 list \<Rightarrow> u8 list option" where
  "addChar c q = (if length q \<ge> SFTMAX then None else Some (c # q))"

text \<open>The error at \<^verbatim>\<open>errRet\<close>, for what is left of the source.\<close>

definition errRet :: "u8 list \<Rightarrow> int" where
  "errRet src = (if 0x2f \<notin> set src \<and> 0x5c \<notin> set src then DE_FILENOTFND else DE_PATHNOTFND)"

subsection \<open>A component\<close>

text \<open>
  The loop over a component that is not a special directory: \<open>i\<close> is the room left in the name or the extension,
  \<open>dot\<close> and \<open>wild\<close> are the bits of \<^verbatim>\<open>state\<close>. An error carries the rest of the source.
\<close>

fun name_loop :: "u8 list \<Rightarrow> nat \<Rightarrow> bool \<Rightarrow> bool \<Rightarrow> u8 list \<Rightarrow> u8 list + (u8 list \<times> bool \<times> u8 list)" where
  "name_loop [] i dot wild q = Inr ([], wild, q)"
| "name_loop (c # src) i dot wild q =
     (if is_sep c then Inr (c # src, wild, q)
      else if c = 0x2a then
        (if length q + i > SFTMAX then Inl src else name_loop src 0 dot True (replicate i 0x3f @ q))
      else if c = 0x2e \<and> dot then Inl src
      else if c = 0x2e \<and> at_end src then Inr (src, wild, q)
      else
        let i1 = (if c = 0x2e then 4 else i); dot1 = (dot \<or> c = 0x2e); wild1 = (wild \<or> c = 0x3f) in
        if i1 = 0 then name_loop src i1 dot1 wild1 q
        else if \<not> DirChar c then Inl src
        else (case addChar c q of None \<Rightarrow> Inl src | Some q1 \<Rightarrow> name_loop src (i1 - 1) dot1 wild1 q1))"

text \<open>\<^verbatim>\<open>..\<close> takes away characters down to a backslash, but not those up to the root.\<close>

fun up_dir :: "nat \<Rightarrow> u8 list \<Rightarrow> u8 list option" where
  "up_dir root [] = None"
| "up_dir root (c # q) = (if c = 0x5c then Some q else if length q \<le> root then None else up_dir root q)"

subsection \<open>The path\<close>

lemma name_loop_shorter: "name_loop src i dot wild q = Inr (src', wild', q') \<Longrightarrow> length src' \<le> length src"
  by (induction src i dot wild q rule: name_loop.induct) (auto simp: Let_def intro: le_SucI split: if_splits option.splits)

lemma name_loop_less:
  assumes "name_loop (c # src) i dot wild q = Inr (src', wild', q')" "\<not> is_sep c"
  shows "length src' \<le> length src"
  using assms name_loop_shorter by (auto simp: Let_def split: if_splits option.splits)

lemma dropWhile_sep:
  assumes "dropWhile is_sep src = c # src1"
  shows "length src1 < length src" "\<not> is_sep c"
proof -
  show "length src1 < length src" using length_dropWhile_le [of is_sep src] assms by simp
  show "\<not> is_sep c" using hd_dropWhile [of is_sep src] assms by simp
qed

lemma name_loop_step:
  assumes "dropWhile is_sep src = c # src1" "name_loop (c # src1) i dot wild q = Inr (src2, wild2, q2)"
  shows "length src2 < length src"
  using name_loop_less [OF assms(2) dropWhile_sep(2) [OF assms(1)]] dropWhile_sep(1) [OF assms(1)] by simp

text \<open>
  The components of the source, with \<open>sep\<close> for \<^verbatim>\<open>*rootPos\<close>, \<open>root\<close> for the length in front of it and \<open>prev\<close>
  for the byte in memory in front of the source.
\<close>

function path_loop :: "u8 \<Rightarrow> nat \<Rightarrow> u8 \<Rightarrow> u8 list \<Rightarrow> bool \<Rightarrow> u8 list \<Rightarrow> int + (bool \<times> u8 list)" where
  "path_loop sep root prev src wild q =
     (if src = [] then Inr (wild, q)
      else if wild then Inl DE_PATHNOTFND
      else case (if take 1 q = [sep] then Some q else addChar sep q) of
        None \<Rightarrow> Inl (errRet src)
      | Some q1 \<Rightarrow>
          (case dropWhile is_sep src of
             [] \<Rightarrow> Inr (wild, q1)
           | c # src1 \<Rightarrow>
               if c = 0x2e then
                 let two = (take 1 src1 = [0x2e]); src2 = (if two then tl src1 else src1) in
                 if at_end src2 then
                   (if two \<or> (if is_sep (hd src) then False else prev = 0x2e) then
                      (case up_dir root (tl q1) of
                         None \<Rightarrow> Inl DE_PATHNOTFND
                       | Some q2 \<Rightarrow> path_loop sep root c src2 wild q2)
                    else path_loop sep root c src2 wild (tl q1))
                 else Inl (errRet src2)
               else
                 (case name_loop (c # src1) 8 False wild q1 of
                    Inl rest \<Rightarrow> Inl (errRet rest)
                  | Inr (src2, wild2, q2) \<Rightarrow> path_loop sep root c src2 wild2 q2)))"
  by pat_completeness auto

termination
  by (relation "measure (\<lambda>(sep, root, prev, src, wild, q). length src)")
    (auto simp: less_imp_diff_less simp del: name_loop.simps dest: dropWhile_sep(1) name_loop_step)

declare path_loop.simps [simp del]

end
