(* ===== verification/Truename.thy ===== *)
theory Truename
  imports PathName FatFs
begin

text \<open>
  The state of the calls of programs above the file system, and the rest of \<^verbatim>\<open>truename\<close> of
  \<^verbatim>\<open>kernel/newstuff.c\<close> with \<^verbatim>\<open>get_root\<close> and \<^verbatim>\<open>IsDevice\<close> of \<^verbatim>\<open>kernel/dosfns.c\<close> and the upper case conversion of
  \<^verbatim>\<open>kernel/nls.c\<close> (for a package whose tables the kernel accesses itself).
\<close>

subsection \<open>State\<close>

text \<open>
  A process has a table of handles, in the program segment prefix or elsewhere. A device is its address and
  the eight characters of its name; \<open>devs\<close> is the chain of device headers from \<^verbatim>\<open>nul_dev\<close> on.
\<close>

record psp =
  ps_maxfiles :: u16
  ps_filetab :: "u8 list"

text \<open>The result of a search in the program's transfer area: the search itself and the file found.\<close>

record found = dmatch +
  dm_attr_fnd :: u8
  dm_time :: u16
  dm_date :: u16
  dm_size :: u32
  dm_name :: "u8 list"

datatype ldt = NoLdt | Ldt nat | UncLdt

record ('d, 'c) dos =
  fsys :: "('d, 'c) fs"
  cu_psp :: u16
  psps :: "u16 \<Rightarrow> psp"
  default_drive :: u8
  njoined :: u8
  os_major :: u8
  devs :: "(u16 \<times> u8 list) list"
  current_ldt :: ldt
  PriPathName :: "u8 list"
  SecPathName :: "u8 list"
  OpenMode :: u8
  dta :: found
  tbl2 :: "u8 \<Rightarrow> u8"
  tbl4 :: "u8 \<Rightarrow> u8"

text \<open>
  What the calls use that is not part of the kernel's C code: the block driver, the media requests, which
  drives the BIOS driver serves, the clock, what \<^verbatim>\<open>DosCloseSft\<close> uses, and the answer of the network redirector to
  the request to qualify a name (\<^verbatim>\<open>QRemote_Fn\<close>) and to requests on an entry of the file table or on the names
  in the path buffers; data transfers of character devices, directly and through the console input and output
  of \<^verbatim>\<open>kernel/chario.c\<close> (for reading or not, the entry, the count and the buffer).
\<close>

record ('d, 'c) env =
  blk :: "'d driver"
  med :: "'d media"
  bios_drive :: "u16 \<Rightarrow> bool"
  clk :: "(ClockRecord, 'c) chardrv"
  outer :: "'d extern"
  qualify :: "u8 list \<Rightarrow> u8 list option"
  remote :: "u16 \<Rightarrow> nat \<Rightarrow> u32 list \<Rightarrow> ('d, 'c) dos \<Rightarrow> int \<times> ('d, 'c) dos"
  remote_rw :: "bool \<Rightarrow> nat \<Rightarrow> u16 \<Rightarrow> u8 list \<Rightarrow> ('d, 'c) dos \<Rightarrow> int \<times> u8 list \<times> ('d, 'c) dos"
  dev_io :: "u16 \<Rightarrow> (u8 list, 'd) chardrv"
  cooked :: "bool \<Rightarrow> nat \<Rightarrow> u16 \<Rightarrow> u8 list \<Rightarrow> ('d, 'c) dos \<Rightarrow> int \<times> u8 list \<times> ('d, 'c) dos"

subsection \<open>Upper case\<close>

definition upMMem :: "(u8 \<Rightarrow> u8) \<Rightarrow> u8 list \<Rightarrow> u8 list" where
  "upMMem tbl = map (\<lambda>c. if 0x61 \<le> c \<and> c \<le> 0x7a then c - 0x20 else if c > 0x7f then tbl c else c)"

definition DosUpMem :: "u8 list \<Rightarrow> ('d, 'c) dos \<Rightarrow> u8 list" where
  "DosUpMem str s = upMMem (tbl2 s) str"

definition DosUpFMem :: "u8 list \<Rightarrow> ('d, 'c) dos \<Rightarrow> u8 list" where
  "DosUpFMem str s = upMMem (tbl4 s) str"

definition DosUpFChar :: "u8 \<Rightarrow> ('d, 'c) dos \<Rightarrow> u8" where
  "DosUpFChar c s = hd (DosUpFMem [c] s)"

subsection \<open>Device names\<close>

definition IS_DEVICE :: u16 where "IS_DEVICE = 0x20"
definition IS_NETWORK :: u16 where "IS_NETWORK = 0x40"
definition CDS_MODE_SKIP_PHYSICAL :: u16 where "CDS_MODE_SKIP_PHYSICAL = 0x01"
definition CDS_MODE_CHECK_DEV_PATH :: u16 where "CDS_MODE_CHECK_DEV_PATH = 0x02"
definition CDS_MODE_ALLOW_WILDCARDS :: u16 where "CDS_MODE_ALLOW_WILDCARDS = 0x04"
definition ATTR_CHAR :: u16 where "ATTR_CHAR = 0x8000"

definition get_root :: "u8 list \<Rightarrow> u8 list" where
  "get_root fname = rev (takeWhile (\<lambda>c. c \<noteq> 0x2f \<and> c \<noteq> 0x5c \<and> c \<noteq> 0x3a) (rev fname))"

fun dev_match :: "(u8 \<Rightarrow> u8) \<Rightarrow> u8 list \<Rightarrow> u8 list \<Rightarrow> bool" where
  "dev_match up froot [] = True"
| "dev_match up froot (d # ds) =
     (if froot = [] \<or> hd froot = 0x2e then (\<forall>x \<in> set (d # ds). x = 0x20 \<or> x = 0)
      else up (hd froot) = up d \<and> dev_match up (tl froot) ds)"

definition IsDevice :: "u8 list \<Rightarrow> ('d, 'c) dos \<Rightarrow> u16 option" where
  "IsDevice fname s =
     (let froot = get_root fname in
      if froot = [] \<or> froot = [0x2e] \<or> froot = [0x2e, 0x2e] then None
      else map_option fst (find (\<lambda>(dev, name). dh_attr (ks (fsys s)) dev AND ATTR_CHAR \<noteq> 0
             \<and> dev_match (\<lambda>c. DosUpFChar c s) froot name) (devs s)))"

subsection \<open>Path names\<close>

definition drive_no :: "u8 list \<Rightarrow> ('d, 'c) dos \<Rightarrow> u8" where
  "drive_no src s = (if ch src 1 = 0x3a then DosUpFChar (ch src 0) s - 0x41 else default_drive s)"

text \<open>
  A device without a path, or in the directory \<^verbatim>\<open>\DEV\<close>: the name that is left, with the byte in front of it.
\<close>

definition bare_device :: "u8 list \<Rightarrow> u8 \<Rightarrow> ('d, 'c) dos \<Rightarrow> (u8 list \<times> u8) option" where
  "bare_device src before s =
     (let froot = get_root src; n = length src - length froot; dir = DosUpMem (take 5 src) s;
          slash = (\<lambda>c. if c = 0x2f then 0x5c else c)
      in if n = 0 then Some (src, before)
         else if n = 5 \<and> dir[0 := slash (dir ! 0), 4 := slash (dir ! 4)] = [0x5c, 0x44, 0x45, 0x56, 0x5c] then Some (froot, src ! 4)
         else None)"

text \<open>
  The current directory of the drive, made current on the disk: the path of the copy of the entry. Its result
  is \<^term>\<open>None\<close> when the media check fails.
\<close>

definition tn_curdir :: "('d, 'c) env \<Rightarrow> nat \<Rightarrow> cds \<Rightarrow> ('d, 'c) dos \<Rightarrow> (u8 list option \<times> ('d, 'c) dos) option" where
  "tn_curdir E d c s =
     (let cp = take (MAX_CDSPATH - 1) (cdsCurrentPath c); off = unat (cdsBackslashOffset c) in
      if cdsFlags c AND CDSNETWDRV \<noteq> 0 then Some (Some cp, s)
      else do {
        (rc, t) \<leftarrow> media_check (blk E) (med E) (bios_drive E) (cdsDpb c) (ks (fsys s));
        let s1 = s\<lparr>fsys := (fsys s)\<lparr>ks := t\<rparr>\<rparr>;
        if rc < 0 then Some (None, s1)
        else do {
          (rc1, f1) \<leftarrow> dos_cd (blk E) cp (fsys s1);
          if rc1 \<noteq> SUCCESS then do {
            let cp' = take (off + 1) cp;
            (_, f2) \<leftarrow> dos_cd (blk E) cp' (f1\<lparr>CDSp := (CDSp f1)[d := (CDSp f1 ! d)\<lparr>cdsCurrentPath := take (off + 1) (cdsCurrentPath (CDSp f1 ! d))\<rparr>]\<rparr>);
            Some (Some cp', s1\<lparr>fsys := f2\<rparr>)
          } else Some (Some cp, s1\<lparr>fsys := f1\<rparr>)
        }
      })"

text \<open>A joined drive: the index of the entry whose path leads to the name.\<close>

definition join_of :: "u8 list \<Rightarrow> ('d, 'c) dos \<Rightarrow> nat option" where
  "join_of dest s = find (\<lambda>i. let c = CDSp (fsys s) ! i; j = length (cdsCurrentPath c) in
     cdsFlags c AND CDSJOINED \<noteq> 0 \<and> (ch dest j = 0x5c \<or> ch dest j = 0) \<and> take j dest = cdsCurrentPath c) [0..<length (CDSp (fsys s))]"

text \<open>What follows the mapping of the path: joined drives, the check of a device's path, the result.\<close>

definition tn_finish :: "('d, 'c) env \<Rightarrow> u16 \<Rightarrow> u16 \<Rightarrow> u8 list \<Rightarrow> ('d, 'c) dos \<Rightarrow> ((int + u16 \<times> u8 list) \<times> ('d, 'c) dos) option" where
  "tn_finish E mode result dest s =
     (case (if ch dest 2 \<noteq> 0x2f \<and> mode AND CDS_MODE_SKIP_PHYSICAL = 0 \<and> njoined s \<noteq> 0 then join_of dest s else None) of
        Some i \<Rightarrow>
          let c = CDSp (fsys s) ! i; j = length (cdsCurrentPath c); letter = of_nat i + 0x41;
              dest' = (if ch dest j = 0 then [letter, 0x3a, 0x5c] else letter # 0x3a # drop j dest);
              result' = (((result AND 0xffe0) OR of_nat i) AND NOT IS_NETWORK) OR (if cdsFlags c AND CDSNETWDRV \<noteq> 0 then IS_NETWORK else 0)
          in Some (Inr (result', dest'), s\<lparr>current_ldt := Ldt i\<rparr>)
      | None \<Rightarrow>
          let local_dev = (result AND (IS_DEVICE OR IS_NETWORK) = IS_DEVICE) in do {
            (ok, s1) \<leftarrow>
              (if mode AND CDS_MODE_CHECK_DEV_PATH \<noteq> 0 \<and> local_dev \<and> ch dest 2 \<noteq> 0x2f then do {
                 (ok, f) \<leftarrow> dir_exists (blk E) dest (fsys s);
                 Some (ok, s\<lparr>fsys := f\<rparr>)
               } else Some (True, s));
            Some (if \<not> ok then Inl DE_PATHNOTFND
                  else Inr (if mode = CDS_MODE_ALLOW_WILDCARDS then if os_major s1 = 6 \<and> local_dev then 0x3a00 else 0 else result, dest), s1)
          })"

text \<open>
  The path appended to the root or the current directory: \<open>pre\<close> is the destination up to its pointer, with the
  root of the path at \<open>root\<close>.
\<close>

definition tn_append :: "('d, 'c) env \<Rightarrow> u16 \<Rightarrow> u16 \<Rightarrow> u8 \<Rightarrow> nat \<Rightarrow> u8 \<Rightarrow> u8 list \<Rightarrow> u8 list \<Rightarrow> ('d, 'c) dos \<Rightarrow>
    ((int + u16 \<times> u8 list) \<times> ('d, 'c) dos) option" where
  "tn_append E mode result sep root before src pre s =
     (case path_loop sep root before src False (rev pre) of
        Inl e \<Rightarrow> Some (Inl e, s)
      | Inr (wild, q) \<Rightarrow>
          if wild \<and> mode AND CDS_MODE_ALLOW_WILDCARDS = 0 then Some (Inl DE_PATHNOTFND, s)
          else
            let out = (if length q = 2 then rev q @ [0x5c] else rev q)
            in tn_finish E mode result (take root out @ DosUpFMem (drop root out) s) s)"

definition strip_sep :: "u8 list \<Rightarrow> u8 list" where
  "strip_sep out = (if out \<noteq> [] \<and> last out = 0x5c then butlast out else out)"

text \<open>The name below the test for a device: the destination starts with the current directory of the drive.\<close>

definition tn_local :: "('d, 'c) env \<Rightarrow> u16 \<Rightarrow> u16 \<Rightarrow> nat \<Rightarrow> cds \<Rightarrow> u8 \<Rightarrow> u8 list \<Rightarrow> ('d, 'c) dos \<Rightarrow>
    ((int + u16 \<times> u8 list) \<times> ('d, 'c) dos) option" where
  "tn_local E mode result d c before src s = do {
     (cpo, s1) \<leftarrow> tn_curdir E d c s;
     case cpo of
       None \<Rightarrow> Some (Inl DE_PATHNOTFND, s1)
     | Some cp \<Rightarrow>
         let off = unat (cdsBackslashOffset c); skip = (mode AND CDS_MODE_SKIP_PHYSICAL \<noteq> 0);
             dest = (if skip then [ucast (result AND 0x1f) + 0x41, 0x3a] @ drop off cp else cp);
             root = (if skip then 2 else off);
             i = ch dest 0 - 0x41;
             result1 = (if \<not> skip \<and> cdsFlags c AND CDSSUBST \<noteq> 0 \<and> ch dest 1 = 0x3a \<and> unat i < length (CDSp (fsys s1))
                        then (result AND 0xffe0) OR ucast i else result);
             absolute = at_end src \<and> src \<noteq> [];
             pre = strip_sep (if absolute then take root dest else take root dest @ 0x5c # drop (root + 1) dest)
         in tn_append E mode result1 0x5c root (if absolute then hd src else before) (if absolute then tl src else src) pre s1
   }"

text \<open>
  The result is an error, or the drive and flags with the canonical name. The destination buffer holds
  intermediate names when the call fails; callers do not use them.
\<close>

definition truename :: "('d, 'c) env \<Rightarrow> u8 \<Rightarrow> u8 list \<Rightarrow> u16 \<Rightarrow> ('d, 'c) dos \<Rightarrow>
    ((int + u16 \<times> u8 list) \<times> ('d, 'c) dos) option" where
  "truename E before src mode s =
     (if src = [] then Some (Inl DE_FILENOTFND, s)
      else if ch src 0 = 0x5c \<and> ch src 1 = 0x5c then
        if length src \<ge> SFTMAX then Some (Inl (errRet src), s)
        else Some (Inr (IS_NETWORK, src), s\<lparr>current_ldt := UncLdt\<rparr>)
      else
        let d = drive_no src s in
        case get_cds (ucast d) (fsys s) of
          None \<Rightarrow> Some (Inl DE_PATHNOTFND, s)
        | Some c \<Rightarrow>
            let s1 = s\<lparr>current_ldt := Ldt (unat d)\<rparr>;
                net = (if cdsFlags c AND CDSNETWDRV \<noteq> 0 then IS_NETWORK else 0);
                dev = (if IsDevice src s1 \<noteq> None then IS_DEVICE else 0);
                result = ucast d OR net OR dev
            in case (if mode AND CDS_MODE_SKIP_PHYSICAL = 0 then qualify E src else None) of
                 Some dest \<Rightarrow> Some (Inr (if ch dest 2 = 0x2f \<and> dev \<noteq> 0 then result AND NOT IS_NETWORK else result, dest), s1)
               | None \<Rightarrow>
                   let drv = (ch src 1 = 0x3a); src1 = (if drv then drop 2 src else src); before1 = (if drv then 0x3a else before) in
                   case (if dev \<noteq> 0 then bare_device src1 before1 s1 else None) of
                     Some (name, before2) \<Rightarrow>
                       tn_append E mode (result AND NOT IS_NETWORK) 0x2f 2 before2 name [ucast (result AND 0x1f) + 0x41, 0x3a] s1
                   | None \<Rightarrow> tn_local E mode result (unat d) c before1 src1 s1)"

end
