(* ===== verification/Handles.thy ===== *)
theory Handles
  imports Truename FatRw
begin

text \<open>
  The handle calls of \<^verbatim>\<open>kernel/dosfns.c\<close>: opening, duplicating, closing, reading, writing, seeking, locking,
  and the calls on names. An index into the system file table is an \<^typ>\<open>int\<close>, negative for an error code;
  the \<^verbatim>\<open>long\<close> result of an open is the index or handle plus 65536 times the action taken.
\<close>

definition XFR_FORCE_WRITE :: u16 where "XFR_FORCE_WRITE = 3"
definition SEEK_CUR :: u16 where "SEEK_CUR = 1"
definition SEEK_END :: u16 where "SEEK_END = 2"
definition O_WRONLY :: u16 where "O_WRONLY = 0x0001"
definition O_RDWR :: u16 where "O_RDWR = 0x0002"
definition O_DENYREAD :: u16 where "O_DENYREAD = 0x0030"
definition O_DENYNONE :: u16 where "O_DENYNONE = 0x0040"
definition O_NOINHERIT :: u16 where "O_NOINHERIT = 0x0080"
definition O_LEGACY :: u16 where "O_LEGACY = 0x0800"
definition O_VALIDMASK :: u16 where "O_VALIDMASK = 0xfff3"
definition SFT_MASK :: u16 where "SFT_MASK = 0x0060"
definition SFT_FEOF :: u16 where "SFT_FEOF = 0x0040"
definition SFT_FBINARY :: u16 where "SFT_FBINARY = 0x0020"
definition SFT_FNUL :: u16 where "SFT_FNUL = 0x0004"
definition C_OPEN :: u8 where "C_OPEN = 0x0d"
definition REM_LOCK :: u16 where "REM_LOCK = 0x110a"
definition REM_LSEEK :: u16 where "REM_LSEEK = 0x1121"
definition REM_OPEN :: u16 where "REM_OPEN = 0x1116"
definition REM_CREATE :: u16 where "REM_CREATE = 0x1117"
definition REM_EXTOC :: u16 where "REM_EXTOC = 0x112e"
definition REM_RMDIR :: u16 where "REM_RMDIR = 0x1101"
definition REM_MKDIR :: u16 where "REM_MKDIR = 0x1103"
definition REM_CHDIR :: u16 where "REM_CHDIR = 0x1105"
definition REM_SETATTR :: u16 where "REM_SETATTR = 0x110e"
definition REM_GETATTRZ :: u16 where "REM_GETATTRZ = 0x110f"
definition REM_RENAME :: u16 where "REM_RENAME = 0x1111"
definition REM_DELETE :: u16 where "REM_DELETE = 0x1113"

subsection \<open>Entries and handles\<close>

definition cur_psp :: "('d, 'c) dos \<Rightarrow> psp" where
  "cur_psp s = psps s (cu_psp s)"

definition upd_psp :: "(psp \<Rightarrow> psp) \<Rightarrow> ('d, 'c) dos \<Rightarrow> ('d, 'c) dos" where
  "upd_psp f s = s\<lparr>psps := (psps s)(cu_psp s := f (cur_psp s))\<rparr>"

definition set_handle :: "nat \<Rightarrow> u8 \<Rightarrow> ('d, 'c) dos \<Rightarrow> ('d, 'c) dos" where
  "set_handle h v = upd_psp (\<lambda>p. p\<lparr>ps_filetab := (ps_filetab p)[h := v]\<rparr>)"

definition upd_entry :: "nat \<Rightarrow> (sft \<Rightarrow> sft) \<Rightarrow> ('d, 'c) dos \<Rightarrow> ('d, 'c) dos" where
  "upd_entry i f s = s\<lparr>fsys := upd_sft i f (fsys s)\<rparr>"

definition sft_at :: "int \<Rightarrow> ('d, 'c) dos \<Rightarrow> sft option" where
  "sft_at i s = (if i < 0 then None else idx_to_sft (nat i) (fsys s))"

definition get_sft_idx :: "u16 \<Rightarrow> ('d, 'c) dos \<Rightarrow> int" where
  "get_sft_idx hndl s =
     (if hndl \<ge> ps_maxfiles (cur_psp s) then DE_INVLDHNDL
      else let idx = ps_filetab (cur_psp s) ! unat hndl in if idx = 0xff then DE_INVLDHNDL else int (unat idx))"

definition get_sft :: "u16 \<Rightarrow> ('d, 'c) dos \<Rightarrow> sft option" where
  "get_sft hndl s = sft_at (get_sft_idx hndl s) s"

definition get_free_hndl :: "('d, 'c) dos \<Rightarrow> int" where
  "get_free_hndl s =
     (case find (\<lambda>h. ps_filetab (cur_psp s) ! h = 0xff) [0..<unat (ps_maxfiles (cur_psp s))] of
        None \<Rightarrow> DE_TOOMANY
      | Some h \<Rightarrow> int h)"

definition get_free_sft :: "('d, 'c) dos \<Rightarrow> nat option" where
  "get_free_sft s = find (\<lambda>i. sft_count (sfts (fsys s) ! i) = 0) [0..<length (sfts (fsys s))]"

definition get_cds1 :: "u16 \<Rightarrow> ('d, 'c) dos \<Rightarrow> cds option" where
  "get_cds1 drv s = get_cds (if drv = 0 then ucast (default_drive s) else drv - 1) (fsys s)"

definition GetDriveDPB :: "u8 \<Rightarrow> ('d, 'c) dos \<Rightarrow> int + u16" where
  "GetDriveDPB drive s =
     (case get_cds1 (ucast drive) s of
        None \<Rightarrow> Inl DE_INVLDDRV
      | Some c \<Rightarrow> (case cdsDpb c of
            None \<Rightarrow> Inl DE_INVLDDRV
          | Some dp \<Rightarrow> if cdsFlags c AND CDSNETWDRV \<noteq> 0 then Inl DE_INVLDDRV else Inr dp))"

subsection \<open>Reading, writing and seeking\<close>

text \<open>
  A transfer of a character device: direct, nothing at the end of the file, to the device \<^verbatim>\<open>NUL\<close>, or through the
  console functions. The position of the cursor that raw console output advances is not part of the state. The
  test for the end of file reads the first byte of the buffer; the source casts the far pointer to a near one
  there, so this holds for buffers in the segment of the kernel's data.
\<close>

definition device_rw :: "('d, 'c) env \<Rightarrow> nat \<Rightarrow> sft \<Rightarrow> u16 \<Rightarrow> u8 list \<Rightarrow> bool \<Rightarrow> ('d, 'c) dos \<Rightarrow> (int \<times> u8 list \<times> ('d, 'c) dos) option" where
  "device_rw E i sf n bp rd s =
     (if sft_flags sf AND SFT_FBINARY \<noteq> 0 then do {
        (r, _, area, dv) \<leftarrow> BinaryCharIO (dev_io E (sft_dcb sf)) n (if rd then C_INPUT else C_OUTPUT) (take (unat n) bp) (device (ks (fsys s)));
        Some (r, if rd then overlay 0 area bp else bp, s\<lparr>fsys := (fsys s)\<lparr>ks := (ks (fsys s))\<lparr>device := dv\<rparr>\<rparr>\<rparr>)
      }
      else if rd then
        if sft_flags sf AND SFT_FEOF = 0 then Some (0, bp, s)
        else (case cooked E True i n bp s of (r, bp', s1) \<Rightarrow>
          Some (r, bp', if ch bp' 0 = 0x1a then upd_entry i (\<lambda>sf. sf\<lparr>sft_flags := sft_flags sf AND NOT SFT_FEOF\<rparr>) s1 else s1))
      else
        let s1 = upd_entry i (\<lambda>sf. sf\<lparr>sft_flags := sft_flags sf OR SFT_FEOF\<rparr>) s in
        if sft_flags sf AND SFT_FNUL \<noteq> 0 then Some (int (unat n), bp, s1)
        else Some (cooked E False i n bp s1))"

definition share_may_access :: "sft \<Rightarrow> u16 \<Rightarrow> ('d, 'c) dos \<Rightarrow> (int \<times> ('d, 'c) dos) option" where
  "share_may_access sf n s =
     (if fst (IsShareInstalled False (fsys s)) \<and> sft_shroff sf < 0x8000 then do {
        (rc, sh) \<leftarrow> access_check (cu_psp s) (sft_shroff sf) (sft_posit sf) (ucast n) True (shares (fsys s));
        Some (rc, s\<lparr>fsys := (fsys s)\<lparr>shares := sh\<rparr>\<rparr>)
      } else Some (SUCCESS, s))"

definition DosRWSft :: "('d, 'c) env \<Rightarrow> (nat \<Rightarrow> bool) \<Rightarrow> int \<Rightarrow> u16 \<Rightarrow> u8 list \<Rightarrow> u16 \<Rightarrow> ('d, 'c) dos \<Rightarrow>
    (int \<times> u8 list \<times> ('d, 'c) dos) option" where
  "DosRWSft E high sft_idx n bp mode s =
     (case sft_at sft_idx s of
        None \<Rightarrow> Some (DE_INVLDHNDL, bp, s)
      | Some sf \<Rightarrow>
          if mode = XFR_READ \<and> sft_mode sf AND O_WRONLY \<noteq> 0 \<or> mode = XFR_WRITE \<and> sft_mode sf AND O_ACCMODE = O_RDONLY
          then Some (DE_ACCESS, bp, s)
          else
            let mode' = (if mode = XFR_FORCE_WRITE then XFR_WRITE else mode); i = nat sft_idx in
            if sft_flags sf AND SFT_FSHARED \<noteq> 0 then Some (remote_rw E (mode' = XFR_READ) i n bp s)
            else if sft_flags sf AND SFT_FDEVICE \<noteq> 0 then device_rw E i sf n bp (mode' = XFR_READ) s
            else do {
              (rc, s1) \<leftarrow> share_may_access sf n s;
              if rc \<noteq> SUCCESS then Some (rc, bp, s1)
              else do {
                (r, bp', f) \<leftarrow> rwblock (blk E) high i bp n mode' (fsys s1);
                Some (r, bp', s1\<lparr>fsys := f\<rparr>)
              }
            })"

definition SftSeek :: "('d, 'c) env \<Rightarrow> int \<Rightarrow> u32 \<Rightarrow> u16 \<Rightarrow> ('d, 'c) dos \<Rightarrow> int \<times> ('d, 'c) dos" where
  "SftSeek E sft_idx new_pos mode s =
     (case sft_at sft_idx s of
        None \<Rightarrow> (DE_INVLDHNDL, s)
      | Some sf \<Rightarrow>
          if mode > SEEK_END then (DE_INVLDFUNC, s)
          else
            let i = nat sft_idx;
                (pos, s1) = (if sft_flags sf AND SFT_FDEVICE \<noteq> 0 then (0, s)
                  else if mode = SEEK_CUR then (new_pos + sft_posit sf, s)
                  else if mode = SEEK_END then
                    if sft_flags sf AND SFT_FSHARED \<noteq> 0 \<and> sft_mode sf AND (O_DENYREAD OR O_DENYNONE) \<noteq> 0
                    then (case remote E REM_LSEEK i [new_pos] s of (r, s1) \<Rightarrow> (word_of_int r, s1))
                    else (new_pos + sft_size sf, s)
                  else (new_pos, s))
            in (SUCCESS, upd_entry i (\<lambda>sf. sf\<lparr>sft_posit := pos\<rparr>) s1))"

text \<open>The new position is only meaningful when the result code is \<^verbatim>\<open>SUCCESS\<close>.\<close>

definition DosSeek :: "('d, 'c) env \<Rightarrow> u16 \<Rightarrow> u32 \<Rightarrow> u16 \<Rightarrow> ('d, 'c) dos \<Rightarrow> (int \<times> u32 \<times> ('d, 'c) dos) option" where
  "DosSeek E hndl new_pos mode s =
     (let idx = get_sft_idx hndl s in
      case SftSeek E idx new_pos mode s of (rc, s1) \<Rightarrow>
        if rc = SUCCESS then do { sf \<leftarrow> sft_at idx s1; Some (rc, sft_posit sf, s1) }
        else Some (rc, word_of_int rc, s1))"

end
