(* ===== verification/HandleOps.thy ===== *)
theory HandleOps
  imports Handles
begin

text \<open>
  Opening and closing, and the calls on names, of \<^verbatim>\<open>kernel/dosfns.c\<close>; temporary files of \<^verbatim>\<open>kernel/newstuff.c\<close>.
\<close>

subsection \<open>Opening\<close>

definition sft0 :: sft where
  "sft0 = \<lparr>sft_count = 0, sft_mode = 0, sft_attrib = 0, sft_flags = 0, sft_dcb = 0, sft_relclust_high = 0, sft_time = 0, sft_date = 0,
     sft_size = 0, sft_posit = 0, sft_relclust = 0, sft_dirsector = 0, sft_diridx = 0, sft_name = replicate 11 0, sft_stclust = 0,
     sft_psp = 0, sft_shroff = 0, sft_cuclust = 0\<rparr>"

text \<open>The eight characters of the device, with spaces for the zero bytes at the end of the eleven.\<close>

definition device_name :: "u8 list \<Rightarrow> u8 list" where
  "device_name name = (let n = take 8 name @ replicate (11 - length (take 8 name)) 0; k = length (takeWhile (\<lambda>c. c = 0) (rev n))
     in take (length n - k) n @ replicate k 0x20)"

definition DeviceOpenSft :: "('d, 'c) env \<Rightarrow> u16 \<Rightarrow> nat \<Rightarrow> ('d, 'c) dos \<Rightarrow> (int \<times> ('d, 'c) dos) option" where
  "DeviceOpenSft E dhp i s =
     (let attr = dh_attr (ks (fsys s)) dhp;
          name = (case find (\<lambda>(d, _). d = dhp) (devs s) of None \<Rightarrow> [] | Some (_, n) \<Rightarrow> n)
      in do {
        (d, f1) \<leftarrow> dos_getdate (clk E) (fsys s);
        (t, f2) \<leftarrow> dos_gettime (clk E) f1;
        let s1 = upd_entry i (\<lambda>sf. sf\<lparr>sft_shroff := 0xffff, sft_count := sft_count sf + 1,
                   sft_flags := (attr AND NOT (SFT_MASK OR SFT_FSHARED)) OR SFT_FDEVICE OR SFT_FEOF,
                   sft_name := DosUpFMem (device_name name) s, sft_dcb := dhp, sft_date := d, sft_time := t,
                   sft_attrib := D_DEVICE\<rparr>) (s\<lparr>fsys := f2\<rparr>);
        if attr AND SFT_FOCRM \<noteq> 0 then do {
          (r, _, _, dv) \<leftarrow> BinaryCharIO (chr_dev (outer E) dhp) 0 C_OPEN () (device (ks (fsys s1)));
          Some (if r \<noteq> SUCCESS then DE_ACCESS else SUCCESS, s1\<lparr>fsys := (fsys s1)\<lparr>ks := (ks (fsys s1))\<lparr>device := dv\<rparr>\<rparr>\<rparr>)
        } else Some (SUCCESS, s1)
      })"

text \<open>Opening on a drive of the network redirector.\<close>

definition remote_open :: "('d, 'c) env \<Rightarrow> u16 \<Rightarrow> u16 \<Rightarrow> nat \<Rightarrow> ('d, 'c) dos \<Rightarrow> int \<times> ('d, 'c) dos" where
  "remote_open E flags attrib i s =
     (let attrib1 = (if flags AND (O_TRUNC OR O_CREAT) = O_CREAT then attrib OR 0x100 else attrib);
          (cmd, args) =
            (if flags AND O_LEGACY = 0 then
               (REM_EXTOC, [ucast attrib1, ucast (flags AND 0x70ff), ucast (attrib1 AND 0xff),
                  ucast (drop_bit 8 (flags AND 0x0300) OR drop_bit 6 (flags AND O_CREAT))])
             else if flags AND O_CREAT = 0 then (REM_OPEN, [ucast (flags AND 0xff)])
             else (REM_CREATE, [ucast attrib1]))
      in case remote E cmd i args s of (status, s1) \<Rightarrow>
           if status \<ge> SUCCESS then
             (int i + 65536 * status, if sft_count (sfts (fsys s1) ! i) = 0 then upd_entry i (\<lambda>sf. sf\<lparr>sft_count := sft_count sf + 1\<rparr>) s1 else s1)
           else (status, s1))"

text \<open>
  Opening on a local drive, from the checks of the mode on: SHARE is asked first, and told when the open fails
  afterwards.
\<close>

definition share_admits :: "u16 \<Rightarrow> nat \<Rightarrow> ('d, 'c) dos \<Rightarrow> (int \<times> ('d, 'c) fs) option" where
  "share_admits flags i s =
     (case IsShareInstalled True (fsys s) of (inst, f) \<Rightarrow>
        if inst then do {
          (r, sh) \<leftarrow> open_check (\<lambda>j. ch (PriPathName s) j) (cu_psp s) (flags AND 3) (drop_bit 4 flags AND 7) (shares f);
          Some (r, upd_sft i (\<lambda>sf. sf\<lparr>sft_shroff := word_of_int r\<rparr>) (f\<lparr>shares := sh\<rparr>))
        } else Some (0, f))"

definition open_failed :: "nat \<Rightarrow> ('d, 'c) fs \<Rightarrow> ('d, 'c) fs option" where
  "open_failed i f =
     (case IsShareInstalled True f of (inst, f1) \<Rightarrow> do {
        f2 \<leftarrow> (if inst then do {
                 sh \<leftarrow> close_file (sft_shroff (sfts f1 ! i)) (shares f1);
                 Some (upd_sft i (\<lambda>sf. sf\<lparr>sft_shroff := 0xffff\<rparr>) (f1\<lparr>shares := sh\<rparr>))
               } else Some f1);
        Some (upd_sft i (\<lambda>sf. sf\<lparr>sft_count := sft_count sf - 1\<rparr>) f2)
      })"

definition local_open :: "('d, 'c) env \<Rightarrow> u16 \<Rightarrow> u16 \<Rightarrow> nat \<Rightarrow> ('d, 'c) dos \<Rightarrow> (int \<times> ('d, 'c) dos) option" where
  "local_open E flags attrib i s =
     (if flags AND O_ACCMODE > 2 then Some (DE_INVLDACC, s)
      else if flags AND O_FCB = 0 \<and> attrib AND NOT (ucast (D_RDONLY OR D_HIDDEN OR D_SYSTEM OR D_ARCHIVE OR D_VOLID)) \<noteq> 0
      then Some (DE_ACCESS, s)
      else do {
        (rc, f1) \<leftarrow> share_admits flags i s;
        if rc < 0 then Some (rc, s\<lparr>fsys := f1\<rparr>)
        else do {
          let f2 = upd_sft i (\<lambda>sf. sf\<lparr>sft_count := sft_count sf + 1, sft_flags := ucast (ch (PriPathName s) 0 - 0x41)\<rparr>) f1;
          (result, f3) \<leftarrow> dos_open (blk E) (clk E) (PriPathName s) flags attrib i f2;
          if result < 0 then do {
            f4 \<leftarrow> open_failed i f3;
            Some (result, s\<lparr>fsys := f4\<rparr>)
          } else Some (int i + 65536 * result, s\<lparr>fsys := f3\<rparr>)
        }
      })"

definition DosOpenSft :: "('d, 'c) env \<Rightarrow> u8 \<Rightarrow> u8 list \<Rightarrow> u16 \<Rightarrow> u16 \<Rightarrow> ('d, 'c) dos \<Rightarrow> (int \<times> ('d, 'c) dos) option" where
  "DosOpenSft E before fname flags attrib s = do {
     (tn, s1) \<leftarrow> truename E before fname CDS_MODE_CHECK_DEV_PATH s;
     case tn of
       Inl e \<Rightarrow> Some (e, s1)
     | Inr (result, dest) \<Rightarrow>
         (case get_free_sft s1 of
            None \<Rightarrow> Some (DE_TOOMANY, s1\<lparr>PriPathName := dest\<rparr>)
          | Some i \<Rightarrow>
              let attrib1 = attrib OR ucast D_ARCHIVE;
                  s2 = upd_entry i (\<lambda>_. sft0\<lparr>sft_psp := cu_psp s1, sft_mode := flags AND 0xf0ff, sft_shroff := 0xffff,
                         sft_attrib := ucast attrib1\<rparr>) (s1\<lparr>PriPathName := dest, OpenMode := ucast flags\<rparr>)
              in if result AND IS_NETWORK \<noteq> 0 then Some (remote_open E flags attrib1 i s2)
                 else
                   (case (if result AND IS_DEVICE \<noteq> 0 then IsDevice fname s2 else None) of
                      Some dhp \<Rightarrow> do {
                        (rc, s3) \<leftarrow> DeviceOpenSft E dhp i s2;
                        Some (if rc < SUCCESS then rc else int i, s3)
                      }
                    | None \<Rightarrow> local_open E flags attrib1 i s2))
   }"

definition DosOpen :: "('d, 'c) env \<Rightarrow> u8 \<Rightarrow> u8 list \<Rightarrow> u16 \<Rightarrow> u16 \<Rightarrow> ('d, 'c) dos \<Rightarrow> (int \<times> ('d, 'c) dos) option" where
  "DosOpen E before fname mode attrib s =
     (if mode AND NOT O_VALIDMASK \<noteq> 0 then Some (DE_INVLDACC, s)
      else let hndl = get_free_hndl s in
        if hndl < 0 then Some (hndl, s)
        else do {
          (result, s1) \<leftarrow> DosOpenSft E before fname mode attrib s;
          Some (if result < SUCCESS then (result, s1)
                else (hndl + (result - result mod 65536), set_handle (nat hndl) (word_of_int result) s1))
        })"

subsection \<open>Duplicating and closing\<close>

definition CloneHandle :: "u16 \<Rightarrow> ('d, 'c) dos \<Rightarrow> int \<times> ('d, 'c) dos" where
  "CloneHandle hndl s =
     (case get_sft hndl s of
        None \<Rightarrow> (DE_INVLDHNDL, s)
      | Some sf \<Rightarrow>
          if sft_mode sf AND O_NOINHERIT \<noteq> 0 then (DE_INVLDHNDL, s)
          else (SUCCESS, upd_entry (nat (get_sft_idx hndl s)) (\<lambda>sf. sf\<lparr>sft_count := sft_count sf + 1\<rparr>) s))"

definition DosClose :: "('d, 'c) env \<Rightarrow> u16 \<Rightarrow> ('d, 'c) dos \<Rightarrow> (int \<times> ('d, 'c) dos) option" where
  "DosClose E hndl s =
     (let idx = get_sft_idx hndl s in
      case sft_at idx s of
        None \<Rightarrow> Some (DE_INVLDHNDL, s)
      | Some _ \<Rightarrow> do {
          let s1 = set_handle (unat hndl) 0xff s;
          (r, f) \<leftarrow> DosCloseSft (blk E) (clk E) (outer E) (nat idx) False (fsys s1);
          Some (r, s1\<lparr>fsys := f\<rparr>)
        })"

text \<open>The entry of the old handle is looked up before the new handle is closed; the handle is read afterwards.\<close>

definition DosForceDup :: "('d, 'c) env \<Rightarrow> u16 \<Rightarrow> u16 \<Rightarrow> ('d, 'c) dos \<Rightarrow> (int \<times> ('d, 'c) dos) option" where
  "DosForceDup E OldHandle NewHandle s =
     (let idx = get_sft_idx OldHandle s in
      case sft_at idx s of
        None \<Rightarrow> Some (DE_INVLDHNDL, s)
      | Some _ \<Rightarrow>
          if unat NewHandle \<ge> length (ps_filetab (cur_psp s)) then None
          else do {
            (ret, s1) \<leftarrow> (if ps_filetab (cur_psp s) ! unat NewHandle \<noteq> 0xff then DosClose E NewHandle s else Some (SUCCESS, s));
            Some (if ret \<noteq> SUCCESS then (ret, s1)
                  else (SUCCESS, upd_entry (nat idx) (\<lambda>sf. sf\<lparr>sft_count := sft_count sf + 1\<rparr>)
                          (set_handle (unat NewHandle) (ps_filetab (cur_psp s1) ! unat OldHandle) s1)))
          })"

definition DosDup :: "('d, 'c) env \<Rightarrow> u16 \<Rightarrow> ('d, 'c) dos \<Rightarrow> (int \<times> ('d, 'c) dos) option" where
  "DosDup E hndl s =
     (let NewHandle = get_free_hndl s in
      if NewHandle < 0 then Some (NewHandle, s)
      else do {
        (r, s1) \<leftarrow> DosForceDup E hndl (word_of_int NewHandle) s;
        Some (if r < 0 then DE_INVLDHNDL else NewHandle, s1)
      })"

end
