(* ===== verification/NameOps.thy ===== *)
theory NameOps
  imports HandleOps
begin

text \<open>
  The calls of \<^verbatim>\<open>kernel/dosfns.c\<close> on names, drives, times and locks, and the creation of temporary files of
  \<^verbatim>\<open>kernel/newstuff.c\<close>.
\<close>

definition REM_FINDFIRST :: u16 where "REM_FINDFIRST = 0x111b"
definition REM_FINDNEXT :: u16 where "REM_FINDNEXT = 0x111c"
definition REM_GETSPACE :: u16 where "REM_GETSPACE = 0x110c"
definition FAT_MAGIC16 :: u16 where "FAT_MAGIC16 = 65525"
definition M_CHANGED :: u8 where "M_CHANGED = 0xff"

subsection \<open>Names\<close>

text \<open>
  The common shape of the calls on a name: the name is made canonical in \<^verbatim>\<open>PriPathName\<close>, and the rest depends
  on the flags of the result.
\<close>

definition with_name :: "('d, 'c) env \<Rightarrow> u8 \<Rightarrow> u8 list \<Rightarrow> u16 \<Rightarrow> (u16 \<Rightarrow> ('d, 'c) dos \<Rightarrow> (int \<times> ('d, 'c) dos) option) \<Rightarrow>
    ('d, 'c) dos \<Rightarrow> (int \<times> ('d, 'c) dos) option" where
  "with_name E before name mode k s = do {
     (tn, s1) \<leftarrow> truename E before name mode s;
     case tn of Inl e \<Rightarrow> Some (e, s1) | Inr (result, dest) \<Rightarrow> k result (s1\<lparr>PriPathName := dest\<rparr>)
   }"

definition on_fs :: "(('d, 'c) fs \<Rightarrow> (int \<times> ('d, 'c) fs) option) \<Rightarrow> ('d, 'c) dos \<Rightarrow> (int \<times> ('d, 'c) dos) option" where
  "on_fs f s = do { (rc, g) \<leftarrow> f (fsys s); Some (rc, s\<lparr>fsys := g\<rparr>) }"

definition DosGetFattr :: "('d, 'c) env \<Rightarrow> u8 \<Rightarrow> u8 list \<Rightarrow> ('d, 'c) dos \<Rightarrow> (int \<times> ('d, 'c) dos) option" where
  "DosGetFattr E before name = with_name E before name CDS_MODE_CHECK_DEV_PATH (\<lambda>result s.
     if ch (PriPathName s) 3 = 0 then Some (0x10, s)
     else if result AND IS_NETWORK \<noteq> 0 then Some (remote E REM_GETATTRZ 0 [] s)
     else if result AND IS_DEVICE \<noteq> 0 then Some (DE_FILENOTFND, s)
     else on_fs (dos_getfattr (blk E) (PriPathName s)) s)"

definition DosSetFattr :: "('d, 'c) env \<Rightarrow> u8 \<Rightarrow> u8 list \<Rightarrow> u16 \<Rightarrow> ('d, 'c) dos \<Rightarrow> (int \<times> ('d, 'c) dos) option" where
  "DosSetFattr E before name attrp = with_name E before name CDS_MODE_CHECK_DEV_PATH (\<lambda>result s.
     if result AND IS_NETWORK \<noteq> 0 then Some (remote E REM_SETATTR 0 [ucast attrp] s)
     else if result AND IS_DEVICE \<noteq> 0 then Some (DE_FILENOTFND, s)
     else
       case IsShareInstalled True (fsys s) of (inst, f) \<Rightarrow> do {
         (rc, f1) \<leftarrow>
           (if inst then do {
              (r, sh) \<leftarrow> open_check (\<lambda>j. ch (PriPathName s) j) (cu_psp s) O_RDWR 0 (shares f);
              if r < 0 then Some (r, f\<lparr>shares := sh\<rparr>)
              else do { sh1 \<leftarrow> close_file (word_of_int r) sh; Some (0, f\<lparr>shares := sh1\<rparr>) }
            } else Some (0, f));
         if rc < 0 then Some (rc, s\<lparr>fsys := f1\<rparr>)
         else on_fs (dos_setfattr (blk E) (clk E) (outer E) (PriPathName s) attrp) (s\<lparr>fsys := f1\<rparr>)
       })"

definition DosDelete :: "('d, 'c) env \<Rightarrow> u8 \<Rightarrow> u8 list \<Rightarrow> u16 \<Rightarrow> ('d, 'c) dos \<Rightarrow> (int \<times> ('d, 'c) dos) option" where
  "DosDelete E before pname attrib = with_name E before pname CDS_MODE_CHECK_DEV_PATH (\<lambda>result s.
     if result AND IS_NETWORK \<noteq> 0 then Some (remote E REM_DELETE 0 [] s)
     else if result AND IS_DEVICE \<noteq> 0 then Some (DE_FILENOTFND, s)
     else on_fs (dos_delete (blk E) (PriPathName s) attrib) s)"

definition ldt_flags :: "('d, 'c) dos \<Rightarrow> u16" where
  "ldt_flags s = (case current_ldt s of Ldt i \<Rightarrow> cdsFlags (CDSp (fsys s) ! i) | _ \<Rightarrow> 0)"

definition DosRenameTrue :: "('d, 'c) env \<Rightarrow> u8 list \<Rightarrow> u8 list \<Rightarrow> u16 \<Rightarrow> ('d, 'c) dos \<Rightarrow> (int \<times> ('d, 'c) dos) option" where
  "DosRenameTrue E path1 path2 attrib s =
     (if ch path1 0 \<noteq> ch path2 0 then Some (DE_DEVICE, s)
      else if current_ldt s = UncLdt \<or> ldt_flags s AND CDSNETWDRV \<noteq> 0 then Some (remote E REM_RENAME 0 [] s)
      else on_fs (dos_rename (blk E) path1 path2 attrib) s)"

definition DosRename :: "('d, 'c) env \<Rightarrow> u8 \<Rightarrow> u8 list \<Rightarrow> u8 \<Rightarrow> u8 list \<Rightarrow> ('d, 'c) dos \<Rightarrow> (int \<times> ('d, 'c) dos) option" where
  "DosRename E before1 path1 before2 path2 s = do {
     (tn, s1) \<leftarrow> truename E before2 path2 CDS_MODE_CHECK_DEV_PATH s;
     case tn of
       Inl e \<Rightarrow> Some (e, s1)
     | Inr (result, dest) \<Rightarrow>
         if result AND (IS_NETWORK OR IS_DEVICE) = IS_DEVICE then Some (DE_FILENOTFND, s1\<lparr>SecPathName := dest\<rparr>)
         else with_name E before1 path1 CDS_MODE_CHECK_DEV_PATH (\<lambda>result s.
           if result AND (IS_NETWORK OR IS_DEVICE) = IS_DEVICE then Some (DE_FILENOTFND, s)
           else DosRenameTrue E (PriPathName s) (SecPathName s) (ucast D_ALL) s) (s1\<lparr>SecPathName := dest\<rparr>)
   }"

definition DosMkRmdir :: "('d, 'c) env \<Rightarrow> u8 \<Rightarrow> u8 list \<Rightarrow> u8 \<Rightarrow> ('d, 'c) dos \<Rightarrow> (int \<times> ('d, 'c) dos) option" where
  "DosMkRmdir E before dir action = with_name E before dir CDS_MODE_CHECK_DEV_PATH (\<lambda>result s.
     if result AND IS_NETWORK \<noteq> 0 then Some (remote E (if action = 0x39 then REM_MKDIR else REM_RMDIR) 0 [] s)
     else if result AND IS_DEVICE \<noteq> 0 then Some (DE_ACCESS, s)
     else on_fs (if action = 0x39 then dos_mkdir (blk E) (clk E) (PriPathName s) else dos_rmdir (blk E) (PriPathName s)) s)"

text \<open>The second result is what is copied to the caller.\<close>

definition DosTruename :: "('d, 'c) env \<Rightarrow> u8 \<Rightarrow> u8 list \<Rightarrow> ('d, 'c) dos \<Rightarrow> (int \<times> u8 list option \<times> ('d, 'c) dos) option" where
  "DosTruename E before src s = do {
     (tn, s1) \<leftarrow> truename E before src CDS_MODE_ALLOW_WILDCARDS s;
     Some (case tn of Inl e \<Rightarrow> (e, None, s1) | Inr (rc, dest) \<Rightarrow> (int (unat rc), Some dest, s1\<lparr>PriPathName := dest\<rparr>))
   }"

definition DosGetCuDir :: "('d, 'c) env \<Rightarrow> u8 \<Rightarrow> u8 \<Rightarrow> ('d, 'c) dos \<Rightarrow> (int \<times> u8 list option \<times> ('d, 'c) dos) option" where
  "DosGetCuDir E before drive s =
     (let drv = (if drive = 0 then default_drive s else drive - 1) in do {
        (tn, s1) \<leftarrow> truename E before [0x41 + (drv AND 0x1f), 0x3a] CDS_MODE_SKIP_PHYSICAL s;
        Some (case tn of Inl e \<Rightarrow> (DE_INVLDDRV, None, s1) | Inr (rc, dest) \<Rightarrow> (SUCCESS, Some (drop 3 dest), s1\<lparr>PriPathName := dest\<rparr>))
      })"

text \<open>A path of the network without a drive letter has no entry for the current directory, but is copied there.\<close>

definition DosChangeDir :: "('d, 'c) env \<Rightarrow> u8 \<Rightarrow> u8 list \<Rightarrow> ('d, 'c) dos \<Rightarrow> (int \<times> ('d, 'c) dos) option" where
  "DosChangeDir E before pname s = do {
     (tn, s1) \<leftarrow> truename E before pname CDS_MODE_CHECK_DEV_PATH s;
     case tn of
       Inl e \<Rightarrow> Some (DE_PATHNOTFND, s1)
     | Inr (result, dest) \<Rightarrow>
         let s2 = s1\<lparr>PriPathName := dest\<rparr> in
         if current_ldt s2 \<noteq> UncLdt \<and> length dest \<ge> MAX_CDSPATH then Some (DE_PATHNOTFND, s2)
         else do {
           (rc, s3) \<leftarrow> (if result AND IS_NETWORK \<noteq> 0 then Some (remote E REM_CHDIR 0 [] s2) else on_fs (dos_cd (blk E) dest) s2);
           if rc \<noteq> SUCCESS then Some (rc, s3)
           else (case current_ldt s3 of
                   Ldt i \<Rightarrow> Some (SUCCESS, s3\<lparr>fsys := (fsys s3)\<lparr>CDSp := (CDSp (fsys s3))[i := (CDSp (fsys s3) ! i)\<lparr>cdsCurrentPath := PriPathName s3\<rparr>]\<rparr>\<rparr>)
                 | _ \<Rightarrow> None)
         }
   }"

definition DosSelectDrv :: "u8 \<Rightarrow> ('d, 'c) dos \<Rightarrow> u8 \<times> ('d, 'c) dos" where
  "DosSelectDrv drv s =
     (of_nat (length (CDSp (fsys s))),
      if get_cds (ucast drv) (fsys s) = None then s\<lparr>current_ldt := NoLdt\<rparr>
      else s\<lparr>current_ldt := Ldt (unat drv), default_drive := drv\<rparr>)"

text \<open>
  Temporary files: eight letters from the date and time, counted up until a new file could be made. Names are
  tried at most 4096 times.
\<close>

definition tmp_letter :: "u8 \<Rightarrow> u32 \<Rightarrow> u8" where
  "tmp_letter major v = (let c = ucast (v AND 0xf) + 0x41 in
     if major < 5 then c - (if c < 0x4b then 0x30 - 0x41 else 10) else c)"

definition tmp_name :: "u8 \<Rightarrow> u32 \<Rightarrow> u8 list" where
  "tmp_name major v = map (\<lambda>i. tmp_letter major (drop_bit (4 * (7 - i)) v)) [0..<8]"

fun mktmp_loop :: "('d, 'c) env \<Rightarrow> u8 \<Rightarrow> u8 list \<Rightarrow> u16 \<Rightarrow> nat \<Rightarrow> u32 \<Rightarrow> ('d, 'c) dos \<Rightarrow> (int \<times> u8 list \<times> ('d, 'c) dos) option" where
  "mktmp_loop E before dir attr n randvar s =
     (let name = dir @ tmp_name (os_major s) randvar in do {
        (rc, s1) \<leftarrow> DosOpen E before name (O_LEGACY OR O_CREAT OR O_RDWR) attr s;
        if rc = DE_FILEEXISTS \<and> n > 0 then mktmp_loop E before dir attr (n - 1) (randvar + 1) s1
        else Some (rc, name, s1)
      })"

definition DosMkTmp :: "('d, 'c) env \<Rightarrow> u8 \<Rightarrow> u8 list \<Rightarrow> u16 \<Rightarrow> ('d, 'c) dos \<Rightarrow> (int \<times> u8 list \<times> ('d, 'c) dos) option" where
  "DosMkTmp E before pathname attr s =
     (let dir = (if os_major s = 5 \<and> (pathname = [] \<or> \<not> is_sep (last pathname)) then pathname @ [0x5c] else pathname) in do {
        (d, f1) \<leftarrow> dos_getdate (clk E) (fsys s);
        (t, f2) \<leftarrow> dos_gettime (clk E) f1;
        mktmp_loop E before dir attr 0xfff (push_bit 16 (ucast d) OR ucast t) (s\<lparr>fsys := f2\<rparr>)
      })"

subsection \<open>Searches\<close>

definition pop_dmp :: "int \<Rightarrow> ('d, 'c) dos \<Rightarrow> int \<times> ('d, 'c) dos" where
  "pop_dmp rc s =
     (if rc \<noteq> SUCCESS then (rc, s)
      else let dm = dmat (fsys s) 0; e = SearchDir (fsys s) in
        (rc, s\<lparr>dta := (dta s)\<lparr>dm_drive := dm_drive dm, dm_name_pat := dm_name_pat dm, dm_attr_srch := dm_attr_srch dm,
           dm_entry := dm_entry dm, dm_dircluster := dm_dircluster dm, dm_attr_fnd := dir_attrib e, dm_time := dir_time e,
           dm_date := dir_date e, dm_size := dir_size e, dm_name := ConvertName83ToNameSZ (dir_name e)\<rparr>\<rparr>))"

definition dmatch0 :: dmatch where
  "dmatch0 = \<lparr>dm_drive = 0, dm_name_pat = replicate 11 0, dm_attr_srch = 0, dm_entry = 0, dm_dircluster = 0\<rparr>"

text \<open>The entry made up for a device: its name without extension.\<close>

definition device_entry :: "('d, 'c) env \<Rightarrow> ('d, 'c) fs \<Rightarrow> u8 list \<Rightarrow> (('d, 'c) fs) option" where
  "device_entry E f name = do {
     (t, f1) \<leftarrow> dos_gettime (clk E) f;
     (d, f2) \<leftarrow> dos_getdate (clk E) f1;
     let n = take 8 (takeWhile (\<lambda>c. c \<noteq> 0x2e) (get_root name));
     Some (upd_dm 0 (\<lambda>dm. dm\<lparr>dm_entry := 0xffff\<rparr>) (f2\<lparr>SearchDir := (SearchDir f2)\<lparr>dir_attrib := D_DEVICE, dir_time := t, dir_date := d,
       dir_name := n @ replicate (11 - length n) 0x20\<rparr>\<rparr>))
   }"

definition DosFindFirst :: "('d, 'c) env \<Rightarrow> u16 \<Rightarrow> u8 \<Rightarrow> u8 list \<Rightarrow> ('d, 'c) dos \<Rightarrow> (int \<times> ('d, 'c) dos) option" where
  "DosFindFirst E attr before name = with_name E before name (CDS_MODE_CHECK_DEV_PATH OR CDS_MODE_ALLOW_WILDCARDS) (\<lambda>result s.
     let s1 = s\<lparr>fsys := (fsys s)\<lparr>dmat := (dmat (fsys s))(0 := dmatch0), SearchDir := dirent0\<rparr>\<rparr> in do {
       (rc, s2) \<leftarrow>
         (if result AND IS_NETWORK \<noteq> 0 then Some (remote E REM_FINDFIRST 0 [] s1)
          else if result AND IS_DEVICE \<noteq> 0 then do {
            f \<leftarrow> device_entry E (fsys s1) (PriPathName s1);
            Some (SUCCESS, s1\<lparr>fsys := f\<rparr>)
          }
          else on_fs (dos_findfirst (blk E) (med E) (bios_drive E) attr (PriPathName s1)) s1);
       Some (pop_dmp rc s2)
     })"

definition DosFindNext :: "('d, 'c) env \<Rightarrow> ('d, 'c) dos \<Rightarrow> (int \<times> ('d, 'c) dos) option" where
  "DosFindNext E s =
     (let d = dta s; dm = \<lparr>dm_drive = dm_drive d, dm_name_pat = dm_name_pat d, dm_attr_srch = dm_attr_srch d, dm_entry = dm_entry d,
            dm_dircluster = dm_dircluster d\<rparr>;
          s1 = s\<lparr>fsys := (fsys s)\<lparr>dmat := (dmat (fsys s))(0 := dm)\<rparr>\<rparr>
      in if dm_attr_srch dm AND NOT (D_RDONLY OR D_ARCHIVE OR D_DEVICE) = D_VOLID \<or> dm_entry dm = 0xffff then Some (DE_NFILES, s1)
         else do {
           let s2 = s1\<lparr>fsys := (fsys s1)\<lparr>SearchDir := dirent0\<rparr>\<rparr>;
           (rc, s3) \<leftarrow>
             (if dm_drive dm AND 0x80 \<noteq> 0 then Some (remote E REM_FINDNEXT 0 [] s2)
              else on_fs (dos_findnext (blk E) (med E) (bios_drive E)) s2);
           Some (pop_dmp rc s3)
         })"

subsection \<open>Times and locks\<close>

definition DosGetFtime :: "u16 \<Rightarrow> ('d, 'c) dos \<Rightarrow> int + u16 \<times> u16" where
  "DosGetFtime hndl s = (case get_sft hndl s of None \<Rightarrow> Inl DE_INVLDHNDL | Some sf \<Rightarrow> Inr (sft_date sf, sft_time sf))"

definition DosSetFtimeSft :: "int \<Rightarrow> u16 \<Rightarrow> u16 \<Rightarrow> ('d, 'c) dos \<Rightarrow> int \<times> ('d, 'c) dos" where
  "DosSetFtimeSft sft_idx dp tp s =
     (case sft_at sft_idx s of
        None \<Rightarrow> (DE_INVLDHNDL, s)
      | Some sf \<Rightarrow>
          (SUCCESS, if sft_flags sf AND SFT_FDEVICE \<noteq> 0 then s
            else upd_entry (nat sft_idx) (\<lambda>sf. sf\<lparr>sft_flags := sft_flags sf OR SFT_FDATE, sft_date := dp, sft_time := tp\<rparr>) s))"

definition DosLockUnlock :: "('d, 'c) env \<Rightarrow> u16 \<Rightarrow> u32 \<Rightarrow> u32 \<Rightarrow> bool \<Rightarrow> ('d, 'c) dos \<Rightarrow> (int \<times> ('d, 'c) dos) option" where
  "DosLockUnlock E hndl pos len unlock s =
     (case get_sft hndl s of
        None \<Rightarrow> Some (DE_INVLDHNDL, s)
      | Some sf \<Rightarrow>
          if sft_flags sf AND SFT_FSHARED \<noteq> 0 then Some (remote E REM_LOCK (nat (get_sft_idx hndl s)) [pos, len, if unlock then 1 else 0] s)
          else if \<not> fst (IsShareInstalled False (fsys s)) then Some (DE_INVLDFUNC, s)
          else if sft_shroff sf \<ge> 0x8000 then Some (DE_LOCK, s)
          else do {
            (rc, sh) \<leftarrow> lock_unlock (cu_psp s) (sft_shroff sf) pos len unlock (shares (fsys s));
            Some (rc, s\<lparr>fsys := (fsys s)\<lparr>shares := sh\<rparr>\<rparr>)
          })"

subsection \<open>Free space\<close>

text \<open>
  Sectors per cluster, free clusters (when asked for), bytes per sector, clusters. The old interface has
  words, so clusters of large drives are reported in groups. The answer of the redirector is four words.
\<close>

function group_clusters :: "u32 \<Rightarrow> u16 \<Rightarrow> u32 \<Rightarrow> u32 \<Rightarrow> u16 \<times> u32 \<times> u32" where
  "group_clusters cluster_size spc ntotal nfree =
     (if ntotal > ucast FAT_MAGIC16 \<and> cluster_size < 0x8000
      then group_clusters (push_bit 1 cluster_size) (push_bit 1 spc) (drop_bit 1 ntotal) (drop_bit 1 nfree)
      else (spc, ntotal, nfree))"
  by pat_completeness auto

termination
proof (relation "measure (\<lambda>(c, p, t, f). unat t)")
  fix c t f :: u32 and p :: u16
  assume "ucast FAT_MAGIC16 < t \<and> c < 0x8000"
  then have "0 < unat t" by (auto simp: FAT_MAGIC16_def word_less_nat_alt)
  then have "unat (drop_bit 1 t) < unat t" by (simp add: drop_bit_eq_div unat_div)
  then show "((push_bit 1 c, push_bit 1 p, drop_bit 1 t, drop_bit 1 f), c, p, t, f) \<in> measure (\<lambda>(c, p, t, f). unat t)" by simp
qed simp

declare group_clusters.simps [simp del]

definition at_most16 :: "u32 \<Rightarrow> u16" where
  "at_most16 n = (if n > ucast FAT_MAGIC16 then FAT_MAGIC16 else ucast n)"

definition twice16 :: "u16 \<Rightarrow> u16" where
  "twice16 n = (if n < FAT_MAGIC16 div 2 then push_bit 1 n else FAT_MAGIC16)"

definition free16 :: "dpb \<Rightarrow> u16 \<Rightarrow> u16 \<times> u16 \<times> u16" where
  "free16 d navc =
     (let spc = ucast (dpb_clsmask d) + 1; nc = dpb_size d - 1
      in if spc > 64 then (drop_bit 1 spc, twice16 navc, twice16 nc) else (spc, navc, nc))"

definition free32 :: "dpb \<Rightarrow> u32 \<Rightarrow> u16 \<times> u16 \<times> u16" where
  "free32 d nfree =
     (case group_clusters (push_bit (unat (dpb_shftcnt d)) (ucast (dpb_secsize d))) (ucast (dpb_clsmask d) + 1) (dpb_xsize d - 1) nfree of
        (spc, ntotal, nfree') \<Rightarrow> (spc, at_most16 nfree', at_most16 ntotal))"

definition DosGetFree :: "('d, 'c) env \<Rightarrow> (('d, 'c) dos \<Rightarrow> (u16 \<times> u16 \<times> u16 \<times> u16) option) \<Rightarrow> u8 \<Rightarrow> bool \<Rightarrow> ('d, 'c) dos \<Rightarrow>
    ((u16 \<times> u16 \<times> u16 \<times> u16) option \<times> ('d, 'c) dos) option" where
  "DosGetFree E remote_getfree drive want_free s =
     (case get_cds1 (ucast drive) s of
        None \<Rightarrow> Some (None, s)
      | Some c \<Rightarrow>
          if cdsFlags c AND CDSNETWDRV \<noteq> 0 then
            Some (case remote_getfree s of
                None \<Rightarrow> None
              | Some (r0, r1, r2, r3) \<Rightarrow> Some (if want_free then r0 AND 0xff else r0, r3, r2, r1), s)
          else (case cdsDpb c of
              None \<Rightarrow> Some (None, s)
            | Some dp \<Rightarrow> do {
                t \<leftarrow> (if want_free then Some (ks (fsys s))
                     else do {
                       (_, t) \<leftarrow> flush_buffers (blk E) (dpb_unit (dpbs (ks (fsys s)) dp)) (ks (fsys s));
                       Some (t\<lparr>dpbs := (dpbs t)(dp := (dpbs t dp)\<lparr>dpb_flags := M_CHANGED\<rparr>)\<rparr>)
                     });
                (rc, t1) \<leftarrow> media_check (blk E) (med E) (bios_drive E) (Some dp) t;
                if rc < 0 then Some (None, s\<lparr>fsys := (fsys s)\<lparr>ks := t1\<rparr>\<rparr>)
                else do {
                  (n, t2) \<leftarrow> (if want_free then dos_free (blk E) dp t1 else Some (0, t1));
                  let d = dpbs t1 dp;
                  Some (case if ISFAT32 d then free32 d n else free16 d (ucast n) of (spc, navc, nc) \<Rightarrow> Some (spc, navc, dpb_secsize d, nc),
                    s\<lparr>fsys := (fsys s)\<lparr>ks := t2\<rparr>\<rparr>)
                }
              }))"

text \<open>The extended call has 32 bit numbers.\<close>

record xfreespace =
  xfs_clussize :: u32
  xfs_secsize :: u32
  xfs_freeclusters :: u32
  xfs_totalclusters :: u32
  xfs_freesectors :: u32
  xfs_totalsectors :: u32
  xfs_freeunits :: u32
  xfs_totalunits :: u32

definition xfree :: "u32 \<Rightarrow> u32 \<Rightarrow> u32 \<Rightarrow> u32 \<Rightarrow> xfreespace" where
  "xfree clussize secsize nfree ntotal = \<lparr>xfs_clussize = clussize, xfs_secsize = secsize, xfs_freeclusters = nfree, xfs_totalclusters = ntotal,
     xfs_freesectors = nfree * clussize, xfs_totalsectors = ntotal * clussize, xfs_freeunits = nfree, xfs_totalunits = ntotal\<rparr>"

definition ext_cds :: "u8 list \<Rightarrow> ('d, 'c) dos \<Rightarrow> cds option" where
  "ext_cds DriveString s =
     (if DriveString = [] \<or> ch DriveString 0 = 0x2e \<or> is_sep (ch DriveString 0) \<and> \<not> is_sep (ch DriveString 1)
      then get_cds (ucast (default_drive s)) (fsys s)
      else if ch DriveString 1 = 0x3a then get_cds (ucast (DosUpFChar (ch DriveString 0) s) - 0x41) (fsys s)
      else None)"

definition DosGetExtFree :: "('d, 'c) env \<Rightarrow> (('d, 'c) dos \<Rightarrow> (u16 \<times> u16 \<times> u16 \<times> u16) option) \<Rightarrow> u8 list \<Rightarrow> ('d, 'c) dos \<Rightarrow>
    ((int + xfreespace) \<times> ('d, 'c) dos) option" where
  "DosGetExtFree E remote_getfree DriveString s =
     (case ext_cds DriveString s of
        None \<Rightarrow> Some (Inl DE_INVLDDRV, s)
      | Some c \<Rightarrow>
          if cdsFlags c AND CDSNETWDRV \<noteq> 0 then
            Some (case remote_getfree s of
                None \<Rightarrow> Inl DE_INVLDDRV
              | Some (r0, r1, r2, r3) \<Rightarrow> Inr (xfree (ucast r0) (ucast r2) (ucast r3) (ucast r1)), s)
          else do {
            (rc, t1) \<leftarrow> media_check (blk E) (med E) (bios_drive E) (cdsDpb c) (ks (fsys s));
            if rc < 0 then Some (Inl DE_INVLDDRV, s\<lparr>fsys := (fsys s)\<lparr>ks := t1\<rparr>\<rparr>)
            else do {
              dp \<leftarrow> cdsDpb c;
              (n, t2) \<leftarrow> dos_free (blk E) dp t1;
              let d = dpbs t1 dp;
              Some (Inr (xfree (ucast (dpb_clsmask d) + 1) (ucast (dpb_secsize d)) n (if ISFAT32 d then dpb_xsize d else ucast (dpb_size d))),
                s\<lparr>fsys := (fsys s)\<lparr>ks := t2\<rparr>\<rparr>)
            }
          })"

end
