(* ===== verification/PathSpec.thy ===== *)
theory PathSpec
  imports PathName
begin

text \<open>
  What a canonical path is: the components of the path a program gives, walked from the current directory.
  The loops of \<^verbatim>\<open>truename\<close> compute exactly this.
\<close>

subsection \<open>Components\<close>

lemma comps_less: "dropWhile is_sep src \<noteq> [] \<Longrightarrow> length (dropWhile (\<lambda>c. \<not> is_sep c) (dropWhile is_sep src)) < length src"
proof -
  assume "dropWhile is_sep src \<noteq> []"
  then obtain c xs where c: "dropWhile is_sep src = c # xs" by (cases "dropWhile is_sep src") auto
  then show ?thesis using dropWhile_sep [OF c] length_dropWhile_le [of "\<lambda>c. \<not> is_sep c" xs] by simp
qed

function comps :: "u8 list \<Rightarrow> u8 list list" where
  "comps src = (if dropWhile is_sep src = [] then []
     else takeWhile (\<lambda>c. \<not> is_sep c) (dropWhile is_sep src) # comps (dropWhile (\<lambda>c. \<not> is_sep c) (dropWhile is_sep src)))"
  by pat_completeness auto

termination comps
  by (relation "measure length") (auto simp: comps_less)

declare comps.simps [simp del]

text \<open>
  A name of at most eight characters and an extension of at most three: an asterisk stands for question marks up
  to the end of its field, what does not fit is dropped, and a point at the end is dropped too.
\<close>

fun fill :: "nat \<Rightarrow> u8 list \<Rightarrow> u8 list" where
  "fill n [] = []"
| "fill n (c # cs) = (if n = 0 then [] else if c = 0x2a then replicate n 0x3f else c # fill (n - 1) cs)"

definition name83 :: "u8 list \<Rightarrow> u8 list" where
  "name83 c = (let ext = dropWhile (\<lambda>x. x \<noteq> 0x2e) c in
     fill 8 (takeWhile (\<lambda>x. x \<noteq> 0x2e) c) @ (if length ext \<le> 1 then [] else 0x2e # fill 3 (tl ext)))"

definition valid83 :: "u8 list \<Rightarrow> bool" where
  "valid83 c \<longleftrightarrow> 0x2e \<notin> set (tl (dropWhile (\<lambda>x. x \<noteq> 0x2e) c)) \<and> (\<forall>x \<in> set (name83 c). DirChar x)"

definition wild83 :: "u8 list \<Rightarrow> bool" where
  "wild83 c \<longleftrightarrow> 0x2a \<in> set c \<or> 0x3f \<in> set c"

text \<open>Walking the components: a stack of directory names behind a root of \<open>root\<close> characters.\<close>

definition plen :: "u8 list list \<Rightarrow> nat" where
  "plen st = (\<Sum>n \<leftarrow> st. Suc (length n))"

fun walk :: "nat \<Rightarrow> bool \<Rightarrow> u8 list list \<Rightarrow> u8 list list \<Rightarrow> u8 list list option" where
  "walk root trail [] st = Some st"
| "walk root trail (c # cs) st =
     (if root + plen st \<ge> SFTMAX then None
      else if c = [0x2e] then walk root trail cs st
      else if c = [0x2e, 0x2e] then (case st of [] \<Rightarrow> None | _ # st' \<Rightarrow> walk root trail cs st')
      else if hd c \<noteq> 0x2e \<and> valid83 c \<and> root + plen (name83 c # st) \<le> SFTMAX \<and> (wild83 c \<longrightarrow> cs = [] \<and> \<not> trail)
        then walk root trail cs (name83 c # st)
      else None)"

text \<open>The directories of a stack as a string.\<close>

definition path_of :: "u8 list list \<Rightarrow> u8 list" where
  "path_of st = concat (map (\<lambda>n. 0x5c # n) (rev st))"

lemma path_of_simps [simp]: "path_of [] = []" "path_of (n # st) = path_of st @ 0x5c # n"
  by (simp_all add: path_of_def)

lemma length_path_of [simp]: "length (path_of st) = plen st"
  by (induction st) (simp_all add: plen_def)

lemma plen_simps [simp]: "plen [] = 0" "plen (n # st) = Suc (length n) + plen st"
  by (simp_all add: plen_def)

subsection \<open>A component is put in 8.3 form\<close>

lemma chars_neq [simp]: "\<not> is_sep 0x2e" "\<not> is_sep 0x2a" "\<not> is_sep 0x3f" "DirChar 0x3f" "DirChar 0x2e"
  by (simp_all add: is_sep_def DirChar_def DirChars_def)

lemma at_end_simps [simp]: "at_end []" "at_end (c # cs) = is_sep c"
  by (simp_all add: at_end_def)

lemma errRet_rest: "\<forall>x \<in> set cs. \<not> is_sep x \<Longrightarrow> errRet (cs @ rest) = errRet rest"
  by (auto simp: errRet_def is_sep_def)

lemma name_loop_end: "at_end rest \<Longrightarrow> name_loop rest i dot wild q = Inr (rest, wild, q)"
  by (cases rest) auto

lemma name_loop_field:
  assumes "\<forall>x \<in> set cs. \<not> is_sep x" "0x2e \<notin> set cs" "length q \<le> SFTMAX"
  shows "if (\<forall>x \<in> set (fill i cs). DirChar x) \<and> length q + length (fill i cs) \<le> SFTMAX
    then name_loop (cs @ rest) i dot wild q = name_loop rest (i - length (fill i cs)) dot (wild \<or> wild83 cs) (rev (fill i cs) @ q)
    else \<exists>r. name_loop (cs @ rest) i dot wild q = Inl r \<and> errRet r = errRet rest"
  using assms
proof (induction cs arbitrary: i wild q)
  case Nil
  then show ?case by (simp add: wild83_def)
next
  case (Cons c cs)
  have c: "\<not> is_sep c" "c \<noteq> 0x2e" "\<forall>x \<in> set cs. \<not> is_sep x" "0x2e \<notin> set cs" using Cons.prems by auto
  note IH = Cons.IH [OF c(3,4)]
  have err: "errRet (cs @ rest) = errRet rest" using errRet_rest c(3) by blast
  have w: "wild83 (c # cs) \<longleftrightarrow> c = 0x2a \<or> c = 0x3f \<or> wild83 cs" by (auto simp: wild83_def)
  show ?case
  proof (cases "c = 0x2a")
    case True
    have f0: "fill 0 cs = []" by (cases cs) auto
    show ?thesis using IH [of "replicate i 0x3f @ q" 0 True] True err w f0 Cons.prems(3) by (cases "i = 0") auto
  next
    case star: False
    show ?thesis
    proof (cases "i = 0")
      case True
      have f0: "fill 0 cs = []" by (cases cs) auto
      show ?thesis using IH [of q 0 "wild \<or> c = 0x3f"] True star c(1,2) w f0 Cons.prems(3) by (simp add: Let_def disj_assoc)
    next
      case False
      show ?thesis
      proof (cases "DirChar c \<and> length q < SFTMAX")
        case True
        then show ?thesis using IH [of "c # q" "i - 1" "wild \<or> c = 0x3f"] False star c(1,2) w
          by (auto simp: Let_def addChar_def disj_assoc split: if_splits)
      next
        case bad: False
        then show ?thesis using False star c(1,2) err by (auto simp: Let_def addChar_def)
      qed
    qed
  qed
qed

lemma name_loop_ext:
  assumes es: "\<forall>x \<in> set es. \<not> is_sep x" "es \<noteq> []" and rest: "at_end rest" and q: "length q \<le> SFTMAX"
  shows "if 0x2e \<notin> set es \<and> (\<forall>x \<in> set (fill 3 es). DirChar x) \<and> length q + Suc (length (fill 3 es)) \<le> SFTMAX
    then name_loop (0x2e # es @ rest) i False wild q = Inr (rest, wild \<or> wild83 es, rev (0x2e # fill 3 es) @ q)
    else \<exists>r. name_loop (0x2e # es @ rest) i False wild q = Inl r \<and> errRet r = errRet rest"
proof -
  have er: "errRet (es @ rest) = errRet rest" using errRet_rest [OF es(1)] .
  have ne: "\<not> at_end (es @ rest)" using es by (cases es) auto
  show ?thesis
  proof (cases "length q < SFTMAX")
    case False
    then show ?thesis using ne er by (simp add: addChar_def Let_def)
  next
    case room: True
    let ?q = "0x2e # q"
    have F: "name_loop (0x2e # es @ rest) i False wild q = name_loop (es @ rest) 3 True wild ?q" using ne room by (simp add: addChar_def Let_def)
    have q2: "length ?q \<le> SFTMAX" using room by simp
    show ?thesis
    proof (cases "0x2e \<in> set es")
      case False
      then show ?thesis using name_loop_field [OF es(1) False q2, of 3 rest True wild] rest
        by (simp only: F) (auto simp: name_loop_end split: if_splits)
    next
      case True
      then obtain y z where yz: "es = y @ 0x2e # z" "0x2e \<notin> set y" using split_list_first by metis
      have y: "\<forall>x \<in> set y. \<not> is_sep x" "\<forall>x \<in> set z. \<not> is_sep x" "\<forall>x \<in> set (0x2e # z). \<not> is_sep x" using es(1) yz(1) by simp_all
      have "\<exists>r. name_loop (es @ rest) 3 True wild ?q = Inl r \<and> errRet r = errRet rest"
        using name_loop_field [OF y(1) yz(2) q2, of 3 "0x2e # z @ rest" True wild] errRet_rest [OF y(2), of rest] errRet_rest [OF y(3), of rest]
        by (auto simp: yz(1) split: if_splits)
      then show ?thesis using True by (simp only: F) simp
    qed
  qed
qed

lemma name_loop_spec:
  assumes c: "\<forall>x \<in> set c. \<not> is_sep x" and rest: "at_end rest" and q: "length q \<le> SFTMAX"
  shows "if valid83 c \<and> length q + length (name83 c) \<le> SFTMAX
    then name_loop (c @ rest) 8 False wild q = Inr (rest, wild \<or> wild83 c, rev (name83 c) @ q)
    else \<exists>r. name_loop (c @ rest) 8 False wild q = Inl r \<and> errRet r = errRet rest"
proof -
  define b e where "b = takeWhile (\<lambda>x. x \<noteq> 0x2e) c" and "e = dropWhile (\<lambda>x. x \<noteq> 0x2e) c"
  have be: "c = b @ e" by (simp add: b_def e_def)
  have b: "\<forall>x \<in> set b. \<not> is_sep x" "0x2e \<notin> set b" using c by (simp add: be, auto simp: b_def dest: set_takeWhileD)
  note F = name_loop_field [OF b q, of 8 "e @ rest" False wild]
  have w: "wild83 c \<longleftrightarrow> wild83 b \<or> wild83 e" by (auto simp: wild83_def be)
  have er: "errRet (e @ rest) = errRet rest" using errRet_rest c be by simp
  have n: "name83 c = fill 8 b @ (if length e \<le> 1 then [] else 0x2e # fill 3 (tl e))" by (simp add: name83_def b_def e_def Let_def)
  have v: "valid83 c \<longleftrightarrow> 0x2e \<notin> set (tl e) \<and> (\<forall>x \<in> set (name83 c). DirChar x)" by (simp add: valid83_def e_def)
  show ?thesis
  proof (cases "(\<forall>x \<in> set (fill 8 b). DirChar x) \<and> length q + length (fill 8 b) \<le> SFTMAX")
    case False
    then have "\<exists>r. name_loop (c @ rest) 8 False wild q = Inl r \<and> errRet r = errRet rest" using F er by (simp only: if_False) (simp add: be)
    moreover have "\<not> (valid83 c \<and> length q + length (name83 c) \<le> SFTMAX)" using False v n by auto
    ultimately show ?thesis by (simp only: if_False)
  next
    case True
    let ?q = "rev (fill 8 b) @ q"
    have F1: "name_loop (c @ rest) 8 False wild q = name_loop (e @ rest) (8 - length (fill 8 b)) False (wild \<or> wild83 b) ?q" using F True by (simp add: be)
    have q1: "length ?q \<le> SFTMAX" using True by simp
    have d: "e \<noteq> [] \<Longrightarrow> hd e = 0x2e" using hd_dropWhile [of "\<lambda>x. x \<noteq> 0x2e" c] by (simp add: e_def [symmetric])
    consider "e = []" | "e = [0x2e]" | es where "e = 0x2e # es" "es \<noteq> []" using d by (cases e; cases "tl e") auto
    then show ?thesis
    proof cases
      case 1
      then show ?thesis using F1 True rest n v w by (simp add: name_loop_end wild83_def)
    next
      case 2
      then show ?thesis using F1 True rest n v w by (simp add: wild83_def)
    next
      case 3
      have es: "\<forall>x \<in> set es. \<not> is_sep x" using c be 3(1) by simp
      have w': "wild83 c \<longleftrightarrow> wild83 b \<or> wild83 es" using w 3(1) by (auto simp: wild83_def)
      have n': "name83 c = fill 8 b @ 0x2e # fill 3 es" using n 3 by (cases es) auto
      have v': "valid83 c \<longleftrightarrow> 0x2e \<notin> set es \<and> (\<forall>x \<in> set (fill 3 es). DirChar x)" using v 3(1) True by (auto simp: n')
      show ?thesis using name_loop_ext [OF es 3(2) rest q1, of "8 - length (fill 8 b)" "wild \<or> wild83 b"]
        unfolding F1 w' n' v' 3(1) append_Cons by (auto simp: disj_assoc simp del: name_loop.simps split: if_splits)
    qed
  qed
qed

subsection \<open>The path is walked\<close>

text \<open>One round of the loop, for the first component \<open>c\<close> and the rest of the source.\<close>

definition starts :: "u8 list \<Rightarrow> u8 list \<Rightarrow> u8 list \<Rightarrow> bool" where
  "starts src c rest \<longleftrightarrow> (\<exists>ss. src = ss @ c @ rest \<and> (\<forall>x \<in> set ss. is_sep x)) \<and> c \<noteq> [] \<and> (\<forall>x \<in> set c. \<not> is_sep x) \<and> at_end rest"

lemma starts_drop: "starts src c rest \<Longrightarrow> dropWhile is_sep src = c @ rest"
  by (cases c) (auto simp: starts_def dropWhile_append2)

lemma dropWhile_at_end: "at_end (dropWhile (\<lambda>c. \<not> is_sep c) xs)"
  by (induction xs) auto

lemma comps_cases:
  obtains "\<forall>x \<in> set src. is_sep x" "comps src = []" | c rest where "starts src c rest" "comps src = c # comps rest" "length rest < length src"
proof (cases "dropWhile is_sep src = []")
  case True
  then show ?thesis using that(1) by (simp add: comps.simps dropWhile_eq_Nil_conv)
next
  case False
  let ?d = "dropWhile is_sep src"
  let ?c = "takeWhile (\<lambda>c. \<not> is_sep c) ?d" and ?r = "dropWhile (\<lambda>c. \<not> is_sep c) ?d"
  have "src = takeWhile is_sep src @ ?c @ ?r" by simp
  moreover have "\<forall>x \<in> set (takeWhile is_sep src). is_sep x" "\<forall>x \<in> set ?c. \<not> is_sep x" by (auto dest: set_takeWhileD)
  moreover have "?c \<noteq> []" using False hd_dropWhile [of is_sep src] by (cases ?d) auto
  moreover have "at_end ?r" by (rule dropWhile_at_end)
  ultimately have "starts src ?c ?r" unfolding starts_def by blast
  moreover have "comps src = ?c # comps ?r" using False by (simp add: comps.simps [of src])
  ultimately show ?thesis using that(2) comps_less [OF False] by blast
qed

definition trailing :: "u8 list \<Rightarrow> bool" where
  "trailing src \<longleftrightarrow> src \<noteq> [] \<and> is_sep (last src)"

lemma starts_trailing: "starts src c rest \<Longrightarrow> trailing src = trailing rest"
  by (cases rest) (auto simp: starts_def trailing_def)

lemma path_loop_comp:
  assumes st: "starts src c rest" and q: "take 1 q \<noteq> [0x5c]" and prev: "prev \<noteq> 0x2e \<or> is_sep (hd src)" and room: "length q < SFTMAX"
  shows "path_loop 0x5c root prev src False q =
    (if c = [0x2e] then path_loop 0x5c root 0x2e rest False q
     else if c = [0x2e, 0x2e] then
       (case up_dir root q of None \<Rightarrow> Inl DE_PATHNOTFND | Some q2 \<Rightarrow> path_loop 0x5c root 0x2e rest False q2)
     else if hd c = 0x2e then Inl (errRet rest)
     else (case name_loop (c @ rest) 8 False False (0x5c # q) of
             Inl r \<Rightarrow> Inl (errRet r)
           | Inr (src2, wild2, q2) \<Rightarrow> path_loop 0x5c root (hd c) src2 wild2 q2))"
proof -
  obtain x xs where c: "c = x # xs" using st by (cases c) (auto simp: starts_def)
  have ne: "src \<noteq> []" using st by (auto simp: starts_def)
  have cs: "\<not> is_sep x" "\<forall>y \<in> set xs. \<not> is_sep y" "at_end rest" using st c by (auto simp: starts_def)
  have d: "dropWhile is_sep src = x # xs @ rest" using starts_drop [OF st] c by simp
  have p: "\<not> (if is_sep (hd src) then False else prev = 0x2e)" using prev by auto
  note L = path_loop.simps [of "0x5c" root prev src False q]
  show ?thesis
  proof (cases "x = 0x2e")
    case False
    then show ?thesis using L ne q room unfolding c list.sel by (simp add: d addChar_def del: name_loop.simps)
  next
    case True
    consider "xs = []" | "xs = [0x2e]" | y ys where "xs = 0x2e # y # ys" | y ys where "xs = y # ys" "y \<noteq> 0x2e"
      by (cases xs; cases "tl xs") auto
    then show ?thesis
    proof cases
      case 1
      have "take 1 rest \<noteq> [0x2e]" using cs(3) by (cases rest) auto
      then show ?thesis using 1 L ne q room c True cs p by (simp add: d addChar_def)
    next
      case 2
      then show ?thesis using L ne q room c True cs by (simp add: d addChar_def)
    next
      case 3
      have "errRet ((y # ys) @ rest) = errRet rest" by (rule errRet_rest) (use cs(2) 3 in auto)
      then show ?thesis using 3 L ne q room c True cs by (simp add: d addChar_def)
    next
      case 4
      have "errRet (xs @ rest) = errRet rest" by (rule errRet_rest) (use cs(2) in auto)
      then show ?thesis using 4 L ne q room c True cs by (simp add: d addChar_def)
    qed
  qed
qed

text \<open>Directory names on the stack, and the step up.\<close>

definition names_ok :: "u8 list list \<Rightarrow> bool" where
  "names_ok st \<longleftrightarrow> (\<forall>n \<in> set st. n \<noteq> [] \<and> 0x5c \<notin> set n)"

definition root_ok :: "u8 list \<Rightarrow> bool" where
  "root_ok pre \<longleftrightarrow> pre \<noteq> [] \<and> last pre \<noteq> 0x5c"

lemma up_name: "0x5c \<notin> set n \<Longrightarrow> root \<le> length q \<Longrightarrow> up_dir root (rev n @ 0x5c # q) = Some q"
proof (induction n rule: rev_induct)
  case (snoc x n)
  then show ?case by auto
qed simp

lemma up_dir_path:
  assumes "names_ok st" "root_ok pre" "length pre = root"
  shows "up_dir root (rev (pre @ path_of st)) = (case st of [] \<Rightarrow> None | n # st' \<Rightarrow> Some (rev (pre @ path_of st')))"
proof (cases st)
  case Nil
  obtain ys y where "pre = ys @ [y]" "y \<noteq> 0x5c" using assms(2) by (cases pre rule: rev_cases) (auto simp: root_ok_def)
  then show ?thesis using Nil assms(3) by auto
next
  case (Cons n st')
  then show ?thesis using up_name [of n root "rev (pre @ path_of st')"] assms by (simp add: names_ok_def)
qed

lemma no_sep_end:
  assumes "names_ok st" "root_ok pre"
  shows "take 1 (rev (pre @ path_of st)) \<noteq> [0x5c]"
proof (cases st)
  case Nil
  then show ?thesis using assms(2) by (cases pre rule: rev_cases) (auto simp: root_ok_def)
next
  case (Cons n st')
  then have "n \<noteq> []" "0x5c \<notin> set n" using assms(1) by (auto simp: names_ok_def)
  then show ?thesis using Cons by (cases n rule: rev_cases) auto
qed

lemma fill_set: "set (fill n cs) \<subseteq> insert 0x3f (set cs)"
  by (induction n cs rule: fill.induct) auto

lemma name83_ok:
  assumes "\<forall>x \<in> set c. \<not> is_sep x" "c \<noteq> []" "hd c \<noteq> 0x2e"
  shows "name83 c \<noteq> []" "0x5c \<notin> set (name83 c)"
proof -
  let ?b = "takeWhile (\<lambda>x. x \<noteq> 0x2e) c" and ?e = "dropWhile (\<lambda>x. x \<noteq> 0x2e) c"
  obtain x xs where x: "c = x # xs" using assms(2) by (cases c) auto
  then have "?b = x # takeWhile (\<lambda>x. x \<noteq> 0x2e) xs" using assms(3) by simp
  then show "name83 c \<noteq> []" by (simp add: name83_def Let_def)
  have "set ?e \<subseteq> set c" by (auto dest: set_dropWhileD)
  then have "set ?b \<subseteq> set c" "set (tl ?e) \<subseteq> set c" by (auto dest: set_takeWhileD) (cases ?e; auto)
  moreover have "0x5c \<notin> set c" using assms(1) by (auto simp: is_sep_def)
  ultimately show "0x5c \<notin> set (name83 c)" using fill_set [of 8 ?b] fill_set [of 3 "tl ?e"] by (auto simp: name83_def Let_def)
qed

text \<open>
  The loop computes the walk: it fails exactly when the walk fails or there is no room for a separator at the
  end of the source, and otherwise returns the directories of the walk, as a path.
\<close>

definition path_result :: "nat \<Rightarrow> u8 list \<Rightarrow> u8 list \<Rightarrow> u8 list list \<Rightarrow> (bool \<times> u8 list) option" where
  "path_result root pre src st =
     (case walk root (trailing src) (comps src) st of
        None \<Rightarrow> None
      | Some st' \<Rightarrow>
          if \<not> trailing src then Some (comps src \<noteq> [] \<and> wild83 (last (comps src)), pre @ path_of st')
          else if root + plen st' < SFTMAX then Some (False, pre @ path_of st' @ [0x5c])
          else None)"

abbreviation path_error :: "int \<Rightarrow> bool" where
  "path_error e \<equiv> e = DE_FILENOTFND \<or> e = DE_PATHNOTFND"

abbreviation computes :: "int + (bool \<times> u8 list) \<Rightarrow> (bool \<times> u8 list) option \<Rightarrow> bool" where
  "computes r v \<equiv> (case v of None \<Rightarrow> \<exists>e. r = Inl e \<and> path_error e | Some (w, out) \<Rightarrow> r = Inr (w, rev out))"

lemma errRet_error: "path_error (errRet src)"
  by (simp add: errRet_def)

lemma path_result_step:
  assumes "starts src c rest" "comps src = c # comps rest" "\<not> wild83 c \<or> rest \<noteq> []"
    "walk root (trailing src) (c # comps rest) st = walk root (trailing rest) (comps rest) st'"
  shows "path_result root pre src st = path_result root pre rest st'"
proof (cases "rest = []")
  case True
  then have "\<not> wild83 c" using assms(3) by simp
  then show ?thesis using assms(2,4) starts_trailing [OF assms(1)] True by (simp add: path_result_def comps.simps)
next
  case False
  then have "comps rest \<noteq> [] \<or> trailing rest"
  proof (cases rest rule: comps_cases)
    case 1
    then show ?thesis using False by (simp add: trailing_def)
  qed simp
  then show ?thesis using assms(2,4) starts_trailing [OF assms(1)] by (auto simp: path_result_def split: option.splits)
qed

lemma rest_used: "rest \<noteq> [] \<Longrightarrow> comps rest \<noteq> [] \<or> trailing rest"
  by (cases rest rule: comps_cases) (auto simp: trailing_def)

lemma path_loop_seps:
  assumes "\<forall>x \<in> set src. is_sep x" "src \<noteq> []" "take 1 q \<noteq> [0x5c]"
  shows "path_loop 0x5c root prev src False q = (if length q < SFTMAX then Inr (False, 0x5c # q) else Inl (errRet src))"
proof -
  have "dropWhile is_sep src = []" using assms(1) by (simp add: dropWhile_eq_Nil_conv)
  then show ?thesis using assms(2,3) by (simp only: path_loop.simps [of _ _ _ src]) (simp add: addChar_def)
qed

lemma path_loop_name:
  assumes st: "starts src c rest" and q: "take 1 q \<noteq> [0x5c]" and prev: "prev \<noteq> 0x2e \<or> is_sep (hd src)" and room: "length q < SFTMAX"
    and c: "hd c \<noteq> 0x2e"
  shows "if valid83 c \<and> length q + Suc (length (name83 c)) \<le> SFTMAX
    then path_loop 0x5c root prev src False q = path_loop 0x5c root (hd c) rest (wild83 c) (rev (name83 c) @ 0x5c # q)
    else path_loop 0x5c root prev src False q = Inl (errRet rest)"
proof -
  have s: "\<forall>x \<in> set c. \<not> is_sep x" "at_end rest" using st by (simp_all add: starts_def)
  have "length (0x5c # q) \<le> SFTMAX" using room by simp
  note N = name_loop_spec [OF s this, of False]
  have "c \<noteq> [0x2e]" "c \<noteq> [0x2e, 0x2e]" using c by auto
  then show ?thesis using N path_loop_comp [OF st q prev room, of root] c by (auto simp del: name_loop.simps split: if_splits)
qed

text \<open>The round for a component that is a name, and for all components.\<close>

lemma walk_named:
  assumes st: "names_ok st" "root_ok pre" "length pre = root" and src: "starts src c rest" "comps src = c # comps rest" and c: "hd c \<noteq> 0x2e"
    and prev: "prev \<noteq> 0x2e \<or> is_sep (hd src)" and room: "root + plen st < SFTMAX"
    and IH: "names_ok (name83 c # st) \<Longrightarrow> root + plen (name83 c # st) \<le> SFTMAX \<Longrightarrow>
      computes (path_loop 0x5c root (hd c) rest False (rev (pre @ path_of (name83 c # st)))) (path_result root pre rest (name83 c # st))"
  shows "computes (path_loop 0x5c root prev src False (rev (pre @ path_of st))) (path_result root pre src st)"
proof -
  let ?q = "rev (pre @ path_of st)" and ?n = "name83 c"
  have len: "length ?q = root + plen st" using st(3) by simp
  then have "length ?q < SFTMAX" using room by simp
  note N = path_loop_name [OF src(1) no_sep_end [OF st(1,2)] prev this c, of root] and tr = starts_trailing [OF src(1)]
  have special: "c \<noteq> [0x2e]" "c \<noteq> [0x2e, 0x2e]" using c by auto
  have cs: "c \<noteq> []" "\<forall>x \<in> set c. \<not> is_sep x" using src(1) by (simp_all add: starts_def)
  show ?thesis
  proof (cases "valid83 c \<and> root + plen (?n # st) \<le> SFTMAX \<and> (wild83 c \<longrightarrow> rest = [])")
    case False
    then have "path_result root pre src st = None" using c room special src(2) tr rest_used [of rest] by (auto simp: path_result_def)
    moreover have "\<exists>e. path_loop 0x5c root prev src False ?q = Inl e \<and> path_error e"
      using N False len errRet_error by (auto simp: path_loop.simps [of _ _ _ rest] split: if_splits)
    ultimately show ?thesis by (simp only: option.case)
  next
    case ok: True
    have st': "names_ok (?n # st)" using name83_ok [OF cs(2,1) c] st(1) by (simp add: names_ok_def)
    have w: "walk root (trailing src) (c # comps rest) st = walk root (trailing rest) (comps rest) (?n # st)"
      using c ok room special tr by (auto simp: comps.simps trailing_def)
    have q: "rev ?n @ 0x5c # ?q = rev (pre @ path_of (?n # st))" by simp
    have L: "path_loop 0x5c root prev src False ?q = path_loop 0x5c root (hd c) rest (wild83 c) (rev (pre @ path_of (?n # st)))"
      using N ok len unfolding q by simp
    show ?thesis
    proof (cases "wild83 c")
      case True
      then show ?thesis using ok L w src(2) tr by (simp add: path_result_def path_loop.simps [of _ _ _ "[]"] comps.simps trailing_def)
    next
      case False
      then have e: "path_result root pre src st = path_result root pre rest (?n # st)" using path_result_step [OF src _ w, of pre] by simp
      have "wild83 c = False" using False by simp
      then show ?thesis unfolding L e using IH [OF st'] ok by (simp only:)
    qed
  qed
qed

lemma path_loop_walk:
  assumes "names_ok st" "root_ok pre" "length pre = root" "root + plen st \<le> SFTMAX" "src = [] \<or> prev \<noteq> 0x2e \<or> is_sep (hd src)"
  shows "computes (path_loop 0x5c root prev src False (rev (pre @ path_of st))) (path_result root pre src st)"
  using assms
proof (induction "length src" arbitrary: src st prev rule: less_induct)
  case less
  let ?q = "rev (pre @ path_of st)"
  have q: "take 1 ?q \<noteq> [0x5c]" using no_sep_end less.prems(1,2) .
  have len: "length ?q = root + plen st" using less.prems(3) by simp
  show ?case
  proof (cases src rule: comps_cases)
    case 1
    then show ?thesis
    proof (cases "src = []")
      case False
      then have "trailing src" using 1(1) by (simp add: trailing_def)
      then show ?thesis using path_loop_seps [OF 1(1) False q, of root prev] 1(2) len errRet_error [of src]
        by (simp add: path_result_def)
    qed (simp add: path_result_def path_loop.simps [of _ _ _ "[]"] trailing_def)
  next
    case (2 c rest)
    have c: "c \<noteq> []" "at_end rest" and ne: "src \<noteq> []" using 2(1) by (auto simp: starts_def)
    have prev: "prev \<noteq> 0x2e \<or> is_sep (hd src)" using less.prems(5) ne by simp
    have np: "rest = [] \<or> p \<noteq> 0x2e \<or> is_sep (hd rest)" for p using c(2) by (cases rest) auto
    note IH = less.hyps [OF 2(3) _ less.prems(2,3) _ np] and tr = starts_trailing [OF 2(1)]
    show ?thesis
    proof (cases "root + plen st < SFTMAX")
      case False
      then have "path_loop 0x5c root prev src False ?q = Inl (errRet src)" using q len ne by (simp add: path_loop.simps [of _ _ _ src] addChar_def)
      moreover have "path_result root pre src st = None" using False 2(2) by (simp add: path_result_def)
      ultimately show ?thesis using errRet_error by (simp only: option.case) blast
    next
      case room: True
      then have "length ?q < SFTMAX" using len by simp
      note L = path_loop_comp [OF 2(1) q prev this, of root] and U = up_dir_path [OF less.prems(1-3)]
      note step = path_result_step [OF 2(1,2), of root st _ pre]
      have nw: "\<not> wild83 [0x2e]" "\<not> wild83 [0x2e, 0x2e]" by (simp_all add: wild83_def)
      consider "c = [0x2e]" | "c = [0x2e, 0x2e]" "st = []" | n st' where "c = [0x2e, 0x2e]" "st = n # st'"
        | "hd c = 0x2e" "c \<noteq> [0x2e]" "c \<noteq> [0x2e, 0x2e]" | "hd c \<noteq> 0x2e" by (cases st) auto
      then show ?thesis
      proof cases
        case 1
        have "path_result root pre src st = path_result root pre rest st" using step [of st] 1 nw room tr by simp
        moreover have "path_loop 0x5c root prev src False ?q = path_loop 0x5c root 0x2e rest False ?q" using L 1 by simp
        ultimately show ?thesis using IH [OF less.prems(1,4)] by (simp only:)
      next
        case 3
        have e: "path_result root pre src st = path_result root pre rest st'" using step [of st'] 3 nw room tr by simp
        have "path_loop 0x5c root prev src False ?q = path_loop 0x5c root 0x2e rest False (rev (pre @ path_of st'))" using L U 3 by simp
        moreover have "names_ok st'" "root + plen st' \<le> SFTMAX" using 3 less.prems(1,4) by (simp_all add: names_ok_def)
        ultimately show ?thesis using IH [of st' "0x2e"] unfolding e by (simp only:)
      next
        case 5
        show ?thesis by (rule walk_named [OF less.prems(1-3) 2(1,2) 5 prev room IH])
      qed (use L U room 2(2) c(1) errRet_error in \<open>auto simp: path_result_def\<close>)
    qed
  qed
qed

end
