(* ===== verification/FatEntry.thy ===== *)
theory FatEntry
  imports FatTab
begin

text \<open>
  FAT entries as the bytes of the table: where an entry lies, what its value is, and that writing
  one entry leaves every other entry alone, for the three formats. The table is a function from
  byte offsets to bytes, so that an entry that straddles two sectors needs no special case.
\<close>

type_synonym fat = "nat \<Rightarrow> u8"

subsection \<open>Words and bytes\<close>

lemma unat_ucast16_32 [simp]: "unat (ucast (w :: u16) :: u32) = unat w"
  by (rule unat_ucast_le) (rule less_trans [OF unat_lt16], simp)

lemma and_mask_small: "unat v < 2 ^ n \<Longrightarrow> v AND mask n = (v :: 'a::len word)"
proof -
  assume "unat v < 2 ^ n"
  then have "unat (take_bit n v) = unat v" by (simp only: unsigned_take_bit_eq take_bit_nat_eq_self)
  then show ?thesis by (simp add: word_unat_eq_iff take_bit_eq_mask)
qed

definition join16 :: "u8 \<Rightarrow> u8 \<Rightarrow> u16" where
  "join16 lo hi = ucast lo OR push_bit 8 (ucast hi)"

lemma bit_join16: "bit (join16 lo hi) n \<longleftrightarrow> n < 16 \<and> (if n < 8 then bit lo n else bit hi (n - 8))"
  by (auto simp: join16_def bit_simps not_less dest: bit_imp_le_length)

lemma join16_split: "join16 (ucast w) (ucast (drop_bit 8 w)) = w"
  by (rule bit_word_eqI) (auto simp: bit_join16 bit_simps)

lemma join16_lo: "(ucast (join16 lo hi) :: u8) = lo"
  by (rule bit_word_eqI) (auto simp: bit_join16 bit_simps)

lemma join16_hi: "(ucast (drop_bit 8 (join16 lo hi)) :: u8) = hi"
  by (rule bit_word_eqI) (auto simp: bit_join16 bit_simps)

subsection \<open>Entries\<close>

definition fat12 :: "dpb \<Rightarrow> bool" where "fat12 d \<longleftrightarrow> ISFAT12 d \<and> \<not> ISFAT32 d"
definition fat16 :: "dpb \<Rightarrow> bool" where "fat16 d \<longleftrightarrow> ISFAT16 d \<and> \<not> ISFAT12 d \<and> \<not> ISFAT32 d"
definition fat32 :: "dpb \<Rightarrow> bool" where
  "fat32 d \<longleftrightarrow> ISFAT32 d \<and> \<not> ISFAT12 d \<and> \<not> ISFAT16 d \<and> dpb_xsize d < LONG_BAD"

definition off12 :: "u32 \<Rightarrow> nat" where "off12 c = 3 * unat c div 2"
definition off16 :: "u32 \<Rightarrow> nat" where "off16 c = 2 * unat c"
definition off32 :: "u32 \<Rightarrow> nat" where "off32 c = 4 * unat c"

definition raw12 :: "fat \<Rightarrow> u32 \<Rightarrow> u16" where
  "raw12 F c = unpack12 c (join16 (F (off12 c)) (F (off12 c + 1)))"

definition raw16 :: "fat \<Rightarrow> u32 \<Rightarrow> u16" where
  "raw16 F c = join16 (F (off16 c)) (F (off16 c + 1))"

definition raw32 :: "fat \<Rightarrow> u32 \<Rightarrow> u32" where
  "raw32 F c = (ucast (join16 (F (off32 c)) (F (off32 c + 1)))
     OR push_bit 16 (ucast (join16 (F (off32 c + 2)) (F (off32 c + 3))))) AND LONG_LAST_CLUSTER"

text \<open>The value of the entry of a cluster, with the marks of the 12 and 16 bit formats widened.\<close>

definition entry :: "dpb \<Rightarrow> fat \<Rightarrow> u32 \<Rightarrow> u32" where
  "entry d F c =
     (if fat12 d then (let w = raw12 F c in if w \<ge> MASK12 then LONG_LAST_CLUSTER
                       else if w = BAD12 then LONG_BAD else ucast w)
      else if fat16 d then (let w = raw16 F c in if w \<ge> MASK16 then LONG_LAST_CLUSTER
                       else if w = BAD16 then LONG_BAD else ucast w)
      else (let w = raw32 F c in if w > LONG_BAD then LONG_LAST_CLUSTER else w))"

definition put12 :: "fat \<Rightarrow> u32 \<Rightarrow> u32 \<Rightarrow> fat" where
  "put12 F c v = (let w = pack12 c (join16 (F (off12 c)) (F (off12 c + 1))) v
     in F(off12 c := ucast w, off12 c + 1 := ucast (drop_bit 8 w)))"

definition put16 :: "fat \<Rightarrow> u32 \<Rightarrow> u32 \<Rightarrow> fat" where
  "put16 F c v = F(off16 c := ucast (ucast v :: u16), off16 c + 1 := ucast (drop_bit 8 (ucast v :: u16)))"

definition put32 :: "fat \<Rightarrow> u32 \<Rightarrow> u32 \<Rightarrow> fat" where
  "put32 F c v = (let w = v AND LONG_LAST_CLUSTER; lo = ucast w :: u16; hi = ucast (drop_bit 16 w) :: u16 in
     F(off32 c := ucast lo, off32 c + 1 := ucast (drop_bit 8 lo),
       off32 c + 2 := ucast hi, off32 c + 3 := ucast (drop_bit 8 hi)))"

definition put :: "dpb \<Rightarrow> fat \<Rightarrow> u32 \<Rightarrow> u32 \<Rightarrow> fat" where
  "put d F c v = (if fat12 d then put12 F c v else if fat16 d then put16 F c v else put32 F c v)"

subsection \<open>Twelve bits\<close>

lemma odd_cluster: "c AND 1 \<noteq> 0 \<longleftrightarrow> odd (unat (c :: u32))" "(ucast c :: u16) AND 1 \<noteq> 0 \<longleftrightarrow> odd (unat c)"
proof -
  have "bit c 0 \<longleftrightarrow> odd (unat c)" by (simp add: bit_unsigned_iff flip: bit_0)
  then show "c AND 1 \<noteq> 0 \<longleftrightarrow> odd (unat c)" "(ucast c :: u16) AND 1 \<noteq> 0 \<longleftrightarrow> odd (unat c)"
    using bit_iff_and_push_bit_not_eq_0 [of c 0] bit_iff_and_push_bit_not_eq_0 [of "ucast c :: u16" 0]
    by (simp_all add: bit_simps)
qed

lemma masks: "(0xfff :: u16) = mask 12" "(0xf :: u16) = mask 4" "(0xf000 :: u16) = push_bit 12 (mask 4)"
  by (simp_all add: mask_eq_exp_minus_1)

lemma bit_unpack12: "bit (unpack12 c w) n \<longleftrightarrow> n < 12 \<and> bit w (if odd (unat c) then n + 4 else n)"
  unfolding unpack12_def odd_cluster(1) masks by (auto simp: bit_simps add.commute)

lemma bit_pack12: "n < 16 \<Longrightarrow> bit (pack12 c w v) n \<longleftrightarrow>
    (if odd (unat c) then if n < 4 then bit w n else bit v (n - 4) else if n < 12 then bit v n else bit w n)"
  unfolding pack12_def Let_def odd_cluster(2) masks by (auto simp: bit_simps)

text \<open>Bit \<open>n\<close> of entry \<open>c\<close> is bit \<open>12 c + n\<close> of the table.\<close>

definition table_bit :: "fat \<Rightarrow> nat \<Rightarrow> bool" where
  "table_bit F k = bit (F (k div 8)) (k mod 8)"

lemma table_bit_byte: "m < 8 \<Longrightarrow> table_bit F (8 * i + m) = bit (F i) m"
  by (simp add: table_bit_def)

lemma bit_join_table: "n < 16 \<Longrightarrow> bit (join16 (F i) (F (i + 1))) n = table_bit F (8 * i + n)"
proof (cases "n < 8")
  case True
  then show ?thesis by (simp add: bit_join16 table_bit_byte)
next
  case False
  assume "n < 16"
  with False have "8 * i + n = 8 * (i + 1) + (n - 8)" "n - 8 < 8" by auto
  then have "table_bit F (8 * i + n) = bit (F (i + 1)) (n - 8)" by (simp only: table_bit_byte)
  with False \<open>n < 16\<close> show ?thesis by (simp add: bit_join16)
qed

lemma off12_pos: "12 * unat c = 8 * off12 c + (if odd (unat c) then 4 else 0)"
proof (cases "odd (unat c)")
  case True
  then obtain m where "unat c = 2 * m + 1" by (elim oddE)
  moreover have "3 * (2 * m + 1) div 2 = 3 * m + 1" by presburger
  ultimately show ?thesis by (simp add: off12_def)
next
  case False
  then have "even (unat c)" by simp
  then obtain m where "unat c = 2 * m" by (elim evenE)
  then show ?thesis by (simp add: off12_def)
qed

lemma bit_raw12: "bit (raw12 F c) n \<longleftrightarrow> n < 12 \<and> table_bit F (12 * unat c + n)"
proof (cases "n < 12")
  case True
  then show ?thesis
    using bit_join_table [of "n + 4" F "off12 c"] bit_join_table [of n F "off12 c"]
    by (simp add: raw12_def bit_unpack12 off12_pos add.assoc add.commute [of 4])
qed (simp add: raw12_def bit_unpack12)

lemma table_bit_put12: "table_bit (put12 F c v) k =
    (if 12 * unat c \<le> k \<and> k < 12 * unat c + 12 then bit v (k - 12 * unat c) else table_bit F k)"
proof -
  let ?o = "off12 c"
  define w where "w = pack12 c (join16 (F ?o) (F (?o + 1))) v"
  have put: "put12 F c v = F(?o := ucast w, ?o + 1 := ucast (drop_bit 8 w))" by (simp add: put12_def w_def Let_def)
  have in_pair: "table_bit (put12 F c v) (8 * ?o + n) = bit w n" if "n < 16" for n
    using bit_join_table [OF that, of "put12 F c v" ?o] by (simp add: put join16_split)
  show ?thesis
  proof (cases "8 * ?o \<le> k \<and> k < 8 * ?o + 16")
    case True
    define n where "n = k - 8 * ?o"
    have k: "k = 8 * ?o + n" "n < 16" using True by (auto simp: n_def)
    have "table_bit (put12 F c v) k = bit w n" unfolding k(1) by (rule in_pair [OF k(2)])
    moreover have "bit (join16 (F ?o) (F (?o + 1))) n = table_bit F k" unfolding k(1) by (rule bit_join_table [OF k(2)])
    ultimately show ?thesis using k by (auto simp: w_def bit_pack12 off12_pos)
  next
    case False
    then have "k div 8 \<noteq> ?o" "k div 8 \<noteq> ?o + 1" by auto
    with False show ?thesis by (auto simp: put table_bit_def off12_pos)
  qed
qed

lemma raw12_put12: "raw12 (put12 F c v) c' = (if c' = c then ucast v AND 0xfff else raw12 F c')"
proof (cases "c' = c")
  case True
  then show ?thesis unfolding masks
    by (simp) (rule bit_word_eqI, auto simp: bit_raw12 table_bit_put12 bit_simps)
next
  case False
  have "\<not> (12 * unat c \<le> 12 * unat c' + n \<and> 12 * unat c' + n < 12 * unat c + 12)" if "n < 12" for n
  proof -
    have "unat c \<noteq> unat c'" using False by (metis word_unat_eq_iff)
    with that show ?thesis by linarith
  qed
  with False show ?thesis by simp (rule bit_word_eqI, auto simp: bit_raw12 table_bit_put12)
qed

subsection \<open>Sixteen and thirty-two bits\<close>

lemma raw16_put16: "raw16 (put16 F c v) c' = (if c' = c then ucast v else raw16 F c')"
proof (cases "c' = c")
  case True
  then show ?thesis by (simp add: raw16_def put16_def join16_split)
next
  case False
  then have ne: "unat c' \<noteq> unat c" by (metis word_unat_eq_iff)
  then have "off16 c' \<noteq> off16 c" "off16 c' \<noteq> off16 c + 1" "off16 c' + 1 \<noteq> off16 c" "off16 c' + 1 \<noteq> off16 c + 1"
    unfolding off16_def by presburger+
  with False show ?thesis by (simp add: raw16_def put16_def)
qed

lemma join32_split: "ucast (ucast w :: u16) OR push_bit 16 (ucast (ucast (drop_bit 16 w) :: u16)) = (w :: u32)"
  by (rule bit_word_eqI) (auto simp: bit_simps)

lemma raw32_put32: "raw32 (put32 F c v) c' = (if c' = c then v AND LONG_LAST_CLUSTER else raw32 F c')"
proof (cases "c' = c")
  case True
  define w where "w = v AND LONG_LAST_CLUSTER"
  have "w AND LONG_LAST_CLUSTER = w" by (simp add: w_def and.assoc)
  with True show ?thesis unfolding raw32_def put32_def w_def [symmetric]
    by (simp add: Let_def join16_split join32_split)
next
  case False
  then have ne: "unat c' \<noteq> unat c" by (metis word_unat_eq_iff)
  then have "i < 4 \<Longrightarrow> j < 4 \<Longrightarrow> off32 c' + i \<noteq> off32 c + j" for i j
    unfolding off32_def by presburger
  from this [of _ 0] this [of _ 1] this [of _ 2] this [of _ 3] have
    "put32 F c v (off32 c' + i) = F (off32 c' + i)" if "i < 4" for i
    using that by (auto simp: put32_def Let_def)
  from this [of 0] this [of 1] this [of 2] this [of 3] False show ?thesis by (simp add: raw32_def)
qed

subsection \<open>What a write leaves in the table\<close>

text \<open>The values the kernel writes: free, a cluster number in range, bad or last.\<close>

definition storable :: "dpb \<Rightarrow> u32 \<Rightarrow> bool" where
  "storable d v \<longleftrightarrow> v = FREE \<or> 2 \<le> v \<and> v \<le> max_cluster d \<or> v = LONG_BAD \<or> v = LONG_LAST_CLUSTER"

lemma max_cluster12: "fat12 d \<Longrightarrow> unat (max_cluster d) \<le> 4085"
proof -
  assume d: "fat12 d"
  then have "unat (dpb_size d) \<le> 4085"
    unfolding fat12_def ISFAT12_def
    by (cases "dpb_size d = 0") (auto simp: word_less_nat_alt unat_minus_one)
  moreover have "unat (max_cluster d) = unat (dpb_size d)"
    using d by (simp add: max_cluster_def fat12_def)
  ultimately show ?thesis by simp
qed

lemma max_cluster16: "fat16 d \<Longrightarrow> unat (max_cluster d) \<le> 65525"
  by (simp add: fat16_def ISFAT16_def max_cluster_def word_le_nat_alt)

lemma formats: "fat12 d \<Longrightarrow> \<not> fat16 d" "fat32 d \<Longrightarrow> \<not> fat12 d \<and> \<not> fat16 d"
  by (auto simp: fat12_def fat16_def fat32_def)

lemma entry_put_other: "c' \<noteq> c \<Longrightarrow> entry d (put d F c v) c' = entry d F c'"
  by (simp add: entry_def put_def raw12_put12 raw16_put16 raw32_put32)

lemma entry_put_same:
  assumes "fat12 d \<or> fat16 d \<or> fat32 d" "storable d v"
  shows "entry d (put d F c v) c = v"
proof -
  consider "fat12 d" | "fat16 d" "\<not> fat12 d" | "fat32 d" "\<not> fat12 d" "\<not> fat16 d" using assms(1) formats by blast
  then show ?thesis
  proof cases
    case 1
    have w: "(ucast v AND 0xfff :: u16) = ucast v" "(ucast (ucast v :: u16) :: u32) = v" "unat (ucast v :: u16) = unat v"
      if "unat v \<le> 4085"
    proof -
      show u: "unat (ucast v :: u16) = unat v" using that by (simp add: unat_ucast_le)
      show "(ucast (ucast v :: u16) :: u32) = v" by (simp add: word_unat_eq_iff u)
      show "(ucast v AND 0xfff :: u16) = ucast v" unfolding masks
        using that u by (intro and_mask_small) simp
    qed
    consider "v = LONG_BAD" | "v = LONG_LAST_CLUSTER" | "unat v \<le> 4085"
      using assms(2) max_cluster12 [OF 1] by (auto simp: storable_def FREE_def word_le_nat_alt)
    then show ?thesis
    proof cases
      case 3
      have "\<not> MASK12 \<le> ucast v" "ucast v \<noteq> BAD12" using 3 w(3) by (auto simp: MASK12_def BAD12_def word_le_nat_alt)
      then show ?thesis using 1 w [OF 3] by (simp add: entry_def put_def raw12_put12 Let_def)
    qed (use 1 in \<open>simp_all add: entry_def put_def raw12_put12 Let_def fat_consts\<close>)
  next
    case 2
    have w: "(ucast (ucast v :: u16) :: u32) = v" "unat (ucast v :: u16) = unat v" if "unat v \<le> 65525"
    proof -
      show u: "unat (ucast v :: u16) = unat v" using that by (simp add: unat_ucast_le)
      show "(ucast (ucast v :: u16) :: u32) = v" by (simp add: word_unat_eq_iff u)
    qed
    consider "v = LONG_BAD" | "v = LONG_LAST_CLUSTER" | "unat v \<le> 65525"
      using assms(2) max_cluster16 [OF 2(1)] by (auto simp: storable_def FREE_def word_le_nat_alt)
    then show ?thesis
    proof cases
      case 3
      have "\<not> MASK16 \<le> ucast v" "ucast v \<noteq> BAD16" using 3 w(2) by (auto simp: MASK16_def BAD16_def word_le_nat_alt)
      then show ?thesis using 2 w [OF 3] by (simp add: entry_def put_def raw16_put16 Let_def)
    qed (use 2 in \<open>simp_all add: entry_def put_def raw16_put16 Let_def fat_consts\<close>)
  next
    case 3
    have "v AND LONG_LAST_CLUSTER = v" if "v \<le> LONG_LAST_CLUSTER"
    proof -
      have m: "LONG_LAST_CLUSTER = mask 28" by (simp add: LONG_LAST_CLUSTER_def mask_eq_exp_minus_1)
      show ?thesis using that unfolding m
        by (intro and_mask_small) (simp add: word_le_nat_alt mask_eq_exp_minus_1)
    qed
    moreover have "v \<le> LONG_LAST_CLUSTER"
      using assms(2) 3 by (auto simp: storable_def fat32_def max_cluster_def fat_consts word_le_nat_alt word_less_nat_alt)
    moreover have "v > LONG_BAD \<longrightarrow> v = LONG_LAST_CLUSTER"
      using assms(2) 3 by (auto simp: storable_def fat32_def max_cluster_def fat_consts)
    ultimately show ?thesis using 3 by (auto simp: entry_def put_def raw32_put32 Let_def)
  qed
qed

end
