(* ===== verification/FatLink.thy ===== *)
theory FatLink
  imports FatEntry
begin

text \<open>
  \<^const>\<open>link_fat\<close> on the block cache: reading returns the entry, writing changes this entry, keeps every
  other entry of the table and every other block, and adjusts the free cluster count.
\<close>

subsection \<open>The FAT of a drive\<close>

definition fat_base :: "dpb \<Rightarrow> u32" where
  "fat_base d = ucast (dpb_fatstrt d)
     + (if ISFAT32 d \<and> dpb_xflags d AND FAT_NO_MIRRORING \<noteq> 0 then ucast (dpb_xflags d AND 0xf) * dpb_xfatsize d else 0)"

definition fat_sector :: "dpb \<Rightarrow> nat \<Rightarrow> u32" where
  "fat_sector d j = fat_base d + of_nat j"

definition boff :: "dpb \<Rightarrow> u32 \<Rightarrow> nat" where
  "boff d c = (if fat12 d then off12 c else if fat16 d then off16 c else off32 c)"

definition fat_last :: "dpb \<Rightarrow> nat" where
  "fat_last d = (boff d (max_cluster d) + (if fat32 d then 3 else 1)) div 512"

definition copies :: "dpb \<Rightarrow> nat" where
  "copies d = (if ISFAT32 d \<and> dpb_xflags d AND FAT_NO_MIRRORING \<noteq> 0 then 1 else unat (dpb_fats d))"

definition copy_off :: "dpb \<Rightarrow> u32" where
  "copy_off d = (if dpb_fatsize d = 0 then dpb_xfatsize d else ucast (dpb_fatsize d))"

text \<open>
  A drive the FAT code can work on: 512-byte sectors, one of the three formats, the active FAT
  outside \<open>M\<close>, its further copies inside, and a FAT32 information sector apart from both.
\<close>

definition fat_geom :: "(u8 \<times> u32) set \<Rightarrow> dpb \<Rightarrow> bool" where
  "fat_geom M d \<longleftrightarrow> dpb_secsize d = 512 \<and> dpb_fats d \<noteq> 0 \<and> (fat12 d \<or> fat16 d \<or> fat32 d)
     \<and> (fat12 d \<longrightarrow> unat (dpb_fatstrt d) + 13 < 65536)
     \<and> (\<forall>j\<le>fat_last d. (dpb_unit d, fat_sector d j) \<notin> M
          \<and> (\<forall>k. 0 < k \<longrightarrow> k < copies d \<longrightarrow> (dpb_unit d, fat_sector d j + of_nat k * copy_off d) \<in> M)
          \<and> (dpb_xfsinfosec d \<noteq> 0xFFFF \<longrightarrow> fat_sector d j \<noteq> ucast (dpb_xfsinfosec d)))
     \<and> (dpb_unit d, ucast (dpb_xfsinfosec d)) \<notin> M"

definition flat :: "dpb \<Rightarrow> (u32 \<Rightarrow> u8 list) \<Rightarrow> fat" where
  "flat d V i = V (fat_sector d (i div 512)) ! (i mod 512)"

definition in_fat :: "dpb \<Rightarrow> u32 \<Rightarrow> bool" where
  "in_fat d c \<longleftrightarrow> 2 \<le> c \<and> c \<le> max_cluster d"

lemma fat_sector_inj: "j < 4294967296 \<Longrightarrow> k < 4294967296 \<Longrightarrow> fat_sector d j = fat_sector d k \<longleftrightarrow> j = k"
proof -
  assume "j < 4294967296" "k < 4294967296"
  then have "unat (of_nat j :: u32) = j" "unat (of_nat k :: u32) = k" by (simp_all add: unat_of_nat)
  then have "(of_nat j :: u32) = of_nat k \<longleftrightarrow> j = k" by metis
  then show ?thesis by (simp add: fat_sector_def)
qed

lemma boff_mono: "c \<le> c' \<Longrightarrow> boff d c \<le> boff d c'"
  by (auto simp: boff_def off12_def off16_def off32_def word_le_nat_alt intro!: div_le_mono)

lemma boff_last:
  assumes "in_fat d c" "i \<le> boff d c + (if fat32 d then 3 else 1)"
  shows "i div 512 \<le> fat_last d"
  using boff_mono [of c "max_cluster d" d] assms unfolding fat_last_def in_fat_def by (intro div_le_mono) auto

lemma fat_last_small: "fat12 d \<or> fat16 d \<or> fat32 d \<Longrightarrow> fat_last d < 4294967296"
proof -
  have "unat (max_cluster d) < 4294967296" using unsigned_less [of "max_cluster d", where ?'a = nat] by simp
  then have "boff d (max_cluster d) + (if fat32 d then 3 else 1) < 4 * 4294967296"
    by (auto simp: boff_def off12_def off16_def off32_def)
  then show ?thesis unfolding fat_last_def by linarith
qed

subsection \<open>Where an entry lies\<close>

lemma unat_eq_of_nat: "unat w = n \<Longrightarrow> w = of_nat n"
  by auto

lemma secdivs: "(512 :: u16) * 2 = 1024" "(512 :: u16) div 2 = 256" "(256 :: u16) div 2 = 128"
  "(ucast (1024 :: u16) :: u32) = 1024" "(ucast (256 :: u16) :: u32) = 256" "(ucast (128 :: u16) :: u32) = 128"
  by (simp_all add: word_unat_eq_iff unat_div)

lemma unat_mul3: "unat c \<le> 4085 \<Longrightarrow> unat (ucast (ucast (c :: u32) * 3 :: u16) :: u32) = 3 * unat c"
  by (simp add: unat_word_ariths unat_ucast_le)

lemma nibble_index:
  fixes w :: u32
  assumes "unat w = 3 * n"
  shows "unat (ucast (w mod 1024) div 2 :: u16) = 3 * n div 2 mod 512" "unat (w div 1024) = 3 * n div 2 div 512"
proof -
  have "unat (w mod 1024) = 3 * n mod 1024" using assms by (simp add: unat_mod)
  then have "unat (ucast (w mod 1024) :: u16) = 3 * n mod 1024" by (subst unat_ucast_le) simp_all
  moreover have "x mod 1024 div 2 = x div 2 mod 512" for x :: nat using mod_mult2_eq [of x 2 512] by simp
  ultimately show "unat (ucast (w mod 1024) div 2 :: u16) = 3 * n div 2 mod 512" by (simp only: unat_div) simp
  show "unat (w div 1024) = 3 * n div 2 div 512" using assms by (simp add: unat_div div_mult2_eq)
qed

lemma fat_pos12:
  assumes d: "fat12 d" "dpb_secsize d = 512" and c: "in_fat d c"
  obtains i where "fat_pos d c = (fat_sector d (off12 c div 512), i)" "unat (i div 2) = off12 c mod 512"
proof -
  have le: "unat c \<le> 4085" using c max_cluster12 [OF d(1)] by (simp add: in_fat_def word_le_nat_alt)
  define w where "w = (ucast (ucast c * 3 :: u16) :: u32)"
  have "unat w = 3 * unat c" unfolding w_def using le by (rule unat_mul3)
  note ix = nibble_index [OF this, folded off12_def]
  have f: "ISFAT12 d" "\<not> ISFAT32 d" using d(1) by (simp_all add: fat12_def)
  have "fat_pos d c = (w div 1024 + ucast (dpb_fatstrt d), ucast (w mod 1024))"
    by (simp only: fat_pos_def Let_def f if_True if_False d(2) secdivs w_def simp_thms)
  then have "fat_pos d c = (fat_sector d (off12 c div 512), ucast (w mod 1024))"
    using unat_eq_of_nat [OF ix(2)] f by (simp add: fat_sector_def fat_base_def add.commute)
  with ix(1) show ?thesis using that by blast
qed

lemma fat_pos16:
  assumes d: "fat16 d" "dpb_secsize d = 512" and c: "in_fat d c"
  obtains i where "fat_pos d c = (fat_sector d (off16 c div 512), i)" "unat (i * 2) = off16 c mod 512"
proof -
  let ?i = "ucast (c mod 256) :: u16"
  have i: "unat ?i = unat c mod 256" by (subst unat_ucast_le) (simp_all add: unat_mod)
  have "unat (c div 256) = off16 c div 512" by (simp add: unat_div off16_def)
  then have n: "c div 256 = of_nat (off16 c div 512)" by (rule unat_eq_of_nat)
  have "unat c mod 256 * 2 < 65536" by (rule less_trans [of _ 512]) simp_all
  then have "unat (?i * 2) = off16 c mod 512" using mult_mod_right [of 2 "unat c" 256]
    by (simp only: unat_word_ariths i off16_def) (simp add: mult.commute)
  moreover have f: "\<not> ISFAT12 d" "\<not> ISFAT32 d" using d(1) by (simp_all add: fat16_def)
  then have "fat_pos d c = (fat_sector d (off16 c div 512), ?i)"
    unfolding fat_pos_def Let_def d(2) secdivs n [symmetric] fat_sector_def fat_base_def
    by (simp only: f if_False secdivs simp_thms) (simp add: add.commute)
  ultimately show ?thesis using that by blast
qed

lemma fat_pos32:
  assumes d: "fat32 d" "dpb_secsize d = 512" and c: "in_fat d c"
  obtains i where "fat_pos d c = (fat_sector d (off32 c div 512), i)" "unat (i * 4) = off32 c mod 512"
proof -
  let ?i = "ucast (c mod 128) :: u16"
  have i: "unat ?i = unat c mod 128" by (subst unat_ucast_le) (simp_all add: unat_mod)
  have "unat (c div 128) = off32 c div 512" by (simp add: unat_div off32_def)
  then have n: "c div 128 = of_nat (off32 c div 512)" by (rule unat_eq_of_nat)
  have "unat c mod 128 * 4 < 65536" by (rule less_trans [of _ 512]) simp_all
  then have "unat (?i * 4) = off32 c mod 512" using mult_mod_right [of 4 "unat c" 128]
    by (simp only: unat_word_ariths i off32_def) (simp add: mult.commute)
  moreover have f: "\<not> ISFAT12 d" "ISFAT32 d" using d(1) by (simp_all add: fat32_def)
  then have "fat_pos d c = (fat_sector d (off32 c div 512), ?i)"
    unfolding fat_pos_def Let_def d(2) fat_sector_def fat_base_def n [symmetric]
    by (simp only: f if_False if_True secdivs simp_thms) (simp add: add.commute add.assoc)
  ultimately show ?thesis using that by blast
qed

end
