(* ===== verification/FatRead.thy ===== *)
theory FatRead
  imports FatLink
begin

text \<open>
  Getting blocks of the FAT and reading entries. An entry of a 12 bit FAT may lie in two sectors,
  and then two buffers are in use at once: the replacement policy never recycles the first one.
\<close>

definition fstep :: "'d driver \<Rightarrow> ('d \<Rightarrow> u16 \<Rightarrow> u8 \<Rightarrow> u32 \<Rightarrow> u8 list) \<Rightarrow> (u8 \<times> u32) set \<Rightarrow>
    u16 list \<Rightarrow> 'd kst \<Rightarrow> u16 list \<Rightarrow> 'd kst \<Rightarrow> bool" where
  "fstep drv rd M xs s xs' s' \<longleftrightarrow> cache_inv drv rd M xs' s' \<and> set xs' = set xs \<and> same_env s s'
     \<and> (\<forall>v b. drives s v \<noteq> None \<longrightarrow> (v, b) \<notin> M \<longrightarrow> view rd xs' s' v b = view rd xs s v b)"

lemma fstep_trans:
  assumes "fstep drv rd M xs s xs1 s1" "fstep drv rd M xs1 s1 xs2 s2"
  shows "fstep drv rd M xs s xs2 s2"
proof -
  have "drives s1 = drives s" using assms(1) by (simp add: fstep_def same_env_def)
  with assms show ?thesis unfolding fstep_def by (auto intro: same_env_trans)
qed

lemma mark_fat_simps [simp]:
  "fvalid (mark_fat d dp b)" "ffat (mark_fat d dp b)" "fdirty (mark_fat d dp b) = fdirty b"
  "b_buffer (mark_fat d dp b) = b_buffer b" "b_unit (mark_fat d dp b) = b_unit b" "b_blkno (mark_fat d dp b) = b_blkno b"
  "b_next (mark_fat d dp b) = b_next b" "b_prev (mark_fat d dp b) = b_prev b"
  "b_flag (mark_fat d dp b) AND BFR_UNCACHE = 0 \<longleftrightarrow> b_flag b AND BFR_UNCACHE = 0"
  "unat (b_copies (mark_fat d dp b)) = copies d"
proof -
  have "has (b_flag (mark_fat d dp b)) BFR_UNCACHE = has (b_flag b) BFR_UNCACHE"
    by (simp add: mark_fat_def flag_bits)
  then show "b_flag (mark_fat d dp b) AND BFR_UNCACHE = 0 \<longleftrightarrow> b_flag b AND BFR_UNCACHE = 0" by blast
qed (simp_all add: mark_fat_def flag_bits copies_def)

lemma flush_copies_mark_fat: "dpbs s dp = d \<Longrightarrow> flush_copies s (mark_fat d dp b) = (copies d, copy_off d)"
proof -
  assume d: "dpbs s dp = d"
  have "has (b_flag (mark_fat d dp b)) BFR_FAT" using mark_fat_simps(2) [of d dp b] unfolding ffat_def .
  moreover have "b_offset (mark_fat d dp b) = dpb_fatsize d" "b_dpbp (mark_fat d dp b) = dp" by (simp_all add: mark_fat_def)
  ultimately show ?thesis using d by (simp add: flush_copies_def copy_off_def)
qed

text \<open>The sectors of a FAT that \<^const>\<open>getFATblock\<close> may be asked for.\<close>

definition fat_block :: "(u8 \<times> u32) set \<Rightarrow> dpb \<Rightarrow> u32 \<Rightarrow> bool" where
  "fat_block M d n \<longleftrightarrow> (dpb_unit d, n) \<notin> M \<and> dpb_fats d \<noteq> 0
     \<and> (\<forall>k. 0 < k \<longrightarrow> k < copies d \<longrightarrow> (dpb_unit d, n + of_nat k * copy_off d) \<in> M)"

lemma fat_geom_block: "fat_geom M d \<Longrightarrow> j \<le> fat_last d \<Longrightarrow> fat_block M d (fat_sector d j)"
  by (simp add: fat_geom_def fat_block_def)

lemma extra_mark_fat:
  assumes "dpbs s dp = d" "fat_block M d n" "b_unit b = dpb_unit d" "b_blkno b = n"
  shows "extra_blocks s (mark_fat d dp b) \<subseteq> M"
  using assms by (auto simp: extra_blocks_def flush_copies_mark_fat fat_block_def)

lemma copies_pos: "dpb_fats d \<noteq> 0 \<Longrightarrow> 0 < copies d"
  by (simp add: copies_def unat_gt_0)

definition gotf :: "'d driver \<Rightarrow> ('d \<Rightarrow> u16 \<Rightarrow> u8 \<Rightarrow> u32 \<Rightarrow> u8 list) \<Rightarrow> (u8 \<times> u32) set \<Rightarrow>
    u16 list \<Rightarrow> 'd kst \<Rightarrow> u8 \<Rightarrow> u32 \<Rightarrow> u16 \<Rightarrow> u16 list \<Rightarrow> 'd kst \<Rightarrow> bool" where
  "gotf drv rd M xs s u n p xs' s' \<longleftrightarrow> fstep drv rd M xs s xs' s' \<and> hd xs' = p \<and> p \<in> set xs'
     \<and> is_block n u (bufs s' p) \<and> ffat (bufs s' p) \<and> \<not> has (b_flag (bufs s' p)) BFR_UNCACHE
     \<and> 0 < b_copies (bufs s' p) \<and> extra_blocks s' (bufs s' p) \<subseteq> M"

lemma getFATblock_ok:
  assumes inv: "cache_inv drv rd M xs s" and d: "dpbs s dp = d" and u: "drives s (dpb_unit d) \<noteq> None"
    and n: "fat_block M d n"
  shows "\<exists>p xs' s'. getFATblock drv dp n s = Some (Some p, s') \<and> gotf drv rd M xs s (dpb_unit d) n p xs' s'
    \<and> (p \<in> set xs \<and> is_block n (dpb_unit d) (bufs s p) \<or> p = lru_victim s xs)
    \<and> (\<forall>q. q \<noteq> p \<longrightarrow> sem (bufs s' q) = sem (bufs s q))"
proof -
  let ?u = "dpb_unit d"
  from getblk_ok [OF inv u, of n] obtain p xs1 s1 where
    g: "getblk drv n ?u False s = Some (Some p, s1)" "got drv rd M xs s ?u n p xs1 s1"
    and vic: "p \<in> set xs \<and> is_block n ?u (bufs s p) \<or> p = lru_victim s xs"
    and oth: "\<And>q. q \<noteq> p \<Longrightarrow> sem (bufs s1 q) = sem (bufs s q)" by blast
  have i1: "cache_inv drv rd M xs1 s1" and st: "set xs1 = set xs" "hd xs1 = p" and ib: "is_block n ?u (bufs s1 p)"
    and fl: "\<not> has (b_flag (bufs s1 p)) BFR_UNCACHE" and env: "same_env s s1"
    and vw: "\<And>v b. drives s v \<noteq> None \<Longrightarrow> (v, b) \<notin> M \<Longrightarrow> view rd xs1 s1 v b = view rd xs s v b"
    using g(2) by (auto simp: got_def)
  have p1: "p \<in> set xs1" using i1 st(2) by (cases xs1) (auto simp: cache_inv_def ring_def)
  have d1: "dpbs s1 dp = d" using env d by (simp add: same_env_def)
  let ?b = "mark_fat d dp (bufs s1 p)"
  have blk: "b_unit (bufs s1 p) = ?u" "b_blkno (bufs s1 p) = n" "fvalid (bufs s1 p)" using ib by (auto simp: is_block_iff blk_of_def)
  have ok: "buf_ok rd M s1 (bufs s1 p)" using i1 p1 by (simp add: cache_inv_def)
  have ib': "is_block n ?u ?b" using blk by (simp add: is_block_iff blk_of_def)
  have cl: "fdirty ?b \<or> (?u, n) \<in> M \<or> b_buffer ?b = sector rd s1 ?u n"
    using ok blk by (auto simp: buf_ok_def blk_of_def)
  have ex: "0 < b_copies ?b \<and> extra_blocks s1 ?b \<subseteq> M"
    using extra_mark_fat [OF d1 n blk(1,2)] copies_pos n mark_fat_simps(10) [of d dp "bufs s1 p"]
    by (simp add: fat_block_def word_less_nat_alt)
  have len: "length (b_buffer ?b) = 512" using ok by (simp add: buf_ok_def)
  define s2 where "s2 = upd_buf p (mark_fat d dp) s1"
  note m = modify_ok [OF i1 p1 ib, of ?b "mark_fat d dp", simplified len ib' cl ex simp_thms, simplified, folded s2_def]
  have env2: "same_env s s2" unfolding s2_def by (rule same_env_trans [OF env same_env_upd])
  have v2: "view rd xs1 s2 v b = view rd xs1 s1 v b" for v b
    using m(2) [of v b] view_hit [OF i1 p1 ib] by auto
  have "fstep drv rd M xs s xs1 s2" using m(1) st env2 v2 vw by (simp add: fstep_def)
  moreover have "extra_blocks s2 ?b = extra_blocks s1 ?b"
    using same_env_copies [of s1 s2] by (simp add: extra_blocks_def s2_def)
  ultimately have "gotf drv rd M xs s ?u n p xs1 s2"
    using st p1 ib' fl ex by (simp add: gotf_def) (simp add: s2_def)
  moreover have "getFATblock drv dp n s = Some (Some p, s2)" using g(1) d d1 by (simp add: getFATblock_def s2_def)
  moreover have "sem (bufs s2 q) = sem (bufs s q)" if "q \<noteq> p" for q using oth [OF that] that by (simp add: s2_def)
  ultimately show ?thesis using vic by blast
qed

text \<open>
  While a FAT block is the most recently used one, asking for another FAT block gets another buffer
  (the comment in \<^verbatim>\<open>link_fat\<close> relies on it).
\<close>

lemma second_buffer:
  assumes inv: "cache_inv drv rd M xs s" and p: "hd xs = p" "is_block n u (bufs s p)" "ffat (bufs s p)"
    "\<not> has (b_flag (bufs s p)) BFR_UNCACHE" and two: "2 \<le> length xs" and ne: "n' \<noteq> n"
    and q: "q \<in> set xs \<and> is_block n' u (bufs s q) \<or> q = lru_victim s xs"
  shows "q \<noteq> p"
proof -
  have r: "ring s xs" using inv by (simp add: cache_inv_def)
  have l: "last xs \<noteq> hd xs" using two r by (cases xs) (auto simp: ring_def dest: last_in_set)
  have nu: "p \<notin> set (uncached_bufs s xs)" "p \<notin> set (other_bufs s xs)"
    using p(3,4) by (auto simp: uncached_bufs_def other_bufs_def ffat_def)
  have "uncached_bufs s xs \<noteq> [] \<Longrightarrow> last (uncached_bufs s xs) \<noteq> p"
    "other_bufs s xs \<noteq> [] \<Longrightarrow> last (other_bufs s xs) \<noteq> p" using nu last_in_set by metis+
  then have "lru_victim s xs \<noteq> p" unfolding lru_victim_def using l p(1) by simp
  with q p(2) ne show ?thesis by (auto simp: is_block_iff)
qed

subsection \<open>Reading\<close>

lemma buffer_view:
  assumes "gotf drv rd M xs s u n p xs' s'" "drives s u \<noteq> None" "(u, n) \<notin> M"
  shows "b_buffer (bufs s' p) = view rd xs s u n"
proof -
  have "cache_inv drv rd M xs' s'" "p \<in> set xs'" "is_block n u (bufs s' p)" using assms(1) by (auto simp: gotf_def fstep_def)
  from view_hit [OF this] assms show ?thesis by (simp add: gotf_def fstep_def)
qed

lemma fstep_length: "fstep drv rd M xs s xs' s' \<Longrightarrow> cache_inv drv rd M xs s \<Longrightarrow> length xs' = length xs"
  using distinct_card [of xs] distinct_card [of xs'] by (simp add: fstep_def cache_inv_def ring_def)

lemma getword_join: "getword bs i = join16 (bs ! i) (bs ! (i + 1))"
  by (simp add: getword_def join16_def)

lemma read_consts: "\<not> c \<le> 1" "\<not> c > max_cluster d" "\<not> (READ_CLUSTER < LONG_BAD \<and> READ_CLUSTER > max_cluster d)"
  if "in_fat d c"
  using that by (auto simp: in_fat_def READ_CLUSTER_def word_le_nat_alt word_less_nat_alt)

text \<open>Bytes that follow each other in a sector, or across two sectors.\<close>

lemma in_sector:
  fixes i k :: nat
  assumes "i mod 512 + k < 512"
  shows "(i + k) div 512 = i div 512" "(i + k) mod 512 = i mod 512 + k"
proof -
  have "i + k = 512 * (i div 512) + (i mod 512 + k)" by simp
  with assms show "(i + k) div 512 = i div 512" "(i + k) mod 512 = i mod 512 + k" by (metis div_mult_self4 div_less add.right_neutral
    zero_neq_numeral add.commute, metis mod_mult_self4 mod_less)
qed

lemma next_sector:
  fixes i :: nat
  assumes "i mod 512 = 511"
  shows "(i + 1) div 512 = i div 512 + 1" "(i + 1) mod 512 = 0"
proof -
  obtain q where "i = 512 * q + 511" using assms mult_div_mod_eq [of 512 i] by metis
  then have "i + 1 = 512 * (q + 1)" "i div 512 = q" by simp_all
  then show "(i + 1) div 512 = i div 512 + 1" "(i + 1) mod 512 = 0" by simp_all
qed

lemma even_sector: "even (i :: nat) \<Longrightarrow> i mod 512 + 1 < 512"
proof -
  assume "even i"
  then have "even (i mod 512)" by (simp add: dvd_mod)
  then have "i mod 512 \<noteq> 511" by auto
  moreover have "i mod 512 < 512" by simp
  ultimately show ?thesis by linarith
qed

lemma quad_sector: "4 dvd (i :: nat) \<Longrightarrow> i mod 512 + 3 < 512"
proof -
  assume "4 dvd i"
  then have "4 dvd i mod 512" by (simp add: dvd_mod)
  moreover have "4 dvd m \<Longrightarrow> m < 512 \<Longrightarrow> m + 3 < 512" for m :: nat by presburger
  ultimately show ?thesis by simp
qed

text \<open>A buffer that holds a sector of the FAT shows bytes of the table.\<close>

lemma buffer_flat:
  assumes "b_buffer b = V (fat_sector d (i div 512))"
  shows "i mod 512 + k < 512 \<Longrightarrow> b_buffer b ! (i mod 512 + k) = flat d V (i + k)"
  using assms by (simp add: flat_def in_sector)

lemma link16_read:
  assumes "b_buffer (bufs s p) = V (fat_sector d (off16 c div 512))" "unat (i * 2) = off16 c mod 512" "fat16 d"
  shows "link16 READ_CLUSTER i p s = (Inl (entry d (flat d V) c), s)"
proof -
  have e: "even (off16 c)" by (simp add: off16_def)
  note b = buffer_flat [of "bufs s p" V d "off16 c" 0, OF assms(1)] buffer_flat [of "bufs s p" V d "off16 c" 1, OF assms(1)]
  have "getword (b_buffer (bufs s p)) (off16 c mod 512) = raw16 (flat d V) c"
    using b even_sector [OF e] by (simp add: getword_join raw16_def)
  then show ?thesis using assms(2,3) by (simp add: link16_def entry_def Let_def formats READ_CLUSTER_def fat12_def fat16_def)
qed

lemma link32_read:
  assumes "b_buffer (bufs s p) = V (fat_sector d (off32 c div 512))" "unat (i * 4) = off32 c mod 512" "fat32 d"
  shows "link32 READ_CLUSTER i p s = (Inl (entry d (flat d V) c), s)"
proof -
  have e: "4 dvd off32 c" by (simp add: off32_def)
  note b = buffer_flat [of "bufs s p" V d "off32 c" 0, OF assms(1)] buffer_flat [of "bufs s p" V d "off32 c" 1, OF assms(1)]
    buffer_flat [of "bufs s p" V d "off32 c" 2, OF assms(1)] buffer_flat [of "bufs s p" V d "off32 c" 3, OF assms(1)]
  have "getlong (b_buffer (bufs s p)) (off32 c mod 512) AND LONG_LAST_CLUSTER = raw32 (flat d V) c"
    using b quad_sector [OF e] by (simp add: getlong_def getword_join raw32_def numeral_3_eq_3)
  then show ?thesis using assms(2,3) by (simp add: link32_def entry_def Let_def formats)
qed

lemma fat_block_next:
  assumes g: "fat_geom M d" and d: "fat12 d" and c: "in_fat d c" and i: "off12 c mod 512 = 511"
  shows "ucast (ucast (fat_sector d (off12 c div 512)) + 1 :: u16) = fat_sector d ((off12 c + 1) div 512)"
proof -
  have "unat c \<le> 4085" using c max_cluster12 [OF d] by (simp add: in_fat_def word_le_nat_alt)
  then have j: "off12 c div 512 \<le> 11" by (simp add: off12_def)
  have fs: "unat (dpb_fatstrt d) + 13 < 65536" using g d by (simp add: fat_geom_def)
  have base: "fat_base d = ucast (dpb_fatstrt d)" using d by (simp add: fat_base_def fat12_def)
  let ?n = "unat (dpb_fatstrt d) + off12 c div 512"
  have "unat (of_nat (off12 c div 512) :: u32) = off12 c div 512" using j by (simp add: unat_of_nat)
  then have n: "unat (fat_sector d (off12 c div 512)) = ?n"
    using fs j unfolding fat_sector_def base by (subst unat_word_ariths) simp
  then have "unat (ucast (fat_sector d (off12 c div 512)) :: u16) = ?n"
    using fs j by (subst unat_ucast_le) simp_all
  then have "unat (ucast (fat_sector d (off12 c div 512)) + 1 :: u16) = ?n + 1"
    using fs j by (subst unat_word_ariths) simp
  then have "unat (ucast (ucast (fat_sector d (off12 c div 512)) + 1 :: u16) :: u32) = ?n + 1" by simp
  moreover have u: "unat (of_nat (off12 c div 512 + 1) :: u32) = off12 c div 512 + 1"
    using j by (simp only: unat_of_nat) simp
  then have "unat (fat_sector d ((off12 c + 1) div 512)) = ?n + 1"
    unfolding next_sector(1) [OF i] fat_sector_def base using fs j by (simp only: unat_word_ariths unat_ucast16_32 u) simp
  ultimately show ?thesis by (simp add: word_unat_eq_iff)
qed

text \<open>What \<^const>\<open>link12\<close> has in its hands before it looks at \<open>Cluster2\<close>: the two buffers and the word.\<close>

definition fetch12 :: "'d driver \<Rightarrow> u16 \<Rightarrow> u32 \<Rightarrow> u32 \<Rightarrow> u16 \<Rightarrow> u16 \<Rightarrow> 'd kst \<Rightarrow> ((u16 \<times> nat) option \<times> 'd kst) option" where
  "fetch12 drv dp c2 clussec idx0 bp s =
     (if idx0 div 2 \<ge> dpb_secsize (dpbs s dp) - 1 then do {
        (bp1, s1) \<leftarrow> getFATblock drv dp (ucast (ucast clussec + 1 :: u16)) s;
        Some (case bp1 of
          None \<Rightarrow> (None, s1)
        | Some p \<Rightarrow> (Some (p, 0), if c2 \<noteq> READ_CLUSTER then upd_buf p set_dirty s1 else s1))
      } else Some (Some (bp, unat (idx0 div 2) + 1), s))"

lemma link12_fetch: "link12 drv dp c1 c2 clussec idx0 bp s = do {
    (p1, s1) \<leftarrow> fetch12 drv dp c2 clussec idx0 bp s;
    case p1 of
      None \<Rightarrow> Some (Inl 1, s1)
    | Some (q, j) \<Rightarrow>
        let w = join16 (b_buffer (bufs s1 bp) ! unat (idx0 div 2)) (b_buffer (bufs s1 q) ! j);
            cluster = unpack12 c1 w
        in if (ucast c2 :: u16) = 1 then
             Some (Inl (if cluster \<ge> MASK12 then LONG_LAST_CLUSTER
                        else if cluster = BAD12 then LONG_BAD else ucast cluster), s1)
           else
             let v = pack12 c1 w c2;
                 s2 = upd_buf bp (put_byte (unat (idx0 div 2)) (ucast v)) s1;
                 s3 = upd_buf q (put_byte j (ucast (drop_bit 8 v))) s2
             in Some (Inr (cluster = 0), s3)
  }"
  unfolding link12_def fetch12_def join16_def Let_def by (rule refl)

subsection \<open>Buffers of the FAT\<close>

definition holds :: "(u8 \<times> u32) set \<Rightarrow> u16 list \<Rightarrow> 'd kst \<Rightarrow> dpb \<Rightarrow> u16 \<Rightarrow> nat \<Rightarrow> bool" where
  "holds M xs s d p i \<longleftrightarrow> p \<in> set xs \<and> is_block (fat_sector d (i div 512)) (dpb_unit d) (bufs s p) \<and> ffat (bufs s p)
     \<and> 0 < b_copies (bufs s p) \<and> extra_blocks s (bufs s p) \<subseteq> M"

lemma set_dirty_simps [simp]:
  "fvalid (set_dirty b)" "fdirty (set_dirty b)" "ffat (set_dirty b) = ffat b" "b_buffer (set_dirty b) = b_buffer b"
  "b_next (set_dirty b) = b_next b" "b_prev (set_dirty b) = b_prev b" "b_copies (set_dirty b) = b_copies b"
  "flush_copies s (set_dirty b) = flush_copies s b" "blk_of (set_dirty b) = blk_of b" "b_unit (set_dirty b) = b_unit b"
  "b_blkno (set_dirty b) = b_blkno b" "set_dirty (set_dirty b) = set_dirty b"
  by (simp_all add: set_dirty_def flag_bits blk_of_def flush_copies_def or.assoc)

lemma put_byte_simps [simp]:
  "fvalid (put_byte i x b) = fvalid b" "fdirty (put_byte i x b) = fdirty b" "ffat (put_byte i x b) = ffat b"
  "b_buffer (put_byte i x b) = (b_buffer b)[i := x]" "b_next (put_byte i x b) = b_next b" "b_prev (put_byte i x b) = b_prev b"
  "b_copies (put_byte i x b) = b_copies b" "flush_copies s (put_byte i x b) = flush_copies s b"
  "blk_of (put_byte i x b) = blk_of b" "b_unit (put_byte i x b) = b_unit b" "b_blkno (put_byte i x b) = b_blkno b"
  "set_dirty (put_byte i x b) = put_byte i x (set_dirty b)"
  by (simp_all add: put_byte_def fvalid_def fdirty_def ffat_def blk_of_def flush_copies_def set_dirty_def)

lemma extra_blocks_simps [simp]:
  "extra_blocks s (set_dirty b) = extra_blocks s b" "extra_blocks s (put_byte i x b) = extra_blocks s b"
  by (simp_all add: extra_blocks_def)

lemma extra_blocks_env: "same_env s s' \<Longrightarrow> extra_blocks s' b = extra_blocks s b"
  using same_env_copies [of s s'] by (simp add: extra_blocks_def)

lemma gotf_holds:
  "gotf drv rd M xs s (dpb_unit d) (fat_sector d (i div 512)) p xs' s' \<Longrightarrow> holds M xs' s' d p i"
  by (simp add: gotf_def holds_def)

lemma holds_sem:
  assumes h: "holds M xs s d p i" and e: "sem (bufs s' p) = sem (bufs s p)" "same_env s s'" "set xs' = set xs"
  shows "holds M xs' s' d p i"
proof -
  have "extra_blocks s (bufs s' p) = extra_blocks s (bufs s p)" using sem_eqD(5,6) [OF e(1)] sem_eqD(9) [OF e(1), of s] by (simp add: extra_blocks_def)
  with h sem_eqD(3,8,10) [OF e(1)] extra_blocks_env [OF e(2)] e(3) show ?thesis by (simp add: holds_def)
qed

text \<open>Marking such a buffer dirty changes no block.\<close>

lemma dirty_ok:
  assumes inv: "cache_inv drv rd M xs s" and h: "holds M xs s d p i"
  shows "fstep drv rd M xs s xs (upd_buf p set_dirty s)"
proof -
  let ?n = "fat_sector d (i div 512)" and ?u = "dpb_unit d"
  have p: "p \<in> set xs" "is_block ?n ?u (bufs s p)" using h by (simp_all add: holds_def)
  have "length (b_buffer (bufs s p)) = 512" using inv p by (simp add: cache_inv_def buf_ok_def)
  then have m: "cache_inv drv rd M xs (upd_buf p set_dirty s)"
    "view rd xs (upd_buf p set_dirty s) v c = (if v = ?u \<and> c = ?n then b_buffer (bufs s p) else view rd xs s v c)" for v c
    using modify_ok [OF inv p refl, of set_dirty] p(2) h by (simp_all add: is_block_iff holds_def)
  have "view rd xs (upd_buf p set_dirty s) v c = view rd xs s v c" for v c
    using m(2) [of v c] view_hit [OF inv p] by auto
  with m(1) show ?thesis by (simp add: fstep_def)
qed

text \<open>Writing a byte of the table into the buffer that holds its sector.\<close>

definition wr :: "u16 \<Rightarrow> nat \<Rightarrow> u8 \<Rightarrow> 'd kst \<Rightarrow> 'd kst" where
  "wr p i x s = upd_buf p (\<lambda>b. set_dirty (put_byte (i mod 512) x b)) s"

definition fat_sectors :: "dpb \<Rightarrow> (u8 \<times> u32) set" where
  "fat_sectors d = {(dpb_unit d, fat_sector d j) |j. j \<le> fat_last d}"

lemma wr_ok:
  assumes inv: "cache_inv drv rd M xs s" and h: "holds M xs s d p i" and i: "i div 512 \<le> fat_last d"
    and f: "fat12 d \<or> fat16 d \<or> fat32 d"
  shows "cache_inv drv rd M xs (wr p i x s)" "same_env s (wr p i x s)"
    "(v, b) \<notin> fat_sectors d \<Longrightarrow> view rd xs (wr p i x s) v b = view rd xs s v b"
    "k div 512 \<le> fat_last d \<Longrightarrow> flat d (view rd xs (wr p i x s) (dpb_unit d)) k
      = ((flat d (view rd xs s (dpb_unit d)))(i := x)) k"
    "holds M xs s d q k \<Longrightarrow> holds M xs (wr p i x s) d q k"
proof -
  let ?n = "fat_sector d (i div 512)" and ?u = "dpb_unit d" and ?s = "wr p i x s"
  let ?f = "\<lambda>b. set_dirty (put_byte (i mod 512) x b)"
  have p: "p \<in> set xs" "is_block ?n ?u (bufs s p)" using h by (simp_all add: holds_def)
  have len: "length (b_buffer (bufs s p)) = 512" using inv p by (simp add: cache_inv_def buf_ok_def)
  have m: "cache_inv drv rd M xs (wr p i x s)"
    "view rd xs ?s v c = (if v = ?u \<and> c = ?n then (b_buffer (bufs s p))[i mod 512 := x] else view rd xs s v c)" for v c
    using modify_ok [OF inv p refl, of ?f] p(2) h len by (simp_all add: is_block_iff holds_def wr_def)
  then show "cache_inv drv rd M xs (wr p i x s)" by blast
  show env: "same_env s ?s" by (simp add: wr_def)
  show "view rd xs ?s v b = view rd xs s v b" if "(v, b) \<notin> fat_sectors d" for v b
    using m(2) [of v b] that i by (auto simp: fat_sectors_def)
  show "flat d (view rd xs ?s ?u) k = ((flat d (view rd xs s ?u))(i := x)) k" if k: "k div 512 \<le> fat_last d" for k
  proof -
    have eq: "fat_sector d (k div 512) = ?n \<longleftrightarrow> k div 512 = i div 512"
      using fat_sector_inj [of "k div 512" "i div 512" d] fat_last_small [OF f] i k by simp
    have "k = i \<longleftrightarrow> k div 512 = i div 512 \<and> k mod 512 = i mod 512" by (metis div_mult_mod_eq)
    then show ?thesis
      using m(2) [of ?u "fat_sector d (k div 512)"] eq view_hit [OF inv p] len by (auto simp: flat_def nth_list_update)
  qed
  show "holds M xs ?s d q k" if "holds M xs s d q k"
    using that extra_blocks_env [OF env] by (auto simp: holds_def wr_def is_block_iff)
qed

text \<open>The two bytes of a 12 bit entry, in one buffer or in two.\<close>

lemma fetch12_ok:
  assumes inv: "cache_inv drv rd M xs s" and d: "dpbs s dp = d" and u: "drives s (dpb_unit d) \<noteq> None"
    and g: "fat_geom M d" "fat12 d" "in_fat d c" and two: "2 \<le> length xs"
    and gf: "gotf drv rd M xs s (dpb_unit d) (fat_sector d (off12 c div 512)) p xs1 s1"
    and ix: "unat (i div 2) = off12 c mod 512"
  shows "\<exists>q xs2 s2. fetch12 drv dp c2 (fat_sector d (off12 c div 512)) i p s1 = Some (Some (q, (off12 c + 1) mod 512), s2)
    \<and> fstep drv rd M xs s xs2 s2 \<and> holds M xs2 s2 d p (off12 c) \<and> holds M xs2 s2 d q (off12 c + 1)
    \<and> (q \<noteq> p \<longrightarrow> c2 \<noteq> READ_CLUSTER \<longrightarrow> fdirty (bufs s2 q))"
proof -
  have f1: "fstep drv rd M xs s xs1 s1" and i1: "cache_inv drv rd M xs1 s1" and env: "same_env s s1"
    using gf by (auto simp: gotf_def fstep_def)
  have d1: "dpbs s1 dp = d" and u1: "drives s1 (dpb_unit d) \<noteq> None" using env d u by (auto simp: same_env_def)
  have hp: "holds M xs1 s1 d p (off12 c)" using gf by (rule gotf_holds)
  have sec: "dpb_secsize d = 512" using g by (simp add: fat_geom_def)
  have st: "i div 2 \<ge> dpb_secsize (dpbs s1 dp) - 1 \<longleftrightarrow> off12 c mod 512 = 511"
  proof -
    have "m < 512 \<Longrightarrow> 511 \<le> m \<longleftrightarrow> m = 511" for m :: nat by linarith
    from this [of "off12 c mod 512"] show ?thesis using ix by (simp add: d1 sec word_le_nat_alt)
  qed
  show ?thesis
  proof (cases "off12 c mod 512 = 511")
    case False
    have "off12 c mod 512 < 512" by simp
    with False have lt: "off12 c mod 512 + 1 < 512" by linarith
    note n = in_sector [OF lt]
    have "fetch12 drv dp c2 (fat_sector d (off12 c div 512)) i p s1 = Some (Some (p, (off12 c + 1) mod 512), s1)"
      unfolding fetch12_def st using False ix n(2) by simp
    moreover have "holds M xs1 s1 d p (off12 c + 1)" using hp n(1) by (simp add: holds_def)
    ultimately show ?thesis using f1 hp by blast
  next
    case True
    let ?n = "fat_sector d ((off12 c + 1) div 512)"
    have "boff d c = off12 c" "\<not> fat32 d" using g(2) formats by (auto simp: boff_def)
    then have j: "(off12 c + 1) div 512 \<le> fat_last d" "off12 c div 512 \<le> fat_last d"
      using boff_last [OF g(3), of "off12 c + 1"] boff_last [OF g(3), of "off12 c"] by simp_all
    have nx: "ucast (ucast (fat_sector d (off12 c div 512)) + 1 :: u16) = ?n" using g True by (rule fat_block_next)
    from getFATblock_ok [OF i1 d1 u1 fat_geom_block [OF g(1) j(1)]] obtain q xs2 s2 where
      q: "getFATblock drv dp ?n s1 = Some (Some q, s2)" "gotf drv rd M xs1 s1 (dpb_unit d) ?n q xs2 s2"
      and vic: "q \<in> set xs1 \<and> is_block ?n (dpb_unit d) (bufs s1 q) \<or> q = lru_victim s1 xs1"
      and oth: "\<And>r. r \<noteq> q \<Longrightarrow> sem (bufs s2 r) = sem (bufs s1 r)" by blast
    have two1: "2 \<le> length xs1" using two fstep_length [OF f1 inv] by simp
    have nn: "?n \<noteq> fat_sector d (off12 c div 512)"
      using fat_sector_inj [of "(off12 c + 1) div 512" "off12 c div 512" d] next_sector(1) [OF True] j fat_last_small [of d] g(2)
      by simp
    have qp: "q \<noteq> p"
      by (rule second_buffer [OF i1 _ _ _ _ two1 nn vic]) (use gf in \<open>simp_all add: gotf_def\<close>)
    have f2: "fstep drv rd M xs1 s1 xs2 s2" and i2: "cache_inv drv rd M xs2 s2" and e2: "same_env s1 s2" "set xs2 = set xs1"
      using q(2) by (auto simp: gotf_def fstep_def)
    have hq: "holds M xs2 s2 d q (off12 c + 1)" using q(2) by (rule gotf_holds)
    have hp2: "holds M xs2 s2 d p (off12 c)" using hp oth [OF qp [symmetric]] e2 by (rule holds_sem)
    define s3 where "s3 = (if c2 \<noteq> READ_CLUSTER then upd_buf q set_dirty s2 else s2)"
    have f3: "fstep drv rd M xs2 s2 xs2 s3"
      using dirty_ok [OF i2 hq] i2 by (simp add: s3_def fstep_def)
    have e3: "same_env s2 s3" using f3 by (simp add: fstep_def)
    have "bufs s3 p = bufs s2 p" using qp by (simp add: s3_def)
    then have "holds M xs2 s3 d p (off12 c)" using hp2 e3 by (intro holds_sem [OF hp2]) simp_all
    moreover have "holds M xs2 s3 d q (off12 c + 1)"
      using hq extra_blocks_env [OF e3] by (auto simp: holds_def s3_def is_block_iff)
    moreover have "fetch12 drv dp c2 (fat_sector d (off12 c div 512)) i p s1 = Some (Some (q, (off12 c + 1) mod 512), s3)"
      unfolding fetch12_def st nx using True q(1) next_sector(2) [OF True] by (simp add: s3_def)
    moreover have "fstep drv rd M xs s xs2 s3" using fstep_trans [OF f1 fstep_trans [OF f2 f3]] .
    moreover have "c2 \<noteq> READ_CLUSTER \<Longrightarrow> fdirty (bufs s3 q)" by (simp add: s3_def)
    ultimately show ?thesis by blast
  qed
qed

lemma holds_flat:
  assumes inv: "cache_inv drv rd M xs' s'" and h: "holds M xs' s' d p i" and f: "fstep drv rd M xs s xs' s'"
    and g: "fat_geom M d" "i div 512 \<le> fat_last d" and u: "drives s (dpb_unit d) \<noteq> None"
  shows "b_buffer (bufs s' p) = view rd xs s (dpb_unit d) (fat_sector d (i div 512))"
    "b_buffer (bufs s' p) ! (i mod 512) = flat d (view rd xs s (dpb_unit d)) i"
proof -
  have "p \<in> set xs'" "is_block (fat_sector d (i div 512)) (dpb_unit d) (bufs s' p)" using h by (simp_all add: holds_def)
  from view_hit [OF inv this] have "b_buffer (bufs s' p) = view rd xs' s' (dpb_unit d) (fat_sector d (i div 512))" by simp
  moreover have "(dpb_unit d, fat_sector d (i div 512)) \<notin> M" using g by (simp add: fat_geom_def)
  ultimately show "b_buffer (bufs s' p) = view rd xs s (dpb_unit d) (fat_sector d (i div 512))"
    using f u by (simp add: fstep_def)
  then show "b_buffer (bufs s' p) ! (i mod 512) = flat d (view rd xs s (dpb_unit d)) i" by (simp add: flat_def)
qed

lemma boff_sectors:
  assumes "in_fat d c"
  shows "fat12 d \<Longrightarrow> off12 c div 512 \<le> fat_last d \<and> (off12 c + 1) div 512 \<le> fat_last d"
    "fat16 d \<Longrightarrow> off16 c div 512 \<le> fat_last d" "fat32 d \<Longrightarrow> off32 c div 512 \<le> fat_last d"
proof -
  have ne: "fat12 d \<Longrightarrow> \<not> fat16 d \<and> \<not> fat32 d" "fat16 d \<Longrightarrow> \<not> fat12 d \<and> \<not> fat32 d" using formats [of d] by blast+
  show "fat12 d \<Longrightarrow> off12 c div 512 \<le> fat_last d \<and> (off12 c + 1) div 512 \<le> fat_last d"
    using boff_last [OF assms, of "off12 c"] boff_last [OF assms, of "off12 c + 1"] ne(1) by (simp add: boff_def)
  show "fat16 d \<Longrightarrow> off16 c div 512 \<le> fat_last d"
    using boff_last [OF assms, of "off16 c"] ne(2) by (simp add: boff_def)
  show "fat32 d \<Longrightarrow> off32 c div 512 \<le> fat_last d"
    using boff_last [OF assms, of "off32 c"] formats(2) [of d] by (simp add: boff_def)
qed

theorem link_fat_read:
  assumes inv: "cache_inv drv rd M xs s" and d: "dpbs s dp = d" and u: "drives s (dpb_unit d) \<noteq> None"
    and g: "fat_geom M d" and c: "in_fat d c" and two: "2 \<le> length xs"
  shows "\<exists>xs' s'. link_fat drv dp c READ_CLUSTER s = Some (entry d (flat d (view rd xs s (dpb_unit d))) c, s')
    \<and> fstep drv rd M xs s xs' s'"
proof -
  let ?F = "flat d (view rd xs s (dpb_unit d))"
  have sec: "dpb_secsize d = 512" and fmt: "fat12 d \<or> fat16 d \<or> fat32 d" using g by (auto simp: fat_geom_def)
  note rc = read_consts [OF c]
  have get: "\<exists>p xs' s'. getFATblock drv dp (fat_sector d j) s = Some (Some p, s')
      \<and> gotf drv rd M xs s (dpb_unit d) (fat_sector d j) p xs' s'" if "j \<le> fat_last d" for j
    using getFATblock_ok [OF inv d u fat_geom_block [OF g that]] by blast
  from fmt consider "fat12 d" | "fat16 d" | "fat32 d" by blast
  then show ?thesis
  proof cases
    case 1
    obtain i where i: "fat_pos d c = (fat_sector d (off12 c div 512), i)" "unat (i div 2) = off12 c mod 512"
      using fat_pos12 [OF 1 sec c] .
    note j = boff_sectors(1) [OF c 1]
    obtain p xs1 s1 where p: "getFATblock drv dp (fat_sector d (off12 c div 512)) s = Some (Some p, s1)"
      "gotf drv rd M xs s (dpb_unit d) (fat_sector d (off12 c div 512)) p xs1 s1" using get j by blast
    from fetch12_ok [OF inv d u g 1 c two p(2) i(2), of READ_CLUSTER] obtain q xs2 s2 where
      q: "fetch12 drv dp READ_CLUSTER (fat_sector d (off12 c div 512)) i p s1 = Some (Some (q, (off12 c + 1) mod 512), s2)"
      "fstep drv rd M xs s xs2 s2" "holds M xs2 s2 d p (off12 c)" "holds M xs2 s2 d q (off12 c + 1)" by blast
    have i2: "cache_inv drv rd M xs2 s2" using q(2) by (simp add: fstep_def)
    note hp = holds_flat(2) [OF i2 q(3,2) g _ u] and hq = holds_flat(2) [OF i2 q(4,2) g _ u]
    have "link12 drv dp c READ_CLUSTER (fat_sector d (off12 c div 512)) i p s1 = Some (Inl (entry d ?F c), s2)"
      unfolding link12_fetch using q(1) i(2) hp hq j 1
      by (simp add: entry_def raw12_def Let_def READ_CLUSTER_def)
    with rc i(1) p(1) d 1 q(2) show ?thesis by (simp add: link_fat_def Let_def fat12_def) blast
  next
    case 2
    obtain i where i: "fat_pos d c = (fat_sector d (off16 c div 512), i)" "unat (i * 2) = off16 c mod 512"
      using fat_pos16 [OF 2 sec c] .
    note j = boff_sectors(2) [OF c 2]
    obtain p xs1 s1 where p: "getFATblock drv dp (fat_sector d (off16 c div 512)) s = Some (Some p, s1)"
      "gotf drv rd M xs s (dpb_unit d) (fat_sector d (off16 c div 512)) p xs1 s1" using get j by blast
    have f1: "fstep drv rd M xs s xs1 s1" using p(2) by (simp add: gotf_def)
    then have i1: "cache_inv drv rd M xs1 s1" by (simp add: fstep_def)
    note b = holds_flat(1) [OF i1 gotf_holds [OF p(2)] f1 g j u]
    from link16_read [of s1 p "view rd xs s (dpb_unit d)" d c i, OF b i(2) 2] rc i(1) p(1) d 2 f1 show ?thesis
      by (simp add: link_fat_def Let_def fat16_def) blast
  next
    case 3
    obtain i where i: "fat_pos d c = (fat_sector d (off32 c div 512), i)" "unat (i * 4) = off32 c mod 512"
      using fat_pos32 [OF 3 sec c] .
    note j = boff_sectors(3) [OF c 3]
    obtain p xs1 s1 where p: "getFATblock drv dp (fat_sector d (off32 c div 512)) s = Some (Some p, s1)"
      "gotf drv rd M xs s (dpb_unit d) (fat_sector d (off32 c div 512)) p xs1 s1" using get j by blast
    have f1: "fstep drv rd M xs s xs1 s1" using p(2) by (simp add: gotf_def)
    then have i1: "cache_inv drv rd M xs1 s1" by (simp add: fstep_def)
    note b = holds_flat(1) [OF i1 gotf_holds [OF p(2)] f1 g j u]
    from link32_read [of s1 p "view rd xs s (dpb_unit d)" d c i, OF b i(2) 3] rc i(1) p(1) d 3 f1 show ?thesis
      by (simp add: link_fat_def Let_def fat32_def) blast
  qed
qed

end
