(* ===== verification/FatWrite.thy ===== *)
theory FatWrite
  imports FatRead
begin

text \<open>
  Writing entries of the FAT and the free cluster count.
\<close>

subsection \<open>The bytes of an entry\<close>

text \<open>The state after bytes of the table have been written through the cache.\<close>

definition wrote :: "'d driver \<Rightarrow> ('d \<Rightarrow> u16 \<Rightarrow> u8 \<Rightarrow> u32 \<Rightarrow> u8 list) \<Rightarrow> (u8 \<times> u32) set \<Rightarrow> dpb \<Rightarrow>
    u16 list \<Rightarrow> 'd kst \<Rightarrow> u16 list \<Rightarrow> 'd kst \<Rightarrow> fat \<Rightarrow> bool" where
  "wrote drv rd M d xs s xs' s' F \<longleftrightarrow> cache_inv drv rd M xs' s' \<and> set xs' = set xs \<and> same_env s s'
     \<and> (\<forall>v b. drives s v \<noteq> None \<longrightarrow> (v, b) \<notin> M \<longrightarrow> (v, b) \<notin> fat_sectors d \<longrightarrow> view rd xs' s' v b = view rd xs s v b)
     \<and> (\<forall>k. k div 512 \<le> fat_last d \<longrightarrow> flat d (view rd xs' s' (dpb_unit d)) k = F k)"

lemma fstep_wrote:
  assumes "fstep drv rd M xs s xs' s'" "fat_geom M d" "drives s (dpb_unit d) \<noteq> None"
  shows "wrote drv rd M d xs s xs' s' (flat d (view rd xs s (dpb_unit d)))"
  using assms by (auto simp: fstep_def wrote_def fat_geom_def flat_def)

lemma wr_wrote:
  assumes w: "wrote drv rd M d xs s xs' s' F" and h: "holds M xs' s' d p i" and i: "i div 512 \<le> fat_last d"
    and f: "fat12 d \<or> fat16 d \<or> fat32 d"
  shows "wrote drv rd M d xs s xs' (wr p i x s') (F(i := x))" "holds M xs' s' d q k \<Longrightarrow> holds M xs' (wr p i x s') d q k"
proof -
  have inv: "cache_inv drv rd M xs' s'" using w by (simp add: wrote_def)
  note k = wr_ok [OF inv h i f, where x = x]
  show "wrote drv rd M d xs s xs' (wr p i x s') (F(i := x))"
    using w k(1-4) same_env_trans [OF _ k(2), of s] unfolding wrote_def by (auto simp: same_env_def)
  show "holds M xs' s' d q k \<Longrightarrow> holds M xs' (wr p i x s') d q k" by (rule k(5))
qed

lemma upd_buf_upd_buf: "upd_buf p f (upd_buf p g s) = upd_buf p (\<lambda>b. f (g b)) s"
  by (simp add: upd_buf_def)

lemma upd_buf_cong: "f (bufs s p) = g (bufs s p) \<Longrightarrow> upd_buf p f s = upd_buf p g s"
  by (simp add: upd_buf_def)

lemma upd_buf_swap: "p \<noteq> q \<Longrightarrow> upd_buf p f (upd_buf q g s) = upd_buf q g (upd_buf p f s)"
  by (simp add: upd_buf_def fun_upd_twist)

lemma set_dirty_id:
  assumes "fdirty b" "fvalid b"
  shows "set_dirty b = b"
proof -
  have "b_flag b OR (BFR_DIRTY OR BFR_VALID) = b_flag b"
  proof (rule bit_word_eqI)
    fix n show "bit (b_flag b OR (BFR_DIRTY OR BFR_VALID)) n = bit (b_flag b) n"
      using assms by (auto simp: flag_bits)
  qed
  then show ?thesis by (simp add: set_dirty_def)
qed

lemma two_bytes:
  assumes d: "p = q \<or> fdirty (bufs s q) \<and> fvalid (bufs s q)"
  shows "upd_buf p set_dirty (upd_buf q (put_byte (j mod 512) y) (upd_buf p (put_byte (i mod 512) x) s))
    = wr q j y (wr p i x s)"
proof (cases "p = q")
  case True
  then show ?thesis by (simp add: wr_def upd_buf_upd_buf)
next
  case False
  have "upd_buf q (put_byte (j mod 512) y) (upd_buf p (put_byte (i mod 512) x) s)
      = wr q j y (upd_buf p (put_byte (i mod 512) x) s)"
    unfolding wr_def using d False by (intro upd_buf_cong) (simp add: set_dirty_id)
  then show ?thesis using False by (simp add: wr_def upd_buf_swap [of q p] upd_buf_upd_buf)
qed

text \<open>A write of a storable value, up to the free cluster count.\<close>

lemma storable_consts:
  assumes "storable d v" "fat12 d \<or> fat16 d \<or> fat32 d"
  shows "\<not> (v < LONG_BAD \<and> v > max_cluster d)" "v \<noteq> READ_CLUSTER" "\<not> fat32 d \<Longrightarrow> (ucast v :: u16) \<noteq> 1"
proof -
  show "\<not> (v < LONG_BAD \<and> v > max_cluster d)" "v \<noteq> READ_CLUSTER"
    using assms(1) by (auto simp: storable_def fat_consts word_le_nat_alt word_less_nat_alt)
  assume "\<not> fat32 d"
  then have m: "unat (max_cluster d) \<le> 65525" using assms(2) max_cluster12 [of d] max_cluster16 [of d] by auto
  consider "v = 0" | "2 \<le> unat v" "unat v \<le> 65525" | "v = LONG_BAD" | "v = LONG_LAST_CLUSTER"
    using assms(1) m by (auto simp: storable_def FREE_def word_le_nat_alt)
  then show "(ucast v :: u16) \<noteq> 1"
  proof cases
    case 2
    then have "unat (ucast v :: u16) = unat v" by (simp add: unat_ucast_le)
    with 2 show ?thesis by auto
  qed (simp_all add: fat_consts)
qed

lemma word_bytes:
  "even i \<Longrightarrow> upd_buf p set_dirty (upd_buf p (\<lambda>b. b\<lparr>b_buffer := putword (i mod 512) w (b_buffer b)\<rparr>) s)
    = wr p (i + 1) (ucast (drop_bit 8 w)) (wr p i (ucast w) s)"
proof -
  assume "even i"
  then have i: "(i + 1) mod 512 = i mod 512 + 1" using even_sector in_sector(2) by blast
  have "b\<lparr>b_buffer := putword k w (b_buffer b)\<rparr> = put_byte (k + 1) (ucast (drop_bit 8 w)) (put_byte k (ucast w) b)" for b k
    by (simp add: putword_def put_byte_def)
  then show ?thesis unfolding wr_def i by (simp add: upd_buf_upd_buf)
qed

lemma long_bytes:
  "4 dvd i \<Longrightarrow> upd_buf p set_dirty (upd_buf p (\<lambda>b. b\<lparr>b_buffer := putlong (i mod 512) w (b_buffer b)\<rparr>) s)
    = wr p (i + 3) (ucast (drop_bit 8 (ucast (drop_bit 16 w) :: u16))) (wr p (i + 2) (ucast (ucast (drop_bit 16 w) :: u16))
      (wr p (i + 1) (ucast (drop_bit 8 (ucast w :: u16))) (wr p i (ucast (ucast w :: u16)) s)))"
proof -
  assume "4 dvd i"
  then have lt: "i mod 512 + 3 < 512" by (rule quad_sector)
  then have i: "(i + 1) mod 512 = i mod 512 + 1" "(i + 2) mod 512 = i mod 512 + 2" "(i + 3) mod 512 = i mod 512 + 3"
    using in_sector(2) [of i 1] in_sector(2) [of i 2] in_sector(2) [of i 3] by simp_all
  have "b\<lparr>b_buffer := putlong k w (b_buffer b)\<rparr> = put_byte (k + 3) (ucast (drop_bit 8 (ucast (drop_bit 16 w) :: u16)))
      (put_byte (k + 2) (ucast (ucast (drop_bit 16 w) :: u16)) (put_byte (k + 1) (ucast (drop_bit 8 (ucast w :: u16)))
        (put_byte k (ucast (ucast w :: u16)) b)))" for b k
    by (simp add: putlong_def putword_def put_byte_def numeral_3_eq_3)
  then show ?thesis unfolding wr_def i by (simp add: upd_buf_upd_buf)
qed

lemma raw_free: "raw12 F c = 0 \<longleftrightarrow> entry d F c = FREE" if "fat12 d"
  using that by (cases "raw12 F c = 0") (auto simp: entry_def Let_def fat_consts word_le_nat_alt word_unat_eq_iff)

lemma raw_free16: "raw16 F c = 0 \<longleftrightarrow> entry d F c = FREE" if "fat16 d" "\<not> fat12 d"
  using that by (cases "raw16 F c = 0") (auto simp: entry_def Let_def fat_consts word_le_nat_alt word_unat_eq_iff)

lemma link_fat_write:
  assumes "\<not> c \<le> 1" "\<not> c > max_cluster d" "\<not> (v < LONG_BAD \<and> v > max_cluster d)" "dpbs s dp = d"
  shows "link_fat drv dp c v s = (case fat_pos d c of (clussec, idx) \<Rightarrow> do {
        (bp, s1) \<leftarrow> getFATblock drv dp clussec s;
        case bp of
          None \<Rightarrow> Some (1, s1)
        | Some p \<Rightarrow> do {
            (r, s2) \<leftarrow>
              (if ISFAT12 d then link12 drv dp c v clussec idx p s1
               else if ISFAT16 d then Some (link16 v idx p s1)
               else if ISFAT32 d then Some (link32 v idx p s1)
               else Some (Inl 1, s1));
            case r of
              Inl v \<Rightarrow> Some (v, s2)
            | Inr wasfree \<Rightarrow> do {
                s3 \<leftarrow> count_free drv dp v wasfree (upd_buf p set_dirty s2);
                Some (0, s3)
              }
          }
      })"
  using assms unfolding link_fat_def Let_def by (simp only: if_False simp_thms)

lemma link_fat_bytes:
  assumes inv: "cache_inv drv rd M xs s" and d: "dpbs s dp = d" and u: "drives s (dpb_unit d) \<noteq> None"
    and g: "fat_geom M d" and c: "in_fat d c" and two: "2 \<le> length xs" and v: "storable d v"
  defines "F \<equiv> flat d (view rd xs s (dpb_unit d))"
  shows "\<exists>xs' s'. link_fat drv dp c v s = do { s3 \<leftarrow> count_free drv dp v (entry d F c = FREE) s'; Some (0, s3) }
    \<and> wrote drv rd M d xs s xs' s' (put d F c v)"
proof -
  have sec: "dpb_secsize d = 512" and fmt: "fat12 d \<or> fat16 d \<or> fat32 d" using g by (auto simp: fat_geom_def)
  note rc = read_consts(1,2) [OF c] and sc = storable_consts [OF v fmt]
  have get: "\<exists>p xs' s'. getFATblock drv dp (fat_sector d j) s = Some (Some p, s')
      \<and> gotf drv rd M xs s (dpb_unit d) (fat_sector d j) p xs' s'" if "j \<le> fat_last d" for j
    using getFATblock_ok [OF inv d u fat_geom_block [OF g that]] by blast
  from fmt consider "fat12 d" | "fat16 d" | "fat32 d" by blast
  then show ?thesis
  proof cases
    case 1
    have n32: "\<not> fat32 d" using formats 1 by blast
    let ?o = "off12 c"
    obtain i where i: "fat_pos d c = (fat_sector d (?o div 512), i)" "unat (i div 2) = ?o mod 512"
      using fat_pos12 [OF 1 sec c] .
    note j = boff_sectors(1) [OF c 1]
    obtain p xs1 s1 where p: "getFATblock drv dp (fat_sector d (?o div 512)) s = Some (Some p, s1)"
      "gotf drv rd M xs s (dpb_unit d) (fat_sector d (?o div 512)) p xs1 s1" using get j by blast
    from fetch12_ok [OF inv d u g 1 c two p(2) i(2), of v] obtain q xs2 s2 where
      q: "fetch12 drv dp v (fat_sector d (?o div 512)) i p s1 = Some (Some (q, (?o + 1) mod 512), s2)"
      "fstep drv rd M xs s xs2 s2" "holds M xs2 s2 d p ?o" "holds M xs2 s2 d q (?o + 1)"
      "q \<noteq> p \<longrightarrow> fdirty (bufs s2 q)" using sc(2) by blast
    have i2: "cache_inv drv rd M xs2 s2" using q(2) by (simp add: fstep_def)
    note hp = holds_flat(2) [OF i2 q(3,2) g _ u] and hq = holds_flat(2) [OF i2 q(4,2) g _ u]
    define w where "w = join16 (F ?o) (F (?o + 1))"
    define y where "y = pack12 c w v"
    have l12: "link12 drv dp c v (fat_sector d (?o div 512)) i p s1 = Some (Inr (entry d F c = FREE),
        upd_buf q (put_byte ((?o + 1) mod 512) (ucast (drop_bit 8 y))) (upd_buf p (put_byte (?o mod 512) (ucast y)) s2))"
      unfolding link12_fetch using q(1) i(2) hp hq j sc(3) [OF n32] raw_free [OF 1, of F c]
      by (simp add: w_def y_def F_def raw12_def Let_def)
    have dirty: "p = q \<or> fdirty (bufs s2 q) \<and> fvalid (bufs s2 q)" using q(4,5) by (auto simp: holds_def is_block_iff)
    define s3 where "s3 = wr q (?o + 1) (ucast (drop_bit 8 y)) (wr p ?o (ucast y) s2)"
    have "link_fat drv dp c v s = do { s4 \<leftarrow> count_free drv dp v (entry d F c = FREE) s3; Some (0, s4) }"
      using link_fat_write [OF rc sc(1) d, of drv] i(1) p(1) d 1 l12 two_bytes [OF dirty] by (simp add: Let_def fat12_def s3_def)
    moreover have "wrote drv rd M d xs s xs2 s3 (F(?o := ucast y, ?o + 1 := ucast (drop_bit 8 y)))"
      unfolding s3_def F_def using wr_wrote(1) [OF wr_wrote(1) [OF fstep_wrote [OF q(2) g u] q(3) _ fmt]
        wr_wrote(2) [OF fstep_wrote [OF q(2) g u] q(3) _ fmt q(4)] _ fmt] j by blast
    ultimately show ?thesis using 1 by (auto simp: put_def put12_def Let_def w_def y_def)
  next
    case 2
    have n: "\<not> fat12 d" "\<not> fat32 d" using formats [of d] 2 by blast+
    let ?o = "off16 c"
    obtain i where i: "fat_pos d c = (fat_sector d (?o div 512), i)" "unat (i * 2) = ?o mod 512"
      using fat_pos16 [OF 2 sec c] .
    note j = boff_sectors(2) [OF c 2]
    have ev: "even ?o" by (simp add: off16_def)
    then have j1: "(?o + 1) div 512 = ?o div 512" using even_sector in_sector(1) by blast
    obtain p xs1 s1 where p: "getFATblock drv dp (fat_sector d (?o div 512)) s = Some (Some p, s1)"
      "gotf drv rd M xs s (dpb_unit d) (fat_sector d (?o div 512)) p xs1 s1" using get j by blast
    have f1: "fstep drv rd M xs s xs1 s1" using p(2) by (simp add: gotf_def)
    then have i1: "cache_inv drv rd M xs1 s1" by (simp add: fstep_def)
    have h: "holds M xs1 s1 d p ?o" "holds M xs1 s1 d p (?o + 1)" using gotf_holds [OF p(2)] j1 by (simp_all add: holds_def)
    note b = holds_flat(2) [OF i1 h(1) f1 g j u] holds_flat(2) [OF i1 h(2) f1 g _ u]
    have "getword (b_buffer (bufs s1 p)) (?o mod 512) = raw16 F c"
      using b j j1 in_sector(2) [OF even_sector [OF ev]] by (simp add: getword_join raw16_def F_def)
    then have l16: "link16 v i p s1 = (Inr (entry d F c = FREE),
        upd_buf p (\<lambda>b. b\<lparr>b_buffer := putword (?o mod 512) (ucast v) (b_buffer b)\<rparr>) s1)"
      using i(2) sc(3) [OF n(2)] raw_free16 [OF 2 n(1), of F c] by (simp add: link16_def Let_def)
    define s3 where "s3 = wr p (?o + 1) (ucast (drop_bit 8 (ucast v :: u16))) (wr p ?o (ucast (ucast v :: u16)) s1)"
    have "link_fat drv dp c v s = do { s4 \<leftarrow> count_free drv dp v (entry d F c = FREE) s3; Some (0, s4) }"
      using link_fat_write [OF rc sc(1) d, of drv] i(1) p(1) d 2
      l16 by (simp add: word_bytes [OF ev] Let_def fat16_def s3_def)
    moreover have "wrote drv rd M d xs s xs1 s3 (F(?o := ucast (ucast v :: u16), ?o + 1 := ucast (drop_bit 8 (ucast v :: u16))))"
      unfolding s3_def F_def using wr_wrote(1) [OF wr_wrote(1) [OF fstep_wrote [OF f1 g u] h(1) j fmt]
        wr_wrote(2) [OF fstep_wrote [OF f1 g u] h(1) j fmt h(2)] _ fmt] j j1 by simp
    ultimately show ?thesis using 2 n by (auto simp: put_def put16_def)
  next
    case 3
    have n: "\<not> fat12 d" "\<not> fat16 d" using formats [of d] 3 by blast+
    let ?o = "off32 c" and ?w = "v AND LONG_LAST_CLUSTER"
    obtain i where i: "fat_pos d c = (fat_sector d (?o div 512), i)" "unat (i * 4) = ?o mod 512"
      using fat_pos32 [OF 3 sec c] .
    note j = boff_sectors(3) [OF c 3]
    have q4: "4 dvd ?o" by (simp add: off32_def)
    note qs = quad_sector [OF q4]
    have js: "(?o + k) div 512 = ?o div 512" "(?o + k) mod 512 = ?o mod 512 + k" if "k \<le> 3" for k
      using in_sector [of ?o k] qs that by auto
    obtain p xs1 s1 where p: "getFATblock drv dp (fat_sector d (?o div 512)) s = Some (Some p, s1)"
      "gotf drv rd M xs s (dpb_unit d) (fat_sector d (?o div 512)) p xs1 s1" using get j by blast
    have f1: "fstep drv rd M xs s xs1 s1" using p(2) by (simp add: gotf_def)
    then have i1: "cache_inv drv rd M xs1 s1" by (simp add: fstep_def)
    have h: "holds M xs1 s1 d p (?o + k)" if "k \<le> 3" for k using gotf_holds [OF p(2)] js(1) [OF that] by (simp add: holds_def)
    have jl: "(?o + k) div 512 \<le> fat_last d" if "k \<le> 3" for k using j js(1) [OF that] by simp
    have b: "b_buffer (bufs s1 p) ! (?o mod 512 + k) = F (?o + k)" if "k \<le> 3" for k
      using holds_flat(2) [OF i1 h [OF that] f1 g jl [OF that] u] js(2) [OF that] by (simp add: F_def)
    have "getlong (b_buffer (bufs s1 p)) (?o mod 512) AND LONG_LAST_CLUSTER = raw32 F c"
      using b [of 0] b [of 1] b [of 2] b [of 3] by (simp add: getlong_def getword_join raw32_def numeral_3_eq_3)
    then have l32: "link32 v i p s1 = (Inr (entry d F c = FREE),
        upd_buf p (\<lambda>b. b\<lparr>b_buffer := putlong (?o mod 512) ?w (b_buffer b)\<rparr>) s1)"
      using i(2) sc(2) 3 n by (auto simp: link32_def entry_def Let_def fat_consts)
    define s3 where "s3 = wr p (?o + 3) (ucast (drop_bit 8 (ucast (drop_bit 16 ?w) :: u16))) (wr p (?o + 2)
      (ucast (ucast (drop_bit 16 ?w) :: u16)) (wr p (?o + 1) (ucast (drop_bit 8 (ucast ?w :: u16)))
        (wr p ?o (ucast (ucast ?w :: u16)) s1)))"
    have "link_fat drv dp c v s = do { s4 \<leftarrow> count_free drv dp v (entry d F c = FREE) s3; Some (0, s4) }"
      using link_fat_write [OF rc sc(1) d, of drv] i(1) p(1) d 3
      l32 by (simp add: long_bytes [OF q4] Let_def fat32_def s3_def)
    moreover have "wrote drv rd M d xs s xs1 s3 (put32 F c v)"
    proof -
      have keep: "holds M xs1 s' d p (?o + k) \<Longrightarrow> cache_inv drv rd M xs1 s' \<Longrightarrow> holds M xs1 (wr p (?o + l) x s') d p (?o + k)"
        if "k \<le> 3" "l \<le> 3" "holds M xs1 s' d p (?o + l)" for s' k l x
        using wr_ok(5) [OF _ that(3) jl [OF that(2)] fmt] by blast
      have step: "wrote drv rd M d xs s xs1 (wr p (?o + l) x s') (G(?o + l := x)) \<and> (\<forall>k\<le>3. holds M xs1 (wr p (?o + l) x s') d p (?o + k))"
        if "wrote drv rd M d xs s xs1 s' G" "\<forall>k\<le>3. holds M xs1 s' d p (?o + k)" "l \<le> 3" for s' G l x
        using wr_wrote [OF that(1) _ jl [OF that(3)] fmt, of p] that(2,3) by blast
      have h0: "\<forall>k\<le>3. holds M xs1 s1 d p (?o + k)" using h by blast
      note w0 = fstep_wrote [OF f1 g u, folded F_def]
      note a = step [OF w0 h0, of 0 "ucast (ucast ?w :: u16)", simplified]
      note b = step [OF a [THEN conjunct1] a [THEN conjunct2], of 1 "ucast (drop_bit 8 (ucast ?w :: u16))"]
      note c' = step [OF b [THEN conjunct1] b [THEN conjunct2], of 2 "ucast (ucast (drop_bit 16 ?w) :: u16)"]
      note e = step [OF c' [THEN conjunct1] c' [THEN conjunct2], of 3 "ucast (drop_bit 8 (ucast (drop_bit 16 ?w) :: u16))"]
      from e show ?thesis unfolding s3_def put32_def Let_def by simp
    qed
    ultimately show ?thesis using 3 n by (auto simp: put_def)
  qed
qed

subsection \<open>The free cluster count\<close>

lemma cache_inv_upd_dpb:
  assumes inv: "cache_inv drv rd M xs s"
    and f: "dpb_device (f (dpbs s dp)) = dpb_device (dpbs s dp)" "dpb_subunit (f (dpbs s dp)) = dpb_subunit (dpbs s dp)"
      "dpb_xfatsize (f (dpbs s dp)) = dpb_xfatsize (dpbs s dp)"
  shows "cache_inv drv rd M xs (upd_dpb dp f s)" "view rd xs (upd_dpb dp f s) = view rd xs s"
proof -
  let ?t = "upd_dpb dp f s"
  have sel [simp]: "bufs ?t = bufs s" "firstbuf ?t = firstbuf s" "drives ?t = drives s" "device ?t = device s"
    "deblock_buf ?t = deblock_buf s" "bufhigh ?t = bufhigh s" "bufloc_conv ?t = bufloc_conv s"
    by (simp_all add: upd_dpb_def)
  have d: "dpb_device (dpbs ?t q) = dpb_device (dpbs s q)" "dpb_subunit (dpbs ?t q) = dpb_subunit (dpbs s q)"
    "dpb_xfatsize (dpbs ?t q) = dpb_xfatsize (dpbs s q)" for q using f by (auto simp: upd_dpb_def)
  have sec: "sector rd ?t = sector rd s" by (simp add: sector_on_def fun_eq_iff Let_def d)
  have "flush_copies ?t b = flush_copies s b" for b by (simp add: flush_copies_def d)
  then have "extra_blocks ?t b = extra_blocks s b" for b by (simp add: extra_blocks_def)
  then have ok: "buf_ok rd M ?t b = buf_ok rd M s b" for b unfolding buf_ok_def sec by simp
  have "units_ok ?t = units_ok s" by (simp add: units_ok_def d)
  moreover have "ring ?t xs = ring s xs" by (simp add: ring_def)
  ultimately show "cache_inv drv rd M xs ?t" using inv by (simp add: cache_inv_def ok)
  show "view rd xs ?t = view rd xs s" unfolding view_def fun_eq_iff sec unfolding sel by simp
qed

text \<open>The information sector with the values of the drive parameter block.\<close>

definition fsinfo_bytes :: "dpb \<Rightarrow> u8 list \<Rightarrow> u8 list" where
  "fsinfo_bytes d bs = putlong 492 (dpb_xcluster d) (putlong 488 (dpb_xnfreeclst d) bs)"

lemma putword_getword: "i + 1 < length bs \<Longrightarrow> putword i (getword bs i) bs = bs"
  by (simp add: putword_def getword_join join16_lo join16_hi)

lemma getlong_parts:
  "(ucast (getlong bs i) :: u16) = getword bs i" "(ucast (drop_bit 16 (getlong bs i)) :: u16) = getword bs (i + 2)"
  by (rule bit_word_eqI; auto simp: getlong_def bit_simps dest: bit_imp_le_length)+

lemma putlong_getlong: "i + 3 < length bs \<Longrightarrow> putlong i (getlong bs i) bs = bs"
  unfolding putlong_def getlong_parts by (simp add: putword_getword numeral_3_eq_3)

lemma length_putlong [simp]: "length (putlong i w bs) = length bs"
  by (simp add: putlong_def putword_def)

lemma fsinfo_bytes_same:
  assumes "length bs = 512" "getlong bs 488 = dpb_xnfreeclst d" "getlong bs 492 = dpb_xcluster d"
  shows "fsinfo_bytes d bs = bs"
  using putlong_getlong [of 488 bs] putlong_getlong [of 492 bs] assms by (simp add: fsinfo_bytes_def)

definition fsinfo_mark :: "dpb \<Rightarrow> buffer \<Rightarrow> buffer" where
  "fsinfo_mark d b =
     b\<lparr>b_flag := (let f = (b_flag b AND NOT (BFR_DATA OR BFR_DIR OR BFR_FAT)) OR BFR_VALID in
         if getlong (b_buffer b) 488 \<noteq> dpb_xnfreeclst d \<or> getlong (b_buffer b) 492 \<noteq> dpb_xcluster d
         then f OR BFR_DIRTY else f),
       b_buffer := fsinfo_bytes d (b_buffer b)\<rparr>"

lemma fsinfo_mark_sel [simp]:
  "b_next (fsinfo_mark d b) = b_next b" "b_prev (fsinfo_mark d b) = b_prev b" "b_unit (fsinfo_mark d b) = b_unit b"
  "b_blkno (fsinfo_mark d b) = b_blkno b" "b_buffer (fsinfo_mark d b) = fsinfo_bytes d (b_buffer b)"
  "fvalid (fsinfo_mark d b)" "\<not> ffat (fsinfo_mark d b)"
  "fdirty (fsinfo_mark d b) \<longleftrightarrow> fdirty b \<or> getlong (b_buffer b) 488 \<noteq> dpb_xnfreeclst d \<or> getlong (b_buffer b) 492 \<noteq> dpb_xcluster d"
  by (simp_all add: fsinfo_mark_def flag_bits Let_def)

lemma write_fsinfo_mark:
  assumes "getblock drv (ucast (dpb_xfsinfosec d)) (dpb_unit d) s = Some (Some p, s1)" "dpbs s dp = d" "dpbs s1 dp = d"
    "dpb_xfsinfosec d \<noteq> 0xFFFF"
  shows "write_fsinfo drv dp s = Some (upd_buf p (fsinfo_mark d) s1)"
proof -
  have k: "(0x1e4 + 4 :: nat) = 488" "(0x1e4 + 8 :: nat) = 492" by simp_all
  show ?thesis unfolding write_fsinfo_def k using assms
    by (simp add: Let_def upd_buf_upd_buf) (intro conjI impI; rule upd_buf_cong; simp add: fsinfo_mark_def fsinfo_bytes_def)
qed

lemma write_fsinfo_ok:
  assumes inv: "cache_inv drv rd M xs s" and d: "dpbs s dp = d" and u: "drives s (dpb_unit d) \<noteq> None"
    and m: "(dpb_unit d, ucast (dpb_xfsinfosec d)) \<notin> M"
  shows "\<exists>xs' s'. write_fsinfo drv dp s = Some s' \<and> cache_inv drv rd M xs' s' \<and> set xs' = set xs \<and> same_env s s'
    \<and> (\<forall>v b. drives s v \<noteq> None \<longrightarrow> (v, b) \<notin> M \<longrightarrow> view rd xs' s' v b =
        (if dpb_xfsinfosec d \<noteq> 0xFFFF \<and> v = dpb_unit d \<and> b = ucast (dpb_xfsinfosec d)
         then fsinfo_bytes d (view rd xs s v b) else view rd xs s v b))"
proof (cases "dpb_xfsinfosec d = 0xFFFF")
  case True
  then have "write_fsinfo drv dp s = Some s" using d by (simp add: write_fsinfo_def)
  then show ?thesis using inv True by (intro exI [of _ xs] exI [of _ s]) simp
next
  case False
  let ?n = "ucast (dpb_xfsinfosec d) :: u32" and ?u = "dpb_unit d"
  from getblk_ok [OF inv u, of ?n] obtain p xs1 s1 where
    g: "getblk drv ?n ?u False s = Some (Some p, s1)" "got drv rd M xs s ?u ?n p xs1 s1" by blast
  have i1: "cache_inv drv rd M xs1 s1" and st: "set xs1 = set xs" "hd xs1 = p" and ib: "is_block ?n ?u (bufs s1 p)"
    and env: "same_env s s1"
    and vw: "\<And>v b. drives s v \<noteq> None \<Longrightarrow> (v, b) \<notin> M \<Longrightarrow> view rd xs1 s1 v b = view rd xs s v b"
    using g(2) by (auto simp: got_def)
  have p: "p \<in> set xs1" using st i1 by (cases xs1) (auto simp: cache_inv_def ring_def)
  have len: "length (b_buffer (bufs s1 p)) = 512" using i1 p by (simp add: cache_inv_def buf_ok_def)
  have d1: "dpbs s1 dp = d" using env d by (simp add: same_env_def)
  note wf = write_fsinfo_mark [OF g(1) d d1 False]
  let ?b = "fsinfo_mark d (bufs s1 p)"
  have clean: "fdirty ?b \<or> (?u, ?n) \<in> M \<or> b_buffer ?b = sector rd s1 ?u ?n"
  proof (cases "fdirty ?b")
    case F: False
    then have "b_buffer ?b = b_buffer (bufs s1 p)" using fsinfo_bytes_same [OF len] by simp
    moreover have "buf_ok rd M s1 (bufs s1 p)" using i1 p by (simp add: cache_inv_def)
    ultimately show ?thesis using F ib m by (auto simp: buf_ok_def is_block_iff blk_of_def)
  qed simp
  have ib': "is_block ?n ?u ?b" using ib by (simp add: is_block_iff blk_of_def)
  have len': "length (b_buffer ?b) = 512" using len by (simp add: fsinfo_bytes_def)
  note mk = modify_ok [OF i1 p ib refl, of "fsinfo_mark d", simplified, OF ib' len' [simplified] clean [simplified]]
  have "view rd xs1 s1 ?u ?n = b_buffer (bufs s1 p)" using view_hit [OF i1 p ib] .
  then show ?thesis using wf mk st env vw False
    by (intro exI [of _ xs1] exI [of _ "upd_buf p (fsinfo_mark d) s1"]) (auto intro: same_env_trans [OF env])
qed

text \<open>The drive parameter block after a write of \<open>v\<close> over an entry that was or was not free.\<close>

definition counted :: "dpb \<Rightarrow> u32 \<Rightarrow> bool \<Rightarrow> dpb" where
  "counted d v wasfree =
     (if v = FREE \<or> wasfree then
        let adjust = (if \<not> wasfree then 1 else if v \<noteq> FREE then -1 else 0) in
        if ISFAT32 d \<and> dpb_xnfreeclst d \<noteq> XUNKNCLSTFREE then d\<lparr>dpb_xnfreeclst := dpb_xnfreeclst d + adjust\<rparr>
        else if dpb_nfreeclst d \<noteq> UNKNCLSTFREE then set_nfreeclst (dpb_nfreeclst d + ucast adjust) d
        else d
      else d)"

lemma counted_sel [simp]:
  "dpb_unit (counted d v w) = dpb_unit d" "dpb_subunit (counted d v w) = dpb_subunit d"
  "dpb_device (counted d v w) = dpb_device d" "dpb_xfatsize (counted d v w) = dpb_xfatsize d"
  "dpb_xfsinfosec (counted d v w) = dpb_xfsinfosec d" "dpb_fatsize (counted d v w) = dpb_fatsize d"
  "dpb_size (counted d v w) = dpb_size d" "dpb_xsize (counted d v w) = dpb_xsize d" "dpb_secsize (counted d v w) = dpb_secsize d"
  "dpb_fats (counted d v w) = dpb_fats d" "dpb_fatstrt (counted d v w) = dpb_fatstrt d" "dpb_xflags (counted d v w) = dpb_xflags d"
  by (simp_all add: counted_def set_nfreeclst_def Let_def)

lemma fat_of_counted:
  "max_cluster (counted d v w) = max_cluster d" "fat12 (counted d v w) = fat12 d" "fat16 (counted d v w) = fat16 d"
  "fat32 (counted d v w) = fat32 d" "flat (counted d v w) = flat d" "entry (counted d v w) = entry d"
  "fat_geom M (counted d v w) = fat_geom M d" "in_fat (counted d v w) = in_fat d"
proof -
  show f: "max_cluster (counted d v w) = max_cluster d" "fat12 (counted d v w) = fat12 d" "fat16 (counted d v w) = fat16 d"
    "fat32 (counted d v w) = fat32 d"
    by (simp_all add: max_cluster_def fat12_def fat16_def fat32_def ISFAT12_def ISFAT16_def ISFAT32_def)
  have b: "fat_sector (counted d v w) j = fat_sector d j" for j by (simp add: fat_sector_def fat_base_def ISFAT32_def)
  show "flat (counted d v w) = flat d" by (simp add: flat_def fun_eq_iff b)
  show "entry (counted d v w) = entry d" by (simp add: entry_def fun_eq_iff f)
  have "boff (counted d v w) = boff d" by (simp add: boff_def fun_eq_iff f)
  then have "fat_last (counted d v w) = fat_last d" by (simp add: fat_last_def f)
  moreover have "copies (counted d v w) = copies d" "copy_off (counted d v w) = copy_off d"
    by (simp_all add: copies_def copy_off_def ISFAT32_def)
  ultimately show "fat_geom M (counted d v w) = fat_geom M d" by (simp add: fat_geom_def f b)
  show "in_fat (counted d v w) = in_fat d" by (simp add: in_fat_def fun_eq_iff f)
qed

lemma count_free_ok:
  assumes inv: "cache_inv drv rd M xs s" and d: "dpbs s dp = d" and u: "drives s (dpb_unit d) \<noteq> None"
    and m: "(dpb_unit d, ucast (dpb_xfsinfosec d)) \<notin> M"
  shows "\<exists>xs' s'. count_free drv dp v w s = Some s' \<and> cache_inv drv rd M xs' s' \<and> set xs' = set xs
    \<and> same_env (upd_dpb dp (\<lambda>_. counted d v w) s) s'
    \<and> (\<forall>v' b. drives s v' \<noteq> None \<longrightarrow> (v', b) \<notin> M \<longrightarrow>
        (v', b) \<noteq> (dpb_unit d, ucast (dpb_xfsinfosec d)) \<or> dpb_xfsinfosec d = 0xFFFF \<longrightarrow> view rd xs' s' v' b = view rd xs s v' b)"
proof -
  define t where "t = upd_dpb dp (\<lambda>_. counted d v w) s"
  have it: "cache_inv drv rd M xs t" and vt: "view rd xs t = view rd xs s"
    using cache_inv_upd_dpb [OF inv, of "\<lambda>_. counted d v w" dp] d by (simp_all add: t_def)
  have dt: "dpbs t dp = counted d v w" "drives t = drives s" by (simp_all add: t_def upd_dpb_def)
  show ?thesis
  proof (cases "(v = FREE \<or> w) \<and> ISFAT32 d \<and> dpb_xnfreeclst d \<noteq> XUNKNCLSTFREE")
    case True
    then have "count_free drv dp v w s = write_fsinfo drv dp t"
      unfolding t_def d [symmetric] by (simp add: count_free_def Let_def counted_def upd_dpb_def)
    moreover have ut: "drives t (dpb_unit (counted d v w)) \<noteq> None" using u dt(2) by simp
    moreover have mt: "(dpb_unit (counted d v w), ucast (dpb_xfsinfosec (counted d v w))) \<notin> M" using m by simp
    ultimately obtain xs' s' where w: "count_free drv dp v w s = Some s'" "cache_inv drv rd M xs' s'" "set xs' = set xs"
      "same_env t s'" and vw: "\<And>v' b. drives s v' \<noteq> None \<Longrightarrow> (v', b) \<notin> M \<Longrightarrow> view rd xs' s' v' b =
        (if dpb_xfsinfosec d \<noteq> 0xFFFF \<and> v' = dpb_unit d \<and> b = ucast (dpb_xfsinfosec d)
         then fsinfo_bytes (counted d v w) (view rd xs t v' b) else view rd xs t v' b)"
      using write_fsinfo_ok [OF it dt(1) ut mt] by (auto simp: dt(2))
    show ?thesis using w vw vt by (intro exI [of _ xs'] exI [of _ s']) (auto simp: t_def)
  next
    case False
    then have "count_free drv dp v w s = Some t"
      unfolding t_def d [symmetric] by (auto simp: count_free_def Let_def counted_def upd_dpb_def)
    then show ?thesis using it vt by (intro exI [of _ xs] exI [of _ t]) (auto simp: t_def)
  qed
qed

subsection \<open>Writing an entry\<close>

lemma entry_cong:
  assumes c: "in_fat d c" and f: "fat12 d \<or> fat16 d \<or> fat32 d" and eq: "\<And>k. k div 512 \<le> fat_last d \<Longrightarrow> F k = G k"
  shows "entry d F c = entry d G c"
proof -
  have l: "i \<le> (if fat32 d then 3 else 1) \<Longrightarrow> F (boff d c + i) = G (boff d c + i)" for i
    using boff_last [OF c, of "boff d c + i"] eq by auto
  from f consider "fat12 d" | "fat16 d" "\<not> fat12 d" "\<not> fat32 d" | "fat32 d" "\<not> fat12 d" "\<not> fat16 d" using formats by blast
  then show ?thesis
  proof cases
    case 1
    then have "\<not> fat32 d" using formats by blast
    with 1 l [of 0] l [of 1] show ?thesis by (simp add: entry_def boff_def raw12_def Let_def)
  next
    case 2
    with l [of 0] l [of 1] show ?thesis by (simp add: entry_def boff_def raw16_def Let_def)
  next
    case 3
    with l [of 0] l [of 1] l [of 2] l [of 3] show ?thesis by (simp add: entry_def boff_def raw32_def Let_def)
  qed
qed

text \<open>The blocks \<^const>\<open>link_fat\<close> may change.\<close>

definition fat_area :: "dpb \<Rightarrow> (u8 \<times> u32) set" where
  "fat_area d = fat_sectors d \<union> {(dpb_unit d, n) |n. n = ucast (dpb_xfsinfosec d) \<and> dpb_xfsinfosec d \<noteq> 0xFFFF}"

abbreviation fat_of :: "('d \<Rightarrow> u16 \<Rightarrow> u8 \<Rightarrow> u32 \<Rightarrow> u8 list) \<Rightarrow> dpb \<Rightarrow> u16 list \<Rightarrow> 'd kst \<Rightarrow> u32 \<Rightarrow> u32" where
  "fat_of rd d xs s \<equiv> entry d (flat d (view rd xs s (dpb_unit d)))"

lemma link_fat_store:
  assumes inv: "cache_inv drv rd M xs s" and d: "dpbs s dp = d" and u: "drives s (dpb_unit d) \<noteq> None"
    and g: "fat_geom M d" and c: "in_fat d c" and two: "2 \<le> length xs" and v: "storable d v"
  shows "\<exists>xs' s'. link_fat drv dp c v s = Some (0, s') \<and> cache_inv drv rd M xs' s' \<and> set xs' = set xs
    \<and> same_env (upd_dpb dp (\<lambda>_. counted d v (fat_of rd d xs s c = FREE)) s) s'
    \<and> (\<forall>u' b. drives s u' \<noteq> None \<longrightarrow> (u', b) \<notin> M \<longrightarrow> (u', b) \<notin> fat_area d \<longrightarrow> view rd xs' s' u' b = view rd xs s u' b)
    \<and> (\<forall>c'. in_fat d c' \<longrightarrow> fat_of rd d xs' s' c' = (if c' = c then v else fat_of rd d xs s c'))"
proof -
  let ?F = "flat d (view rd xs s (dpb_unit d))" and ?w = "fat_of rd d xs s c = FREE" and ?n = "ucast (dpb_xfsinfosec d) :: u32"
  have fmt: "fat12 d \<or> fat16 d \<or> fat32 d" and m: "(dpb_unit d, ?n) \<notin> M" using g by (auto simp: fat_geom_def)
  obtain xs1 s1 where l: "link_fat drv dp c v s = do { s3 \<leftarrow> count_free drv dp v ?w s1; Some (0, s3) }"
    and w: "wrote drv rd M d xs s xs1 s1 (put d ?F c v)" using link_fat_bytes [OF inv d u g c two v] by blast
  have i1: "cache_inv drv rd M xs1 s1" and st: "set xs1 = set xs" and env: "same_env s s1"
    and vw1: "\<And>v b. drives s v \<noteq> None \<Longrightarrow> (v, b) \<notin> M \<Longrightarrow> (v, b) \<notin> fat_sectors d \<Longrightarrow> view rd xs1 s1 v b = view rd xs s v b"
    and fl1: "\<And>k. k div 512 \<le> fat_last d \<Longrightarrow> flat d (view rd xs1 s1 (dpb_unit d)) k = put d ?F c v k"
    using w by (auto simp: wrote_def)
  have d1: "dpbs s1 dp = d" and dr: "drives s1 = drives s" using env d by (simp_all add: same_env_def)
  have u1: "drives s1 (dpb_unit d) \<noteq> None" using u dr by simp
  obtain xs2 s2 where k: "count_free drv dp v ?w s1 = Some s2" "cache_inv drv rd M xs2 s2" "set xs2 = set xs1"
    "same_env (upd_dpb dp (\<lambda>_. counted d v ?w) s1) s2"
    and vw2: "\<And>v' b. drives s v' \<noteq> None \<Longrightarrow> (v', b) \<notin> M \<Longrightarrow>
        (v', b) \<noteq> (dpb_unit d, ?n) \<or> dpb_xfsinfosec d = 0xFFFF \<Longrightarrow> view rd xs2 s2 v' b = view rd xs1 s1 v' b"
    using count_free_ok [OF i1 d1 u1 m, of v ?w] dr by auto
  have env2: "same_env (upd_dpb dp (\<lambda>_. counted d v ?w) s) s2" using k(4) env by (simp add: same_env_def upd_dpb_def)
  have far: "view rd xs2 s2 u' b = view rd xs s u' b" if "drives s u' \<noteq> None" "(u', b) \<notin> M" "(u', b) \<notin> fat_area d" for u' b
    using vw2 [OF that(1,2)] vw1 [OF that(1,2)] that(3) by (auto simp: fat_area_def)
  have fl2: "flat d (view rd xs2 s2 (dpb_unit d)) k = put d ?F c v k" if "k div 512 \<le> fat_last d" for k
  proof -
    have "(dpb_unit d, fat_sector d (k div 512)) \<notin> M" "dpb_xfsinfosec d \<noteq> 0xFFFF \<longrightarrow> fat_sector d (k div 512) \<noteq> ?n"
      using g that by (auto simp: fat_geom_def)
    then show ?thesis using vw2 [OF u] fl1 [OF that] by (auto simp: flat_def)
  qed
  have "fat_of rd d xs2 s2 c' = (if c' = c then v else fat_of rd d xs s c')" if "in_fat d c'" for c'
    using entry_cong [OF that fmt fl2] entry_put_same [OF fmt v] entry_put_other [of c' c d] by simp
  with l k(1-3) env2 far st show ?thesis by (intro exI [of _ xs2] exI [of _ s2]) auto
qed

subsection \<open>The count\<close>

definition free_known :: "dpb \<Rightarrow> nat option" where
  "free_known d = (if ISFAT32 d then if dpb_xnfreeclst d = XUNKNCLSTFREE then None else Some (unat (dpb_xnfreeclst d))
     else if dpb_nfreeclst d = UNKNCLSTFREE then None else Some (unat (dpb_nfreeclst d)))"

definition free_count :: "dpb \<Rightarrow> (u32 \<Rightarrow> u32) \<Rightarrow> nat" where
  "free_count d E = card {c. in_fat d c \<and> E c = FREE}"

lemma free_count_upd:
  assumes c: "in_fat d c" and E: "\<And>c'. in_fat d c' \<Longrightarrow> E' c' = (if c' = c then v else E c')"
  shows "free_count d E' + (if E c = FREE then 1 else 0) = free_count d E + (if v = FREE then 1 else 0)"
proof -
  let ?A = "{c'. in_fat d c' \<and> c' \<noteq> c \<and> E c' = FREE}"
  have fin: "finite ?A" by simp
  have "{c'. in_fat d c' \<and> E c' = FREE} = (if E c = FREE then insert c ?A else ?A)"
    "{c'. in_fat d c' \<and> E' c' = FREE} = (if v = FREE then insert c ?A else ?A)" using c E by (auto split: if_splits)
  then show ?thesis by (simp add: free_count_def)
qed

lemma free_count_less:
  assumes f: "fat12 d \<or> fat16 d \<or> fat32 d" and c: "\<exists>c. in_fat d c"
  shows "free_count d E < (if ISFAT32 d then 4294967295 else 65535)"
proof -
  have "{c. in_fat d c \<and> E c = FREE} \<subseteq> {2..max_cluster d}" by (auto simp: in_fat_def)
  then have "free_count d E \<le> card {2..max_cluster d}" unfolding free_count_def by (intro card_mono) simp_all
  also have "\<dots> = card (unat ` {2..max_cluster d})" by (rule card_image [symmetric]) (simp add: inj_on_def word_unat_eq_iff)
  also have "\<dots> \<le> card {2..unat (max_cluster d)}" by (intro card_mono) (auto simp: word_le_nat_alt)
  also have "\<dots> = unat (max_cluster d) - 1" by simp
  finally have "free_count d E \<le> unat (max_cluster d) - 1" .
  moreover have "unat (max_cluster d) < 4294967296" using unsigned_less [of "max_cluster d", where ?'a = nat] by simp
  moreover have "\<not> ISFAT32 d \<Longrightarrow> unat (max_cluster d) \<le> 65535"
    using unsigned_less [of "dpb_size d", where ?'a = nat] by (simp add: max_cluster_def unat_ucast16_32 less_Suc_eq_le [symmetric])
  moreover have "2 \<le> unat (max_cluster d)" using c by (auto simp: in_fat_def word_le_nat_alt)
  ultimately show ?thesis by (auto split: if_splits)
qed

lemma nfreeclst_set: "dpb_nfreeclst (set_nfreeclst k d) = k"
proof -
  have m: "(0xFFFF0000 :: u32) = push_bit 16 (mask 16)" by (simp add: mask_eq_exp_minus_1)
  show ?thesis unfolding dpb_nfreeclst_def set_nfreeclst_def m
    by (rule bit_word_eqI) (auto simp: bit_simps)
qed

lemma step_count:
  fixes x :: "'a :: len word"
  assumes "unat x = n" "n' + (if w then 1 else 0) = n + (if f then 1 else 0)" "n' < 2 ^ LENGTH('a) - 1" "f \<or> w"
  shows "unat (x + (if \<not> w then 1 else if \<not> f then -1 else 0)) = n'"
proof -
  consider "\<not> w" "f" "n' = n + 1" | "w" "\<not> f" "n = n' + 1" | "w" "f" "n' = n" using assms(2,4) by (auto split: if_splits)
  then show ?thesis
  proof cases
    case 1
    with assms show ?thesis by (simp add: unat_word_ariths)
  next
    case 2
    have "1 \<le> x" using 2 assms(1) by (auto simp: word_le_nat_alt)
    then have "unat (x - 1) = unat x - 1" by (simp add: unat_sub)
    with 2 assms(1) show ?thesis by simp
  qed (use assms in simp)
qed

lemma counted_known:
  assumes k: "free_known d = Some n" and n': "n' + (if w then 1 else 0) = n + (if v = FREE then 1 else 0)"
    and b: "n' < (if ISFAT32 d then 4294967295 else 65535)"
  shows "free_known (counted d v w) = Some n'"
proof (cases "v = FREE \<or> w")
  case False
  with k n' show ?thesis by (simp add: counted_def)
next
  case True
  have i32: "ISFAT32 (counted d v w) = ISFAT32 d" by (simp add: ISFAT32_def)
  let ?a = "if \<not> w then 1 else if v \<noteq> FREE then -1 else 0 :: u32"
  show ?thesis
  proof (cases "ISFAT32 d")
    case 32: True
    have x: "unat (dpb_xnfreeclst d) = n" "dpb_xnfreeclst d \<noteq> XUNKNCLSTFREE" using k 32 by (auto simp: free_known_def split: if_splits)
    have e: "unat (dpb_xnfreeclst (counted d v w)) = n'" using step_count [OF x(1) n'] b True 32 x(2)
      by (simp add: counted_def Let_def)
    then have "dpb_xnfreeclst (counted d v w) \<noteq> XUNKNCLSTFREE" using b 32 by (auto simp: XUNKNCLSTFREE_def)
    with e 32 show ?thesis by (simp add: free_known_def i32)
  next
    case 16: False
    have x: "unat (dpb_nfreeclst d) = n" "dpb_nfreeclst d \<noteq> UNKNCLSTFREE" using k 16 by (auto simp: free_known_def split: if_splits)
    have a: "(ucast ?a :: u16) = (if \<not> w then 1 else if v \<noteq> FREE then -1 else 0)" by (simp flip: mask_full add: unsigned_minus_1_eq_mask bit_eq_iff [where ?'a = u16] bit_simps)
    have c: "dpb_nfreeclst (counted d v w) = dpb_nfreeclst d + ucast ?a"
      using True 16 x(2) by (simp add: counted_def Let_def nfreeclst_set)
    have e: "unat (dpb_nfreeclst (counted d v w)) = n'" unfolding c a using step_count [OF x(1) n'] b True 16 by simp
    then have "dpb_nfreeclst (counted d v w) \<noteq> UNKNCLSTFREE" using b 16 by (auto simp: UNKNCLSTFREE_def)
    with e 16 show ?thesis by (simp add: free_known_def i32)
  qed
qed

end
