(* ===== verification/FatIface.thy ===== *)
theory FatIface
  imports FatWrite FatClus
begin

text \<open>
  What the file system relies on when it uses the file allocation table, as an interface: a table of
  entries for a set of clusters, operations that read an entry, follow a chain, test for a free entry
  and write an entry, and operations that change nothing of the table. Searching for a free cluster,
  counting them, following and releasing chains are proved correct from the interface alone. It is
  interpreted on \<^verbatim>\<open>fattab.c\<close> over the block cache, for every disk driver and every drive.
\<close>

subsection \<open>The state of a drive\<close>

text \<open>The geometry of a drive: its parameters without the free cluster count and the two hints.\<close>

definition geom :: "dpb \<Rightarrow> dpb" where
  "geom d = d\<lparr>dpb_xnfreeclst := 0, dpb_xcluster := 0, dpb_cluster := 0\<rparr>"

lemma geom_sel [simp]:
  "dpb_unit (geom d) = dpb_unit d" "dpb_subunit (geom d) = dpb_subunit d" "dpb_device (geom d) = dpb_device d"
  "dpb_xfatsize (geom d) = dpb_xfatsize d" "dpb_xfsinfosec (geom d) = dpb_xfsinfosec d" "dpb_fatsize (geom d) = dpb_fatsize d"
  "dpb_size (geom d) = dpb_size d" "dpb_xsize (geom d) = dpb_xsize d" "dpb_secsize (geom d) = dpb_secsize d"
  "dpb_fats (geom d) = dpb_fats d" "dpb_fatstrt (geom d) = dpb_fatstrt d" "dpb_xflags (geom d) = dpb_xflags d"
  "ISFAT32 (geom d) = ISFAT32 d"
  by (simp_all add: geom_def ISFAT32_def)

lemma geom_fat [simp]:
  "max_cluster (geom d) = max_cluster d" "fat12 (geom d) = fat12 d" "fat16 (geom d) = fat16 d" "fat32 (geom d) = fat32 d"
  "flat (geom d) = flat d" "entry (geom d) = entry d" "fat_geom M (geom d) = fat_geom M d" "in_fat (geom d) = in_fat d"
  "storable (geom d) = storable d" "fat_area (geom d) = fat_area d"
proof -
  show f: "max_cluster (geom d) = max_cluster d" "fat12 (geom d) = fat12 d" "fat16 (geom d) = fat16 d" "fat32 (geom d) = fat32 d"
    by (simp_all add: max_cluster_def fat12_def fat16_def fat32_def ISFAT12_def ISFAT16_def)
  have b: "fat_sector (geom d) j = fat_sector d j" for j by (simp add: fat_sector_def fat_base_def)
  show "flat (geom d) = flat d" by (simp add: flat_def fun_eq_iff b)
  show "entry (geom d) = entry d" by (simp add: entry_def fun_eq_iff f)
  have "boff (geom d) = boff d" by (simp add: boff_def fun_eq_iff f)
  then have l: "fat_last (geom d) = fat_last d" by (simp add: fat_last_def f)
  have "copies (geom d) = copies d" "copy_off (geom d) = copy_off d" by (simp_all add: copies_def copy_off_def)
  with l show "fat_geom M (geom d) = fat_geom M d" by (simp add: fat_geom_def f b)
  show "in_fat (geom d) = in_fat d" by (simp add: in_fat_def fun_eq_iff f)
  show "storable (geom d) = storable d" by (simp add: storable_def fun_eq_iff f)
  show "fat_area (geom d) = fat_area d" by (simp add: fat_area_def fat_sectors_def l b)
qed

lemma geom_eq:
  assumes "geom d = geom g"
  shows "dpb_unit d = dpb_unit g" "ISFAT32 d = ISFAT32 g" "max_cluster d = max_cluster g" "flat d = flat g" "entry d = entry g"
    "fat_geom M d = fat_geom M g" "in_fat d = in_fat g" "storable d = storable g" "fat_area d = fat_area g"
    "dpb_xfsinfosec d = dpb_xfsinfosec g" "dpb_device d = dpb_device g" "dpb_subunit d = dpb_subunit g"
    "dpb_xfatsize d = dpb_xfatsize g" "dpb_xsize d = dpb_xsize g" "dpb_size d = dpb_size g"
  using assms geom_sel [where d = d] geom_sel [where d = g] geom_fat [where d = d] geom_fat [where d = g] by metis+

text \<open>Where the search for a free cluster starts; zero when it is not known.\<close>

definition hint :: "dpb \<Rightarrow> u32" where
  "hint d = (if ISFAT32 d then dpb_xcluster d else ucast (dpb_cluster d))"

text \<open>The table through the cache, which holds the buffers \<open>X\<close>; it does not depend on their order.\<close>

definition fat_at :: "('d \<Rightarrow> u16 \<Rightarrow> u8 \<Rightarrow> u32 \<Rightarrow> u8 list) \<Rightarrow> u16 set \<Rightarrow> dpb \<Rightarrow> 'd kst \<Rightarrow> u32 \<Rightarrow> u32" where
  "fat_at rd X g s c = (if in_fat g c then fat_of rd g (sorted_list_of_set X) s c else FREE)"

text \<open>
  A block as the file system sees it, and the state of a drive: the cache is sound, the hint and the
  free count agree with the table, and every block outside the table and the information sector has
  the contents \<open>V\<close>.
\<close>

definition block_at :: "('d \<Rightarrow> u16 \<Rightarrow> u8 \<Rightarrow> u32 \<Rightarrow> u8 list) \<Rightarrow> u16 set \<Rightarrow> 'd kst \<Rightarrow> u8 \<Rightarrow> u32 \<Rightarrow> u8 list" where
  "block_at rd X s = view rd (sorted_list_of_set X) s"

definition rest_ok :: "('d \<Rightarrow> u16 \<Rightarrow> u8 \<Rightarrow> u32 \<Rightarrow> u8 list) \<Rightarrow> (u8 \<times> u32) set \<Rightarrow> u16 set \<Rightarrow> (u8 \<Rightarrow> u32 \<Rightarrow> u8 list) \<Rightarrow> dpb \<Rightarrow> 'd kst \<Rightarrow> bool" where
  "rest_ok rd M X V g s \<longleftrightarrow> (\<forall>u b. drives s u \<noteq> None \<longrightarrow> (u, b) \<notin> M \<longrightarrow> (u, b) \<notin> fat_area g \<longrightarrow> block_at rd X s u b = V u b)"

definition fat_ok :: "'d driver \<Rightarrow> ('d \<Rightarrow> u16 \<Rightarrow> u8 \<Rightarrow> u32 \<Rightarrow> u8 list) \<Rightarrow> (u8 \<times> u32) set \<Rightarrow> u16 set \<Rightarrow>
    (u8 \<Rightarrow> u32 \<Rightarrow> u8 list) \<Rightarrow> u16 \<Rightarrow> dpb \<Rightarrow> 'd kst \<Rightarrow> bool" where
  "fat_ok drv rd M X V dp g s \<longleftrightarrow>
     (\<exists>xs. cache_inv drv rd M xs s \<and> set xs = X \<and> 2 \<le> length xs)
     \<and> fat_geom M g \<and> geom (dpbs s dp) = geom g \<and> drives s (dpb_unit g) \<noteq> None
     \<and> (hint (dpbs s dp) = 0 \<or> in_fat g (hint (dpbs s dp)))
     \<and> (\<forall>n. free_known (dpbs s dp) = Some n \<longrightarrow> n = free_count g (fat_at rd X g s)) \<and> rest_ok rd M X V g s"

lemma view_set:
  assumes inv: "cache_inv drv rd M xs s" and ys: "set ys = set xs"
  shows "view rd ys s u b = view rd xs s u b"
proof (cases "\<exists>p \<in> set xs. is_block b u (bufs s p)")
  case True
  then obtain q where q: "find (\<lambda>p. is_block b u (bufs s p)) ys = Some q"
    using ys by (cases "find (\<lambda>p. is_block b u (bufs s p)) ys") (auto simp: find_None_iff)
  from find_Some_iff2 [OF q] ys have "q \<in> set xs" "is_block b u (bufs s q)" by auto
  from view_hit [OF inv this] q show ?thesis by (simp add: view_def)
next
  case False
  then show ?thesis using ys by (simp add: view_miss)
qed

lemma fat_at_ring: "cache_inv drv rd M xs s \<Longrightarrow> in_fat g c \<Longrightarrow> fat_at rd (set xs) g s c = fat_of rd g xs s c"
proof -
  assume inv: "cache_inv drv rd M xs s" and c: "in_fat g c"
  have "set (sorted_list_of_set (set xs)) = set xs" by simp
  from view_set [OF inv this] have "view rd (sorted_list_of_set (set xs)) s u = view rd xs s u" for u by (simp add: fun_eq_iff)
  with c show ?thesis by (simp add: fat_at_def)
qed

lemma block_at_ring: "cache_inv drv rd M xs s \<Longrightarrow> block_at rd (set xs) s = view rd xs s"
  unfolding block_at_def by (intro ext) (rule view_set, auto)

lemma rest_ok_step:
  assumes "rest_ok rd M X V g s" "cache_inv drv rd M xs s" "set xs = X" "cache_inv drv rd M xs' s'" "set xs' = set xs" "drives s' = drives s"
    "\<And>u b. drives s u \<noteq> None \<Longrightarrow> (u, b) \<notin> M \<Longrightarrow> (u, b) \<notin> fat_area g \<Longrightarrow> view rd xs' s' u b = view rd xs s u b"
  shows "rest_ok rd M X V g s'"
  using assms block_at_ring [OF assms(2)] block_at_ring [OF assms(4)] by (simp add: rest_ok_def)

lemma fat_okE:
  assumes "fat_ok drv rd M X V dp g s"
  obtains xs where "cache_inv drv rd M xs s" "set xs = X" "2 \<le> length xs" "\<And>c. in_fat g c \<Longrightarrow> fat_at rd X g s c = fat_of rd g xs s c"
  using assms fat_at_ring unfolding fat_ok_def by blast

lemma fat_ok_sel:
  assumes "fat_ok drv rd M X V dp g s"
  shows "fat_geom M g" "geom (dpbs s dp) = geom g" "drives s (dpb_unit g) \<noteq> None"
    "hint (dpbs s dp) = 0 \<or> in_fat g (hint (dpbs s dp))"
    "free_known (dpbs s dp) = Some n \<Longrightarrow> n = free_count g (fat_at rd X g s)"
    "fat12 g \<or> fat16 g \<or> fat32 g" "rest_ok rd M X V g s"
  using assms unfolding fat_ok_def fat_geom_def by blast+

lemma ring_lengths: "cache_inv drv rd M xs s \<Longrightarrow> cache_inv drv rd M xs' s' \<Longrightarrow> set xs' = set xs \<Longrightarrow> length xs' = length xs"
  using distinct_card [of xs] distinct_card [of xs'] by (simp add: cache_inv_def ring_def)

lemma fat_outside [simp]: "\<not> in_fat g c \<Longrightarrow> fat_at rd X g s c = FREE"
  by (simp add: fat_at_def)

text \<open>A step of the cache that leaves the table and the parameters of the drive alone.\<close>

lemma fat_keep_table:
  assumes ok: "fat_ok drv rd M X V dp g s" and xs: "cache_inv drv rd M xs s" "set xs = X"
    and inv: "cache_inv drv rd M xs' s'" "set xs' = set xs" and dr: "drives s' = drives s"
    and d: "geom (dpbs s' dp) = geom g" "hint (dpbs s' dp) = 0 \<or> in_fat g (hint (dpbs s' dp))"
      "\<And>n. free_known (dpbs s' dp) = Some n \<Longrightarrow> n = free_count g (fat_at rd X g s)"
    and v: "\<And>j. j \<le> fat_last g \<Longrightarrow> view rd xs' s' (dpb_unit g) (fat_sector g j) = view rd xs s (dpb_unit g) (fat_sector g j)"
    and rest: "rest_ok rd M X V' g s'"
  shows "fat_ok drv rd M X V' dp g s'" "fat_at rd X g s' = fat_at rd X g s"
proof -
  note k = fat_ok_sel [OF ok]
  show eq: "fat_at rd X g s' = fat_at rd X g s"
  proof
    fix c
    show "fat_at rd X g s' c = fat_at rd X g s c"
    proof (cases "in_fat g c")
      case True
      have "fat_of rd g xs' s' c = fat_of rd g xs s c" by (rule entry_cong [OF True k(6)]) (simp add: flat_def v)
      with fat_at_ring [OF inv(1) True] fat_at_ring [OF xs(1) True] inv(2) xs(2) show ?thesis by simp
    qed simp
  qed
  have "2 \<le> length xs" using ok xs ring_lengths unfolding fat_ok_def by metis
  then have "2 \<le> length xs'" using ring_lengths [OF xs(1) inv(1)] inv(2) by simp
  then show "fat_ok drv rd M X V' dp g s'" unfolding fat_ok_def eq using rest inv xs(2) d dr k(1,3) by auto
qed

lemma fat_keep:
  assumes ok: "fat_ok drv rd M X V dp g s" and xs: "cache_inv drv rd M xs s" "set xs = X"
    and inv: "cache_inv drv rd M xs' s'" "set xs' = set xs" and dr: "drives s' = drives s"
    and d: "geom (dpbs s' dp) = geom g" "hint (dpbs s' dp) = 0 \<or> in_fat g (hint (dpbs s' dp))"
      "\<And>n. free_known (dpbs s' dp) = Some n \<Longrightarrow> n = free_count g (fat_at rd X g s)"
    and v: "\<And>j. j \<le> fat_last g \<Longrightarrow> view rd xs' s' (dpb_unit g) (fat_sector g j) = view rd xs s (dpb_unit g) (fat_sector g j)"
    and w: "\<And>u b. drives s u \<noteq> None \<Longrightarrow> (u, b) \<notin> M \<Longrightarrow> (u, b) \<notin> fat_area g \<Longrightarrow> view rd xs' s' u b = view rd xs s u b"
  shows "fat_ok drv rd M X V dp g s'" "fat_at rd X g s' = fat_at rd X g s"
  using fat_keep_table [OF ok xs inv dr d v rest_ok_step [OF fat_ok_sel(7) [OF ok] xs inv dr w]] by blast+

lemma fat_fstep:
  assumes ok: "fat_ok drv rd M X V dp g s" and xs: "cache_inv drv rd M xs s" "set xs = X" and st: "fstep drv rd M xs s xs' s'"
  shows "fat_ok drv rd M X V dp g s'" "fat_at rd X g s' = fat_at rd X g s"
proof -
  note k = fat_ok_sel [OF ok]
  have s: "cache_inv drv rd M xs' s'" "set xs' = set xs" "drives s' = drives s" "dpbs s' = dpbs s"
    "\<And>v b. drives s v \<noteq> None \<Longrightarrow> (v, b) \<notin> M \<Longrightarrow> view rd xs' s' v b = view rd xs s v b"
    using st by (auto simp: fstep_def same_env_def)
  have v: "view rd xs' s' (dpb_unit g) (fat_sector g j) = view rd xs s (dpb_unit g) (fat_sector g j)" if "j \<le> fat_last g" for j
    using s(5) [OF k(3)] k(1) that by (auto simp: fat_geom_def)
  note kp = fat_keep [OF ok xs s(1,2,3)]
  show "fat_ok drv rd M X V dp g s'" using kp(1) k v s(4,5) by simp
  show "fat_at rd X g s' = fat_at rd X g s" using kp(2) k v s(4,5) by simp
qed

lemma message_sel [simp]:
  "dpbs (clusterMessage m c s) = dpbs s" "drives (clusterMessage m c s) = drives s"
  by (simp_all add: clusterMessage_def)

lemma cache_inv_message:
  "cache_inv drv rd M xs (clusterMessage m c s) = cache_inv drv rd M xs s" "view rd xs (clusterMessage m c s) = view rd xs s"
proof -
  have sec: "sector rd (clusterMessage m c s) = sector rd s" by (simp add: clusterMessage_def sector_on_def fun_eq_iff Let_def)
  have sel: "bufs (clusterMessage m c s) = bufs s" "firstbuf (clusterMessage m c s) = firstbuf s"
    "deblock_buf (clusterMessage m c s) = deblock_buf s" by (simp_all add: clusterMessage_def)
  show "view rd xs (clusterMessage m c s) = view rd xs s" by (simp only: view_def fun_eq_iff sec sel) simp
  have "flush_copies (clusterMessage m c s) b = flush_copies s b" for b by (simp add: flush_copies_def)
  then have "buf_ok rd M (clusterMessage m c s) b = buf_ok rd M s b" for b by (simp add: buf_ok_def sec extra_blocks_def)
  then show "cache_inv drv rd M xs (clusterMessage m c s) = cache_inv drv rd M xs s"
    by (simp add: cache_inv_def ring_def units_ok_def sel)
qed

lemma fat_message:
  "fat_at rd X g (clusterMessage m c s) = fat_at rd X g s" "fat_ok drv rd M X V dp g (clusterMessage m c s) = fat_ok drv rd M X V dp g s"
proof -
  show "fat_at rd X g (clusterMessage m c s) = fat_at rd X g s" by (simp add: fat_at_def cache_inv_message fun_eq_iff)
  then show "fat_ok drv rd M X V dp g (clusterMessage m c s) = fat_ok drv rd M X V dp g s"
    by (simp add: fat_ok_def cache_inv_message rest_ok_def block_at_def)
qed

subsection \<open>Reading, following, testing\<close>

lemma fat_read:
  assumes ok: "fat_ok drv rd M X V dp g s" and c: "in_fat g c"
  shows "\<exists>s'. link_fat drv dp c READ_CLUSTER s = Some (fat_at rd X g s c, s') \<and> fat_ok drv rd M X V dp g s'
    \<and> fat_at rd X g s' = fat_at rd X g s"
proof -
  obtain xs where xs: "cache_inv drv rd M xs s" "set xs = X" "2 \<le> length xs" and at: "\<And>c. in_fat g c \<Longrightarrow> fat_at rd X g s c = fat_of rd g xs s c"
    using fat_okE [OF ok] by metis
  note k = fat_ok_sel [OF ok] and e = geom_eq [OF fat_ok_sel(2) [OF ok]]
  obtain xs' s' where l: "link_fat drv dp c READ_CLUSTER s = Some (fat_of rd (dpbs s dp) xs s c, s')" "fstep drv rd M xs s xs' s'"
    using link_fat_read [OF xs(1) refl, of dp c] k(1,3) c xs(3) e by auto
  moreover have "fat_of rd (dpbs s dp) xs s c = fat_at rd X g s c" using at [OF c] e by simp
  ultimately show ?thesis using fat_fstep [OF ok xs(1,2) l(2)] by auto
qed

lemma link_fat_outside: "\<not> in_fat (dpbs s dp) c \<Longrightarrow> link_fat drv dp c v s = Some (1, clusterMessage ''index: 0x'' c s)"
proof -
  assume "\<not> in_fat (dpbs s dp) c"
  then have "c \<le> 1 \<or> c > max_cluster (dpbs s dp)" by (auto simp: in_fat_def word_le_nat_alt word_less_nat_alt)
  then show ?thesis by (simp add: link_fat_def Let_def)
qed

text \<open>The cluster that \<^const>\<open>next_cluster\<close> returns, as a function of the table: the entry, unless it leads to a free one.\<close>

definition chain_next :: "dpb \<Rightarrow> (u32 \<Rightarrow> u32) \<Rightarrow> u32 \<Rightarrow> u32" where
  "chain_next g E c =
     (if E c < 2 \<or> E c \<ge> LONG_BAD then E c
      else if \<not> in_fat g (E c) \<or> E (E c) < 2 \<or> E (E c) < LONG_BAD \<and> E (E c) > max_cluster g then 1 else E c)"

lemma fat_next:
  assumes ok: "fat_ok drv rd M X V dp g s" and c: "in_fat g c"
  shows "\<exists>s'. next_cluster drv dp c s = Some (chain_next g (fat_at rd X g s) c, s') \<and> fat_ok drv rd M X V dp g s'
    \<and> fat_at rd X g s' = fat_at rd X g s"
proof -
  let ?E = "fat_at rd X g s"
  obtain s1 where s1: "link_fat drv dp c READ_CLUSTER s = Some (?E c, s1)" "fat_ok drv rd M X V dp g s1" "fat_at rd X g s1 = ?E"
    using fat_read [OF ok c] by blast
  note e = geom_eq [OF fat_ok_sel(2) [OF s1(2)]]
  show ?thesis
  proof (cases "?E c < 2 \<or> ?E c \<ge> LONG_BAD")
    case True
    then have "next_cluster drv dp c s = Some (?E c, s1)" by (auto simp: next_cluster_def s1(1))
    with True s1 show ?thesis by (simp add: chain_next_def)
  next
    case False
    show ?thesis
    proof (cases "in_fat g (?E c)")
      case True
      obtain s2 where s2: "link_fat drv dp (?E c) READ_CLUSTER s1 = Some (?E (?E c), s2)" "fat_ok drv rd M X V dp g s2" "fat_at rd X g s2 = ?E"
        using fat_read [OF s1(2) True] s1(3) by auto
      show ?thesis using False True s1 s2 e
        by (auto simp: next_cluster_def chain_next_def Let_def fat_message)
    next
      case out: False
      then have "link_fat drv dp (?E c) READ_CLUSTER s1 = Some (1, clusterMessage ''index: 0x'' (?E c) s1)"
        by (intro link_fat_outside) (simp add: e)
      then show ?thesis using False out s1 e
        by (auto simp: next_cluster_def chain_next_def Let_def fat_message)
    qed
  qed
qed

lemma fat_free:
  assumes "fat_ok drv rd M X V dp g s" "in_fat g c"
  shows "\<exists>s'. is_free_cluster drv dp c s = Some (fat_at rd X g s c = FREE, s') \<and> fat_ok drv rd M X V dp g s'
    \<and> fat_at rd X g s' = fat_at rd X g s"
  using fat_read [OF assms] by (auto simp: is_free_cluster_def)

subsection \<open>Writing\<close>

lemma counted_geom [simp]: "geom (counted d v w) = geom d" "hint (counted d v w) = hint d"
  by (simp_all add: counted_def geom_def hint_def set_nfreeclst_def Let_def ISFAT32_def)

lemma counted_unknown: "free_known d = None \<Longrightarrow> free_known (counted d v w) = None"
  by (auto simp: free_known_def counted_def Let_def dpb_nfreeclst_def XUNKNCLSTFREE_def UNKNCLSTFREE_def split: if_splits)

lemma free_count_cong: "(\<And>c. in_fat g c \<Longrightarrow> E c = E' c) \<Longrightarrow> free_count g E = free_count g E'"
  unfolding free_count_def by (rule arg_cong [of _ _ card]) auto

lemma fat_write:
  assumes ok: "fat_ok drv rd M X V dp g s" and c: "in_fat g c" and v: "storable g v"
  shows "\<exists>s'. link_fat drv dp c v s = Some (0, s') \<and> fat_ok drv rd M X V dp g s'
    \<and> fat_at rd X g s' = (fat_at rd X g s)(c := v)"
proof -
  obtain xs where xs: "cache_inv drv rd M xs s" "set xs = X" "2 \<le> length xs" and at: "\<And>c. in_fat g c \<Longrightarrow> fat_at rd X g s c = fat_of rd g xs s c"
    using fat_okE [OF ok] by metis
  let ?d = "dpbs s dp"
  note k = fat_ok_sel [OF ok] and e = geom_eq [OF fat_ok_sel(2) [OF ok]]
  let ?w = "fat_at rd X g s c = FREE"
  obtain xs' s' where l: "link_fat drv dp c v s = Some (0, s')" "cache_inv drv rd M xs' s'" "set xs' = set xs"
    "same_env (upd_dpb dp (\<lambda>_. counted ?d v ?w) s) s'"
    and f: "\<And>c'. in_fat g c' \<Longrightarrow> fat_of rd g xs' s' c' = (if c' = c then v else fat_of rd g xs s c')"
    and far: "\<And>u b. drives s u \<noteq> None \<Longrightarrow> (u, b) \<notin> M \<Longrightarrow> (u, b) \<notin> fat_area g \<Longrightarrow> view rd xs' s' u b = view rd xs s u b"
    using link_fat_store [OF xs(1) refl, of dp c v] k(1,3) c v xs(3) e at [OF c] by auto
  have env: "dpbs s' dp = counted ?d v ?w" "drives s' = drives s" using l(4) by (simp_all add: same_env_def upd_dpb_def)
  have E: "fat_at rd X g s' = (fat_at rd X g s)(c := v)"
  proof
    fix c'
    show "fat_at rd X g s' c' = ((fat_at rd X g s)(c := v)) c'"
      using f [of c'] at [of c'] fat_at_ring [OF l(2), of g c'] l(3) xs(2) c by (cases "in_fat g c'") auto
  qed
  have len: "2 \<le> length xs'" using ring_lengths [OF xs(1) l(2,3)] xs(3) by simp
  have cnt: "n = free_count g (fat_at rd X g s')" if n: "free_known (dpbs s' dp) = Some n" for n
  proof -
    obtain m where m: "free_known ?d = Some m" using n counted_unknown [of ?d v ?w] unfolding env by (cases "free_known ?d") auto
    have fc: "free_count g (fat_at rd X g s') + (if ?w then 1 else 0) = m + (if v = FREE then 1 else 0)"
      using free_count_upd [OF c, of "fat_at rd X g s'" v "fat_at rd X g s"] k(5) [OF m] by (simp add: E)
    have "free_count g (fat_at rd X g s') < (if ISFAT32 g then 4294967295 else 65535)" using free_count_less [OF k(6)] c by blast
    then have "free_known (counted ?d v ?w) = Some (free_count g (fat_at rd X g s'))"
      using counted_known [OF m fc] e(2) by simp
    with n show ?thesis unfolding env by simp
  qed
  have "rest_ok rd M X V g s'" using rest_ok_step [OF k(7) xs(1,2) l(2,3) env(2) far] .
  then have "fat_ok drv rd M X V dp g s'" unfolding fat_ok_def using l(2,3) xs(2) len k(1-4) env cnt by auto
  with l(1) E show ?thesis by blast
qed

text \<open>Operations that change the hint or the information sector only.\<close>

lemma fat_upd_dpb:
  assumes ok: "fat_ok drv rd M X V dp g s" and f: "geom (f (dpbs s dp)) = geom g"
    "hint (f (dpbs s dp)) = 0 \<or> in_fat g (hint (f (dpbs s dp)))"
    "\<And>n. free_known (f (dpbs s dp)) = Some n \<Longrightarrow> n = free_count g (fat_at rd X g s)"
  shows "fat_ok drv rd M X V dp g (upd_dpb dp f s)" "fat_at rd X g (upd_dpb dp f s) = fat_at rd X g s"
proof -
  obtain xs where xs: "cache_inv drv rd M xs s" "set xs = X" using fat_okE [OF ok] by metis
  note e = geom_eq [OF f(1)] and e' = geom_eq [OF fat_ok_sel(2) [OF ok]]
  note c = cache_inv_upd_dpb [OF xs(1), of f dp]
  have inv: "cache_inv drv rd M xs (upd_dpb dp f s)" "view rd xs (upd_dpb dp f s) = view rd xs s" using c e e' by simp_all
  have d: "dpbs (upd_dpb dp f s) dp = f (dpbs s dp)" "drives (upd_dpb dp f s) = drives s" by (simp_all add: upd_dpb_def)
  note kp = fat_keep [OF ok xs inv(1) refl d(2)]
  show "fat_ok drv rd M X V dp g (upd_dpb dp f s)" "fat_at rd X g (upd_dpb dp f s) = fat_at rd X g s"
    using kp f d(1) inv(2) by simp_all
qed

lemma fat_fsinfo:
  assumes ok: "fat_ok drv rd M X V dp g s"
  shows "\<exists>s'. write_fsinfo drv dp s = Some s' \<and> fat_ok drv rd M X V dp g s' \<and> fat_at rd X g s' = fat_at rd X g s \<and> dpbs s' = dpbs s"
proof -
  obtain xs where xs: "cache_inv drv rd M xs s" "set xs = X" using fat_okE [OF ok] by metis
  note k = fat_ok_sel [OF ok] and e = geom_eq [OF fat_ok_sel(2) [OF ok]]
  obtain xs' s' where w: "write_fsinfo drv dp s = Some s'" "cache_inv drv rd M xs' s'" "set xs' = set xs" "same_env s s'"
    and v: "\<And>v b. drives s v \<noteq> None \<Longrightarrow> (v, b) \<notin> M \<Longrightarrow> view rd xs' s' v b =
        (if dpb_xfsinfosec g \<noteq> 0xFFFF \<and> v = dpb_unit g \<and> b = ucast (dpb_xfsinfosec g)
         then fsinfo_bytes (dpbs s dp) (view rd xs s v b) else view rd xs s v b)"
    using write_fsinfo_ok [OF xs(1) refl, of dp] k(1,3) e by (auto simp: fat_geom_def)
  have env: "dpbs s' = dpbs s" "drives s' = drives s" using w(4) by (simp_all add: same_env_def)
  have vf: "view rd xs' s' (dpb_unit g) (fat_sector g j) = view rd xs s (dpb_unit g) (fat_sector g j)" if "j \<le> fat_last g" for j
    using v [OF k(3)] k(1) that by (auto simp: fat_geom_def)
  note kp = fat_keep [OF ok xs w(2,3) env(2)]
  have "view rd xs' s' u b = view rd xs s u b" if "drives s u \<noteq> None" "(u, b) \<notin> M" "(u, b) \<notin> fat_area g" for u b
    using v [OF that(1,2)] that(3) by (auto simp: fat_area_def)
  with kp w(1) k vf env show ?thesis by auto
qed

end
