(* ===== verification/FatTable.thy ===== *)
theory FatTable
  imports FatIface
begin

text \<open>
  The interface of the file allocation table as a locale, the operations on free clusters and chains
  proved from it, and its interpretation on \<^verbatim>\<open>fattab.c\<close>.
\<close>

subsection \<open>Chains\<close>

text \<open>The clusters from \<open>c\<close> on: each in the table, the entry of the last one marks the end.\<close>

fun cchain :: "u32 set \<Rightarrow> (u32 \<Rightarrow> u32) \<Rightarrow> u32 \<Rightarrow> u32 list \<Rightarrow> bool" where
  "cchain C E c [] \<longleftrightarrow> c = LONG_LAST_CLUSTER"
| "cchain C E c (d # ds) \<longleftrightarrow> c = d \<and> d \<in> C \<and> cchain C E (E d) ds"

lemma cchain_unique: "LONG_LAST_CLUSTER \<notin> C \<Longrightarrow> cchain C E c cs \<Longrightarrow> cchain C E c ds \<Longrightarrow> cs = ds"
proof (induction cs arbitrary: c ds)
  case Nil
  then show ?case by (cases ds) auto
next
  case (Cons b bs)
  then show ?case by (cases ds) auto
qed

lemma cchain_split: "cchain C E c (xs @ d # ys) \<Longrightarrow> cchain C E d (d # ys)"
  by (induction xs arbitrary: c) auto

lemma cchain_distinct: "LONG_LAST_CLUSTER \<notin> C \<Longrightarrow> cchain C E c cs \<Longrightarrow> distinct cs"
proof (induction cs arbitrary: c)
  case (Cons d ds)
  have "d \<notin> set ds"
  proof
    assume "d \<in> set ds"
    then obtain xs ys where ds: "ds = xs @ d # ys" by (meson split_list)
    have "cchain C E d (d # ys)" using cchain_split [of C E c "d # xs" d ys] Cons.prems(2) ds by simp
    with Cons.prems have "d # ds = d # ys" by (intro cchain_unique [of C E d]) auto
    with ds show False by simp
  qed
  with Cons show ?case by auto
qed simp

lemma cchain_upd: "d \<notin> set cs \<Longrightarrow> cchain C (E(d := v)) c cs = cchain C E c cs"
  by (induction cs arbitrary: c) auto

lemma cchain_append: "cchain C E c (xs @ [d]) \<Longrightarrow> e \<notin> set (xs @ [d]) \<Longrightarrow> e \<in> C \<Longrightarrow> LONG_LAST_CLUSTER \<notin> C \<Longrightarrow>
    cchain C (E(d := e, e := LONG_LAST_CLUSTER)) c (xs @ [d, e])"
proof (induction xs arbitrary: c)
  case (Cons x xs)
  have "x \<noteq> d" using cchain_distinct [OF Cons.prems(4,1)] by auto
  with Cons show ?case by auto
qed auto

lemma cchain_set: "cchain C E c cs \<Longrightarrow> set cs \<subseteq> C"
  by (induction cs arbitrary: c) auto

lemma cchain_nth_next: "cchain C E c cs \<Longrightarrow> Suc i < length cs \<Longrightarrow> E (cs ! i) = cs ! Suc i"
proof (induction cs arbitrary: c i)
  case (Cons d ds)
  then show ?case by (cases i; cases ds) auto
qed simp

lemma cchain_last: "cchain C E c cs \<Longrightarrow> cs \<noteq> [] \<Longrightarrow> E (last cs) = LONG_LAST_CLUSTER"
  by (induction cs arbitrary: c) auto

subsection \<open>The loops over an abstract table\<close>

definition release_step :: "(u32 \<Rightarrow> 's \<Rightarrow> (u32 \<times> 's) option) \<Rightarrow> (u32 \<Rightarrow> u32 \<Rightarrow> 's \<Rightarrow> (u32 \<times> 's) option) \<Rightarrow> (u32 \<Rightarrow> 's \<Rightarrow> 's) \<Rightarrow>
    ('s \<Rightarrow> 's option) \<Rightarrow> u32 \<times> 's \<Rightarrow> ('s + (u32 \<times> 's)) option" where
  "release_step nx lnk tune sync v = (case v of (st, s) \<Rightarrow>
     if st \<noteq> LONG_LAST_CLUSTER then do {
       (n, s1) \<leftarrow> nx st s;
       if n \<le> 1 then Some (Inl s1)
       else do {
         (r, s2) \<leftarrow> lnk st FREE s1;
         Some (if r \<noteq> 0 then Inl s2 else Inr (n, tune st s2))
       }
     } else do { s1 \<leftarrow> sync s; Some (Inl s1) })"

definition search_step :: "(u32 \<Rightarrow> 's \<Rightarrow> (bool \<times> 's) option) \<Rightarrow> u32 \<Rightarrow> u32 \<Rightarrow> u32 \<times> 's \<Rightarrow> ((u32 \<times> u32 \<times> 's) + (u32 \<times> 's)) option" where
  "search_step fr maxc start v = (case v of (idx, s) \<Rightarrow> do {
     (f, s1) \<leftarrow> fr idx s;
     Some (if f then Inl (idx, idx, s1)
           else let idx' = (if idx + 1 > maxc then 2 else idx + 1)
                in if idx' = start then Inl (UNKNCLUSTER, LONG_LAST_CLUSTER, s1) else Inr (idx', s1))
   })"

definition count_step :: "(u32 \<Rightarrow> 's \<Rightarrow> (bool \<times> 's) option) \<Rightarrow> (u32 \<Rightarrow> 's \<Rightarrow> 's) \<Rightarrow> u32 \<Rightarrow> u32 \<times> u32 \<times> 's \<Rightarrow>
    ((u32 \<times> 's) + (u32 \<times> u32 \<times> 's)) option" where
  "count_step fr mark maxc v = (case v of (i, cnt, s) \<Rightarrow>
     if i \<le> maxc then do {
       (f, s1) \<leftarrow> fr i s;
       Some (Inr (if f then (i + 1, cnt + 1, if cnt = 0 then mark i s1 else s1) else (i + 1, cnt, s1)))
     } else Some (Inl (cnt, s)))"

subsection \<open>The interface\<close>

locale fat_table =
  fixes inv :: "'s \<Rightarrow> bool"
    and maxc :: u32
    and fat :: "'s \<Rightarrow> u32 \<Rightarrow> u32"
    and nx :: "u32 \<Rightarrow> 's \<Rightarrow> (u32 \<times> 's) option"
    and fr :: "u32 \<Rightarrow> 's \<Rightarrow> (bool \<times> 's) option"
    and lnk :: "u32 \<Rightarrow> u32 \<Rightarrow> 's \<Rightarrow> (u32 \<times> 's) option"
    and tune :: "u32 \<Rightarrow> 's \<Rightarrow> 's"
    and mark :: "u32 \<Rightarrow> 's \<Rightarrow> 's"
    and sync :: "'s \<Rightarrow> 's option"
  assumes top_bound: "inv s \<Longrightarrow> maxc < LONG_BAD"
    and follow: "inv s \<Longrightarrow> c \<in> {2..maxc} \<Longrightarrow>
      fat s c = LONG_LAST_CLUSTER \<or> fat s c \<in> {2..maxc} \<and> (fat s (fat s c) = LONG_LAST_CLUSTER \<or> fat s (fat s c) \<in> {2..maxc}) \<Longrightarrow>
      \<exists>s'. nx c s = Some (fat s c, s') \<and> inv s' \<and> fat s' = fat s"
    and test: "inv s \<Longrightarrow> c \<in> {2..maxc} \<Longrightarrow> \<exists>s'. fr c s = Some (fat s c = FREE, s') \<and> inv s' \<and> fat s' = fat s"
    and store: "inv s \<Longrightarrow> c \<in> {2..maxc} \<Longrightarrow> v \<in> {FREE, LONG_LAST_CLUSTER} \<union> {2..maxc} \<Longrightarrow>
      \<exists>s'. lnk c v s = Some (0, s') \<and> inv s' \<and> fat s' = (fat s)(c := v)"
    and tune_keeps: "inv s \<Longrightarrow> c \<in> {2..maxc} \<Longrightarrow> inv (tune c s) \<and> fat (tune c s) = fat s"
    and mark_keeps: "inv s \<Longrightarrow> c = UNKNCLUSTER \<or> c \<in> {2..maxc} \<Longrightarrow> inv (mark c s) \<and> fat (mark c s) = fat s"
    and sync_keeps: "inv s \<Longrightarrow> \<exists>s'. sync s = Some s' \<and> inv s' \<and> fat s' = fat s"
begin

lemma last_outside: "inv s \<Longrightarrow> LONG_LAST_CLUSTER \<notin> {2..maxc}"
proof
  assume "inv s" "LONG_LAST_CLUSTER \<in> {2..maxc}"
  then have "LONG_LAST_CLUSTER < LONG_BAD" using top_bound [of s] by auto
  then show False by (simp add: fat_consts)
qed

lemma follow_chain:
  assumes "inv s" "cchain {2..maxc} (fat s) c (c # cs)"
  shows "\<exists>s'. nx c s = Some (fat s c, s') \<and> inv s' \<and> fat s' = fat s"
proof (rule follow [OF assms(1)])
  show "c \<in> {2..maxc}" using assms(2) by simp
  show "fat s c = LONG_LAST_CLUSTER \<or> fat s c \<in> {2..maxc} \<and> (fat s (fat s c) = LONG_LAST_CLUSTER \<or> fat s (fat s c) \<in> {2..maxc})"
  proof (cases cs)
    case Nil
    with assms(2) show ?thesis by simp
  next
    case (Cons d ds)
    with assms(2) show ?thesis by (cases ds) auto
  qed
qed

text \<open>A chain is released completely, and nothing else is.\<close>

lemma release:
  assumes "inv s" "cchain {2..maxc} (fat s) c cs"
  shows "\<exists>s'. loopM (release_step nx lnk tune sync) (c, s) = Some s' \<and> inv s'
    \<and> fat s' = (\<lambda>x. if x \<in> set cs then FREE else fat s x)"
  using assms
proof (induction cs arbitrary: c s)
  case Nil
  then obtain s' where "sync s = Some s'" "inv s'" "fat s' = fat s" using sync_keeps by blast
  moreover from this have "release_step nx lnk tune sync (c, s) = Some (Inl s')" using Nil by (simp add: release_step_def)
  then have "loopM (release_step nx lnk tune sync) (c, s) = Some s'" by (rule loopM_Inl)
  ultimately show ?case by simp
next
  case (Cons d ds)
  have c: "c = d" "d \<in> {2..maxc}" "cchain {2..maxc} (fat s) (fat s d) ds" using Cons.prems(2) by auto
  have nl: "d \<noteq> LONG_LAST_CLUSTER" using c(2) last_outside [OF Cons.prems(1)] by blast
  obtain s1 where s1: "nx d s = Some (fat s d, s1)" "inv s1" "fat s1 = fat s"
    using follow_chain [of s d ds] Cons.prems c by auto
  have gt: "\<not> fat s d \<le> 1" using c(3) by (cases ds) (auto simp: fat_consts word_le_nat_alt)
  obtain s2 where s2: "lnk d FREE s1 = Some (0, s2)" "inv s2" "fat s2 = (fat s)(d := FREE)"
    using store [OF s1(2) c(2), of FREE] s1(3) by auto
  define s3 where "s3 = tune d s2"
  have s3: "inv s3" "fat s3 = (fat s)(d := FREE)" using tune_keeps [OF s2(2) c(2)] s2(3) by (simp_all add: s3_def)
  have "d \<notin> set ds" using cchain_distinct [OF last_outside [OF Cons.prems(1)] Cons.prems(2)] by simp
  then have "cchain {2..maxc} (fat s3) (fat s d) ds" using c(3) s3(2) by (simp add: cchain_upd)
  from Cons.IH [OF s3(1) this] obtain s' where s': "loopM (release_step nx lnk tune sync) (fat s d, s3) = Some s'" "inv s'"
    "fat s' = (\<lambda>x. if x \<in> set ds then FREE else fat s3 x)" by blast
  have "release_step nx lnk tune sync (d, s) = Some (Inr (fat s d, s3))"
    using nl s1(1) gt s2(1) by (simp add: release_step_def s3_def)
  with s'(1) c(1) have "loopM (release_step nx lnk tune sync) (c, s) = Some s'" by (simp add: loopM_Inr)
  with s'(2,3) s3(2) show ?case by (intro exI [of _ s']) (auto simp: fun_eq_iff)
qed

text \<open>
  The search ends; it finds a free cluster, or there is none. What is left to look at when the search
  is at a cluster: the clusters up to the top and those before the start, or those up to the start.
\<close>

definition to_go :: "u32 \<Rightarrow> u32 \<Rightarrow> nat" where
  "to_go start idx = (if start \<le> idx then unat maxc - unat idx + unat start else unat start - unat idx)"

lemma search:
  assumes s: "inv s" and st: "start \<in> {2..maxc}"
  shows "\<exists>r. loopM (search_step fr maxc start) (start, s) = Some r \<and> (case r of (cl, i, s') \<Rightarrow> inv s' \<and> fat s' = fat s
    \<and> (cl = i \<and> i \<in> {2..maxc} \<and> fat s i = FREE \<or> cl = UNKNCLUSTER \<and> i = LONG_LAST_CLUSTER \<and> (\<forall>c \<in> {2..maxc}. fat s c \<noteq> FREE)))"
proof -
  define seen where "seen idx = (if start \<le> idx then {start..<idx} else {start..maxc} \<union> {2..<idx})" for idx :: u32
  define J where "J v n \<longleftrightarrow> (case v of (idx, t) \<Rightarrow> inv t \<and> fat t = fat s \<and> idx \<in> {2..maxc} \<and> to_go start idx = n
    \<and> (\<forall>c \<in> seen idx. fat s c \<noteq> FREE))" for v :: "u32 \<times> 's" and n :: nat
  have tb: "unat maxc < 268435447" using top_bound [OF s] by (simp add: fat_consts word_less_nat_alt)
  have J0: "J (start, s) (to_go start start)" using s st by (simp add: J_def seen_def)
  show ?thesis
  proof (rule loopM_ghost [of J, OF J0])
    fix v n assume J: "J v n"
    obtain idx t where v: "v = (idx, t)" by (cases v)
    have t: "inv t" "fat t = fat s" "idx \<in> {2..maxc}" "to_go start idx = n" "\<forall>c \<in> seen idx. fat s c \<noteq> FREE"
      using J by (simp_all add: J_def v)
    obtain t1 where t1: "fr idx t = Some (fat s idx = FREE, t1)" "inv t1" "fat t1 = fat s" using test [OF t(1,3)] t(2) by auto
    have up: "unat (idx + 1) = unat idx + 1" using t(3) tb by (subst unat_word_ariths) (simp add: word_le_nat_alt)
    let ?idx' = "if idx + 1 > maxc then 2 else idx + 1"
    have i': "?idx' \<in> {2..maxc}" using t(3) st up by (auto simp: word_le_nat_alt word_less_nat_alt)
    have seen': "seen ?idx' = insert idx (seen idx)" if "?idx' \<noteq> start"
      using that t(3) st up unfolding seen_def by (auto simp: word_le_nat_alt word_less_nat_alt word_unat_eq_iff split: if_splits)
    have all: "{2..maxc} = insert idx (seen idx)" if "?idx' = start"
      using that t(3) st up unfolding seen_def by (auto simp: word_le_nat_alt word_less_nat_alt word_unat_eq_iff split: if_splits)
    have less: "to_go start ?idx' < to_go start idx" if "?idx' \<noteq> start"
      using that t(3) st up unfolding to_go_def by (auto simp: word_le_nat_alt word_less_nat_alt word_unat_eq_iff split: if_splits)
    show "\<exists>x. search_step fr maxc start v = Some x \<and> (case x of Inl r \<Rightarrow> (case r of (cl, i, s') \<Rightarrow> inv s' \<and> fat s' = fat s
        \<and> (cl = i \<and> i \<in> {2..maxc} \<and> fat s i = FREE \<or> cl = UNKNCLUSTER \<and> i = LONG_LAST_CLUSTER \<and> (\<forall>c \<in> {2..maxc}. fat s c \<noteq> FREE)))
      | Inr s' \<Rightarrow> \<exists>n'<n. J s' n')"
    proof (cases "fat s idx = FREE")
      case True
      then show ?thesis using t1 t(3) by (simp add: search_step_def v)
    next
      case False
      show ?thesis
      proof (cases "?idx' = start")
        case stop: True
        have "search_step fr maxc start v = Some (Inl (UNKNCLUSTER, LONG_LAST_CLUSTER, t1))"
          using False stop t1(1) by (simp add: search_step_def v Let_def)
        moreover have "\<forall>c \<in> {2..maxc}. fat s c \<noteq> FREE" using all [OF stop] t(5) False by auto
        ultimately show ?thesis using t1(2,3) by simp
      next
        case on: False
        have "search_step fr maxc start v = Some (Inr (?idx', t1))" using False on t1(1) by (simp add: search_step_def v Let_def)
        moreover have "J (?idx', t1) (to_go start ?idx')" using t1(2,3) i' seen' [OF on] t(5) False by (simp add: J_def)
        ultimately show ?thesis using less [OF on] t(4) by auto
      qed
    qed
  qed
qed

text \<open>The count of the free clusters.\<close>

lemma counting:
  assumes s: "inv s"
  shows "\<exists>r. loopM (count_step fr mark maxc) (2, 0, s) = Some r \<and> (case r of (cnt, s') \<Rightarrow> inv s' \<and> fat s' = fat s
    \<and> unat cnt = card {c \<in> {2..maxc}. fat s c = FREE})"
proof -
  define J where "J v n \<longleftrightarrow> (case v of (i, cnt, t) \<Rightarrow> inv t \<and> fat t = fat s \<and> 2 \<le> i \<and> (i = 2 \<or> unat i \<le> unat maxc + 1)
    \<and> unat maxc + 1 - unat i = n \<and> unat cnt = card {c \<in> {2..<i}. fat s c = FREE})" for v :: "u32 \<times> u32 \<times> 's" and n :: nat
  have tb: "unat maxc < 268435447" using top_bound [OF s] by (simp add: fat_consts word_less_nat_alt)
  have J0: "J (2, 0, s) (unat maxc + 1 - 2)" using s by (auto simp: J_def)
  show ?thesis
  proof (rule loopM_ghost [of J, OF J0])
    fix v n assume J: "J v n"
    obtain i cnt t where v: "v = (i, cnt, t)" by (cases v)
    have t: "inv t" "fat t = fat s" "2 \<le> i" "i = 2 \<or> unat i \<le> unat maxc + 1" "unat maxc + 1 - unat i = n"
      "unat cnt = card {c \<in> {2..<i}. fat s c = FREE}" using J by (simp_all add: J_def v)
    show "\<exists>x. count_step fr mark maxc v = Some x \<and> (case x of Inl r \<Rightarrow> (case r of (cnt, s') \<Rightarrow> inv s' \<and> fat s' = fat s
        \<and> unat cnt = card {c \<in> {2..maxc}. fat s c = FREE}) | Inr s' \<Rightarrow> \<exists>n'<n. J s' n')"
    proof (cases "i \<le> maxc")
      case False
      then have "{2..<i} = {2..maxc}" using t(4) by (auto simp: word_le_nat_alt word_less_nat_alt)
      with False t show ?thesis by (simp add: count_step_def v)
    next
      case True
      then obtain t1 where t1: "fr i t = Some (fat s i = FREE, t1)" "inv t1" "fat t1 = fat s" using test [OF t(1), of i] t(2,3) by auto
      have up: "unat (i + 1) = unat i + 1" using True tb by (subst unat_word_ariths) (simp add: word_le_nat_alt)
      have ins: "{2..<i + 1} = insert i {2..<i}" using up t(3) by (auto simp: word_le_nat_alt word_less_nat_alt word_unat_eq_iff)
      have set_eq: "{c \<in> {2..<i + 1}. fat s c = FREE} = (if fat s i = FREE then insert i {c \<in> {2..<i}. fat s c = FREE} else {c \<in> {2..<i}. fat s c = FREE})"
        unfolding ins by auto
      have fin: "finite {c \<in> {2..<i}. fat s c = FREE}" by simp
      have "card {c \<in> {2..<i}. fat s c = FREE} \<le> card (unat ` {2..<i})"
        by (subst card_image) (auto simp: inj_on_def word_unat_eq_iff intro: card_mono)
      also have "\<dots> \<le> card {2..<unat i}" by (intro card_mono) (auto simp: word_le_nat_alt word_less_nat_alt)
      finally have "unat cnt < 4294967295" using t(6) True tb by (simp add: word_le_nat_alt)
      then have cu: "unat (cnt + 1) = unat cnt + 1" by (subst unat_word_ariths) simp
      have cd: "unat (if fat s i = FREE then cnt + 1 else cnt) = card {c \<in> {2..<i + 1}. fat s c = FREE}"
        unfolding set_eq using fin t(6) cu by simp
      have i2: "2 \<le> i + 1" using t(3) up by (simp add: word_le_nat_alt)
      define t2 where "t2 = (if fat s i = FREE \<and> cnt = 0 then mark i t1 else t1)"
      have t2: "inv t2" "fat t2 = fat s" using t1(2,3) mark_keeps [OF t1(2), of i] True t(3) by (auto simp: t2_def)
      have "count_step fr mark maxc v = Some (Inr (i + 1, if fat s i = FREE then cnt + 1 else cnt, t2))"
        using True t1(1) by (simp add: count_step_def v t2_def)
      moreover have "J (i + 1, if fat s i = FREE then cnt + 1 else cnt, t2) (unat maxc + 1 - unat (i + 1))"
        using t2 i2 cd up True unfolding J_def by (simp add: word_le_nat_alt)
      moreover have "unat maxc + 1 - unat (i + 1) < n" using up t(5) True by (simp add: word_le_nat_alt)
      ultimately show ?thesis by (auto simp del: split_paired_Ex)
    qed
  qed
qed

end

subsection \<open>Interpretation\<close>

lemma in_fat_iff: "in_fat g c \<longleftrightarrow> c \<in> {2..max_cluster g}"
  by (simp add: in_fat_def)

lemma max_cluster_bad: "fat_geom M g \<Longrightarrow> max_cluster g < LONG_BAD"
proof -
  assume "fat_geom M g"
  then consider "fat12 g" | "fat16 g" | "fat32 g" by (auto simp: fat_geom_def)
  then show ?thesis
  proof cases
    case 3
    then show ?thesis by (simp add: fat32_def max_cluster_def)
  qed (use max_cluster12 [of g] max_cluster16 [of g] in \<open>auto simp: fat_consts word_less_nat_alt\<close>)
qed

lemma max_cluster_small: "fat_geom M g \<Longrightarrow> \<not> ISFAT32 g \<Longrightarrow> unat (max_cluster g) < 65536"
  by (simp add: max_cluster_def)

lemma hint_fields [simp]:
  "geom (d\<lparr>dpb_xcluster := c\<rparr>) = geom d" "geom (d\<lparr>dpb_cluster := c'\<rparr>) = geom d"
  "free_known (d\<lparr>dpb_xcluster := c\<rparr>) = free_known d" "free_known (d\<lparr>dpb_cluster := c'\<rparr>) = free_known d"
  by (simp_all add: geom_def free_known_def ISFAT32_def dpb_nfreeclst_def)

lemma fat_set_hint:
  assumes ok: "fat_ok drv rd M X V dp g s" and c: "c = UNKNCLUSTER \<or> c \<in> {2..max_cluster g}"
  shows "fat_ok drv rd M X V dp g (set_hint dp c s) \<and> fat_at rd X g (set_hint dp c s) = fat_at rd X g s"
proof -
  note k = fat_ok_sel [OF ok] and e = geom_eq [OF fat_ok_sel(2) [OF ok]]
  let ?f = "\<lambda>d. if ISFAT32 d then d\<lparr>dpb_xcluster := c\<rparr> else d\<lparr>dpb_cluster := ucast c\<rparr>"
  have "\<not> ISFAT32 g \<Longrightarrow> (ucast (ucast c :: u16) :: u32) = c"
    using c max_cluster_small [OF k(1)] by (auto simp: word_unat_eq_iff UNKNCLUSTER_def unat_ucast_le word_le_nat_alt)
  then have h: "hint (?f (dpbs s dp)) = c" using e(2) by (simp add: hint_def ISFAT32_def)
  have "geom (?f (dpbs s dp)) = geom g" using k(2) by simp
  moreover have "hint (?f (dpbs s dp)) = 0 \<or> in_fat g (hint (?f (dpbs s dp)))" unfolding h using c by (auto simp: in_fat_iff UNKNCLUSTER_def)
  moreover have "free_known (?f (dpbs s dp)) = Some n \<Longrightarrow> n = free_count g (fat_at rd X g s)" for n
    by (rule k(5)) (simp split: if_splits)
  ultimately show ?thesis unfolding set_hint_def using fat_upd_dpb [OF ok, of ?f] by blast
qed

lemma fat_lower_hint:
  assumes ok: "fat_ok drv rd M X V dp g s" and c: "c \<in> {2..max_cluster g}"
  shows "fat_ok drv rd M X V dp g (lower_hint dp c s) \<and> fat_at rd X g (lower_hint dp c s) = fat_at rd X g s"
proof -
  define b where "b \<longleftrightarrow> (let d = dpbs s dp in if ISFAT32 d then dpb_xcluster d = UNKNCLUSTER \<or> dpb_xcluster d > c
    else dpb_cluster d = 0 \<or> dpb_cluster d > ucast c)"
  have "lower_hint dp c s = (if b then set_hint dp c s else upd_dpb dp id s)"
    by (auto simp: lower_hint_def set_hint_def upd_dpb_def b_def Let_def)
  moreover have "upd_dpb dp id s = s" by (simp add: upd_dpb_def)
  ultimately show ?thesis using fat_set_hint [OF ok, of c] c ok by simp
qed

interpretation ft: fat_table "fat_ok drv rd M X V dp g" "max_cluster g" "fat_at rd X g" "next_cluster drv dp"
  "is_free_cluster drv dp" "link_fat drv dp" "lower_hint dp" "set_hint dp"
  "\<lambda>s. if ISFAT32 (dpbs s dp) then write_fsinfo drv dp s else Some s"
  for drv rd M X V dp g
proof
  fix s assume ok: "fat_ok drv rd M X V dp g s"
  note k = fat_ok_sel [OF ok]
  show "max_cluster g < LONG_BAD" by (rule max_cluster_bad [OF k(1)])
  show "\<exists>s'. (if ISFAT32 (dpbs s dp) then write_fsinfo drv dp s else Some s) = Some s' \<and> fat_ok drv rd M X V dp g s'
      \<and> fat_at rd X g s' = fat_at rd X g s" using fat_fsinfo [OF ok] ok by auto
  fix c
  show "c = UNKNCLUSTER \<or> c \<in> {2..max_cluster g} \<Longrightarrow>
      fat_ok drv rd M X V dp g (set_hint dp c s) \<and> fat_at rd X g (set_hint dp c s) = fat_at rd X g s" by (rule fat_set_hint [OF ok])
  assume c: "c \<in> {2..max_cluster g}"
  then have cg: "in_fat g c" by (simp add: in_fat_iff)
  show "fat_ok drv rd M X V dp g (lower_hint dp c s) \<and> fat_at rd X g (lower_hint dp c s) = fat_at rd X g s" by (rule fat_lower_hint [OF ok c])
  show "\<exists>s'. is_free_cluster drv dp c s = Some (fat_at rd X g s c = FREE, s') \<and> fat_ok drv rd M X V dp g s'
      \<and> fat_at rd X g s' = fat_at rd X g s" by (rule fat_free [OF ok cg])
  show "\<exists>s'. link_fat drv dp c v s = Some (0, s') \<and> fat_ok drv rd M X V dp g s' \<and> fat_at rd X g s' = (fat_at rd X g s)(c := v)"
    if "v \<in> {FREE, LONG_LAST_CLUSTER} \<union> {2..max_cluster g}" for v
    using that fat_write [OF ok cg, of v] by (auto simp: storable_def)
  assume f: "fat_at rd X g s c = LONG_LAST_CLUSTER \<or> fat_at rd X g s c \<in> {2..max_cluster g} \<and>
    (fat_at rd X g s (fat_at rd X g s c) = LONG_LAST_CLUSTER \<or> fat_at rd X g s (fat_at rd X g s c) \<in> {2..max_cluster g})"
  have "chain_next g (fat_at rd X g s) c = fat_at rd X g s c"
    using f max_cluster_bad [OF k(1)] by (auto simp: chain_next_def in_fat_iff fat_consts word_le_nat_alt word_less_nat_alt)
  with fat_next [OF ok cg] show "\<exists>s'. next_cluster drv dp c s = Some (fat_at rd X g s c, s') \<and> fat_ok drv rd M X V dp g s'
      \<and> fat_at rd X g s' = fat_at rd X g s" by simp
qed

text \<open>The loops of \<^verbatim>\<open>fatfs.c\<close> are the loops over the abstract table.\<close>

lemma wipe_body_step: "wipe_body drv dp = release_step (next_cluster drv dp) (link_fat drv dp) (lower_hint dp)
    (\<lambda>s. if ISFAT32 (dpbs s dp) then write_fsinfo drv dp s else Some s)"
  by (simp add: fun_eq_iff wipe_body_def release_step_def)

lemma ffree_body_step: "ffree_body drv dp = search_step (is_free_cluster drv dp)"
  by (simp add: fun_eq_iff ffree_body_def search_step_def)

lemma free_body_step: "free_body drv dp = count_step (is_free_cluster drv dp) (set_hint dp)"
  by (simp add: fun_eq_iff free_body_def count_step_def)

end
