(* ===== verification/CacheProps.thy ===== *)
theory CacheProps
  imports BlockFlush
begin

text \<open>
  The properties of the block cache, with a disk and a cache of two buffers on which their
  hypotheses hold.
\<close>

subsection \<open>A disk and a cache\<close>

type_synonym disk = "u16 \<Rightarrow> u8 \<Rightarrow> u32 \<Rightarrow> u8 list"

definition filled :: "u8 \<Rightarrow> u8 list" where
  "filled x = replicate 512 x"

lemma length_filled [simp]: "length (filled x) = 512"
  by (simp add: filled_def)

definition disk_read :: "disk \<Rightarrow> u16 \<Rightarrow> u8 \<Rightarrow> u32 \<Rightarrow> u8 list" where
  "disk_read d dev u b = take 512 (d dev u b @ replicate 512 0)"

definition disk_exec :: "request \<Rightarrow> u16 \<Rightarrow> u8 list \<Rightarrow> disk \<Rightarrow> u16 \<times> u8 list \<times> disk" where
  "disk_exec rq dev area d =
     (if r_command rq = C_INPUT then
        (S_DONE, concat (map (\<lambda>i. disk_read d dev (r_unit rq) (rq_block rq + of_nat i)) [0..<unat (r_count rq)]), d)
      else (S_DONE, area, d(dev := (d dev)(r_unit rq := (\<lambda>b.
        let i = unat (b - rq_block rq) in if i < unat (r_count rq) then take 512 (drop (512 * i) area) else d dev (r_unit rq) b)))))"

definition demo_driver :: "disk driver" where
  "demo_driver = \<lparr>drv_exec = disk_exec, drv_error = (\<lambda>rq st u dev d. (FAIL, d))\<rparr>"

lemma demo_disk_driver: "disk_driver demo_driver disk_read"
proof -
  have "st_done S_DONE" by (simp add: st_done_def dsk)
  moreover have "disk_read (d(dev := (d dev)(u' := (\<lambda>b. let i = unat (b - k) in if i < unat n then take 512 (drop (512 * i) area) else d dev u' b)))) v u b
      = (let i = unat (b - k) in if v = dev \<and> u = u' \<and> i < unat n then take 512 (drop (512 * i) area) else disk_read d v u b)"
    if "length area = 512 * unat n" for area d dev k v u u' b and n :: u16
  proof -
    have "take 512 (take 512 (drop (512 * i) area) @ replicate 512 0) = take 512 (drop (512 * i) area)" if "i < unat n" for i
      using that \<open>length area = 512 * unat n\<close> by simp
    then show ?thesis by (auto simp: disk_read_def Let_def)
  qed
  moreover have "length (disk_read d v u b) = 512" for d v u b by (simp add: disk_read_def)
  ultimately show ?thesis unfolding disk_driver_def demo_driver_def disk_exec_def by (simp add: dsk)
qed

text \<open>Two empty buffers at the offsets 16 and 32, drive 0 with a drive parameter block at offset 1.\<close>

definition empty_buffer :: "u16 \<Rightarrow> buffer" where
  "empty_buffer other = \<lparr>b_next = other, b_prev = other, b_unit = 0, b_flag = 0, b_blkno = 0, b_copies = 0, b_offset = 0,
     b_dpbp = 0, b_buffer = filled 0\<rparr>"

definition demo_dpb :: dpb where
  "demo_dpb = \<lparr>dpb_unit = 0, dpb_subunit = 0, dpb_secsize = 512, dpb_clsmask = 0, dpb_shftcnt = 0, dpb_fatstrt = 1,
     dpb_fats = 2, dpb_dirents = 16, dpb_data = 4, dpb_size = 100, dpb_fatsize = 1, dpb_dirstrt = 3, dpb_device = 0,
     dpb_mdb = 0xF0, dpb_flags = 0, dpb_cluster = 0, dpb_xnfreeclst = 99, dpb_xflags = 0, dpb_xfsinfosec = 0xFFFF,
     dpb_xbackupsec = 0xFFFF, dpb_xdata = 0, dpb_xsize = 0, dpb_xfatsize = 0, dpb_xrootclst = 0, dpb_xcluster = 0\<rparr>"

definition demo_kst :: "disk kst" where
  "demo_kst = \<lparr>bufs = (\<lambda>p. if p = 16 then empty_buffer 32 else empty_buffer 16), firstbuf = 16, dpbs = (\<lambda>_. demo_dpb),
     drives = (\<lambda>u. if u = 0 then Some 1 else None), dh_attr = (\<lambda>_. 0), verify_ena = False, bufhigh = False,
     bufloc_conv = True, deblock_buf = filled 0, nbuffers = 2, faterrs = [], device = (\<lambda>_ _ _. [])\<rparr>"

definition demo_M :: "(u8 \<times> u32) set" where
  "demo_M = {(0, 2)}"

lemma demo_cache: "cache_inv demo_driver disk_read demo_M [16, 32] demo_kst"
proof -
  have "ring demo_kst [16, 32]" by (simp add: ring_def demo_kst_def empty_buffer_def linked_def)
  moreover have "units_ok demo_kst" by (auto simp: units_ok_def demo_kst_def split: if_splits)
  moreover have "\<not> fvalid (empty_buffer p)" for p by (simp add: fvalid_def empty_buffer_def)
  ultimately show ?thesis
    using demo_disk_driver by (auto simp: cache_inv_def demo_kst_def buf_ok_def) (simp_all add: empty_buffer_def)
qed

lemma demo_drive: "drives demo_kst 0 \<noteq> None" "drives demo_kst 0 = Some 1" "dpbs demo_kst p = demo_dpb"
  by (simp_all add: demo_kst_def)

subsection \<open>Reading through the cache\<close>

text \<open>
  C2. \<^const>\<open>getblk\<close> returns the block. On a consistent cache over a disk driver, a request for a block of
  a known drive returns a buffer of the ring that is now its first one and holds what the file system
  sees as this block (the cached copy if there is one, else the sector on the disk). It is the buffer
  that held the block, or the least recently used one the replacement rule picks. The cache is consistent
  again and every block reads as before: a modified block that had to leave the cache was written back.
\<close>

theorem getblk_returns_block:
  assumes "cache_inv drv rd M xs s" "drives s u \<noteq> None" "(u, n) \<notin> M"
  shows "\<exists>p xs' s'. getblk drv n u False s = Some (Some p, s') \<and> cache_inv drv rd M xs' s' \<and> set xs' = set xs
    \<and> p \<in> set xs \<and> firstbuf s' = p \<and> is_block n u (bufs s' p) \<and> b_buffer (bufs s' p) = view rd xs s u n
    \<and> (is_block n u (bufs s p) \<or> p = lru_victim s xs)
    \<and> (\<forall>v b. drives s v \<noteq> None \<longrightarrow> (v, b) \<notin> M \<longrightarrow> view rd xs' s' v b = view rd xs s v b)"
proof -
  obtain p xs' s' where g: "getblk drv n u False s = Some (Some p, s')" "got drv rd M xs s u n p xs' s'"
    "is_block n u (bufs s p) \<or> p = lru_victim s xs" using getblk_ok [OF assms(1,2), of n] by blast
  then have inv: "cache_inv drv rd M xs' s'" and st: "set xs' = set xs" "hd xs' = p" and b: "is_block n u (bufs s' p)"
    and vw: "\<forall>v b. drives s v \<noteq> None \<longrightarrow> (v, b) \<notin> M \<longrightarrow> view rd xs' s' v b = view rd xs s v b"
    by (simp_all add: got_def)
  have r: "xs' \<noteq> []" "firstbuf s' = hd xs'" using inv by (simp_all add: cache_inv_def ring_def)
  then have p: "p \<in> set xs'" "firstbuf s' = p" using st(2) hd_in_set [of xs'] by auto
  have "b_buffer (bufs s' p) = view rd xs s u n" using view_hit [OF inv p(1) b] vw assms(2,3) by simp
  with g inv st p b vw show ?thesis by blast
qed

theorem getblk_returns_block_witness:
  "\<exists>p xs' s'. getblk demo_driver 7 0 False demo_kst = Some (Some p, s') \<and> cache_inv demo_driver disk_read demo_M xs' s'
    \<and> b_buffer (bufs s' p) = view disk_read [16, 32] demo_kst 0 7"
proof -
  have "(0, 7) \<notin> demo_M" by (simp add: demo_M_def)
  from getblk_returns_block [OF demo_cache demo_drive(1) this] show ?thesis by blast
qed

subsection \<open>Writing back\<close>

text \<open>
  C3. After \<^const>\<open>flush\<close> the disks hold what the file system saw: the call succeeds, no buffer is valid
  any more, and every sector of every known drive on the disk is the block as it was seen before, that
  is, every modification made in the cache has reached the disk and nothing else was changed.
\<close>

theorem flush_durable:
  assumes "cache_inv drv rd M xs s"
  shows "\<exists>s'. flush drv s = Some (True, s') \<and> cache_inv drv rd M xs s' \<and> (\<forall>p \<in> set xs. \<not> fvalid (bufs s' p))
    \<and> (\<forall>u b. drives s u \<noteq> None \<longrightarrow> (u, b) \<notin> M \<longrightarrow> sector rd s' u b = view rd xs s u b)"
proof -
  obtain s' where f: "flush drv s = Some (True, s')" "kept drv rd M xs s s'" "\<forall>p \<in> set xs. \<not> fvalid (bufs s' p)"
    using flush_ok [OF assms] by blast
  have "view rd xs s' u b = sector rd s' u b" for u b using f(3) by (intro view_miss) (auto simp: is_block_iff)
  with f show ?thesis by (auto simp: kept_def)
qed

theorem flush_durable_witness:
  "\<exists>s'. flush demo_driver demo_kst = Some (True, s') \<and> sector disk_read s' 0 5 = view disk_read [16, 32] demo_kst 0 5"
proof -
  have "(0, 5) \<notin> demo_M" by (simp add: demo_M_def)
  with flush_durable [OF demo_cache] demo_drive(1) show ?thesis by blast
qed

text \<open>
  \<^const>\<open>flush_buffers\<close> writes back one drive: it succeeds, no buffer of the drive is modified any more,
  the cached blocks stay cached and every block of every drive reads as before.
\<close>

lemma flush_buffers_cleans:
  assumes "cache_inv drv rd M xs s"
  shows "\<exists>s'. flush_buffers drv dsk s = Some (True, s') \<and> cache_inv drv rd M xs s'
    \<and> (\<forall>p \<in> set xs. b_unit (bufs s' p) = dsk \<longrightarrow> \<not> is_dirty (bufs s' p))
    \<and> (\<forall>u b. drives s u \<noteq> None \<longrightarrow> (u, b) \<notin> M \<longrightarrow> view rd xs s' u b = view rd xs s u b)"
  using flush_buffers_ok [OF assms, of dsk] unfolding kept_def by blast

subsection \<open>A read that fails\<close>

text \<open>The transfer of one block fails: the driver stores \<open>d\<close> and reports an error, and the user gives up.\<close>

lemma dskxfer_fails:
  assumes u: "drives s u = Some dp" and len: "length buf = 512" "length d = 512"
    and ex: "\<And>area. drv_exec drv (mk_request (dpbs s dp) n 1 C_INPUT s) (dpb_device (dpbs s dp)) area (device s) = (st, d, dv)" "st AND S_ERROR \<noteq> 0"
    and er: "drv_error drv (mk_request (dpbs s dp) n 1 C_INPUT s) st (dpb_unit (dpbs s dp)) (dpb_device (dpbs s dp)) dv = (act, dv')" "act = FAIL \<or> act = ABORT"
  shows "\<exists>db. dskxfer drv u n hi buf 1 DSKREAD s = Some (st, d, dev_only dv' db s)"
proof -
  let ?d = "dpbs s dp" and ?rq = "mk_request (dpbs s dp) n 1 C_INPUT s"
  have "(st AND (S_ERROR OR S_DONE)) AND S_ERROR = st AND S_ERROR" "S_DONE AND S_ERROR = 0"
    by (simp_all add: dsk and.assoc)
  then have st: "st AND (S_ERROR OR S_DONE) \<noteq> S_DONE" using ex(2) by metis
  have "\<exists>db. xfer_once drv ?d ?rq hi DSKREAD buf s = (st, d, dev_only dv db s)"
    using ex(1) len by (intro exI [of _ "if hi \<and> \<not> bufloc_conv s then d else deblock_buf s"]) (simp add: xfer_once_def dsk dev_only_def)
  then obtain db where x: "xfer_once drv ?d ?rq hi DSKREAD buf s = (st, d, dev_only dv db s)" ..
  have mode: "\<not> DSKWRITEINT26 \<le> DSKREAD" by (simp add: dsk)
  have "dskxfer_body drv ?d ?rq hi DSKREAD (None, buf, s) = Inr (Some st, d, dev_only dv db s)"
    using st mode by (simp add: dskxfer_body_def x)
  moreover have "dskxfer_body drv ?d ?rq hi DSKREAD (Some st, d, dev_only dv db s) = Inl (st, d, dev_only dv' db s)"
    using er by (auto simp: dskxfer_body_def) (simp_all add: dev_only_def)
  moreover have "xfer_command DSKREAD s = Some C_INPUT" by (simp add: xfer_command_def dsk)
  ultimately show ?thesis by (intro exI [of _ db]) (simp add: dskxfer_def u loop_Inr loop_Inl)
qed

text \<open>
  C37. A failed read leaves a wrong block in the cache. Block \<open>n\<close> is not cached, and the buffer that is recycled for it
  holds an unmodified block \<open>m\<close>. When the read of block \<open>n\<close> fails after the driver has stored the bytes \<open>d\<close> into the
  buffer, and the error dialogue is answered with fail or abort, \<^const>\<open>getblk\<close> returns \<^verbatim>\<open>NULL\<close>, but the buffer is still marked as a valid copy of block \<open>m\<close>, and the
  next request for block \<open>m\<close> returns the bytes \<open>d\<close> without any access to the disk.
\<close>

theorem failed_read_corrupts_cache:
  assumes r: "ring s xs" and miss: "\<forall>q \<in> set xs. \<not> is_block n u (bufs s q)"
    and old: "is_block m v (bufs s (lru_victim s xs))" "\<not> is_dirty (bufs s (lru_victim s xs))" "length (b_buffer (bufs s (lru_victim s xs))) = 512"
    and u: "drives s u = Some dp" and len: "length d = 512"
    and ex: "\<And>area. drv_exec drv (mk_request (dpbs s dp) n 1 C_INPUT s) (dpb_device (dpbs s dp)) area (device s) = (st, d, dv)" "st AND S_ERROR \<noteq> 0"
    and er: "drv_error drv (mk_request (dpbs s dp) n 1 C_INPUT s) st (dpb_unit (dpbs s dp)) (dpb_device (dpbs s dp)) dv = (act, dv')" "act = FAIL \<or> act = ABORT"
  shows "\<exists>s1 s2. getblk drv n u False s = Some (None, s1)
    \<and> getblk drv m v False s1 = Some (Some (lru_victim s xs), s2) \<and> b_buffer (bufs s2 (lru_victim s xs)) = d \<and> device s2 = device s1"
proof -
  define p where "p = lru_victim s xs"
  let ?f = "\<lambda>b :: buffer. b\<lparr>b_flag := b_flag b OR BFR_UNCACHE\<rparr>" and ?g = "\<lambda>b :: buffer. b\<lparr>b_flag := b_flag b AND NOT BFR_UNCACHE\<rparr>"
  define s1 where "s1 = to_front p (upd_buf p ?f s)"
  have px: "p \<in> set xs" using lru_victim_in [OF r] by (simp add: p_def)
  have "ring (upd_buf p ?f s) xs" using r by (simp add: ring_upd_buf)
  note tf = to_front_ring [OF this px, folded s1_def]
  have c: "sem (bufs s1 p) = sem (bufs s p)" "b_flag (bufs s1 p) = b_flag (bufs s p) OR BFR_UNCACHE"
    using sem_core [OF tf(2), of p] core_eqD(2) [OF tf(2), of p] by (simp_all add: sem_uncache)
  have "find (\<lambda>q. is_block n u (bufs s q)) xs = None" using miss by (auto simp: find_None_iff)
  then have sb: "searchblock n u s = Some (p, s1)" using searchblock_ring [OF r, of n u] by (simp add: Let_def p_def s1_def)
  define s2 where "s2 = upd_buf p clean s1"
  have f: "flush1 drv p s1 = Some (True, s2)"
  proof -
    have "\<not> is_dirty (bufs s1 p)" using old(2) sem_eqD(1,2) [OF c(1)] by (simp add: is_dirty_iff p_def)
    then show ?thesis by (simp add: flush1_def s2_def clean_def [abs_def])
  qed
  have e2: "drives s2 u = Some dp" "dpbs s2 = dpbs s" "device s2 = device s" "mk_request d' n 1 k s2 = mk_request d' n 1 k s" for d' k
    using u by (simp_all add: s2_def s1_def mk_request_def)
  have b2: "length (b_buffer (bufs s2 p)) = 512" using old(3) sem_eqD(7) [OF c(1)] by (simp add: s2_def p_def)
  obtain db where x: "dskxfer drv u n (bufhigh s2) (b_buffer (bufs s2 p)) 1 DSKREAD s2 = Some (st, d, dev_only dv' db s2)"
    using dskxfer_fails [OF e2(1) b2 len, of drv n st dv act dv' "bufhigh s2"] ex er unfolding e2(2-4) by blast
  define s3 where "s3 = upd_buf p (\<lambda>b. b\<lparr>b_buffer := d\<rparr>) (dev_only dv' db s2)"
  have "st \<noteq> 0" using ex(2) by auto
  moreover have "has (b_flag (bufs s1 p)) BFR_UNCACHE" unfolding c(2) has_bit by (simp add: bit_or_iff bfr_bit)
  ultimately have g1: "getblk drv n u False s = Some (None, s3)" using sb f x by (simp add: getblk_def s3_def)
  have r3: "ring s3 (p # remove1 p xs)" using tf(1) by (simp add: s3_def s2_def ring_upd_buf clean_def)
  have "is_block m v (bufs s1 p)" using old(1) sem_eqD(10) [OF c(1), of m v] by (simp add: p_def)
  then have "is_block m v (clean (bufs s1 p))" by simp
  then have "is_block m v (bufs s3 p)" by (simp add: s3_def s2_def is_block_def)
  then have sb3: "searchblock m v s3 = Some (p, to_front p (upd_buf p ?g s3))" using searchblock_ring [OF r3, of m v] by simp
  have "firstbuf s3 = p" using r3 by (simp add: ring_def)
  then have "to_front p (upd_buf p ?g s3) = upd_buf p ?g s3" by (simp add: to_front_def)
  moreover have "\<not> has (b_flag (bufs (upd_buf p ?g s3) p)) BFR_UNCACHE" unfolding has_bit by (simp add: bit_and_iff bit_not_iff bfr_bit)
  ultimately have "getblk drv m v False s3 = Some (Some p, upd_buf p ?g s3)" using sb3 by (simp add: getblk_def)
  then show ?thesis using g1 by (intro exI [of _ s3] exI [of _ "upd_buf p ?g s3"]) (simp add: p_def s3_def)
qed

text \<open>
  Two clean buffers hold the blocks 8 and 7; a driver fills the transfer area before it reports an error. The buffer of block 7
  is recycled for block 9.
\<close>

definition failing_driver :: "disk driver" where
  "failing_driver = \<lparr>drv_exec = (\<lambda>rq dev area d. (S_ERROR, filled 0xEE, d)), drv_error = (\<lambda>rq st u dev d. (FAIL, d))\<rparr>"

definition cached_kst :: "disk kst" where
  "cached_kst = demo_kst\<lparr>bufs := (\<lambda>p. if p = 16 then (empty_buffer 32)\<lparr>b_flag := BFR_VALID OR BFR_DATA, b_blkno := 8\<rparr>
     else (empty_buffer 16)\<lparr>b_flag := BFR_VALID OR BFR_DATA, b_blkno := 7\<rparr>)\<rparr>"

theorem failed_read_corrupts_cache_witness:
  "\<exists>s1 s2. getblk failing_driver 9 0 False cached_kst = Some (None, s1)
    \<and> getblk failing_driver 7 0 False s1 = Some (Some 32, s2) \<and> b_buffer (bufs s2 32) = filled 0xEE"
proof -
  have r: "ring cached_kst [16, 32]" by (simp add: ring_def cached_kst_def demo_kst_def empty_buffer_def linked_def)
  have v: "lru_victim cached_kst [16, 32] = 32"
    by (simp add: lru_victim_def uncached_bufs_def other_bufs_def cached_kst_def empty_buffer_def bfr)
  have b: "\<forall>q \<in> set [16, 32]. \<not> is_block 9 0 (bufs cached_kst q)" "is_block 7 0 (bufs cached_kst 32)" "\<not> is_dirty (bufs cached_kst 32)"
    "length (b_buffer (bufs cached_kst 32)) = 512" "drives cached_kst 0 = Some 1"
    by (simp_all add: is_block_def is_dirty_def cached_kst_def demo_kst_def empty_buffer_def bfr)
  have d: "\<And>rq dev area. drv_exec failing_driver rq dev area (device cached_kst) = (S_ERROR, filled 0xEE, device cached_kst)" "S_ERROR AND S_ERROR \<noteq> 0"
    "\<And>rq u dev. drv_error failing_driver rq S_ERROR u dev (device cached_kst) = (FAIL, device cached_kst)" by (simp_all add: failing_driver_def dsk)
  show ?thesis using failed_read_corrupts_cache [OF r b(1) _ _ _ b(5) length_filled d(1,2,3), of 7 0] b(2-4) unfolding v by auto
qed

end
