(* ===== verification/FatProps.thy ===== *)
theory FatProps
  imports FatTable CacheProps
begin

text \<open>
  Properties of the file allocation table and of the cluster operations of the file system: the table
  behind the cache and the driver behaves like a map from clusters to entries, the count of free
  clusters stays exact, a free cluster is found whenever there is one, chains are followed, grown and
  released as a whole.
\<close>

subsection \<open>A drive to try the properties on\<close>

lemma demo_view: "view disk_read [16, 32] demo_kst 0 b = filled 0"
proof -
  have "\<not> is_block b 0 (bufs demo_kst p)" for p by (simp add: is_block_def demo_kst_def empty_buffer_def)
  then have "view disk_read [16, 32] demo_kst 0 b = sector disk_read demo_kst 0 b" by (intro view_miss) simp
  also have "\<dots> = filled 0" by (simp add: sector_on_def demo_kst_def disk_read_def Let_def filled_def)
  finally show ?thesis .
qed

lemma demo_format: "fat12 demo_dpb" "\<not> ISFAT32 demo_dpb" "max_cluster demo_dpb = 100" "dpb_unit demo_dpb = 0"
  by (simp_all add: fat12_def ISFAT12_def ISFAT32_def max_cluster_def demo_dpb_def)

lemma demo_geom: "fat_geom demo_M demo_dpb"
proof -
  have l: "fat_last demo_dpb = 0" using demo_format by (simp add: fat_last_def boff_def off12_def)
  have s: "fat_sector demo_dpb 0 = 1" by (simp add: fat_sector_def fat_base_def demo_dpb_def ISFAT32_def)
  have c: "copies demo_dpb = 2" "copy_off demo_dpb = 1" by (simp_all add: copies_def copy_off_def demo_dpb_def ISFAT32_def)
  have "0 < k \<Longrightarrow> k < 2 \<Longrightarrow> (0, 1 + of_nat k * 1) \<in> demo_M" for k :: nat by (cases k) (auto simp: demo_M_def)
  then show ?thesis using demo_format unfolding fat_geom_def l
    by (simp add: s c demo_M_def) (simp add: demo_dpb_def)
qed

lemma demo_table: "fat_at disk_read {16, 32} demo_dpb demo_kst = (\<lambda>c. FREE)"
proof
  fix c
  show "fat_at disk_read {16, 32} demo_dpb demo_kst c = FREE"
  proof (cases "in_fat demo_dpb c")
    case True
    have "fat_at disk_read (set [16, 32]) demo_dpb demo_kst c = fat_of disk_read demo_dpb [16, 32] demo_kst c"
      by (rule fat_at_ring [OF demo_cache True])
    moreover have "flat demo_dpb (view disk_read [16, 32] demo_kst 0) = (\<lambda>_. 0)"
      by (simp add: flat_def fun_eq_iff demo_view) (simp add: filled_def)
    ultimately show ?thesis using demo_format by (simp add: entry_def raw12_def unpack12_def join16_def Let_def fat_consts)
  qed simp
qed

definition demo_V :: "u8 \<Rightarrow> u32 \<Rightarrow> u8 list" where
  "demo_V = block_at disk_read {16, 32} demo_kst"

lemma demo_fat: "fat_ok demo_driver disk_read demo_M {16, 32} demo_V 1 demo_dpb demo_kst"
proof -
  have "{c. in_fat demo_dpb c} = {2..100}" using demo_format(3) by (auto simp: in_fat_def)
  moreover have "card {2..100 :: u32} = 99"
  proof -
    have "unat ` {2..100 :: u32} = {2..100}"
    proof
      show "{2..100} \<subseteq> unat ` {2..100 :: u32}"
      proof
        fix n :: nat assume "n \<in> {2..100}"
        then have "unat (of_nat n :: u32) = n" "of_nat n \<in> {2..100 :: u32}" by (auto simp: unat_of_nat word_le_nat_alt)
        then show "n \<in> unat ` {2..100 :: u32}" by (metis imageI)
      qed
    qed (auto simp: word_le_nat_alt)
    moreover have "card (unat ` {2..100 :: u32}) = card {2..100 :: u32}" by (rule card_image) (simp add: inj_on_def word_unat_eq_iff)
    ultimately show ?thesis by simp
  qed
  ultimately have "free_count demo_dpb (\<lambda>c. FREE) = 99" by (simp add: free_count_def)
  moreover have "free_known demo_dpb = Some 99" by (simp add: free_known_def ISFAT32_def demo_dpb_def dpb_nfreeclst_def UNKNCLSTFREE_def)
  moreover have "hint demo_dpb = 0" by (simp add: hint_def demo_dpb_def ISFAT32_def)
  moreover have "\<exists>xs. cache_inv demo_driver disk_read demo_M xs demo_kst \<and> set xs = {16, 32} \<and> 2 \<le> length xs"
    using demo_cache by (intro exI [of _ "[16, 32]"]) simp
  ultimately show ?thesis unfolding fat_ok_def rest_ok_def demo_V_def using demo_geom demo_drive demo_format(4) demo_table by simp
qed

subsection \<open>The table\<close>

text \<open>
  C4. The file allocation table behind the block cache is a map from clusters to entries: reading an
  entry returns its value and changes no entry, writing a value changes this entry and no other, in
  the 12, 16 and 32 bit formats, whatever the driver and the buffers in the cache. Both keep the
  state sound, in particular the free cluster count exact, and every block outside the table and the
  information sector keeps its contents \<open>V\<close>.
\<close>

theorem link_fat_refines:
  assumes "fat_ok drv rd M X V dp g s" "in_fat g c" "storable g v"
  shows "(\<exists>s'. link_fat drv dp c READ_CLUSTER s = Some (fat_at rd X g s c, s') \<and> fat_ok drv rd M X V dp g s'
      \<and> fat_at rd X g s' = fat_at rd X g s)
    \<and> (\<exists>s'. link_fat drv dp c v s = Some (0, s') \<and> fat_ok drv rd M X V dp g s'
      \<and> fat_at rd X g s' = (fat_at rd X g s)(c := v))"
  using fat_read [OF assms(1,2)] fat_write [OF assms] by blast

theorem link_fat_refines_witness:
  "\<exists>s'. link_fat demo_driver 1 5 9 demo_kst = Some (0, s') \<and> fat_at disk_read {16, 32} demo_dpb s' 5 = 9
    \<and> fat_at disk_read {16, 32} demo_dpb s' 6 = FREE"
proof -
  have "in_fat demo_dpb 5" "storable demo_dpb 9" using demo_format(3) by (simp_all add: in_fat_def storable_def)
  from link_fat_refines [OF demo_fat this] show ?thesis by (auto simp: demo_table)
qed

text \<open>
  A cluster number or a value out of range is refused: the call returns 1 and changes nothing but
  the list of messages.
\<close>

lemma link_fat_range_error:
  assumes "c \<le> 1 \<or> c > max_cluster (dpbs s dp) \<or> v < LONG_BAD \<and> v > max_cluster (dpbs s dp)"
  shows "\<exists>m x. link_fat drv dp c v s = Some (1, s\<lparr>faterrs := faterrs s @ [(m, x)]\<rparr>)"
  using assms by (auto simp: link_fat_def Let_def clusterMessage_def)

text \<open>A sequence of writes.\<close>

fun writes :: "'d driver \<Rightarrow> u16 \<Rightarrow> (u32 \<times> u32) list \<Rightarrow> 'd kst \<Rightarrow> 'd kst option" where
  "writes drv dp [] s = Some s"
| "writes drv dp ((c, v) # ws) s = do { (_, s1) \<leftarrow> link_fat drv dp c v s; writes drv dp ws s1 }"

lemma writes_ok:
  "fat_ok drv rd M X V dp g s \<Longrightarrow> \<forall>(c, v) \<in> set ws. in_fat g c \<and> storable g v \<Longrightarrow>
    \<exists>s'. writes drv dp ws s = Some s' \<and> fat_ok drv rd M X V dp g s'
      \<and> fat_at rd X g s' = fold (\<lambda>(c, v) E. E(c := v)) ws (fat_at rd X g s)"
proof (induction ws arbitrary: s)
  case (Cons cv ws)
  obtain c v where cv: "cv = (c, v)" by (cases cv)
  from fat_write [OF Cons.prems(1), of c v] Cons.prems(2) cv obtain s1 where s1: "link_fat drv dp c v s = Some (0, s1)"
    "fat_ok drv rd M X V dp g s1" "fat_at rd X g s1 = (fat_at rd X g s)(c := v)" by auto
  from Cons.IH [OF s1(2)] Cons.prems(2) show ?case by (auto simp: cv s1)
qed auto

text \<open>
  C24. The free cluster count in the drive parameter block is exact after any sequence of writes to the
  table: when it is known, it is the number of entries that are free; and the table is the result of
  the writes in their order.
\<close>

theorem free_count_exact:
  assumes "fat_ok drv rd M X V dp g s" "\<forall>(c, v) \<in> set ws. in_fat g c \<and> storable g v"
  shows "\<exists>s'. writes drv dp ws s = Some s' \<and> fat_at rd X g s' = fold (\<lambda>(c, v) E. E(c := v)) ws (fat_at rd X g s)
    \<and> (\<forall>n. free_known (dpbs s' dp) = Some n \<longrightarrow> n = card {c. in_fat g c \<and> fat_at rd X g s' c = FREE})"
proof -
  obtain s' where s': "writes drv dp ws s = Some s'" "fat_ok drv rd M X V dp g s'"
    "fat_at rd X g s' = fold (\<lambda>(c, v) E. E(c := v)) ws (fat_at rd X g s)" using writes_ok [OF assms] by blast
  have "\<forall>n. free_known (dpbs s' dp) = Some n \<longrightarrow> n = card {c. in_fat g c \<and> fat_at rd X g s' c = FREE}"
    using fat_ok_sel(5) [OF s'(2)] by (simp add: free_count_def)
  with s' show ?thesis by blast
qed

theorem free_count_exact_witness:
  "\<exists>s'. writes demo_driver 1 [(5, 6), (6, LONG_LAST_CLUSTER), (5, FREE)] demo_kst = Some s'
    \<and> fat_at disk_read {16, 32} demo_dpb s' 6 = LONG_LAST_CLUSTER
    \<and> (\<forall>n. free_known (dpbs s' 1) = Some n \<longrightarrow> n = card {c. in_fat demo_dpb c \<and> fat_at disk_read {16, 32} demo_dpb s' c = FREE})"
proof -
  have "\<forall>(c, v) \<in> set [(5, 6), (6, LONG_LAST_CLUSTER), (5, FREE)]. in_fat demo_dpb c \<and> storable demo_dpb v"
    using demo_format(3) by (simp add: in_fat_def storable_def)
  from free_count_exact [OF demo_fat this] show ?thesis by auto
qed

subsection \<open>Free clusters\<close>

lemma start_cluster:
  assumes ok: "fat_ok drv rd M X V dp g s" and c: "\<exists>c. in_fat g c"
  shows "(if hint (dpbs s dp) \<noteq> 0 then hint (dpbs s dp) else 2) \<in> {2..max_cluster g}"
  using fat_ok_sel(4) [OF ok] c by (auto simp: in_fat_def word_le_nat_alt)

lemma find_fat_free_eq:
  "find_fat_free drv dp s = do {
     (cluster, idx, s1) \<leftarrow> loopM (search_step (is_free_cluster drv dp) (max_cluster (dpbs s dp))
         (if hint (dpbs s dp) \<noteq> 0 then hint (dpbs s dp) else 2)) (if hint (dpbs s dp) \<noteq> 0 then hint (dpbs s dp) else 2, s);
     let s2 = set_hint dp cluster s1;
     s3 \<leftarrow> (if ISFAT32 (dpbs s2 dp) then write_fsinfo drv dp s2 else Some s2);
     Some (idx, s3)
   }"
proof -
  have h: "(if ISFAT32 (dpbs s dp) then if dpb_xcluster (dpbs s dp) \<noteq> UNKNCLUSTER then dpb_xcluster (dpbs s dp) else 2
      else if dpb_cluster (dpbs s dp) \<noteq> 0 then ucast (dpb_cluster (dpbs s dp)) else 2)
    = (if hint (dpbs s dp) \<noteq> 0 then hint (dpbs s dp) else 2)"
    by (simp add: hint_def UNKNCLUSTER_def word_unat_eq_iff)
  show ?thesis unfolding find_fat_free_def Let_def h ffree_body_step max_cluster_def ..
qed

lemma find_fat_free_ok:
  assumes ok: "fat_ok drv rd M X V dp g s" and c: "\<exists>c. in_fat g c"
  shows "\<exists>i s'. find_fat_free drv dp s = Some (i, s') \<and> fat_ok drv rd M X V dp g s' \<and> fat_at rd X g s' = fat_at rd X g s
    \<and> (if \<exists>c. in_fat g c \<and> fat_at rd X g s c = FREE then in_fat g i \<and> fat_at rd X g s i = FREE else i = LONG_LAST_CLUSTER)"
proof -
  note e = geom_eq [OF fat_ok_sel(2) [OF ok]]
  let ?st = "if hint (dpbs s dp) \<noteq> 0 then hint (dpbs s dp) else 2"
  obtain cl i s1 where r: "loopM (search_step (is_free_cluster drv dp) (max_cluster g) ?st) (?st, s) = Some (cl, i, s1)"
    and s1: "fat_ok drv rd M X V dp g s1" "fat_at rd X g s1 = fat_at rd X g s"
    and q: "cl = i \<and> i \<in> {2..max_cluster g} \<and> fat_at rd X g s i = FREE
      \<or> cl = UNKNCLUSTER \<and> i = LONG_LAST_CLUSTER \<and> (\<forall>c \<in> {2..max_cluster g}. fat_at rd X g s c \<noteq> FREE)"
    using ft.search [OF ok start_cluster [OF ok c]] by (auto simp: case_prod_unfold)
  have "cl = UNKNCLUSTER \<or> cl \<in> {2..max_cluster g}" using q by auto
  from fat_set_hint [OF s1(1) this] have s2: "fat_ok drv rd M X V dp g (set_hint dp cl s1)"
    "fat_at rd X g (set_hint dp cl s1) = fat_at rd X g s" using s1(2) by auto
  from ft.sync_keeps [OF s2(1)] s2(2) obtain s3 where s3: "(if ISFAT32 (dpbs (set_hint dp cl s1) dp) then write_fsinfo drv dp (set_hint dp cl s1)
      else Some (set_hint dp cl s1)) = Some s3" "fat_ok drv rd M X V dp g s3" "fat_at rd X g s3 = fat_at rd X g s" by auto
  have "find_fat_free drv dp s = Some (i, s3)" unfolding find_fat_free_eq e(3) r by (simp add: s3(1) Let_def)
  with s3 q show ?thesis by (auto simp: in_fat_iff)
qed

text \<open>
  C26. The search for a free cluster ends for every table and every start the drive's hint may give: it
  returns a free cluster if there is one, and the end mark exactly when the disk is full. The table
  is not changed.
\<close>

theorem find_fat_free_terminates:
  assumes "fat_ok drv rd M X V dp g s" "\<exists>c. in_fat g c"
  shows "\<exists>i s'. find_fat_free drv dp s = Some (i, s') \<and> fat_ok drv rd M X V dp g s' \<and> fat_at rd X g s' = fat_at rd X g s
    \<and> (if \<exists>c. in_fat g c \<and> fat_at rd X g s c = FREE then in_fat g i \<and> fat_at rd X g s i = FREE else i = LONG_LAST_CLUSTER)"
  by (rule find_fat_free_ok [OF assms])

lemma demo_in_fat: "in_fat demo_dpb 5"
  using demo_format(3) by (simp add: in_fat_def)

theorem find_fat_free_terminates_witness:
  "\<exists>i s'. find_fat_free demo_driver 1 demo_kst = Some (i, s') \<and> in_fat demo_dpb i"
  using find_fat_free_terminates [OF demo_fat] demo_in_fat by (auto simp: demo_table)

text \<open>
  \<^verbatim>\<open>dos_free\<close> returns the number of free entries of the table, whether the drive parameter block
  already has it or it has to be counted, and the count it stores is exact.
\<close>

lemma dos_free_counts:
  assumes ok: "fat_ok drv rd M X V dp g s" and c: "\<exists>c. in_fat g c"
  shows "\<exists>n s'. dos_free drv dp s = Some (n, s') \<and> unat n = card {c. in_fat g c \<and> fat_at rd X g s c = FREE}
    \<and> fat_ok drv rd M X V dp g s' \<and> fat_at rd X g s' = fat_at rd X g s"
proof -
  note k = fat_ok_sel [OF ok] and e = geom_eq [OF fat_ok_sel(2) [OF ok]]
  let ?d = "dpbs s dp" and ?N = "free_count g (fat_at rd X g s)"
  show ?thesis
  proof (cases "free_known ?d")
    case (Some m)
    then have "dos_free drv dp s = Some (if ISFAT32 ?d then dpb_xnfreeclst ?d else ucast (dpb_nfreeclst ?d), s)"
      "unat (if ISFAT32 ?d then dpb_xnfreeclst ?d else ucast (dpb_nfreeclst ?d)) = m"
      by (auto simp: dos_free_def Let_def free_known_def split: if_splits)
    with k(5) [OF Some] ok show ?thesis by (auto simp: free_count_def)
  next
    case None
    obtain cnt s1 where r: "loopM (count_step (is_free_cluster drv dp) (set_hint dp) (max_cluster g)) (2, 0, s) = Some (cnt, s1)"
      and s1: "fat_ok drv rd M X V dp g s1" "fat_at rd X g s1 = fat_at rd X g s"
      and n: "unat cnt = card {c \<in> {2..max_cluster g}. fat_at rd X g s c = FREE}"
      using ft.counting [OF ok] by (auto simp: case_prod_unfold)
    have N: "unat cnt = ?N" unfolding n free_count_def by (simp add: in_fat_iff)
    have lt: "?N < (if ISFAT32 g then 4294967295 else 65535)" using free_count_less [OF k(6) c] .
    note e1 = geom_eq [OF fat_ok_sel(2) [OF s1(1)]]
    let ?f = "\<lambda>d. if ISFAT32 d then d\<lparr>dpb_xnfreeclst := cnt\<rparr> else set_nfreeclst (ucast cnt) d"
    have g: "geom (?f (dpbs s1 dp)) = geom g" "hint (?f (dpbs s1 dp)) = hint (dpbs s1 dp)"
      using fat_ok_sel(2) [OF s1(1)] by (auto simp: geom_def hint_def ISFAT32_def set_nfreeclst_def)
    have fk: "m = ?N" if "free_known (?f (dpbs s1 dp)) = Some m" for m
    proof (cases "ISFAT32 g")
      case True
      then show ?thesis using that e1(2) N by (simp add: free_known_def ISFAT32_def split: if_splits)
    next
      case False
      then have "unat (ucast cnt :: u16) = ?N" using lt N by (subst unat_ucast_le) simp_all
      moreover have "ISFAT32 (set_nfreeclst w d) = ISFAT32 d" for w d by (simp add: set_nfreeclst_def ISFAT32_def)
      ultimately show ?thesis using that e1(2) False by (simp add: free_known_def nfreeclst_set split: if_splits)
    qed
    have s2: "fat_ok drv rd M X V dp g (upd_dpb dp ?f s1)" "fat_at rd X g (upd_dpb dp ?f s1) = fat_at rd X g s"
      using fat_upd_dpb [OF s1(1), of ?f] g fk fat_ok_sel(4) [OF s1(1)] s1(2) by auto
    from ft.sync_keeps [OF s2(1)] s2(2) obtain s3 where s3: "(if ISFAT32 (dpbs (upd_dpb dp ?f s1) dp) then write_fsinfo drv dp (upd_dpb dp ?f s1)
        else Some (upd_dpb dp ?f s1)) = Some s3" "fat_ok drv rd M X V dp g s3" "fat_at rd X g s3 = fat_at rd X g s" by auto
    have i2: "ISFAT32 (dpbs (upd_dpb dp ?f s1) dp) = ISFAT32 g" using geom_eq(2) [OF fat_ok_sel(2) [OF s2(1)]] .
    have u: "upd_dpb dp ?f s1 = (if ISFAT32 g then upd_dpb dp (\<lambda>d. d\<lparr>dpb_xnfreeclst := cnt\<rparr>) s1 else upd_dpb dp (set_nfreeclst (ucast cnt)) s1)"
      using e1(2) by (simp add: upd_dpb_def)
    have "(if ISFAT32 ?d then dpb_xsize ?d else ucast (dpb_size ?d)) = max_cluster g" using e(3) by (simp add: max_cluster_def)
    then have "dos_free drv dp s = Some (cnt, s3)"
      unfolding dos_free_def Let_def free_body_step using None r s3(1) e(2) e1(2) i2 u
      by (auto simp: free_known_def split: if_splits)
    with s3 N show ?thesis by (auto simp: free_count_def)
  qed
qed

end
