(* ===== verification/FatChain.thy ===== *)
theory FatChain
  imports FatProps
begin

text \<open>
  The chains of clusters of files and directories (\<^verbatim>\<open>kernel/fatfs.c\<close>): releasing a chain, appending a
  cluster to it, and following it to the cluster of a file position, with the chain as a list.
\<close>

subsection \<open>The clusters of a file\<close>

text \<open>A file that starts at cluster zero has no clusters; otherwise the chain starts there.\<close>

definition clusters_of :: "dpb \<Rightarrow> (u32 \<Rightarrow> u32) \<Rightarrow> u32 \<Rightarrow> u32 list \<Rightarrow> bool" where
  "clusters_of g E c cs \<longleftrightarrow> (if cs = [] then c = FREE else cchain {2..max_cluster g} E c cs)"

lemma cchain_hd: "cchain C E c cs \<Longrightarrow> cs \<noteq> [] \<Longrightarrow> c = hd cs"
  by (cases cs) auto

lemma cchain_value: "cchain C E c cs \<Longrightarrow> x \<in> set cs \<Longrightarrow> E x = LONG_LAST_CLUSTER \<or> E x \<in> C"
proof (induction cs arbitrary: c)
  case (Cons d ds)
  then show ?case by (cases ds) auto
qed simp

lemma cchain_used:
  assumes "cchain {2..t} E c cs" "E e = FREE"
  shows "e \<notin> set cs"
proof
  assume "e \<in> set cs"
  from cchain_value [OF assms(1) this] assms(2) show False by (auto simp: fat_consts word_le_nat_alt)
qed

lemma cchain_cong: "\<forall>x \<in> set cs. E x = E' x \<Longrightarrow> cchain C E c cs = cchain C E' c cs"
  by (induction cs arbitrary: c) auto

lemma cchain_drop: "cchain C E c cs \<Longrightarrow> i < length cs \<Longrightarrow> cchain C E (cs ! i) (drop i cs)"
  by (metis append_take_drop_id cchain_split Cons_nth_drop_Suc)

lemma cchain_at:
  assumes "cchain C E c cs" "i < length cs"
  shows "E (cs ! i) = (if Suc i < length cs then cs ! Suc i else LONG_LAST_CLUSTER)"
proof (cases "Suc i < length cs")
  case True
  then show ?thesis using cchain_nth_next [OF assms(1)] by simp
next
  case False
  with assms(2) have "length cs = Suc i" by simp
  then have "cs \<noteq> []" "cs ! i = last cs" by (auto simp: last_conv_nth simp flip: length_0_conv)
  then show ?thesis using cchain_last [OF assms(1)] False by simp
qed

lemma dstart_round:
  assumes "ISFAT32 d \<or> unat v < 65536"
  shows "getdstart d (setdstart d v e) = v"
proof (cases "ISFAT32 d")
  case True
  have "push_bit 16 (ucast (ucast (drop_bit 16 v) :: u16)) OR ucast (ucast v :: u16) = v"
    by (rule bit_word_eqI) (auto simp: bit_simps)
  with True show ?thesis by (simp add: getdstart_def setdstart_def Let_def)
next
  case False
  with assms have "(ucast (ucast v :: u16) :: u32) = v" by (simp add: word_unat_eq_iff unat_ucast_le)
  with False show ?thesis by (simp add: getdstart_def setdstart_def Let_def)
qed

subsection \<open>Releasing\<close>

text \<open>
  C19. Releasing a chain ends and frees exactly the clusters of the chain: every other entry of the
  table keeps its value, and the table and its free count stay sound.
\<close>

theorem wipe_out_clusters_releases:
  assumes "fat_ok drv rd M X V dp g s" "cchain {2..max_cluster g} (fat_at rd X g s) c cs"
  shows "\<exists>s'. wipe_out_clusters drv dp c s = Some s' \<and> fat_ok drv rd M X V dp g s'
    \<and> fat_at rd X g s' = (\<lambda>x. if x \<in> set cs then FREE else fat_at rd X g s x)"
  unfolding wipe_out_clusters_def wipe_body_step by (rule ft.release [OF assms])

text \<open>A state with the chain 5, 9.\<close>

lemma demo_chain:
  "\<exists>s. fat_ok demo_driver disk_read demo_M {16, 32} demo_V 1 demo_dpb s
    \<and> cchain {2..max_cluster demo_dpb} (fat_at disk_read {16, 32} demo_dpb s) 5 [5, 9]
    \<and> fat_at disk_read {16, 32} demo_dpb s = (\<lambda>c. FREE)(5 := 9, 9 := LONG_LAST_CLUSTER)"
proof -
  have "\<forall>(c, v) \<in> set [(5, 9), (9, LONG_LAST_CLUSTER)]. in_fat demo_dpb c \<and> storable demo_dpb v"
    using demo_format(3) by (simp add: in_fat_def storable_def)
  from writes_ok [OF demo_fat this] obtain s where s: "fat_ok demo_driver disk_read demo_M {16, 32} demo_V 1 demo_dpb s"
    "fat_at disk_read {16, 32} demo_dpb s = (\<lambda>c. FREE)(5 := 9, 9 := LONG_LAST_CLUSTER)" by (auto simp: demo_table)
  then show ?thesis using demo_format(3) by (intro exI [of _ s]) auto
qed

theorem wipe_out_clusters_releases_witness:
  "\<exists>s s'. cchain {2..max_cluster demo_dpb} (fat_at disk_read {16, 32} demo_dpb s) 5 [5, 9]
    \<and> wipe_out_clusters demo_driver 1 5 s = Some s' \<and> fat_at disk_read {16, 32} demo_dpb s' 9 = FREE"
proof -
  obtain s where s: "fat_ok demo_driver disk_read demo_M {16, 32} demo_V 1 demo_dpb s"
    "cchain {2..max_cluster demo_dpb} (fat_at disk_read {16, 32} demo_dpb s) 5 [5, 9]" using demo_chain by blast
  from wipe_out_clusters_releases [OF s] obtain s' where "wipe_out_clusters demo_driver 1 5 s = Some s'"
    "fat_at disk_read {16, 32} demo_dpb s' 9 = FREE" by auto
  with s(2) show ?thesis by blast
qed

subsection \<open>Appending a cluster\<close>

lemma in_fat_start:
  assumes "fat_ok drv rd M X V dp g s" "in_fat g e"
  shows "getdstart (dpbs s dp) (setdstart (dpbs s dp) e d) = e"
proof (rule dstart_round)
  note k = fat_ok_sel [OF assms(1)] and q = geom_eq [OF fat_ok_sel(2) [OF assms(1)]]
  show "ISFAT32 (dpbs s dp) \<or> unat e < 65536"
    using assms(2) max_cluster_small [OF k(1)] q(2) by (auto simp: in_fat_def word_le_nat_alt)
qed

lemma extend_chain_empty:
  assumes ok: "fat_ok drv rd M X V (f_dpb fn) g s" and fn: "f_cluster fn = FREE"
    and fr: "\<exists>c. in_fat g c \<and> fat_at rd X g s c = FREE"
  shows "\<exists>e s'. extend_chain drv fn s = Some (e, fn\<lparr>f_dir := setdstart (dpbs s' (f_dpb fn)) e (f_dir fn)\<rparr>, s')
    \<and> fat_ok drv rd M X V (f_dpb fn) g s' \<and> in_fat g e \<and> fat_at rd X g s e = FREE
    \<and> fat_at rd X g s' = (fat_at rd X g s)(e := LONG_LAST_CLUSTER)"
proof -
  have "\<exists>c. in_fat g c" using fr by blast
  from find_fat_free_ok [OF ok this] fr obtain e s1 where e: "find_fat_free drv (f_dpb fn) s = Some (e, s1)"
    "fat_ok drv rd M X V (f_dpb fn) g s1" "fat_at rd X g s1 = fat_at rd X g s" "in_fat g e" "fat_at rd X g s e = FREE" by auto
  have nl: "e \<noteq> LONG_LAST_CLUSTER" using e(4) ft.last_outside [OF ok] by (auto simp: in_fat_iff)
  obtain s2 where s2: "link_fat drv (f_dpb fn) e LONG_LAST_CLUSTER s1 = Some (0, s2)" "fat_ok drv rd M X V (f_dpb fn) g s2"
    "fat_at rd X g s2 = (fat_at rd X g s)(e := LONG_LAST_CLUSTER)"
    using ft.store [OF e(2), of e LONG_LAST_CLUSTER] e(3,4) by (auto simp: in_fat_iff)
  have "extend_chain drv fn s = Some (e, fn\<lparr>f_dir := setdstart (dpbs s2 (f_dpb fn)) e (f_dir fn)\<rparr>, s2)"
    using e(1) nl s2(1) fn by (simp add: extend_chain_def)
  with s2 e show ?thesis by blast
qed

lemma extend_chain_append:
  assumes ok: "fat_ok drv rd M X V (f_dpb fn) g s" and ch: "in_fat g (f_cluster fn)" "fat_at rd X g s (f_cluster fn) = LONG_LAST_CLUSTER"
    and fr: "\<exists>c. in_fat g c \<and> fat_at rd X g s c = FREE"
  shows "\<exists>e s'. extend_chain drv fn s = Some (e, fn, s') \<and> fat_ok drv rd M X V (f_dpb fn) g s' \<and> in_fat g e
    \<and> fat_at rd X g s e = FREE \<and> fat_at rd X g s' = (fat_at rd X g s)(f_cluster fn := e, e := LONG_LAST_CLUSTER)"
proof -
  let ?c = "f_cluster fn"
  have "\<exists>c. in_fat g c" using fr by blast
  from find_fat_free_ok [OF ok this] fr obtain e s1 where e: "find_fat_free drv (f_dpb fn) s = Some (e, s1)"
    "fat_ok drv rd M X V (f_dpb fn) g s1" "fat_at rd X g s1 = fat_at rd X g s" "in_fat g e" "fat_at rd X g s e = FREE" by auto
  have nl: "e \<noteq> LONG_LAST_CLUSTER" using e(4) ft.last_outside [OF ok] by (auto simp: in_fat_iff)
  have ne: "e \<noteq> ?c" using e(5) ch(2) by (auto simp: fat_consts)
  obtain s2 where s2: "link_fat drv (f_dpb fn) e LONG_LAST_CLUSTER s1 = Some (0, s2)" "fat_ok drv rd M X V (f_dpb fn) g s2"
    "fat_at rd X g s2 = (fat_at rd X g s)(e := LONG_LAST_CLUSTER)"
    using ft.store [OF e(2), of e LONG_LAST_CLUSTER] e(3,4) by (auto simp: in_fat_iff)
  obtain s3 where s3: "next_cluster drv (f_dpb fn) ?c s2 = Some (LONG_LAST_CLUSTER, s3)" "fat_ok drv rd M X V (f_dpb fn) g s3"
    "fat_at rd X g s3 = fat_at rd X g s2"
    using ft.follow [OF s2(2), of ?c] s2(3) ne ch by (auto simp: in_fat_iff)
  obtain s4 where s4: "link_fat drv (f_dpb fn) ?c e s3 = Some (0, s4)" "fat_ok drv rd M X V (f_dpb fn) g s4"
    "fat_at rd X g s4 = (fat_at rd X g s3)(?c := e)"
    using ft.store [OF s3(2), of ?c e] ch(1) e(4) by (auto simp: in_fat_iff)
  have nf: "?c \<noteq> FREE" using ch(1) by (auto simp: in_fat_def fat_consts word_le_nat_alt)
  have "extend_chain drv fn s = Some (e, fn, s4)" using e(1) nl s2(1) nf s3(1) s4(1) by (simp add: extend_chain_def)
  moreover have "fat_at rd X g s4 = (fat_at rd X g s)(?c := e, e := LONG_LAST_CLUSTER)"
    using s4(3) s3(3) s2(3) ne by (auto simp: fun_eq_iff)
  ultimately show ?thesis using s4(2) e(4,5) by blast
qed

lemma extend_chain_full:
  assumes ok: "fat_ok drv rd M X V (f_dpb fn) g s" and c: "\<exists>c. in_fat g c" and fr: "\<not> (\<exists>c. in_fat g c \<and> fat_at rd X g s c = FREE)"
  shows "\<exists>s'. extend_chain drv fn s = Some (LONG_LAST_CLUSTER, fn, s') \<and> fat_ok drv rd M X V (f_dpb fn) g s'
    \<and> fat_at rd X g s' = fat_at rd X g s"
  using find_fat_free_ok [OF ok c] fr by (auto simp: extend_chain_def)

text \<open>
  Growing a file by a cluster: while a cluster is free, the clusters of the file afterwards are the
  clusters before and one that was free, also for a file that had none, and no entry of any other
  chain changes; on a full disk the end mark is returned and neither the table nor the node changes.
\<close>

lemma extend_chain_grows:
  assumes ok: "fat_ok drv rd M X V (f_dpb fn) g s" and c: "\<exists>c. in_fat g c"
    and cs: "clusters_of g (fat_at rd X g s) (getdstart g (f_dir fn)) cs"
    and cl: "f_cluster fn = (if cs = [] then FREE else last cs)"
  shows "\<exists>e fn' s'. extend_chain drv fn s = Some (e, fn', s') \<and> fat_ok drv rd M X V (f_dpb fn) g s'
    \<and> (if \<exists>c. in_fat g c \<and> fat_at rd X g s c = FREE
       then in_fat g e \<and> fat_at rd X g s e = FREE
         \<and> clusters_of g (fat_at rd X g s') (getdstart g (f_dir fn')) (cs @ [e])
         \<and> (\<forall>x. x \<notin> set (cs @ [e]) \<longrightarrow> fat_at rd X g s' x = fat_at rd X g s x)
       else e = LONG_LAST_CLUSTER \<and> fn' = fn \<and> fat_at rd X g s' = fat_at rd X g s)"
proof (cases "\<exists>c. in_fat g c \<and> fat_at rd X g s c = FREE")
  case False
  then show ?thesis using extend_chain_full [OF ok c] by auto
next
  case fr: True
  note q = geom_eq [OF fat_ok_sel(2) [OF ok]]
  show ?thesis
  proof (cases "cs = []")
    case True
    obtain e s' where e: "extend_chain drv fn s = Some (e, fn\<lparr>f_dir := setdstart (dpbs s' (f_dpb fn)) e (f_dir fn)\<rparr>, s')"
      "fat_ok drv rd M X V (f_dpb fn) g s'" "in_fat g e" "fat_at rd X g s e = FREE"
      "fat_at rd X g s' = (fat_at rd X g s)(e := LONG_LAST_CLUSTER)" using extend_chain_empty [OF ok _ fr] cl True by auto
    have "getdstart g d = getdstart (dpbs s' (f_dpb fn)) d" for d using geom_eq(2) [OF fat_ok_sel(2) [OF e(2)]] by (simp add: getdstart_def)
    then have "getdstart g (setdstart (dpbs s' (f_dpb fn)) e (f_dir fn)) = e" using in_fat_start [OF e(2,3)] by simp
    with e fr True show ?thesis by (auto simp: clusters_of_def in_fat_iff)
  next
    case False
    let ?E = "fat_at rd X g s"
    have ch: "cchain {2..max_cluster g} ?E (getdstart g (f_dir fn)) cs" using cs False by (simp add: clusters_of_def)
    obtain xs d where cs': "cs = xs @ [d]" using False by (metis rev_exhaust)
    have d: "in_fat g d" "?E d = LONG_LAST_CLUSTER" using cchain_set [OF ch] cchain_last [OF ch] cs' by (auto simp: in_fat_iff)
    obtain e s' where e: "extend_chain drv fn s = Some (e, fn, s')" "fat_ok drv rd M X V (f_dpb fn) g s'" "in_fat g e" "?E e = FREE"
      "fat_at rd X g s' = ?E(d := e, e := LONG_LAST_CLUSTER)" using extend_chain_append [OF ok _ _ fr] d cl cs' by auto
    have "cchain {2..max_cluster g} (fat_at rd X g s') (getdstart g (f_dir fn)) (xs @ [d, e])"
      unfolding e(5) using ch cs' e(3) cchain_used [OF ch e(4)] ft.last_outside [OF ok] by (intro cchain_append) (auto simp: in_fat_iff)
    then have "clusters_of g (fat_at rd X g s') (getdstart g (f_dir fn)) (cs @ [e])" by (simp add: clusters_of_def cs')
    with e fr cs' show ?thesis by auto
  qed
qed

definition demo_node :: "u32 \<Rightarrow> u16 \<Rightarrow> f_node" where
  "demo_node c st = \<lparr>f_flags = 0, f_dir = dirent0\<lparr>dir_start := st\<rparr>, f_dirsector = 0, f_diridx = 0, f_dpb = 1, f_offset = 0,
     f_cluster_offset = 0, f_cluster = c, f_sft_idx = 0\<rparr>"

lemma demo_node_start: "getdstart demo_dpb (f_dir (demo_node c st)) = ucast st"
  by (simp add: demo_node_def getdstart_def ISFAT32_def demo_dpb_def)

lemma extend_chain_grows_witness:
  "\<exists>s e fn' s'. extend_chain demo_driver (demo_node 9 5) s = Some (e, fn', s')
    \<and> clusters_of demo_dpb (fat_at disk_read {16, 32} demo_dpb s') (getdstart demo_dpb (f_dir fn')) [5, 9, e]"
proof -
  obtain s where s: "fat_ok demo_driver disk_read demo_M {16, 32} demo_V 1 demo_dpb s"
    "cchain {2..max_cluster demo_dpb} (fat_at disk_read {16, 32} demo_dpb s) 5 [5, 9]"
    "fat_at disk_read {16, 32} demo_dpb s = (\<lambda>c. FREE)(5 := 9, 9 := LONG_LAST_CLUSTER)" using demo_chain by blast
  have "\<exists>c. in_fat demo_dpb c \<and> fat_at disk_read {16, 32} demo_dpb s c = FREE"
    using demo_format(3) by (intro exI [of _ 3]) (simp add: s(3) in_fat_def)
  then have c: "\<exists>c. in_fat demo_dpb c" "\<exists>c. in_fat demo_dpb c \<and> fat_at disk_read {16, 32} demo_dpb s c = FREE" by blast+
  have n: "fat_ok demo_driver disk_read demo_M {16, 32} demo_V (f_dpb (demo_node 9 5)) demo_dpb s" "f_cluster (demo_node 9 5) = (if [5, 9] = ([] :: u32 list) then FREE else last [5, 9])"
    using s(1) by (simp_all add: demo_node_def)
  have cl: "clusters_of demo_dpb (fat_at disk_read {16, 32} demo_dpb s) (getdstart demo_dpb (f_dir (demo_node 9 5))) [5, 9]"
    using s(2) by (simp add: clusters_of_def demo_node_start)
  from extend_chain_grows [OF n(1) c(1) cl n(2)] c(2) show ?thesis by (simp only: if_True) auto
qed

subsection \<open>The cluster of a file position\<close>

text \<open>The index of the cluster that holds the position of a node.\<close>

definition rel_cluster :: "dpb \<Rightarrow> u32 \<Rightarrow> nat" where
  "rel_cluster d off = unat off div (unat (dpb_secsize d) * 2 ^ unat (dpb_shftcnt d))"

lemma rel_cluster_word:
  "unat (drop_bit (unat (dpb_shftcnt d)) (off div ucast (dpb_secsize d)) :: u32) = rel_cluster d off"
proof -
  have "unat (ucast (dpb_secsize d) :: u32) = unat (dpb_secsize d)" by simp
  then show ?thesis unfolding unat_drop_bit_eq by (simp add: rel_cluster_def drop_bit_eq_div unat_div div_mult2_eq)
qed

text \<open>A node is at a cluster of its chain: \<open>f_cluster_offset\<close> is the index of \<open>f_cluster\<close>.\<close>

definition node_at :: "u32 list \<Rightarrow> f_node \<Rightarrow> bool" where
  "node_at cs fn \<longleftrightarrow> unat (f_cluster_offset fn) < length cs \<and> f_cluster fn = cs ! unat (f_cluster_offset fn)"

lemma last_big: "\<not> LONG_LAST_CLUSTER \<le> 1"
  by (simp add: fat_consts word_le_nat_alt)

text \<open>One round of the loop: on a chain that goes on, and at its end.\<close>

lemma next_at:
  assumes ok: "fat_ok drv rd M X V dp g s" and ch: "cchain {2..max_cluster g} (fat_at rd X g s) c cs" and i: "i < length cs"
  shows "\<exists>s1. next_cluster drv dp (cs ! i) s = Some (if Suc i < length cs then cs ! Suc i else LONG_LAST_CLUSTER, s1)
    \<and> fat_ok drv rd M X V dp g s1 \<and> fat_at rd X g s1 = fat_at rd X g s"
proof -
  have "cchain {2..max_cluster g} (fat_at rd X g s) (cs ! i) (cs ! i # drop (Suc i) cs)"
    using cchain_drop [OF ch i] i by (simp add: Cons_nth_drop_Suc)
  from ft.follow_chain [OF ok this] show ?thesis unfolding cchain_at [OF ch i] .
qed

lemma next_big:
  assumes "fat_ok drv rd M X V dp g s" "cchain {2..max_cluster g} E c cs"
  shows "\<not> (if i < length cs then cs ! i else LONG_LAST_CLUSTER) \<le> 1"
    "i < length cs \<Longrightarrow> cs ! i \<noteq> LONG_LAST_CLUSTER"
proof -
  have "cs ! i \<in> {2..max_cluster g}" if "i < length cs" using subsetD [OF cchain_set [OF assms(2)] nth_mem [OF that]] .
  then show "\<not> (if i < length cs then cs ! i else LONG_LAST_CLUSTER) \<le> 1" "i < length cs \<Longrightarrow> cs ! i \<noteq> LONG_LAST_CLUSTER"
    using ft.last_outside [OF assms(1)] last_big by (auto simp: word_le_nat_alt)
qed

lemma map_follow:
  assumes ok: "fat_ok drv rd M X V (f_dpb fn) g s" and ch: "cchain {2..max_cluster g} (fat_at rd X g s) c cs" and at: "node_at cs fn"
  shows "\<exists>s1. next_cluster drv (f_dpb fn) (f_cluster fn) s
      = Some (if Suc (unat (f_cluster_offset fn)) < length cs then cs ! Suc (unat (f_cluster_offset fn)) else LONG_LAST_CLUSTER, s1)
    \<and> fat_ok drv rd M X V (f_dpb fn) g s1 \<and> fat_at rd X g s1 = fat_at rd X g s"
  using next_at [OF ok ch, of "unat (f_cluster_offset fn)"] at by (simp add: node_at_def)

lemma map_next:
  assumes ok: "fat_ok drv rd M X V (f_dpb fn) g s" and ch: "cchain {2..max_cluster g} (fat_at rd X g s) c cs" and at: "node_at cs fn"
    and k: "f_cluster_offset fn \<noteq> k" and more: "Suc (unat (f_cluster_offset fn)) < length cs"
  shows "\<exists>s1. map_body drv mode k (fn, s)
      = Some (Inr (fn\<lparr>f_cluster := cs ! Suc (unat (f_cluster_offset fn)), f_cluster_offset := f_cluster_offset fn + 1\<rparr>, s1))
    \<and> fat_ok drv rd M X V (f_dpb fn) g s1 \<and> fat_at rd X g s1 = fat_at rd X g s"
  using map_follow [OF ok ch at] k more next_big [OF ok ch, of "Suc (unat (f_cluster_offset fn))"] by (auto simp: map_body_def)

lemma offset_up:
  fixes i k :: u32
  shows "unat i < unat k \<Longrightarrow> unat (i + 1) = Suc (unat i)"
  using unsigned_less [of k, where 'a = nat] by (subst unat_word_ariths) simp

lemma map_read_loop:
  assumes ok: "fat_ok drv rd M X V (f_dpb fn) g s" and ch: "cchain {2..max_cluster g} (fat_at rd X g s) c cs"
    and at: "node_at cs fn" and k: "unat (f_cluster_offset fn) \<le> unat k"
  shows "\<exists>s'. loopM (map_body drv XFR_READ k) (fn, s)
      = Some (if unat k < length cs then SUCCESS else DE_SEEK,
              let i = min (unat k) (length cs - 1) in fn\<lparr>f_cluster := cs ! i, f_cluster_offset := of_nat i\<rparr>, s')
    \<and> fat_ok drv rd M X V (f_dpb fn) g s' \<and> fat_at rd X g s' = fat_at rd X g s"
  using assms
proof (induction "unat k - unat (f_cluster_offset fn)" arbitrary: fn s rule: less_induct)
  case less
  let ?i = "unat (f_cluster_offset fn)" and ?b = "map_body drv XFR_READ k"
  have i: "?i < length cs" "fn\<lparr>f_cluster := cs ! ?i, f_cluster_offset := of_nat ?i\<rparr> = fn" using less.prems(3) by (auto simp: node_at_def)
  show ?case
  proof (cases "f_cluster_offset fn = k")
    case True
    then have "?b (fn, s) = Some (Inl (SUCCESS, fn, s))" by (simp add: map_body_def)
    moreover have "min (unat k) (length cs - 1) = ?i" "unat k < length cs" using i(1) True by auto
    ultimately show ?thesis using less.prems(1) i(2) by (simp add: loopM_Inl Let_def)
  next
    case False
    then have lt: "?i < unat k" using less.prems(4) by (simp add: word_unat_eq_iff)
    show ?thesis
    proof (cases "Suc ?i < length cs")
      case True
      let ?fn = "fn\<lparr>f_cluster := cs ! Suc ?i, f_cluster_offset := f_cluster_offset fn + 1\<rparr>"
      obtain s1 where s1: "?b (fn, s) = Some (Inr (?fn, s1))" "fat_ok drv rd M X V (f_dpb fn) g s1" "fat_at rd X g s1 = fat_at rd X g s"
        using map_next [OF less.prems(1-3) False True] by blast
      have "\<exists>s'. loopM ?b (?fn, s1) = Some (if unat k < length cs then SUCCESS else DE_SEEK,
          let i = min (unat k) (length cs - 1) in ?fn\<lparr>f_cluster := cs ! i, f_cluster_offset := of_nat i\<rparr>, s')
        \<and> fat_ok drv rd M X V (f_dpb ?fn) g s' \<and> fat_at rd X g s' = fat_at rd X g s1"
        using lt offset_up [OF lt] True s1 less.prems(2) by (intro less.hyps) (simp_all add: node_at_def)
      then show ?thesis using loopM_Inr [of ?b, OF s1(1)] s1(3) by (simp add: Let_def)
    next
      case stop: False
      obtain s1 where "?b (fn, s) = Some (Inl (DE_SEEK, fn, s1))" "fat_ok drv rd M X V (f_dpb fn) g s1" "fat_at rd X g s1 = fat_at rd X g s"
        using map_follow [OF less.prems(1-3)] False stop by (auto simp: map_body_def last_big)
      moreover have "min (unat k) (length cs - 1) = ?i" "\<not> unat k < length cs" using i(1) stop lt by auto
      ultimately show ?thesis using i(2) by (simp add: loopM_Inl Let_def)
    qed
  qed
qed

text \<open>Writing extends the chain as far as needed, by clusters that were free.\<close>

definition grown :: "dpb \<Rightarrow> (u32 \<Rightarrow> u32) \<Rightarrow> (u32 \<Rightarrow> u32) \<Rightarrow> u32 list \<Rightarrow> u32 list \<Rightarrow> bool" where
  "grown g E E' cs es \<longleftrightarrow> (\<forall>x. x \<notin> set (cs @ es) \<longrightarrow> E' x = E x) \<and> (\<forall>x \<in> set es. in_fat g x \<and> E x = FREE)"

text \<open>
  The outcome of a request for cluster \<open>k\<close>: the node is there and the chain was extended only if it was
  too short, or the disk is full and the chain is still too short.
\<close>

definition reached :: "dpb \<Rightarrow> (u32 \<Rightarrow> u32) \<Rightarrow> u32 list \<Rightarrow> u32 list \<Rightarrow> nat \<Rightarrow> int \<Rightarrow> f_node \<Rightarrow> bool" where
  "reached g E' cs es k r fn \<longleftrightarrow>
     (if r = SUCCESS then unat (f_cluster_offset fn) = k \<and> length (cs @ es) = max (length cs) (Suc k)
      else r = DE_HNDLDSKFULL \<and> length (cs @ es) \<le> k \<and> \<not> (\<exists>c. in_fat g c \<and> E' c = FREE))"

lemma grown_trans:
  assumes "grown g E E1 cs ds" "grown g E1 E2 (cs @ ds) es" "distinct (cs @ ds @ es)"
  shows "grown g E E2 cs (ds @ es)"
  unfolding grown_def
proof (intro conjI allI impI ballI)
  fix x assume x: "x \<in> set (ds @ es)"
  show "in_fat g x" using x assms(1,2) by (auto simp: grown_def)
  show "E x = FREE"
  proof (cases "x \<in> set ds")
    case False
    then have "x \<in> set es" "x \<notin> set (cs @ ds)" using x assms(3) by auto
    then have "E1 x = FREE" "E1 x = E x" using assms(1,2) by (auto simp: grown_def)
    then show ?thesis by simp
  qed (use assms(1) in \<open>simp add: grown_def\<close>)
qed (use assms(1,2) in \<open>simp add: grown_def\<close>)

lemma map_extend:
  assumes ok: "fat_ok drv rd M X V (f_dpb fn) g s" and ch: "cchain {2..max_cluster g} (fat_at rd X g s) c cs" and at: "node_at cs fn"
    and k: "f_cluster_offset fn \<noteq> k" and mode: "mode \<noteq> XFR_READ" and stop: "\<not> Suc (unat (f_cluster_offset fn)) < length cs"
    and fr: "\<exists>c. in_fat g c \<and> fat_at rd X g s c = FREE"
  shows "\<exists>e s2. map_body drv mode k (fn, s) = Some (Inr (fn\<lparr>f_cluster := e, f_cluster_offset := f_cluster_offset fn + 1\<rparr>, s2))
    \<and> fat_ok drv rd M X V (f_dpb fn) g s2 \<and> cchain {2..max_cluster g} (fat_at rd X g s2) c (cs @ [e])
    \<and> grown g (fat_at rd X g s) (fat_at rd X g s2) cs [e]"
proof -
  let ?i = "unat (f_cluster_offset fn)" and ?E = "fat_at rd X g s"
  have i: "?i < length cs" "f_cluster fn = cs ! ?i" using at by (auto simp: node_at_def)
  obtain s1 where s1: "next_cluster drv (f_dpb fn) (f_cluster fn) s = Some (LONG_LAST_CLUSTER, s1)"
    "fat_ok drv rd M X V (f_dpb fn) g s1" "fat_at rd X g s1 = ?E" using map_follow [OF ok ch at] stop by auto
  have E: "fat_at rd X g s1 (f_cluster fn) = LONG_LAST_CLUSTER" "in_fat g (f_cluster fn)"
    using cchain_at [OF ch i(1)] stop i s1(3) subsetD [OF cchain_set [OF ch] nth_mem [OF i(1)]] by (simp_all add: in_fat_iff)
  obtain e s2 where e: "extend_chain drv fn s1 = Some (e, fn, s2)" "fat_ok drv rd M X V (f_dpb fn) g s2" "in_fat g e" "?E e = FREE"
    "fat_at rd X g s2 = ?E(f_cluster fn := e, e := LONG_LAST_CLUSTER)" using extend_chain_append [OF s1(2) E(2,1)] fr s1(3) by auto
  have "length cs = Suc ?i" using i(1) stop by simp
  then have "cs \<noteq> []" "f_cluster fn = last cs" using i(2) by (auto simp: last_conv_nth simp flip: length_0_conv)
  then obtain xs where xs: "cs = xs @ [f_cluster fn]" by (metis append_butlast_last_id)
  have eo: "e \<notin> set cs" using cchain_used [OF ch e(4)] .
  have "cchain {2..max_cluster g} (fat_at rd X g s2) c (xs @ [f_cluster fn, e])"
    unfolding e(5) using ch xs e(3) eo ft.last_outside [OF ok] by (intro cchain_append) (auto simp: in_fat_iff)
  moreover have "e \<noteq> LONG_LAST_CLUSTER" using e(3) ft.last_outside [OF ok] by (auto simp: in_fat_iff)
  then have "map_body drv mode k (fn, s) = Some (Inr (fn\<lparr>f_cluster := e, f_cluster_offset := f_cluster_offset fn + 1\<rparr>, s2))"
    using k s1(1) e(1) mode by (simp add: map_body_def last_big)
  moreover have "grown g ?E (fat_at rd X g s2) cs [e]" using e(3-5) xs by (auto simp: grown_def)
  ultimately show ?thesis using e(2) xs by auto
qed

lemma map_full:
  assumes ok: "fat_ok drv rd M X V (f_dpb fn) g s" and ch: "cchain {2..max_cluster g} (fat_at rd X g s) c cs" and at: "node_at cs fn"
    and k: "f_cluster_offset fn \<noteq> k" and mode: "mode \<noteq> XFR_READ" and stop: "\<not> Suc (unat (f_cluster_offset fn)) < length cs"
    and full: "\<not> (\<exists>c. in_fat g c \<and> fat_at rd X g s c = FREE)"
  shows "\<exists>s2. map_body drv mode k (fn, s) = Some (Inl (DE_HNDLDSKFULL, fn, s2)) \<and> fat_ok drv rd M X V (f_dpb fn) g s2
    \<and> fat_at rd X g s2 = fat_at rd X g s"
proof -
  obtain s1 where s1: "next_cluster drv (f_dpb fn) (f_cluster fn) s = Some (LONG_LAST_CLUSTER, s1)"
    "fat_ok drv rd M X V (f_dpb fn) g s1" "fat_at rd X g s1 = fat_at rd X g s" using map_follow [OF ok ch at] stop by auto
  have "unat (f_cluster_offset fn) < length cs" using at by (simp add: node_at_def)
  from subsetD [OF cchain_set [OF ch] nth_mem [OF this]] have "\<exists>c. in_fat g c" by (auto simp: in_fat_iff)
  from extend_chain_full [OF s1(2) this] full s1(3) obtain s2 where "extend_chain drv fn s1 = Some (LONG_LAST_CLUSTER, fn, s2)"
    "fat_ok drv rd M X V (f_dpb fn) g s2" "fat_at rd X g s2 = fat_at rd X g s" by auto
  then show ?thesis using k s1(1) mode by (simp add: map_body_def last_big)
qed

definition moved :: "f_node \<Rightarrow> f_node \<Rightarrow> bool" where
  "moved fn fn' \<longleftrightarrow> fn' = fn\<lparr>f_cluster := f_cluster fn', f_cluster_offset := f_cluster_offset fn'\<rparr>"

lemma moved_refl: "moved fn fn"
  by (simp add: moved_def)

lemma moved_trans: "moved fn fn1 \<Longrightarrow> moved fn1 fn2 \<Longrightarrow> moved fn fn2" "moved fn fn1 \<Longrightarrow> f_dpb fn1 = f_dpb fn"
  by (cases fn; cases fn1; cases fn2; simp add: moved_def)+

lemma moved_fields:
  assumes "moved fn fn'"
  shows "f_offset fn' = f_offset fn" "f_dir fn' = f_dir fn" "f_dpb fn' = f_dpb fn" "f_sft_idx fn' = f_sft_idx fn"
    "f_flags fn' = f_flags fn"
  using assms by (cases fn; cases fn'; simp add: moved_def)+

text \<open>Nodes that differ only in where they are in the chain and where the chain starts.\<close>

definition alike :: "f_node \<Rightarrow> f_node \<Rightarrow> bool" where
  "alike fn fn' \<longleftrightarrow> f_offset fn' = f_offset fn \<and> dir_size (f_dir fn') = dir_size (f_dir fn) \<and> f_dpb fn' = f_dpb fn \<and> f_sft_idx fn' = f_sft_idx fn
     \<and> f_flags fn' = f_flags fn"

lemma alike_trans: "alike a b \<Longrightarrow> alike b c \<Longrightarrow> alike a c"
  by (simp add: alike_def)

lemma moved_same: "moved fn fn' \<Longrightarrow> alike fn fn'"
  using moved_fields [of fn fn'] by (simp add: alike_def)

definition mapped :: "'d driver \<Rightarrow> ('d \<Rightarrow> u16 \<Rightarrow> u8 \<Rightarrow> u32 \<Rightarrow> u8 list) \<Rightarrow> (u8 \<times> u32) set \<Rightarrow> u16 set \<Rightarrow>
    (u8 \<Rightarrow> u32 \<Rightarrow> u8 list) \<Rightarrow> dpb \<Rightarrow> u32 \<Rightarrow> u32 list \<Rightarrow> nat \<Rightarrow> f_node \<Rightarrow> 'd kst \<Rightarrow> int \<times> f_node \<times> 'd kst \<Rightarrow> bool" where
  "mapped drv rd M X V g c cs k fn s v \<longleftrightarrow> (case v of (r, fn', s') \<Rightarrow>
     fat_ok drv rd M X V (f_dpb fn) g s' \<and> moved fn fn'
     \<and> (\<exists>es. cchain {2..max_cluster g} (fat_at rd X g s') c (cs @ es) \<and> node_at (cs @ es) fn'
         \<and> grown g (fat_at rd X g s) (fat_at rd X g s') cs es \<and> reached g (fat_at rd X g s') cs es k r fn'))"

lemma mapped_trans:
  assumes v: "mapped drv rd M X V g c (cs @ ds) k fn1 s1 v" and fn: "moved fn fn1"
    and gr: "grown g (fat_at rd X g s) (fat_at rd X g s1) cs ds" and len: "length (cs @ ds) \<le> max (length cs) (Suc k)"
  shows "mapped drv rd M X V g c cs k fn s v"
proof -
  obtain r fn' s' where v': "v = (r, fn', s')" by (cases v)
  obtain es where r: "fat_ok drv rd M X V (f_dpb fn1) g s'" "moved fn1 fn'" "cchain {2..max_cluster g} (fat_at rd X g s') c (cs @ ds @ es)"
    "node_at (cs @ ds @ es) fn'" "grown g (fat_at rd X g s1) (fat_at rd X g s') (cs @ ds) es" "reached g (fat_at rd X g s') (cs @ ds) es k r fn'"
    using v unfolding mapped_def v' by auto
  have "grown g (fat_at rd X g s) (fat_at rd X g s') cs (ds @ es)"
    using grown_trans [OF gr r(5)] cchain_distinct [OF ft.last_outside [OF r(1)] r(3)] by simp
  moreover have "reached g (fat_at rd X g s') cs (ds @ es) k r fn'" using r(6) len by (auto simp: reached_def)
  moreover have "moved fn fn'" "f_dpb fn1 = f_dpb fn" using moved_trans fn r(2) by blast+
  ultimately show ?thesis unfolding mapped_def v' using r(1,3,4) by auto
qed

lemma map_write_loop:
  assumes ok: "fat_ok drv rd M X V (f_dpb fn) g s" and ch: "cchain {2..max_cluster g} (fat_at rd X g s) c cs"
    and at: "node_at cs fn" and k: "unat (f_cluster_offset fn) \<le> unat k" and mode: "mode \<noteq> XFR_READ"
  shows "\<exists>v. loopM (map_body drv mode k) (fn, s) = Some v \<and> mapped drv rd M X V g c cs (unat k) fn s v"
  using assms(1-4)
proof (induction "unat k - unat (f_cluster_offset fn)" arbitrary: fn s cs rule: less_induct)
  case less
  let ?i = "unat (f_cluster_offset fn)" and ?b = "map_body drv mode k"
  have i: "?i < length cs" using less.prems(3) by (auto simp: node_at_def)
  show ?case
  proof (cases "f_cluster_offset fn = k")
    case True
    then have "?b (fn, s) = Some (Inl (SUCCESS, fn, s))" by (simp add: map_body_def)
    moreover have "mapped drv rd M X V g c cs (unat k) fn s (SUCCESS, fn, s)"
      unfolding mapped_def using less.prems i True by (auto simp: moved_refl grown_def reached_def intro!: exI [of _ "[]"])
    ultimately show ?thesis by (simp add: loopM_Inl)
  next
    case False
    then have lt: "?i < unat k" using less.prems(4) by (simp add: word_unat_eq_iff)
    have go: ?thesis if st: "?b (fn, s) = Some (Inr (fn\<lparr>f_cluster := (cs @ ds) ! Suc ?i, f_cluster_offset := f_cluster_offset fn + 1\<rparr>, s2))"
      and s2: "fat_ok drv rd M X V (f_dpb fn) g s2" "cchain {2..max_cluster g} (fat_at rd X g s2) c (cs @ ds)"
        "grown g (fat_at rd X g s) (fat_at rd X g s2) cs ds"
      and len: "Suc ?i < length (cs @ ds)" "length (cs @ ds) \<le> max (length cs) (Suc (Suc ?i))" for ds s2
    proof -
      let ?fn = "fn\<lparr>f_cluster := (cs @ ds) ! Suc ?i, f_cluster_offset := f_cluster_offset fn + 1\<rparr>"
      have "\<exists>v. loopM ?b (?fn, s2) = Some v \<and> mapped drv rd M X V g c (cs @ ds) (unat k) ?fn s2 v"
        using lt offset_up [OF lt] len(1) s2 by (intro less.hyps) (simp_all add: node_at_def)
      moreover have "moved fn ?fn" by (auto simp: moved_def)
      ultimately show ?thesis using loopM_Inr [of ?b, OF st] mapped_trans [OF _ _ s2(3)] len lt by fastforce
    qed
    show ?thesis
    proof (cases "Suc ?i < length cs")
      case True
      then show ?thesis using map_next [OF less.prems(1-3) False True, of mode] less.prems(2) by (auto intro!: go [of "[]"] simp: grown_def simp del: split_paired_Ex)
    next
      case stop: False
      then have l: "length cs = Suc ?i" using i by simp
      show ?thesis
      proof (cases "\<exists>c. in_fat g c \<and> fat_at rd X g s c = FREE")
        case True
        from map_extend [OF less.prems(1-3) False mode stop True] l show ?thesis by (auto intro!: go [of "[_]"] simp: nth_append simp del: split_paired_Ex)
      next
        case full: False
        from map_full [OF less.prems(1-3) False mode stop full] obtain s2 where s2: "?b (fn, s) = Some (Inl (DE_HNDLDSKFULL, fn, s2))"
          "fat_ok drv rd M X V (f_dpb fn) g s2" "fat_at rd X g s2 = fat_at rd X g s" by blast
        then have "mapped drv rd M X V g c cs (unat k) fn s (DE_HNDLDSKFULL, fn, s2)"
          unfolding mapped_def using less.prems l lt full by (auto simp: moved_refl grown_def reached_def errs intro!: exI [of _ "[]"])
        with s2(1) show ?thesis by (simp add: loopM_Inl)
      qed
    qed
  qed
qed

text \<open>
  A node and its chain: the chain starts at the cluster of the directory searched (for a directory) or
  at the one in the directory entry (for a file), and the node is at a cluster of it, if there is one.
\<close>

definition node_start :: "u32 \<Rightarrow> dpb \<Rightarrow> f_node \<Rightarrow> u32" where
  "node_start dircl g fn = (if f_sft_idx fn = 0xff then dircl else getdstart g (f_dir fn))"

definition node_ok :: "dpb \<Rightarrow> (u32 \<Rightarrow> u32) \<Rightarrow> u32 \<Rightarrow> u32 list \<Rightarrow> f_node \<Rightarrow> bool" where
  "node_ok g E dircl cs fn \<longleftrightarrow> clusters_of g E (node_start dircl g fn) cs
     \<and> (if cs = [] then f_cluster fn = FREE \<and> f_cluster_offset fn = 0 \<and> f_sft_idx fn \<noteq> 0xff else node_at cs fn)"

lemma node_offset [simp]: "node_start dircl g (fn\<lparr>f_offset := v\<rparr>) = node_start dircl g fn" "node_ok g E dircl cs (fn\<lparr>f_offset := v\<rparr>) = node_ok g E dircl cs fn"
  by (simp_all add: node_ok_def node_at_def node_start_def)

lemma geom_pos:
  assumes "geom d = geom g"
  shows "dpb_secsize d = dpb_secsize g" "dpb_shftcnt d = dpb_shftcnt g" "getdstart d = getdstart g" "rel_cluster d = rel_cluster g"
proof -
  have "dpb_secsize (geom d) = dpb_secsize (geom g)" "dpb_shftcnt (geom d) = dpb_shftcnt (geom g)" using assms by simp_all
  then show "dpb_secsize d = dpb_secsize g" "dpb_shftcnt d = dpb_shftcnt g" by (simp_all add: geom_def)
  then show "getdstart d = getdstart g" "rel_cluster d = rel_cluster g"
    using geom_eq(2) [OF assms] by (simp_all add: fun_eq_iff getdstart_def rel_cluster_def)
qed

lemma node_used: "node_ok g E dircl cs fn \<Longrightarrow> f_cluster fn = FREE \<longleftrightarrow> cs = []"
proof
  assume ok: "node_ok g E dircl cs fn" and f: "f_cluster fn = FREE"
  show "cs = []"
  proof (rule ccontr)
    assume ne: "cs \<noteq> []"
    with ok have "cchain {2..max_cluster g} E (node_start dircl g fn) cs" "node_at cs fn" by (simp_all add: node_ok_def clusters_of_def)
    then have "f_cluster fn \<in> {2..max_cluster g}" using cchain_set unfolding node_at_def by (metis nth_mem subsetD)
    with f show False by (simp add: fat_consts word_le_nat_alt)
  qed
qed (simp add: node_ok_def)

text \<open>Where the loop starts: at the node's position, or at the start of the chain if that lies behind.\<close>

lemma map_start_at:
  assumes ok: "node_ok g E dircl cs fn" and ne: "cs \<noteq> []" and d: "geom d = geom g"
  shows "node_at cs (map_start dircl k d fn)" "unat (f_cluster_offset (map_start dircl k d fn)) \<le> unat k" "moved fn (map_start dircl k d fn)"
proof -
  have "cchain {2..max_cluster g} E (node_start dircl g fn) cs" using ok ne by (simp add: node_ok_def clusters_of_def)
  from cchain_hd [OF this ne] have "node_start dircl g fn = cs ! 0" using ne by (simp add: hd_conv_nth)
  moreover have "node_at cs fn" using ok ne by (simp add: node_ok_def)
  ultimately show "node_at cs (map_start dircl k d fn)" "unat (f_cluster_offset (map_start dircl k d fn)) \<le> unat k"
    using geom_pos(3) [OF d] ne by (auto simp: map_start_def node_at_def node_start_def word_less_nat_alt)
  show "moved fn (map_start dircl k d fn)" by (simp add: map_start_def moved_def)
qed

lemma moved_start: "moved fn fn' \<Longrightarrow> node_start dircl g fn' = node_start dircl g fn"
  by (cases fn; cases fn'; simp add: moved_def node_start_def)

lemma map_cluster_used:
  assumes "f_cluster fn \<noteq> FREE"
  shows "map_cluster drv dircl mode fn s =
    (let d = dpbs s (f_dpb fn); k = drop_bit (unat (dpb_shftcnt d)) (f_offset fn div ucast (dpb_secsize d))
     in loopM (map_body drv mode k) (map_start dircl k d fn, s))"
  using assms by (simp add: map_cluster_def)

lemma map_read_ok:
  assumes ok: "fat_ok drv rd M X V (f_dpb fn) g s" and nd: "node_ok g (fat_at rd X g s) dircl cs fn"
  shows "\<exists>fn' s'. map_cluster drv dircl XFR_READ fn s
      = Some (if rel_cluster g (f_offset fn) < length cs then SUCCESS else DE_SEEK, fn', s')
    \<and> fat_ok drv rd M X V (f_dpb fn) g s' \<and> fat_at rd X g s' = fat_at rd X g s \<and> node_ok g (fat_at rd X g s') dircl cs fn' \<and> moved fn fn'
    \<and> (rel_cluster g (f_offset fn) < length cs \<longrightarrow> f_cluster fn' = cs ! rel_cluster g (f_offset fn))"
proof (cases "cs = []")
  case True
  then have "map_cluster drv dircl XFR_READ fn s = Some (DE_SEEK, fn, s)" using nd by (simp add: node_ok_def map_cluster_def)
  with ok nd True moved_refl show ?thesis by simp
next
  case ne: False
  let ?E = "fat_at rd X g s" and ?d = "dpbs s (f_dpb fn)"
  define k where "k = drop_bit (unat (dpb_shftcnt ?d)) (f_offset fn div ucast (dpb_secsize ?d))"
  define fn1 where "fn1 = map_start dircl k ?d fn"
  note q = fat_ok_sel(2) [OF ok]
  have k: "unat k = rel_cluster g (f_offset fn)" using rel_cluster_word [of ?d] geom_pos(4) [OF q] by (simp add: k_def)
  have ch: "cchain {2..max_cluster g} ?E (node_start dircl g fn) cs" using nd ne by (simp add: node_ok_def clusters_of_def)
  note a = map_start_at [OF nd ne q, of k, folded fn1_def]
  have p: "f_dpb fn1 = f_dpb fn" using moved_trans(2) [OF a(3)] .
  let ?i = "min (unat k) (length cs - 1)"
  let ?fn = "fn1\<lparr>f_cluster := cs ! ?i, f_cluster_offset := of_nat ?i\<rparr>"
  obtain s' where s': "loopM (map_body drv XFR_READ k) (fn1, s) = Some (if unat k < length cs then SUCCESS else DE_SEEK, ?fn, s')"
    "fat_ok drv rd M X V (f_dpb fn) g s'" "fat_at rd X g s' = ?E"
    using map_read_loop [of drv rd M X V fn1 g s, OF _ ch a(1,2)] ok p by (auto simp: Let_def)
  have "map_cluster drv dircl XFR_READ fn s = loopM (map_body drv XFR_READ k) (fn1, s)"
    using map_cluster_used [of fn] node_used [OF nd] ne by (simp add: Let_def k_def fn1_def)
  then have "map_cluster drv dircl XFR_READ fn s = Some (if unat k < length cs then SUCCESS else DE_SEEK, ?fn, s')" using s'(1) by simp
  moreover have mv: "moved fn ?fn" using moved_trans(1) [OF a(3), of ?fn] by (simp add: moved_def)
  then have "node_start dircl g ?fn = node_start dircl g fn" by (rule moved_start)
  moreover have "unat (of_nat ?i :: u32) = ?i" using unsigned_less [of k, where 'a = nat] by (simp add: unat_of_nat min_def)
  then have "node_at cs ?fn" using ne by (simp add: node_at_def min_less_iff_disj)
  ultimately show ?thesis using s'(2,3) ne ch k mv by (auto simp: node_ok_def clusters_of_def)
qed

lemma demo_node_ok:
  assumes "cchain {2..max_cluster demo_dpb} E 5 [5, 9]"
  shows "node_ok demo_dpb E 0 [5, 9] ((demo_node 5 5)\<lparr>f_offset := v\<rparr>)"
  using assms demo_node_start [of 5 5]
  by (simp add: node_ok_def clusters_of_def node_start_def node_at_def) (simp add: demo_node_def)

lemma demo_rel: "rel_cluster demo_dpb 600 = 1" "rel_cluster demo_dpb 1500 = 2"
  by (simp_all add: rel_cluster_def demo_dpb_def)

subsection \<open>Positions that extend a file\<close>

lemma mapped_node:
  assumes "mapped drv rd M X V g (node_start dircl g fn) cs k fn s (r, fn', s')"
  shows "\<exists>es. fat_ok drv rd M X V (f_dpb fn) g s' \<and> node_ok g (fat_at rd X g s') dircl (cs @ es) fn'
    \<and> grown g (fat_at rd X g s) (fat_at rd X g s') cs es \<and> reached g (fat_at rd X g s') cs es k r fn'"
proof -
  obtain es where es: "fat_ok drv rd M X V (f_dpb fn) g s'" "moved fn fn'"
    "cchain {2..max_cluster g} (fat_at rd X g s') (node_start dircl g fn) (cs @ es)" "node_at (cs @ es) fn'"
    "grown g (fat_at rd X g s) (fat_at rd X g s') cs es" "reached g (fat_at rd X g s') cs es k r fn'"
    using assms by (auto simp: mapped_def)
  have "cs @ es \<noteq> []" using es(4) by (auto simp: node_at_def)
  then have "node_ok g (fat_at rd X g s') dircl (cs @ es) fn'"
    using es(3,4) moved_start [OF es(2), of dircl g] unfolding node_ok_def clusters_of_def by auto
  with es show ?thesis by blast
qed

text \<open>A file without clusters gets its first one before the position is looked up.\<close>

lemma map_cluster_first:
  assumes ok: "fat_ok drv rd M X V (f_dpb fn) g s" and nd: "node_ok g (fat_at rd X g s) dircl [] fn" and mode: "mode \<noteq> XFR_READ"
    and fr: "\<exists>c. in_fat g c \<and> fat_at rd X g s c = FREE"
  shows "\<exists>v. map_cluster drv dircl mode fn s = Some v
    \<and> (\<exists>e fn1. alike fn fn1 \<and> node_start dircl g fn1 = e \<and> mapped drv rd M X V g e [] (rel_cluster g (f_offset fn)) fn1 s v)"
proof -
  let ?E = "fat_at rd X g s"
  have f: "f_cluster fn = FREE" "f_cluster_offset fn = 0" "f_sft_idx fn \<noteq> 0xff" using nd by (simp_all add: node_ok_def)
  obtain e s1 where e: "extend_chain drv fn s = Some (e, fn\<lparr>f_dir := setdstart (dpbs s1 (f_dpb fn)) e (f_dir fn)\<rparr>, s1)"
    "fat_ok drv rd M X V (f_dpb fn) g s1" "in_fat g e" "?E e = FREE" "fat_at rd X g s1 = ?E(e := LONG_LAST_CLUSTER)"
    using extend_chain_empty [OF ok f(1) fr] by blast
  let ?d = "dpbs s1 (f_dpb fn)"
  define k where "k = drop_bit (unat (dpb_shftcnt ?d)) (f_offset fn div ucast (dpb_secsize ?d))"
  define fn1 where "fn1 = fn\<lparr>f_dir := setdstart ?d e (f_dir fn), f_cluster := e\<rparr>"
  note q = fat_ok_sel(2) [OF e(2)]
  have k: "unat k = rel_cluster g (f_offset fn)" using rel_cluster_word [of ?d] geom_pos(4) [OF q] by (simp add: k_def)
  have nl: "e \<noteq> LONG_LAST_CLUSTER" using e(3) ft.last_outside [OF ok] by (auto simp: in_fat_iff)
  have "map_start dircl k ?d fn1 = fn1" using f(2) by (simp add: map_start_def fn1_def)
  then have m: "map_cluster drv dircl mode fn s = loopM (map_body drv mode k) (fn1, s1)"
    using f(1) mode e(1) nl by (simp add: map_cluster_def Let_def k_def fn1_def)
  have st: "node_start dircl g fn1 = e" using f(3) in_fat_start [OF e(2,3)] geom_pos(3) [OF q] by (simp add: node_start_def fn1_def)
  have a: "fat_ok drv rd M X V (f_dpb fn1) g s1" "cchain {2..max_cluster g} (fat_at rd X g s1) e [e]" "node_at [e] fn1"
    "unat (f_cluster_offset fn1) \<le> unat k" using e(2,3,5) f(2) by (simp_all add: in_fat_iff node_at_def fn1_def)
  obtain v where v: "loopM (map_body drv mode k) (fn1, s1) = Some v"
    "mapped drv rd M X V g e [e] (unat k) fn1 s1 v" using map_write_loop [OF a mode] by blast
  have "grown g ?E (fat_at rd X g s1) [] [e]" using e(3-5) by (simp add: grown_def)
  then have "mapped drv rd M X V g e [] (unat k) fn1 s v" using mapped_trans [of drv rd M X V g e "[]" "[e]" _ fn1 s1 v fn1] v(2) moved_refl by auto
  moreover have "alike fn fn1" by (simp add: fn1_def alike_def setdstart_def Let_def)
  ultimately show ?thesis using m v(1) st k by metis
qed

lemma mapped_moved: "mapped drv rd M X V g c cs k fn s (r, fn', s') \<Longrightarrow> moved fn fn'"
  by (simp add: mapped_def)

lemma map_write_ok:
  assumes ok: "fat_ok drv rd M X V (f_dpb fn) g s" and nd: "node_ok g (fat_at rd X g s) dircl cs fn"
    and mode: "mode \<noteq> XFR_READ" and c: "\<exists>c. in_fat g c"
  shows "\<exists>r fn' s' es. map_cluster drv dircl mode fn s = Some (r, fn', s') \<and> fat_ok drv rd M X V (f_dpb fn) g s'
    \<and> node_ok g (fat_at rd X g s') dircl (cs @ es) fn' \<and> grown g (fat_at rd X g s) (fat_at rd X g s') cs es
    \<and> reached g (fat_at rd X g s') cs es (rel_cluster g (f_offset fn)) r fn' \<and> alike fn fn'"
proof (cases "cs = []")
  case True
  show ?thesis
  proof (cases "\<exists>c. in_fat g c \<and> fat_at rd X g s c = FREE")
    case fr: True
    obtain r fn' s' fn1 where v: "map_cluster drv dircl mode fn s = Some (r, fn', s')" "alike fn fn1"
      "mapped drv rd M X V g (node_start dircl g fn1) [] (rel_cluster g (f_offset fn)) fn1 s (r, fn', s')"
      using map_cluster_first [OF ok _ mode fr] nd True by fastforce
    have "alike fn fn'" "f_dpb fn1 = f_dpb fn" using alike_trans [OF v(2) moved_same [OF mapped_moved [OF v(3)]]] v(2) by (simp_all add: alike_def)
    with v(1) mapped_node [OF v(3)] True show ?thesis by auto
  next
    case full: False
    obtain s' where s': "extend_chain drv fn s = Some (LONG_LAST_CLUSTER, fn, s')" "fat_ok drv rd M X V (f_dpb fn) g s'"
      "fat_at rd X g s' = fat_at rd X g s" using extend_chain_full [OF ok c full] by blast
    have "map_cluster drv dircl mode fn s = Some (DE_HNDLDSKFULL, fn, s')"
      using s'(1) node_used [OF nd] True mode by (simp add: map_cluster_def)
    with s' nd True full show ?thesis
      by (intro exI [of _ DE_HNDLDSKFULL] exI [of _ fn] exI [of _ s'] exI [of _ "[]"]) (simp add: grown_def reached_def errs alike_def)
  qed
next
  case ne: False
  let ?d = "dpbs s (f_dpb fn)"
  define k where "k = drop_bit (unat (dpb_shftcnt ?d)) (f_offset fn div ucast (dpb_secsize ?d))"
  define fn1 where "fn1 = map_start dircl k ?d fn"
  note q = fat_ok_sel(2) [OF ok]
  have k: "unat k = rel_cluster g (f_offset fn)" using rel_cluster_word [of ?d] geom_pos(4) [OF q] by (simp add: k_def)
  have ch: "cchain {2..max_cluster g} (fat_at rd X g s) (node_start dircl g fn) cs" using nd ne by (simp add: node_ok_def clusters_of_def)
  note a = map_start_at [OF nd ne q, of k, folded fn1_def]
  have p: "f_dpb fn1 = f_dpb fn" using moved_trans(2) [OF a(3)] .
  obtain r fn' s' where v: "loopM (map_body drv mode k) (fn1, s) = Some (r, fn', s')"
    "mapped drv rd M X V g (node_start dircl g fn1) cs (unat k) fn1 s (r, fn', s')"
    using map_write_loop [of drv rd M X V fn1 g s, OF _ ch a(1,2) mode] ok p moved_start [OF a(3), of dircl g] by fastforce
  have "map_cluster drv dircl mode fn s = loopM (map_body drv mode k) (fn1, s)"
    using map_cluster_used [of fn] node_used [OF nd] ne by (simp add: Let_def k_def fn1_def)
  moreover have "alike fn fn'" using moved_same [OF moved_trans(1) [OF a(3) mapped_moved [OF v(2)]]] .
  ultimately show ?thesis using v(1) mapped_node [OF v(2)] k p by auto
qed

text \<open>
  C11. Writing: the chain of the file is extended until the position lies in it, by clusters that were
  free and not beyond the one needed; the node is then at the cluster of the position. When the disk
  runs full before, the call reports this, no cluster is left free, and the clusters won so far stay
  in the chain. The call returns, no entry outside the old chain and the new clusters is changed, and
  the node stays at a cluster of its chain.
\<close>

theorem map_cluster_writes:
  assumes ok: "fat_ok drv rd M X V (f_dpb fn) g s" and nd: "node_ok g (fat_at rd X g s) dircl cs fn"
    and mode: "mode \<noteq> XFR_READ" and c: "\<exists>c. in_fat g c"
  shows "\<exists>r fn' s' es. map_cluster drv dircl mode fn s = Some (r, fn', s') \<and> fat_ok drv rd M X V (f_dpb fn) g s'
    \<and> node_ok g (fat_at rd X g s') dircl (cs @ es) fn' \<and> grown g (fat_at rd X g s) (fat_at rd X g s') cs es
    \<and> reached g (fat_at rd X g s') cs es (rel_cluster g (f_offset fn)) r fn'"
  using map_write_ok [OF assms] by blast

theorem map_cluster_writes_witness:
  "\<exists>s r fn' s' es. map_cluster demo_driver 0 XFR_WRITE ((demo_node 5 5)\<lparr>f_offset := 1500\<rparr>) s = Some (r, fn', s')
    \<and> reached demo_dpb (fat_at disk_read {16, 32} demo_dpb s') [5, 9] es 2 r fn'"
proof -
  obtain s where s: "fat_ok demo_driver disk_read demo_M {16, 32} demo_V 1 demo_dpb s"
    "cchain {2..max_cluster demo_dpb} (fat_at disk_read {16, 32} demo_dpb s) 5 [5, 9]" using demo_chain by blast
  have "f_dpb ((demo_node 5 5)\<lparr>f_offset := 1500\<rparr>) = 1" by (simp add: demo_node_def)
  with s(1) have "fat_ok demo_driver disk_read demo_M {16, 32} demo_V (f_dpb ((demo_node 5 5)\<lparr>f_offset := 1500\<rparr>)) demo_dpb s" by simp
  moreover have "XFR_WRITE \<noteq> XFR_READ" "\<exists>c. in_fat demo_dpb c" using demo_in_fat by (auto simp: XFR_WRITE_def XFR_READ_def)
  ultimately show ?thesis using map_cluster_writes [OF _ demo_node_ok [OF s(2)]] by (fastforce simp: demo_rel)
qed

end
