(* ===== verification/FatTrunc.thy ===== *)
theory FatTrunc
  imports FatChain
begin

text \<open>Truncating a file (\<^verbatim>\<open>shrink_file\<close> of \<^verbatim>\<open>kernel/fatfs.c\<close>).\<close>

lemma fat_flush:
  assumes ok: "fat_ok drv rd M X V dp g s"
  shows "\<exists>s'. flush_buffers drv u s = Some (True, s') \<and> fat_ok drv rd M X V dp g s' \<and> fat_at rd X g s' = fat_at rd X g s"
proof -
  obtain xs where xs: "cache_inv drv rd M xs s" "set xs = X" using fat_okE [OF ok] by metis
  obtain s' where s': "flush_buffers drv u s = Some (True, s')" "kept drv rd M xs s s'" using flush_buffers_ok [OF xs(1)] by blast
  then have "fstep drv rd M xs s xs s'" by (simp add: kept_def fstep_def)
  with s'(1) fat_fstep [OF ok xs] show ?thesis by blast
qed

text \<open>The number of clusters that the first \<open>off\<close> bytes of a file occupy.\<close>

definition clusters_for :: "dpb \<Rightarrow> u32 \<Rightarrow> nat" where
  "clusters_for g off = (if off = 0 then 0 else Suc (rel_cluster g (off - 1)))"

text \<open>The table after cutting a chain behind its first \<open>n\<close> clusters.\<close>

definition cut :: "nat \<Rightarrow> u32 list \<Rightarrow> (u32 \<Rightarrow> u32) \<Rightarrow> u32 \<Rightarrow> u32" where
  "cut n cs E x = (if x \<in> set (drop n cs) then FREE else if 0 < n \<and> n \<le> length cs \<and> x = cs ! (n - 1) then LONG_LAST_CLUSTER else E x)"

lemma cchain_cut:
  "cchain C E c cs \<Longrightarrow> LONG_LAST_CLUSTER \<notin> C \<Longrightarrow> 0 < n \<Longrightarrow> n \<le> length cs \<Longrightarrow> cchain C (cut n cs E) c (take n cs)"
proof (induction cs arbitrary: c n)
  case (Cons d ds)
  have d: "c = d" "d \<in> C" "cchain C E (E d) ds" and dist: "d \<notin> set ds" "distinct ds"
    using Cons.prems cchain_distinct [OF Cons.prems(2,1)] by auto
  obtain m where n: "n = Suc m" using Cons.prems(3) by (cases n) auto
  show ?case
  proof (cases "m = 0")
    case True
    then show ?thesis using d dist by (simp add: n cut_def)
  next
    case False
    then have m: "0 < m" "m \<le> length ds" using Cons.prems(4) n by auto
    have in_ds: "ds ! (m - 1) \<in> set ds" using m by simp
    then have "cut n (d # ds) E d = E d" using dist m n by (auto simp: cut_def dest: in_set_dropD)
    moreover have "cut n (d # ds) E x = cut m ds E x" if "x \<in> set ds" for x using that m n by (auto simp: cut_def nth_Cons')
    then have "cchain C (cut n (d # ds) E) (E d) (take m ds) = cchain C (cut m ds E) (E d) (take m ds)"
      by (intro cchain_cong) (auto dest: in_set_takeD)
    ultimately show ?thesis using Cons.IH [OF d(3) Cons.prems(2) m] d(1,2) n by simp
  qed
qed simp

lemma cut_all: "n = length cs \<Longrightarrow> cchain C E c cs \<Longrightarrow> cut n cs E = E"
  by (cases "cs = []") (auto simp: cut_def fun_eq_iff last_conv_nth dest: cchain_last)

text \<open>Linking the last cluster kept and releasing the rest is the cut.\<close>

lemma cut_release:
  "distinct cs \<Longrightarrow> i < length cs \<Longrightarrow>
    (\<lambda>x. if x \<in> set (drop (Suc i) cs) then FREE else (E(cs ! i := LONG_LAST_CLUSTER)) x) = cut (Suc i) cs E"
  by (auto simp: cut_def fun_eq_iff)

lemma cut_zero: "cs \<noteq> [] \<Longrightarrow> (\<lambda>x. if x \<in> set (drop 1 cs) then FREE else (E(cs ! 0 := FREE)) x) = cut 0 cs E"
  by (cases cs) (auto simp: cut_def fun_eq_iff)

lemma release_tail:
  assumes ok: "fat_ok drv rd M X V dp g s" and ch: "cchain {2..max_cluster g} (fat_at rd X g s) c cs"
    and i: "i < length cs" and v: "v \<in> {FREE, LONG_LAST_CLUSTER}"
  shows "\<exists>s1 s2 s3. link_fat drv dp (cs ! i) v s = Some (0, s1)
    \<and> wipe_out_clusters drv dp (if Suc i < length cs then cs ! Suc i else LONG_LAST_CLUSTER) s1 = Some s2
    \<and> flush_buffers drv (dpb_unit (dpbs s2 dp)) s2 = Some (True, s3) \<and> fat_ok drv rd M X V dp g s3
    \<and> fat_at rd X g s3 = (\<lambda>x. if x \<in> set (drop (Suc i) cs) then FREE else ((fat_at rd X g s)(cs ! i := v)) x)"
proof -
  have ci: "cs ! i \<in> {2..max_cluster g}" using subsetD [OF cchain_set [OF ch] nth_mem [OF i]] .
  obtain s1 where s1: "link_fat drv dp (cs ! i) v s = Some (0, s1)" "fat_ok drv rd M X V dp g s1"
    "fat_at rd X g s1 = (fat_at rd X g s)(cs ! i := v)" using ft.store [OF ok ci, of v] v by auto
  let ?n = "if Suc i < length cs then cs ! Suc i else LONG_LAST_CLUSTER"
  have "cs ! i \<notin> set (drop (Suc i) cs)"
    using cchain_distinct [OF ft.last_outside [OF ok] ch] i by (metis distinct_drop distinct.simps(2) Cons_nth_drop_Suc)
  moreover have "cchain {2..max_cluster g} (fat_at rd X g s) ?n (drop (Suc i) cs)"
    using cchain_drop [OF ch, of "Suc i"] by auto
  ultimately have "cchain {2..max_cluster g} (fat_at rd X g s1) ?n (drop (Suc i) cs)" by (simp add: s1(3) cchain_upd)
  from ft.release [OF s1(2) this] obtain s2 where s2: "wipe_out_clusters drv dp ?n s1 = Some s2" "fat_ok drv rd M X V dp g s2"
    "fat_at rd X g s2 = (\<lambda>x. if x \<in> set (drop (Suc i) cs) then FREE else fat_at rd X g s1 x)"
    unfolding wipe_out_clusters_def wipe_body_step by blast
  from fat_flush [OF s2(2)] obtain s3 where "flush_buffers drv (dpb_unit (dpbs s2 dp)) s2 = Some (True, s3)"
    "fat_ok drv rd M X V dp g s3" "fat_at rd X g s3 = fat_at rd X g s2" by blast
  with s1 s2 show ?thesis by auto
qed

text \<open>The call below the search for the last cluster to keep.\<close>

lemma shrink_found:
  assumes fn: "\<not> (f_offset fn = 0 \<and> f_cluster fn = FREE)"
    and m: "map_cluster drv dircl XFR_READ (if f_offset fn \<noteq> 0 then fn\<lparr>f_offset := f_offset fn - 1\<rparr> else fn) s = Some (SUCCESS, fn1, s1)"
    and n: "next_cluster drv (f_dpb fn) (f_cluster fn1) s1 = Some (nxt, s2)" "\<not> nxt \<le> 1"
  shows "shrink_file drv dircl fn s =
    (let keep = dir_size (f_dir fn1) \<noteq> 0; fn2 = (if keep then fn1 else fn1\<lparr>f_cluster := FREE, f_dir := setdstart (dpbs s2 (f_dpb fn)) FREE (f_dir fn1)\<rparr>)
     in if keep \<and> nxt = LONG_LAST_CLUSTER then Some (SUCCESS, fn2\<lparr>f_offset := f_offset fn\<rparr>, s2)
        else do {
          (r, s3) \<leftarrow> link_fat drv (f_dpb fn) (f_cluster fn1) (if keep then LONG_LAST_CLUSTER else FREE) s2;
          if r \<noteq> 0 then Some (DE_ACCESS, fn2\<lparr>f_offset := f_offset fn\<rparr>, s3)
          else do {
            s4 \<leftarrow> wipe_out_clusters drv (f_dpb fn) nxt s3;
            (ok, s5) \<leftarrow> flush_buffers drv (dpb_unit (dpbs s4 (f_dpb fn2))) s4;
            Some (if ok then SUCCESS else DE_ACCESS, fn2\<lparr>f_offset := f_offset fn\<rparr>, s5)
          }
        })"
  unfolding shrink_file_def Let_def using fn m n by (auto simp: SUCCESS_def)

lemma shrink_cut:
  assumes ok: "fat_ok drv rd M X V (f_dpb fn) g s1" and fn: "\<not> (f_offset fn = 0 \<and> f_cluster fn = FREE)" "f_sft_idx fn1 \<noteq> 0xff"
      "dir_size (f_dir fn1) = f_offset fn" "f_dpb fn1 = f_dpb fn"
    and m: "map_cluster drv dircl XFR_READ (if f_offset fn \<noteq> 0 then fn\<lparr>f_offset := f_offset fn - 1\<rparr> else fn) s = Some (SUCCESS, fn1, s1)"
    and nd: "node_ok g (fat_at rd X g s1) dircl cs fn1" and i: "i < length cs" "f_cluster fn1 = cs ! i" "f_offset fn = 0 \<Longrightarrow> i = 0"
  defines "k \<equiv> (if f_offset fn = 0 then 0 else Suc i)"
  shows "\<exists>fn' s'. shrink_file drv dircl fn s = Some (SUCCESS, fn', s') \<and> fat_ok drv rd M X V (f_dpb fn) g s' \<and> f_offset fn' = f_offset fn
    \<and> fat_at rd X g s' = cut k cs (fat_at rd X g s1) \<and> node_ok g (fat_at rd X g s') dircl (take k cs) fn'"
proof -
  let ?E = "fat_at rd X g s1" and ?dp = "f_dpb fn" and ?off = "f_offset fn"
  let ?nxt = "if Suc i < length cs then cs ! Suc i else LONG_LAST_CLUSTER"
  have ne: "cs \<noteq> []" using i(1) by auto
  then have at: "node_at cs fn1" and ch: "cchain {2..max_cluster g} ?E (node_start dircl g fn1) cs" using nd by (simp_all add: node_ok_def clusters_of_def)
  have dist: "distinct cs" using cchain_distinct [OF ft.last_outside [OF ok] ch] .
  have o: "unat (f_cluster_offset fn1) = i" using at i(1,2) nth_eq_iff_index_eq [OF dist] by (metis node_at_def)
  obtain s2 where s2: "next_cluster drv ?dp (f_cluster fn1) s1 = Some (?nxt, s2)" "fat_ok drv rd M X V ?dp g s2" "fat_at rd X g s2 = ?E"
    using next_at [OF ok ch i(1)] i(2) by auto
  note sf = shrink_found [OF fn(1) m s2(1) next_big(1) [OF ok ch]]
  have ch2: "cchain {2..max_cluster g} (fat_at rd X g s2) (node_start dircl g fn1) cs" using ch s2(3) by simp
  note rel = release_tail [OF s2(2) ch2 i(1)]
  show ?thesis
  proof (cases "?off = 0")
    case True
    let ?fn = "fn1\<lparr>f_cluster := FREE, f_dir := setdstart (dpbs s2 ?dp) FREE (f_dir fn1), f_offset := ?off\<rparr>"
    have z: "(\<lambda>x. if x \<in> set (drop (Suc i) cs) then FREE else ((fat_at rd X g s2)(cs ! i := FREE)) x) = cut 0 cs ?E"
      using cut_zero [OF ne, of ?E] unfolding s2(3) i(3) [OF True] by (simp only: One_nat_def)
    obtain s3 s4 s5 where r: "link_fat drv ?dp (cs ! i) FREE s2 = Some (0, s3)" "wipe_out_clusters drv ?dp ?nxt s3 = Some s4"
      "flush_buffers drv (dpb_unit (dpbs s4 ?dp)) s4 = Some (True, s5)" "fat_ok drv rd M X V ?dp g s5" "fat_at rd X g s5 = cut 0 cs ?E"
      using rel [of FREE] unfolding z by auto
    have "shrink_file drv dircl fn s = Some (SUCCESS, ?fn, s5)" using sf r(1-3) fn(3,4) i(2) True by (simp add: Let_def)
    moreover have "getdstart g (setdstart (dpbs s2 ?dp) FREE (f_dir fn1)) = FREE"
      using dstart_round [of "dpbs s2 ?dp" FREE] geom_pos(3) [OF fat_ok_sel(2) [OF s2(2)]] by (simp add: fat_consts)
    then have "node_ok g (fat_at rd X g s5) dircl [] ?fn"
      using fn(2) o i(3) True by (simp add: node_ok_def clusters_of_def node_start_def unat_eq_zero)
    ultimately show ?thesis using r(4,5) True by (intro exI [of _ ?fn] exI [of _ s5]) (simp add: k_def)
  next
    case False
    let ?fn = "fn1\<lparr>f_offset := ?off\<rparr>"
    have kk: "k = Suc i" "0 < k" "k \<le> length cs" using False i(1) by (simp_all add: k_def)
    have node: "node_ok g (cut k cs ?E) dircl (take k cs) ?fn"
      using cchain_cut [OF ch ft.last_outside [OF ok] kk(2,3)] ne kk o i(2) by (simp add: node_ok_def clusters_of_def node_at_def)
    have "\<exists>s'. shrink_file drv dircl fn s = Some (SUCCESS, ?fn, s') \<and> fat_ok drv rd M X V ?dp g s' \<and> fat_at rd X g s' = cut k cs ?E"
    proof (cases "Suc i < length cs")
      case more: True
      obtain s3 s4 s5 where "link_fat drv ?dp (cs ! i) LONG_LAST_CLUSTER s2 = Some (0, s3)" "wipe_out_clusters drv ?dp ?nxt s3 = Some s4"
        "flush_buffers drv (dpb_unit (dpbs s4 ?dp)) s4 = Some (True, s5)" "fat_ok drv rd M X V ?dp g s5" "fat_at rd X g s5 = cut k cs ?E"
        using rel [of LONG_LAST_CLUSTER] unfolding s2(3) cut_release [OF dist i(1)] kk(1) by auto
      then show ?thesis using sf fn(3,4) i(2) False more next_big(2) [OF ok ch more] by (simp add: Let_def)
    next
      case stop: False
      then have "k = length cs" using kk by simp
      from cut_all [OF this ch] show ?thesis using sf fn(3) False stop s2(2,3) by (simp add: Let_def)
    qed
    then show ?thesis using node by auto
  qed
qed

text \<open>
  C15. Truncating a file at its position keeps exactly the clusters the remaining bytes need and releases
  the others, all of them when the file becomes empty; the last cluster kept becomes the end of the
  chain, the node is at a cluster of the new chain and keeps its position, and no other entry of the
  table and no block of data changes. If the file has fewer clusters than its size says, the call
  fails and changes nothing in the table.
\<close>

theorem shrink_file_truncates:
  assumes ok: "fat_ok drv rd M X V (f_dpb fn) g s" and nd: "node_ok g (fat_at rd X g s) dircl cs fn"
    and fn: "dir_size (f_dir fn) = f_offset fn" "f_sft_idx fn \<noteq> 0xff"
  shows "\<exists>r fn' s'. shrink_file drv dircl fn s = Some (r, fn', s') \<and> fat_ok drv rd M X V (f_dpb fn) g s' \<and> f_offset fn' = f_offset fn
    \<and> (if clusters_for g (f_offset fn) \<le> length cs
       then r = SUCCESS \<and> fat_at rd X g s' = cut (clusters_for g (f_offset fn)) cs (fat_at rd X g s)
         \<and> node_ok g (fat_at rd X g s') dircl (take (clusters_for g (f_offset fn)) cs) fn'
       else r = DE_ACCESS \<and> fat_at rd X g s' = fat_at rd X g s)"
proof (cases "f_offset fn = 0 \<and> f_cluster fn = FREE")
  case True
  then have "cs = []" using node_used [OF nd] by simp
  moreover have "shrink_file drv dircl fn s = Some (SUCCESS, fn, s)" using True by (simp add: shrink_file_def Let_def)
  ultimately show ?thesis using ok nd True by (simp add: clusters_for_def cut_def fun_eq_iff)
next
  case False
  let ?E = "fat_at rd X g s" and ?off = "f_offset fn" and ?k = "clusters_for g (f_offset fn)"
  define fn0 where "fn0 = (if ?off \<noteq> 0 then fn\<lparr>f_offset := ?off - 1\<rparr> else fn)"
  have fn0: "f_dpb fn0 = f_dpb fn" "node_ok g ?E dircl cs fn0" "f_dir fn0 = f_dir fn" "f_sft_idx fn0 = f_sft_idx fn"
    using nd by (simp_all add: fn0_def)
  define i where "i = rel_cluster g (f_offset fn0)"
  have k: "?k = (if ?off = 0 then 0 else Suc i)" "?off = 0 \<Longrightarrow> i = 0" by (simp_all add: clusters_for_def i_def fn0_def rel_cluster_def)
  obtain fn1 s1 where m: "map_cluster drv dircl XFR_READ fn0 s = Some (if i < length cs then SUCCESS else DE_SEEK, fn1, s1)"
    "fat_ok drv rd M X V (f_dpb fn) g s1" "fat_at rd X g s1 = ?E" "node_ok g ?E dircl cs fn1" "moved fn0 fn1"
    "i < length cs \<Longrightarrow> f_cluster fn1 = cs ! i" using map_read_ok [of drv rd M X V fn0, OF _ fn0(2)] ok fn0(1) unfolding i_def by auto
  show ?thesis
  proof (cases "i < length cs")
    case short: False
    have "shrink_file drv dircl fn s = Some (DE_ACCESS, fn1\<lparr>f_offset := ?off\<rparr>, s1)"
      using False m(1) short by (simp add: shrink_file_def Let_def fn0_def errs)
    moreover have "\<not> ?k \<le> length cs" using short k False node_used [OF nd] by (auto split: if_splits)
    ultimately show ?thesis using m(2,3) by simp
  next
    case i: True
    have a: "f_sft_idx fn1 \<noteq> 0xff" "dir_size (f_dir fn1) = ?off" "f_dpb fn1 = f_dpb fn"
      using m(5) fn fn0 by (cases fn0; cases fn1; simp add: moved_def)+
    have "map_cluster drv dircl XFR_READ (if ?off \<noteq> 0 then fn\<lparr>f_offset := ?off - 1\<rparr> else fn) s = Some (SUCCESS, fn1, s1)"
      using m(1) i by (simp add: fn0_def)
    moreover have "node_ok g (fat_at rd X g s1) dircl cs fn1" using m(3,4) by simp
    ultimately show ?thesis using shrink_cut [OF m(2) False a _ _ i m(6) [OF i] k(2)] m(3) i k(1) by (auto simp: Suc_le_eq)
  qed
qed

theorem shrink_file_truncates_witness:
  "\<exists>s fn' s'. shrink_file demo_driver 0 ((demo_node 5 5)\<lparr>f_offset := 100, f_dir := (f_dir (demo_node 5 5))\<lparr>dir_size := 100\<rparr>\<rparr>) s = Some (SUCCESS, fn', s')
    \<and> fat_at disk_read {16, 32} demo_dpb s' = cut 1 [5, 9] (fat_at disk_read {16, 32} demo_dpb s)"
proof -
  let ?fn = "(demo_node 5 5)\<lparr>f_offset := 100, f_dir := (f_dir (demo_node 5 5))\<lparr>dir_size := 100\<rparr>\<rparr>"
  obtain s where s: "fat_ok demo_driver disk_read demo_M {16, 32} demo_V 1 demo_dpb s"
    "cchain {2..max_cluster demo_dpb} (fat_at disk_read {16, 32} demo_dpb s) 5 [5, 9]" using demo_chain by blast
  have fn: "f_dpb ?fn = 1" "dir_size (f_dir ?fn) = f_offset ?fn" "f_sft_idx ?fn \<noteq> 0xff" "clusters_for demo_dpb (f_offset ?fn) = 1"
    by (simp_all add: demo_node_def clusters_for_def rel_cluster_def demo_dpb_def)
  have "node_ok demo_dpb (fat_at disk_read {16, 32} demo_dpb s) 0 [5, 9] ?fn"
    using demo_node_ok [OF s(2), of 100] by (auto simp: node_ok_def node_start_def node_at_def getdstart_def split: if_splits)
  from shrink_file_truncates [OF _ this fn(2,3)] s(1) fn(1,4) show ?thesis by fastforce
qed

end
