(* ===== verification/FatIo.thy ===== *)
theory FatIo
  imports FatTrunc FatRw
begin

text \<open>
  The contents of files: the bytes of a file are the bytes of the sectors of its clusters, in the order of
  its chain. What \<^verbatim>\<open>rwblock\<close> transfers, through the cache or past it, are these bytes.
\<close>

subsection \<open>Several sectors at once\<close>

lemma dskxfer_read_run:
  assumes drv: "disk_driver drv rd" and u: "drives s u = Some dp" and n: "0 < unat n" and len: "length buf = 512 * unat n" "length (deblock_buf s) = 512"
  shows "\<exists>dv db. dskxfer drv u b hi buf n DSKREAD s = Some (0, concat (map (\<lambda>i. sector rd s u (b + of_nat i)) [0..<unat n]), dev_only dv db s)
    \<and> rd dv = rd (device s) \<and> length db = 512"
proof (cases "n = 1")
  case True
  then show ?thesis using dskxfer_read [OF drv u _ len(2), of buf b hi] len(1) by simp
next
  case False
  let ?d = "dpbs s dp"
  let ?rq = "mk_request ?d b n C_INPUT s"
  have sec: "sector rd s u b' = rd (device s) (dpb_device ?d) (dpb_subunit ?d) b'" for b' by (simp add: sector_on_def u Let_def)
  have l: "length buf = 512 * unat (r_count ?rq)" "r_command ?rq = C_INPUT" using len(1) by simp_all
  from drv [unfolded disk_driver_def, THEN conjunct1, rule_format, OF l, of "dpb_device ?d" "device s"]
  obtain st d' where x: "drv_exec drv ?rq (dpb_device ?d) buf (device s) = (st, concat (map (\<lambda>i. sector rd s u (b + of_nat i)) [0..<unat n]), d')"
    "st_done st" "rd d' = rd (device s)" by (auto simp: sec)
  have cmd: "xfer_command DSKREAD s = Some C_INPUT" by (simp add: xfer_command_def dsk)
  have "xfer_once drv ?d ?rq hi DSKREAD buf s
      = (st, concat (map (\<lambda>i. sector rd s u (b + of_nat i)) [0..<unat n]), dev_only d' (deblock_buf s) s)"
    using False x(1) by (simp add: xfer_once_def dev_only_def)
  then have "dskxfer drv u b hi buf n DSKREAD s
      = Some (0, concat (map (\<lambda>i. sector rd s u (b + of_nat i)) [0..<unat n]), dev_only d' (deblock_buf s) s)"
    using x(2) by (simp add: dskxfer_def u cmd loop_Inl dskxfer_body_def st_done_def)
  with x(3) len(2) show ?thesis by blast
qed

subsection \<open>Writing back before a direct read\<close>

lemma delete_read_ok:
  assumes inv: "cache_inv drv rd M xs s"
  shows "\<exists>s'. DeleteBlockInBufferCache drv low high dsk XFR_READ s = Some (False, s') \<and> kept drv rd M xs s s'
    \<and> (\<forall>p \<in> set xs. low \<le> b_blkno (bufs s' p) \<longrightarrow> b_blkno (bufs s' p) \<le> high \<longrightarrow> b_unit (bufs s' p) = dsk \<longrightarrow> \<not> is_dirty (bufs s' p))"
proof -
  let ?in = "\<lambda>b. low \<le> b_blkno b \<and> b_blkno b \<le> high \<and> b_unit b = dsk"
  let ?I = "\<lambda>ps (u :: unit) s1. kept drv rd M xs s s1 \<and> (\<forall>p \<in> set xs. p \<notin> set ps \<longrightarrow> ?in (bufs s1 p) \<longrightarrow> \<not> is_dirty (bufs s1 p))"
  have "\<exists>a' s'. ring_do (delete_act drv low high dsk XFR_READ) () s = Some (a', s') \<and> ring s' xs \<and> ?I [] a' s'"
  proof (rule ring_do_rule)
    show "ring s xs" "?I xs () s" using inv by (simp_all add: kept_refl cache_inv_def)
  next
    fix p ps u s1 assume p: "p \<in> set xs" and I: "?I (p # ps) u s1" and r: "ring s1 xs"
    show "\<exists>a' s'. delete_act drv low high dsk XFR_READ p (u, s1) = Some (a', s') \<and> ring s' xs \<and> ?I ps a' s'"
    proof (cases "?in (bufs s1 p) \<and> has (b_flag (bufs s1 p)) BFR_VALID")
      case True
      from I have "kept drv rd M xs s s1" by simp
      then obtain s2 where s2: "flush1 drv p s1 = Some (True, s2)" "kept drv rd M xs s s2" "bufs s2 = (bufs s1)(p := clean (bufs s1 p))"
        using p by (rule kept_flush1)
      have "delete_act drv low high dsk XFR_READ p (u, s1) = Some ((), s2)" using True s2(1) by (simp add: delete_act_def Let_def)
      moreover have "ring s2 xs" using s2(2) by (simp add: kept_def cache_inv_def)
      moreover have "\<not> is_dirty (clean (bufs s1 p))" by (simp add: is_dirty_iff)
      then have "?I ps () s2" using I s2(2,3) by auto
      ultimately show ?thesis by blast
    next
      case False
      have "delete_act drv low high dsk XFR_READ p (u, s1) = Some ((), s1)" using False by (auto simp: delete_act_def Let_def)
      moreover have "?in (bufs s1 p) \<longrightarrow> \<not> is_dirty (bufs s1 p)" using False by (auto simp: is_dirty_iff fvalid_def)
      then have "?I ps () s1" using I by auto
      ultimately show ?thesis using r by blast
    qed
  qed
  then show ?thesis by (auto simp: DeleteBlockInBufferCache_def)
qed

subsection \<open>The contents of a file\<close>

text \<open>
  The sectors of a cluster, the block of sector \<open>j\<close> of a file with the clusters \<open>cs\<close>, its bytes. The data area
  does not overlap the file allocation tables, the information sector and the boot sector.
\<close>

definition spc :: "dpb \<Rightarrow> nat" where
  "spc g = 2 ^ unat (dpb_shftcnt g)"

definition data_geom :: "(u8 \<times> u32) set \<Rightarrow> dpb \<Rightarrow> bool" where
  "data_geom M g \<longleftrightarrow> unat (dpb_clsmask g) + 1 = spc g \<and> (\<forall>c k. in_fat g c \<longrightarrow> k < spc g \<longrightarrow>
     clus2phys c g + of_nat k \<noteq> 0 \<and> (dpb_unit g, clus2phys c g + of_nat k) \<notin> M \<and> (dpb_unit g, clus2phys c g + of_nat k) \<notin> fat_area g)"

definition file_block :: "dpb \<Rightarrow> u32 list \<Rightarrow> nat \<Rightarrow> u32" where
  "file_block g cs j = clus2phys (cs ! (j div spc g)) g + of_nat (j mod spc g)"

definition file_byte :: "(u8 \<Rightarrow> u32 \<Rightarrow> u8 list) \<Rightarrow> dpb \<Rightarrow> u32 list \<Rightarrow> nat \<Rightarrow> u8" where
  "file_byte V g cs i = V (dpb_unit g) (file_block g cs (i div 512)) ! (i mod 512)"

definition file_bytes :: "(u8 \<Rightarrow> u32 \<Rightarrow> u8 list) \<Rightarrow> dpb \<Rightarrow> u32 list \<Rightarrow> nat \<Rightarrow> nat \<Rightarrow> u8 list" where
  "file_bytes V g cs off n = map (\<lambda>i. file_byte V g cs (off + i)) [0..<n]"

lemma length_file_bytes [simp]: "length (file_bytes V g cs off n) = n"
  by (simp add: file_bytes_def)

lemma file_bytes_add: "file_bytes V g cs off (m + n) = file_bytes V g cs off m @ file_bytes V g cs (off + m) n"
  by (rule nth_equalityI) (auto simp: file_bytes_def nth_append add.assoc)

lemma spc_pos [simp]: "0 < spc g"
  by (simp add: spc_def)

lemma spc_bound: "data_geom M g \<Longrightarrow> spc g \<le> 256"
  using unsigned_less [of "dpb_clsmask g", where 'a = nat] by (simp add: data_geom_def)

lemma shft_bound: "data_geom M g \<Longrightarrow> unat (dpb_shftcnt g) \<le> 8"
  using spc_bound [of M g] power_increasing_iff [of "2::nat" "unat (dpb_shftcnt g)" 8] by (simp add: spc_def)

lemma rel_sector: "dpb_secsize g = 512 \<Longrightarrow> rel_cluster g off = unat off div 512 div spc g"
  by (simp add: rel_cluster_def spc_def div_mult2_eq)

text \<open>The sector within the cluster, as \<^verbatim>\<open>rwblock\<close> computes it.\<close>

lemma sector_in_cluster:
  assumes g: "data_geom M g" and d: "dpb_clsmask d = dpb_clsmask g"
  shows "unat ((ucast (off div 512 :: u32) :: u8) AND dpb_clsmask d) = unat off div 512 mod spc g"
proof -
  let ?m = "unat (dpb_shftcnt g)"
  have "unat (dpb_clsmask g) + 1 = 2 ^ ?m" using g unfolding data_geom_def spc_def by blast
  then have "unat (dpb_clsmask g) = mask ?m" by (simp add: mask_eq_exp_minus_1)
  then have "unat ((ucast (off div 512) :: u8) AND dpb_clsmask d) = take_bit ?m (unat (ucast (off div 512) :: u8))"
    unfolding d by (simp only: unsigned_and_eq take_bit_eq_mask)
  also have "\<dots> = take_bit ?m (take_bit 8 (unat (off div 512)))" by (simp add: unsigned_ucast_eq)
  also have "\<dots> = take_bit ?m (unat off div 512)" using shft_bound [OF g] by (simp add: unat_div min_def)
  finally show ?thesis by (simp add: take_bit_eq_mod spc_def)
qed

lemma geom_data:
  assumes "geom d = geom g"
  shows "dpb_clsmask d = dpb_clsmask g" "clus2phys c d = clus2phys c g" "dpb_unit d = dpb_unit g" "dpb_secsize d = dpb_secsize g"
proof -
  have "dpb_clsmask (geom e) = dpb_clsmask e" "clus2phys c (geom e) = clus2phys c e" for e
    by (simp_all add: geom_def clus2phys_def ISFAT32_def)
  then show "dpb_clsmask d = dpb_clsmask g" "clus2phys c d = clus2phys c g" using assms by metis+
  show "dpb_unit d = dpb_unit g" "dpb_secsize d = dpb_secsize g" using geom_eq(1) [OF assms] geom_pos(1) [OF assms] .
qed

text \<open>A block of a file is a block of data.\<close>

lemma file_block_data:
  assumes g: "data_geom M g" and ch: "cchain {2..max_cluster g} E c cs" and j: "j div spc g < length cs"
  shows "file_block g cs j \<noteq> 0" "(dpb_unit g, file_block g cs j) \<notin> M" "(dpb_unit g, file_block g cs j) \<notin> fat_area g"
proof -
  have "in_fat g (cs ! (j div spc g))" using subsetD [OF cchain_set [OF ch] nth_mem [OF j]] by (simp add: in_fat_iff)
  then show "file_block g cs j \<noteq> 0" "(dpb_unit g, file_block g cs j) \<notin> M" "(dpb_unit g, file_block g cs j) \<notin> fat_area g"
    using g by (simp_all add: data_geom_def file_block_def)
qed

text \<open>Sectors read in a row are bytes of the file.\<close>

lemma nth_concat_run:
  assumes "\<And>i. i < n \<Longrightarrow> length (f i) = 512" "i < 512 * n"
  shows "concat (map f [0..<n]) ! i = f (i div 512) ! (i mod 512)"
  using assms
proof (induction n)
  case (Suc n)
  have "length (concat (map f [0..<n])) = (\<Sum>k \<leftarrow> [0..<n]. 512)"
    unfolding length_concat using Suc.prems(1) by (intro arg_cong [of _ _ sum_list]) (simp add: comp_def)
  then have l: "length (concat (map f [0..<n])) = 512 * n" by (simp add: sum_list_triv)
  show ?case
  proof (cases "i < 512 * n")
    case True
    then show ?thesis using Suc.IH Suc.prems(1) l by (simp add: nth_append)
  next
    case False
    then obtain r where r: "i = 512 * n + r" "r < 512" using Suc.prems(2) by (metis le_Suc_ex not_less nat_add_left_cancel_less mult_Suc_right add.commute)
    then show ?thesis using l by (simp add: nth_append)
  qed
qed simp

lemma length_concat_run: "(\<And>i. i < n \<Longrightarrow> length (f i) = 512) \<Longrightarrow> length (concat (map f [0..<n])) = 512 * n"
  by (induction n) simp_all

lemma run_bytes:
  assumes "\<And>i. i < n \<Longrightarrow> length (V (dpb_unit g) (file_block g cs (j + i))) = 512"
  shows "concat (map (\<lambda>i. V (dpb_unit g) (file_block g cs (j + i))) [0..<n]) = file_bytes V g cs (512 * j) (512 * n)"
proof (rule nth_equalityI)
  show l: "length (concat (map (\<lambda>i. V (dpb_unit g) (file_block g cs (j + i))) [0..<n])) = length (file_bytes V g cs (512 * j) (512 * n))"
    using length_concat_run [of n "\<lambda>i. V (dpb_unit g) (file_block g cs (j + i))"] assms by simp
  fix i assume "i < length (concat (map (\<lambda>i. V (dpb_unit g) (file_block g cs (j + i))) [0..<n]))"
  then have i: "i < 512 * n" using l by simp
  then show "concat (map (\<lambda>i. V (dpb_unit g) (file_block g cs (j + i))) [0..<n]) ! i = file_bytes V g cs (512 * j) (512 * n) ! i"
    using nth_concat_run [of n "\<lambda>i. V (dpb_unit g) (file_block g cs (j + i))" i] assms by (simp add: file_bytes_def file_byte_def)
qed

subsection \<open>Blocks of data\<close>

lemma fat_block:
  assumes ok: "fat_ok drv rd M X V dp g s" and xs: "cache_inv drv rd M xs s" "set xs = X"
    and b: "(dpb_unit g, b) \<notin> M" "(dpb_unit g, b) \<notin> fat_area g"
  shows "view rd xs s (dpb_unit g) b = V (dpb_unit g) b"
  using fat_ok_sel(3,7) [OF ok] b block_at_ring [OF xs(1)] xs(2) by (auto simp: rest_ok_def)

lemma fat_getblk:
  assumes ok: "fat_ok drv rd M X V dp g s" and b: "(dpb_unit g, b) \<notin> M" "(dpb_unit g, b) \<notin> fat_area g"
  shows "\<exists>p s'. getblock drv b (dpb_unit g) s = Some (Some p, s') \<and> fat_ok drv rd M X V dp g s' \<and> fat_at rd X g s' = fat_at rd X g s
    \<and> p \<in> X \<and> is_block b (dpb_unit g) (bufs s' p) \<and> b_buffer (bufs s' p) = V (dpb_unit g) b"
proof -
  obtain xs where xs: "cache_inv drv rd M xs s" "set xs = X" using fat_okE [OF ok] by metis
  from getblk_ok [OF xs(1) fat_ok_sel(3) [OF ok], of b] obtain p xs' s' where
    g: "getblock drv b (dpb_unit g) s = Some (Some p, s')" "got drv rd M xs s (dpb_unit g) b p xs' s'" by blast
  then have st: "fstep drv rd M xs s xs' s'" and i: "cache_inv drv rd M xs' s'" "set xs' = X" "hd xs' = p" "is_block b (dpb_unit g) (bufs s' p)"
    using xs(2) by (simp_all add: got_def fstep_def)
  note f = fat_fstep [OF ok xs st]
  have p: "p \<in> set xs'" using i(1,3) hd_in_set [of xs'] by (auto simp: cache_inv_def ring_def)
  then have "b_buffer (bufs s' p) = V (dpb_unit g) b" using view_hit [OF i(1) p i(4)] fat_block [OF f(1) i(1,2) b] by simp
  with g(1) f i(2,4) p show ?thesis by blast
qed

lemma fat_uncache:
  assumes ok: "fat_ok drv rd M X V dp g s"
  shows "fat_ok drv rd M X V dp g (upd_buf p (\<lambda>b. b\<lparr>b_flag := b_flag b OR BFR_UNCACHE\<rparr>) s)"
    "fat_at rd X g (upd_buf p (\<lambda>b. b\<lparr>b_flag := b_flag b OR BFR_UNCACHE\<rparr>) s) = fat_at rd X g s"
proof -
  let ?s = "upd_buf p (\<lambda>b. b\<lparr>b_flag := b_flag b OR BFR_UNCACHE\<rparr>) s"
  obtain xs where xs: "cache_inv drv rd M xs s" "set xs = X" using fat_okE [OF ok] by metis
  have r: "ring ?s xs" using xs(1) by (simp add: ring_upd_buf cache_inv_def)
  have sm: "sem (bufs ?s q) = sem (bufs s q)" for q by (cases "q = p") (simp_all add: sem_uncache)
  have db: "length (deblock_buf ?s) = 512" using xs(1) by (simp add: cache_inv_def)
  note c = cache_inv_sem [OF xs(1) r refl sm same_env_upd _ db]
  have "fstep drv rd M xs s xs ?s" using c by (simp add: fstep_def)
  from fat_fstep [OF ok xs this] show "fat_ok drv rd M X V dp g ?s" "fat_at rd X g ?s = fat_at rd X g s" .
qed

lemma unat_run:
  fixes b :: u32
  assumes "\<forall>i<n. b + of_nat i \<noteq> 0" "i < n"
  shows "unat (b + of_nat i) = unat b + i"
  using assms(2)
proof (induction i)
  case (Suc i)
  have "b + of_nat (Suc i) \<noteq> 0" using assms(1) Suc.prems by blast
  then have "1 + (b + of_nat i) \<noteq> 0" by (simp add: ac_simps)
  from unatSuc [OF this] Suc show ?case by (simp add: ac_simps)
qed simp

lemma direct_read_ok:
  assumes ok: "fat_ok drv rd M X V dp g s" and n: "0 < unat n" and len: "length area = 512 * unat n"
    and b: "\<forall>i<unat n. b + of_nat i \<noteq> 0 \<and> (dpb_unit g, b + of_nat i) \<notin> M \<and> (dpb_unit g, b + of_nat i) \<notin> fat_area g"
  shows "\<exists>s1 s2. DeleteBlockInBufferCache drv b (b + ucast n - 1) (dpb_unit g) XFR_READ s = Some (False, s1)
    \<and> dskxfer drv (dpb_unit g) b hi area n DSKREAD s1 = Some (0, concat (map (\<lambda>i. V (dpb_unit g) (b + of_nat i)) [0..<unat n]), s2)
    \<and> fat_ok drv rd M X V dp g s2 \<and> fat_at rd X g s2 = fat_at rd X g s"
proof -
  let ?u = "dpb_unit g"
  obtain xs where xs: "cache_inv drv rd M xs s" "set xs = X" using fat_okE [OF ok] by metis
  obtain s1 where s1: "DeleteBlockInBufferCache drv b (b + ucast n - 1) ?u XFR_READ s = Some (False, s1)" "kept drv rd M xs s s1"
    and cl: "\<And>p. p \<in> set xs \<Longrightarrow> b \<le> b_blkno (bufs s1 p) \<Longrightarrow> b_blkno (bufs s1 p) \<le> b + ucast n - 1 \<Longrightarrow> b_unit (bufs s1 p) = ?u \<Longrightarrow> \<not> is_dirty (bufs s1 p)"
    using delete_read_ok [OF xs(1), of b "b + ucast n - 1" ?u] by blast
  have i1: "cache_inv drv rd M xs s1" and "fstep drv rd M xs s xs s1" using s1(2) by (simp_all add: kept_def fstep_def)
  note f1 = fat_fstep [OF ok xs this(2)]
  have up: "unat (b + of_nat i) = unat b + i" if "i < unat n" for i using unat_run [of "unat n" b i] b that by blast
  have "(ucast n :: u32) = of_nat (unat n)" by (simp add: word_unat_eq_iff unat_of_nat unat_lt16 less_trans [OF unat_lt16])
  then have last: "b + ucast n - 1 = b + of_nat (unat n - 1)" using n by (simp add: of_nat_diff)
  have sec: "sector rd s1 ?u (b + of_nat i) = V ?u (b + of_nat i)" if i: "i < unat n" for i
  proof -
    have bi: "(?u, b + of_nat i) \<notin> M" "(?u, b + of_nat i) \<notin> fat_area g" using b i by auto
    have rng: "b \<le> b + of_nat i" "b + of_nat i \<le> b + ucast n - 1" unfolding last using up [OF i] up [of "unat n - 1"] i n by (simp_all add: word_le_nat_alt)
    from i1 show ?thesis
    proof (rule view_cases [where u = ?u and b = "b + of_nat i"])
      fix p assume p: "p \<in> set xs" "is_block (b + of_nat i) ?u (bufs s1 p)" "view rd xs s1 ?u (b + of_nat i) = b_buffer (bufs s1 p)"
      then have bk: "fvalid (bufs s1 p)" "b_blkno (bufs s1 p) = b + of_nat i" "b_unit (bufs s1 p) = ?u" by (simp_all add: is_block_iff blk_of_def)
      have "\<not> fdirty (bufs s1 p)" using cl [OF p(1)] bk rng by (simp add: is_dirty_iff)
      moreover have "buf_ok rd M s1 (bufs s1 p)" using i1 p(1) by (simp add: cache_inv_def)
      ultimately have "b_buffer (bufs s1 p) = sector rd s1 ?u (b + of_nat i)" using bk bi(1) by (simp add: buf_ok_def blk_of_def)
      then show ?thesis using p(3) fat_block [OF f1(1) i1 xs(2) bi] by simp
    next
      assume "view rd xs s1 ?u (b + of_nat i) = sector rd s1 ?u (b + of_nat i)"
      then show ?thesis using fat_block [OF f1(1) i1 xs(2) bi] by simp
    qed
  qed
  obtain dp' where dp': "drives s1 ?u = Some dp'" using fat_ok_sel(3) [OF f1(1)] by blast
  have drv: "disk_driver drv rd" "length (deblock_buf s1) = 512" using i1 by (simp_all add: cache_inv_def)
  obtain dv db where x: "dskxfer drv ?u b hi area n DSKREAD s1 = Some (0, concat (map (\<lambda>i. sector rd s1 ?u (b + of_nat i)) [0..<unat n]), dev_only dv db s1)"
    "rd dv = rd (device s1)" "length db = 512" using dskxfer_read_run [OF drv(1) dp' n len drv(2)] by blast
  have m: "map (\<lambda>i. sector rd s1 ?u (b + of_nat i)) [0..<unat n] = map (\<lambda>i. V ?u (b + of_nat i)) [0..<unat n]" using sec by simp
  note x1 = x(1) [unfolded m]
  have "fstep drv rd M xs s1 xs (dev_only dv db s1)" using cache_inv_dev [OF i1 x(2,3)] by (simp add: fstep_def)
  from fat_fstep [OF f1(1) i1 xs(2) this] s1(1) x1 f1(2) show ?thesis by auto
qed

end
