(* ===== verification/FatFile.thy ===== *)
theory FatFile
  imports FatIo
begin

text \<open>Reading a file: \<^verbatim>\<open>rwblock\<close> of \<^verbatim>\<open>kernel/fatfs.c\<close> returns the bytes of the file.\<close>

subsection \<open>The state during a transfer\<close>

text \<open>
  The first file node belongs to a file with the clusters \<open>cs\<close> and is at position \<open>pos\<close>; apart from it and
  the kernel below nothing differs from \<open>s0\<close>, and the table and the data are as at the start.
\<close>

definition reading :: "'d driver \<Rightarrow> ('d \<Rightarrow> u16 \<Rightarrow> u8 \<Rightarrow> u32 \<Rightarrow> u8 list) \<Rightarrow> (u8 \<times> u32) set \<Rightarrow> u16 set \<Rightarrow>
    (u8 \<Rightarrow> u32 \<Rightarrow> u8 list) \<Rightarrow> dpb \<Rightarrow> (u32 \<Rightarrow> u32) \<Rightarrow> u32 list \<Rightarrow> ('d, 'c) fs \<Rightarrow> u32 \<Rightarrow> ('d, 'c) fs \<Rightarrow> bool" where
  "reading drv rd M X V g E cs s0 pos s \<longleftrightarrow>
     (\<exists>fn t. s = s0\<lparr>ks := t, fnode := (fnode s0)(0 := fn)\<rparr> \<and> fat_ok drv rd M X V (f_dpb (fnode s0 0)) g t \<and> fat_at rd X g t = E
       \<and> node_ok g E (dm_dircluster (dmat s0 0)) cs fn \<and> moved ((fnode s0 0)\<lparr>f_offset := pos\<rparr>) fn)"

lemma readingE:
  assumes "reading drv rd M X V g E cs s0 pos s"
  obtains "fat_ok drv rd M X V (f_dpb (fnode s0 0)) g (ks s)" "fat_at rd X g (ks s) = E" "node_ok g E (dm_dircluster (dmat s0 0)) cs (fnode s 0)"
    "f_offset (fnode s 0) = pos" "f_dir (fnode s 0) = f_dir (fnode s0 0)" "f_dpb (fnode s 0) = f_dpb (fnode s0 0)"
    "f_sft_idx (fnode s 0) = f_sft_idx (fnode s0 0)" "geom (dpb_of 0 s) = geom g" "dmat s = dmat s0" "sfts s = sfts s0"
proof -
  obtain fn t where s: "s = s0\<lparr>ks := t, fnode := (fnode s0)(0 := fn)\<rparr>" and ok: "fat_ok drv rd M X V (f_dpb (fnode s0 0)) g t"
    and r: "fat_at rd X g t = E" "node_ok g E (dm_dircluster (dmat s0 0)) cs fn" and m: "moved ((fnode s0 0)\<lparr>f_offset := pos\<rparr>) fn"
    using assms by (auto simp: reading_def)
  note f = moved_fields [OF m]
  show thesis by (rule that) (use s ok r f fat_ok_sel(2) [OF ok] in simp_all)
qed

lemma reading_ks:
  assumes "reading drv rd M X V g E cs s0 pos s" "fat_ok drv rd M X V (f_dpb (fnode s0 0)) g t" "fat_at rd X g t = E"
  shows "reading drv rd M X V g E cs s0 pos (s\<lparr>ks := t\<rparr>)"
proof -
  obtain fn t0 where "s = s0\<lparr>ks := t0, fnode := (fnode s0)(0 := fn)\<rparr>" "node_ok g E (dm_dircluster (dmat s0 0)) cs fn"
    "moved ((fnode s0 0)\<lparr>f_offset := pos\<rparr>) fn" using assms(1) by (auto simp: reading_def)
  with assms(2,3) show ?thesis unfolding reading_def by (intro exI [of _ fn] exI [of _ t]) simp
qed

lemma reading_advance:
  assumes "reading drv rd M X V g E cs s0 pos s"
  shows "reading drv rd M X V g E cs s0 pos' (advance 0 pos' s)"
proof -
  obtain fn t where s: "s = s0\<lparr>ks := t, fnode := (fnode s0)(0 := fn)\<rparr>" and r: "fat_ok drv rd M X V (f_dpb (fnode s0 0)) g t"
    "fat_at rd X g t = E" "node_ok g E (dm_dircluster (dmat s0 0)) cs fn" and m: "moved ((fnode s0 0)\<lparr>f_offset := pos\<rparr>) fn"
    using assms by (auto simp: reading_def)
  have "moved ((fnode s0 0)\<lparr>f_offset := pos'\<rparr>) (fn\<lparr>f_offset := pos'\<rparr>)" using m by (cases "fnode s0 0"; cases fn) (simp add: moved_def)
  moreover have "advance 0 pos' s = s0\<lparr>ks := t, fnode := (fnode s0)(0 := fn\<lparr>f_offset := pos'\<rparr>)\<rparr>" by (simp add: s advance_def upd_fn_def)
  ultimately show ?thesis using r unfolding reading_def by (intro exI [of _ "fn\<lparr>f_offset := pos'\<rparr>"] exI [of _ t]) simp
qed

lemma reading_map:
  assumes r: "reading drv rd M X V g E cs s0 pos s" and k: "rel_cluster g pos < length cs"
  shows "\<exists>s'. map_node drv XFR_READ 0 s = Some (SUCCESS, s') \<and> reading drv rd M X V g E cs s0 pos s' \<and> f_cluster (fnode s' 0) = cs ! rel_cluster g pos"
proof -
  obtain fn t where s: "s = s0\<lparr>ks := t, fnode := (fnode s0)(0 := fn)\<rparr>" and ok: "fat_ok drv rd M X V (f_dpb (fnode s0 0)) g t"
    and E: "fat_at rd X g t = E" and nd: "node_ok g E (dm_dircluster (dmat s0 0)) cs fn" and m: "moved ((fnode s0 0)\<lparr>f_offset := pos\<rparr>) fn"
    using r by (auto simp: reading_def)
  note f = moved_fields [OF m]
  have "fat_ok drv rd M X V (f_dpb fn) g t" "node_ok g (fat_at rd X g t) (dm_dircluster (dmat s0 0)) cs fn" using ok nd f(3) E by simp_all
  from map_read_ok [OF this] f(1) k E obtain fn' t' where m': "map_cluster drv (dm_dircluster (dmat s0 0)) XFR_READ fn t = Some (SUCCESS, fn', t')"
    "fat_ok drv rd M X V (f_dpb fn) g t'" "fat_at rd X g t' = E" "node_ok g E (dm_dircluster (dmat s0 0)) cs fn'" "moved fn fn'"
    "f_cluster fn' = cs ! rel_cluster g pos" by auto
  have "map_node drv XFR_READ 0 s = Some (SUCCESS, s0\<lparr>ks := t', fnode := (fnode s0)(0 := fn')\<rparr>)"
    using m'(1) by (simp add: map_node_def s upd_fn_def)
  moreover have "reading drv rd M X V g E cs s0 pos (s0\<lparr>ks := t', fnode := (fnode s0)(0 := fn')\<rparr>)"
    unfolding reading_def using m'(2-5) f(3) moved_trans(1) [OF m m'(5)] by (intro exI [of _ fn'] exI [of _ t']) simp
  ultimately show ?thesis using m'(6) by (intro exI [of _ "s0\<lparr>ks := t', fnode := (fnode s0)(0 := fn')\<rparr>"]) simp
qed

text \<open>A file whose chain holds its size.\<close>

definition covers :: "dpb \<Rightarrow> u32 list \<Rightarrow> nat \<Rightarrow> bool" where
  "covers g cs n \<longleftrightarrow> n \<le> 512 * spc g * length cs"

lemma covers_sector: "covers g cs n \<Longrightarrow> 512 * j < n \<Longrightarrow> j div spc g < length cs"
proof -
  assume "covers g cs n" "512 * j < n"
  then have "512 * j < 512 * (spc g * length cs)" unfolding covers_def by (simp only: mult.assoc)
  then have "j < length cs * spc g" by (simp add: mult.commute)
  then show ?thesis by (rule less_mult_imp_div_less)
qed

lemma covers_pos: "covers g cs n \<Longrightarrow> dpb_secsize g = 512 \<Longrightarrow> unat pos < n \<Longrightarrow> rel_cluster g pos < length cs"
proof -
  assume "covers g cs n" "dpb_secsize g = 512" "unat pos < n"
  moreover have "512 * (unat pos div 512) \<le> unat pos" by simp
  ultimately show ?thesis using covers_sector [of g cs n "unat pos div 512"] by (simp add: rel_sector)
qed

subsection \<open>Clusters that lie behind each other\<close>

lemma unat_times512: "unat (n :: u16) \<le> 127 \<Longrightarrow> unat (n * 512) = 512 * unat n"
  by (subst unat_word_ariths) simp

lemma unat_offset:
  assumes "unat (n :: u16) \<le> 127" "unat (off :: u32) = 512 * j" "512 * (j + unat n) < 4294967296"
  shows "unat (off + ucast (n * 512)) = 512 * (j + unat n)"
proof -
  have "unat (ucast (n * 512) :: u32) = 512 * unat n" using unat_times512 [OF assms(1)] by simp
  then show ?thesis using assms(2,3) by (subst unat_word_ariths) simp
qed

lemma file_block_run:
  assumes "(j + n) mod spc g = 0" "n \<le> i" "i < n + spc g"
  shows "file_block g cs (j + i) = clus2phys (cs ! ((j + n) div spc g)) g + of_nat (i - n)"
proof -
  obtain q where q: "j + n = q * spc g" using assms(1) by (metis mod_0_imp_dvd dvd_div_mult_self)
  then have "j + i = q * spc g + (i - n)" "i - n < spc g" using assms(2,3) by auto
  then have "(j + i) div spc g = q" "(j + i) mod spc g = i - n" by simp_all
  moreover have "(j + n) div spc g = q" using q by simp
  ultimately show ?thesis by (simp add: file_block_def)
qed

text \<open>The sectors of the next cluster, and those left in the first one, as far as they are wanted.\<close>

lemma unat_more:
  assumes g: "data_geom M g" and m: "dpb_clsmask d = dpb_clsmask g" and w: "unat (n :: u16) < unat (wanted :: u16)" "unat wanted \<le> 127"
  shows "unat (min (n + (ucast (dpb_clsmask d) + 1)) wanted) = min (unat n + spc g) (unat wanted)"
proof -
  have "unat (dpb_clsmask d) + 1 = spc g" using g m unfolding data_geom_def by simp
  then have "unat (ucast (dpb_clsmask d) + 1 :: u16) = spc g" using spc_bound [OF g] by (subst unat_word_ariths) (simp add: unat_ucast8_16)
  then have "unat (n + (ucast (dpb_clsmask d) + 1)) = unat n + spc g" using w spc_bound [OF g] by (subst unat_word_ariths) simp
  then show ?thesis by (simp add: min_def word_le_nat_alt)
qed

lemma unat_first:
  assumes g: "data_geom M g" and m: "dpb_clsmask d = dpb_clsmask g" and sec: "unat (secno :: u16) = j mod spc g"
  shows "unat (min (ucast (dpb_clsmask d) + 1 - secno) wanted) = min (spc g - j mod spc g) (unat (wanted :: u16))"
proof -
  have "unat (dpb_clsmask d) + 1 = spc g" using g m unfolding data_geom_def by simp
  then have "unat (ucast (dpb_clsmask d) + 1 :: u16) = spc g" using spc_bound [OF g] by (subst unat_word_ariths) simp
  moreover have "j mod spc g < spc g" by simp
  ultimately have "unat (ucast (dpb_clsmask d) + 1 - secno) = spc g - j mod spc g" using sec by (subst unat_sub) (simp_all add: word_le_nat_alt less_imp_le)
  then show ?thesis by (simp add: min_def word_le_nat_alt)
qed

definition gathered :: "dpb \<Rightarrow> u32 list \<Rightarrow> u32 \<Rightarrow> nat \<Rightarrow> u16 \<Rightarrow> u16 \<Rightarrow> bool" where
  "gathered g cs b j wanted n \<longleftrightarrow> 0 < unat n \<and> unat n \<le> unat wanted \<and> (\<forall>i<unat n. b + of_nat i = file_block g cs (j + i))"

lemma gathered_more:
  assumes n: "gathered g cs b j wanted n" "unat n < unat wanted" "(j + unat n) mod spc g = 0" and w: "unat wanted \<le> 127"
    and g: "data_geom M g" and m: "dpb_clsmask d = dpb_clsmask g" and b: "clus2phys (cs ! ((j + unat n) div spc g)) g = b + ucast n"
  defines "n' \<equiv> min (n + (ucast (dpb_clsmask d) + 1)) wanted"
  shows "gathered g cs b j wanted n' \<and> unat n < unat n' \<and> (unat n' < unat wanted \<longrightarrow> (j + unat n') mod spc g = 0)"
proof -
  have n': "unat n' = min (unat n + spc g) (unat wanted)" unfolding n'_def by (rule unat_more [OF g m n(2) w])
  have un: "(ucast n :: u32) = of_nat (unat n)" by (simp add: word_unat_eq_iff unat_of_nat less_trans [OF unat_lt16])
  have "b + of_nat i = file_block g cs (j + i)" if "i < unat n'" for i
  proof (cases "i < unat n")
    case True
    then show ?thesis using n(1) by (simp add: gathered_def)
  next
    case False
    then have "file_block g cs (j + i) = b + ucast n + of_nat (i - unat n)" using file_block_run [OF n(3), of i cs] that n' b by simp
    moreover have "(of_nat i :: u32) = of_nat (unat n) + of_nat (i - unat n)" using False by (metis le_add_diff_inverse not_less of_nat_add)
    ultimately show ?thesis by (simp only: un add.assoc)
  qed
  moreover have "(j + unat n') mod spc g = 0" if "unat n' < unat wanted"
  proof -
    have "unat n' = unat n + spc g" using that n' by simp
    then show ?thesis using n(3) by (simp add: add.assoc [symmetric])
  qed
  moreover have "0 < unat n'" "unat n' \<le> unat wanted" "unat n < unat n'" using n(1,2) n' spc_pos [of g] by (auto simp: gathered_def min_def)
  ultimately show ?thesis by (simp add: gathered_def)
qed

lemma gather_reads:
  assumes g: "data_geom M g" "dpb_secsize g = 512" and r: "reading drv rd M X V g E cs s0 (off + ucast (n0 * 512)) s"
    and n0: "gathered g cs b j wanted n0" "unat n0 < unat wanted \<longrightarrow> (j + unat n0) mod spc g = 0"
    and w: "unat wanted \<le> 127" "unat off = 512 * j" "covers g cs sz" "512 * (j + unat wanted) \<le> sz" "sz < 4294967296"
  shows "\<exists>n s'. loopM (gather_body drv XFR_READ b 512 off wanted) (n0, s) = Some (n, s') \<and> gathered g cs b j wanted n
    \<and> reading drv rd M X V g E cs s0 (off + ucast (n * 512)) s'"
proof -
  define J where "J v m \<longleftrightarrow> (case v of (n, s) \<Rightarrow> reading drv rd M X V g E cs s0 (off + ucast (n * 512)) s \<and> gathered g cs b j wanted n
    \<and> (unat n < unat wanted \<longrightarrow> (j + unat n) mod spc g = 0) \<and> unat wanted - unat n = m)" for v :: "u16 \<times> ('a, 'b) fs" and m
  have J0: "J (n0, s) (unat wanted - unat n0)" using r n0 by (simp add: J_def)
  have "\<exists>x. loopM (gather_body drv XFR_READ b 512 off wanted) (n0, s) = Some x \<and> (case x of (n, s') \<Rightarrow> gathered g cs b j wanted n
    \<and> reading drv rd M X V g E cs s0 (off + ucast (n * 512)) s')"
  proof (rule loopM_ghost [of J, OF J0])
    fix v m assume J: "J v m"
    obtain n s where v: "v = (n, s)" by (cases v)
    have s: "reading drv rd M X V g E cs s0 (off + ucast (n * 512)) s" "gathered g cs b j wanted n"
      "unat n < unat wanted \<Longrightarrow> (j + unat n) mod spc g = 0" "unat wanted - unat n = m" using J by (simp_all add: J_def v)
    show "\<exists>x. gather_body drv XFR_READ b 512 off wanted v = Some x \<and> (case x of Inl r \<Rightarrow> (case r of (n, s') \<Rightarrow> gathered g cs b j wanted n
        \<and> reading drv rd M X V g E cs s0 (off + ucast (n * 512)) s') | Inr s' \<Rightarrow> \<exists>n'<m. J s' n')"
    proof (cases "unat n < unat wanted")
      case False
      then show ?thesis using s by (simp add: gather_body_def v word_less_nat_alt)
    next
      case True
      have pos: "unat (off + ucast (n * 512)) = 512 * (j + unat n)" using unat_offset [of n off j] True w by simp
      then have k: "rel_cluster g (off + ucast (n * 512)) = (j + unat n) div spc g" using g(2) by (simp add: rel_sector)
      have "(j + unat n) div spc g < length cs" using covers_sector [OF w(3), of "j + unat n"] True w(4) by simp
      with reading_map [OF s(1)] k obtain s1 where s1: "map_node drv XFR_READ 0 s = Some (SUCCESS, s1)"
        "reading drv rd M X V g E cs s0 (off + ucast (n * 512)) s1" "f_cluster (fnode s1 0) = cs ! ((j + unat n) div spc g)" by auto
      have d: "geom (dpb_of 0 s1) = geom g" using s1(2) by (rule readingE)
      note gd = geom_data [OF d]
      let ?c = "clus2phys (cs ! ((j + unat n) div spc g)) g"
      have lt: "n < wanted" using True by (simp add: word_less_nat_alt)
      show ?thesis
      proof (cases "?c = b + ucast n")
        case stop: False
        then have "gather_body drv XFR_READ b 512 off wanted v = Some (Inl (n, s1))" using lt s1(1,3) gd(2) by (simp add: gather_body_def v)
        then show ?thesis using s(2) s1(2) by simp
      next
        case on: True
        let ?n = "min (n + (ucast (dpb_clsmask (dpb_of 0 s1)) + 1)) wanted"
        let ?s = "advance 0 (off + ucast (?n * 512)) s1"
        have "gather_body drv XFR_READ b 512 off wanted v = Some (Inr (?n, ?s))" using lt on s1(1,3) gd(2) by (simp add: gather_body_def v Let_def)
        moreover have "J (?n, ?s) (unat wanted - unat ?n)" "unat wanted - unat ?n < m"
          using gathered_more [OF s(2) True s(3) [OF True] w(1) g(1) gd(1) on] reading_advance [OF s1(2)] s(4) True by (auto simp: J_def)
        ultimately show ?thesis by (simp del: split_paired_Ex) blast
      qed
    qed
  qed
  then show ?thesis by auto
qed

subsection \<open>Transfers past the cache\<close>

lemma gathered_first:
  assumes g: "data_geom M g" and d: "dpb_clsmask d = dpb_clsmask g" and sec: "unat (secno :: u16) = j mod spc g" and w: "0 < unat wanted" "unat wanted \<le> 127"
  defines "n0 \<equiv> min (ucast (dpb_clsmask d) + 1 - secno) wanted"
  shows "gathered g cs (file_block g cs j) j wanted n0 \<and> (unat n0 < unat wanted \<longrightarrow> (j + unat n0) mod spc g = 0)"
proof -
  let ?m = "j mod spc g"
  have m: "?m < spc g" by simp
  have n0: "unat n0 = min (spc g - ?m) (unat wanted)" unfolding n0_def by (rule unat_first [OF g d sec])
  have "file_block g cs j + of_nat i = file_block g cs (j + i)" if "i < unat n0" for i
  proof -
    have i: "?m + i < spc g" using that n0 m by linarith
    have "j + i = j div spc g * spc g + (?m + i)" by simp
    then have "(j + i) div spc g = j div spc g" "(j + i) mod spc g = ?m + i" using i by (metis div_mult_self3 div_less add.commute add_0 spc_pos less_not_refl2, metis mod_mult_self3 mod_less)
    then show ?thesis by (simp add: file_block_def)
  qed
  moreover have "(j + unat n0) mod spc g = 0" if "unat n0 < unat wanted"
  proof -
    have "unat n0 = spc g - ?m" using that n0 by linarith
    then have "j + unat n0 = j div spc g * spc g + spc g" using m div_mult_mod_eq [of j "spc g"] by linarith
    then show ?thesis by simp
  qed
  moreover have "0 < unat n0" "unat n0 \<le> unat wanted" using n0 m w by auto
  ultimately show ?thesis by (simp add: gathered_def)
qed

lemma block_length:
  assumes ok: "fat_ok drv rd M X V dp g s" and b: "(dpb_unit g, b) \<notin> M" "(dpb_unit g, b) \<notin> fat_area g"
  shows "length (V (dpb_unit g) b) = 512"
proof -
  obtain xs where xs: "cache_inv drv rd M xs s" "set xs = X" using fat_okE [OF ok] by metis
  note v = fat_block [OF ok xs b]
  from xs(1) show ?thesis
  proof (rule view_cases [where u = "dpb_unit g" and b = b])
    fix p assume "p \<in> set xs" "view rd xs s (dpb_unit g) b = b_buffer (bufs s p)"
    then show ?thesis using xs(1) v by (auto simp: cache_inv_def buf_ok_def)
  next
    assume "view rd xs s (dpb_unit g) b = sector rd s (dpb_unit g) b"
    then show ?thesis using xs(1) v by (simp add: cache_inv_def disk_driver_def sector_on_def Let_def)
  qed
qed

lemma node_chain: "node_ok g E dircl cs fn \<Longrightarrow> cs \<noteq> [] \<Longrightarrow> cchain {2..max_cluster g} E (node_start dircl g fn) cs"
  by (simp add: node_ok_def clusters_of_def)

lemma direct_reads:
  assumes g: "data_geom M g" "dpb_secsize g = 512" and r: "reading drv rd M X V g E cs s0 off s"
    and sec: "unat secno = j mod spc g" and w: "0 < unat wanted" "unat wanted \<le> 127" "unat off = 512 * j" "covers g cs sz" "512 * (j + unat wanted) \<le> sz" "sz < 4294967296"
    and buf: "pos + 512 * unat wanted \<le> length buf"
  shows "\<exists>n s'. direct_xfer drv high XFR_READ (file_block g cs j) secno wanted pos buf s
      = Some (Some (n * 512), overlay pos (file_bytes V g cs (unat off) (unat (n * 512))) buf, s')
    \<and> 0 < unat (n * 512) \<and> unat (n * 512) \<le> 512 * unat wanted \<and> reading drv rd M X V g E cs s0 (off + ucast (n * 512)) s'"
proof -
  have d: "geom (dpb_of 0 s) = geom g" and off: "f_offset (fnode s 0) = off" using r by (auto elim: readingE)
  note gd = geom_data [OF d]
  let ?b = "file_block g cs j" and ?u = "dpb_unit g"
  let ?n0 = "min (ucast (dpb_clsmask (dpb_of 0 s)) + 1 - secno) wanted"
  note f = gathered_first [OF g(1) gd(1) sec w(1,2), of cs]
  obtain n s1 where n: "loopM (gather_body drv XFR_READ ?b 512 off wanted) (?n0, advance 0 (off + ucast (?n0 * 512)) s) = Some (n, s1)"
    "gathered g cs ?b j wanted n" "reading drv rd M X V g E cs s0 (off + ucast (n * 512)) s1"
    using gather_reads [OF g reading_advance [OF r, of "off + ucast (?n0 * 512)"] f [THEN conjunct1] f [THEN conjunct2] w(2-6)] by blast
  have n1: "0 < unat n" "unat n \<le> unat wanted" "\<And>i. i < unat n \<Longrightarrow> ?b + of_nat i = file_block g cs (j + i)" using n(2) by (auto simp: gathered_def)
  have n512: "unat (n * 512) = 512 * unat n" using unat_times512 n1(2) w(2) by simp
  have ok1: "fat_ok drv rd M X V (f_dpb (fnode s0 0)) g (ks s1)" and E1: "fat_at rd X g (ks s1) = E" and d1: "geom (dpb_of 0 s1) = geom g"
    and nd: "node_ok g E (dm_dircluster (dmat s0 0)) cs (fnode s1 0)" using n(3) by (auto elim: readingE)
  have j: "(j + i) div spc g < length cs" if "i < unat n" for i using covers_sector [OF w(4), of "j + i"] that n1(2) w(5) by simp
  then have "cs \<noteq> []" using n1(1) by fastforce
  note ch = node_chain [OF nd this]
  have dat: "?b + of_nat i \<noteq> 0 \<and> (?u, ?b + of_nat i) \<notin> M \<and> (?u, ?b + of_nat i) \<notin> fat_area g" if "i < unat n" for i
    unfolding n1(3) [OF that] using file_block_data [OF g(1) ch j [OF that]] by blast
  have len: "length (take (unat (n * 512)) (drop pos buf)) = 512 * unat n" using n512 n1(2) buf by simp
  obtain t1 t2 where t: "DeleteBlockInBufferCache drv ?b (?b + ucast n - 1) ?u XFR_READ (ks s1) = Some (False, t1)"
    "dskxfer drv ?u ?b (high pos) (take (unat (n * 512)) (drop pos buf)) n DSKREAD t1 = Some (0, concat (map (\<lambda>i. V ?u (?b + of_nat i)) [0..<unat n]), t2)"
    "fat_ok drv rd M X V (f_dpb (fnode s0 0)) g t2" "fat_at rd X g t2 = E"
    using direct_read_ok [OF ok1 n1(1) len, of ?b "high pos"] dat E1 by blast
  have m: "map (\<lambda>i. V ?u (?b + of_nat i)) [0..<unat n] = map (\<lambda>i. V ?u (file_block g cs (j + i))) [0..<unat n]" using n1(3) by simp
  have "length (V ?u (file_block g cs (j + i))) = 512" if "i < unat n" for i
    using block_length [OF ok1, of "?b + of_nat i"] dat [OF that] n1(3) [OF that] by simp
  then have cc: "concat (map (\<lambda>i. V ?u (?b + of_nat i)) [0..<unat n]) = file_bytes V g cs (unat off) (unat (n * 512))"
    unfolding m using run_bytes [of "unat n" V g cs j] w(3) n512 by simp
  have u1: "dpb_unit (dpb_of 0 s1) = ?u" using geom_data(3) [OF d1] .
  have "direct_xfer drv high XFR_READ ?b secno wanted pos buf s
      = Some (Some (n * 512), overlay pos (file_bytes V g cs (unat off) (unat (n * 512))) buf, s1\<lparr>ks := t2\<rparr>)"
    unfolding direct_xfer_def Let_def gd(4) g(2) off n(1) using t(1,2) u1 cc by simp
  then show ?thesis using reading_ks [OF n(3) t(3,4)] n1(1,2) n512 by (intro exI [of _ n] exI [of _ "s1\<lparr>ks := t2\<rparr>"]) simp
qed

subsection \<open>Transfers through the cache\<close>

lemma sector_bytes:
  assumes "length (V (dpb_unit g) (file_block g cs (off div 512))) = 512" "off mod 512 + n \<le> 512"
  shows "take n (drop (off mod 512) (V (dpb_unit g) (file_block g cs (off div 512)))) = file_bytes V g cs off n"
proof (rule nth_equalityI)
  show l: "length (take n (drop (off mod 512) (V (dpb_unit g) (file_block g cs (off div 512))))) = length (file_bytes V g cs off n)"
    using assms by simp
  fix i assume "i < length (take n (drop (off mod 512) (V (dpb_unit g) (file_block g cs (off div 512)))))"
  then have i: "i < n" by simp
  have "off + i = off div 512 * 512 + (off mod 512 + i)" by simp
  moreover have "off mod 512 + i < 512" using i assms(2) by simp
  ultimately have "(off + i) div 512 = off div 512" "(off + i) mod 512 = off mod 512 + i" by (metis div_mult_self3 div_less add_0 add.commute zero_neq_numeral, metis mod_mult_self3 mod_less)
  then show "take n (drop (off mod 512) (V (dpb_unit g) (file_block g cs (off div 512)))) ! i = file_bytes V g cs off n ! i"
    using i assms by (simp add: file_bytes_def file_byte_def)
qed

lemma reading_block:
  assumes g: "data_geom M g" and r: "reading drv rd M X V g E cs s0 off s" and j: "j div spc g < length cs"
  shows "(dpb_unit g, file_block g cs j) \<notin> M" "(dpb_unit g, file_block g cs j) \<notin> fat_area g" "length (V (dpb_unit g) (file_block g cs j)) = 512"
proof -
  have ok: "fat_ok drv rd M X V (f_dpb (fnode s0 0)) g (ks s)" and nd: "node_ok g E (dm_dircluster (dmat s0 0)) cs (fnode s 0)" using r by (auto elim: readingE)
  have "cs \<noteq> []" using j by fastforce
  note b = file_block_data [OF g node_chain [OF nd this] j]
  show "(dpb_unit g, file_block g cs j) \<notin> M" "(dpb_unit g, file_block g cs j) \<notin> fat_area g" using b by simp_all
  then show "length (V (dpb_unit g) (file_block g cs j)) = 512" by (rule block_length [OF ok])
qed

lemma cached_amount:
  fixes to_xfer bo :: u16 and left :: u32
  assumes "unat bo < 512" "0 < unat to_xfer" "0 < unat left"
  defines "n \<equiv> ucast (min (ucast (min to_xfer (512 - bo))) left) :: u16"
  shows "unat n = min (min (unat to_xfer) (512 - unat bo)) (unat left)"
proof -
  let ?n0 = "min to_xfer (512 - bo)"
  have "unat (512 - bo) = 512 - unat bo" using assms(1) by (subst unat_sub) (simp_all add: word_le_nat_alt)
  then have n0: "unat ?n0 = min (unat to_xfer) (512 - unat bo)" by (simp add: min_def word_le_nat_alt)
  have "unat (ucast ?n0 :: u32) = unat ?n0" by simp
  then have "unat (min (ucast ?n0) left) = min (unat ?n0) (unat left)" by (simp add: min_def word_le_nat_alt)
  moreover have "min (unat ?n0) (unat left) < 65536" using unat_lt16 [of ?n0] by (simp only: min_less_iff_disj) simp
  ultimately show ?thesis using n0 by (simp add: n_def unsigned_ucast_eq take_bit_eq_mod)
qed

lemma cached_reads:
  assumes g: "data_geom M g" "dpb_secsize g = 512" and r: "reading drv rd M X V g E cs s0 off s"
    and sz: "unat (dir_size (f_dir (fnode s0 0))) = sz" "unat off < sz" "covers g cs sz" and bo: "unat bo = unat off mod 512" and tx: "0 < unat to_xfer"
  shows "\<exists>n s'. cached_xfer drv XFR_READ (file_block g cs (unat off div 512)) bo to_xfer pos buf s
      = Some (Some n, overlay pos (file_bytes V g cs (unat off) (unat n)) buf, s')
    \<and> 0 < unat n \<and> unat n \<le> min (unat to_xfer) (sz - unat off) \<and> reading drv rd M X V g E cs s0 (off + ucast n) s'"
proof -
  let ?j = "unat off div 512" and ?u = "dpb_unit g"
  have ok: "fat_ok drv rd M X V (f_dpb (fnode s0 0)) g (ks s)" and E: "fat_at rd X g (ks s) = E" and d: "geom (dpb_of 0 s) = geom g"
    and off: "f_offset (fnode s 0) = off" and dir: "dir_of 0 s = f_dir (fnode s0 0)" using r by (auto elim: readingE)
  note gd = geom_data [OF d]
  have "512 * ?j < sz" using sz(2) by (meson times_div_less_eq_dividend le_less_trans)
  note b = reading_block [OF g(1) r covers_sector [OF sz(3) this]]
  obtain p t where p: "getblock drv (file_block g cs ?j) ?u (ks s) = Some (Some p, t)" "fat_ok drv rd M X V (f_dpb (fnode s0 0)) g t"
    "fat_at rd X g t = E" "b_buffer (bufs t p) = V ?u (file_block g cs ?j)" using fat_getblk [OF ok b(1,2)] E by auto
  let ?left = "dir_size (dir_of 0 s) - off"
  have left: "unat ?left = sz - unat off" using sz(1,2) dir by (subst unat_sub) (simp_all add: word_le_nat_alt)
  define n where "n = (ucast (min (ucast (min to_xfer (512 - bo))) ?left) :: u16)"
  have n: "unat n = min (min (unat to_xfer) (512 - unat bo)) (sz - unat off)"
    unfolding n_def using cached_amount [of bo to_xfer ?left] bo tx left sz(2) by simp
  have bytes: "take (unat n) (drop (unat bo) (V ?u (file_block g cs ?j))) = file_bytes V g cs (unat off) (unat n)"
    unfolding bo by (rule sector_bytes [where V = V and g = g and cs = cs and off = "unat off", OF b(3)]) (use n bo in linarith)
  obtain t2 where t2: "t2 = (if n = 512 \<or> off + ucast n = dir_size (dir_of 0 s) then upd_buf p (\<lambda>b. b\<lparr>b_flag := b_flag b OR BFR_UNCACHE\<rparr>) t else t)" by blast
  have "fat_ok drv rd M X V (f_dpb (fnode s0 0)) g t2" "fat_at rd X g t2 = E" using p(2,3) fat_uncache [OF p(2), of p] unfolding t2 by auto
  note r2 = reading_advance [OF reading_ks [OF r this], of "off + ucast n"]
  have rw: "XFR_READ \<noteq> XFR_WRITE" by (simp add: XFR_READ_def XFR_WRITE_def)
  have "cached_xfer drv XFR_READ (file_block g cs ?j) bo to_xfer pos buf s
      = Some (Some n, overlay pos (file_bytes V g cs (unat off) (unat n)) buf, advance 0 (off + ucast n) (s\<lparr>ks := t2\<rparr>))"
    unfolding cached_xfer_def gd(3) p(1) using rw by (simp add: Let_def gd(4) g(2) off n_def [symmetric] p(4) bytes t2 [symmetric])
  moreover have "unat bo < 512" using bo by simp
  then have "0 < unat n" "unat n \<le> min (unat to_xfer) (sz - unat off)" using n tx sz(2) by linarith+
  ultimately show ?thesis using r2 by (intro exI [of _ n] exI [of _ "advance 0 (off + ucast n) (s\<lparr>ks := t2\<rparr>)"]) simp
qed

subsection \<open>One round, and the loop\<close>

lemma round_amount:
  fixes to_xfer :: u16 and left :: u32
  shows "unat ((if ucast to_xfer > left then ucast left else to_xfer) div 512 :: u16) = min (unat to_xfer) (unat left) div 512"
proof -
  have u: "unat (ucast to_xfer :: u32) = unat to_xfer" by simp
  show ?thesis
  proof (cases "ucast to_xfer > left")
    case True
    then have l: "unat left < unat to_xfer" using u by (simp add: word_less_nat_alt)
    then have "unat left < 65536" using unat_lt16 [of to_xfer] by linarith
    then have "unat (ucast left :: u16) = unat left" by (simp add: unsigned_ucast_eq take_bit_eq_mod)
    then show ?thesis using True l by (simp add: unat_div)
  next
    case False
    then have "unat to_xfer \<le> unat left" using u by (simp add: word_less_nat_alt)
    then show ?thesis using False by (simp add: unat_div)
  qed
qed

lemma xfer_round_reads:
  assumes g: "data_geom M g" "dpb_secsize g = 512" and r: "reading drv rd M X V g E cs s0 off s" and cl: "f_cluster (fnode s 0) = cs ! rel_cluster g off"
    and sz: "unat (dir_size (f_dir (fnode s0 0))) = sz" "unat off < sz" "covers g cs sz" and tx: "0 < unat to_xfer"
    and buf: "unat ret_cnt + min (unat to_xfer) (sz - unat off) \<le> length buf"
  shows "\<exists>n s'. xfer_round drv high XFR_READ ret_cnt to_xfer buf s
      = Some (Inr n, overlay (unat ret_cnt) (file_bytes V g cs (unat off) (unat n)) buf, s')
    \<and> 0 < unat n \<and> unat n \<le> min (unat to_xfer) (sz - unat off) \<and> reading drv rd M X V g E cs s0 (off + ucast n) s'"
proof -
  let ?j = "unat off div 512"
  have d: "geom (dpb_of 0 s) = geom g" and off: "f_offset (fnode s 0) = off" and dir: "dir_of 0 s = f_dir (fnode s0 0)" using r by (auto elim: readingE)
  note gd = geom_data [OF d]
  define secno where "secno = (ucast ((ucast (off div 512) :: u8) AND dpb_clsmask (dpb_of 0 s)) :: u16)"
  define bo where "bo = (ucast (off mod 512) :: u16)"
  define wanted where "wanted = (if ucast to_xfer > dir_size (dir_of 0 s) - off then ucast (dir_size (dir_of 0 s) - off) else to_xfer) div 512"
  have secno: "unat secno = ?j mod spc g" unfolding secno_def using sector_in_cluster [OF g(1) gd(1), of off] by simp
  have bo: "unat bo = unat off mod 512" by (simp add: bo_def unsigned_ucast_eq take_bit_eq_mod unat_mod)
  have "unat (dir_size (dir_of 0 s) - off) = sz - unat off" using sz(1,2) dir by (subst unat_sub) (simp_all add: word_le_nat_alt)
  then have wanted: "unat wanted = min (unat to_xfer) (sz - unat off) div 512" unfolding wanted_def round_amount by simp
  have "(ucast secno :: u32) = of_nat (unat secno)" by (simp add: word_unat_eq_iff unat_of_nat less_trans [OF unat_lt16])
  then have blk: "clus2phys (f_cluster (fnode s 0)) (dpb_of 0 s) + ucast secno = file_block g cs ?j"
    using cl gd(2) secno g(2) by (simp add: file_block_def rel_sector)
  have round: "xfer_round drv high XFR_READ ret_cnt to_xfer buf s = (if bo = 0 \<and> wanted \<noteq> 0 then do {
           (r, buf1, s1) \<leftarrow> direct_xfer drv high XFR_READ (file_block g cs ?j) secno wanted (unat ret_cnt) buf s;
           Some (case r of None \<Rightarrow> Inl DE_ACCESS | Some n \<Rightarrow> Inr n, buf1, s1)
         } else do {
           (r, buf1, s1) \<leftarrow> cached_xfer drv XFR_READ (file_block g cs ?j) bo to_xfer (unat ret_cnt) buf s;
           case r of
             None \<Rightarrow> do { s2 \<leftarrow> fnode_to_sft 0 s1; Some (Inl (int (unat ret_cnt)), buf1, s2) }
           | Some n \<Rightarrow> Some (Inr n, buf1, s1)
         })"
    unfolding xfer_round_def Let_def off gd(4) g(2) using blk by (simp add: secno_def bo_def wanted_def)
  show ?thesis
  proof (cases "bo = 0 \<and> wanted \<noteq> 0")
    case True
    then have "unat off mod 512 = 0" using bo by simp
    then have j: "unat off = 512 * ?j" by (metis mult_div_mod_eq add_0_right)
    have w0: "0 < unat wanted" using True by (simp add: unat_gt_0)
    have w: "512 * unat wanted \<le> min (unat to_xfer) (sz - unat off)" unfolding wanted by (rule times_div_less_eq_dividend)
    have w127: "unat wanted \<le> 127" using w unat_lt16 [of to_xfer] by linarith
    have e: "512 * (?j + unat wanted) \<le> sz" unfolding distrib_left using w j sz(2) by linarith
    have z: "sz < 4294967296" using sz(1) unsigned_less [of "dir_size (f_dir (fnode s0 0))", where 'a = nat] by simp
    have b: "unat ret_cnt + 512 * unat wanted \<le> length buf" using w buf by linarith
    obtain n s' where n: "direct_xfer drv high XFR_READ (file_block g cs ?j) secno wanted (unat ret_cnt) buf s
      = Some (Some (n * 512), overlay (unat ret_cnt) (file_bytes V g cs (unat off) (unat (n * 512))) buf, s')"
      "0 < unat (n * 512)" "unat (n * 512) \<le> 512 * unat wanted" "reading drv rd M X V g E cs s0 (off + ucast (n * 512)) s'"
      using direct_reads [OF g r secno w0 w127 j sz(3) e z b] by blast
    then show ?thesis using True w by (intro exI [of _ "n * 512"] exI [of _ s']) (simp add: round)
  next
    case False
    then show ?thesis using cached_reads [OF g r sz bo tx, of "unat ret_cnt" buf] by (auto simp: round)
  qed
qed

end
