(* ===== verification/FatData.thy ===== *)
theory FatData
  imports FatWrite FatClus CacheProps
begin

text \<open>
  The data formats of the file system: directory entries as bytes, file names, and the parameters of a
  drive computed from its BIOS parameter block.
\<close>

subsection \<open>Directory entries\<close>

lemma list_11: "length xs = 11 \<Longrightarrow> \<exists>a b c d e f g h i j k. xs = [a, b, c, d, e, f, g, h, i, j, k]"
  by (auto simp: numeral_eq_Suc length_Suc_conv)

lemma long_join: "(ucast (ucast v :: u16) :: u32) OR push_bit 16 (ucast (ucast (drop_bit 16 v) :: u16)) = v"
  by (rule bit_word_eqI) (auto simp: bit_simps)

lemma long_split: "(ucast ((ucast lo :: u32) OR push_bit 16 (ucast hi)) :: u16) = lo"
  "(ucast (drop_bit 16 ((ucast lo :: u32) OR push_bit 16 (ucast hi))) :: u16) = hi" for lo hi :: u16
  by (rule bit_word_eqI; auto simp: bit_simps dest: bit_imp_le_length)+

lemma dirent_bytes:
  assumes "length (dir_name e) = 11"
  shows "length (putdirent e) = 32" "getdirent (putdirent e) = e"
proof -
  obtain a b c d f g h i j k l where n: "dir_name e = [a, b, c, d, f, g, h, i, j, k, l]" using list_11 [OF assms] by blast
  show "length (putdirent e) = 32" "getdirent (putdirent e) = e"
    by (simp_all add: getdirent_def putdirent_def n word_bytes2_def long_bytes4_def getword_join getlong_def join16_split long_join)
qed

lemma bytes_dirent:
  assumes "length bs = 32"
  shows "length (dir_name (getdirent bs)) = 11" "putdirent (getdirent bs) = bs"
proof -
  show "length (dir_name (getdirent bs)) = 11" using assms by (simp add: getdirent_def)
  have w: "word_bytes2 (getword bs i) = [bs ! i, bs ! (i + 1)]" for i
    by (simp add: word_bytes2_def getword_join join16_lo join16_hi)
  have l: "long_bytes4 (getlong bs i) = [bs ! i, bs ! (i + 1), bs ! (i + 2), bs ! (i + 3)]" for i
    unfolding long_bytes4_def getlong_def long_split w by (simp add: numeral_3_eq_3)
  have "putdirent (getdirent bs) = take 11 bs @ map ((!) bs) [11..<32]"
    by (simp add: putdirent_def getdirent_def w l upt_rec)
  also have "map ((!) bs) [11..<32] = drop 11 bs" using assms by (intro nth_equalityI) (auto simp del: upt_rec_numeral)
  also have "take 11 bs @ drop 11 bs = bs" by simp
  finally show "putdirent (getdirent bs) = bs" .
qed

subsection \<open>File names\<close>

text \<open>Characters of a name in a path: not a dot, a backslash or the end.\<close>

definition name_chars :: "u8 list \<Rightarrow> bool" where
  "name_chars cs \<longleftrightarrow> (\<forall>c \<in> set cs. c \<noteq> 0 \<and> c \<noteq> 0x2e \<and> c \<noteq> 0x5c)"

lemma sz83_chars:
  "name_chars cs \<Longrightarrow> i + length cs \<le> 11 \<Longrightarrow> length fcb = 11 \<Longrightarrow>
    sz83_loop i fcb (cs @ rest) = sz83_loop (i + length cs) (take i fcb @ cs @ drop (i + length cs) fcb) rest"
proof (induction cs arbitrary: i fcb)
  case (Cons c cs)
  have "take (Suc i) (fcb[i := c]) = take i fcb @ [c]" "drop (Suc i + length cs) (fcb[i := c]) = drop (Suc i + length cs) fcb"
    using Cons.prems by (simp_all add: take_Suc_conv_app_nth)
  with Cons.IH [of "Suc i" "fcb[i := c]"] Cons.prems show ?case by (simp add: name_chars_def)
qed simp

lemma trimmed_spec: "trimmed cs n \<le> n \<and> (\<forall>i. trimmed cs n \<le> i \<longrightarrow> i < n \<longrightarrow> ch cs i = 0x20)"
  by (induction n) (auto simp: less_Suc_eq)

lemma trimmed_pad:
  assumes "length cs = n"
  shows "take (trimmed cs n) cs @ replicate (n - trimmed cs n) 0x20 = cs"
proof (rule nth_equalityI)
  show "length (take (trimmed cs n) cs @ replicate (n - trimmed cs n) 0x20) = length cs" using assms trimmed_spec [of cs n] by simp
  fix i assume "i < length (take (trimmed cs n) cs @ replicate (n - trimmed cs n) 0x20)"
  then have i: "i < n" using assms trimmed_spec [of cs n] by simp
  show "(take (trimmed cs n) cs @ replicate (n - trimmed cs n) 0x20) ! i = cs ! i"
    using i assms trimmed_spec [of cs n] by (auto simp: nth_append ch_def)
qed

lemma name_chars_sub: "name_chars cs \<Longrightarrow> set ds \<subseteq> set cs \<Longrightarrow> name_chars ds"
  by (auto simp: name_chars_def)

text \<open>
  C31. A name of a directory entry, written out as a path component and converted back to the field of 11
  characters, is the same name, and the whole component is consumed. Blanks within the name are kept.
\<close>

theorem name83_round_trip:
  assumes len: "length n = 11" and cs: "name_chars n"
  shows "ConvertNameSZToName83 (ConvertName83ToNameSZ n) = (n, [])"
proof -
  let ?b = "trimmed (take 8 n) 8" and ?e = "trimmed (drop 8 n) 3"
  define base where "base = take ?b (take 8 n)"
  define ext where "ext = take ?e (drop 8 n)"
  have b: "base @ replicate (8 - ?b) 0x20 = take 8 n" using trimmed_pad [of "take 8 n" 8] len by (simp add: base_def)
  have e: "ext @ replicate (3 - ?e) 0x20 = drop 8 n" using trimmed_pad [of "drop 8 n" 3] len by (simp add: ext_def)
  have lb: "length base = ?b" "?b \<le> 8" using trimmed_spec [of "take 8 n" 8] len by (simp_all add: base_def)
  have le: "length ext = ?e" "?e \<le> 3" using trimmed_spec [of "drop 8 n" 3] len by (simp_all add: ext_def)
  have nb: "name_chars base" "name_chars ext" using cs
    by (rule name_chars_sub; auto simp: base_def ext_def dest: in_set_takeD in_set_dropD)+
  have "ch n 0 \<noteq> 0x2e" using len cs by (auto simp: ch_def name_chars_def)
  then have sz: "ConvertName83ToNameSZ n = (if ?e > 0 then base @ 0x2e # ext else base)"
    using len by (simp add: ConvertName83ToNameSZ_def Let_def base_def ext_def)
  have n: "base @ replicate (8 - ?b) 0x20 @ ext @ replicate (3 - ?e) 0x20 = n"
    using b e append_take_drop_id [of 8 n] by (metis append.assoc)
  let ?f = "replicate 11 0x20 :: u8 list"
  have r: "drop k ?f = replicate (11 - k) 0x20" "take k ?f = replicate (min k 11) 0x20" for k by simp_all
  have f1: "sz83_loop 0 ?f (base @ rest) = sz83_loop ?b (base @ replicate (11 - ?b) 0x20) rest" for rest
    using sz83_chars [OF nb(1), of 0 ?f rest] lb by (simp add: r)
  show ?thesis
  proof (cases "?e > 0")
    case True
    have "take 8 (base @ replicate (11 - ?b) 0x20) = base @ replicate (8 - ?b) 0x20"
      "drop (8 + ?e) (base @ replicate (11 - ?b) 0x20) = replicate (3 - ?e) 0x20" using lb le by (auto simp: min_def)
    then have "sz83_loop 8 (base @ replicate (11 - ?b) 0x20) (ext @ []) = sz83_loop (8 + ?e) n []"
      using sz83_chars [OF nb(2), of 8 "base @ replicate (11 - ?b) 0x20" "[]"] lb le n by simp
    then show ?thesis using True lb f1 [of "0x2e # ext"] by (simp add: ConvertNameSZToName83_def sz)
  next
    case False
    then have "ext = []" "base @ replicate (11 - ?b) 0x20 = n" using le n lb by (auto simp: replicate_add [symmetric])
    then show ?thesis using False f1 [of "[]"] by (simp add: ConvertNameSZToName83_def sz)
  qed
qed

text \<open>README.TXT\<close>

theorem name83_round_trip_witness:
  "ConvertNameSZToName83 (ConvertName83ToNameSZ [82, 69, 65, 68, 77, 69, 32, 32, 84, 88, 84]) = ([82, 69, 65, 68, 77, 69, 32, 32, 84, 88, 84], [])"
  by (rule name83_round_trip) (simp_all add: name_chars_def)

subsection \<open>The parameters of a drive\<close>

lemma unat_mul16:
  fixes a b :: u16
  assumes "unat a * unat b < 65536"
  shows "unat (a * b) = unat a * unat b"
  using assms by (subst unat_word_ariths) simp

lemma fit_words: "unat (ucast (dpb_fatsize d) * ucast (dpb_secsize d div 2) :: u32) = unat (dpb_fatsize d) * (unat (dpb_secsize d) div 2)"
proof -
  have "unat (dpb_fatsize d) * (unat (dpb_secsize d) div 2) < 65536 * 32768"
    using unat_lt16 [of "dpb_fatsize d"] unat_lt16 [of "dpb_secsize d"] by (intro mult_strict_mono) (simp_all add: less_mult_imp_div_less)
  moreover have "unat (ucast (dpb_secsize d div 2) :: u32) = unat (dpb_secsize d) div 2" by (simp add: unat_div)
  ultimately show ?thesis by (subst unat_word_ariths) simp
qed

text \<open>The number of clusters after the correction, as numbers.\<close>

lemma fit_size_nat:
  fixes d :: dpb
  defines "n \<equiv> unat (dpb_size d)" and "w \<equiv> unat (dpb_fatsize d) * (unat (dpb_secsize d) div 2)"
  assumes w: "0 < w"
  shows "unat (fit_size d) =
    (if 65536 \<le> w \<or> 4085 < n \<and> w \<le> 4085 then n
     else if 4085 < n then min n (w - 1)
     else if 16384 \<le> w then n else min n (w * 4 div 3 - 1))"
proof -
  let ?t = "ucast (dpb_fatsize d) * ucast (dpb_secsize d div 2) :: u32"
  let ?f = "ucast ?t :: u16"
  have t: "unat ?t = w" using fit_words [of d] by (simp add: w_def)
  have big: "?t \<ge> 0x10000 \<longleftrightarrow> 65536 \<le> w" by (simp add: word_le_nat_alt t)
  have m: "unat FAT_MAGIC = 4085" by (simp add: FAT_MAGIC_def)
  have gt: "dpb_size d > FAT_MAGIC \<longleftrightarrow> 4085 < n" by (simp add: word_less_nat_alt m n_def)
  show ?thesis
  proof (cases "65536 \<le> w")
    case True
    then show ?thesis using big by (simp add: fit_size_def Let_def n_def)
  next
    case small: False
    then have f: "unat ?f = w" using t by (subst unat_ucast_le) simp_all
    then have f1: "unat (?f - 1) = w - 1" using w by (subst unat_sub) (simp_all add: word_le_nat_alt)
    show ?thesis
    proof (cases "4085 < n")
      case True
      have "?f \<le> FAT_MAGIC \<longleftrightarrow> w \<le> 4085" "dpb_size d \<ge> ?f \<longleftrightarrow> w \<le> n" by (simp_all add: word_le_nat_alt f m n_def)
      then show ?thesis using big gt small True f1 n_def by (auto simp: fit_size_def Let_def min_def)
    next
      case False
      have c: "?f \<ge> 0x4000 \<longleftrightarrow> 16384 \<le> w" by (simp add: word_le_nat_alt f)
      show ?thesis
      proof (cases "16384 \<le> w")
        case True
        then show ?thesis using big gt small False c n_def by (simp add: fit_size_def Let_def)
      next
        case False
        let ?g = "?f * 4 div 3"
        have g: "unat ?g = w * 4 div 3" using False f by (simp add: unat_div unat_mul16)
        have "0 < w * 4 div 3" using w by simp
        then have "unat (?g - 1) = w * 4 div 3 - 1" by (subst unat_sub) (simp_all add: word_le_nat_alt g)
        moreover have "dpb_size d \<ge> ?g \<longleftrightarrow> w * 4 div 3 \<le> n" unfolding word_le_nat_alt g n_def ..
        ultimately show ?thesis using big gt small \<open>\<not> 4085 < n\<close> c False n_def by (auto simp: fit_size_def Let_def min_def)
      qed
    qed
  qed
qed

text \<open>
  C29. Correcting the number of clusters of a FAT12 or FAT16 drive never changes the FAT type and never
  raises the number; afterwards the entries of all clusters lie within the FAT, except for a FAT that
  is too short even for the smallest FAT16, which is left alone. The sector size is a multiple of 8.
\<close>

theorem fit_size_keeps_type:
  fixes d :: dpb
  defines "n \<equiv> unat (dpb_size d)" and "k \<equiv> unat (fit_size d)" and "fat_bytes \<equiv> unat (dpb_fatsize d) * unat (dpb_secsize d)"
  assumes d: "\<not> ISFAT32 d" "dpb_secsize d \<noteq> 0" "8 dvd unat (dpb_secsize d)"
  shows "(4085 < k) = (4085 < n) \<and> k \<le> n
    \<and> ((if 4085 < k then 2 * (k + 1) else (3 * (k + 1) + 1) div 2) \<le> fat_bytes \<or> k = n \<and> 4085 < n \<and> fat_bytes \<le> 2 * 4085)"
proof -
  define w where "w = unat (dpb_fatsize d) * (unat (dpb_secsize d) div 2)"
  obtain j where j: "unat (dpb_secsize d) = 8 * j" using d(3) by blast
  have "0 < unat (dpb_secsize d)" using d(2) by (simp add: unat_gt_0)
  then have pos: "0 < unat (dpb_fatsize d)" "0 < j" using d(1) j by (simp_all add: ISFAT32_def unat_gt_0)
  have w4: "w = 4 * (unat (dpb_fatsize d) * j)" and b: "fat_bytes = 2 * w" by (simp_all add: w_def fat_bytes_def j)
  have w0: "0 < w" using pos w4 by simp
  have k: "k = (if 65536 \<le> w \<or> 4085 < n \<and> w \<le> 4085 then n
     else if 4085 < n then min n (w - 1) else if 16384 \<le> w then n else min n (w * 4 div 3 - 1))"
    using fit_size_nat [of d] w0 by (simp add: k_def n_def w_def)
  have n: "n < 65536" by (simp add: n_def unat_lt16)
  define m where "m = unat (dpb_fatsize d) * j"
  have m: "w = 4 * m" "0 < m" using w4 pos by (simp_all add: m_def)
  have "4 * m \<noteq> 4086" by presburger
  then show ?thesis unfolding b k m(1) using n m(2) by (auto simp: min_def split: if_splits)
qed

theorem fit_size_keeps_type_witness:
  "unat (fit_size (demo_dpb\<lparr>dpb_fatsize := 9, dpb_secsize := 512, dpb_size := 3000\<rparr>)) \<le> 3000"
  using fit_size_keeps_type [of "demo_dpb\<lparr>dpb_fatsize := 9, dpb_secsize := 512, dpb_size := 3000\<rparr>"] by (simp add: ISFAT32_def)

end
