(* ===== verification/FatOpen.thy ===== *)
theory FatOpen
  imports FatFile FatData
begin

text \<open>
  Open files: what an entry of the system file table knows of its file, and that reading through the entry
  returns the bytes of the file and leaves the entry behind them.
\<close>

subsection \<open>Entries of the system file table\<close>

definition sft_index :: "sft \<Rightarrow> u32" where
  "sft_index sf = ucast (sft_relclust sf) OR push_bit 16 (ucast (sft_relclust_high sf))"

text \<open>The entry is at a cluster of the chain of its file, and the chain holds the size of the file.\<close>

definition sft_ok :: "dpb \<Rightarrow> (u32 \<Rightarrow> u32) \<Rightarrow> u32 list \<Rightarrow> sft \<Rightarrow> bool" where
  "sft_ok g E cs sf \<longleftrightarrow> clusters_of g E (sft_stclust sf) cs \<and> covers g cs (unat (sft_size sf))
     \<and> (if cs = [] then sft_cuclust sf = FREE \<and> sft_index sf = 0
        else unat (sft_index sf) < length cs \<and> sft_cuclust sf = cs ! unat (sft_index sf))"

lemma start_round:
  assumes ok: "fat_ok drv rd M X V dp g s" and cs: "clusters_of g E c cs"
  shows "getdstart g (setdstart (dpbs s dp) c e) = c"
proof -
  have eq: "getdstart (dpbs s dp) = getdstart g" using geom_pos(3) [OF fat_ok_sel(2) [OF ok]] .
  show ?thesis
  proof (cases "cs = []")
    case True
    then have "c = FREE" using cs by (simp add: clusters_of_def)
    then show ?thesis unfolding eq [symmetric] by (intro dstart_round) (simp add: FREE_def)
  next
    case False
    then have ch: "cchain {2..max_cluster g} E c cs" using cs by (simp add: clusters_of_def)
    have "c \<in> set cs" using cchain_hd [OF ch False] False by simp
    then have "in_fat g c" using subsetD [OF cchain_set [OF ch]] by (simp add: in_fat_iff)
    from in_fat_start [OF ok this] show ?thesis unfolding eq .
  qed
qed

lemma sft_load:
  assumes sf: "idx_to_sft fd s = Some sf" "fd < 255" and ok: "fat_ok drv rd M X V (sft_dcb sf) g (ks s)" and so: "sft_ok g (fat_at rd X g (ks s)) cs sf"
  shows "\<exists>s1. sft_to_fnode fd s = Some s1 \<and> ks s1 = ks s \<and> sfts s1 = sfts s \<and> dmat s1 = dmat s \<and> f_dpb (fnode s1 0) = sft_dcb sf
    \<and> node_ok g (fat_at rd X g (ks s)) (dm_dircluster (dmat s1 0)) cs (fnode s1 0) \<and> f_offset (fnode s1 0) = sft_posit sf
    \<and> dir_size (f_dir (fnode s1 0)) = sft_size sf \<and> unat (f_sft_idx (fnode s1 0)) = fd \<and> getdstart g (f_dir (fnode s1 0)) = sft_stclust sf"
proof -
  obtain s1 where s1: "sft_to_fnode fd s = Some s1" using sf(1) by (simp add: sft_to_fnode_def)
  let ?fn = "fnode s1 0"
  have f: "ks s1 = ks s" "sfts s1 = sfts s" "dmat s1 = dmat s" "f_dpb ?fn = sft_dcb sf" "f_offset ?fn = sft_posit sf" "f_cluster ?fn = sft_cuclust sf"
    "f_cluster_offset ?fn = sft_index sf" "f_sft_idx ?fn = of_nat fd" "\<exists>e. f_dir ?fn = setdstart (dpbs (ks s) (sft_dcb sf)) (sft_stclust sf) e \<and> dir_size e = sft_size sf"
    using s1 sf(1) by (auto simp: sft_to_fnode_def upd_fn_def sft_index_def intro!: exI)
  have i: "unat (f_sft_idx ?fn) = fd" using f(8) sf(2) by (simp add: unat_of_nat)
  then have i': "f_sft_idx ?fn \<noteq> 0xff" using sf(2) by auto
  obtain e where e: "f_dir ?fn = setdstart (dpbs (ks s) (sft_dcb sf)) (sft_stclust sf) e" "dir_size e = sft_size sf" using f(9) by blast
  have c: "clusters_of g (fat_at rd X g (ks s)) (sft_stclust sf) cs" using so by (simp add: sft_ok_def)
  have st: "getdstart g (f_dir ?fn) = sft_stclust sf" unfolding e(1) using start_round [OF ok c] .
  have "dir_size (f_dir ?fn) = sft_size sf" using e by (simp add: setdstart_def Let_def)
  moreover have "node_ok g (fat_at rd X g (ks s)) (dm_dircluster (dmat s1 0)) cs ?fn"
    using so i' st f(6,7) by (auto simp: node_ok_def node_start_def node_at_def sft_ok_def)
  ultimately show ?thesis using s1 f i st by blast
qed

lemma sft_store:
  assumes sf: "idx_to_sft fd s = Some sf" and fn: "unat (f_sft_idx (fnode s 0)) = fd" "fd < 255" and nd: "node_ok g E dircl cs (fnode s 0)"
    and g: "geom (dpb_of 0 s) = geom g" and cov: "covers g cs (unat (dir_size (f_dir (fnode s 0))))"
  shows "\<exists>s' sf'. fnode_to_sft 0 s = Some s' \<and> ks s' = ks s \<and> idx_to_sft fd s' = Some sf' \<and> sft_ok g E cs sf' \<and> sft_dcb sf' = f_dpb (fnode s 0)
    \<and> sft_posit sf' = f_offset (fnode s 0) \<and> sft_size sf' = dir_size (f_dir (fnode s 0)) \<and> sfts s' = (sfts s)[fd := sf']
    \<and> sft_flags sf' = f_flags (fnode s 0) \<and> sft_mode sf' = sft_mode sf \<and> share_installed s' = share_installed s"
proof -
  let ?fn = "fnode s 0"
  obtain s' where s': "fnode_to_sft 0 s = Some s'" using sf fn by (simp add: fnode_to_sft_def Let_def)
  define sf' where "sf' = sfts s' ! fd"
  have fd: "fd < length (sfts s)" "sft_count (sfts s ! fd) \<noteq> 0" using sf by (simp_all add: idx_to_sft_def split: if_splits)
  have f: "ks s' = ks s" "sfts s' = (sfts s)[fd := sf']" "sft_count sf' = sft_count (sfts s ! fd)" "sft_dcb sf' = f_dpb ?fn" "sft_posit sf' = f_offset ?fn"
    "sft_size sf' = dir_size (f_dir ?fn)" "sft_stclust sf' = getdstart (dpb_of 0 s) (f_dir ?fn)" "sft_cuclust sf' = f_cluster ?fn"
    "sft_index sf' = f_cluster_offset ?fn" "sft_flags sf' = f_flags ?fn" "sft_mode sf' = sft_mode (sfts s ! fd)" "share_installed s' = share_installed s"
    using s' sf fn(1) fd(1) by (auto simp: fnode_to_sft_def Let_def upd_sft_def sf'_def sft_index_def long_join)
  have "f_sft_idx ?fn \<noteq> 0xff" using fn by auto
  then have "sft_ok g E cs sf'" using nd cov f(6-9) geom_pos(3) [OF g] by (auto simp: node_ok_def node_start_def node_at_def sft_ok_def split: if_splits)
  moreover have "idx_to_sft fd s' = Some sf'" using f(2,3) fd by (simp add: idx_to_sft_def)
  moreover have "sft_mode sf' = sft_mode sf" using f(11) sf by (auto simp: idx_to_sft_def split: if_splits)
  ultimately show ?thesis using s' f by blast
qed

subsection \<open>Reading\<close>

lemma overlay_append: "length xs \<le> length buf \<Longrightarrow> overlay (length xs) ys (overlay 0 xs buf) = overlay 0 (xs @ ys) buf"
  by (simp add: overlay_def add.commute)

lemma overlay_bytes:
  assumes "n \<le> length buf"
  shows "overlay n (file_bytes V g cs (off + n) m) (overlay 0 (file_bytes V g cs off n) buf) = overlay 0 (file_bytes V g cs off (n + m)) buf"
  using overlay_append [of "file_bytes V g cs off n" buf "file_bytes V g cs (off + n) m"] assms by (simp add: file_bytes_add)

lemma length_overlay [simp]: "i + length ys \<le> length xs \<Longrightarrow> length (overlay i ys xs) = length xs"
  by (simp add: overlay_def)

text \<open>What the loop of \<^verbatim>\<open>rwblock\<close> keeps: \<open>ret_cnt\<close> bytes have been read, and the node is behind them.\<close>

definition read_so_far where
  "read_so_far drv rd M X V g E cs s0 count buf0 v \<longleftrightarrow> (case v of (ret_cnt, to_xfer, buf, s) \<Rightarrow>
     let off = f_offset (fnode s0 0) in
     unat (ret_cnt :: u16) + unat (to_xfer :: u16) = unat (count :: u16) \<and> unat ret_cnt \<le> unat (dir_size (f_dir (fnode s0 0))) - unat off
     \<and> buf = overlay 0 (file_bytes V g cs (unat off) (unat ret_cnt)) buf0 \<and> reading drv rd M X V g E cs s0 (off + ucast ret_cnt) s)"

lemma unat_behind:
  fixes off sz :: u32 and n :: u16
  assumes "unat n \<le> unat sz - unat off"
  shows "unat (off + ucast n) = unat off + unat n"
proof -
  have "unat (ucast n :: u32) = unat n" by simp
  moreover have "unat off + unat n < 4294967296"
    using assms unsigned_less [of sz, where 'a = nat] unsigned_less [of off, where 'a = nat] by (cases "unat off \<le> unat sz") auto
  ultimately show ?thesis by (subst unat_word_ariths) simp
qed

lemma read_step:
  assumes g: "data_geom M g" "dpb_secsize g = 512" and cov: "covers g cs (unat (dir_size (f_dir (fnode s0 0))))" and len: "unat count \<le> length buf0"
    and J: "read_so_far drv rd M X V g E cs s0 count buf0 (ret_cnt, to_xfer, buf, s)"
    and more: "unat ret_cnt < min (unat count) (unat (dir_size (f_dir (fnode s0 0))) - unat (f_offset (fnode s0 0)))"
  shows "\<exists>n s' buf'. rw_body drv high XFR_READ count (ret_cnt, to_xfer, buf, s) = Some (Inr (ret_cnt + n, to_xfer - n, buf', s')) \<and> 0 < unat n
    \<and> unat n \<le> unat to_xfer \<and> read_so_far drv rd M X V g E cs s0 count buf0 (ret_cnt + n, to_xfer - n, buf', s')"
proof -
  let ?off = "f_offset (fnode s0 0)" and ?sz = "dir_size (f_dir (fnode s0 0))"
  let ?pos = "?off + ucast ret_cnt"
  have j: "unat ret_cnt + unat to_xfer = unat count" "buf = overlay 0 (file_bytes V g cs (unat ?off) (unat ret_cnt)) buf0"
    "reading drv rd M X V g E cs s0 ?pos s" "unat ret_cnt \<le> unat ?sz - unat ?off" using J by (simp_all add: read_so_far_def Let_def)
  have pos: "unat ?pos = unat ?off + unat ret_cnt" using unat_behind [OF j(4)] .
  then have lt: "unat ?pos < unat ?sz" using more by linarith
  have tx: "0 < unat to_xfer" using more j(1) by linarith
  have lb: "length buf = length buf0" using j(1,2) len by simp
  obtain s1 where s1: "map_node drv XFR_READ 0 s = Some (SUCCESS, s1)" "reading drv rd M X V g E cs s0 ?pos s1" "f_cluster (fnode s1 0) = cs ! rel_cluster g ?pos"
    using reading_map [OF j(3) covers_pos [OF cov g(2) lt]] by blast
  have room: "unat ret_cnt + min (unat to_xfer) (unat ?sz - unat ?pos) \<le> length buf" using j(1) len lb by linarith
  obtain n s2 where n: "xfer_round drv high XFR_READ ret_cnt to_xfer buf s1
      = Some (Inr n, overlay (unat ret_cnt) (file_bytes V g cs (unat ?pos) (unat n)) buf, s2)"
    "0 < unat n" "unat n \<le> min (unat to_xfer) (unat ?sz - unat ?pos)" "reading drv rd M X V g E cs s0 (?pos + ucast n) s2"
    using xfer_round_reads [OF g s1(2,3) refl lt cov tx room] by blast
  have off: "f_offset (fnode s 0) = ?pos" "dir_of 0 s = f_dir (fnode s0 0)" using j(3) by (auto elim: readingE)
  have guard: "ret_cnt < count" "\<not> dir_size (dir_of 0 s) \<le> f_offset (fnode s 0)" using more lt by (simp_all add: word_less_nat_alt word_le_nat_alt off)
  have rw: "XFR_READ \<noteq> XFR_WRITE" by (simp add: XFR_READ_def XFR_WRITE_def)
  let ?buf = "overlay (unat ret_cnt) (file_bytes V g cs (unat ?pos) (unat n)) buf"
  have body: "rw_body drv high XFR_READ count (ret_cnt, to_xfer, buf, s) = Some (Inr (ret_cnt + n, to_xfer - n, ?buf, s2))"
    using guard s1(1) n(1) rw by (simp add: rw_body_def Let_def)
  have "unat ret_cnt + unat n < 65536" using n(3) j(1) unat_lt16 [of count] by linarith
  then have sum: "unat (ret_cnt + n) = unat ret_cnt + unat n" by (subst unat_word_ariths) simp
  have sub: "unat (to_xfer - n) = unat to_xfer - unat n" using n(3) by (subst unat_sub) (simp_all add: word_le_nat_alt)
  have "(ucast (ret_cnt + n) :: u32) = ucast ret_cnt + ucast n"
    using sum unat_lt16 [of "ret_cnt + n"] by (simp add: word_unat_eq_iff unat_word_ariths)
  then have "reading drv rd M X V g E cs s0 (?off + ucast (ret_cnt + n)) s2" using n(4) by (simp add: add.assoc)
  moreover have "?buf = overlay 0 (file_bytes V g cs (unat ?off) (unat (ret_cnt + n))) buf0"
    unfolding sum pos j(2) using j(1) len by (intro overlay_bytes) linarith
  ultimately have "read_so_far drv rd M X V g E cs s0 count buf0 (ret_cnt + n, to_xfer - n, ?buf, s2)"
    using sum sub n(3) j(1,4) pos more by (simp add: read_so_far_def Let_def) linarith
  then show ?thesis using body n(2,3) by (intro exI [of _ n] exI [of _ s2] exI [of _ ?buf]) simp
qed

lemma read_done:
  assumes J: "read_so_far drv rd M X V g E cs s0 count buf0 (ret_cnt, to_xfer, buf, s)"
    and stop: "\<not> unat ret_cnt < min (unat count) (unat (dir_size (f_dir (fnode s0 0))) - unat (f_offset (fnode s0 0)))"
    and store: "fnode_to_sft 0 s = Some s'"
  shows "rw_body drv high XFR_READ count (ret_cnt, to_xfer, buf, s) = Some (Inl (int (unat ret_cnt), buf, s'))"
proof -
  have "unat (f_offset (fnode s0 0) + ucast ret_cnt) = unat (f_offset (fnode s0 0)) + unat ret_cnt"
    using J unat_behind by (auto simp: read_so_far_def Let_def)
  moreover have "f_offset (fnode s 0) = f_offset (fnode s0 0) + ucast ret_cnt" "dir_of 0 s = f_dir (fnode s0 0)"
    using J by (auto simp: read_so_far_def Let_def elim: readingE)
  ultimately have "\<not> ret_cnt < count \<or> dir_size (dir_of 0 s) \<le> f_offset (fnode s 0)"
    using stop by (simp add: word_less_nat_alt word_le_nat_alt) linarith
  then show ?thesis using store by (auto simp: rw_body_def Let_def)
qed

lemma reading_start:
  assumes "fat_ok drv rd M X V (f_dpb (fnode s0 0)) g (ks s0)" "node_ok g (fat_at rd X g (ks s0)) (dm_dircluster (dmat s0 0)) cs (fnode s0 0)"
  shows "reading drv rd M X V g (fat_at rd X g (ks s0)) cs s0 (f_offset (fnode s0 0)) s0"
  unfolding reading_def using assms by (intro exI [of _ "fnode s0 0"] exI [of _ "ks s0"]) (simp add: moved_refl)

text \<open>
  The state after a read of \<open>n\<close> bytes: disk and table are as before, and the entry is \<open>n\<close> bytes further.
\<close>

definition read_result where
  "read_result drv rd M X V g cs fd sf n s s' \<longleftrightarrow> fat_ok drv rd M X V (sft_dcb sf) g (ks s') \<and> fat_at rd X g (ks s') = fat_at rd X g (ks s)
     \<and> (\<exists>sf'. sfts s' = (sfts s)[fd := sf'] \<and> idx_to_sft fd s' = Some sf' \<and> sft_ok g (fat_at rd X g (ks s')) cs sf' \<and> sft_dcb sf' = sft_dcb sf
          \<and> sft_size sf' = sft_size sf \<and> unat (sft_posit sf') = unat (sft_posit sf) + n)"

lemma read_leave:
  fixes n :: u16
  assumes sf: "idx_to_sft fd s = Some sf" "fd < 255" and so: "sft_ok g (fat_at rd X g (ks s)) cs sf"
    and s0: "ks s0 = ks s" "sfts s0 = sfts s" "f_dpb (fnode s0 0) = sft_dcb sf" "f_offset (fnode s0 0) = sft_posit sf"
      "dir_size (f_dir (fnode s0 0)) = sft_size sf" "unat (f_sft_idx (fnode s0 0)) = fd"
    and r: "reading drv rd M X V g (fat_at rd X g (ks s)) cs s0 (sft_posit sf + ucast n) s1" and n: "unat n \<le> unat (sft_size sf) - unat (sft_posit sf)"
  shows "\<exists>s'. fnode_to_sft 0 s1 = Some s' \<and> read_result drv rd M X V g cs fd sf (unat n) s s'"
proof -
  have k: "fat_ok drv rd M X V (sft_dcb sf) g (ks s1)" "fat_at rd X g (ks s1) = fat_at rd X g (ks s)" "sfts s1 = sfts s" "f_dpb (fnode s1 0) = sft_dcb sf"
    "unat (f_sft_idx (fnode s1 0)) = fd" "f_offset (fnode s1 0) = sft_posit sf + ucast n" "dir_size (f_dir (fnode s1 0)) = sft_size sf"
    "geom (dpb_of 0 s1) = geom g" "node_ok g (fat_at rd X g (ks s)) (dm_dircluster (dmat s0 0)) cs (fnode s1 0)"
    using r s0 by (auto elim: readingE)
  have i: "idx_to_sft fd s1 = Some sf" using sf(1) k(3) by (auto simp: idx_to_sft_def split: if_splits)
  have c: "covers g cs (unat (dir_size (f_dir (fnode s1 0))))" using so k(7) by (simp add: sft_ok_def)
  obtain s' sf' where s': "fnode_to_sft 0 s1 = Some s'" "ks s' = ks s1" "idx_to_sft fd s' = Some sf'" "sft_ok g (fat_at rd X g (ks s)) cs sf'"
    "sft_dcb sf' = sft_dcb sf" "sft_posit sf' = sft_posit sf + ucast n" "sft_size sf' = sft_size sf" "sfts s' = (sfts s)[fd := sf']"
    using sft_store [OF i k(5) sf(2) k(9) k(8) c] k by auto
  have "unat (sft_posit sf') = unat (sft_posit sf) + unat n" unfolding s'(6) by (rule unat_behind [OF n])
  then show ?thesis using s' k(1,2) unfolding read_result_def by (intro exI [of _ s']) auto
qed

text \<open>The loop: \<open>s0\<close> is the state in which it starts, \<open>s\<close> the one \<^verbatim>\<open>rwblock\<close> was called in.\<close>

lemma read_loop:
  assumes g: "data_geom M g" "dpb_secsize g = 512" and len: "unat count \<le> length buf" and cov: "covers g cs (unat (dir_size (f_dir (fnode s0 0))))"
    and r0: "reading drv rd M X V g E cs s0 (f_offset (fnode s0 0)) s0"
    and leave: "\<And>(n :: u16) s1. reading drv rd M X V g E cs s0 (f_offset (fnode s0 0) + ucast n) s1 \<Longrightarrow>
      unat n \<le> unat (dir_size (f_dir (fnode s0 0))) - unat (f_offset (fnode s0 0)) \<Longrightarrow> \<exists>s'. fnode_to_sft 0 s1 = Some s' \<and> Q (unat n) s'"
  defines "n \<equiv> min (unat count) (unat (dir_size (f_dir (fnode s0 0))) - unat (f_offset (fnode s0 0)))"
  shows "\<exists>s'. loopM (rw_body drv high XFR_READ count) (0, count, buf, s0)
    = Some (int n, overlay 0 (file_bytes V g cs (unat (f_offset (fnode s0 0))) n) buf, s') \<and> Q n s'"
proof -
  let ?J = "\<lambda>v m. read_so_far drv rd M X V g E cs s0 count buf v \<and> m = unat count - unat (fst v)"
  let ?Q = "\<lambda>v. case v of (rc, b, s') \<Rightarrow> rc = int n \<and> b = overlay 0 (file_bytes V g cs (unat (f_offset (fnode s0 0))) n) buf \<and> Q n s'"
  have J0: "?J (0, count, buf, s0) (unat count)" using r0 by (simp add: read_so_far_def Let_def overlay_def file_bytes_def)
  have "\<exists>v. loopM (rw_body drv high XFR_READ count) (0, count, buf, s0) = Some v \<and> ?Q v"
  proof (rule loopM_ghost [of ?J, OF J0])
    fix v m assume Jv: "?J v m"
    obtain ret_cnt to_xfer b s1 where v: "v = (ret_cnt, to_xfer, b, s1)" by (cases v)
    have J: "read_so_far drv rd M X V g E cs s0 count buf (ret_cnt, to_xfer, b, s1)" "m = unat count - unat ret_cnt" using Jv by (simp_all add: v)
    have j: "unat ret_cnt + unat to_xfer = unat count" "unat ret_cnt \<le> unat (dir_size (f_dir (fnode s0 0))) - unat (f_offset (fnode s0 0))"
      "b = overlay 0 (file_bytes V g cs (unat (f_offset (fnode s0 0))) (unat ret_cnt)) buf" "reading drv rd M X V g E cs s0 (f_offset (fnode s0 0) + ucast ret_cnt) s1"
      using J(1) by (simp_all add: read_so_far_def Let_def)
    show "\<exists>x. rw_body drv high XFR_READ count v = Some x \<and> (case x of Inl v \<Rightarrow> ?Q v | Inr v' \<Rightarrow> \<exists>m'<m. ?J v' m')"
    proof (cases "unat ret_cnt < n")
      case True
      obtain k s2 b2 where k: "rw_body drv high XFR_READ count v = Some (Inr (ret_cnt + k, to_xfer - k, b2, s2))" "0 < unat k" "unat k \<le> unat to_xfer"
        "read_so_far drv rd M X V g E cs s0 count buf (ret_cnt + k, to_xfer - k, b2, s2)"
        using read_step [OF g cov len J(1) True [unfolded n_def], of high] unfolding v by blast
      have "unat ret_cnt + unat k < 65536" using k(3) j(1) unat_lt16 [of count] by linarith
      then have "unat (ret_cnt + k) = unat ret_cnt + unat k" by (subst unat_word_ariths) simp
      then have "unat count - unat (ret_cnt + k) < m" using k(2,3) j(1) J(2) by linarith
      then show ?thesis using k(1,4) by simp
    next
      case False
      obtain s' where s': "fnode_to_sft 0 s1 = Some s'" "Q (unat ret_cnt) s'" using leave [OF j(4,2)] by blast
      have "rw_body drv high XFR_READ count v = Some (Inl (int (unat ret_cnt), b, s'))"
        unfolding v by (rule read_done [OF J(1) _ s'(1)]) (use False in \<open>simp add: n_def\<close>)
      moreover have "unat ret_cnt = n" using False j(1,2) unfolding n_def by linarith
      ultimately show ?thesis using s'(2) j(3) by simp
    qed
  qed
  then show ?thesis by auto
qed

text \<open>
  Reading a file returns the file. For an open file with the clusters \<open>cs\<close>, \<^verbatim>\<open>rwblock\<close> with mode
  \<^verbatim>\<open>XFR_READ\<close> returns, and transfers the bytes from the position of the entry on, as many as asked for or as
  the file has left: they are the bytes of the sectors of its clusters, whether they are in the cache, modified
  there or not, or only on the disk, and whether the transfer goes through the cache, directly, or directly
  over several clusters at once. Nothing else of the buffer changes, the file allocation table and
  all data are as before, and the entry of the file is behind what was read.
\<close>

lemma rwblock_reads:
  assumes sf: "idx_to_sft fd s = Some sf" "fd < 255" and ok: "fat_ok drv rd M X V (sft_dcb sf) g (ks s)" and so: "sft_ok g (fat_at rd X g (ks s)) cs sf"
    and g: "data_geom M g" "dpb_secsize g = 512" and len: "unat count \<le> length buf"
  defines "n \<equiv> min (unat count) (unat (sft_size sf) - unat (sft_posit sf))"
  shows "\<exists>s'. rwblock drv high fd buf count XFR_READ s = Some (int n, overlay 0 (file_bytes V g cs (unat (sft_posit sf)) n) buf, s')
    \<and> read_result drv rd M X V g cs fd sf n s s'"
proof -
  let ?E = "fat_at rd X g (ks s)"
  obtain s0 where s0: "sft_to_fnode fd s = Some s0" "ks s0 = ks s" "sfts s0 = sfts s" "f_dpb (fnode s0 0) = sft_dcb sf"
    "node_ok g ?E (dm_dircluster (dmat s0 0)) cs (fnode s0 0)" "f_offset (fnode s0 0) = sft_posit sf" "dir_size (f_dir (fnode s0 0)) = sft_size sf"
    "unat (f_sft_idx (fnode s0 0)) = fd" using sft_load [OF sf ok so] by blast
  have r0: "reading drv rd M X V g ?E cs s0 (f_offset (fnode s0 0)) s0" using reading_start [of drv rd M X V s0 g cs] ok s0(2,4,5) by simp
  have cov: "covers g cs (unat (dir_size (f_dir (fnode s0 0))))" using so s0(7) by (simp add: sft_ok_def)
  note leave = read_leave [OF sf so s0(2,3,4,6,7,8)]
  have rw: "XFR_READ \<noteq> XFR_WRITE" by (simp add: XFR_READ_def XFR_WRITE_def)
  show ?thesis
  proof (cases "count = 0")
    case True
    obtain s' where s': "fnode_to_sft 0 s0 = Some s'" "read_result drv rd M X V g cs fd sf 0 s s'" using leave [of drv M V 0 s0] r0 s0(6) by auto
    have "n = 0" using True by (simp add: n_def)
    then show ?thesis using s0(1) s' rw True by (simp add: rwblock_def overlay_def file_bytes_def)
  next
    case False
    have "\<exists>s'. loopM (rw_body drv high XFR_READ count) (0, count, buf, s0) = Some (int n, overlay 0 (file_bytes V g cs (unat (sft_posit sf)) n) buf, s')
      \<and> read_result drv rd M X V g cs fd sf n s s'"
      using read_loop [OF g len cov r0, of "\<lambda>n s'. read_result drv rd M X V g cs fd sf n s s'" high] leave unfolding n_def s0(6,7) by blast
    then show ?thesis using s0(1) rw False by (auto simp: rwblock_def)
  qed
qed

subsection \<open>A small disk with an open file\<close>

definition demo_sft :: sft where
  "demo_sft = \<lparr>sft_count = 1, sft_mode = 0, sft_attrib = 0, sft_flags = 0, sft_dcb = 1, sft_relclust_high = 0, sft_time = 0, sft_date = 0,
     sft_size = 700, sft_posit = 100, sft_relclust = 0, sft_dirsector = 3, sft_diridx = 0, sft_name = replicate 11 65, sft_stclust = 5,
     sft_psp = 0, sft_shroff = 0xFFFF, sft_cuclust = 5\<rparr>"

definition demo_fs :: "disk kst \<Rightarrow> (disk, unit) fs" where
  "demo_fs k = \<lparr>ks = k, fnode = (\<lambda>_. demo_node 0 0),
     dmat = (\<lambda>_. \<lparr>dm_drive = 0, dm_name_pat = replicate 11 63, dm_attr_srch = 0, dm_entry = 0, dm_dircluster = 0\<rparr>), sfts = [demo_sft],
     CDSp = [\<lparr>cdsCurrentPath = [0x41, 0x3a, 0x5c], cdsFlags = CDSPHYSDRV, cdsDpb = Some 1, cdsStrtClst = 0, cdsBackslashOffset = 2\<rparr>],
     share_installed = False, share_resident = False, shares = \<lparr>file_table = [], lock_table = [], criterrs = []\<rparr>, SearchDir = dirent0,
     clock = \<lparr>ClkRecord = \<lparr>clkDays = 0, clkMinutes = 0, clkHours = 0, clkHundredths = 0, clkSeconds = 0\<rparr>, ClkReq_status = 0, cdev = ()\<rparr>,
     stack_time = \<lparr>t_minute = 0, t_hour = 0, t_hundredth = 0, t_second = 0\<rparr>, stack_date = \<lparr>d_year = 1980, d_monthday = 1, d_month = 1\<rparr>\<rparr>"

lemma demo_data: "data_geom demo_M demo_dpb"
proof -
  have "fat_last demo_dpb = 0" using demo_format by (simp add: fat_last_def boff_def off12_def)
  then have "fat_area demo_dpb = {(0, 1)}"
    by (auto simp: fat_area_def fat_sectors_def fat_sector_def fat_base_def demo_dpb_def ISFAT32_def)
  moreover have "clus2phys c demo_dpb \<noteq> 0 \<and> clus2phys c demo_dpb \<noteq> 1 \<and> clus2phys c demo_dpb \<noteq> 2" if "in_fat demo_dpb c" for c
  proof -
    have "2 \<le> unat c" "unat c \<le> 100" using that demo_format(3) by (simp_all add: in_fat_def word_le_nat_alt)
    moreover have "unat (c + 2) = unat c + 2" using calculation by (subst unat_word_ariths) simp
    moreover have "clus2phys c demo_dpb = c + 2" by (simp add: clus2phys_def demo_dpb_def ISFAT32_def)
    ultimately show ?thesis by (auto simp: word_unat_eq_iff)
  qed
  ultimately show ?thesis using demo_format(4) by (auto simp: data_geom_def spc_def demo_M_def) (simp_all add: demo_dpb_def)
qed

lemma demo_sft_ok:
  assumes "cchain {2..max_cluster demo_dpb} E 5 [5, 9]"
  shows "sft_ok demo_dpb E [5, 9] demo_sft"
  using assms by (simp add: sft_ok_def clusters_of_def covers_def spc_def demo_sft_def sft_index_def) (simp add: demo_dpb_def)

lemma demo_bytes: "file_bytes demo_V demo_dpb cs off n = replicate n 0"
proof (rule nth_equalityI)
  have "demo_V 0 b = filled 0" for b using block_at_ring [OF demo_cache] demo_view by (simp add: demo_V_def)
  then show "i < length (file_bytes demo_V demo_dpb cs off n) \<Longrightarrow> file_bytes demo_V demo_dpb cs off n ! i = replicate n 0 ! i" for i
    using demo_format(4) by (simp add: file_bytes_def file_byte_def filled_def)
qed simp

lemma demo_open:
  "\<exists>s. idx_to_sft 0 s = Some demo_sft \<and> fat_ok demo_driver disk_read demo_M {16, 32} demo_V (sft_dcb demo_sft) demo_dpb (ks s)
    \<and> sft_ok demo_dpb (fat_at disk_read {16, 32} demo_dpb (ks s)) [5, 9] demo_sft \<and> s = demo_fs (ks s)"
proof -
  obtain k where k: "fat_ok demo_driver disk_read demo_M {16, 32} demo_V 1 demo_dpb k"
    "cchain {2..max_cluster demo_dpb} (fat_at disk_read {16, 32} demo_dpb k) 5 [5, 9]" using demo_chain by blast
  have "idx_to_sft 0 (demo_fs k) = Some demo_sft" "ks (demo_fs k) = k" by (simp_all add: idx_to_sft_def demo_fs_def) (simp add: demo_sft_def)
  moreover have "sft_dcb demo_sft = 1" by (simp add: demo_sft_def)
  ultimately show ?thesis using k(1) demo_sft_ok [OF k(2)] by (intro exI [of _ "demo_fs k"]) simp
qed

end
