(* ===== verification/TruenameProps.thy ===== *)
theory TruenameProps
  imports PathSpec Truename FatOpen
begin

text \<open>
  Canonical names on local drives: \<^verbatim>\<open>truename\<close> walks the components of the name from the current directory
  of the drive, or from its root.
\<close>

subsection \<open>The current directory\<close>

definition dir_string :: "u8 \<Rightarrow> u8 list list \<Rightarrow> u8 list" where
  "dir_string L dirs = [L, 0x3a] @ (if dirs = [] then [0x5c] else path_of dirs)"

lemma path_of_first: "dirs \<noteq> [] \<Longrightarrow> \<exists>ys. path_of dirs = 0x5c # ys"
  by (cases "rev dirs") (auto simp: path_of_def)

lemma path_of_last: "names_ok dirs \<Longrightarrow> dirs \<noteq> [] \<Longrightarrow> path_of dirs \<noteq> [] \<and> last (path_of dirs) \<noteq> 0x5c"
proof (cases dirs)
  case (Cons n ds)
  assume "names_ok dirs"
  then have n: "n \<noteq> []" "0x5c \<notin> set n" using Cons by (simp_all add: names_ok_def)
  then have "last n \<noteq> 0x5c" using last_in_set by metis
  then show ?thesis using Cons n(1) by simp
qed simp

text \<open>The start of the path in the buffer: the drive, followed by the current directory unless the name is absolute.\<close>

lemma dir_start:
  assumes "names_ok dirs"
  shows "strip_sep (take 2 (dir_string L dirs) @ 0x5c # drop 3 (dir_string L dirs)) = L # 0x3a # path_of dirs"
    "strip_sep (take 2 (dir_string L dirs)) = [L, 0x3a]"
proof -
  show "strip_sep (take 2 (dir_string L dirs)) = [L, 0x3a]" by (simp add: dir_string_def strip_sep_def)
  show "strip_sep (take 2 (dir_string L dirs) @ 0x5c # drop 3 (dir_string L dirs)) = L # 0x3a # path_of dirs"
  proof (cases "dirs = []")
    case False
    obtain ys where "path_of dirs = 0x5c # ys" using path_of_first [OF False] by blast
    then have "take 2 (dir_string L dirs) @ 0x5c # drop 3 (dir_string L dirs) = [L, 0x3a] @ path_of dirs" using False by (simp add: dir_string_def)
    then show ?thesis using path_of_last [OF assms False] by (simp add: strip_sep_def)
  qed (simp add: dir_string_def strip_sep_def)
qed

subsection \<open>Names on a local drive\<close>

text \<open>
  The situation of a name on a local drive that is neither substituted nor joined and not a device: the entry
  of the drive, its current directory and that it exists.
\<close>

definition local_name :: "('d, 'c) env \<Rightarrow> u8 list \<Rightarrow> ('d, 'c) dos \<Rightarrow> u8 \<Rightarrow> u8 list list \<Rightarrow> ('d, 'c) fs \<Rightarrow> bool" where
  "local_name E src s L dirs f \<longleftrightarrow> (\<exists>c rc t. get_cds (ucast (drive_no src s)) (fsys s) = Some c
     \<and> cdsFlags c AND CDSNETWDRV = 0 \<and> cdsFlags c AND CDSSUBST = 0 \<and> cdsBackslashOffset c = 2
     \<and> cdsCurrentPath c = dir_string L dirs \<and> names_ok dirs \<and> length (dir_string L dirs) < MAX_CDSPATH
     \<and> length (CDSp (fsys s)) \<le> 32 \<and> IsDevice src s = None \<and> qualify E src = None \<and> njoined s = 0
     \<and> media_check (blk E) (med E) (bios_drive E) (cdsDpb c) (ks (fsys s)) = Some (rc, t) \<and> rc \<ge> 0
     \<and> dos_cd (blk E) (dir_string L dirs) ((fsys s)\<lparr>ks := t\<rparr>) = Some (SUCCESS, f))"

text \<open>The name behind the drive letter, and where it starts.\<close>

definition name_part :: "u8 list \<Rightarrow> u8 list" where
  "name_part src = (if ch src 1 = 0x3a then drop 2 src else src)"

definition absolute :: "u8 list \<Rightarrow> bool" where
  "absolute src \<longleftrightarrow> name_part src \<noteq> [] \<and> is_sep (hd (name_part src))"

definition canonical :: "u8 \<Rightarrow> u8 list list \<Rightarrow> u8 list \<Rightarrow> (bool \<times> u8 list) option" where
  "canonical L dirs src =
     path_result 2 [L, 0x3a] (if absolute src then tl (name_part src) else name_part src) (if absolute src then [] else dirs)"

definition canonical_string :: "('d, 'c) dos \<Rightarrow> u8 list \<Rightarrow> u8 list" where
  "canonical_string s out = (let out' = (if length out = 2 then out @ [0x5c] else out) in take 2 out' @ DosUpFMem (drop 2 out') s)"

lemma small_flags:
  fixes x :: u16
  assumes "unat x < 32"
  shows "x AND (IS_DEVICE OR IS_NETWORK) \<noteq> IS_DEVICE"
proof -
  have "take_bit 5 x = x" using assms by (simp add: word_unat_eq_iff unsigned_take_bit_eq take_bit_eq_mod unat_mod)
  then have "x AND 0x60 = x AND (mask 5 AND 0x60)" unfolding and.assoc [symmetric] by (simp only: take_bit_eq_mask)
  then show ?thesis by (simp add: IS_DEVICE_def IS_NETWORK_def mask_eq_exp_minus_1)
qed

lemma drive_flags: "local_name E src s L dirs f \<Longrightarrow> ucast (drive_no src s) AND (IS_DEVICE OR IS_NETWORK) \<noteq> IS_DEVICE"
  by (rule small_flags) (auto simp: local_name_def get_cds_def Let_def split: if_splits)

lemma IsDevice_ldt [simp]: "IsDevice src (s\<lparr>current_ldt := l\<rparr>) = IsDevice src s"
  unfolding IsDevice_def DosUpFChar_def DosUpFMem_def Let_def by simp

lemma DosUpFMem_ldt [simp]: "DosUpFMem n (s\<lparr>current_ldt := l, fsys := f\<rparr>) = DosUpFMem n s"
  by (simp add: DosUpFMem_def)

lemma truename_local:
  assumes L: "local_name E src s L dirs f" and src: "src \<noteq> []" "\<not> (ch src 0 = 0x5c \<and> ch src 1 = 0x5c)" and mode: "mode AND CDS_MODE_SKIP_PHYSICAL = 0"
  defines "p \<equiv> name_part src" and "d \<equiv> drive_no src s"
  shows "truename E before src mode s = tn_append E mode (ucast d) 0x5c 2
    (if absolute src then hd p else if ch src 1 = 0x3a then 0x3a else before)
    (if absolute src then tl p else p) ([L, 0x3a] @ path_of (if absolute src then [] else dirs)) (s\<lparr>current_ldt := Ldt (unat d), fsys := f\<rparr>)"
proof -
  obtain c rc t where c: "get_cds (ucast d) (fsys s) = Some c" "cdsFlags c AND CDSNETWDRV = 0" "cdsFlags c AND CDSSUBST = 0"
    "cdsBackslashOffset c = 2" "cdsCurrentPath c = dir_string L dirs" "names_ok dirs" "length (dir_string L dirs) < MAX_CDSPATH"
    "IsDevice src s = None" "qualify E src = None" "njoined s = 0"
    "media_check (blk E) (med E) (bios_drive E) (cdsDpb c) (ks (fsys s)) = Some (rc, t)" "rc \<ge> 0"
    "dos_cd (blk E) (dir_string L dirs) ((fsys s)\<lparr>ks := t\<rparr>) = Some (SUCCESS, f)"
    using L unfolding local_name_def d_def by blast
  let ?s1 = "s\<lparr>current_ldt := Ldt (unat d)\<rparr>"
  have cp: "take (MAX_CDSPATH - Suc 0) (dir_string L dirs) = dir_string L dirs" using c(7) by simp
  have cur: "tn_curdir E (unat d) c ?s1 = Some (Some (dir_string L dirs), ?s1\<lparr>fsys := f\<rparr>)"
    using c(2,5,11,12,13) by (simp add: tn_curdir_def cp Let_def)
  have abs: "at_end p \<and> p \<noteq> [] \<longleftrightarrow> absolute src" unfolding absolute_def p_def [symmetric] by (cases p) auto
  have two: "(2 :: u16) = word_of_nat 2" "unat (2 :: u16) = 2" by simp_all
  have "truename E before src mode s = tn_local E mode (ucast d) (unat d) c (if ch src 1 = 0x3a then 0x3a else before) p ?s1"
    using src mode c(1,2,8,9) unfolding truename_def p_def name_part_def d_def [symmetric] by (auto simp: Let_def)
  also have "\<dots> = tn_append E mode (ucast d) 0x5c 2 (if absolute src then hd p else if ch src 1 = 0x3a then 0x3a else before)
    (if absolute src then tl p else p) ([L, 0x3a] @ path_of (if absolute src then [] else dirs)) (?s1\<lparr>fsys := f\<rparr>)"
    using dir_start [OF c(6), of L] mode c(3,4) abs by (simp add: tn_local_def cur Let_def)
  finally show ?thesis by simp
qed

text \<open>
  The result of \<^verbatim>\<open>truename\<close> for a name whose components lead to \<open>v\<close> (for a name that is not accepted \<^term>\<open>None\<close>).
\<close>

definition name_answer :: "('d, 'c) dos \<Rightarrow> u16 \<Rightarrow> u8 list \<Rightarrow> (bool \<times> u8 list) option \<Rightarrow> int + u16 \<times> u8 list \<Rightarrow> bool" where
  "name_answer s mode src v r \<longleftrightarrow> (case v of
       None \<Rightarrow> \<exists>e. r = Inl e \<and> path_error e
     | Some (wild, out) \<Rightarrow>
         if wild \<and> mode AND CDS_MODE_ALLOW_WILDCARDS = 0 then r = Inl DE_PATHNOTFND
         else r = Inr (if mode = CDS_MODE_ALLOW_WILDCARDS then 0 else ucast (drive_no src s), canonical_string s out))"

lemma truename_answer:
  assumes L: "local_name E src s L dirs f" and src: "src \<noteq> []" "\<not> (ch src 0 = 0x5c \<and> ch src 1 = 0x5c)" and mode: "mode AND CDS_MODE_SKIP_PHYSICAL = 0"
    and W: "computes (path_loop 0x5c 2 (if absolute src then hd (name_part src) else if ch src 1 = 0x3a then 0x3a else before)
      (if absolute src then tl (name_part src) else name_part src) False (rev ([L, 0x3a] @ path_of (if absolute src then [] else dirs)))) v"
  shows "\<exists>r. truename E before src mode s = Some (r, s\<lparr>current_ldt := Ldt (unat (drive_no src s)), fsys := f\<rparr>) \<and> name_answer s mode src v r"
proof -
  have nj: "njoined s = 0" using L by (auto simp: local_name_def)
  note T = truename_local [OF L src mode, of before]
  show ?thesis
  proof (cases v)
    case None
    then show ?thesis using W T by (auto simp: tn_append_def name_answer_def)
  next
    case (Some x)
    obtain wild out where "x = (wild, out)" by (cases x)
    then show ?thesis using W T Some nj drive_flags [OF L] by (auto simp: tn_append_def tn_finish_def canonical_string_def name_answer_def Let_def)
  qed
qed

lemma local_dirs:
  assumes "local_name E src s L dirs f"
  shows "names_ok dirs" "2 + plen dirs \<le> SFTMAX"
proof -
  have "names_ok dirs" "length (dir_string L dirs) < MAX_CDSPATH" using assms by (auto simp: local_name_def)
  then show "names_ok dirs" "2 + plen dirs \<le> SFTMAX" by (cases "dirs = []"; simp add: dir_string_def MAX_CDSPATH_def SFTMAX_def)+
qed

lemma drive_root: "root_ok [L, 0x3a]" "length [L, 0x3a :: u8] = 2"
  by (simp_all add: root_ok_def)

text \<open>
  C8. On a local drive \<^verbatim>\<open>truename\<close> returns the canonical name: the components of the given name are walked
  from the root or from the current directory of the drive, empty components and \<^verbatim>\<open>.\<close> are dropped, \<^verbatim>\<open>..\<close> goes up
  one directory and fails at the root, names are cut to eight characters and three for the extension, asterisks
  become question marks, and lower case becomes upper case. It fails with \<^verbatim>\<open>DE_FILENOTFND\<close> or \<^verbatim>\<open>DE_PATHNOTFND\<close>
  exactly for names the walk does not accept (an illegal character, two points, a wildcard before the last
  component, more than 128 characters), and for wildcards where the caller does not allow them.
\<close>

theorem truename_canonical:
  assumes L: "local_name E src s L dirs f" and src: "src \<noteq> []" "\<not> (ch src 0 = 0x5c \<and> ch src 1 = 0x5c)" and mode: "mode AND CDS_MODE_SKIP_PHYSICAL = 0"
    and prev: "before \<noteq> 0x2e"
  shows "\<exists>r. truename E before src mode s = Some (r, s\<lparr>current_ldt := Ldt (unat (drive_no src s)), fsys := f\<rparr>) \<and>
    (case canonical L dirs src of
       None \<Rightarrow> \<exists>e. r = Inl e \<and> path_error e
     | Some (wild, out) \<Rightarrow>
         if wild \<and> mode AND CDS_MODE_ALLOW_WILDCARDS = 0 then r = Inl DE_PATHNOTFND
         else r = Inr (if mode = CDS_MODE_ALLOW_WILDCARDS then 0 else ucast (drive_no src s), canonical_string s out))"
proof -
  let ?p = "name_part src" and ?st = "if absolute src then [] else dirs"
  let ?b = "if absolute src then hd ?p else if ch src 1 = 0x3a then 0x3a else before"
  have st: "names_ok ?st" "2 + plen ?st \<le> SFTMAX" using local_dirs [OF L] by (auto simp: names_ok_def SFTMAX_def)
  have "is_sep c \<Longrightarrow> c \<noteq> 0x2e" for c by (auto simp: is_sep_def)
  then have "?b \<noteq> 0x2e" using prev by (auto simp: absolute_def)
  then have "computes (path_loop 0x5c 2 ?b (if absolute src then tl ?p else ?p) False (rev ([L, 0x3a] @ path_of ?st))) (canonical L dirs src)"
    unfolding canonical_def by (intro path_loop_walk [OF st(1) drive_root st(2)]) simp
  from truename_answer [OF L src mode this] show ?thesis unfolding name_answer_def .
qed

subsection \<open>At the edges of the buffers\<close>

text \<open>A single point with a point in front of it takes the same way through the loop as two points.\<close>

lemma path_loop_dots:
  assumes "at_end rest"
  shows "path_loop sep root 0x2e (0x2e # rest) wild q = path_loop sep root b (0x2e # 0x2e # rest) wild q"
proof -
  have "take 1 rest \<noteq> [0x2e]" using assms by (cases rest) auto
  moreover have "errRet (0x2e # rest) = errRet (0x2e # 0x2e # rest)" by (simp add: errRet_def)
  ultimately show ?thesis
    using assms by (simp add: path_loop.simps [of _ _ "0x2e" "0x2e # rest"] path_loop.simps [of _ _ b "0x2e # 0x2e # rest"] Let_def split: option.split)
qed

text \<open>
  C40. A name on the current local drive that starts with the component \<^verbatim>\<open>.\<close> is decided by the byte in memory in front of the name,
  which is not part of it. When this byte happens to be a point, \<^verbatim>\<open>truename\<close> takes \<^verbatim>\<open>.\<close> for \<^verbatim>\<open>..\<close>: it answers as for the
  name with one more point, which leads to the parent of the current directory, or fails in the root. Otherwise it answers with
  the canonical name.
\<close>

theorem dot_reads_before:
  assumes L: "local_name E (0x2e # rest) s L dirs f" and rest: "at_end rest" and mode: "mode AND CDS_MODE_SKIP_PHYSICAL = 0"
  shows "\<exists>r. truename E before (0x2e # rest) mode s = Some (r, s\<lparr>current_ldt := Ldt (unat (drive_no (0x2e # rest) s)), fsys := f\<rparr>)
    \<and> name_answer s mode (0x2e # rest) (canonical L dirs (if before = 0x2e then 0x2e # 0x2e # rest else 0x2e # rest)) r"
proof -
  let ?src = "0x2e # rest" and ?two = "0x2e # 0x2e # rest"
  have c1: "ch ?src 1 \<noteq> 0x3a" using rest by (cases rest) (auto simp: ch_def is_sep_def)
  have c2: "ch ?two 1 \<noteq> 0x3a" by (simp add: ch_def)
  have n: "name_part ?src = ?src" "name_part ?two = ?two" using c1 c2 by (simp_all add: name_part_def)
  have a: "\<not> absolute ?src" "\<not> absolute ?two" using n by (simp_all add: absolute_def)
  have can: "canonical L dirs x = path_result 2 [L, 0x3a] x dirs" if "x = ?src \<or> x = ?two" for x
    using that n a by (auto simp: canonical_def)
  let ?q = "rev ([L, 0x3a] @ path_of dirs)"
  have W: "computes (path_loop 0x5c 2 b x False ?q) (canonical L dirs x)" if "x = ?src \<or> x = ?two" "b \<noteq> 0x2e" for b x
    unfolding can [OF that(1)] using that(2) by (intro path_loop_walk [OF local_dirs(1) [OF L] drive_root local_dirs(2) [OF L]]) simp
  have P: "computes (path_loop 0x5c 2 before ?src False ?q) (canonical L dirs (if before = 0x2e then ?two else ?src))"
  proof (cases "before = 0x2e")
    case True
    have "computes (path_loop 0x5c 2 0x2e ?src False ?q) (canonical L dirs ?two)"
      unfolding path_loop_dots [OF rest, of "0x5c" 2 False ?q 0] by (intro W) simp_all
    with True show ?thesis by (simp only: if_True simp_thms)
  next
    case False
    then show ?thesis using W [of ?src before] by simp
  qed
  have "\<not> (ch ?src 0 = 0x5c \<and> ch ?src 1 = 0x5c)" by (simp add: ch_def)
  note T = truename_answer [OF L _ this mode, of before, unfolded n(1) if_not_P [OF a(1)] if_not_P [OF c1]]
  show ?thesis by (rule T [OF _ P]) simp
qed

text \<open>
  A canonical name of 128 characters is accepted, but the path buffers have 128 bytes, so that its terminator is
  written behind them.
\<close>

definition long_component :: "u8 list" where
  "long_component = 0x5c # replicate 8 0x41 @ [0x2e] @ replicate 3 0x41"

definition longest_name :: "u8 list" where
  "longest_name = concat (replicate 9 long_component) @ 0x5c # replicate 8 0x41"

lemma name_fills_buffer:
  "path_loop 0x5c 2 0 longest_name False (rev [0x41, 0x3a]) = Inr (False, rev ([0x41, 0x3a] @ longest_name)) \<and> length ([0x41, 0x3a] @ longest_name) = SFTMAX"
  by code_simp
subsection \<open>A small system\<close>

definition demo_bpb :: bpb where
  "demo_bpb = \<lparr>bpb_nbyte = 512, bpb_nsector = 1, bpb_nreserved = 1, bpb_nfat = 2, bpb_ndirent = 16, bpb_nsize = 103, bpb_mdesc = 0xF0,
     bpb_nfsect = 1, bpb_nsecs = 1, bpb_nheads = 1, bpb_hidden = 0, bpb_huge = 0, bpb_xnfsect = 0, bpb_xflags = 0, bpb_xfsversion = 0,
     bpb_xrootclst = 0, bpb_xfsinfosec = 0xFFFF, bpb_xbackupsec = 0xFFFF\<rparr>"

text \<open>The medium never changes, there is no network, and the console takes and gives nothing.\<close>

definition demo_env :: "(disk, unit) env" where
  "demo_env = \<lparr>blk = demo_driver, med = \<lparr>md_exec = (\<lambda>_ _ _ _ dv. (S_DONE, 1, demo_bpb, dv)), md_error = (\<lambda>_ _ _ _ dv. (FAIL, dv))\<rparr>,
     bios_drive = (\<lambda>_. True), clk = \<lparr>cd_exec = (\<lambda>_ n a c. (0, n, a, c)), cd_error = (\<lambda>_ c. (0, c))\<rparr>,
     outer = \<lparr>net_close = (\<lambda>_ sf. (0, sf)), chr_dev = (\<lambda>_. \<lparr>cd_exec = (\<lambda>_ n a c. (0, n, a, c)), cd_error = (\<lambda>_ c. (0, c))\<rparr>)\<rparr>,
     qualify = (\<lambda>_. None), remote = (\<lambda>_ _ _ s. (DE_INVLDFUNC, s)), remote_rw = (\<lambda>_ _ _ bp s. (DE_INVLDFUNC, bp, s)),
     dev_io = (\<lambda>_. \<lparr>cd_exec = (\<lambda>_ n a c. (0, n, a, c)), cd_error = (\<lambda>_ c. (0, c))\<rparr>), cooked = (\<lambda>_ _ _ bp s. (0, bp, s))\<rparr>"

definition demo_dos :: "disk kst \<Rightarrow> (disk, unit) dos" where
  "demo_dos k = \<lparr>fsys = demo_fs k, cu_psp = 0x100, psps = (\<lambda>_. \<lparr>ps_maxfiles = 20, ps_filetab = 0 # replicate 19 0xff\<rparr>), default_drive = 0,
     njoined = 0, os_major = 7, devs = [], current_ldt = NoLdt, PriPathName = [], SecPathName = [], OpenMode = 0,
     dta = \<lparr>dm_drive = 0, dm_name_pat = [], dm_attr_srch = 0, dm_entry = 0, dm_dircluster = 0, dm_attr_fnd = 0, dm_time = 0, dm_date = 0,
       dm_size = 0, dm_name = []\<rparr>, tbl2 = id, tbl4 = id\<rparr>"

lemma demo_media: "media_check (blk demo_env) (med demo_env) (bios_drive demo_env) (Some 1) k = Some (SUCCESS, k)" if "dpb_flags (dpbs k 1) = 0"
proof -
  have "rq_body (med demo_env) C_MEDIACHK (dpbs k 1) (None, device k) = Inl (SUCCESS, 1, demo_bpb, device k)"
    by (simp add: rq_body_def demo_env_def dsk)
  then have "rqblockio (med demo_env) C_MEDIACHK 1 k = Some (SUCCESS, 1, demo_bpb, k)" by (simp add: rqblockio_def loop_Inl)
  then show ?thesis using that by (simp add: media_check_def Let_def)
qed

lemma demo_cd: "\<exists>f. dos_cd (blk demo_env) (dir_string 0x41 []) (demo_fs demo_kst) = Some (SUCCESS, f)"
proof -
  have "\<exists>s. dir_open demo_driver (dir_string 0x41 []) False 0 (demo_fs demo_kst) = Some (True, s) \<and> CDSp s = CDSp (demo_fs demo_kst)"
    by (simp add: dir_open_def dir_string_def ch_def loopM_Inl open_body_def demo_fs_def demo_kst_def dir_init_fnode_def upd_fn_def upd_dm_def Let_def)
  then show ?thesis
    by (auto simp: dos_cd_def demo_env_def dir_string_def ch_def get_cds_def demo_fs_def CDSVALID_def CDSPHYSDRV_def CDSJOINED_def CDSNETWDRV_def)
qed

lemma demo_local:
  assumes "ch src 1 \<noteq> 0x3a"
  shows "\<exists>f. local_name demo_env src (demo_dos demo_kst) 0x41 [] f"
proof -
  let ?c = "\<lparr>cdsCurrentPath = dir_string 0x41 [], cdsFlags = CDSPHYSDRV, cdsDpb = Some 1, cdsStrtClst = 0, cdsBackslashOffset = 2\<rparr>"
  obtain f where f: "dos_cd (blk demo_env) (dir_string 0x41 []) (demo_fs demo_kst) = Some (SUCCESS, f)" using demo_cd by blast
  have k: "ks (demo_fs demo_kst) = demo_kst" "dpb_flags (dpbs demo_kst 1) = 0" by (simp_all add: demo_fs_def demo_kst_def demo_dpb_def)
  have "get_cds 0 (demo_fs demo_kst) = Some ?c" "length (CDSp (demo_fs demo_kst)) = 1"
    by (simp_all add: get_cds_def demo_fs_def CDSVALID_def CDSPHYSDRV_def CDSJOINED_def CDSNETWDRV_def dir_string_def)
  moreover have "dos_cd (blk demo_env) (dir_string 0x41 []) (demo_fs demo_kst\<lparr>ks := demo_kst\<rparr>) = Some (SUCCESS, f)"
    using f by (simp add: demo_fs_def)
  moreover have "drive_no src (demo_dos demo_kst) = 0" "IsDevice src (demo_dos demo_kst) = None" "njoined (demo_dos demo_kst) = 0" "fsys (demo_dos demo_kst) = demo_fs demo_kst"
    using assms by (simp_all add: drive_no_def IsDevice_def demo_dos_def Let_def)
  moreover have "qualify demo_env src = None" by (simp add: demo_env_def)
  moreover have "CDSPHYSDRV AND CDSNETWDRV = 0" "CDSPHYSDRV AND CDSSUBST = 0" "length (dir_string 0x41 []) < MAX_CDSPATH" "names_ok []"
    by (simp_all add: CDSPHYSDRV_def CDSNETWDRV_def CDSSUBST_def dir_string_def MAX_CDSPATH_def names_ok_def)
  moreover have "(0 :: int) \<le> SUCCESS" by (simp add: SUCCESS_def)
  ultimately have "local_name demo_env src (demo_dos demo_kst) 0x41 [] f" 
    unfolding local_name_def using demo_media [OF k(2)] k(1) by (intro exI [of _ ?c] exI [of _ SUCCESS] exI [of _ demo_kst]) simp
  then show ?thesis ..
qed

theorem truename_canonical_witness:
  "\<exists>s. truename demo_env 0 [0x64, 0x5c, 0x2e, 0x2e, 0x2f, 0x78, 0x2e, 0x74, 0x78, 0x74] CDS_MODE_CHECK_DEV_PATH (demo_dos demo_kst)
    = Some (Inr (0, [0x41, 0x3a, 0x5c, 0x58, 0x2e, 0x54, 0x58, 0x54]), s)"
proof -
  let ?src = "[0x64, 0x5c, 0x2e, 0x2e, 0x2f, 0x78, 0x2e, 0x74, 0x78, 0x74] :: u8 list"
  obtain f where f: "local_name demo_env ?src (demo_dos demo_kst) 0x41 [] f" using demo_local [of ?src] by (auto simp: ch_def)
  have c: "canonical 0x41 [] ?src = Some (False, [0x41, 0x3a, 0x5c, 0x78, 0x2e, 0x74, 0x78, 0x74])"
    by code_simp
  have m: "CDS_MODE_CHECK_DEV_PATH AND CDS_MODE_SKIP_PHYSICAL = 0" "CDS_MODE_CHECK_DEV_PATH \<noteq> CDS_MODE_ALLOW_WILDCARDS" by code_simp+
  have d: "drive_no ?src (demo_dos demo_kst) = 0" by (simp add: drive_no_def demo_dos_def ch_def)
  have u: "canonical_string (demo_dos demo_kst) [0x41, 0x3a, 0x5c, 0x78, 0x2e, 0x74, 0x78, 0x74] = [0x41, 0x3a, 0x5c, 0x58, 0x2e, 0x54, 0x58, 0x54]"
    by (simp add: canonical_string_def DosUpFMem_def upMMem_def demo_dos_def)
  show ?thesis using truename_canonical [OF f, of CDS_MODE_CHECK_DEV_PATH 0] m c u d by (auto simp: ch_def)
qed

text \<open>In the root directory \<^verbatim>\<open>.\<close> becomes an error.\<close>

theorem dot_reads_before_witness:
  "(\<exists>s e. truename demo_env 0x2e [0x2e] CDS_MODE_CHECK_DEV_PATH (demo_dos demo_kst) = Some (Inl e, s) \<and> path_error e)
   \<and> (\<exists>s. truename demo_env 0 [0x2e] CDS_MODE_CHECK_DEV_PATH (demo_dos demo_kst) = Some (Inr (0, [0x41, 0x3a, 0x5c]), s))"
proof -
  obtain f where f: "local_name demo_env [0x2e] (demo_dos demo_kst) 0x41 [] f" using demo_local [of "[0x2e]"] by (auto simp: ch_def)
  have c: "canonical 0x41 [] [0x2e, 0x2e] = None" "canonical 0x41 [] [0x2e] = Some (False, [0x41, 0x3a])" by code_simp+
  have m: "CDS_MODE_CHECK_DEV_PATH AND CDS_MODE_SKIP_PHYSICAL = 0" "CDS_MODE_CHECK_DEV_PATH \<noteq> CDS_MODE_ALLOW_WILDCARDS" by code_simp+
  have d: "drive_no [0x2e] (demo_dos demo_kst) = 0" by (simp add: drive_no_def demo_dos_def ch_def)
  have u: "canonical_string (demo_dos demo_kst) [0x41, 0x3a] = [0x41, 0x3a, 0x5c]"
    by (simp add: canonical_string_def DosUpFMem_def upMMem_def demo_dos_def)
  show ?thesis using dot_reads_before [OF f _ m(1), of "0x2e"] dot_reads_before [OF f _ m(1), of 0] m(2) c u d by (auto simp: name_answer_def)
qed

end
