(* ===== verification/HandleInv.thy ===== *)
theory HandleInv
  imports FatFrame NameOps TruenameProps
begin

text \<open>
  Handles and the entries they refer to. An entry of the system file table counts how often it is in use; the
  handles of all processes refer to it at most as often. So a handle never refers to an entry that is free, or
  that has been given to another file.
\<close>

subsection \<open>References\<close>

text \<open>The state of the handles: the processes \<open>P\<close>, the tables, and the counts of the entries.\<close>

definition refers :: "nat \<Rightarrow> u8 \<Rightarrow> bool" where
  "refers i x \<longleftrightarrow> x \<noteq> 0xff \<and> unat x = i"

definition handles :: "psp \<Rightarrow> u8 list" where
  "handles p = take (unat (ps_maxfiles p)) (ps_filetab p)"

definition refs :: "u16 set \<Rightarrow> (u16 \<Rightarrow> psp) \<Rightarrow> nat \<Rightarrow> nat" where
  "refs P ps i = (\<Sum>p\<in>P. length (filter (refers i) (handles (ps p))))"

definition uses :: "u16 list \<Rightarrow> nat \<Rightarrow> nat" where
  "uses cs i = (if i < length cs then unat (cs ! i) else 0)"

definition handles_ok :: "u16 set \<Rightarrow> ('d, 'c) dos \<Rightarrow> bool" where
  "handles_ok P s \<longleftrightarrow> cu_psp s \<in> P \<and> (\<forall>p\<in>P. unat (ps_maxfiles (psps s p)) \<le> length (ps_filetab (psps s p)))
     \<and> length (sfts (fsys s)) \<le> 255 \<and> (\<forall>i. refs P (psps s) i \<le> uses (counts (fsys s)) i)"

lemma uses_update: "i < length cs \<Longrightarrow> uses (cs[i := c]) j = (if j = i then unat c else uses cs j)"
  by (simp add: uses_def nth_list_update)

lemma uses_count: "i < length (sfts f) \<Longrightarrow> uses (counts f) i = unat (sft_count (sfts f ! i))"
  by (simp add: uses_def)

text \<open>What the invariant depends on.\<close>

definition same_handles :: "('d, 'c) dos \<Rightarrow> ('d, 'c) dos \<Rightarrow> bool" where
  "same_handles s s' \<longleftrightarrow> psps s' = psps s \<and> cu_psp s' = cu_psp s"

lemma same_handles_refl [simp]: "same_handles s s"
  by (simp add: same_handles_def)

lemma same_handles_trans: "same_handles s t \<Longrightarrow> same_handles t u \<Longrightarrow> same_handles s u"
  by (simp add: same_handles_def)

lemma handles_ok_same:
  assumes "handles_ok P s" "same_handles s s'" "counts (fsys s') = counts (fsys s)"
  shows "handles_ok P s'"
  using assms by (simp add: handles_ok_def same_handles_def) (metis length_counts)

lemma filter_update:
  assumes "h < length xs"
  shows "length (filter Q (xs[h := v])) + (if Q (xs ! h) then 1 else 0) = length (filter Q xs) + (if Q v then 1 else 0)"
  using assms
proof (induction xs arbitrary: h)
  case (Cons x xs)
  then show ?case by (cases h) auto
qed simp

lemma refs_set_handle:
  assumes "handles_ok P s" "h < unat (ps_maxfiles (cur_psp s))"
  shows "refs P (psps (set_handle h v s)) i + (if refers i (ps_filetab (cur_psp s) ! h) then 1 else 0)
    = refs P (psps s) i + (if refers i v then 1 else 0)"
proof -
  let ?p = "cu_psp s" and ?g = "\<lambda>ps p. length (filter (refers i) (handles (ps p)))"
  have P: "?p \<in> P" "unat (ps_maxfiles (psps s ?p)) \<le> length (ps_filetab (psps s ?p))" using assms(1) by (auto simp: handles_ok_def)
  have split: "refs P ps i = ?g ps ?p + (\<Sum>p\<in>P - {?p}. ?g ps p)" for ps
    unfolding refs_def using P(1) by (intro sum.remove) auto
  have rest: "(\<Sum>p\<in>P - {?p}. ?g (psps (set_handle h v s)) p) = (\<Sum>p\<in>P - {?p}. ?g (psps s) p)"
    by (intro sum.cong) (auto simp: set_handle_def upd_psp_def)
  have h: "h < length (handles (psps s ?p))" "handles (psps s ?p) ! h = ps_filetab (psps s ?p) ! h"
    using P(2) assms(2) by (auto simp: handles_def cur_psp_def)
  have new: "handles (psps (set_handle h v s) ?p) = (handles (psps s ?p))[h := v]"
    by (simp add: set_handle_def upd_psp_def cur_psp_def handles_def take_update_swap)
  show ?thesis using filter_update [OF h(1), of "refers i" v] h(2) unfolding split rest new cur_psp_def by simp
qed

lemma handles_ok_set_handle:
  assumes ok: "handles_ok P s" and h: "h < unat (ps_maxfiles (cur_psp s))"
    and le: "\<And>i. refs P (psps s) i + (if refers i v then 1 else 0)
      \<le> uses (counts f) i + (if refers i (ps_filetab (cur_psp s) ! h) then 1 else 0)"
    and len: "length (sfts f) = length (sfts (fsys s))"
  shows "handles_ok P ((set_handle h v s)\<lparr>fsys := f\<rparr>)"
proof -
  have "refs P (psps (set_handle h v s)) i \<le> uses (counts f) i" for i
    using refs_set_handle [OF ok h, of v i] le [of i] by (auto split: if_splits)
  then show ?thesis using ok len by (auto simp: handles_ok_def set_handle_def upd_psp_def cur_psp_def)
qed

lemma open_handle:
  assumes ok: "handles_ok P s" and p: "p \<in> P" "h < unat (ps_maxfiles (psps s p))" and x: "ps_filetab (psps s p) ! h \<noteq> 0xff"
  shows "idx_to_sft (unat (ps_filetab (psps s p) ! h)) (fsys s) \<noteq> None"
proof -
  let ?x = "ps_filetab (psps s p) ! h" and ?H = "handles (psps s p)"
  have "h < length ?H" "?H ! h = ?x" using ok p by (auto simp: handles_ok_def handles_def)
  then have "?x \<in> set (filter (refers (unat ?x)) ?H)" using x by (auto simp: refers_def in_set_conv_nth)
  then have "0 < length (filter (refers (unat ?x)) ?H)" by (rule length_pos_if_in_set)
  also have "\<dots> \<le> refs P (psps s) (unat ?x)" unfolding refs_def using p(1) by (intro member_le_sum) auto
  also have "\<dots> \<le> uses (counts (fsys s)) (unat ?x)" using ok by (simp add: handles_ok_def)
  finally show ?thesis by (auto simp: uses_def idx_to_sft_def split: if_splits)
qed

subsection \<open>Closing and duplicating\<close>

lemma get_sft_idxE:
  assumes "sft_at (get_sft_idx h s) s = Some sf"
  obtains "h < ps_maxfiles (cur_psp s)" "ps_filetab (cur_psp s) ! unat h \<noteq> 0xff" "get_sft_idx h s = int (unat (ps_filetab (cur_psp s) ! unat h))"
    "idx_to_sft (unat (ps_filetab (cur_psp s) ! unat h)) (fsys s) = Some sf"
  using assms by (auto simp: sft_at_def get_sft_idx_def Let_def DE_INVLDHNDL_def not_le split: if_splits)

lemma fsys_set_handle [simp]: "fsys (set_handle h v s) = fsys s"
  by (simp add: set_handle_def upd_psp_def)

lemma refers_unat: "x \<noteq> 0xff \<Longrightarrow> refers i x \<longleftrightarrow> i = unat x"
  by (auto simp: refers_def)

lemma DosClose_ok:
  assumes "DosClose E h s = Some (r, s')" "handles_ok P s" "net_ok (outer E)"
  shows "handles_ok P s'"
proof (cases "sft_at (get_sft_idx h s) s")
  case (Some sf)
  let ?x = "ps_filetab (cur_psp s) ! unat h" and ?s1 = "set_handle (unat h) 0xff s"
  from Some have h: "h < ps_maxfiles (cur_psp s)" "?x \<noteq> 0xff" "get_sft_idx h s = int (unat ?x)" "idx_to_sft (unat ?x) (fsys s) = Some sf"
    by (auto elim: get_sft_idxE)
  obtain f where f: "DosCloseSft (blk E) (clk E) (outer E) (unat ?x) False (fsys s) = Some (r, f)" "s' = ?s1\<lparr>fsys := f\<rparr>"
    using assms(1) Some h(3) by (auto simp: DosClose_def Let_def bind_eq_Some_conv)
  have i: "unat ?x < length (sfts (fsys s))" "sft_count (sfts (fsys s) ! unat ?x) \<noteq> 0" using h(4) by (auto simp: idx_to_sft_def split: if_splits)
  have c: "counts f = counts (fsys s) \<or> counts f = (counts (fsys s))[unat ?x := sft_count (sfts (fsys s) ! unat ?x) - 1]"
    by (rule DosCloseSft_keeps [OF f(1) assms(3)])
  then have len: "length (sfts f) = length (sfts (fsys s))" by (metis length_counts length_list_update)
  have one: "unat (sft_count (sfts (fsys s) ! unat ?x) - 1) + 1 = unat (sft_count (sfts (fsys s) ! unat ?x))"
    using i(2) by (simp add: unat_minus_one unat_gt_0)
  have u: "uses (counts (fsys s)) i \<le> uses (counts f) i + (if refers i ?x then 1 else 0)" for i
    using c uses_update [of "unat ?x" "counts (fsys s)"] i(1) one by (auto simp: refers_unat [OF h(2)] uses_count)
  have "refs P (psps s) i + (if refers i 0xff then 1 else 0) \<le> uses (counts f) i + (if refers i ?x then 1 else 0)" for i
    using order_trans [OF _ u, of "refs P (psps s) i" i] assms(2) by (simp add: handles_ok_def refers_def [of i "0xff"])
  then show ?thesis unfolding f(2) using h(1) by (intro handles_ok_set_handle [OF assms(2) _ _ len]) (simp_all add: word_less_nat_alt)
qed (use assms in \<open>simp add: DosClose_def\<close>)

text \<open>Counts are words; nothing counts up to their end.\<close>

definition room :: "('d, 'c) dos \<Rightarrow> bool" where
  "room s \<longleftrightarrow> (\<forall>i. uses (counts (fsys s)) i < 65535)"

lemma DosClose_effect:
  assumes "DosClose E h s = Some (r, s')" "net_ok (outer E)"
  shows "psps s' = psps (if sft_at (get_sft_idx h s) s = None then s else set_handle (unat h) 0xff s)" "cu_psp s' = cu_psp s"
    "room s \<Longrightarrow> room s'" "sft_at (get_sft_idx h s) s = None \<Longrightarrow> r \<noteq> SUCCESS"
proof -
  have c: "cu_psp (set_handle (unat h) 0xff s) = cu_psp s" by (simp add: set_handle_def upd_psp_def)
  show "sft_at (get_sft_idx h s) s = None \<Longrightarrow> r \<noteq> SUCCESS" using assms(1) by (auto simp: DosClose_def Let_def errs)
  show "psps s' = psps (if sft_at (get_sft_idx h s) s = None then s else set_handle (unat h) 0xff s)" "cu_psp s' = cu_psp s"
    using assms(1) c by (auto simp: DosClose_def Let_def split: option.split_asm Option.bind_split_asm)
  show "room s'" if "room s"
  proof (cases "sft_at (get_sft_idx h s) s")
    case (Some sf)
    let ?i = "nat (get_sft_idx h s)"
    obtain f where f: "DosCloseSft (blk E) (clk E) (outer E) ?i False (fsys s) = Some (r, f)" "fsys s' = f"
      using assms(1) Some by (auto simp: DosClose_def Let_def bind_eq_Some_conv)
    have i: "?i < length (sfts (fsys s))" "sft_count (sfts (fsys s) ! ?i) \<noteq> 0" using Some by (auto simp: sft_at_def idx_to_sft_def split: if_splits)
    then have "unat (sft_count (sfts (fsys s) ! ?i) - 1) < unat (sft_count (sfts (fsys s) ! ?i))" by (simp add: unat_minus_one unat_gt_0)
    also have "\<dots> < 65535" using that i(1) uses_count [of ?i "fsys s"] by (simp add: room_def) (metis)
    finally have "uses ((counts (fsys s))[?i := sft_count (sfts (fsys s) ! ?i) - 1]) j < 65535" for j
      using that i(1) by (simp add: uses_update room_def)
    then show ?thesis using DosCloseSft_keeps [OF f(1) assms(2)] that unfolding room_def f(2) by auto
  qed (use that assms(1) in \<open>simp add: DosClose_def\<close>)
qed

lemma share_entry_ok:
  assumes ok: "handles_ok P s" "room s" and h: "new < unat (ps_maxfiles (cur_psp s))" "ps_filetab (cur_psp s) ! new = 0xff"
    and x: "x \<noteq> 0xff" "unat x < length (sfts (fsys s))"
  shows "handles_ok P (upd_entry (unat x) (\<lambda>sf. sf\<lparr>sft_count := sft_count sf + 1\<rparr>) (set_handle new x s))"
proof -
  let ?f = "upd_sft (unat x) (\<lambda>sf. sf\<lparr>sft_count := sft_count sf + 1\<rparr>) (fsys s)"
  have "unat (sft_count (sfts (fsys s) ! unat x)) < 65535" using ok(2) uses_count [OF x(2)] by (simp add: room_def) (metis)
  then have one: "unat (sft_count (sfts (fsys s) ! unat x) + 1) = unat (sft_count (sfts (fsys s) ! unat x)) + 1" by (simp add: unat_word_ariths)
  have "refs P (psps s) i \<le> uses (counts (fsys s)) i" for i using ok(1) by (simp add: handles_ok_def)
  then have "refs P (psps s) i + (if refers i x then 1 else 0) \<le> uses (counts ?f) i + (if refers i (ps_filetab (cur_psp s) ! new) then 1 else 0)" for i
    using x(2) one unfolding h(2) counts_upd_sft refers_unat [OF x(1)] by (auto simp: uses_update uses_count refers_def) (metis uses_count)
  then have "handles_ok P ((set_handle new x s)\<lparr>fsys := ?f\<rparr>)" by (intro handles_ok_set_handle [OF ok(1) h(1)]) (simp_all add: upd_sft_def)
  then show ?thesis by (simp add: upd_entry_def)
qed

lemma cur_psp_same: "psps s' = psps s \<Longrightarrow> cu_psp s' = cu_psp s \<Longrightarrow> cur_psp s' = cur_psp s"
  by (simp add: cur_psp_def)

lemma cur_psp_set_handle: "cur_psp (set_handle h v s) = (cur_psp s)\<lparr>ps_filetab := (ps_filetab (cur_psp s))[h := v]\<rparr>"
  by (simp add: cur_psp_def set_handle_def upd_psp_def)

lemma DosForceDup_ok:
  assumes D: "DosForceDup E old new s = Some (r, s')" and ok: "handles_ok P s" "room s" "net_ok (outer E)"
    and new: "old \<noteq> new" "new < ps_maxfiles (cur_psp s)"
  shows "handles_ok P s'"
proof (cases "sft_at (get_sft_idx old s) s")
  case (Some sf)
  let ?x = "ps_filetab (cur_psp s) ! unat old"
  from Some have h: "old < ps_maxfiles (cur_psp s)" "?x \<noteq> 0xff" "get_sft_idx old s = int (unat ?x)" "idx_to_sft (unat ?x) (fsys s) = Some sf"
    by (auto elim: get_sft_idxE)
  have len: "unat (ps_maxfiles (cur_psp s)) \<le> length (ps_filetab (cur_psp s))" using ok(1) by (simp add: handles_ok_def cur_psp_def)
  let ?final = "\<lambda>t. upd_entry (unat ?x) (\<lambda>sf. sf\<lparr>sft_count := sft_count sf + 1\<rparr>) (set_handle (unat new) (ps_filetab (cur_psp t) ! unat old) t)"
  have step: "handles_ok P (?final t)" if t: "handles_ok P t" "room t" "cur_psp t = (cur_psp s)\<lparr>ps_filetab := (ps_filetab (cur_psp s))[unat new := 0xff]\<rparr>" for t
  proof -
    have old: "unat old \<noteq> unat new" using new(1) by (simp add: word_unat_eq_iff)
    then have x: "ps_filetab (cur_psp t) ! unat old = ?x" by (simp add: t(3))
    have "idx_to_sft (unat ?x) (fsys t) \<noteq> None"
      using open_handle [OF t(1), of "cu_psp t" "unat old"] t(1,3) h(1,2) old by (auto simp: handles_ok_def cur_psp_def word_less_nat_alt)
    then have "unat ?x < length (sfts (fsys t))" by (auto simp: idx_to_sft_def split: if_splits)
    moreover have "unat new < unat (ps_maxfiles (cur_psp t))" "ps_filetab (cur_psp t) ! unat new = 0xff"
      using new(2) len t(3) by (auto simp: word_less_nat_alt)
    ultimately show ?thesis unfolding x using share_entry_ok [OF t(1,2)] h(2) by blast
  qed
  show ?thesis
  proof (cases "ps_filetab (cur_psp s) ! unat new = 0xff")
    case True
    have "(cur_psp s)\<lparr>ps_filetab := (ps_filetab (cur_psp s))[unat new := 0xff]\<rparr> = cur_psp s" using True by (metis list_update_id psp.surjective psp.update_convs(2))
    then show ?thesis using D Some h(3) True step [OF ok(1,2)] by (auto simp: DosForceDup_def Let_def split: if_splits)
  next
    case False
    then obtain ret t where t: "DosClose E new s = Some (ret, t)" "ret = SUCCESS \<and> s' = ?final t \<or> ret \<noteq> SUCCESS \<and> s' = t"
      using D Some h(3) by (auto simp: DosForceDup_def Let_def bind_eq_Some_conv split: if_splits)
    note c = DosClose_effect [OF t(1) ok(3)] and okt = DosClose_ok [OF t(1) ok(1,3)]
    have "cur_psp t = (cur_psp s)\<lparr>ps_filetab := (ps_filetab (cur_psp s))[unat new := 0xff]\<rparr>" if "ret = SUCCESS"
      using that c(1,2,4) cur_psp_set_handle [of "unat new" "0xff" s] by (auto simp: cur_psp_def set_handle_def upd_psp_def split: if_splits)
    then show ?thesis using t(2) step [OF okt c(3) [OF ok(2)]] okt by auto
  qed
qed (use D ok(1) in \<open>simp add: DosForceDup_def Let_def\<close>)

lemma get_free_hndlE:
  assumes "0 \<le> get_free_hndl s"
  obtains h where "get_free_hndl s = int h" "h < unat (ps_maxfiles (cur_psp s))" "ps_filetab (cur_psp s) ! h = 0xff"
  using assms by (auto simp: get_free_hndl_def DE_TOOMANY_def find_Some_iff split: option.split_asm)

lemma DosDup_ok:
  assumes D: "DosDup E h s = Some (r, s')" and ok: "handles_ok P s" "room s" "net_ok (outer E)"
  shows "handles_ok P s'"
proof (cases "0 \<le> get_free_hndl s")
  case True
  then obtain n where n: "get_free_hndl s = int n" "n < unat (ps_maxfiles (cur_psp s))" "ps_filetab (cur_psp s) ! n = 0xff" by (rule get_free_hndlE)
  have "n < 65536" by (rule less_trans [OF n(2) unat_lt16])
  then have u: "unat (word_of_int (int n) :: u16) = n" by (simp add: unat_of_nat)
  obtain ret where f: "DosForceDup E h (word_of_int (int n)) s = Some (ret, s')" using D n(1) by (auto simp: DosDup_def Let_def bind_eq_Some_conv)
  show ?thesis
  proof (cases "sft_at (get_sft_idx h s) s")
    case (Some sf)
    then have "h \<noteq> word_of_int (int n)" using u n(3) by (auto elim: get_sft_idxE)
    then show ?thesis using DosForceDup_ok [OF f ok] n(2) u by (simp add: word_less_nat_alt)
  qed (use f ok(1) in \<open>simp add: DosForceDup_def Let_def\<close>)
qed (use D ok(1) in \<open>simp add: DosDup_def\<close>)

subsection \<open>Opening\<close>

text \<open>
  The network redirector and the console leave the handles alone; the redirector changes no entry but the one
  it is called for, and counts that one only when it opens a file.
\<close>

definition other_counts :: "nat \<Rightarrow> ('d, 'c) fs \<Rightarrow> ('d, 'c) fs \<Rightarrow> bool" where
  "other_counts i f f' \<longleftrightarrow> length (sfts f') = length (sfts f) \<and> (\<forall>j. j \<noteq> i \<longrightarrow> uses (counts f') j = uses (counts f) j)"

definition env_ok :: "('d, 'c) env \<Rightarrow> bool" where
  "env_ok E \<longleftrightarrow> net_ok (outer E)
     \<and> (\<forall>c i a s r s'. remote E c i a s = (r, s') \<longrightarrow> same_handles s s' \<and> other_counts i (fsys s) (fsys s')
          \<and> (c \<notin> {REM_OPEN, REM_CREATE, REM_EXTOC} \<longrightarrow> counts (fsys s') = counts (fsys s)))
     \<and> (\<forall>rd i n bp s r bp' s'. remote_rw E rd i n bp s = (r, bp', s') \<longrightarrow> same_handles s s' \<and> counts (fsys s') = counts (fsys s))
     \<and> (\<forall>rd i n bp s r bp' s'. cooked E rd i n bp s = (r, bp', s') \<longrightarrow> same_handles s s' \<and> counts (fsys s') = counts (fsys s))"

lemma other_counts_same: "counts f' = counts f \<Longrightarrow> other_counts i f f'"
  unfolding other_counts_def by (metis length_counts)

lemma other_counts_trans: "other_counts i f g \<Longrightarrow> other_counts i g h \<Longrightarrow> other_counts i f h"
  by (simp add: other_counts_def)

lemma other_counts_upd: "other_counts i f (upd_sft i g f)"
  using length_counts [of "upd_sft i g f"] by (simp add: other_counts_def counts_upd_sft) (simp add: uses_def)

text \<open>Making a name canonical.\<close>

definition keeps_table :: "('d, 'c) dos \<Rightarrow> ('d, 'c) dos \<Rightarrow> bool" where
  "keeps_table s s' \<longleftrightarrow> same_handles s s' \<and> sfts (fsys s') = sfts (fsys s)"

lemma tn_finish_keeps: "tn_finish E mode res dest s = Some (r, s') \<Longrightarrow> keeps_table s s'"
  by (auto simp: tn_finish_def Let_def keeps_table_def same_handles_def dest!: frames split: option.split_asm Option.bind_split_asm if_split_asm)

lemma tn_append_keeps: "tn_append E mode res sep root b src pre s = Some (r, s') \<Longrightarrow> keeps_table s s'"
  by (auto simp: tn_append_def Let_def dest!: tn_finish_keeps split: sum.split_asm if_split_asm) (auto simp: keeps_table_def)

lemma tn_curdir_keeps: "tn_curdir E d c s = Some (r, s') \<Longrightarrow> keeps_table s s'"
  by (auto simp: tn_curdir_def Let_def keeps_table_def same_handles_def dest!: frames split: Option.bind_split_asm if_split_asm)

lemma tn_local_keeps: "tn_local E mode res d c b src s = Some (r, s') \<Longrightarrow> keeps_table s s'"
  by (auto simp: tn_local_def Let_def dest!: tn_append_keeps tn_curdir_keeps split: Option.bind_split_asm option.split_asm)
    (auto simp: keeps_table_def same_handles_def)

lemma truename_keeps: "truename E b src mode s = Some (r, s') \<Longrightarrow> keeps_table s s'"
  by (auto simp: truename_def Let_def dest!: tn_append_keeps tn_local_keeps split: option.split_asm if_split_asm)
    (auto simp: keeps_table_def same_handles_def)

lemma errRet_neg: "errRet src < 0"
  by (simp add: errRet_def errs)

lemma path_loop_error: "path_loop sep root prev src wild q = Inl e \<Longrightarrow> e < 0"
proof (induction "length src" arbitrary: prev src wild q rule: less_induct)
  case less
  have neg: "DE_PATHNOTFND < 0" by (simp add: errs)
  note IH = less.hyps [rotated] and eq = less.prems [unfolded path_loop.simps [of sep root prev src]]
  consider "e = DE_PATHNOTFND" | "e = errRet src" | q1 c src1 where "\<not> wild" "src \<noteq> []" "(if take 1 q = [sep] then Some q else addChar sep q) = Some q1" "dropWhile is_sep src = c # src1"
    using eq by (auto split: if_split_asm option.split_asm list.split_asm)
  then show ?case
  proof cases
    case 3
    note short = dropWhile_sep(1) [OF 3(4)]
    show ?thesis
    proof (cases "c = 0x2e")
      case True
      have "length (if take 1 src1 = [0x2e] then tl src1 else src1) < length src" using short by auto
      then show ?thesis using eq 3 True neg errRet_neg IH by (auto simp: Let_def split: if_split_asm option.split_asm)
    next
      case False
      show ?thesis
      proof (cases "name_loop (c # src1) 8 False wild q1")
        case (Inl rest)
        then show ?thesis using eq 3 False errRet_neg by (auto simp del: name_loop.simps)
      next
        case (Inr v)
        obtain src2 w2 q2 where v: "v = (src2, w2, q2)" by (cases v)
        have "length src2 < length src" using name_loop_step [OF 3(4)] Inr v by blast
        then show ?thesis using eq 3 False Inr v IH by (auto simp del: name_loop.simps)
      qed
    qed
  qed (simp_all add: neg errRet_neg)
qed

lemma tn_append_error: "tn_append E mode res sep root b src pre s = Some (Inl e, s') \<Longrightarrow> e < 0"
  by (auto simp: tn_append_def tn_finish_def Let_def DE_PATHNOTFND_def dest!: path_loop_error
    split: sum.split_asm if_split_asm option.split_asm Option.bind_split_asm)

lemma truename_error: "truename E b src mode s = Some (Inl e, s') \<Longrightarrow> e < 0"
  by (auto simp: truename_def tn_local_def Let_def errRet_neg DE_PATHNOTFND_def DE_FILENOTFND_def dest!: tn_append_error
    split: if_split_asm option.split_asm Option.bind_split_asm)

text \<open>
  An entry was free, and afterwards it is in use when the open succeeds; no other entry changes its count.
\<close>

definition opened :: "nat \<Rightarrow> ('d, 'c) dos \<Rightarrow> int \<Rightarrow> ('d, 'c) dos \<Rightarrow> bool" where
  "opened i s r s' \<longleftrightarrow> same_handles s s' \<and> other_counts i (fsys s) (fsys s')
     \<and> (0 \<le> r \<longrightarrow> r mod 65536 = int i \<and> uses (counts (fsys s')) i \<noteq> 0)"

lemma uses_upd_entry: "i < length (sfts f) \<Longrightarrow> uses (counts (upd_sft i g f)) i = unat (sft_count (g (sfts f ! i)))"
  by (simp add: counts_upd_sft uses_update)

lemma remote_open_opened:
  assumes "remote_open E flags attrib i s = (r, s')" "env_ok E" "i < 255" "i < length (sfts (fsys s))"
  shows "opened i s r s'"
proof -
  obtain cmd args status s1 where s1: "remote E cmd i args s = (status, s1)"
    "(r, s') = (if status \<ge> SUCCESS then (int i + 65536 * status,
       if sft_count (sfts (fsys s1) ! i) = 0 then upd_entry i (\<lambda>sf. sf\<lparr>sft_count := sft_count sf + 1\<rparr>) s1 else s1) else (status, s1))"
    using assms(1) unfolding remote_open_def Let_def by (auto split: prod.split_asm)
  have k: "same_handles s s1" "other_counts i (fsys s) (fsys s1)" using assms(2) s1(1) by (auto simp: env_ok_def)
  then have len: "i < length (sfts (fsys s1))" using assms(4) by (simp add: other_counts_def)
  have "other_counts i (fsys s) (upd_sft i g (fsys s1))" for g by (rule other_counts_trans [OF k(2) other_counts_upd])
  then show ?thesis using s1(2) k len assms(3) uses_upd_entry [OF len, of "\<lambda>sf. sf\<lparr>sft_count := sft_count sf + 1\<rparr>"]
    by (auto simp: opened_def upd_entry_def same_handles_def uses_count errs unat_gt_0 split: if_split_asm)
qed

lemma counts_fsys_ks [simp]: "counts (fsys (s\<lparr>fsys := f\<lparr>ks := t\<rparr>\<rparr>)) = counts f"
  by simp

lemma DeviceOpenSft_keeps:
  assumes "DeviceOpenSft E dhp i s = Some (r, s')"
  shows "same_handles s s' \<and> counts (fsys s') = (counts (fsys s))[i := sft_count (sfts (fsys s) ! i) + 1]"
  using assms by (auto simp: DeviceOpenSft_def Let_def upd_entry_def same_handles_def counts_upd_sft dest!: frames split: Option.bind_split_asm if_split_asm)
    (auto simp: counts_def)

lemma other_counts_update: "counts f' = (counts f)[i := c] \<Longrightarrow> other_counts i f f'"
  unfolding other_counts_def by (metis length_counts length_list_update nth_list_update_neq uses_def)

lemma IsShareInstalled_counts: "IsShareInstalled b g = (inst, f) \<Longrightarrow> counts f = counts g"
  using IsShareInstalled_keeps [of b g] by (intro counts_frame) simp

lemma counts_shares [simp]: "counts (f\<lparr>shares := sh\<rparr>) = counts f"
  by (simp add: counts_def)

lemma share_admits_keeps: "share_admits flags i s = Some (rc, f) \<Longrightarrow> counts f = counts (fsys s)"
  by (auto simp: share_admits_def counts_upd_same dest!: IsShareInstalled_counts split: prod.split_asm if_split_asm Option.bind_split_asm)

lemma open_failed_other:
  assumes "open_failed i f = Some f'"
  shows "other_counts i f f'"
proof -
  obtain inst f1 where f1: "IsShareInstalled True f = (inst, f1)" by force
  then obtain f2 where f2: "(if inst then do { sh \<leftarrow> close_file (sft_shroff (sfts f1 ! i)) (shares f1);
      Some (upd_sft i (\<lambda>sf. sf\<lparr>sft_shroff := 0xffff\<rparr>) (f1\<lparr>shares := sh\<rparr>)) } else Some f1) = Some f2"
    "f' = upd_sft i (\<lambda>sf. sf\<lparr>sft_count := sft_count sf - 1\<rparr>) f2"
    using assms by (auto simp: open_failed_def bind_eq_Some_conv [of "if inst then _ else _"])
  have "counts f2 = counts f1" using f2(1) by (auto simp: counts_upd_same split: if_split_asm Option.bind_split_asm)
  then have "other_counts i f f2" using IsShareInstalled_counts [OF f1] by (intro other_counts_same) simp
  then show ?thesis unfolding f2(2) by (rule other_counts_trans [OF _ other_counts_upd])
qed

lemma local_open_opened:
  assumes L: "local_open E flags attrib i s = Some (r, s')" and i: "i < 255" "i < length (sfts (fsys s))" "sft_count (sfts (fsys s) ! i) = 0"
  shows "opened i s r s'"
proof -
  have same: "same_handles s s'" using L
    by (auto simp: local_open_def Let_def same_handles_def split: prod.split_asm Option.bind_split_asm if_split_asm)
  have in_use: "other_counts i (fsys s) f3 \<and> uses (counts f3) i = 1"
    if "counts f1 = counts (fsys s)" "dos_open d c p fl a i (upd_sft i (\<lambda>sf. sf\<lparr>sft_count := sft_count sf + 1, sft_flags := x\<rparr>) f1) = Some (y, f3)" for d c p fl a x y f1 f3
  proof -
    have "sft_count (sfts f1 ! i) = 0" "i < length (sfts f1)" using that(1) i(2,3) by (metis length_counts nth_counts)+
    then show ?thesis using dos_open_keeps [OF that(2)] that(1) other_counts_update [of f3 "fsys s" i 1] i(2) by (simp add: counts_upd_sft uses_update)
  qed
  consider "r < 0" "s' = s" | f1 where "share_admits flags i s = Some (r, f1)" "r < 0" "s' = s\<lparr>fsys := f1\<rparr>"
    | d c p fl a x y f1 f3 rc where "share_admits flags i s = Some (rc, f1)"
        "dos_open d c p fl a i (upd_sft i (\<lambda>sf. sf\<lparr>sft_count := sft_count sf + 1, sft_flags := x\<rparr>) f1) = Some (y, f3)"
        "r = int i + 65536 * y \<and> 0 \<le> y \<and> s' = s\<lparr>fsys := f3\<rparr> \<or> r < 0 \<and> (\<exists>f4. open_failed i f3 = Some f4 \<and> s' = s\<lparr>fsys := f4\<rparr>)"
    using L by (auto simp: local_open_def Let_def DE_INVLDACC_def DE_ACCESS_def not_less split: Option.bind_split_asm if_split_asm)
  then have "other_counts i (fsys s) (fsys s') \<and> (0 \<le> r \<longrightarrow> r mod 65536 = int i \<and> uses (counts (fsys s')) i \<noteq> 0)"
  proof cases
    case 2
    then show ?thesis using other_counts_same [OF share_admits_keeps [OF 2(1)]] by simp
  next
    case 3
    have "other_counts i (fsys s) f3" "uses (counts f3) i = 1" using in_use [OF share_admits_keeps [OF 3(1)] 3(2)] by auto
    then show ?thesis using 3(3) i(1) other_counts_trans [OF _ open_failed_other] by auto
  qed (simp add: other_counts_same)
  then show ?thesis using same by (simp add: opened_def)
qed

lemma get_free_sftE:
  assumes "get_free_sft s = Some i"
  obtains "i < length (sfts (fsys s))" "sft_count (sfts (fsys s) ! i) = 0"
  using assms by (auto simp: get_free_sft_def find_Some_iff)

text \<open>Opening either fails without taking an entry into use, or takes one that was free.\<close>

lemma opened_from:
  assumes "opened i s2 r s'" "same_handles s s2" "counts (fsys s2) = counts (fsys s)"
  shows "opened i s r s'"
  using assms other_counts_trans [OF other_counts_same [OF assms(3)]] by (auto simp: opened_def same_handles_def)

lemma DosOpenSft_opened:
  assumes D: "DosOpenSft E b fname flags attrib s = Some (r, s')" and E: "env_ok E" and len: "length (sfts (fsys s)) \<le> 255"
  shows "r < 0 \<and> keeps_table s s' \<or> (\<exists>i. i < length (sfts (fsys s)) \<and> uses (counts (fsys s)) i = 0 \<and> opened i s r s')"
proof -
  obtain tn s1 where tn: "truename E b fname CDS_MODE_CHECK_DEV_PATH s = Some (tn, s1)" using D by (auto simp: DosOpenSft_def bind_eq_Some_conv)
  note k1 = truename_keeps [OF tn]
  consider e where "tn = Inl e" | result dest where "tn = Inr (result, dest)" "get_free_sft s1 = None"
    | result dest i where "tn = Inr (result, dest)" "get_free_sft s1 = Some i" by (metis option.exhaust sum.exhaust surj_pair)
  then show ?thesis
  proof cases
    case 1
    then show ?thesis using D tn k1 truename_error [of E b fname CDS_MODE_CHECK_DEV_PATH s] by (auto simp: DosOpenSft_def)
  next
    case 2
    then show ?thesis using D tn k1 by (auto simp: DosOpenSft_def DE_TOOMANY_def keeps_table_def same_handles_def)
  next
    case 3
    then have i: "i < length (sfts (fsys s))" "sft_count (sfts (fsys s) ! i) = 0" using k1 by (auto simp: keeps_table_def elim: get_free_sftE)
    let ?a = "attrib OR ucast D_ARCHIVE"
    let ?s2 = "upd_entry i (\<lambda>_. sft0\<lparr>sft_psp := cu_psp s1, sft_mode := flags AND 0xf0ff, sft_shroff := 0xffff, sft_attrib := ucast ?a\<rparr>)
      (s1\<lparr>PriPathName := dest, OpenMode := ucast flags\<rparr>)"
    have s2: "same_handles s ?s2" "counts (fsys ?s2) = counts (fsys s)" "i < length (sfts (fsys ?s2))" "sft_count (sfts (fsys ?s2) ! i) = 0"
      using k1 i by (auto simp: keeps_table_def same_handles_def upd_entry_def sft0_def upd_sft_def counts_def map_update) (metis list_update_id length_map nth_map)
    have i': "i < 255" using i(1) len by simp
    consider "remote_open E flags ?a i ?s2 = (r, s')" | "local_open E flags ?a i ?s2 = Some (r, s')"
      | dhp rc where "DeviceOpenSft E dhp i ?s2 = Some (rc, s')" "r = (if rc < SUCCESS then rc else int i)"
      using D tn 3 by (auto simp: DosOpenSft_def Let_def split: if_split_asm option.split_asm Option.bind_split_asm)
    then have "opened i ?s2 r s'"
    proof cases
      case 1
      then show ?thesis by (rule remote_open_opened [OF _ E i' s2(3)])
    next
      case 2
      then show ?thesis by (rule local_open_opened [OF _ i' s2(3,4)])
    next
      case 3
      have "same_handles ?s2 s'" "counts (fsys s') = (counts (fsys ?s2))[i := 1]" using DeviceOpenSft_keeps [OF 3(1)] s2(4) by auto
      then show ?thesis using 3(2) other_counts_update [of "fsys s'" "fsys ?s2" i 1] s2(3) i' by (auto simp: opened_def SUCCESS_def uses_update)
    qed
    then have "opened i s r s'" by (rule opened_from [OF _ s2(1,2)])
    then show ?thesis using i by (auto simp: uses_count)
  qed
qed

lemma opened_ok:
  assumes "opened i s x t" "uses (counts (fsys s)) i = 0" "handles_ok P s"
  shows "handles_ok P t"
proof -
  have le: "refs P (psps s) j \<le> uses (counts (fsys s)) j" for j using assms(3) by (simp add: handles_ok_def)
  have "refs P (psps s) j \<le> uses (counts (fsys t)) j" for j
    using assms le [of j] by (cases "j = i") (auto simp: opened_def other_counts_def)
  then show ?thesis using assms by (auto simp: opened_def same_handles_def handles_ok_def other_counts_def)
qed

lemma DosOpen_ok:
  assumes D: "DosOpen E b fname mode attrib s = Some (r, s')" and E: "env_ok E" and ok: "handles_ok P s"
  shows "handles_ok P s'"
proof -
  have len: "length (sfts (fsys s)) \<le> 255" using ok by (simp add: handles_ok_def)
  have keep: "handles_ok P t" if "keeps_table s t" for t
    using that ok handles_ok_same [of P s t] counts_frame [of "fsys t" "fsys s"] by (simp add: keeps_table_def)
  consider "s' = s" | "0 \<le> get_free_hndl s" "\<exists>x. x < 0 \<and> DosOpenSft E b fname mode attrib s = Some (x, s')"
    | "0 \<le> get_free_hndl s" "\<exists>x t. 0 \<le> x \<and> DosOpenSft E b fname mode attrib s = Some (x, t) \<and> s' = set_handle (nat (get_free_hndl s)) (word_of_int x) t"
    using D by (auto simp: DosOpen_def Let_def SUCCESS_def not_less split: if_split_asm Option.bind_split_asm)
  then show ?thesis
  proof cases
    case 1
    then show ?thesis using ok by simp
  next
    case 2
    then show ?thesis using DosOpenSft_opened [OF _ E len] keep opened_ok [OF _ _ ok] by blast
  next
    case 3
    then obtain x t where x: "0 \<le> x" "DosOpenSft E b fname mode attrib s = Some (x, t)" "s' = set_handle (nat (get_free_hndl s)) (word_of_int x) t" by blast
    then obtain i where i: "i < length (sfts (fsys s))" "uses (counts (fsys s)) i = 0" "opened i s x t" using DosOpenSft_opened [OF x(2) E len] by force
    obtain h where h: "get_free_hndl s = int h" "h < unat (ps_maxfiles (cur_psp s))" "ps_filetab (cur_psp s) ! h = 0xff" using 3(1) by (rule get_free_hndlE)
    have t: "cur_psp t = cur_psp s" "psps t = psps s" "uses (counts (fsys t)) i \<noteq> 0" "x mod 65536 = int i"
      using i(3) x(1) by (auto simp: opened_def same_handles_def cur_psp_def)
    have w: "unat (word_of_int x :: u8) = i"
    proof -
      have "word_of_int x = (word_of_int (x mod 65536) :: u8)" by (simp add: word_of_int_eq_iff take_bit_eq_mod mod_mod_cancel)
      then show ?thesis using t(4) i(1) len by (simp add: unat_of_nat)
    qed
    then have v: "word_of_int x \<noteq> (0xff :: u8)" using i(1) len by auto
    have okt: "handles_ok P t" by (rule opened_ok [OF i(3,2) ok])
    have "refs P (psps t) j + (if refers j (word_of_int x) then 1 else 0)
      \<le> uses (counts (fsys t)) j + (if refers j (ps_filetab (cur_psp t) ! h) then 1 else 0)" for j
    proof (cases "j = i")
      case True
      have "refs P (psps s) i = 0" using ok i(2) by (simp add: handles_ok_def) (metis le_zero_eq)
      then show ?thesis using t True by simp
    next
      case False
      then show ?thesis using okt w by (auto simp: handles_ok_def refers_def intro: le_SucI)
    qed
    then have "handles_ok P ((set_handle h (word_of_int x) t)\<lparr>fsys := fsys t\<rparr>)"
      using h(2) t(1) by (intro handles_ok_set_handle [OF okt]) simp_all
    then show ?thesis using x(3) h(1) by (simp add: set_handle_def upd_psp_def)
  qed
qed

subsection \<open>Transfers and names\<close>

definition same_counts :: "('d, 'c) dos \<Rightarrow> ('d, 'c) dos \<Rightarrow> bool" where
  "same_counts s s' \<longleftrightarrow> same_handles s s' \<and> counts (fsys s') = counts (fsys s)"

lemma same_counts_refl [simp]: "same_counts s s"
  by (simp add: same_counts_def)

lemma keeps_table_counts: "keeps_table s s' \<Longrightarrow> same_counts s s'"
  by (auto simp: keeps_table_def same_counts_def counts_def)

lemma upd_entry_keeps: "(\<And>sf. sft_count (g sf) = sft_count sf) \<Longrightarrow> same_counts s (upd_entry i g s)"
  unfolding same_counts_def same_handles_def upd_entry_def using counts_upd_same [of g i "fsys s"] by simp

lemma same_counts_trans: "same_counts s t \<Longrightarrow> same_counts t u \<Longrightarrow> same_counts s u"
  by (simp add: same_counts_def same_handles_def)

lemma device_rw_keeps:
  assumes "device_rw E i sf n bp rd s = Some (r, bp', s')" "env_ok E"
  shows "same_counts s s'"
proof -
  have cooked: "same_counts s t" if "cooked E b i n bp s = (x, y, t)" for b x y s t
    using assms(2) that by (auto simp: env_ok_def same_counts_def)
  have "same_counts (upd_entry i (\<lambda>sf. sf\<lparr>sft_flags := sft_flags sf OR SFT_FEOF\<rparr>) s) s' \<Longrightarrow> same_counts s s'"
    by (rule same_counts_trans [OF upd_entry_keeps]) simp_all
  moreover have "same_counts t (upd_entry i (\<lambda>sf. sf\<lparr>sft_flags := sft_flags sf AND NOT SFT_FEOF\<rparr>) t)" for t by (rule upd_entry_keeps) simp
  ultimately show ?thesis using assms(1)
    by (auto simp: device_rw_def Let_def dest!: cooked intro: same_counts_trans upd_entry_keeps split: if_split_asm prod.split_asm Option.bind_split_asm)
      (auto simp: same_counts_def same_handles_def)
qed

lemma share_may_access_keeps: "share_may_access sf n s = Some (r, s') \<Longrightarrow> same_counts s s'"
  by (auto simp: share_may_access_def same_counts_def same_handles_def split: if_split_asm Option.bind_split_asm)

lemma DosRWSft_keeps:
  assumes "DosRWSft E high i n bp mode s = Some (r, bp', s')" "env_ok E"
  shows "same_counts s s'"
  using assms
  by (auto simp: DosRWSft_def Let_def dest!: device_rw_keeps share_may_access_keeps keeps split: option.split_asm if_split_asm Option.bind_split_asm)
    (auto simp: env_ok_def same_counts_def same_handles_def)

lemma remote_keeps: "remote E c i a s = (r, s') \<Longrightarrow> env_ok E \<Longrightarrow> c \<notin> {REM_OPEN, REM_CREATE, REM_EXTOC} \<Longrightarrow> same_counts s s'"
  by (auto simp: env_ok_def same_counts_def)

lemma SftSeek_keeps:
  assumes "SftSeek E i pos mode s = (r, s')" "env_ok E"
  shows "same_counts s s'"
proof -
  have seek: "same_counts s t" if "remote E REM_LSEEK i a s = (x, t)" for i a x t
    using remote_keeps [OF that assms(2)] by (simp add: REM_LSEEK_def REM_OPEN_def REM_CREATE_def REM_EXTOC_def)
  have pos: "same_counts t (upd_entry i (\<lambda>sf. sf\<lparr>sft_posit := p\<rparr>) t)" for i p t by (rule upd_entry_keeps) simp
  show ?thesis using assms(1)
    by (auto simp: SftSeek_def Let_def dest!: seek intro: pos same_counts_trans [OF _ pos] split: option.split_asm if_split_asm prod.split_asm)
qed

lemma DosSeek_keeps: "DosSeek E h pos mode s = Some (r, p, s') \<Longrightarrow> env_ok E \<Longrightarrow> same_counts s s'"
  by (auto simp: DosSeek_def Let_def dest!: SftSeek_keeps split: prod.split_asm if_split_asm Option.bind_split_asm)

lemma handles_ok_counts: "same_counts s s' \<Longrightarrow> handles_ok P s \<Longrightarrow> handles_ok P s'"
  using handles_ok_same [of P s s'] by (auto simp: same_counts_def)

subsection \<open>Programs\<close>

text \<open>
  The calls of a program on handles, with the system file table never counting to its end; another process may
  become the current one between them.
\<close>

inductive handle_step :: "('d, 'c) env \<Rightarrow> u16 set \<Rightarrow> ('d, 'c) dos \<Rightarrow> ('d, 'c) dos \<Rightarrow> bool" for E P where
  step_open: "DosOpen E before fname mode attrib s = Some (r, s') \<Longrightarrow> handle_step E P s s'"
| step_close: "DosClose E h s = Some (r, s') \<Longrightarrow> handle_step E P s s'"
| step_dup: "DosDup E h s = Some (r, s') \<Longrightarrow> room s \<Longrightarrow> handle_step E P s s'"
| step_force_dup: "DosForceDup E old new s = Some (r, s') \<Longrightarrow> room s \<Longrightarrow> old \<noteq> new \<Longrightarrow> new < ps_maxfiles (cur_psp s) \<Longrightarrow> handle_step E P s s'"
| step_rw: "DosRWSft E high (get_sft_idx h s) n bp mode s = Some (r, bp', s') \<Longrightarrow> handle_step E P s s'"
| step_seek: "DosSeek E h pos mode s = Some (r, p, s') \<Longrightarrow> handle_step E P s s'"
| step_switch: "p \<in> P \<Longrightarrow> handle_step E P s (s\<lparr>cu_psp := p\<rparr>)"

inductive handle_reach :: "('d, 'c) env \<Rightarrow> u16 set \<Rightarrow> ('d, 'c) dos \<Rightarrow> ('d, 'c) dos \<Rightarrow> bool" for E P s0 where
  handle_init: "handle_reach E P s0 s0"
| handle_next: "handle_reach E P s0 s \<Longrightarrow> handle_step E P s s' \<Longrightarrow> handle_reach E P s0 s'"

lemma handle_step_ok:
  assumes "handle_step E P s s'" "env_ok E" "handles_ok P s"
  shows "handles_ok P s'"
  using assms(1)
proof cases
  case step_open
  then show ?thesis using DosOpen_ok [OF _ assms(2,3)] by blast
next
  case step_close
  then show ?thesis using DosClose_ok assms(2,3) by (auto simp: env_ok_def)
next
  case step_dup
  then show ?thesis using DosDup_ok assms(2,3) by (auto simp: env_ok_def)
next
  case step_force_dup
  then show ?thesis using DosForceDup_ok assms(2,3) by (auto simp: env_ok_def)
next
  case step_rw
  then show ?thesis using handles_ok_counts [OF DosRWSft_keeps [OF _ assms(2)] assms(3)] by blast
next
  case step_seek
  then show ?thesis using handles_ok_counts [OF DosSeek_keeps [OF _ assms(2)] assms(3)] by blast
next
  case (step_switch p)
  then show ?thesis using assms(3) by (auto simp: handles_ok_def)
qed

text \<open>
  C9. Handles never dangle. Whatever sequence of opens, closes, duplications, transfers and seeks the processes
  make, successful or not, an open handle of any process refers to an entry of the system file table that is
  in use, and entries are counted at least as often as handles refer to them, so that a new open never gets an entry that
  a handle still refers to. (Duplication of a handle onto itself is left out, see below.)
\<close>

theorem handles_never_dangle:
  assumes "handle_reach E P s0 s" "env_ok E" "handles_ok P s0" "p \<in> P" "h < unat (ps_maxfiles (psps s p))" "ps_filetab (psps s p) ! h \<noteq> 0xff"
  shows "idx_to_sft (unat (ps_filetab (psps s p) ! h)) (fsys s) \<noteq> None \<and> (\<forall>i. get_free_sft s = Some i \<longrightarrow> i \<noteq> unat (ps_filetab (psps s p) ! h))"
proof -
  have "handles_ok P s" using assms(1) by induction (auto intro: handle_step_ok assms(2,3))
  then have "idx_to_sft (unat (ps_filetab (psps s p) ! h)) (fsys s) \<noteq> None" using open_handle assms(4-6) by blast
  then show ?thesis by (auto simp: idx_to_sft_def elim: get_free_sftE split: if_splits)
qed

text \<open>The small system: one process with one open file.\<close>

lemma demo_env_ok: "env_ok demo_env"
  by (auto simp: env_ok_def net_ok_def demo_env_def other_counts_def)

lemma demo_handles_ok: "handles_ok {0x100} (demo_dos k)"
proof -
  have f: "filter (refers i) (0 # replicate 19 0xff) = (if i = 0 then [0] else [])" for i
    by (auto simp: refers_def filter_empty_conv)
  have "refs {0x100} (psps (demo_dos k)) i = (if i = 0 then 1 else 0)" for i
    using f [of i] by (simp add: refs_def handles_def demo_dos_def)
  moreover have "counts (fsys (demo_dos k)) = [1]" by (simp add: counts_def demo_dos_def demo_fs_def demo_sft_def)
  ultimately show ?thesis by (simp add: handles_ok_def uses_def) (simp add: demo_dos_def demo_fs_def)
qed

lemma demo_dup:
  "\<exists>s'. DosDup demo_env 0 (demo_dos k) = Some (1, s') \<and> psps s' 0x100 = \<lparr>ps_maxfiles = 20, ps_filetab = 0 # 0 # replicate 18 0xff\<rparr> \<and> room (demo_dos k)"
proof -
  have t: "cur_psp (demo_dos k) = \<lparr>ps_maxfiles = 20, ps_filetab = 0 # replicate 19 0xff\<rparr>" by (simp add: cur_psp_def demo_dos_def)
  have "get_free_hndl (demo_dos k) = 1" unfolding get_free_hndl_def t by (simp add: upt_rec)
  moreover have "sft_at (get_sft_idx 0 (demo_dos k)) (demo_dos k) = Some demo_sft"
    unfolding get_sft_idx_def t by (simp add: sft_at_def idx_to_sft_def demo_dos_def demo_fs_def demo_sft_def)
  moreover have "room (demo_dos k)" by (simp add: room_def uses_def counts_def demo_dos_def demo_fs_def demo_sft_def)
  ultimately show ?thesis
    by (simp add: DosDup_def DosForceDup_def Let_def t SUCCESS_def) (simp add: upd_entry_def set_handle_def upd_psp_def cur_psp_def demo_dos_def numeral_eq_Suc)
qed

theorem handles_never_dangle_witness:
  "\<exists>s. handle_reach demo_env {0x100} (demo_dos demo_kst) s \<and> ps_filetab (psps s 0x100) ! 1 = 0 \<and> idx_to_sft 0 (fsys s) \<noteq> None"
proof -
  obtain s where s: "DosDup demo_env 0 (demo_dos demo_kst) = Some (1, s)" "psps s 0x100 = \<lparr>ps_maxfiles = 20, ps_filetab = 0 # 0 # replicate 18 0xff\<rparr>" "room (demo_dos demo_kst)"
    using demo_dup by blast
  then have r: "handle_reach demo_env {0x100} (demo_dos demo_kst) s" by (intro handle_next [OF handle_init] step_dup)
  show ?thesis using handles_never_dangle [OF r demo_env_ok demo_handles_ok, of "0x100" 1] r s(2) by auto
qed

text \<open>
  C39. Duplicating a handle onto itself loses the file: \<^verbatim>\<open>DosForceDup\<close> closes the handle and then copies
  the closed handle. It reports success, but the handle is closed, and the entry is counted once more although
  no handle refers to it.
\<close>

theorem dup_onto_itself:
  assumes "DosClose E h s = Some (SUCCESS, t)" "unat h < length (ps_filetab (cur_psp s))"
  defines "i \<equiv> nat (get_sft_idx h s)"
  shows "\<exists>s'. DosForceDup E h h s = Some (SUCCESS, s') \<and> ps_filetab (cur_psp s') ! unat h = 0xff
    \<and> (i < length (sfts (fsys t)) \<longrightarrow> sft_count (sfts (fsys s') ! i) = sft_count (sfts (fsys t) ! i) + 1)"
proof (cases "sft_at (get_sft_idx h s) s")
  case (Some sf)
  then have x: "ps_filetab (cur_psp s) ! unat h \<noteq> 0xff" by (auto elim: get_sft_idxE)
  have "cur_psp t = cur_psp (set_handle (unat h) 0xff s)" using assms(1) Some
    by (auto simp: DosClose_def Let_def cur_psp_def bind_eq_Some_conv)
  then have t: "ps_filetab (cur_psp t) ! unat h = 0xff" "length (ps_filetab (cur_psp t)) = length (ps_filetab (cur_psp s))"
    using assms(2) by (simp_all add: cur_psp_set_handle)
  then show ?thesis using assms Some x
    by (simp add: DosForceDup_def Let_def upd_entry_def upd_sft_def) (simp add: cur_psp_def set_handle_def upd_psp_def)
qed (use assms(1) in \<open>simp add: DosClose_def errs\<close>)

definition con_dos :: "(disk, unit) dos" where
  "con_dos = (demo_dos demo_kst)\<lparr>fsys := (demo_fs demo_kst)\<lparr>sfts := [demo_sft\<lparr>sft_flags := SFT_FDEVICE\<rparr>]\<rparr>\<rparr>"

theorem dup_onto_itself_witness:
  "\<exists>s'. DosForceDup demo_env 0 0 con_dos = Some (SUCCESS, s') \<and> ps_filetab (cur_psp s') ! 0 = 0xff \<and> sft_count (sfts (fsys s') ! 0) = 1"
proof -
  have idx: "get_sft_idx 0 con_dos = 0" by (simp add: get_sft_idx_def con_dos_def cur_psp_def demo_dos_def)
  have d: "dh_attr (ks (demo_fs demo_kst)) 1 = 0" by (simp add: demo_fs_def demo_kst_def)
  have "\<exists>t. DosClose demo_env 0 con_dos = Some (SUCCESS, t) \<and> sfts (fsys t) = [demo_sft\<lparr>sft_flags := SFT_FDEVICE, sft_count := 0\<rparr>]"
    unfolding DosClose_def idx using d by (simp add: DosCloseSft_def sft_at_def idx_to_sft_def con_dos_def demo_sft_def SFT_FDEVICE_def SFT_FSHARED_def upd_sft_def Let_def)
  then obtain t where t: "DosClose demo_env 0 con_dos = Some (SUCCESS, t)" "sfts (fsys t) = [demo_sft\<lparr>sft_flags := SFT_FDEVICE, sft_count := 0\<rparr>]" by blast
  have "unat 0 < length (ps_filetab (cur_psp con_dos))" by (simp add: con_dos_def cur_psp_def demo_dos_def)
  from dup_onto_itself [OF t(1) this] show ?thesis using t(2) idx by auto
qed

end
