(* ===== verification/FatPut.thy ===== *)
theory FatPut
  imports FatOpen
begin

text \<open>
  Changing the contents of files: what a write past the cache and a write into a buffer do to the blocks of a
  drive, and what a change of blocks means for the bytes of a file.
\<close>

subsection \<open>Writes past the cache and into it\<close>

lemma dskxfer_write_run:
  assumes drv: "disk_driver drv rd" and u: "drives s u = Some dp" and n: "0 < unat n" and len: "length buf = 512 * unat n" "length (deblock_buf s) = 512"
    and units: "units_ok s"
  shows "\<exists>dv db. dskxfer drv u b hi buf n DSKWRITE s = Some (0, buf, dev_only dv db s) \<and> length db = 512
    \<and> (\<forall>u' b'. drives s u' \<noteq> None \<longrightarrow> sector_on rd dv s u' b' =
         (if u' = u \<and> unat (b' - b) < unat n then take 512 (drop (512 * unat (b' - b)) buf) else sector rd s u' b'))"
proof (cases "n = 1")
  case True
  have "unat (b' - b) < 1 \<longleftrightarrow> b' = b" for b' by (simp add: unat_eq_zero)
  moreover obtain dv db where "dskxfer drv u b hi buf 1 DSKWRITE s = Some (0, buf, dev_only dv db s)" "length db = 512"
    "\<And>u' b'. drives s u' \<noteq> None \<Longrightarrow> sector_on rd dv s u' b' = (if u' = u \<and> b' = b then buf else sector rd s u' b')"
    using dskxfer_write [OF drv u _ len(2) units, of buf b hi] len(1) True by auto
  ultimately show ?thesis using len(1) True by (intro exI [of _ dv] exI [of _ db]) auto
next
  case False
  let ?d = "dpbs s dp"
  obtain cmd where cmd: "xfer_command DSKWRITE s = Some cmd" "cmd = C_OUTPUT \<or> cmd = C_OUTVFY"
    by (auto simp: xfer_command_def)
  let ?rq = "mk_request ?d b n cmd s"
  have l: "length buf = 512 * unat (r_count ?rq)" "r_command ?rq = C_OUTPUT \<or> r_command ?rq = C_OUTVFY" using len(1) cmd(2) by simp_all
  from drv [unfolded disk_driver_def, THEN conjunct2, THEN conjunct1, rule_format, OF l, of "dpb_device ?d" "device s"]
  obtain st d' where x: "drv_exec drv ?rq (dpb_device ?d) buf (device s) = (st, buf, d')" "st_done st"
    and r: "\<And>v u b'. rd d' v u b' = (if v = dpb_device ?d \<and> u = dpb_subunit ?d \<and> unat (b' - b) < unat n
      then take 512 (drop (512 * unat (b' - b)) buf) else rd (device s) v u b')" by (auto simp: Let_def)
  have "xfer_once drv ?d ?rq hi DSKWRITE buf s = (st, buf, dev_only d' (deblock_buf s) s)"
    using False x(1) by (simp add: xfer_once_def dev_only_def)
  then have "dskxfer drv u b hi buf n DSKWRITE s = Some (0, buf, dev_only d' (deblock_buf s) s)"
    using x(2) by (simp add: dskxfer_def u cmd loop_Inl dskxfer_body_def st_done_def)
  moreover have "sector_on rd d' s u' b' = (if u' = u \<and> unat (b' - b) < unat n then take 512 (drop (512 * unat (b' - b)) buf) else sector rd s u' b')"
    if "drives s u' \<noteq> None" for u' b'
    using that units u unfolding units_ok_def sector_on_def Let_def r by auto
  ultimately show ?thesis using len(2) by blast
qed


text \<open>Buffers of the blocks that are written past the cache are given up, modified or not.\<close>

definition in_run :: "u32 \<Rightarrow> u32 \<Rightarrow> u8 \<Rightarrow> buffer \<Rightarrow> bool" where
  "in_run low high dsk b \<longleftrightarrow> low \<le> b_blkno b \<and> b_blkno b \<le> high \<and> fvalid b \<and> b_unit b = dsk"

lemma delete_write_ok:
  assumes inv: "cache_inv drv rd M xs s"
  shows "\<exists>s'. DeleteBlockInBufferCache drv low high dsk XFR_WRITE s = Some (False, s') \<and> cache_inv drv rd M xs s' \<and> same_env s s'
    \<and> (\<forall>v c. \<not> (v = dsk \<and> low \<le> c \<and> c \<le> high) \<longrightarrow> view rd xs s' v c = view rd xs s v c) \<and> (\<forall>p \<in> set xs. \<not> in_run low high dsk (bufs s' p))"
proof -
  let ?P = "\<lambda>s1. cache_inv drv rd M xs s1 \<and> same_env s s1 \<and> (\<forall>v c. \<not> (v = dsk \<and> low \<le> c \<and> c \<le> high) \<longrightarrow> view rd xs s1 v c = view rd xs s v c)"
  let ?I = "\<lambda>ps (u :: unit) s1. ?P s1 \<and> (\<forall>p \<in> set xs. p \<notin> set ps \<longrightarrow> \<not> in_run low high dsk (bufs s1 p))"
  have "\<exists>a' s'. ring_do (delete_act drv low high dsk XFR_WRITE) () s = Some (a', s') \<and> ring s' xs \<and> ?I [] a' s'"
  proof (rule ring_do_rule)
    show "ring s xs" "?I xs () s" using inv by (simp_all add: cache_inv_def)
  next
    fix p ps u s1 assume p: "p \<in> set xs" and I: "?I (p # ps) u s1" and r: "ring s1 xs"
    have act: "delete_act drv low high dsk XFR_WRITE p (u, s1)
        = Some ((), if in_run low high dsk (bufs s1 p) then upd_buf p (\<lambda>b. b\<lparr>b_flag := 0\<rparr>) s1 else s1)"
      by (auto simp: delete_act_def Let_def in_run_def fvalid_def XFR_READ_def XFR_WRITE_def)
    show "\<exists>a' s'. delete_act drv low high dsk XFR_WRITE p (u, s1) = Some (a', s') \<and> ring s' xs \<and> ?I ps a' s'"
    proof (cases "in_run low high dsk (bufs s1 p)")
      case True
      let ?f = "\<lambda>b. b\<lparr>b_flag := 0\<rparr>" and ?s2 = "upd_buf p (\<lambda>b. b\<lparr>b_flag := 0\<rparr>) s1"
      have nv: "\<not> fvalid (?f (bufs s1 p))" by (simp add: flag_bits)
      have "cache_inv drv rd M xs s1" using I by simp
      note d = drop_view [OF this p, of ?f, OF nv, simplified]
      have "?P ?s2" using I d same_env_trans [OF _ same_env_upd, of s s1] True by (auto simp: in_run_def is_block_iff blk_of_def)
      moreover have "ring ?s2 xs" using d(1) by (simp add: cache_inv_def)
      moreover have "\<not> in_run low high dsk (bufs ?s2 p)" using nv by (simp add: in_run_def)
      then have "\<forall>q \<in> set xs. q \<notin> set ps \<longrightarrow> \<not> in_run low high dsk (bufs ?s2 q)" using I by auto
      ultimately show ?thesis using act True by auto
    next
      case False
      then show ?thesis using act I r by auto
    qed
  qed
  then show ?thesis by (auto simp: DeleteBlockInBufferCache_def)
qed

lemma put_run_ok:
  assumes inv: "cache_inv drv rd M xs s" and none: "\<forall>p \<in> set xs. \<not> (fvalid (bufs s p) \<and> b_unit (bufs s p) = u \<and> unat (b_blkno (bufs s p) - b) < n)"
    and sec: "\<And>u' b'. drives s u' \<noteq> None \<Longrightarrow> sector_on rd dv s u' b' = (if u' = u \<and> unat (b' - b) < n then f b' else sector rd s u' b')"
    and db: "length db = 512" and u: "drives s u \<noteq> None"
  shows "cache_inv drv rd M xs (dev_only dv db s)"
    "drives s v \<noteq> None \<Longrightarrow> view rd xs (dev_only dv db s) v c = (if v = u \<and> unat (c - b) < n then f c else view rd xs s v c)"
proof -
  let ?s = "dev_only dv db s"
  have "flush_copies ?s b = flush_copies s b" for b by (simp add: flush_copies_def)
  then have ex: "extra_blocks ?s b = extra_blocks s b" for b by (simp add: extra_blocks_def)
  have "buf_ok rd M ?s (bufs s p)" if p: "p \<in> set xs" for p
  proof -
    have o: "buf_ok rd M s (bufs s p)" using inv p by (simp add: cache_inv_def)
    show ?thesis
    proof (cases "fvalid (bufs s p)")
      case True
      then have "drives s (b_unit (bufs s p)) \<noteq> None" using o by (simp add: buf_ok_def)
      from sec [OF this, of "b_blkno (bufs s p)"] none p True have "sector rd ?s (b_unit (bufs s p)) (b_blkno (bufs s p)) = sector rd s (b_unit (bufs s p)) (b_blkno (bufs s p))" by auto
      then show ?thesis using o ex unfolding buf_ok_def by simp
    qed (use o in \<open>simp add: buf_ok_def\<close>)
  qed
  then show inv': "cache_inv drv rd M xs ?s" using inv db by (simp add: cache_inv_def)
  assume v: "drives s v \<noteq> None"
  from inv show "view rd xs ?s v c = (if v = u \<and> unat (c - b) < n then f c else view rd xs s v c)"
  proof (rule view_cases [where u = v and b = c])
    fix p assume p: "p \<in> set xs" "is_block c v (bufs s p)" "view rd xs s v c = b_buffer (bufs s p)"
    then have "\<not> (v = u \<and> unat (c - b) < n)" using none by (auto simp: is_block_iff blk_of_def)
    then show ?thesis using view_hit [OF inv' p(1), of c v] p(2,3) by auto
  next
    assume "\<forall>p \<in> set xs. \<not> is_block c v (bufs s p)" "view rd xs s v c = sector rd s v c"
    then show ?thesis using view_miss [of xs c v ?s rd] sec [OF v, of c] by simp
  qed
qed

text \<open>A block of data changes: the table stays as it is, and the data are as before elsewhere.\<close>

lemma fat_put:
  assumes ok: "fat_ok drv rd M X V dp g s" and xs: "cache_inv drv rd M xs s" "set xs = X"
    and inv: "cache_inv drv rd M xs' s'" "set xs' = set xs" and env: "same_env s s'" and B: "\<And>v c. (v, c) \<in> B \<Longrightarrow> (v, c) \<notin> fat_area g"
    and w: "\<And>v c. drives s v \<noteq> None \<Longrightarrow> (v, c) \<notin> M \<Longrightarrow> view rd xs' s' v c = (if (v, c) \<in> B then V' v c else view rd xs s v c)"
    and V': "\<And>v c. (v, c) \<notin> B \<Longrightarrow> V' v c = V v c"
  shows "fat_ok drv rd M X V' dp g s'" "fat_at rd X g s' = fat_at rd X g s"
proof -
  note k = fat_ok_sel [OF ok]
  have e: "drives s' = drives s" "dpbs s' = dpbs s" using env by (simp_all add: same_env_def)
  have fa: "view rd xs' s' (dpb_unit g) (fat_sector g j) = view rd xs s (dpb_unit g) (fat_sector g j)" if "j \<le> fat_last g" for j
  proof -
    have "(dpb_unit g, fat_sector g j) \<in> fat_area g" using that by (auto simp: fat_area_def fat_sectors_def)
    then show ?thesis using w [OF k(3), of "fat_sector g j"] k(1) that B by (auto simp: fat_geom_def)
  qed
  have "rest_ok rd M X V' g s'"
    using k(7) w V' block_at_ring [OF xs(1)] block_at_ring [OF inv(1)] inv(2) xs(2) e by (simp add: rest_ok_def)
  then show "fat_ok drv rd M X V' dp g s'" "fat_at rd X g s' = fat_at rd X g s"
    using fat_keep_table [OF ok xs inv e(1), of V'] k(2,4,5) fa e(2) by auto
qed


definition put_run :: "(u8 \<Rightarrow> u32 \<Rightarrow> u8 list) \<Rightarrow> u8 \<Rightarrow> u32 \<Rightarrow> nat \<Rightarrow> u8 list \<Rightarrow> u8 \<Rightarrow> u32 \<Rightarrow> u8 list" where
  "put_run V u b n area v c = (if v = u \<and> unat (c - b) < n then take 512 (drop (512 * unat (c - b)) area) else V v c)"

lemma run_range:
  fixes b c :: u32
  assumes "\<forall>i<n. b + of_nat i \<noteq> 0" "0 < n"
  shows "unat (c - b) < n \<longleftrightarrow> b \<le> c \<and> c \<le> b + of_nat (n - 1)"
proof -
  have l: "unat (b + of_nat (n - 1)) = unat b + (n - 1)" using unat_run [OF assms(1), of "n - 1"] assms(2) by simp
  show ?thesis
  proof
    assume c: "unat (c - b) < n"
    then have "unat (b + of_nat (unat (c - b))) = unat b + unat (c - b)" using unat_run [OF assms(1)] by blast
    then have "unat c = unat b + unat (c - b)" by simp
    then show "b \<le> c \<and> c \<le> b + of_nat (n - 1)" using c l by (simp add: word_le_nat_alt)
  next
    assume c: "b \<le> c \<and> c \<le> b + of_nat (n - 1)"
    then have "unat (c - b) = unat c - unat b" by (intro unat_sub) simp
    then show "unat (c - b) < n" using c l assms(2) unfolding word_le_nat_alt by linarith
  qed
qed

lemma direct_write_ok:
  assumes ok: "fat_ok drv rd M X V dp g s" and n: "0 < unat n" and len: "length area = 512 * unat n"
    and b: "\<forall>i<unat n. b + of_nat i \<noteq> 0 \<and> (dpb_unit g, b + of_nat i) \<notin> M \<and> (dpb_unit g, b + of_nat i) \<notin> fat_area g"
  shows "\<exists>s1 s2. DeleteBlockInBufferCache drv b (b + ucast n - 1) (dpb_unit g) XFR_WRITE s = Some (False, s1)
    \<and> dskxfer drv (dpb_unit g) b hi area n DSKWRITE s1 = Some (0, area, s2)
    \<and> fat_ok drv rd M X (put_run V (dpb_unit g) b (unat n) area) dp g s2 \<and> fat_at rd X g s2 = fat_at rd X g s"
proof -
  let ?u = "dpb_unit g" and ?h = "b + ucast n - 1"
  obtain xs where xs: "cache_inv drv rd M xs s" "set xs = X" using fat_okE [OF ok] by metis
  obtain s1 where s1: "DeleteBlockInBufferCache drv b ?h ?u XFR_WRITE s = Some (False, s1)" "cache_inv drv rd M xs s1" "same_env s s1"
    "\<And>v c. \<not> (v = ?u \<and> b \<le> c \<and> c \<le> ?h) \<Longrightarrow> view rd xs s1 v c = view rd xs s v c" "\<And>p. p \<in> set xs \<Longrightarrow> \<not> in_run b ?h ?u (bufs s1 p)"
    using delete_write_ok [OF xs(1), of b ?h ?u] by blast
  have "(ucast n :: u32) = of_nat (unat n)" by (simp add: word_unat_eq_iff unat_of_nat unat_lt16 less_trans [OF unat_lt16])
  then have last: "?h = b + of_nat (unat n - 1)" using n by (simp add: of_nat_diff)
  have rng: "unat (c - b) < unat n \<longleftrightarrow> b \<le> c \<and> c \<le> ?h" for c unfolding last using run_range [of "unat n" b c] b n by blast
  have dr: "drives s1 = drives s" using s1(3) by (simp add: same_env_def)
  then obtain dp' where dp': "drives s1 ?u = Some dp'" using fat_ok_sel(3) [OF ok] by auto
  have drv: "disk_driver drv rd" "length (deblock_buf s1) = 512" "units_ok s1" using s1(2) by (simp_all add: cache_inv_def)
  obtain dv db where x: "dskxfer drv ?u b hi area n DSKWRITE s1 = Some (0, area, dev_only dv db s1)" "length db = 512"
    "\<And>u' b'. drives s1 u' \<noteq> None \<Longrightarrow> sector_on rd dv s1 u' b' =
       (if u' = ?u \<and> unat (b' - b) < unat n then take 512 (drop (512 * unat (b' - b)) area) else sector rd s1 u' b')"
    using dskxfer_write_run [OF drv(1) dp' n len drv(2,3)] by blast
  have none: "\<forall>p \<in> set xs. \<not> (fvalid (bufs s1 p) \<and> b_unit (bufs s1 p) = ?u \<and> unat (b_blkno (bufs s1 p) - b) < unat n)"
    using s1(5) rng by (auto simp: in_run_def)
  let ?s2 = "dev_only dv db s1" and ?B = "{(v, c). v = ?u \<and> unat (c - b) < unat n}" and ?V = "put_run V ?u b (unat n) area"
  have u1: "drives s1 ?u \<noteq> None" using dp' by simp
  note P = put_run_ok [OF s1(2) none x(3) x(2) u1]
  have env: "same_env s ?s2" using same_env_trans [OF s1(3) same_env_dev] .
  have B: "(v, c) \<notin> fat_area g" if "(v, c) \<in> ?B" for v c
  proof -
    have "c = b + of_nat (unat (c - b))" by simp
    moreover have "(?u, b + of_nat (unat (c - b))) \<notin> fat_area g" using b that by blast
    ultimately show ?thesis using that by simp
  qed
  have w: "view rd xs ?s2 v c = (if (v, c) \<in> ?B then ?V v c else view rd xs s v c)" if v: "drives s v \<noteq> None" for v c
    using P(2) [of v c] v dr s1(4) [of v c] rng [of c] by (auto simp: put_run_def)
  have o: "?V v c = V v c" if "(v, c) \<notin> ?B" for v c using that by (auto simp: put_run_def)
  from fat_put [OF ok xs P(1) refl env B w o] s1(1) x(1) show ?thesis by auto
qed

lemma run_one: "unat (c - b :: u32) < 1 \<longleftrightarrow> c = b" "unat (c - b :: u32) = 0 \<longleftrightarrow> c = b"
  by (simp_all add: unat_eq_zero)

lemma block_write_ok:
  assumes ok: "fat_ok drv rd M X V dp g s" and p: "p \<in> X" "is_block b (dpb_unit g) (bufs s p)" and b: "(dpb_unit g, b) \<notin> fat_area g"
    and f: "\<And>bf. f bf = bf\<lparr>b_buffer := h (b_buffer bf), b_flag := b_flag bf OR (BFR_DIRTY OR BFR_VALID)\<rparr>" "length (h (b_buffer (bufs s p))) = 512"
  shows "fat_ok drv rd M X (put_run V (dpb_unit g) b 1 (h (b_buffer (bufs s p)))) dp g (upd_buf p f s)" "fat_at rd X g (upd_buf p f s) = fat_at rd X g s"
proof -
  let ?u = "dpb_unit g" and ?s = "upd_buf p f s" and ?d = "h (b_buffer (bufs s p))"
  obtain xs where xs: "cache_inv drv rd M xs s" "set xs = X" using fat_okE [OF ok] by metis
  let ?b = "f (bufs s p)"
  have bo: "buf_ok rd M s (bufs s p)" "fvalid (bufs s p)" using xs p by (auto simp: cache_inv_def is_block_iff)
  have fl: "fvalid ?b" "fdirty ?b" "ffat ?b = ffat (bufs s p)" by (auto simp: f(1) flag_bits)
  have blk: "is_block b ?u ?b" using p(2) fl(1) by (simp add: is_block_iff f(1) blk_of_def)
  have "extra_blocks s ?b = extra_blocks s (bufs s p)" using fl(3) by (simp add: extra_blocks_def flush_copies_def f(1) ffat_def)
  then have fat: "ffat ?b \<Longrightarrow> 0 < b_copies ?b \<and> extra_blocks s ?b \<subseteq> M" using bo fl(3) by (simp add: buf_ok_def f(1))
  have px: "p \<in> set xs" using xs p by simp
  have nx: "b_next ?b = b_next (bufs s p)" "b_prev ?b = b_prev (bufs s p)" "b_buffer ?b = ?d" by (simp_all add: f(1))
  have l: "length (b_buffer ?b) = 512" using f(2) nx(3) by simp
  note m = modify_ok [where f = f and b' = ?b, OF xs(1) px p(2) refl nx(1,2) blk l disjI1 [OF fl(2)] fat]
  have c: "cache_inv drv rd M xs ?s" by (rule m(1))
  have v: "view rd xs ?s v c = (if v = ?u \<and> c = b then ?d else view rd xs s v c)" for v c using m(2) [of v c] nx(3) by simp
  let ?B = "{(?u, b)}" and ?V = "put_run V ?u b 1 ?d"
  have B: "(v, c) \<notin> fat_area g" if "(v, c) \<in> ?B" for v c using that b by simp
  have w: "view rd xs ?s v c = (if (v, c) \<in> ?B then ?V v c else view rd xs s v c)" for v c
    unfolding v put_run_def run_one using f(2) by simp
  have o: "?V v c = V v c" if "(v, c) \<notin> ?B" for v c using that by (auto simp: put_run_def run_one)
  show "fat_ok drv rd M X ?V dp g ?s" "fat_at rd X g ?s = fat_at rd X g s"
    using fat_put [OF ok xs c refl same_env_upd B w o] by auto
qed

subsection \<open>The clusters of a drive do not overlap\<close>

definition data_start :: "dpb \<Rightarrow> nat" where
  "data_start g = (if ISFAT32 g then unat (dpb_xdata g) else unat (dpb_data g))"

definition data_fits :: "dpb \<Rightarrow> bool" where
  "data_fits g \<longleftrightarrow> data_start g + (unat (max_cluster g) - 1) * spc g \<le> 2 ^ 32"

lemma unat_clus2phys:
  assumes f: "data_fits g" and c: "in_fat g c" and k: "k < spc g"
  shows "unat (clus2phys c g + of_nat k) = data_start g + (unat c - 2) * spc g + k"
proof -
  let ?m = "unat (dpb_shftcnt g)" and ?d = "if ISFAT32 g then dpb_xdata g else ucast (dpb_data g) :: u32"
  have c2: "2 \<le> unat c" "unat c \<le> unat (max_cluster g)" using c by (simp_all add: in_fat_def word_le_nat_alt)
  have d: "unat ?d = data_start g" by (simp add: data_start_def)
  have "(unat c - 2) * spc g + spc g \<le> (unat (max_cluster g) - 1) * spc g"
    using mult_le_mono1 [of "Suc (unat c - 2)" "unat (max_cluster g) - 1" "spc g"] c2
    c2 by (simp add: add.commute)
  then have lim: "data_start g + (unat c - 2) * spc g + k < 2 ^ 32" using f k unfolding data_fits_def by linarith
  have eq: "push_bit ?m (c - 2) = of_nat ((unat c - 2) * spc g)"
  proof -
    have "c - 2 = of_nat (unat c - 2)" using c2(1) by (simp add: of_nat_diff)
    then show ?thesis by (simp add: push_bit_eq_mult spc_def)
  qed
  have "?d = of_nat (data_start g)" unfolding d [symmetric] by (simp only: of_nat_unat ucast_id)
  then have "clus2phys c g + of_nat k = of_nat (data_start g + (unat c - 2) * spc g + k)"
    unfolding clus2phys_def eq by (simp add: add.commute)
  then have "unat (clus2phys c g + of_nat k) = (data_start g + (unat c - 2) * spc g + k) mod 2 ^ 32" by (simp only: unat_of_nat) simp
  then show ?thesis using lim by simp
qed

lemma clus2phys_inj:
  assumes f: "data_fits g" and c: "in_fat g c" "in_fat g c'" and k: "k < spc g" "k' < spc g"
    and eq: "clus2phys c g + of_nat k = clus2phys c' g + of_nat k'"
  shows "c = c' \<and> k = k'"
proof -
  have e: "(unat c - 2) * spc g + k = (unat c' - 2) * spc g + k'"
    using unat_clus2phys [OF f c(1) k(1)] unat_clus2phys [OF f c(2) k(2)] eq by simp
  have "unat c - 2 = ((unat c - 2) * spc g + k) div spc g" "k = ((unat c - 2) * spc g + k) mod spc g" using k(1) by simp_all
  moreover have "unat c' - 2 = ((unat c' - 2) * spc g + k') div spc g" "k' = ((unat c' - 2) * spc g + k') mod spc g" using k(2) by simp_all
  ultimately have "unat c - 2 = unat c' - 2" "k = k'" using e by metis+
  moreover have "2 \<le> unat c" "2 \<le> unat c'" using c by (simp_all add: in_fat_def word_le_nat_alt)
  ultimately show ?thesis by (simp add: word_unat_eq_iff)
qed

lemma file_block_inj:
  assumes f: "data_fits g" and cs: "distinct cs" "set cs \<subseteq> {2..max_cluster g}" and j: "j div spc g < length cs" "j' div spc g < length cs"
    and eq: "file_block g cs j = file_block g cs j'"
  shows "j = j'"
proof -
  have "in_fat g (cs ! (j div spc g))" "in_fat g (cs ! (j' div spc g))" using subsetD [OF cs(2) nth_mem] j by (simp_all add: in_fat_iff)
  from clus2phys_inj [OF f this _ _ eq [unfolded file_block_def]] have "cs ! (j div spc g) = cs ! (j' div spc g)" "j mod spc g = j' mod spc g" by simp_all
  then have "j div spc g = j' div spc g" "j mod spc g = j' mod spc g" using nth_eq_iff_index_eq [OF cs(1) j] by simp_all
  then show ?thesis by (metis mult_div_mod_eq)
qed

text \<open>
  What writing \<open>data\<close> at \<open>off\<close> does to a file: these bytes become \<open>data\<close>, all other bytes of its clusters and
  all blocks that are not blocks of the file keep their contents.
\<close>

definition wrote_file :: "dpb \<Rightarrow> u32 list \<Rightarrow> nat \<Rightarrow> u8 list \<Rightarrow> (u8 \<Rightarrow> u32 \<Rightarrow> u8 list) \<Rightarrow> (u8 \<Rightarrow> u32 \<Rightarrow> u8 list) \<Rightarrow> bool" where
  "wrote_file g cs off data V V' \<longleftrightarrow>
     (\<forall>i < 512 * spc g * length cs. file_byte V' g cs i = (if off \<le> i \<and> i < off + length data then data ! (i - off) else file_byte V g cs i))
     \<and> (\<forall>u b. u \<noteq> dpb_unit g \<or> b \<notin> file_block g cs ` {j. j div spc g < length cs} \<longrightarrow> V' u b = V u b)"

lemma sector_of_byte: "i < 512 * spc g * length cs \<Longrightarrow> i div 512 div spc g < length cs"
proof -
  assume "i < 512 * spc g * length cs"
  then have "i div 512 div spc g < length cs \<or> False"
    by (metis div_mult2_eq less_mult_imp_div_less mult.commute mult.assoc)
  then show ?thesis by simp
qed

lemma wrote_run:
  assumes f: "data_fits g" and cs: "distinct cs" "set cs \<subseteq> {2..max_cluster g}"
    and b: "\<And>i. i < n \<Longrightarrow> b + of_nat i = file_block g cs (j + i) \<and> (j + i) div spc g < length cs" and n: "n \<le> 4294967296"
    and area: "length area = 512 * n"
  shows "wrote_file g cs (512 * j) area V (put_run V (dpb_unit g) b n area)"
proof -
  let ?V = "put_run V (dpb_unit g) b n area"
  have run: "unat (c - b) < n \<longleftrightarrow> (\<exists>i<n. c = file_block g cs (j + i))" for c
  proof
    assume "unat (c - b) < n"
    then show "\<exists>i<n. c = file_block g cs (j + i)" using b [of "unat (c - b)"] by (intro exI [of _ "unat (c - b)"]) simp
  next
    assume "\<exists>i<n. c = file_block g cs (j + i)"
    then obtain i where i: "i < n" "c = b + of_nat i" using b by metis
    then show "unat (c - b) < n" using n by (simp add: unat_of_nat)
  qed
  have idx: "unat (file_block g cs (j + i) - b) = i" if "i < n" for i
  proof -
    have "file_block g cs (j + i) - b = of_nat i" using b [OF that] by (metis add_diff_cancel_left')
    then show ?thesis using that n by (simp add: unat_of_nat)
  qed
  have "file_byte ?V g cs i = (if 512 * j \<le> i \<and> i < 512 * j + length area then area ! (i - 512 * j) else file_byte V g cs i)"
    if i: "i < 512 * spc g * length cs" for i
  proof (cases "512 * j \<le> i \<and> i < 512 * j + length area")
    case True
    define k where "k = i div 512 - j"
    have dv: "512 * (i div 512) + i mod 512 = i" by simp
    have "i div 512 < j + n" using True area by (intro less_mult_imp_div_less) simp
    moreover have "j \<le> i div 512" using True by (simp add: less_eq_div_iff_mult_less_eq mult.commute)
    ultimately have k: "i div 512 = j + k" "k < n" by (auto simp: k_def)
    have "i = 512 * j + (512 * k + i mod 512)" using dv k(1) by (simp add: distrib_left)
    then have r: "i - 512 * j = 512 * k + i mod 512" by (metis add_diff_cancel_left')
    have "512 * k + 512 \<le> length area" using k(2) area by simp
    then have "take 512 (drop (512 * k) area) ! (i mod 512) = area ! (i - 512 * j)" unfolding r by simp
    then show ?thesis using True k idx [OF k(2)] by (simp add: file_byte_def put_run_def)
  next
    case False
    have "file_block g cs (i div 512) \<noteq> file_block g cs (j + k)" if k: "k < n" for k
    proof
      assume "file_block g cs (i div 512) = file_block g cs (j + k)"
      then have e: "i div 512 = j + k" using file_block_inj [OF f cs sector_of_byte [OF i]] b [OF k] by blast
      have "512 * (i div 512) + i mod 512 = i" "i mod 512 < 512" by simp_all
      then show False using False e area k by linarith
    qed
    then have "\<not> unat (file_block g cs (i div 512) - b) < n" using run by metis
    then show ?thesis using False by (auto simp: file_byte_def put_run_def)
  qed
  moreover have "?V u c = V u c" if o: "u \<noteq> dpb_unit g \<or> c \<notin> file_block g cs ` {j. j div spc g < length cs}" for u c
  proof -
    have "\<not> (u = dpb_unit g \<and> unat (c - b) < n)" using o run [of c] b by auto
    then show ?thesis unfolding put_run_def by auto
  qed
  ultimately show ?thesis unfolding wrote_file_def by blast
qed

lemma wrote_sector:
  assumes f: "data_fits g" and cs: "distinct cs" "set cs \<subseteq> {2..max_cluster g}"
    and j: "off div 512 div spc g < length cs" and data: "off mod 512 + length data \<le> 512"
    and V: "length (V (dpb_unit g) (file_block g cs (off div 512))) = 512"
  shows "wrote_file g cs off data V
    (put_run V (dpb_unit g) (file_block g cs (off div 512)) 1 (overlay (off mod 512) data (V (dpb_unit g) (file_block g cs (off div 512)))))"
proof -
  let ?j = "off div 512" and ?u = "dpb_unit g"
  let ?o = "V ?u (file_block g cs ?j)"
  let ?a = "overlay (off mod 512) data ?o" and ?V = "put_run V ?u (file_block g cs ?j) 1 (overlay (off mod 512) data ?o)"
  have la: "length ?a = 512" using V data by simp
  have w: "wrote_file g cs (512 * ?j) ?a V ?V" using wrote_run [OF f cs, of 1 "file_block g cs ?j" ?j ?a V] j la by simp
  have "file_byte ?V g cs i = (if off \<le> i \<and> i < off + length data then data ! (i - off) else file_byte V g cs i)" if i: "i < 512 * spc g * length cs" for i
  proof -
    have e: "file_byte ?V g cs i = (if 512 * ?j \<le> i \<and> i < 512 * ?j + 512 then ?a ! (i - 512 * ?j) else file_byte V g cs i)"
      using w i la unfolding wrote_file_def by simp
    have o: "off = 512 * ?j + off mod 512" by simp
    show ?thesis
    proof (cases "512 * ?j \<le> i \<and> i < 512 * ?j + 512")
      case True
      define k where "k = i - 512 * ?j"
      have k: "i = 512 * ?j + k" "k < 512" using True by (auto simp: k_def)
      then have d: "i div 512 = ?j" "i mod 512 = k" by simp_all
      have "?a ! k = (if off mod 512 \<le> k \<and> k < off mod 512 + length data then data ! (k - off mod 512) else ?o ! k)"
        using k(2) V data by (auto simp: overlay_def nth_append)
      moreover have "off \<le> i \<longleftrightarrow> off mod 512 \<le> k" "i < off + length data \<longleftrightarrow> k < off mod 512 + length data" "i - off = k - off mod 512"
        using o k(1) by linarith+
      ultimately show ?thesis using e True d unfolding k_def [symmetric] by (simp add: file_byte_def)
    next
      case False
      have "\<not> (off \<le> i \<and> i < off + length data)" using False data o by linarith
      then show ?thesis using e False by auto
    qed
  qed
  then show ?thesis using w unfolding wrote_file_def by blast
qed

lemma wrote_trans:
  assumes "wrote_file g cs off d1 V V1" "wrote_file g cs (off + length d1) d2 V1 V2"
  shows "wrote_file g cs off (d1 @ d2) V V2"
  using assms unfolding wrote_file_def by (auto simp: nth_append)

lemma wrote_nil: "wrote_file g cs off [] V V"
  by (auto simp: wrote_file_def)

lemma wrote_reads:
  assumes w: "wrote_file g cs off data V V'" and "off + length data \<le> 512 * spc g * length cs"
  shows "file_bytes V' g cs off (length data) = data"
  using assms by (intro nth_equalityI) (auto simp: wrote_file_def file_bytes_def)

end
