(* ===== verification/FatStore.thy ===== *)
theory FatStore
  imports FatPut
begin

text \<open>
  Writing a file: the rounds of \<^verbatim>\<open>rwblock\<close> of \<^verbatim>\<open>kernel/fatfs.c\<close> in mode \<^verbatim>\<open>XFR_WRITE\<close>. The chain
  of the file grows while it is written, so the clusters, the table and the data are those of the moment.
\<close>

subsection \<open>The state during a transfer to a file\<close>

text \<open>Other open instances of the file may be told of its new size and first cluster; the entry being written through is not touched.\<close>

definition same_entry :: "nat \<Rightarrow> sft list \<Rightarrow> sft list \<Rightarrow> bool" where
  "same_entry i us us' \<longleftrightarrow> length us' = length us \<and> (i < length us \<longrightarrow> us' ! i = us ! i)"

lemma same_entry_refl [simp]: "same_entry i us us"
  by (simp add: same_entry_def)

lemma same_entry_trans: "same_entry i us vs \<Longrightarrow> same_entry i vs ws \<Longrightarrow> same_entry i us ws"
  by (simp add: same_entry_def)

lemma distribute_keeps:
  "\<exists>us. distribute_changes k is s = s\<lparr>sfts := us\<rparr> \<and> same_entry (unat (f_sft_idx (fnode s k))) (sfts s) us"
proof (induction "is" arbitrary: s)
  case (Cons i "is")
  let ?s = "if same_file k i s then upd_sft i (\<lambda>sf. sf\<lparr>sft_stclust := getdstart (dpb_of k s) (dir_of k s), sft_size := dir_size (dir_of k s),
    sft_date := dir_date (dir_of k s), sft_time := dir_time (dir_of k s)\<rparr>) s else s"
  have v: "?s = s\<lparr>sfts := sfts ?s\<rparr>" "same_entry (unat (f_sft_idx (fnode s k))) (sfts s) (sfts ?s)"
    by (auto simp: upd_sft_def same_entry_def same_file_def Let_def)
  obtain us where "distribute_changes k is ?s = ?s\<lparr>sfts := us\<rparr>" "same_entry (unat (f_sft_idx (fnode ?s k))) (sfts ?s) us"
    using Cons.IH [of ?s] by blast
  moreover have "?s\<lparr>sfts := us\<rparr> = s\<lparr>sfts := us\<rparr>" "fnode ?s = fnode s" by (simp_all add: upd_sft_def)
  ultimately have "distribute_changes k (i # is) s = s\<lparr>sfts := us\<rparr>" "same_entry (unat (f_sft_idx (fnode s k))) (sfts ?s) us" by (simp_all only: distribute_changes.simps)
  then show ?case using same_entry_trans [OF v(2)] by blast
next
  case Nil
  show ?case by (intro exI [of _ "sfts s"]) simp
qed

lemma merge_keeps: "\<exists>us. merge_changes False k s = s\<lparr>sfts := us\<rparr> \<and> same_entry (unat (f_sft_idx (fnode s k))) (sfts s) us"
  using distribute_keeps [of k _ s] by (auto simp: merge_changes_def intro: exI [of _ "sfts s"])

definition writing :: "'d driver \<Rightarrow> ('d \<Rightarrow> u16 \<Rightarrow> u8 \<Rightarrow> u32 \<Rightarrow> u8 list) \<Rightarrow> (u8 \<times> u32) set \<Rightarrow> u16 set \<Rightarrow>
    (u8 \<Rightarrow> u32 \<Rightarrow> u8 list) \<Rightarrow> dpb \<Rightarrow> (u32 \<Rightarrow> u32) \<Rightarrow> u32 list \<Rightarrow> ('d, 'c) fs \<Rightarrow> u32 \<Rightarrow> u32 \<Rightarrow> ('d, 'c) fs \<Rightarrow> bool" where
  "writing drv rd M X V g E cs s0 pos sz s \<longleftrightarrow>
     (\<exists>fn t us. s = s0\<lparr>ks := t, fnode := (fnode s0)(0 := fn), sfts := us\<rparr> \<and> same_entry (unat (f_sft_idx (fnode s0 0))) (sfts s0) us \<and> fat_ok drv rd M X V (f_dpb (fnode s0 0)) g t \<and> fat_at rd X g t = E
       \<and> node_ok g E (dm_dircluster (dmat s0 0)) cs fn \<and> alike ((fnode s0 0)\<lparr>f_offset := pos, f_dir := (f_dir (fnode s0 0))\<lparr>dir_size := sz\<rparr>\<rparr>) fn)"

lemma writingE:
  assumes "writing drv rd M X V g E cs s0 pos sz s"
  obtains "fat_ok drv rd M X V (f_dpb (fnode s0 0)) g (ks s)" "fat_at rd X g (ks s) = E" "node_ok g E (dm_dircluster (dmat s0 0)) cs (fnode s 0)"
    "f_offset (fnode s 0) = pos" "dir_size (dir_of 0 s) = sz" "f_dpb (fnode s 0) = f_dpb (fnode s0 0)"
    "f_sft_idx (fnode s 0) = f_sft_idx (fnode s0 0)" "geom (dpb_of 0 s) = geom g" "dmat s = dmat s0" "same_entry (unat (f_sft_idx (fnode s0 0))) (sfts s0) (sfts s)" "share_installed s = share_installed s0"
    "f_flags (fnode s 0) = f_flags (fnode s0 0)" "shares s = shares s0"
proof -
  obtain fn t us where s: "s = s0\<lparr>ks := t, fnode := (fnode s0)(0 := fn), sfts := us\<rparr>" and u: "same_entry (unat (f_sft_idx (fnode s0 0))) (sfts s0) us" and ok: "fat_ok drv rd M X V (f_dpb (fnode s0 0)) g t" and E: "fat_at rd X g t = E"
    and r: "node_ok g E (dm_dircluster (dmat s0 0)) cs fn" and m: "alike ((fnode s0 0)\<lparr>f_offset := pos, f_dir := (f_dir (fnode s0 0))\<lparr>dir_size := sz\<rparr>\<rparr>) fn"
    using assms by (auto simp: writing_def)
  have f: "f_offset fn = pos" "dir_size (f_dir fn) = sz" "f_dpb fn = f_dpb (fnode s0 0)" "f_sft_idx fn = f_sft_idx (fnode s0 0)"
    "f_flags fn = f_flags (fnode s0 0)" using m by (simp_all add: alike_def)
  show thesis by (rule that) (use s u ok E r f fat_ok_sel(2) [OF ok] in simp_all)
qed

lemma writing_ks:
  assumes "writing drv rd M X V g E cs s0 pos sz s" "fat_ok drv rd M X V' (f_dpb (fnode s0 0)) g t" "fat_at rd X g t = E"
  shows "writing drv rd M X V' g E cs s0 pos sz (s\<lparr>ks := t\<rparr>)"
proof -
  obtain fn t0 us where "s = s0\<lparr>ks := t0, fnode := (fnode s0)(0 := fn), sfts := us\<rparr>" "same_entry (unat (f_sft_idx (fnode s0 0))) (sfts s0) us" "node_ok g E (dm_dircluster (dmat s0 0)) cs fn"
    "alike ((fnode s0 0)\<lparr>f_offset := pos, f_dir := (f_dir (fnode s0 0))\<lparr>dir_size := sz\<rparr>\<rparr>) fn" using assms(1) by (auto simp: writing_def)
  with assms(2,3) show ?thesis unfolding writing_def by (intro exI [of _ fn] exI [of _ t] exI [of _ us]) simp
qed

lemma node_size [simp]: "node_ok g E dircl cs (fn\<lparr>f_dir := (f_dir fn)\<lparr>dir_size := v\<rparr>\<rparr>) = node_ok g E dircl cs fn"
  by (simp add: node_ok_def node_at_def node_start_def getdstart_def)

lemma writing_node:
  assumes "writing drv rd M X V g E cs s0 pos sz s"
  shows "writing drv rd M X V g E cs s0 pos' sz (advance 0 pos' s)" "writing drv rd M X V g E cs s0 pos sz' (upd_dir 0 (\<lambda>e. e\<lparr>dir_size := sz'\<rparr>) s)"
proof -
  obtain fn t us where s: "s = s0\<lparr>ks := t, fnode := (fnode s0)(0 := fn), sfts := us\<rparr>" and u: "same_entry (unat (f_sft_idx (fnode s0 0))) (sfts s0) us" and ok: "fat_ok drv rd M X V (f_dpb (fnode s0 0)) g t" and E: "fat_at rd X g t = E"
    and r: "node_ok g E (dm_dircluster (dmat s0 0)) cs fn" and m: "alike ((fnode s0 0)\<lparr>f_offset := pos, f_dir := (f_dir (fnode s0 0))\<lparr>dir_size := sz\<rparr>\<rparr>) fn"
    using assms by (auto simp: writing_def)
  have "advance 0 pos' s = s0\<lparr>ks := t, fnode := (fnode s0)(0 := fn\<lparr>f_offset := pos'\<rparr>), sfts := us\<rparr>" by (simp add: s advance_def upd_fn_def)
  then show "writing drv rd M X V g E cs s0 pos' sz (advance 0 pos' s)"
    using ok E r m u unfolding writing_def by (intro exI [of _ "fn\<lparr>f_offset := pos'\<rparr>"] exI [of _ t] exI [of _ us]) (simp add: alike_def)
  have "upd_dir 0 (\<lambda>e. e\<lparr>dir_size := sz'\<rparr>) s = s0\<lparr>ks := t, fnode := (fnode s0)(0 := fn\<lparr>f_dir := (f_dir fn)\<lparr>dir_size := sz'\<rparr>\<rparr>), sfts := us\<rparr>" by (simp add: s upd_dir_def upd_fn_def)
  then show "writing drv rd M X V g E cs s0 pos sz' (upd_dir 0 (\<lambda>e. e\<lparr>dir_size := sz'\<rparr>) s)"
    using ok E r m u unfolding writing_def by (intro exI [of _ "fn\<lparr>f_dir := (f_dir fn)\<lparr>dir_size := sz'\<rparr>\<rparr>"] exI [of _ t] exI [of _ us]) (simp add: alike_def)
qed

lemma writing_merge:
  assumes "writing drv rd M X V g E cs s0 pos sz s"
  shows "writing drv rd M X V g E cs s0 pos sz (merge_changes False 0 s)"
proof -
  obtain fn t us where s: "s = s0\<lparr>ks := t, fnode := (fnode s0)(0 := fn), sfts := us\<rparr>" and u: "same_entry (unat (f_sft_idx (fnode s0 0))) (sfts s0) us"
    and ok: "fat_ok drv rd M X V (f_dpb (fnode s0 0)) g t" and E: "fat_at rd X g t = E"
    and r: "node_ok g E (dm_dircluster (dmat s0 0)) cs fn" and m: "alike ((fnode s0 0)\<lparr>f_offset := pos, f_dir := (f_dir (fnode s0 0))\<lparr>dir_size := sz\<rparr>\<rparr>) fn"
    using assms by (auto simp: writing_def)
  obtain vs where v: "merge_changes False 0 s = s\<lparr>sfts := vs\<rparr>" "same_entry (unat (f_sft_idx (fnode s 0))) (sfts s) vs" using merge_keeps by blast
  have "f_sft_idx fn = f_sft_idx (fnode s0 0)" using m by (simp add: alike_def)
  then have "same_entry (unat (f_sft_idx (fnode s0 0))) (sfts s0) vs" using same_entry_trans [OF u, of vs] v(2) by (simp add: s)
  moreover have "merge_changes False 0 s = s0\<lparr>ks := t, fnode := (fnode s0)(0 := fn), sfts := vs\<rparr>" using v(1) by (simp add: s)
  ultimately show ?thesis unfolding writing_def using ok E r m by (intro exI [of _ fn] exI [of _ t] exI [of _ vs]) simp
qed

lemma reached_at: "reached g E' cs es k SUCCESS fn \<Longrightarrow> node_ok g E' dircl (cs @ es) fn \<Longrightarrow> k < length (cs @ es) \<and> f_cluster fn = (cs @ es) ! k"
proof -
  assume r: "reached g E' cs es k SUCCESS fn" and n: "node_ok g E' dircl (cs @ es) fn"
  have k: "unat (f_cluster_offset fn) = k" "length (cs @ es) = max (length cs) (Suc k)" using r by (simp_all add: reached_def)
  then have "cs @ es \<noteq> []" by (auto simp del: length_append)
  then have "node_at (cs @ es) fn" using n unfolding node_ok_def by metis
  then show ?thesis using k by (auto simp: node_at_def simp del: length_append)
qed

definition disk_full :: "dpb \<Rightarrow> (u32 \<Rightarrow> u32) \<Rightarrow> bool" where
  "disk_full g E \<longleftrightarrow> \<not> (\<exists>c. in_fat g c \<and> E c = FREE)"

lemma writing_map:
  assumes w: "writing drv rd M X V g E cs s0 pos sz s" and c: "\<exists>c. in_fat g c"
  shows "\<exists>r s' es E'. map_node drv XFR_WRITE 0 s = Some (r, s') \<and> writing drv rd M X V g E' (cs @ es) s0 pos sz s' \<and> grown g E E' cs es
    \<and> (if r = SUCCESS then rel_cluster g pos < length (cs @ es) \<and> f_cluster (fnode s' 0) = (cs @ es) ! rel_cluster g pos else disk_full g E')"
proof -
  obtain fn t us where s: "s = s0\<lparr>ks := t, fnode := (fnode s0)(0 := fn), sfts := us\<rparr>" and u: "same_entry (unat (f_sft_idx (fnode s0 0))) (sfts s0) us" and ok: "fat_ok drv rd M X V (f_dpb (fnode s0 0)) g t" and E: "fat_at rd X g t = E"
    and nd: "node_ok g E (dm_dircluster (dmat s0 0)) cs fn" and m: "alike ((fnode s0 0)\<lparr>f_offset := pos, f_dir := (f_dir (fnode s0 0))\<lparr>dir_size := sz\<rparr>\<rparr>) fn"
    using w by (auto simp: writing_def)
  have f: "f_offset fn = pos" "f_dpb fn = f_dpb (fnode s0 0)" using m by (simp_all add: alike_def)
  have "fat_ok drv rd M X V (f_dpb fn) g t" "node_ok g (fat_at rd X g t) (dm_dircluster (dmat s0 0)) cs fn" "XFR_WRITE \<noteq> XFR_READ"
    using ok nd f E by (simp_all add: XFR_READ_def XFR_WRITE_def)
  from map_write_ok [OF this c] f E obtain r fn' t' es where m': "map_cluster drv (dm_dircluster (dmat s0 0)) XFR_WRITE fn t = Some (r, fn', t')"
    "fat_ok drv rd M X V (f_dpb (fnode s0 0)) g t'" "node_ok g (fat_at rd X g t') (dm_dircluster (dmat s0 0)) (cs @ es) fn'" "grown g E (fat_at rd X g t') cs es"
    "reached g (fat_at rd X g t') cs es (rel_cluster g pos) r fn'" "alike fn fn'" by auto
  let ?s = "s0\<lparr>ks := t', fnode := (fnode s0)(0 := fn'), sfts := us\<rparr>"
  have "map_node drv XFR_WRITE 0 s = Some (r, ?s)" using m'(1) by (simp add: map_node_def s upd_fn_def)
  moreover have "writing drv rd M X V g (fat_at rd X g t') (cs @ es) s0 pos sz ?s"
    unfolding writing_def using m'(2,3) u alike_trans [OF m m'(6)] by (intro exI [of _ fn'] exI [of _ t'] exI [of _ us]) simp
  moreover have "if r = SUCCESS then rel_cluster g pos < length (cs @ es) \<and> f_cluster (fnode ?s 0) = (cs @ es) ! rel_cluster g pos else disk_full g (fat_at rd X g t')"
    using m'(5) reached_at [OF _ m'(3)] by (auto simp: reached_def disk_full_def)
  ultimately show ?thesis using m'(4) by blast
qed

lemma writing_chain:
  assumes w: "writing drv rd M X V g E cs s0 pos sz s" and ne: "cs \<noteq> []"
  shows "distinct cs" "set cs \<subseteq> {2..max_cluster g}" "\<exists>c. cchain {2..max_cluster g} E c cs"
proof -
  have ok: "fat_ok drv rd M X V (f_dpb (fnode s0 0)) g (ks s)" and nd: "node_ok g E (dm_dircluster (dmat s0 0)) cs (fnode s 0)" using w by (auto elim: writingE)
  note ch = node_chain [OF nd ne]
  show "distinct cs" "set cs \<subseteq> {2..max_cluster g}" "\<exists>c. cchain {2..max_cluster g} E c cs"
    using cchain_distinct [OF ft.last_outside [OF ok] ch] cchain_set [OF ch] ch by auto
qed

lemma writing_block:
  assumes g: "data_geom M g" and r: "writing drv rd M X V g E cs s0 off sz s" and j: "j div spc g < length cs"
  shows "file_block g cs j \<noteq> 0" "(dpb_unit g, file_block g cs j) \<notin> M" "(dpb_unit g, file_block g cs j) \<notin> fat_area g" "length (V (dpb_unit g) (file_block g cs j)) = 512"
proof -
  have ok: "fat_ok drv rd M X V (f_dpb (fnode s0 0)) g (ks s)" using r by (auto elim: writingE)
  have "cs \<noteq> []" using j by fastforce
  then obtain c where "cchain {2..max_cluster g} E c cs" using writing_chain(3) [OF r] by blast
  note b = file_block_data [OF g this j]
  show "file_block g cs j \<noteq> 0" "(dpb_unit g, file_block g cs j) \<notin> M" "(dpb_unit g, file_block g cs j) \<notin> fat_area g" using b by simp_all
  then show "length (V (dpb_unit g) (file_block g cs j)) = 512" by (intro block_length [OF ok])
qed

text \<open>A chain that grows keeps its blocks.\<close>

lemma file_block_append: "j div spc g < length cs \<Longrightarrow> file_block g (cs @ es) j = file_block g cs j"
  by (simp add: file_block_def nth_append)

lemma wrote_append:
  assumes f: "data_fits g" and cs: "distinct (cs @ es)" "set (cs @ es) \<subseteq> {2..max_cluster g}" and w: "wrote_file g cs off data V V'"
    and cov: "covers g cs (off + length data)"
  shows "wrote_file g (cs @ es) off data V V'"
proof -
  have blk: "file_block g (cs @ es) j = file_block g cs j" if "j div spc g < length cs" for j using file_block_append [OF that] .
  have "file_byte V' g (cs @ es) i = (if off \<le> i \<and> i < off + length data then data ! (i - off) else file_byte V g (cs @ es) i)"
    if i: "i < 512 * spc g * length (cs @ es)" for i
  proof (cases "i < 512 * spc g * length cs")
    case True
    then show ?thesis using w blk [OF sector_of_byte [OF True]] unfolding wrote_file_def by (simp add: file_byte_def)
  next
    case False
    have o: "\<not> (off \<le> i \<and> i < off + length data)" using False cov unfolding covers_def by linarith
    have "file_block g (cs @ es) (i div 512) \<noteq> file_block g cs j" if j: "j div spc g < length cs" for j
    proof
      assume "file_block g (cs @ es) (i div 512) = file_block g cs j"
      then have "i div 512 = j" using file_block_inj [OF f cs sector_of_byte [OF i], of j] j blk [OF j] by simp
      then have "i div (512 * spc g) < length cs" using j by (simp add: div_mult2_eq)
      then have "i < 512 * spc g * length cs" by (simp add: div_less_iff_less_mult mult.commute)
      then show False using False by simp
    qed
    then have "V' (dpb_unit g) (file_block g (cs @ es) (i div 512)) = V (dpb_unit g) (file_block g (cs @ es) (i div 512))" using w unfolding wrote_file_def by blast
    then show ?thesis using o by (auto simp: file_byte_def)
  qed
  moreover have "V' u b = V u b" if o: "u \<noteq> dpb_unit g \<or> b \<notin> file_block g (cs @ es) ` {j. j div spc g < length (cs @ es)}" for u b
  proof -
    have "u \<noteq> dpb_unit g \<or> b \<notin> file_block g cs ` {j. j div spc g < length cs}"
    proof (rule ccontr)
      assume "\<not> ?thesis"
      then obtain j where "u = dpb_unit g" "j div spc g < length cs" "b = file_block g cs j" by blast
      then have "j div spc g < length (cs @ es)" "b = file_block g (cs @ es) j" using blk [of j] by auto
      then show False using o \<open>u = dpb_unit g\<close> by blast
    qed
    then show ?thesis using w unfolding wrote_file_def by blast
  qed
  ultimately show ?thesis unfolding wrote_file_def by blast
qed

subsection \<open>Clusters that lie behind each other\<close>

definition held :: "dpb \<Rightarrow> u32 list \<Rightarrow> nat \<Rightarrow> nat \<Rightarrow> bool" where
  "held g cs j n \<longleftrightarrow> (\<forall>i<n. (j + i) div spc g < length cs)"

lemma gathered_append: "gathered g cs b j wanted n \<Longrightarrow> held g cs j (unat n) \<Longrightarrow> gathered g (cs @ es) b j wanted n \<and> held g (cs @ es) j (unat n)"
  by (auto simp: gathered_def held_def file_block_append trans_less_add1)

lemma held_more:
  assumes "held g cs j n" "(j + n) mod spc g = 0" "(j + n) div spc g < length cs" "n' \<le> n + spc g"
  shows "held g cs j n'"
  unfolding held_def
proof (intro allI impI)
  fix i assume i: "i < n'"
  show "(j + i) div spc g < length cs"
  proof (cases "i < n")
    case False
    obtain q where q: "j + n = q * spc g" using assms(2) by (metis mod_0_imp_dvd dvd_div_mult_self)
    then have "j + i = q * spc g + (i - n)" "i - n < spc g" using False i assms(4) by auto
    then have "(j + i) div spc g = q" by simp
    then show ?thesis using assms(3) q by simp
  qed (use assms(1) in \<open>simp add: held_def\<close>)
qed

lemma held_first:
  assumes "n \<le> spc g - j mod spc g" "j div spc g < length cs"
  shows "held g cs j n"
  unfolding held_def
proof (intro allI impI)
  fix i assume "i < n"
  then have "j mod spc g + i < spc g" using assms(1) by simp
  moreover have "j + i = j div spc g * spc g + (j mod spc g + i)" by simp
  ultimately have "(j + i) div spc g = j div spc g" by (metis div_mult_self3 div_less add_0_right add.commute spc_pos less_not_refl2)
  then show "(j + i) div spc g < length cs" using assms(2) by simp
qed

lemma writing_distinct: "writing drv rd M X V g E cs s0 pos sz s \<Longrightarrow> distinct cs"
  using writing_chain(1) by (cases "cs = []") auto

lemma gather_writes:
  assumes g: "data_geom M g" "dpb_secsize g = 512" and c: "\<exists>c. in_fat g c" and r: "writing drv rd M X V g E cs s0 (off + ucast (n0 * 512)) sz s"
    and n0: "gathered g cs b j wanted n0" "held g cs j (unat n0)" "unat n0 < unat wanted \<longrightarrow> (j + unat n0) mod spc g = 0"
    and w: "unat wanted \<le> 127" "unat off = 512 * j" "512 * (j + unat wanted) < 4294967296"
  shows "\<exists>n s' es E'. loopM (gather_body drv XFR_WRITE b 512 off wanted) (n0, s) = Some (n, s') \<and> gathered g (cs @ es) b j wanted n
    \<and> held g (cs @ es) j (unat n) \<and> writing drv rd M X V g E' (cs @ es) s0 (off + ucast (n * 512)) sz s' \<and> grown g E E' cs es"
proof -
  let ?I = "\<lambda>n s. \<exists>es E'. gathered g (cs @ es) b j wanted n \<and> held g (cs @ es) j (unat n)
    \<and> writing drv rd M X V g E' (cs @ es) s0 (off + ucast (n * 512)) sz s \<and> grown g E E' cs es"
  define J where "J v m \<longleftrightarrow> (case v of (n, s) \<Rightarrow> ?I n s \<and> (unat n < unat wanted \<longrightarrow> (j + unat n) mod spc g = 0) \<and> unat wanted - unat n = m)"
    for v :: "u16 \<times> ('a, 'b) fs" and m
  have "grown g E E cs []" by (simp add: grown_def)
  then have "?I n0 s" using r n0 by (intro exI [of _ "[]"] exI [of _ E]) simp
  then have J0: "J (n0, s) (unat wanted - unat n0)" using n0 by (simp add: J_def)
  have "\<exists>x. loopM (gather_body drv XFR_WRITE b 512 off wanted) (n0, s) = Some x \<and> (case x of (n, s') \<Rightarrow> ?I n s')"
  proof (rule loopM_ghost [of J, OF J0])
    fix v m assume J: "J v m"
    obtain n s where v: "v = (n, s)" by (cases v)
    obtain es E1 where s: "writing drv rd M X V g E1 (cs @ es) s0 (off + ucast (n * 512)) sz s" "gathered g (cs @ es) b j wanted n" "held g (cs @ es) j (unat n)"
      "unat n < unat wanted \<Longrightarrow> (j + unat n) mod spc g = 0" "unat wanted - unat n = m" "grown g E E1 cs es" using J by (auto simp: J_def v)
    show "\<exists>x. gather_body drv XFR_WRITE b 512 off wanted v = Some x \<and> (case x of Inl r \<Rightarrow> (case r of (n, s') \<Rightarrow> ?I n s') | Inr s' \<Rightarrow> \<exists>n'<m. J s' n')"
    proof (cases "unat n < unat wanted")
      case False
      have "gather_body drv XFR_WRITE b 512 off wanted v = Some (Inl (n, s))" using False by (simp add: gather_body_def v word_less_nat_alt)
      moreover have "?I n s" using s by blast
      ultimately show ?thesis by simp
    next
      case True
      have pos: "unat (off + ucast (n * 512)) = 512 * (j + unat n)" using unat_offset [of n off j] True w by simp
      then have k: "rel_cluster g (off + ucast (n * 512)) = (j + unat n) div spc g" using g(2) by (simp add: rel_sector)
      obtain r s1 fs E2 where s1: "map_node drv XFR_WRITE 0 s = Some (r, s1)"
        "writing drv rd M X V g E2 ((cs @ es) @ fs) s0 (off + ucast (n * 512)) sz s1" "grown g E1 E2 (cs @ es) fs"
        "if r = SUCCESS then (j + unat n) div spc g < length ((cs @ es) @ fs) \<and> f_cluster (fnode s1 0) = ((cs @ es) @ fs) ! ((j + unat n) div spc g) else disk_full g E2"
        using writing_map [OF s(1) c] unfolding k by blast
      let ?cs = "cs @ es @ fs"
      have w1: "writing drv rd M X V g E2 ?cs s0 (off + ucast (n * 512)) sz s1" using s1(2) by simp
      have gr: "grown g E E2 cs (es @ fs)" using grown_trans [OF s(6) s1(3)] writing_distinct [OF w1] by simp
      have gt: "gathered g ?cs b j wanted n" "held g ?cs j (unat n)" using gathered_append [OF s(2,3), of fs] by simp_all
      have stay: "?I n s1" using gt w1 gr by blast
      have d1: "geom (dpb_of 0 s1) = geom g" using w1 by (auto elim: writingE)
      note gd = geom_data [OF d1]
      have n: "n < wanted" using True by (simp add: word_less_nat_alt)
      show ?thesis
      proof (cases "r = SUCCESS \<and> clus2phys (f_cluster (fnode s1 0)) (dpb_of 0 s1) = b + ucast n")
        case False
        then have "gather_body drv XFR_WRITE b 512 off wanted v = Some (Inl (n, s1))" using s1(1) n by (auto simp: gather_body_def v)
        then show ?thesis using stay by simp
      next
        case run: True
        let ?n = "min (n + (ucast (dpb_clsmask (dpb_of 0 s1)) + 1)) wanted"
        have cl: "(j + unat n) div spc g < length ?cs" "f_cluster (fnode s1 0) = ?cs ! ((j + unat n) div spc g)" using s1(4) run by simp_all
        have b: "clus2phys (?cs ! ((j + unat n) div spc g)) g = b + ucast n" using run gd(2) cl(2) by simp
        note more = gathered_more [OF gt(1) True s(4) [OF True] w(1) g(1) gd(1) b]
        have un: "unat ?n \<le> unat n + spc g" unfolding unat_more [OF g(1) gd(1) True w(1)] by simp
        have h: "held g ?cs j (unat ?n)" using held_more [OF gt(2) s(4) [OF True] cl(1) un] .
        have body: "gather_body drv XFR_WRITE b 512 off wanted v = Some (Inr (?n, advance 0 (off + ucast (?n * 512)) s1))"
          using s1(1) n run by (simp add: gather_body_def v Let_def)
        have "?I ?n (advance 0 (off + ucast (?n * 512)) s1)" using more h writing_node(1) [OF w1] gr by blast
        then have "J (?n, advance 0 (off + ucast (?n * 512)) s1) (unat wanted - unat ?n)" using more by (simp add: J_def)
        moreover have "unat wanted - unat ?n < m" using more s(5) True by linarith
        ultimately show ?thesis using body by auto
      qed
    qed
  qed
  then show ?thesis by auto
qed

subsection \<open>Transfers\<close>

lemma held_covers: "0 < n \<Longrightarrow> held g cs j n \<Longrightarrow> covers g cs (512 * (j + n))"
proof -
  assume n: "0 < n" and h: "held g cs j n"
  then have "(j + (n - 1)) div spc g < length cs" unfolding held_def by (metis diff_less zero_less_one)
  then have "j + (n - 1) < length cs * spc g" by (simp add: div_less_iff_less_mult)
  then have "j + n \<le> length cs * spc g" using n by linarith
  then show ?thesis by (simp add: covers_def mult.commute mult.left_commute)
qed

text \<open>
  One transfer: \<open>n\<close> bytes of the buffer from \<open>pos\<close> on have been written at the position of the node, which is
  now behind them, and the chain has grown as far as needed for them.
\<close>

definition put_result where
  "put_result drv rd M X V g E cs s0 off sz data s' \<longleftrightarrow> (\<exists>V' es E'. writing drv rd M X V' g E' (cs @ es) s0 (off + of_nat (length data)) sz s'
     \<and> grown g E E' cs es \<and> wrote_file g (cs @ es) (unat off) data V V' \<and> covers g (cs @ es) (unat off + length data))"

lemma direct_writes:
  assumes g: "data_geom M g" "dpb_secsize g = 512" "data_fits g" and r: "writing drv rd M X V g E cs s0 off sz s" and j: "j div spc g < length cs"
    and sec: "unat secno = j mod spc g" and w: "0 < unat wanted" "unat wanted \<le> 127" "unat off = 512 * j" "512 * (j + unat wanted) < 4294967296"
    and buf: "pos + 512 * unat wanted \<le> length buf"
  shows "\<exists>n s'. direct_xfer drv high XFR_WRITE (file_block g cs j) secno wanted pos buf s = Some (Some (n * 512), buf, s')
    \<and> 0 < unat (n * 512) \<and> unat (n * 512) \<le> 512 * unat wanted \<and> put_result drv rd M X V g E cs s0 off sz (take (unat (n * 512)) (drop pos buf)) s'"
proof -
  have d: "geom (dpb_of 0 s) = geom g" and off: "f_offset (fnode s 0) = off" using r by (auto elim: writingE)
  note gd = geom_data [OF d]
  have ne: "cs \<noteq> []" using j by fastforce
  then have "hd cs \<in> {2..max_cluster g}" using writing_chain(2) [OF r] hd_in_set by blast
  then have c: "\<exists>c. in_fat g c" by (auto simp: in_fat_iff)
  let ?b = "file_block g cs j" and ?u = "dpb_unit g"
  let ?n0 = "min (ucast (dpb_clsmask (dpb_of 0 s)) + 1 - secno) wanted"
  note f = gathered_first [OF g(1) gd(1) sec w(1,2), of cs]
  have un: "unat ?n0 \<le> spc g - j mod spc g" unfolding unat_first [OF g(1) gd(1) sec] by simp
  obtain n s1 es E1 where n: "loopM (gather_body drv XFR_WRITE ?b 512 off wanted) (?n0, advance 0 (off + ucast (?n0 * 512)) s) = Some (n, s1)"
    "gathered g (cs @ es) ?b j wanted n" "held g (cs @ es) j (unat n)" "writing drv rd M X V g E1 (cs @ es) s0 (off + ucast (n * 512)) sz s1" "grown g E E1 cs es"
    using gather_writes [OF g(1,2) c writing_node(1) [OF r, of "off + ucast (?n0 * 512)"] f [THEN conjunct1] held_first [OF un j] f [THEN conjunct2] w(2-4)] by blast
  have n1: "0 < unat n" "unat n \<le> unat wanted" "\<And>i. i < unat n \<Longrightarrow> ?b + of_nat i = file_block g (cs @ es) (j + i)" using n(2) by (auto simp: gathered_def)
  have n512: "unat (n * 512) = 512 * unat n" using unat_times512 n1(2) w(2) by simp
  have ok1: "fat_ok drv rd M X V (f_dpb (fnode s0 0)) g (ks s1)" and E1: "fat_at rd X g (ks s1) = E1" and d1: "geom (dpb_of 0 s1) = geom g"
    using n(4) by (auto elim: writingE)
  have jn: "(j + i) div spc g < length (cs @ es)" if "i < unat n" for i using n(3) that by (simp add: held_def)
  have dat: "?b + of_nat i \<noteq> 0 \<and> (?u, ?b + of_nat i) \<notin> M \<and> (?u, ?b + of_nat i) \<notin> fat_area g" if "i < unat n" for i
    unfolding n1(3) [OF that] using writing_block [OF g(1) n(4) jn [OF that]] by blast
  let ?area = "take (unat (n * 512)) (drop pos buf)"
  have len: "length ?area = 512 * unat n" using n512 n1(2) buf by simp
  obtain t1 t2 where t: "DeleteBlockInBufferCache drv ?b (?b + ucast n - 1) ?u XFR_WRITE (ks s1) = Some (False, t1)"
    "dskxfer drv ?u ?b (high pos) ?area n DSKWRITE t1 = Some (0, ?area, t2)"
    "fat_ok drv rd M X (put_run V ?u ?b (unat n) ?area) (f_dpb (fnode s0 0)) g t2" "fat_at rd X g t2 = E1"
    using direct_write_ok [OF ok1 n1(1) len, of ?b "high pos"] dat E1 by blast
  have rw: "XFR_WRITE \<noteq> XFR_READ" by (simp add: XFR_READ_def XFR_WRITE_def)
  have x: "direct_xfer drv high XFR_WRITE ?b secno wanted pos buf s = Some (Some (n * 512), buf, s1\<lparr>ks := t2\<rparr>)"
    unfolding direct_xfer_def Let_def gd(4) g(2) off n(1) using t(1,2) geom_data(3) [OF d1] rw by simp
  have ne': "cs @ es \<noteq> []" using ne by simp
  have n32: "unat n \<le> 4294967296" using n1(2) w(2) by simp
  have "wrote_file g (cs @ es) (512 * j) ?area V (put_run V ?u ?b (unat n) ?area)"
    by (rule wrote_run [OF g(3) writing_chain(1,2) [OF n(4) ne'] _ n32 len]) (use n1(3) jn in blast)
  moreover have "covers g (cs @ es) (unat off + length ?area)" using held_covers [OF n1(1) n(3)] w(3) len by (simp add: distrib_left)
  moreover have "(ucast (n * 512) :: u32) = of_nat (length ?area)" using len n512 by (metis of_nat_unat)
  then have "writing drv rd M X (put_run V ?u ?b (unat n) ?area) g E1 (cs @ es) s0 (off + of_nat (length ?area)) sz (s1\<lparr>ks := t2\<rparr>)"
    using writing_ks [OF n(4) t(3,4)] by simp
  ultimately have "put_result drv rd M X V g E cs s0 off sz ?area (s1\<lparr>ks := t2\<rparr>)" using n(5) w(3) unfolding put_result_def by metis
  then show ?thesis using x n1(1,2) n512 by (intro exI [of _ n] exI [of _ "s1\<lparr>ks := t2\<rparr>"]) simp
qed

lemma sector_end: "off mod 512 + n \<le> 512 \<Longrightarrow> off + n \<le> 512 * (off div 512 + 1)" for off n :: nat
proof -
  assume "off mod 512 + n \<le> 512"
  then have "512 * (off div 512) + (off mod 512 + n) \<le> 512 * (off div 512) + 512" by (rule add_left_mono)
  moreover have "off + n = 512 * (off div 512) + (off mod 512 + n)" by simp
  ultimately show ?thesis by (simp only: distrib_left)
qed

lemma cached_writes:
  assumes g: "data_geom M g" "dpb_secsize g = 512" "data_fits g" and r: "writing drv rd M X V g E cs s0 off sz s" and j: "unat off div 512 div spc g < length cs"
    and bo: "unat bo = unat off mod 512" and tx: "0 < unat to_xfer" and buf: "pos + unat to_xfer \<le> length buf"
  shows "\<exists>n s'. cached_xfer drv XFR_WRITE (file_block g cs (unat off div 512)) bo to_xfer pos buf s = Some (Some n, buf, s')
    \<and> 0 < unat n \<and> unat n \<le> unat to_xfer \<and> put_result drv rd M X V g E cs s0 off sz (take (unat n) (drop pos buf)) s'"
proof -
  let ?j = "unat off div 512" and ?u = "dpb_unit g"
  let ?b = "file_block g cs (unat off div 512)"
  have ok: "fat_ok drv rd M X V (f_dpb (fnode s0 0)) g (ks s)" and E: "fat_at rd X g (ks s) = E" and d: "geom (dpb_of 0 s) = geom g"
    and off: "f_offset (fnode s 0) = off" using r by (auto elim: writingE)
  note gd = geom_data [OF d] and b = writing_block [OF g(1) r j]
  obtain p t where p: "getblock drv ?b ?u (ks s) = Some (Some p, t)" "fat_ok drv rd M X V (f_dpb (fnode s0 0)) g t"
    "fat_at rd X g t = E" "p \<in> X" "is_block ?b ?u (bufs t p)" "b_buffer (bufs t p) = V ?u ?b" using fat_getblk [OF ok b(2,3)] E by auto
  define n where "n = min to_xfer (512 - bo)"
  have b512: "unat bo < 512" using bo by simp
  then have "unat (512 - bo) = 512 - unat bo" by (subst unat_sub) (simp_all add: word_le_nat_alt)
  then have n: "unat n = min (unat to_xfer) (512 - unat bo)" by (simp add: n_def min_def word_le_nat_alt)
  let ?d = "take (unat n) (drop pos buf)"
  have ld: "length ?d = unat n" using n buf by simp
  let ?h = "overlay (unat bo) ?d"
  let ?f = "\<lambda>b. b\<lparr>b_buffer := ?h (b_buffer b), b_flag := b_flag b OR (BFR_DIRTY OR BFR_VALID)\<rparr>"
  have fit: "unat bo + unat n \<le> 512" using n b512 by linarith
  then have lh: "length (?h (b_buffer (bufs t p))) = 512" using p(6) b(4) ld by simp
  let ?V = "put_run V ?u ?b 1 (?h (V ?u ?b))"
  have k1: "fat_ok drv rd M X ?V (f_dpb (fnode s0 0)) g (upd_buf p ?f t)" "fat_at rd X g (upd_buf p ?f t) = E"
    using block_write_ok [OF p(2,4,5) b(3), of ?f ?h] lh p(3,6) by simp_all
  obtain t2 where t2: "t2 = (if n = 512 then upd_buf p (\<lambda>b. b\<lparr>b_flag := b_flag b OR BFR_UNCACHE\<rparr>) (upd_buf p ?f t) else upd_buf p ?f t)" by blast
  have "fat_ok drv rd M X ?V (f_dpb (fnode s0 0)) g t2" "fat_at rd X g t2 = E" using k1 fat_uncache [OF k1(1), of p] unfolding t2 by auto
  note w2 = writing_node(1) [OF writing_ks [OF r this], of "off + ucast n"]
  have rw: "XFR_WRITE \<noteq> XFR_READ" by (simp add: XFR_READ_def XFR_WRITE_def)
  have x: "cached_xfer drv XFR_WRITE ?b bo to_xfer pos buf s = Some (Some n, buf, advance 0 (off + ucast n) (s\<lparr>ks := t2\<rparr>))"
    unfolding cached_xfer_def gd(3) p(1) using rw by (simp add: Let_def gd(4) g(2) off n_def [symmetric] t2)
  have ne: "cs \<noteq> []" using j by fastforce
  have fd: "unat off mod 512 + length ?d \<le> 512" using fit ld bo by simp
  have wf: "wrote_file g cs (unat off) ?d V ?V" using wrote_sector [where V = V, OF g(3) writing_chain(1,2) [OF r ne] j fd b(4)] bo by simp
  have "(ucast n :: u32) = of_nat (length ?d)" using ld by (metis of_nat_unat)
  then have wr: "writing drv rd M X ?V g E cs s0 (off + of_nat (length ?d)) sz (advance 0 (off + ucast n) (s\<lparr>ks := t2\<rparr>))" using w2 by simp
  have "held g cs ?j 1" using j by (simp add: held_def)
  then have "covers g cs (512 * (?j + 1))" by (intro held_covers) simp_all
  moreover have "unat off + length ?d \<le> 512 * (?j + 1)" using sector_end [OF fd] .
  ultimately have "covers g cs (unat off + length ?d)" by (auto simp: covers_def)
  moreover have "grown g E E cs []" by (simp add: grown_def)
  ultimately have "put_result drv rd M X V g E cs s0 off sz ?d (advance 0 (off + ucast n) (s\<lparr>ks := t2\<rparr>))"
    unfolding put_result_def using wr wf by (intro exI [of _ ?V] exI [of _ "[]"] exI [of _ E]) simp
  then show ?thesis using x n tx b512 by (intro exI [of _ n] exI [of _ "advance 0 (off + ucast n) (s\<lparr>ks := t2\<rparr>)"]) auto
qed

end
