(* ===== verification/FatSave.thy ===== *)
theory FatSave
  imports FatStore
begin

text \<open>
  Writing through an entry of the system file table: the bytes are in the file afterwards, the rest of the disk
  is as before.
\<close>

subsection \<open>One round\<close>

lemma xfer_round_writes:
  assumes g: "data_geom M g" "dpb_secsize g = 512" "data_fits g" and r: "writing drv rd M X V g E cs s0 off sz s"
    and cl: "rel_cluster g off < length cs" "f_cluster (fnode s 0) = cs ! rel_cluster g off"
    and tx: "0 < unat to_xfer" "unat off + unat to_xfer < 4294967296" and buf: "unat ret_cnt + unat to_xfer \<le> length buf"
  shows "\<exists>n s'. xfer_round drv high XFR_WRITE ret_cnt to_xfer buf s = Some (Inr n, buf, s')
    \<and> 0 < unat n \<and> unat n \<le> unat to_xfer \<and> put_result drv rd M X V g E cs s0 off sz (take (unat n) (drop (unat ret_cnt) buf)) s'"
proof -
  let ?j = "unat off div 512"
  have d: "geom (dpb_of 0 s) = geom g" and off: "f_offset (fnode s 0) = off" using r by (auto elim: writingE)
  note gd = geom_data [OF d]
  have j: "?j div spc g < length cs" using cl(1) g(2) by (simp add: rel_sector)
  define secno where "secno = (ucast ((ucast (off div 512) :: u8) AND dpb_clsmask (dpb_of 0 s)) :: u16)"
  define bo where "bo = (ucast (off mod 512) :: u16)"
  define wanted where "wanted = to_xfer div 512"
  have secno: "unat secno = ?j mod spc g" unfolding secno_def using sector_in_cluster [OF g(1) gd(1), of off] by simp
  have bo: "unat bo = unat off mod 512" by (simp add: bo_def unsigned_ucast_eq take_bit_eq_mod unat_mod)
  have wanted: "unat wanted = unat to_xfer div 512" by (simp add: wanted_def unat_div)
  have "(ucast secno :: u32) = of_nat (unat secno)" by (simp add: word_unat_eq_iff unat_of_nat less_trans [OF unat_lt16])
  then have blk: "clus2phys (f_cluster (fnode s 0)) (dpb_of 0 s) + ucast secno = file_block g cs ?j"
    using cl(2) gd(2) secno g(2) by (simp add: file_block_def rel_sector)
  have rw: "XFR_WRITE \<noteq> XFR_READ" by (simp add: XFR_READ_def XFR_WRITE_def)
  have round: "xfer_round drv high XFR_WRITE ret_cnt to_xfer buf s = (if bo = 0 \<and> wanted \<noteq> 0 then do {
           (r, buf1, s1) \<leftarrow> direct_xfer drv high XFR_WRITE (file_block g cs ?j) secno wanted (unat ret_cnt) buf s;
           Some (case r of None \<Rightarrow> Inl DE_ACCESS | Some n \<Rightarrow> Inr n, buf1, s1)
         } else do {
           (r, buf1, s1) \<leftarrow> cached_xfer drv XFR_WRITE (file_block g cs ?j) bo to_xfer (unat ret_cnt) buf s;
           case r of
             None \<Rightarrow> do { s2 \<leftarrow> fnode_to_sft 0 s1; Some (Inl (int (unat ret_cnt)), buf1, s2) }
           | Some n \<Rightarrow> Some (Inr n, buf1, s1)
         })"
    unfolding xfer_round_def Let_def off gd(4) g(2) using blk rw by (simp add: secno_def bo_def wanted_def)
  show ?thesis
  proof (cases "bo = 0 \<and> wanted \<noteq> 0")
    case True
    then have "unat off mod 512 = 0" using bo by simp
    then have o: "unat off = 512 * ?j" by (metis mult_div_mod_eq add_0_right)
    have w0: "0 < unat wanted" using True by (simp add: unat_gt_0)
    have w: "512 * unat wanted \<le> unat to_xfer" unfolding wanted by (rule times_div_less_eq_dividend)
    have w127: "unat wanted \<le> 127" using w unat_lt16 [of to_xfer] by linarith
    have e: "512 * (?j + unat wanted) < 4294967296" unfolding distrib_left using w o tx(2) by linarith
    have b: "unat ret_cnt + 512 * unat wanted \<le> length buf" using w buf by linarith
    obtain n s' where n: "direct_xfer drv high XFR_WRITE (file_block g cs ?j) secno wanted (unat ret_cnt) buf s = Some (Some (n * 512), buf, s')"
      "0 < unat (n * 512)" "unat (n * 512) \<le> 512 * unat wanted"
      "put_result drv rd M X V g E cs s0 off sz (take (unat (n * 512)) (drop (unat ret_cnt) buf)) s'"
      using direct_writes [OF g r j secno w0 w127 o e b] by blast
    then show ?thesis using True w by (intro exI [of _ "n * 512"] exI [of _ s']) (simp add: round)
  next
    case False
    then show ?thesis using cached_writes [OF g r j bo tx(1) buf] by (auto simp: round)
  qed
qed

text \<open>What the loop of \<^verbatim>\<open>rwblock\<close> keeps when writing.\<close>

definition wrote_so_far :: "'d driver \<Rightarrow> ('d \<Rightarrow> u16 \<Rightarrow> u8 \<Rightarrow> u32 \<Rightarrow> u8 list) \<Rightarrow> (u8 \<times> u32) set \<Rightarrow> u16 set \<Rightarrow>
    (u8 \<Rightarrow> u32 \<Rightarrow> u8 list) \<Rightarrow> dpb \<Rightarrow> (u32 \<Rightarrow> u32) \<Rightarrow> u32 list \<Rightarrow> ('d, 'c) fs \<Rightarrow> u8 list \<Rightarrow> nat \<Rightarrow> ('d, 'c) fs \<Rightarrow> bool" where
  "wrote_so_far drv rd M X V g E cs s0 buf m s \<longleftrightarrow> (\<exists>V' es E'. let off = unat (f_offset (fnode s0 0)); sz = unat (dir_size (f_dir (fnode s0 0))) in
     writing drv rd M X V' g E' (cs @ es) s0 (of_nat (off + m)) (of_nat (max sz (off + m))) s \<and> grown g E E' cs es
     \<and> wrote_file g (cs @ es) off (take m buf) V V' \<and> covers g (cs @ es) (max sz (off + m)))"

lemma unat_of_nat32: "n < 4294967296 \<Longrightarrow> unat (of_nat n :: u32) = n"
  by (simp add: unat_of_nat)

lemma write_step:
  assumes g: "data_geom M g" "dpb_secsize g = 512" "data_fits g" "\<exists>c. in_fat g c"
    and len: "unat count \<le> length buf" "unat (f_offset (fnode s0 0)) + unat count < 4294967296"
    and J: "wrote_so_far drv rd M X V g E cs s0 buf (unat ret_cnt) s" "unat ret_cnt + unat to_xfer = unat count" and more: "ret_cnt < count"
  shows "(\<exists>n s'. rw_body drv high XFR_WRITE count (ret_cnt, to_xfer, buf, s) = Some (Inr (ret_cnt + n, to_xfer - n, buf, s')) \<and> 0 < unat n
      \<and> unat n \<le> unat to_xfer \<and> wrote_so_far drv rd M X V g E cs s0 buf (unat ret_cnt + unat n) s')
    \<or> (\<exists>s1. rw_body drv high XFR_WRITE count (ret_cnt, to_xfer, buf, s) = do { s2 \<leftarrow> fnode_to_sft 0 s1; Some (Inl (int (unat ret_cnt), buf, s2)) }
      \<and> wrote_so_far drv rd M X V g E cs s0 buf (unat ret_cnt) s1 \<and> disk_full g (fat_at rd X g (ks s1)))"
proof -
  let ?o = "unat (f_offset (fnode s0 0))" and ?z = "unat (dir_size (f_dir (fnode s0 0)))" and ?m = "unat ret_cnt"
  let ?off = "of_nat (?o + ?m) :: u32" and ?sz = "of_nat (max ?z (?o + ?m)) :: u32"
  obtain V1 es E1 where w: "writing drv rd M X V1 g E1 (cs @ es) s0 ?off ?sz s" "grown g E E1 cs es"
    "wrote_file g (cs @ es) ?o (take ?m buf) V V1" "covers g (cs @ es) (max ?z (?o + ?m))"
    using J(1) unfolding wrote_so_far_def Let_def by blast
  have lim: "?o + ?m + unat to_xfer < 4294967296" using J(2) len(2) by linarith
  then have uo: "unat ?off = ?o + ?m" by (intro unat_of_nat32) simp
  have z: "?z < 4294967296" using unsigned_less [of "dir_size (f_dir (fnode s0 0))", where 'a = nat] by simp
  have us: "unat ?sz = max ?z (?o + ?m)" using z lim by (intro unat_of_nat32) simp
  have tx: "0 < unat to_xfer" using more J(2) by (simp add: word_less_nat_alt)
  have rw: "XFR_WRITE \<noteq> XFR_READ" by (simp add: XFR_READ_def XFR_WRITE_def)
  obtain r s1 fs E2 where s1: "map_node drv XFR_WRITE 0 s = Some (r, s1)"
    "writing drv rd M X V1 g E2 ((cs @ es) @ fs) s0 ?off ?sz s1" "grown g E1 E2 (cs @ es) fs"
    "if r = SUCCESS then rel_cluster g ?off < length ((cs @ es) @ fs) \<and> f_cluster (fnode s1 0) = ((cs @ es) @ fs) ! rel_cluster g ?off else disk_full g E2"
    using writing_map [OF w(1) g(4)] by blast
  let ?cs = "(cs @ es) @ fs"
  have gr: "grown g E E2 cs (es @ fs)" using grown_trans [OF w(2) s1(3)] writing_distinct [OF s1(2)] by simp
  have cov: "covers g ?cs (max ?z (?o + ?m))" using w(4) by (auto simp: covers_def distrib_left trans_le_add1)
  have lt: "length (take ?m buf) = ?m" using J(2) len(1) by simp
  have chain: "distinct ?cs" "set ?cs \<subseteq> {2..max_cluster g}" using writing_chain(2) [OF s1(2)] writing_distinct [OF s1(2)] by (cases "?cs = []"; auto)+
  have "covers g (cs @ es) (?o + length (take ?m buf))" using w(4) lt by (auto simp: covers_def)
  from wrote_append [OF g(3) chain w(3) this] have wf: "wrote_file g ?cs ?o (take ?m buf) V V1" .
  have stay: "wrote_so_far drv rd M X V g E cs s0 buf ?m s1"
    unfolding wrote_so_far_def Let_def using s1(2) gr wf cov by (intro exI [of _ V1] exI [of _ "es @ fs"] exI [of _ E2]) simp
  show ?thesis
  proof (cases "r = SUCCESS")
    case False
    have "rw_body drv high XFR_WRITE count (ret_cnt, to_xfer, buf, s) = do { s2 \<leftarrow> fnode_to_sft 0 s1; Some (Inl (int (unat ret_cnt), buf, s2)) }"
      using more s1(1) False rw by (simp add: rw_body_def Let_def)
    moreover have "disk_full g (fat_at rd X g (ks s1))" using s1(2,4) False by (auto elim: writingE)
    ultimately show ?thesis using stay by blast
  next
    case True
    then have cl: "rel_cluster g ?off < length ?cs" "f_cluster (fnode s1 0) = ?cs ! rel_cluster g ?off" using s1(4) by simp_all
    have b: "unat ret_cnt + unat to_xfer \<le> length buf" using J(2) len(1) by simp
    have ol: "unat ?off + unat to_xfer < 4294967296" using uo lim by simp
    have clm: "rel_cluster g ?off < length ?cs" "f_cluster (fnode (merge_changes False 0 s1) 0) = ?cs ! rel_cluster g ?off"
      using cl merge_keeps [of 0 s1] by auto
    obtain n s2 where n: "xfer_round drv high XFR_WRITE ret_cnt to_xfer buf (merge_changes False 0 s1) = Some (Inr n, buf, s2)" "0 < unat n" "unat n \<le> unat to_xfer"
      "put_result drv rd M X V1 g E2 ?cs s0 ?off ?sz (take (unat n) (drop ?m buf)) s2"
      using xfer_round_writes [OF g(1-3) writing_merge [OF s1(2)] clm tx ol b, of high] by blast
    let ?d = "take (unat n) (drop ?m buf)"
    have ld: "length ?d = unat n" using n(3) b by simp
    obtain V2 gs E3 where p: "writing drv rd M X V2 g E3 (?cs @ gs) s0 (?off + of_nat (unat n)) ?sz s2" "grown g E2 E3 ?cs gs"
      "wrote_file g (?cs @ gs) (?o + ?m) ?d V1 V2" "covers g (?cs @ gs) (?o + ?m + unat n)" using n(4) unfolding put_result_def ld uo by blast
    let ?cs' = "?cs @ gs"
    have gr3: "grown g E E3 cs ((es @ fs) @ gs)" using grown_trans [OF gr, of E3 gs] p(2) writing_distinct [OF p(1)] by simp
    have chain': "distinct ?cs'" "set ?cs' \<subseteq> {2..max_cluster g}" using writing_chain(2) [OF p(1)] writing_distinct [OF p(1)] by (cases "?cs' = []"; auto)+
    have "covers g ?cs (?o + length (take ?m buf))" using cov lt by (auto simp: covers_def)
    from wrote_append [OF g(3) chain' wf this] have "wrote_file g ?cs' ?o (take ?m buf) V V1" .
    from wrote_trans [OF this] p(3) lt have wf2: "wrote_file g ?cs' ?o (take (?m + unat n) buf) V V2" by (simp add: take_add)
    let ?s4 = "if f_offset (fnode s2 0) > dir_size (dir_of 0 s2) then upd_dir 0 (\<lambda>e. e\<lparr>dir_size := f_offset (fnode s2 0)\<rparr>) s2 else s2"
    have off2: "f_offset (fnode s2 0) = of_nat (?o + (?m + unat n))" "dir_size (dir_of 0 s2) = ?sz" using p(1) by (auto simp: add.assoc elim: writingE)
    have uo2: "unat (of_nat (?o + (?m + unat n)) :: u32) = ?o + (?m + unat n)" using lim n(3) by (intro unat_of_nat32) simp
    have w4: "writing drv rd M X V2 g E3 ?cs' s0 (of_nat (?o + (?m + unat n))) (of_nat (max ?z (?o + (?m + unat n)))) ?s4"
    proof (cases "f_offset (fnode s2 0) > dir_size (dir_of 0 s2)")
      case True
      then have "max ?z (?o + (?m + unat n)) = ?o + (?m + unat n)" unfolding off2 word_less_nat_alt uo2 us by simp
      then show ?thesis using writing_node(2) [OF p(1), of "f_offset (fnode s2 0)"] True off2(1) by (simp add: add.assoc)
    next
      case False
      then have "max ?z (?o + (?m + unat n)) = max ?z (?o + ?m)" unfolding off2 word_less_nat_alt uo2 us by linarith
      then show ?thesis using p(1) False by (simp add: add.assoc)
    qed
    have "covers g ?cs' (max ?z (?o + (?m + unat n)))" using cov p(4) by (auto simp: covers_def distrib_left max_def split: if_splits)
    then have new: "wrote_so_far drv rd M X V g E cs s0 buf (?m + unat n) (merge_changes False 0 ?s4)"
      unfolding wrote_so_far_def Let_def using writing_merge [OF w4] gr3 wf2 by (intro exI [of _ V2] exI [of _ "(es @ fs) @ gs"] exI [of _ E3]) simp
    have "rw_body drv high XFR_WRITE count (ret_cnt, to_xfer, buf, s) = Some (Inr (ret_cnt + n, to_xfer - n, buf, merge_changes False 0 ?s4))"
      using more s1(1) True rw n(1) by (simp add: rw_body_def Let_def)
    then show ?thesis using n(2,3) new by blast
  qed
qed

subsection \<open>The call\<close>

text \<open>
  The state after \<open>m\<close> bytes have been written: the chain may have grown by free clusters, the bytes are in the
  file, everything else on the disks is as before, and the entry is behind them.
\<close>

definition write_result :: "'d driver \<Rightarrow> ('d \<Rightarrow> u16 \<Rightarrow> u8 \<Rightarrow> u32 \<Rightarrow> u8 list) \<Rightarrow> (u8 \<times> u32) set \<Rightarrow> u16 set \<Rightarrow>
    (u8 \<Rightarrow> u32 \<Rightarrow> u8 list) \<Rightarrow> dpb \<Rightarrow> u32 list \<Rightarrow> nat \<Rightarrow> sft \<Rightarrow> u8 list \<Rightarrow> ('d, 'c) fs \<Rightarrow> ('d, 'c) fs \<Rightarrow> bool" where
  "write_result drv rd M X V g cs fd sf data s s' \<longleftrightarrow> (\<exists>V' es sf'.
     fat_ok drv rd M X V' (sft_dcb sf) g (ks s') \<and> grown g (fat_at rd X g (ks s)) (fat_at rd X g (ks s')) cs es
     \<and> wrote_file g (cs @ es) (unat (sft_posit sf)) data V V'
     \<and> length (sfts s') = length (sfts s) \<and> idx_to_sft fd s' = Some sf' \<and> sft_ok g (fat_at rd X g (ks s')) (cs @ es) sf' \<and> sft_dcb sf' = sft_dcb sf
     \<and> (data \<noteq> [] \<longrightarrow> unat (sft_size sf') = max (unat (sft_size sf)) (unat (sft_posit sf) + length data)) \<and> unat (sft_posit sf') = unat (sft_posit sf) + length data
     \<and> sft_flags sf' = sft_flags sf AND NOT (SFT_FCLEAN OR SFT_FDATE) \<and> sft_mode sf' = sft_mode sf \<and> sft_shroff sf' = sft_shroff sf
     \<and> share_installed s' = share_installed s \<and> shares s' = shares s)"

lemma write_leave:
  assumes sf: "idx_to_sft fd s = Some sf" "fd < 255"
    and s0: "sfts s0 = sfts s" "f_dpb (fnode s0 0) = sft_dcb sf" "f_offset (fnode s0 0) = sft_posit sf" "unat (f_sft_idx (fnode s0 0)) = fd"
      "f_flags (fnode s0 0) = sft_flags sf AND NOT (SFT_FCLEAN OR SFT_FDATE)" "share_installed s0 = share_installed s" "shares s0 = shares s"
    and w: "writing drv rd M X V' g E' (cs @ es) s0 (of_nat (unat (sft_posit sf) + m)) z s1" "grown g (fat_at rd X g (ks s)) E' cs es"
      "wrote_file g (cs @ es) (unat (sft_posit sf)) (take m buf) V V'" "covers g (cs @ es) (unat z)"
    and z: "0 < m \<longrightarrow> unat z = max (unat (sft_size sf)) (unat (sft_posit sf) + m)"
    and m: "m \<le> length buf" "unat (sft_posit sf) + m < 4294967296"
  shows "\<exists>s'. fnode_to_sft 0 s1 = Some s' \<and> ks s' = ks s1 \<and> write_result drv rd M X V g cs fd sf (take m buf) s s'"
proof -
  let ?o = "unat (sft_posit sf)"
  have u: "unat (of_nat (?o + m) :: u32) = ?o + m" using m(2) by (intro unat_of_nat32)
  have k: "fat_ok drv rd M X V' (sft_dcb sf) g (ks s1)" "fat_at rd X g (ks s1) = E'" "same_entry fd (sfts s) (sfts s1)" "f_dpb (fnode s1 0) = sft_dcb sf"
    "unat (f_sft_idx (fnode s1 0)) = fd" "f_offset (fnode s1 0) = of_nat (?o + m)" "dir_size (f_dir (fnode s1 0)) = z"
    "geom (dpb_of 0 s1) = geom g" "node_ok g E' (dm_dircluster (dmat s0 0)) (cs @ es) (fnode s1 0)"
    "f_flags (fnode s1 0) = sft_flags sf AND NOT (SFT_FCLEAN OR SFT_FDATE)" "share_installed s1 = share_installed s" "shares s1 = shares s"
    using w(1) s0 by (auto elim: writingE)
  have i: "idx_to_sft fd s1 = Some sf" using sf(1) k(3) by (auto simp: idx_to_sft_def same_entry_def split: if_splits)
  have c: "covers g (cs @ es) (unat (dir_size (f_dir (fnode s1 0))))" using w(4) k(7) by simp
  obtain s' sf' where s': "fnode_to_sft 0 s1 = Some s'" "ks s' = ks s1" "idx_to_sft fd s' = Some sf'" "sft_ok g E' (cs @ es) sf'"
    "sft_dcb sf' = sft_dcb sf" "sft_posit sf' = of_nat (?o + m)" "sft_size sf' = z" "sfts s' = (sfts s1)[fd := sf']"
    "sft_flags sf' = sft_flags sf AND NOT (SFT_FCLEAN OR SFT_FDATE)" "sft_mode sf' = sft_mode sf" "share_installed s' = share_installed s"
    using sft_store [OF i k(5) sf(2) k(9) k(8) c] k by auto
  have t: "shares s' = shares s" "sft_shroff sf' = sft_shroff sf" using s'(1,3) k(5,12) i sf(2)
    by (auto simp: fnode_to_sft_def Let_def upd_sft_def idx_to_sft_def split: if_splits)
  have "length (sfts s') = length (sfts s)" using s'(8) k(3) by (simp add: same_entry_def)
  moreover have "length (take m buf) = m" using m(1) by simp
  ultimately have "write_result drv rd M X V g cs fd sf (take m buf) s s'"
    unfolding write_result_def using s' w(2,3) k(1,2) u z t by (intro exI [of _ V'] exI [of _ es] exI [of _ sf']) auto
  then show ?thesis using s'(1,2) by blast
qed

lemma write_loop:
  assumes g: "data_geom M g" "dpb_secsize g = 512" "data_fits g" "\<exists>c. in_fat g c"
    and len: "unat count \<le> length buf" "unat (f_offset (fnode s0 0)) + unat count < 4294967296"
    and J0: "wrote_so_far drv rd M X V g E cs s0 buf 0 si"
    and leave: "\<And>m s1. wrote_so_far drv rd M X V g E cs s0 buf m s1 \<Longrightarrow> m \<le> unat count \<Longrightarrow> \<exists>s'. fnode_to_sft 0 s1 = Some s' \<and> ks s' = ks s1 \<and> Q m s'"
  shows "\<exists>m s'. loopM (rw_body drv high XFR_WRITE count) (0, count, buf, si) = Some (int m, buf, s') \<and> m \<le> unat count \<and> Q m s'
    \<and> (m < unat count \<longrightarrow> disk_full g (fat_at rd X g (ks s')))"
proof -
  let ?J = "\<lambda>v n. case v of (ret_cnt, to_xfer, b, s) \<Rightarrow> wrote_so_far drv rd M X V g E cs s0 buf (unat (ret_cnt :: u16)) s
    \<and> unat ret_cnt + unat (to_xfer :: u16) = unat count \<and> b = buf \<and> unat to_xfer = n"
  let ?Q = "\<lambda>v. case v of (r, b, s') \<Rightarrow> \<exists>m. r = int m \<and> b = buf \<and> m \<le> unat count \<and> Q m s' \<and> (m < unat count \<longrightarrow> disk_full g (fat_at rd X g (ks s')))"
  have JJ: "?J (0, count, buf, si) (unat count)" using J0 by simp
  have "\<exists>v. loopM (rw_body drv high XFR_WRITE count) (0, count, buf, si) = Some v \<and> ?Q v"
  proof (rule loopM_ghost [of ?J, OF JJ])
    fix v n assume Jv: "?J v n"
    obtain ret_cnt to_xfer b s1 where v: "v = (ret_cnt, to_xfer, b, s1)" by (cases v)
    have J: "wrote_so_far drv rd M X V g E cs s0 buf (unat ret_cnt) s1" "unat ret_cnt + unat to_xfer = unat count" "b = buf" "unat to_xfer = n" using Jv by (simp_all add: v)
    show "\<exists>x. rw_body drv high XFR_WRITE count v = Some x \<and> (case x of Inl v \<Rightarrow> ?Q v | Inr v' \<Rightarrow> \<exists>m'<n. ?J v' m')"
    proof (cases "ret_cnt < count")
      case True
      from write_step [OF g len J(1,2) True, of high] show ?thesis
      proof
        assume "\<exists>k s'. rw_body drv high XFR_WRITE count (ret_cnt, to_xfer, buf, s1) = Some (Inr (ret_cnt + k, to_xfer - k, buf, s')) \<and> 0 < unat k
          \<and> unat k \<le> unat to_xfer \<and> wrote_so_far drv rd M X V g E cs s0 buf (unat ret_cnt + unat k) s'"
        then obtain k s2 where k: "rw_body drv high XFR_WRITE count v = Some (Inr (ret_cnt + k, to_xfer - k, buf, s2))" "0 < unat k" "unat k \<le> unat to_xfer"
          "wrote_so_far drv rd M X V g E cs s0 buf (unat ret_cnt + unat k) s2" unfolding v J(3) by blast
        have "unat ret_cnt + unat k < 65536" using k(3) J(2) unat_lt16 [of count] by linarith
        then have sum: "unat (ret_cnt + k) = unat ret_cnt + unat k" by (subst unat_word_ariths) simp
        have sub: "unat (to_xfer - k) = unat to_xfer - unat k" using k(3) by (subst unat_sub) (simp_all add: word_le_nat_alt)
        have "?J (ret_cnt + k, to_xfer - k, buf, s2) (unat (to_xfer - k))" using k(4,3) J(2) sum sub by simp
        moreover have "unat (to_xfer - k) < n" using sub k(2,3) J(4) by linarith
        ultimately show ?thesis using k(1) by auto
      next
        assume "\<exists>s1'. rw_body drv high XFR_WRITE count (ret_cnt, to_xfer, buf, s1) = do { s2 \<leftarrow> fnode_to_sft 0 s1'; Some (Inl (int (unat ret_cnt), buf, s2)) }
          \<and> wrote_so_far drv rd M X V g E cs s0 buf (unat ret_cnt) s1' \<and> disk_full g (fat_at rd X g (ks s1'))"
        then obtain s2 where s2: "rw_body drv high XFR_WRITE count v = do { s3 \<leftarrow> fnode_to_sft 0 s2; Some (Inl (int (unat ret_cnt), buf, s3)) }"
          "wrote_so_far drv rd M X V g E cs s0 buf (unat ret_cnt) s2" "disk_full g (fat_at rd X g (ks s2))" unfolding v J(3) by blast
        obtain s' where s': "fnode_to_sft 0 s2 = Some s'" "ks s' = ks s2" "Q (unat ret_cnt) s'" using leave [OF s2(2)] J(2) by auto
        have "?Q (int (unat ret_cnt), buf, s')" unfolding prod.case using s'(2,3) s2(3) J(2) by (intro exI [of _ "unat ret_cnt"]) simp
        moreover have "rw_body drv high XFR_WRITE count v = Some (Inl (int (unat ret_cnt), buf, s'))" using s2(1) s'(1) by simp
        ultimately show ?thesis by simp
      qed
    next
      case False
      then have m: "unat ret_cnt = unat count" using J(2) by (simp add: word_less_nat_alt)
      obtain s' where s': "fnode_to_sft 0 s1 = Some s'" "Q (unat ret_cnt) s'" using leave [OF J(1)] J(2) by auto
      have "rw_body drv high XFR_WRITE count v = Some (Inl (int (unat ret_cnt), buf, s'))" using False s'(1) J(3) by (simp add: rw_body_def v)
      moreover have "?Q (int (unat ret_cnt), buf, s')" unfolding prod.case using s'(2) m by (intro exI [of _ "unat ret_cnt"]) simp
      ultimately show ?thesis by simp
    qed
  qed
  then show ?thesis by auto
qed

text \<open>
  \<^verbatim>\<open>dos_extend\<close> brings a file up to a position behind its end, as far as the disk has room. What lies between is what
  the clusters held.
\<close>

lemma reached_covers: "dpb_secsize g = 512 \<Longrightarrow> 0 < spc g \<Longrightarrow> rel_cluster g off < length cs \<Longrightarrow> covers g cs (unat off)"
proof -
  assume g: "dpb_secsize g = 512" "0 < spc g" "rel_cluster g off < length cs"
  then have "unat off div (512 * spc g) < length cs" by (simp add: rel_sector div_mult2_eq)
  then have "unat off < length cs * (512 * spc g)" using g(2) by (simp add: div_less_iff_less_mult)
  then show ?thesis by (simp add: covers_def ac_simps)
qed

lemma extend_writes:
  assumes g: "dpb_secsize g = 512" "0 < spc g" "\<exists>c. in_fat g c"
    and w: "writing drv rd M X V g E cs s0 (f_offset (fnode s0 0)) (dir_size (dir_of 0 s0)) s0" and cov: "covers g cs (unat (dir_size (dir_of 0 s0)))"
  shows "(\<exists>s1. dos_extend drv 0 s0 = Some (SUCCESS, s1) \<and> wrote_so_far drv rd M X V g E cs s0 buf 0 s1)
    \<or> (\<exists>s1 es E'. dos_extend drv 0 s0 = Some (DE_HNDLDSKFULL, s1) \<and> writing drv rd M X V g E' (cs @ es) s0 (f_offset (fnode s0 0)) (dir_size (dir_of 0 s0)) s1
        \<and> grown g E E' cs es \<and> disk_full g E')"
proof (cases "f_offset (fnode s0 0) \<le> dir_size (dir_of 0 s0)")
  case True
  then have "wrote_so_far drv rd M X V g E cs s0 buf 0 s0"
    unfolding wrote_so_far_def Let_def using w cov by (intro exI [of _ V] exI [of _ "[]"] exI [of _ E]) (simp add: grown_def wrote_nil word_le_nat_alt max_absorb1)
  then show ?thesis using True by (simp add: dos_extend_def)
next
  case False
  let ?o = "f_offset (fnode s0 0)"
  obtain r s1 es E' where s1: "map_node drv XFR_WRITE 0 s0 = Some (r, s1)" "writing drv rd M X V g E' (cs @ es) s0 ?o (dir_size (dir_of 0 s0)) s1" "grown g E E' cs es"
    "if r = SUCCESS then rel_cluster g ?o < length (cs @ es) \<and> f_cluster (fnode s1 0) = (cs @ es) ! rel_cluster g ?o else disk_full g E'"
    using writing_map [OF w g(3)] by blast
  show ?thesis
  proof (cases "r = SUCCESS")
    case True
    let ?s = "merge_changes False 0 (upd_dir 0 (\<lambda>e. e\<lparr>dir_size := f_offset (fnode s1 0)\<rparr>) s1)"
    have "f_offset (fnode s1 0) = ?o" using s1(2) by (auto elim: writingE)
    then have "writing drv rd M X V g E' (cs @ es) s0 ?o ?o ?s" using writing_merge [OF writing_node(2) [OF s1(2), of ?o]] by simp
    moreover have "covers g (cs @ es) (unat ?o)" using reached_covers [OF g(1,2)] s1(4) True by simp
    moreover have "max (unat (dir_size (dir_of 0 s0))) (unat ?o) = unat ?o" using False by (simp add: word_le_nat_alt)
    ultimately have "wrote_so_far drv rd M X V g E cs s0 buf 0 ?s"
      unfolding wrote_so_far_def Let_def using s1(3) by (intro exI [of _ V] exI [of _ es] exI [of _ E']) (simp add: wrote_nil)
    then show ?thesis using False True s1(1) by (simp add: dos_extend_def)
  next
    case full: False
    then show ?thesis using False s1 by (auto simp: dos_extend_def SUCCESS_def DE_HNDLDSKFULL_def)
  qed
qed

lemma node_attr [simp]:
  "node_ok g E dircl cs (fn\<lparr>f_dir := (f_dir fn)\<lparr>dir_attrib := v\<rparr>, f_flags := w\<rparr>) = node_ok g E dircl cs fn"
  by (simp add: node_ok_def node_at_def node_start_def getdstart_def)

lemma rwblock_writes:
  assumes sf: "idx_to_sft fd s = Some sf" "fd < 255" and ok: "fat_ok drv rd M X V (sft_dcb sf) g (ks s)" and so: "sft_ok g (fat_at rd X g (ks s)) cs sf"
    and g: "data_geom M g" "dpb_secsize g = 512" "data_fits g" "\<exists>c. in_fat g c"
    and len: "0 < unat count" "unat count \<le> length buf" "unat (sft_posit sf) + unat count < 4294967296"
  shows "\<exists>m s'. rwblock drv high fd buf count XFR_WRITE s = Some (int m, buf, s') \<and> m \<le> unat count
    \<and> write_result drv rd M X V g cs fd sf (take m buf) s s' \<and> (m < unat count \<longrightarrow> disk_full g (fat_at rd X g (ks s')))"
proof -
  let ?E = "fat_at rd X g (ks s)"
  obtain s1 where s1: "sft_to_fnode fd s = Some s1" "ks s1 = ks s" "sfts s1 = sfts s" "f_dpb (fnode s1 0) = sft_dcb sf"
    "node_ok g ?E (dm_dircluster (dmat s1 0)) cs (fnode s1 0)" "f_offset (fnode s1 0) = sft_posit sf" "dir_size (f_dir (fnode s1 0)) = sft_size sf"
    "unat (f_sft_idx (fnode s1 0)) = fd" using sft_load [OF sf ok so] by blast
  have sh1: "share_installed s1 = share_installed s" "shares s1 = shares s" "f_flags (fnode s1 0) = sft_flags sf" using s1(1) sf(1) by (auto simp: sft_to_fnode_def upd_fn_def)
  define s0 where "s0 = upd_fn 0 (\<lambda>fn. fn\<lparr>f_dir := (f_dir fn)\<lparr>dir_attrib := dir_attrib (f_dir fn) OR D_ARCHIVE\<rparr>, f_flags := f_flags fn AND NOT (SFT_FCLEAN OR SFT_FDATE)\<rparr>) s1"
  have s0: "ks s0 = ks s" "sfts s0 = sfts s" "f_dpb (fnode s0 0) = sft_dcb sf" "f_offset (fnode s0 0) = sft_posit sf" "dir_size (f_dir (fnode s0 0)) = sft_size sf"
    "unat (f_sft_idx (fnode s0 0)) = fd" "node_ok g ?E (dm_dircluster (dmat s0 0)) cs (fnode s0 0)"
    "f_flags (fnode s0 0) = sft_flags sf AND NOT (SFT_FCLEAN OR SFT_FDATE)" "share_installed s0 = share_installed s" "shares s0 = shares s"
    using s1 sh1 by (simp_all add: s0_def upd_fn_def)
  have w0: "writing drv rd M X V g ?E cs s0 (f_offset (fnode s0 0)) (dir_size (dir_of 0 s0)) s0"
    unfolding writing_def using s0 ok by (intro exI [of _ "fnode s0 0"] exI [of _ "ks s0"] exI [of _ "sfts s0"]) (simp add: alike_def)
  have cov: "covers g cs (unat (dir_size (dir_of 0 s0)))" using so s0(5) by (simp add: sft_ok_def)
  have rw: "rwblock drv high fd buf count XFR_WRITE s = do {
      (rc, s2) \<leftarrow> dos_extend drv 0 s0;
      if rc \<noteq> SUCCESS then do { s3 \<leftarrow> fnode_to_sft 0 s2; Some (0, buf, s3) } else loopM (rw_body drv high XFR_WRITE count) (0, count, buf, s2)
    }"
  proof -
    have "count \<noteq> 0" using len(1) by auto
    then show ?thesis unfolding rwblock_def s1(1) s0_def [symmetric] bind.bind_lunit by (cases "dos_extend drv 0 s0") (auto simp: s0_def [symmetric])
  qed
  note leave = write_leave [OF sf s0(2-4,6,8-10)]
  have sp: "0 < spc g" by (simp add: spc_def)
  from extend_writes [OF g(2) sp g(4) w0 cov, of buf] show ?thesis
  proof (elim disjE exE conjE)
    fix s2 assume e: "dos_extend drv 0 s0 = Some (SUCCESS, s2)" and J0: "wrote_so_far drv rd M X V g ?E cs s0 buf 0 s2"
    have out: "\<exists>s'. fnode_to_sft 0 s3 = Some s' \<and> ks s' = ks s3 \<and> write_result drv rd M X V g cs fd sf (take m buf) s s'"
      if x: "wrote_so_far drv rd M X V g ?E cs s0 buf m s3" "m \<le> unat count" for m s3
    proof -
      let ?z = "max (unat (sft_size sf)) (unat (sft_posit sf) + m)"
      obtain V' es E' where w: "writing drv rd M X V' g E' (cs @ es) s0 (of_nat (unat (sft_posit sf) + m)) (of_nat ?z) s3" "grown g ?E E' cs es"
        "wrote_file g (cs @ es) (unat (sft_posit sf)) (take m buf) V V'" "covers g (cs @ es) ?z" using x(1) unfolding wrote_so_far_def Let_def s0(4,5) by blast
      have "unat (of_nat ?z :: u32) = ?z" using x(2) len(3) unsigned_less [of "sft_size sf", where 'a = nat] by (intro unat_of_nat32) simp
      then show ?thesis using w x(2) len by (intro leave [OF w(1-3)]) auto
    qed
    have "unat (f_offset (fnode s0 0)) + unat count < 4294967296" using len(3) s0(4) by simp
    from write_loop [where high = high and Q = "\<lambda>m. write_result drv rd M X V g cs fd sf (take m buf) s", OF g len(2) this J0 out]
    show ?thesis using rw e by auto
  next
    fix s2 es E' assume e: "dos_extend drv 0 s0 = Some (DE_HNDLDSKFULL, s2)"
      and w: "writing drv rd M X V g E' (cs @ es) s0 (f_offset (fnode s0 0)) (dir_size (dir_of 0 s0)) s2" "grown g ?E E' cs es" "disk_full g E'"
    have c: "covers g (cs @ es) (unat (sft_size sf))" using cov s0(5) by (auto simp: covers_def distrib_left trans_le_add1)
    have "\<exists>s'. fnode_to_sft 0 s2 = Some s' \<and> ks s' = ks s2 \<and> write_result drv rd M X V g cs fd sf (take 0 buf) s s'"
      using w(1) s0(4,5) len(3) c by (intro leave [where m = 0 and z = "sft_size sf", OF _ w(2)]) (auto simp: wrote_nil)
    moreover have "fat_at rd X g (ks s2) = E'" using w(1) by (auto elim: writingE)
    ultimately show ?thesis using rw e w(3) by (auto simp: SUCCESS_def DE_HNDLDSKFULL_def intro: exI [of _ "0::nat"])
  qed
qed

subsection \<open>Other files\<close>

lemma sft_clusters: "sft_ok g E cs sf \<Longrightarrow> set cs \<subseteq> {2..max_cluster g}"
  using cchain_set [of "{2..max_cluster g}" E "sft_stclust sf" cs] by (cases "cs = []") (simp_all add: sft_ok_def clusters_of_def)

lemma other_file:
  assumes f: "data_fits g" and cs: "set cs \<subseteq> {2..max_cluster g}" and ds: "set ds \<subseteq> {2..max_cluster g}" "set cs \<inter> set ds = {}"
    and w: "wrote_file g cs off data V V'" and c: "covers g ds (p + n)"
  shows "file_bytes V' g ds p n = file_bytes V g ds p n"
proof -
  have "file_byte V' g ds (p + i) = file_byte V g ds (p + i)" if i: "i < n" for i
  proof -
    have "p + i < 512 * spc g * length ds" using c i unfolding covers_def by linarith
    note j = sector_of_byte [OF this]
    have "file_block g ds ((p + i) div 512) \<noteq> file_block g cs k" if k: "k div spc g < length cs" for k
    proof
      assume eq: "file_block g ds ((p + i) div 512) = file_block g cs k"
      have "in_fat g (ds ! ((p + i) div 512 div spc g))" "in_fat g (cs ! (k div spc g))"
        using subsetD [OF ds(1) nth_mem [OF j]] subsetD [OF cs nth_mem [OF k]] by (simp_all add: in_fat_iff)
      from clus2phys_inj [OF f this _ _ eq [unfolded file_block_def]] have "ds ! ((p + i) div 512 div spc g) = cs ! (k div spc g)" by simp
      then show False using nth_mem [OF j] nth_mem [OF k] ds(2) by auto
    qed
    then have "V' (dpb_unit g) (file_block g ds ((p + i) div 512)) = V (dpb_unit g) (file_block g ds ((p + i) div 512))" using w unfolding wrote_file_def by blast
    then show ?thesis by (simp add: file_byte_def)
  qed
  then show ?thesis by (simp add: file_bytes_def)
qed

text \<open>
  C7. Writing a file changes no other file. Whatever \<^verbatim>\<open>rwblock\<close> writes to a file of a drive with sectors of 512
  bytes, through the cache or past it, at a position within the file, at its end or behind it (where
  \<^verbatim>\<open>dos_extend\<close> appends clusters first), and whether SHARE is installed or not: afterwards every other chain of
  the file allocation table is as it was, and so is every byte of its clusters. The request is for at least
  one byte and ends below 4 GB. The call returns, and it writes fewer bytes than asked for only when no free
  cluster is left; then it has changed no other chain either.
\<close>

theorem write_keeps_others:
  assumes sf: "idx_to_sft fd s = Some sf" "fd < 255" and ok: "fat_ok drv rd M X V (sft_dcb sf) g (ks s)" and so: "sft_ok g (fat_at rd X g (ks s)) cs sf"
    and g: "data_geom M g" "dpb_secsize g = 512" "data_fits g" "\<exists>c. in_fat g c"
    and len: "0 < unat count" "unat count \<le> length buf" "unat (sft_posit sf) + unat count < 4294967296"
  shows "\<exists>m s' V'. rwblock drv high fd buf count XFR_WRITE s = Some (int m, buf, s') \<and> fat_ok drv rd M X V' (sft_dcb sf) g (ks s')
    \<and> m \<le> unat count \<and> (m < unat count \<longrightarrow> disk_full g (fat_at rd X g (ks s')))
    \<and> (\<forall>c ds. cchain {2..max_cluster g} (fat_at rd X g (ks s)) c ds \<longrightarrow> set cs \<inter> set ds = {} \<longrightarrow>
         cchain {2..max_cluster g} (fat_at rd X g (ks s')) c ds
         \<and> (\<forall>p n. covers g ds (p + n) \<longrightarrow> file_bytes V' g ds p n = file_bytes V g ds p n))"
proof -
  let ?E = "fat_at rd X g (ks s)"
  obtain m s' where m: "rwblock drv high fd buf count XFR_WRITE s = Some (int m, buf, s')" "m \<le> unat count"
    "write_result drv rd M X V g cs fd sf (take m buf) s s'" "m < unat count \<longrightarrow> disk_full g (fat_at rd X g (ks s'))"
    using rwblock_writes [OF assms, of high] by blast
  let ?E' = "fat_at rd X g (ks s')"
  obtain V' es sf' where w: "fat_ok drv rd M X V' (sft_dcb sf) g (ks s')" "grown g ?E ?E' cs es" "wrote_file g (cs @ es) (unat (sft_posit sf)) (take m buf) V V'"
    "sft_ok g ?E' (cs @ es) sf'" using m(3) unfolding write_result_def by blast
  have ces: "set (cs @ es) \<subseteq> {2..max_cluster g}" using sft_clusters [OF w(4)] .
  have "cchain {2..max_cluster g} ?E' c ds \<and> (\<forall>p n. covers g ds (p + n) \<longrightarrow> file_bytes V' g ds p n = file_bytes V g ds p n)"
    if ch: "cchain {2..max_cluster g} ?E c ds" and dj: "set cs \<inter> set ds = {}" for c ds
  proof -
    have "x \<notin> set ds" if "x \<in> set es" for x using cchain_used [OF ch] w(2) that by (auto simp: grown_def)
    then have d: "set (cs @ es) \<inter> set ds = {}" using dj by auto
    then have "?E' x = ?E x" if "x \<in> set ds" for x using w(2) that unfolding grown_def by blast
    then have "cchain {2..max_cluster g} ?E' c ds" using ch cchain_cong by metis
    then show ?thesis using other_file [OF g(3) ces cchain_set [OF ch] d w(3)] by blast
  qed
  then show ?thesis using m(1,2,4) w(1) by blast
qed

lemma demo_fits: "data_fits demo_dpb" "\<exists>c. in_fat demo_dpb c"
  using demo_format demo_in_fat by (auto simp: data_fits_def data_start_def spc_def) (simp_all add: demo_dpb_def ISFAT32_def)

theorem write_keeps_others_witness:
  "\<exists>(s :: (disk, unit) fs) m s' V'. rwblock demo_driver (\<lambda>_. False) 0 (replicate 2000 7) 2000 XFR_WRITE s = Some (int m, replicate 2000 7, s')
    \<and> fat_ok demo_driver disk_read demo_M {16, 32} V' 1 demo_dpb (ks s')"
proof -
  obtain s :: "(disk, unit) fs" where s: "idx_to_sft 0 s = Some demo_sft" "fat_ok demo_driver disk_read demo_M {16, 32} demo_V (sft_dcb demo_sft) demo_dpb (ks s)"
    "sft_ok demo_dpb (fat_at disk_read {16, 32} demo_dpb (ks s)) [5, 9] demo_sft" "s = demo_fs (ks s)" using demo_open by blast
  have d: "dpb_secsize demo_dpb = 512" "sft_dcb demo_sft = 1" "unat (sft_posit demo_sft) + unat (2000 :: u16) < 4294967296"
    by (simp_all add: demo_dpb_def demo_sft_def)
  show ?thesis
    using write_keeps_others [OF s(1) _ s(2,3) demo_data d(1) demo_fits, of 2000 "replicate 2000 7" "\<lambda>_. False"] d(2,3) by fastforce
qed

end
