(* ===== verification/HandleProps.thy ===== *)
theory HandleProps
  imports HandleInv ShareProps FatSave
begin

text \<open>
  Handles, SHARE and the file system together: reading through a handle, and how SHARE guards transfers.
\<close>

subsection \<open>Transfers and SHARE\<close>

text \<open>A lock of another process on the file covers the first or the last byte of a transfer of at least one byte.\<close>

definition region_locked :: "u16 \<Rightarrow> u16 \<Rightarrow> u32 \<Rightarrow> u16 \<Rightarrow> share \<Rightarrow> bool" where
  "region_locked psp fno pos n sh \<longleftrightarrow> (case lock_region pos (ucast n) of (e, k) \<Rightarrow> k \<noteq> 0 \<and> (\<exists>l \<in> set (lock_table sh). used l \<noteq> 0
     \<and> (psp = 0 \<or> l_psp l \<noteq> psp) \<and> same_name sh fno (fileno l) \<and> (ShareSafety.covers l pos \<or> ShareSafety.covers l (e - 1))))"

text \<open>An entry of the file table that SHARE knows.\<close>

definition share_link :: "sft \<Rightarrow> ('d, 'c) fs \<Rightarrow> bool" where
  "share_link sf f \<longleftrightarrow> share_installed f \<and> sft_shroff sf < 0x8000 \<and> share_wf (shares f) \<and> unat (sft_shroff sf) < length (file_table (shares f))"

definition access_free :: "u16 \<Rightarrow> sft \<Rightarrow> u16 \<Rightarrow> ('d, 'c) fs \<Rightarrow> bool" where
  "access_free psp sf n f \<longleftrightarrow> \<not> share_installed f \<or> sft_shroff sf \<ge> 0x8000
     \<or> share_link sf f \<and> \<not> region_locked psp (sft_shroff sf) (sft_posit sf) n (shares f)"

lemma region_locked_forbids:
  assumes "lock_region pos (ucast n) = (e, k)"
  shows "region_locked psp fno pos n sh \<longleftrightarrow> k \<noteq> 0 \<and> (\<exists>l \<in> set (lock_table sh). forbids sh psp fno pos e l)"
  using assms lock_hits_covers [OF lock_region_less(1) [OF assms]] by (auto simp: region_locked_def forbids_def)

lemma access_check_region:
  assumes wf: "share_wf sh" and fno: "unat fno < length (file_table sh)"
  shows "access_check psp fno pos (ucast n) True sh =
    (if region_locked psp fno pos n sh
     then do { sh1 \<leftarrow> free_file_table_entry (unat fno) sh; Some (-0x21, crit_error 0x0e (file_table sh ! unat fno) sh1) }
     else Some (0, sh))"
proof -
  obtain e k where reg: "lock_region pos (ucast n) = (e, k)" by force
  have "locked_by_other psp (filename (file_table sh ! unat fno)) pos e sh (lock_table sh)
    = Some (\<exists>l \<in> set (lock_table sh). forbids sh psp fno pos e l)"
    using wf by (intro locked_by_other_eq [OF wf fno]) (simp add: share_wf_def)
  then show ?thesis using reg fno by (auto simp: access_check_def region_locked_forbids [OF reg] file_at_def)
qed

lemma may_access_free: "access_free (cu_psp s) sf n (fsys s) \<Longrightarrow> share_may_access sf n s = Some (SUCCESS, s)"
  using access_check_region [of "shares (fsys s)" "sft_shroff sf"]
  by (auto simp: access_free_def share_link_def share_may_access_def IsShareInstalled_def SUCCESS_def word_less_nat_alt word_le_nat_alt)

lemma may_access_locked:
  assumes "share_link sf (fsys s)" "region_locked (cu_psp s) (sft_shroff sf) (sft_posit sf) n (shares (fsys s))"
  shows "\<exists>sh1. free_file_table_entry (unat (sft_shroff sf)) (shares (fsys s)) = Some sh1 \<and> share_may_access sf n s =
    Some (-0x21, s\<lparr>fsys := (fsys s)\<lparr>shares := crit_error 0x0e (file_table (shares (fsys s)) ! unat (sft_shroff sf)) sh1\<rparr>\<rparr>)"
proof -
  obtain sh1 where "free_file_table_entry (unat (sft_shroff sf)) (shares (fsys s)) = Some sh1"
    using free_entry_general [of "shares (fsys s)"] assms(1) by (auto simp: share_link_def)
  then show ?thesis using assms access_check_region [of "shares (fsys s)" "sft_shroff sf"]
    by (auto simp: share_link_def share_may_access_def IsShareInstalled_def word_less_nat_alt)
qed

text \<open>The entry of a file on a local drive, opened for reading or writing as asked.\<close>

definition local_file :: "u16 \<Rightarrow> sft \<Rightarrow> bool" where
  "local_file mode sf \<longleftrightarrow> sft_flags sf AND SFT_FSHARED = 0 \<and> sft_flags sf AND SFT_FDEVICE = 0
     \<and> (mode = XFR_READ \<longrightarrow> sft_mode sf AND O_WRONLY = 0) \<and> (mode = XFR_WRITE \<longrightarrow> sft_mode sf AND O_ACCMODE \<noteq> O_RDONLY)"

text \<open>
  C22. Reading and writing respect the locks of other processes: when one covers the first or the last byte of
  the region, \<^verbatim>\<open>DosRWSft\<close> fails with the code of a lock violation, transfers nothing, and changes
  nothing but the tables of SHARE; the user has seen a critical error.
\<close>

theorem DosRWSft_locked:
  assumes "sft_at i s = Some sf" "local_file mode sf" "share_link sf (fsys s)"
    "region_locked (cu_psp s) (sft_shroff sf) (sft_posit sf) n (shares (fsys s))"
  shows "\<exists>sh. DosRWSft E high i n bp mode s = Some (-0x21, bp, s\<lparr>fsys := (fsys s)\<lparr>shares := sh\<rparr>\<rparr>)
    \<and> lock_table sh = lock_table (shares (fsys s)) \<and> (\<exists>e. criterrs sh = criterrs (shares (fsys s)) @ [e])"
proof -
  obtain sh1 where sh1: "free_file_table_entry (unat (sft_shroff sf)) (shares (fsys s)) = Some sh1"
    "share_may_access sf n s = Some (-0x21, s\<lparr>fsys := (fsys s)\<lparr>shares := crit_error 0x0e (file_table (shares (fsys s)) ! unat (sft_shroff sf)) sh1\<rparr>\<rparr>)"
    using may_access_locked [OF assms(3,4)] by blast
  then have "lock_table sh1 = lock_table (shares (fsys s))" "criterrs sh1 = criterrs (shares (fsys s))"
    by (auto simp: free_file_table_entry_def file_at_def split: if_splits)
  then show ?thesis using assms(1,2) sh1(2)
    by (auto simp: DosRWSft_def local_file_def crit_error_def Let_def SUCCESS_def)
qed

text \<open>
  The locks that hold once \<^verbatim>\<open>access_check\<close> has taken the name from the entry: those that were set through the entry itself
  and those whose own entry has no name.
\<close>

definition still_locked :: "u16 \<Rightarrow> u16 \<Rightarrow> u32 \<Rightarrow> u16 \<Rightarrow> share \<Rightarrow> bool" where
  "still_locked psp fno pos n sh \<longleftrightarrow> (\<exists>l \<in> set (lock_table sh). used l \<noteq> 0 \<and> (psp = 0 \<or> l_psp l \<noteq> psp)
     \<and> (fileno l = fno \<or> fname (file_table sh ! unat (fileno l)) = [])
     \<and> (ShareSafety.covers l pos \<or> ShareSafety.covers l (fst (lock_region pos (ucast n)) - 1)))"

lemma refused_again:
  assumes link: "share_link sf (fsys s)" and region: "region_locked (cu_psp s) (sft_shroff sf) pos n (shares (fsys s))"
    and sh1: "free_file_table_entry (unat (sft_shroff sf)) (shares (fsys s)) = Some sh1"
  shows "region_locked (cu_psp s) (sft_shroff sf) pos n (crit_error 0x0e f sh1)
      \<longleftrightarrow> still_locked (cu_psp s) (sft_shroff sf) pos n (shares (fsys s))"
    and "share_link sf ((fsys s)\<lparr>shares := crit_error 0x0e f sh1\<rparr>)"
proof -
  let ?k = "unat (sft_shroff sf)" and ?sh = "shares (fsys s)" and ?sh1 = "crit_error 0x0e f sh1"
  let ?f = "file_table ?sh ! ?k"
  have wf: "share_wf ?sh" "?k < length (file_table ?sh)" using link by (auto simp: share_link_def)
  have t: "file_table ?sh1 = (file_table ?sh)[?k := ?f\<lparr>filename := (filename ?f)[0 := 0]\<rparr>]" "lock_table ?sh1 = lock_table ?sh" "share_wf ?sh1"
    using sh1 free_entry_general [OF wf] by (auto simp: crit_error_def free_file_table_entry_def file_at_def share_wf_def Let_def split: if_splits)
  have "fname (?f\<lparr>filename := (filename ?f)[0 := 0]\<rparr>) = []" using wf by (cases "filename ?f") (auto simp: cname_def share_wf_def file_wf_def)
  then have same: "same_name ?sh1 (sft_shroff sf) i \<longleftrightarrow> i = sft_shroff sf \<or> fname (file_table ?sh ! unat i) = []" for i
    using wf(2) unfolding same_name_def t(1) by (cases "i = sft_shroff sf") (auto simp: word_unat_eq_iff)
  obtain e k where "lock_region pos (ucast n) = (e, k)" by force
  then show "region_locked (cu_psp s) (sft_shroff sf) pos n ?sh1 \<longleftrightarrow> still_locked (cu_psp s) (sft_shroff sf) pos n ?sh"
    using region unfolding region_locked_def still_locked_def same t(2) by auto
  show "share_link sf ((fsys s)\<lparr>shares := ?sh1\<rparr>)" using link t by (simp add: share_link_def)
qed

text \<open>
  C38. The refusal forgets the file: \<^verbatim>\<open>access_check\<close> has freed the entry of the file in SHARE's table,
  so that a second attempt to access the same region is compared with a file without a name. It is refused again
  exactly when a lock of another process that covers the first or the last byte was set through the very same entry of
  the table (as through an inherited handle) or through an entry that has lost its name too; the locks that other
  processes set through entries of their own, which it was refused for, it passes.
\<close>

theorem refused_then_granted:
  assumes "share_link sf (fsys s)" "region_locked (cu_psp s) (sft_shroff sf) (sft_posit sf) n (shares (fsys s))"
  shows "\<exists>s1 s2. share_may_access sf n s = Some (-0x21, s1)
    \<and> share_may_access sf n s1 = (if still_locked (cu_psp s) (sft_shroff sf) (sft_posit sf) n (shares (fsys s)) then Some (-0x21, s2) else Some (SUCCESS, s1))"
proof -
  let ?k = "unat (sft_shroff sf)" and ?sh = "shares (fsys s)"
  obtain sh1 where sh1: "free_file_table_entry ?k ?sh = Some sh1"
    "share_may_access sf n s = Some (-0x21, s\<lparr>fsys := (fsys s)\<lparr>shares := crit_error 0x0e (file_table ?sh ! ?k) sh1\<rparr>\<rparr>)"
    using may_access_locked [OF assms] by blast
  let ?s1 = "s\<lparr>fsys := (fsys s)\<lparr>shares := crit_error 0x0e (file_table ?sh ! ?k) sh1\<rparr>\<rparr>"
  note again = refused_again [OF assms sh1(1), of "file_table ?sh ! ?k"]
  show ?thesis
  proof (cases "still_locked (cu_psp s) (sft_shroff sf) (sft_posit sf) n ?sh")
    case True
    then show ?thesis using sh1(2) may_access_locked [of sf ?s1 n] again by auto
  next
    case False
    then show ?thesis using sh1(2) may_access_free [of ?s1 sf n] again by (simp add: access_free_def)
  qed
qed

subsection \<open>Reading at a position\<close>

lemma sft_ok_posit [simp]: "sft_ok g E cs (sf\<lparr>sft_posit := p\<rparr>) = sft_ok g E cs sf"
  by (simp add: sft_ok_def sft_index_def)

lemma sft_at_iff: "sft_at (int fd) s = idx_to_sft fd (fsys s)"
  by (simp add: sft_at_def)

lemma idx_to_sft_upd: "idx_to_sft i f = Some sf \<Longrightarrow> sft_count (h sf) \<noteq> 0 \<Longrightarrow> idx_to_sft i (upd_sft i h f) = Some (h sf)"
  by (auto simp: idx_to_sft_def upd_sft_def split: if_splits)

lemma get_sft_idx_entry [simp]: "get_sft_idx h (upd_entry i g s) = get_sft_idx h s" "get_sft_idx h (s\<lparr>fsys := f\<rparr>) = get_sft_idx h s"
  by (simp_all add: get_sft_idx_def cur_psp_def upd_entry_def)

lemma get_sft_idx_small: "get_sft_idx h s = int fd \<Longrightarrow> fd < 255"
proof -
  assume a: "get_sft_idx h s = int fd"
  have "unat x < 255" if "x \<noteq> 0xff" for x :: u8
    using that unsigned_less [of x, where ?'a = nat] by (simp add: word_unat_eq_iff)
  moreover have "unat x = k" if "uint x = int k" for x :: u8 and k using that by (metis nat_int unat_eq_nat_uint)
  ultimately show ?thesis using a by (auto simp: get_sft_idx_def Let_def DE_INVLDHNDL_def split: if_splits)
qed

lemma DosSeek_set:
  assumes "get_sft_idx h s = int fd" "idx_to_sft fd (fsys s) = Some sf" "sft_flags sf AND SFT_FDEVICE = 0"
  shows "DosSeek E h pos 0 s = Some (SUCCESS, pos, upd_entry fd (\<lambda>sf. sf\<lparr>sft_posit := pos\<rparr>) s)"
proof -
  have "sft_at (int fd) (upd_entry fd (\<lambda>sf. sf\<lparr>sft_posit := pos\<rparr>) s) = Some (sf\<lparr>sft_posit := pos\<rparr>)"
    using assms(2) idx_to_sft_upd [OF assms(2), of "\<lambda>sf. sf\<lparr>sft_posit := pos\<rparr>"] by (auto simp: sft_at_iff upd_entry_def idx_to_sft_def split: if_splits)
  then show ?thesis using assms by (simp add: DosSeek_def SftSeek_def sft_at_iff SEEK_END_def SEEK_CUR_def Let_def SUCCESS_def)
qed

lemma DosRWSft_read:
  assumes sf: "idx_to_sft fd (fsys s) = Some sf" "fd < 255" "local_file XFR_READ sf" "access_free (cu_psp s) sf count (fsys s)"
    and ok: "fat_ok (blk E) rd M X V (sft_dcb sf) g (ks (fsys s))" "sft_ok g (fat_at rd X g (ks (fsys s))) cs sf"
    and g: "data_geom M g" "dpb_secsize g = 512" and len: "unat count \<le> length buf"
  defines "n \<equiv> min (unat count) (unat (sft_size sf) - unat (sft_posit sf))"
  shows "\<exists>f. DosRWSft E high (int fd) count buf XFR_READ s = Some (int n, overlay 0 (file_bytes V g cs (unat (sft_posit sf)) n) buf, s\<lparr>fsys := f\<rparr>)
    \<and> read_result (blk E) rd M X V g cs fd sf n (fsys s) f"
proof -
  obtain f where "rwblock (blk E) high fd buf count XFR_READ (fsys s) = Some (int n, overlay 0 (file_bytes V g cs (unat (sft_posit sf)) n) buf, f)"
    "read_result (blk E) rd M X V g cs fd sf n (fsys s) f"
    using rwblock_reads [OF sf(1,2) ok g len, of high] unfolding n_def by blast
  moreover have "share_may_access sf count s = Some (SUCCESS, s)" by (rule may_access_free [OF sf(4)])
  ultimately show ?thesis using sf(1,3)
    by (intro exI [of _ f]) (simp add: DosRWSft_def sft_at_iff local_file_def XFR_READ_def XFR_WRITE_def XFR_FORCE_WRITE_def)
qed

lemma seek_read:
  assumes h: "get_sft_idx h s = int fd" "idx_to_sft fd (fsys s) = Some sf" "local_file XFR_READ sf"
    and lock: "access_free (cu_psp s) (sf\<lparr>sft_posit := pos\<rparr>) count (fsys s)"
    and ok: "fat_ok (blk E) rd M X V (sft_dcb sf) g (ks (fsys s))" "sft_ok g (fat_at rd X g (ks (fsys s))) cs sf"
    and g: "data_geom M g" "dpb_secsize g = 512" and len: "unat count \<le> length buf"
  defines "n \<equiv> min (unat count) (unat (sft_size sf) - unat pos)"
  shows "\<exists>s1 f. DosSeek E h pos 0 s = Some (SUCCESS, pos, s1)
    \<and> DosRWSft E high (get_sft_idx h s1) count buf XFR_READ s1 = Some (int n, overlay 0 (file_bytes V g cs (unat pos) n) buf, s1\<lparr>fsys := f\<rparr>)
    \<and> read_result (blk E) rd M X V g cs fd (sf\<lparr>sft_posit := pos\<rparr>) n (fsys s1) f"
proof -
  let ?s1 = "upd_entry fd (\<lambda>sf. sf\<lparr>sft_posit := pos\<rparr>) s" and ?sf = "sf\<lparr>sft_posit := pos\<rparr>"
  have s1: "DosSeek E h pos 0 s = Some (SUCCESS, pos, ?s1)" using h by (intro DosSeek_set) (auto simp: local_file_def)
  have i: "idx_to_sft fd (fsys ?s1) = Some ?sf" using h(2) by (auto simp: upd_entry_def upd_sft_def idx_to_sft_def split: if_splits)
  have k: "ks (fsys ?s1) = ks (fsys s)" "local_file XFR_READ ?sf" "access_free (cu_psp ?s1) ?sf count (fsys ?s1)"
    using h(3) lock by (simp_all add: upd_entry_def upd_sft_def local_file_def access_free_def share_link_def)
  show ?thesis
    using s1 DosRWSft_read [OF i get_sft_idx_small [OF h(1)] k(2,3), of E rd M X V g cs buf high] ok g len h(1) unfolding k(1) n_def by auto
qed

text \<open>
  C5. A program that moves a handle to a position and reads gets the bytes of the file from there on: \<^verbatim>\<open>DosSeek\<close> from the start of the file
  succeeds for every position, also behind the end, and \<^verbatim>\<open>DosRWSft\<close> then returns as many bytes as
  asked for or left (none behind the end), equal to those of the sectors of the clusters of the file, when no
  lock of another process is in the way. Neither changes the file allocation table or the data.
\<close>

theorem seek_and_read:
  assumes h: "get_sft_idx h s = int fd" "idx_to_sft fd (fsys s) = Some sf" "local_file XFR_READ sf"
    and lock: "access_free (cu_psp s) (sf\<lparr>sft_posit := pos\<rparr>) count (fsys s)"
    and ok: "fat_ok (blk E) rd M X V (sft_dcb sf) g (ks (fsys s))" "sft_ok g (fat_at rd X g (ks (fsys s))) cs sf"
    and g: "data_geom M g" "dpb_secsize g = 512" and len: "unat count \<le> length buf"
  defines "n \<equiv> min (unat count) (unat (sft_size sf) - unat pos)"
  shows "\<exists>s1 f. DosSeek E h pos 0 s = Some (SUCCESS, pos, s1)
    \<and> DosRWSft E high (get_sft_idx h s1) count buf XFR_READ s1 = Some (int n, overlay 0 (file_bytes V g cs (unat pos) n) buf, s1\<lparr>fsys := f\<rparr>)
    \<and> read_result (blk E) rd M X V g cs fd (sf\<lparr>sft_posit := pos\<rparr>) n (fsys s1) f"
  using seek_read [OF assms(1-9)] unfolding n_def by blast

subsection \<open>Writing and reading back\<close>

lemma write_flags:
  assumes "local_file mode sf" "sft_flags sf' = sft_flags sf AND NOT (SFT_FCLEAN OR SFT_FDATE)" "sft_mode sf' = sft_mode sf"
  shows "local_file mode sf'"
proof -
  have "(f AND NOT (SFT_FCLEAN OR SFT_FDATE)) AND SFT_FSHARED = f AND SFT_FSHARED" "(f AND NOT (SFT_FCLEAN OR SFT_FDATE)) AND SFT_FDEVICE = f AND SFT_FDEVICE" for f :: u16
    by (simp_all add: attrs and.assoc)
  then show ?thesis using assms by (simp add: local_file_def)
qed

lemma DosRWSft_write:
  assumes sf: "idx_to_sft fd (fsys s) = Some sf" "fd < 255" "local_file XFR_WRITE sf" and lock: "access_free (cu_psp s) sf count (fsys s)"
    and ok: "fat_ok (blk E) rd M X V (sft_dcb sf) g (ks (fsys s))" "sft_ok g (fat_at rd X g (ks (fsys s))) cs sf"
    and g: "data_geom M g" "dpb_secsize g = 512" "data_fits g" "\<exists>c. in_fat g c"
    and len: "0 < unat count" "unat count \<le> length buf" "unat (sft_posit sf) + unat count < 4294967296"
  shows "\<exists>m f. DosRWSft E high (int fd) count buf XFR_WRITE s = Some (int m, buf, s\<lparr>fsys := f\<rparr>) \<and> m \<le> unat count
    \<and> write_result (blk E) rd M X V g cs fd sf (take m buf) (fsys s) f \<and> (m < unat count \<longrightarrow> disk_full g (fat_at rd X g (ks f)))"
proof -
  obtain m f where "rwblock (blk E) high fd buf count XFR_WRITE (fsys s) = Some (int m, buf, f)" "m \<le> unat count"
    "write_result (blk E) rd M X V g cs fd sf (take m buf) (fsys s) f" "m < unat count \<longrightarrow> disk_full g (fat_at rd X g (ks f))"
    using rwblock_writes [OF sf(1,2) ok g len, of high] by blast
  moreover have "share_may_access sf count s = Some (SUCCESS, s)" using lock by (rule may_access_free)
  ultimately show ?thesis using sf(1,3)
    by (intro exI [of _ m] exI [of _ f]) (simp add: DosRWSft_def sft_at_iff local_file_def XFR_READ_def XFR_WRITE_def XFR_FORCE_WRITE_def)
qed

lemma access_free_posit: "access_free psp (sf\<lparr>sft_posit := p\<rparr>) n f = access_free psp (sf'\<lparr>sft_posit := p\<rparr>) n f'"
  if "sft_shroff sf = sft_shroff sf'" "share_installed f = share_installed f'" "shares f = shares f'"
  using that by (simp add: access_free_def share_link_def)

text \<open>
  C6. What a program writes it reads back: after \<^verbatim>\<open>DosSeek\<close> to any position, in the file, at its end or behind it, and
  \<^verbatim>\<open>DosRWSft\<close> to write at least one byte (ending below 4 GB) of a file on a drive with sectors of 512 bytes, the same
  position holds the bytes that were written, whether they replaced bytes of the
  file or made it longer, and whether they are still in the cache or already on the disk. SHARE may be installed: no lock of
  another process is in the way of the region or a beginning of it. Fewer bytes than asked for are written
  only when the disk has no free cluster left.
\<close>

theorem write_then_read:
  assumes h: "get_sft_idx h s = int fd" "idx_to_sft fd (fsys s) = Some sf" "local_file XFR_READ sf" "local_file XFR_WRITE sf"
    and lock: "\<forall>n \<le> count. access_free (cu_psp s) (sf\<lparr>sft_posit := pos\<rparr>) n (fsys s)"
    and ok: "fat_ok (blk E) rd M X V (sft_dcb sf) g (ks (fsys s))" "sft_ok g (fat_at rd X g (ks (fsys s))) cs sf"
    and g: "data_geom M g" "dpb_secsize g = 512" "data_fits g" "\<exists>c. in_fat g c"
    and len: "0 < unat count" "unat count \<le> length buf" "unat pos + unat count < 4294967296" "unat count \<le> length buf'"
  shows "\<exists>m s1 f s2 f2. DosSeek E h pos 0 s = Some (SUCCESS, pos, s1)
    \<and> DosRWSft E high (get_sft_idx h s1) count buf XFR_WRITE s1 = Some (int m, buf, s1\<lparr>fsys := f\<rparr>)
    \<and> m \<le> unat count \<and> (m < unat count \<longrightarrow> disk_full g (fat_at rd X g (ks f)))
    \<and> DosSeek E h pos 0 (s1\<lparr>fsys := f\<rparr>) = Some (SUCCESS, pos, s2)
    \<and> DosRWSft E high' (get_sft_idx h s2) (of_nat m) buf' XFR_READ s2 = Some (int m, overlay 0 (take m buf) buf', s2\<lparr>fsys := f2\<rparr>)"
proof -
  let ?s1 = "upd_entry fd (\<lambda>sf. sf\<lparr>sft_posit := pos\<rparr>) s" and ?sf = "sf\<lparr>sft_posit := pos\<rparr>"
  have s1: "DosSeek E h pos 0 s = Some (SUCCESS, pos, ?s1)" using h by (intro DosSeek_set) (auto simp: local_file_def)
  have i: "idx_to_sft fd (fsys ?s1) = Some ?sf" using h(2) by (auto simp: upd_entry_def upd_sft_def idx_to_sft_def split: if_splits)
  have k: "ks (fsys ?s1) = ks (fsys s)" "local_file XFR_WRITE ?sf" "local_file XFR_READ ?sf"
    "n \<le> count \<Longrightarrow> access_free (cu_psp ?s1) ?sf n (fsys ?s1)" for n
    using h lock by (simp_all add: upd_entry_def upd_sft_def local_file_def access_free_def share_link_def)
  have g1: "get_sft_idx h ?s1 = int fd" using h(1) by simp
  note small = get_sft_idx_small [OF h(1)]
  obtain m f where w: "DosRWSft E high (int fd) count buf XFR_WRITE ?s1 = Some (int m, buf, ?s1\<lparr>fsys := f\<rparr>)" "m \<le> unat count"
    "write_result (blk E) rd M X V g cs fd ?sf (take m buf) (fsys ?s1) f" "m < unat count \<longrightarrow> disk_full g (fat_at rd X g (ks f))"
    using DosRWSft_write [OF i small k(2) k(4) [OF order_refl] _ _ g len(1,2), of E rd X V cs high] ok len(3) k(1) by auto
  have lm: "length (take m buf) = m" using w(2) len(2) by simp
  have sfs: "sft_dcb ?sf = sft_dcb sf" "sft_size ?sf = sft_size sf" "sft_posit ?sf = pos" "sft_shroff ?sf = sft_shroff sf" by simp_all
  obtain V' es sf' where r: "fat_ok (blk E) rd M X V' (sft_dcb sf) g (ks f)" "wrote_file g (cs @ es) (unat pos) (take m buf) V V'"
    "idx_to_sft fd f = Some sf'" "sft_ok g (fat_at rd X g (ks f)) (cs @ es) sf'" "sft_dcb sf' = sft_dcb sf"
    "take m buf \<noteq> [] \<longrightarrow> unat (sft_size sf') = max (unat (sft_size sf)) (unat pos + m)" "sft_flags sf' = sft_flags ?sf AND NOT (SFT_FCLEAN OR SFT_FDATE)" "sft_mode sf' = sft_mode ?sf"
    "sft_shroff sf' = sft_shroff sf" "share_installed f = share_installed (fsys ?s1)" "shares f = shares (fsys ?s1)"
    using w(3) unfolding write_result_def lm sfs by blast
  have size: "m \<noteq> 0 \<Longrightarrow> unat (sft_size sf') = max (unat (sft_size sf)) (unat pos + m)" using r(6) lm by auto
  let ?s2 = "?s1\<lparr>fsys := f\<rparr>"
  have "m < 65536" using w(2) unat_lt16 [of count] by (rule le_less_trans)
  then have um: "unat (of_nat m :: u16) = m" by (simp add: unat_of_nat)
  then have "of_nat m \<le> count" using w(2) by (simp add: word_le_nat_alt)
  then have free: "access_free (cu_psp ?s2) (sf'\<lparr>sft_posit := pos\<rparr>) (of_nat m) (fsys ?s2)"
    using k(4) [of "of_nat m"] r(9-11) access_free_posit [of sf' sf f "fsys ?s1"] by simp
  have k2: "get_sft_idx h ?s2 = int fd" "idx_to_sft fd (fsys ?s2) = Some sf'" "local_file XFR_READ sf'" "access_free (cu_psp ?s2) (sf'\<lparr>sft_posit := pos\<rparr>) (of_nat m) (fsys ?s2)"
    using g1 r(3) write_flags [OF k(3) r(7,8)] free by simp_all
  then have n: "min (unat (of_nat m :: u16)) (unat (sft_size sf') - unat pos) = m" using size um by (cases "m = 0") simp_all
  have lb: "unat (of_nat m :: u16) \<le> length buf'" using um w(2) len(4) by simp
  have ok2: "fat_ok (blk E) rd M X V' (sft_dcb sf') g (ks (fsys ?s2))" "sft_ok g (fat_at rd X g (ks (fsys ?s2))) (cs @ es) sf'" using r(1,4,5) by simp_all
  obtain s2 f2 where e: "DosSeek E h pos 0 ?s2 = Some (SUCCESS, pos, s2)"
    "DosRWSft E high' (get_sft_idx h s2) (of_nat m) buf' XFR_READ s2 = Some (int m, overlay 0 (file_bytes V' g (cs @ es) (unat pos) m) buf', s2\<lparr>fsys := f2\<rparr>)"
    using seek_read [OF k2 ok2 g(1,2) lb, of high'] unfolding n by blast
  have "file_bytes V' g (cs @ es) (unat pos) m = take m buf"
  proof (cases "m = 0")
    case False
    then have "unat pos + length (take m buf) \<le> 512 * spc g * length (cs @ es)" using r(4) size lm by (auto simp: sft_ok_def FatFile.covers_def)
    from wrote_reads [OF r(2) this] show ?thesis unfolding lm .
  qed (simp add: file_bytes_def)
  then show ?thesis using s1 w(1,2,4) e g1 by (intro exI [of _ m] exI [of _ ?s1] exI [of _ f] exI [of _ s2] exI [of _ f2]) simp
qed

subsection \<open>A file that another process has locked\<close>

definition locked_share :: share where
  "locked_share = demo_two\<lparr>lock_table := [new_lock 5 0 100 110, zero_lock]\<rparr>"

definition locked_sft :: sft where
  "locked_sft = demo_sft\<lparr>sft_shroff := 1\<rparr>"

definition locked_dos :: "(disk, unit) dos" where
  "locked_dos = (demo_dos demo_kst)\<lparr>fsys := (demo_fs demo_kst)\<lparr>sfts := [locked_sft], share_installed := True, shares := locked_share\<rparr>\<rparr>"

lemma locked_facts:
  "sft_at 0 locked_dos = Some locked_sft" "local_file XFR_READ locked_sft" "share_link locked_sft (fsys locked_dos)"
  "region_locked (cu_psp locked_dos) (sft_shroff locked_sft) (sft_posit locked_sft) 20 (shares (fsys locked_dos))"
proof -
  show "sft_at 0 locked_dos = Some locked_sft" by (simp add: sft_at_def idx_to_sft_def locked_dos_def locked_sft_def demo_sft_def)
  show "local_file XFR_READ locked_sft" by (simp add: local_file_def locked_sft_def demo_sft_def XFR_READ_def XFR_WRITE_def)
  show "share_link locked_sft (fsys locked_dos)" using demo_two_wf
    by (simp add: share_link_def locked_dos_def locked_sft_def locked_share_def share_wf_def new_lock_def zero_lock_def demo_two_def shareA_def)
  show "region_locked (cu_psp locked_dos) (sft_shroff locked_sft) (sft_posit locked_sft) 20 (shares (fsys locked_dos))"
    by (simp add: region_locked_def locked_dos_def locked_sft_def demo_sft_def locked_share_def lock_region_def new_lock_def demo_files
      same_name_def demo_dos_def ShareSafety.covers_def fileA_def)
qed

theorem DosRWSft_locked_witness:
  "\<exists>t. DosRWSft demo_env (\<lambda>_. False) 0 20 (replicate 20 7) XFR_READ locked_dos = Some (-0x21, replicate 20 7, t)"
  using DosRWSft_locked [OF locked_facts] by blast

theorem refused_then_granted_witness:
  "\<exists>t. share_may_access locked_sft 20 locked_dos = Some (-0x21, t) \<and> share_may_access locked_sft 20 t = Some (SUCCESS, t)"
proof -
  have "\<not> still_locked (cu_psp locked_dos) (sft_shroff locked_sft) (sft_posit locked_sft) 20 (shares (fsys locked_dos))"
    by (auto simp: still_locked_def locked_dos_def locked_share_def locked_sft_def new_lock_def zero_lock_def demo_files fileA_def cname_def)
  then show ?thesis using refused_then_granted [OF locked_facts(3,4)] by auto
qed

theorem seek_and_read_witness:
  "\<exists>(s :: (disk, unit) dos) s1 s2. DosSeek demo_env 0 600 0 s = Some (SUCCESS, 600, s1)
    \<and> DosRWSft demo_env (\<lambda>_. False) (get_sft_idx 0 s1) 1000 (replicate 1000 1) XFR_READ s1 = Some (100, replicate 100 0 @ replicate 900 1, s2)"
proof -
  obtain f :: "(disk, unit) fs" where f: "idx_to_sft 0 f = Some demo_sft" "fat_ok demo_driver disk_read demo_M {16, 32} demo_V (sft_dcb demo_sft) demo_dpb (ks f)"
    "sft_ok demo_dpb (fat_at disk_read {16, 32} demo_dpb (ks f)) [5, 9] demo_sft" "f = demo_fs (ks f)" using demo_open by blast
  let ?s = "demo_dos (ks f)"
  have s: "fsys ?s = f" using f(4) by (simp add: demo_dos_def)
  have h: "get_sft_idx 0 ?s = int 0" "local_file XFR_READ demo_sft" "access_free (cu_psp ?s) (demo_sft\<lparr>sft_posit := 600\<rparr>) 1000 (fsys ?s)"
    by (simp_all add: get_sft_idx_def cur_psp_def demo_dos_def local_file_def demo_sft_def XFR_READ_def XFR_WRITE_def access_free_def demo_fs_def)
  have d: "blk demo_env = demo_driver" "unat (1000 :: u16) \<le> length (replicate 1000 (1 :: u8))" "dpb_secsize demo_dpb = 512"
    by (simp_all add: demo_env_def demo_dpb_def)
  show ?thesis
    using seek_and_read [OF h(1) _ h(2,3), of demo_env disk_read demo_M "{16, 32}" demo_V demo_dpb "[5, 9]" "replicate 1000 1" "\<lambda>_. False"] f(1-3) demo_data d
    unfolding s d(1) by (auto simp: demo_bytes overlay_def demo_sft_def)
qed

theorem write_then_read_witness:
  "\<exists>(s :: (disk, unit) dos) m s1 f s2 s3. DosSeek demo_env 0 3000 0 s = Some (SUCCESS, 3000, s1)
    \<and> DosRWSft demo_env (\<lambda>_. False) (get_sft_idx 0 s1) 1000 (replicate 1000 7) XFR_WRITE s1 = Some (int m, replicate 1000 7, s1\<lparr>fsys := f\<rparr>)
    \<and> DosSeek demo_env 0 3000 0 (s1\<lparr>fsys := f\<rparr>) = Some (SUCCESS, 3000, s2)
    \<and> DosRWSft demo_env (\<lambda>_. False) (get_sft_idx 0 s2) (of_nat m) (replicate 1000 0) XFR_READ s2
      = Some (int m, overlay 0 (take m (replicate 1000 7)) (replicate 1000 0), s3)"
proof -
  obtain f :: "(disk, unit) fs" where f: "idx_to_sft 0 f = Some demo_sft" "fat_ok demo_driver disk_read demo_M {16, 32} demo_V (sft_dcb demo_sft) demo_dpb (ks f)"
    "sft_ok demo_dpb (fat_at disk_read {16, 32} demo_dpb (ks f)) [5, 9] demo_sft" "f = demo_fs (ks f)" using demo_open by blast
  let ?sf = "demo_sft\<lparr>sft_mode := 2\<rparr>" and ?f = "f\<lparr>sfts := [demo_sft\<lparr>sft_mode := 2\<rparr>]\<rparr>"
  let ?s = "(demo_dos (ks f))\<lparr>fsys := ?f\<rparr>"
  have i: "idx_to_sft 0 (fsys ?s) = Some ?sf" by (simp add: idx_to_sft_def demo_sft_def)
  have ok: "fat_ok (blk demo_env) disk_read demo_M {16, 32} demo_V (sft_dcb ?sf) demo_dpb (ks (fsys ?s))"
    "sft_ok demo_dpb (fat_at disk_read {16, 32} demo_dpb (ks (fsys ?s))) [5, 9] ?sf" using f(2,3) by (simp_all add: demo_env_def sft_ok_def sft_index_def)
  have "\<not> share_installed f" using f(4) by (metis demo_fs_def fs.select_convs(6))
  then have lock: "\<forall>n \<le> 1000. access_free (cu_psp ?s) (?sf\<lparr>sft_posit := 3000\<rparr>) n (fsys ?s)" by (simp add: access_free_def)
  have h: "get_sft_idx 0 ?s = int 0" "local_file XFR_READ ?sf" "local_file XFR_WRITE ?sf" "dpb_secsize demo_dpb = 512"
    by (simp_all add: get_sft_idx_def cur_psp_def demo_dos_def local_file_def demo_sft_def XFR_READ_def XFR_WRITE_def demo_dpb_def O_WRONLY_def attrs)
  show ?thesis
    using write_then_read [OF h(1) i h(2,3) lock ok demo_data h(4) demo_fits, of "replicate 1000 7" "replicate 1000 0" "\<lambda>_. False" "\<lambda>_. False"] by fastforce
qed

end
