(* ===== verification/NameProps.thy ===== *)
theory NameProps
  imports NameOps TruenameProps
begin

text \<open>
  Free space in the words of the old call, and the names of temporary files.
\<close>

subsection \<open>Free space\<close>

lemma at_most16_min: "unat (at_most16 n) = min (unat n) 65525"
proof (cases "n > ucast FAT_MAGIC16")
  case True
  then show ?thesis by (simp add: at_most16_def FAT_MAGIC16_def word_less_nat_alt)
next
  case False
  then have "unat n \<le> 65525" by (simp add: FAT_MAGIC16_def word_less_nat_alt)
  then show ?thesis using False by (simp add: at_most16_def unat_ucast_le)
qed

text \<open>
  The limit 65525 is odd: 32762 clusters of 128 sectors are reported as 65525 of 64 sectors, one more than
  there are.
\<close>

lemma twice16_eq: "unat (twice16 n) = (if unat n < 32762 then 2 * unat n else 65525)"
  by (simp add: twice16_def FAT_MAGIC16_def push_bit_eq_mult unat_word_ariths word_less_nat_alt)

text \<open>
  How often the clusters of a large drive are joined in pairs: until a word can count them or a group has 32 kilobytes.
\<close>

definition group_level :: "nat \<Rightarrow> nat \<Rightarrow> nat \<Rightarrow> bool" where
  "group_level c t k \<longleftrightarrow> (\<forall>j < k. 65525 < t div 2 ^ j \<and> c * 2 ^ j < 0x8000) \<and> (t div 2 ^ k \<le> 65525 \<or> 0x8000 \<le> c * 2 ^ k)"

lemma group_level_Suc: "65525 < t \<Longrightarrow> c < 0x8000 \<Longrightarrow> group_level (2 * c) (t div 2) k \<Longrightarrow> group_level c t (Suc k)"
  by (auto simp: group_level_def less_Suc_eq_0_disj div_mult2_eq ac_simps)

lemma group_clusters_exact:
  assumes "unat p \<le> unat c" "unat c < 65536" "group_clusters c p t n = (p', t', n')"
  shows "\<exists>k. group_level (unat c) (unat t) k \<and> unat p' = unat p * 2 ^ k \<and> unat n' = unat n div 2 ^ k"
  using assms
proof (induction c p t n rule: group_clusters.induct)
  case (1 c p t n)
  show ?case
  proof (cases "t > ucast FAT_MAGIC16 \<and> c < 0x8000")
    case True
    have c: "65525 < unat t" "unat c < 0x8000" "unat p < 0x8000" using True 1(2) by (auto simp: word_less_nat_alt FAT_MAGIC16_def)
    then have d: "unat (push_bit 1 c) = 2 * unat c" "unat (push_bit 1 p) = 2 * unat p"
      by (simp_all add: push_bit_eq_mult unat_word_ariths)
    have half: "unat (drop_bit 1 x) = unat x div 2" for x :: u32 by (simp add: drop_bit_eq_div unat_div)
    have "group_clusters (push_bit 1 c) (push_bit 1 p) (drop_bit 1 t) (drop_bit 1 n) = (p', t', n')" using 1(4) True by (simp add: group_clusters.simps [of c])
    then obtain k where k: "group_level (2 * unat c) (unat t div 2) k" "unat p' = 2 * unat p * 2 ^ k" "unat n' = unat n div 2 div 2 ^ k"
      using 1(1) [OF True] 1(2) c d half by auto
    then show ?thesis using group_level_Suc [OF c(1,2) k(1)] by (intro exI [of _ "Suc k"]) (simp add: div_mult2_eq)
  next
    case False
    then have "group_level (unat c) (unat t) 0" by (simp add: group_level_def word_less_nat_alt FAT_MAGIC16_def linorder_not_less)
    then show ?thesis using 1(4) False by (intro exI [of _ "0::nat"]) (auto simp: group_clusters.simps [of c])
  qed
qed

text \<open>The geometry the call relies on: clusters of at most 64 kilobytes less a sector, a power of two of sectors.\<close>

definition cluster_ok :: "dpb \<Rightarrow> bool" where
  "cluster_ok d \<longleftrightarrow> unat (dpb_clsmask d) + 1 \<le> 2 ^ unat (dpb_shftcnt d) * unat (dpb_secsize d) \<and> 2 ^ unat (dpb_shftcnt d) * unat (dpb_secsize d) < 65536"

lemma clsmask_word: "unat (ucast (dpb_clsmask d) + 1 :: u16) = unat (dpb_clsmask d) + 1"
proof -
  have "unat (dpb_clsmask d) < 256" using unsigned_less [of "dpb_clsmask d", where ?'a = nat] by simp
  then show ?thesis by (simp add: unat_word_ariths)
qed

lemma free16_exact:
  assumes "free16 d navc = (sc, n, nc)"
  shows "if unat (dpb_clsmask d) < 64 then unat sc = unat (dpb_clsmask d) + 1 \<and> n = navc
    else unat sc = (unat (dpb_clsmask d) + 1) div 2 \<and> unat n = (if unat navc < 32762 then 2 * unat navc else 65525)"
proof -
  let ?spc = "ucast (dpb_clsmask d) + 1 :: u16"
  have "?spc > 64 \<longleftrightarrow> \<not> unat (dpb_clsmask d) < 64" using clsmask_word [of d] by (simp add: word_less_nat_alt) linarith
  moreover have "unat (drop_bit 1 ?spc) = (unat (dpb_clsmask d) + 1) div 2" using clsmask_word [of d] by (simp add: drop_bit_eq_div unat_div)
  ultimately show ?thesis using assms clsmask_word [of d] by (auto simp: free16_def Let_def twice16_eq split: if_splits)
qed

text \<open>The bytes of a cluster of a FAT32 drive.\<close>

definition cluster_bytes :: "dpb \<Rightarrow> nat" where
  "cluster_bytes d = 2 ^ unat (dpb_shftcnt d) * unat (dpb_secsize d)"

lemma free32_exact:
  assumes "free32 d nfree = (sc, n, nc)" "cluster_ok d"
  shows "\<exists>k. group_level (cluster_bytes d) (unat (dpb_xsize d - 1)) k \<and> unat sc = (unat (dpb_clsmask d) + 1) * 2 ^ k \<and> unat n = min (unat nfree div 2 ^ k) 65525"
proof -
  let ?c = "push_bit (unat (dpb_shftcnt d)) (ucast (dpb_secsize d)) :: u32" and ?p = "ucast (dpb_clsmask d) + 1 :: u16"
  obtain t' n' where g: "group_clusters ?c ?p (dpb_xsize d - 1) nfree = (sc, t', n')" "n = at_most16 n'" "nc = at_most16 t'"
    using assms(1) by (auto simp: free32_def split: prod.split_asm)
  have c: "unat ?c = cluster_bytes d"
  proof -
    have "unat (ucast (dpb_secsize d) :: u32) = unat (dpb_secsize d)" by (rule unat_ucast_le) (rule less_trans [OF unat_lt16], simp)
    then have "unat ?c = take_bit 32 (push_bit (unat (dpb_shftcnt d)) (unat (dpb_secsize d)))" by (simp add: unsigned_push_bit_eq)
    then show ?thesis using assms(2) by (simp add: cluster_ok_def cluster_bytes_def take_bit_eq_mod push_bit_eq_mult ac_simps)
  qed
  have "unat ?p \<le> unat ?c" "unat ?c < 65536" using assms(2) c clsmask_word [of d] by (auto simp: cluster_ok_def cluster_bytes_def)
  from group_clusters_exact [OF this g(1)] show ?thesis unfolding g(2) at_most16_min c clsmask_word by auto
qed

text \<open>The sectors per cluster and the free clusters that are reported for a drive with \<open>F\<close> free clusters.\<close>

definition reported :: "dpb \<Rightarrow> nat \<Rightarrow> nat \<Rightarrow> nat \<Rightarrow> bool" where
  "reported d F sc n \<longleftrightarrow> (let K = unat (dpb_clsmask d) + 1 in
     if ISFAT32 d then \<exists>k. group_level (cluster_bytes d) (unat (dpb_xsize d - 1)) k \<and> sc = K * 2 ^ k \<and> n = min (F div 2 ^ k) 65525
     else if K \<le> 64 then sc = K \<and> n = F
     else sc = K div 2 \<and> n = (if F < 32762 then 2 * F else 65525))"

lemma reported_honest:
  assumes "reported d F sc n"
  shows "sc * n \<le> (unat (dpb_clsmask d) + 1) * F + (if \<not> ISFAT32 d \<and> 64 \<le> unat (dpb_clsmask d) \<and> F = 32762 then (unat (dpb_clsmask d) + 1) div 2 else 0)"
proof -
  let ?K = "unat (dpb_clsmask d) + 1"
  have half: "?K div 2 * (2 * m) \<le> ?K * m" for m by (metis div_times_less_eq_dividend mult.assoc mult_le_mono1)
  have fat32: "?K * 2 ^ k * min (F div 2 ^ k) 65525 \<le> ?K * F" for k
  proof -
    have "?K * (2 ^ k * min (F div 2 ^ k) 65525) \<le> ?K * F"
      by (intro mult_le_mono2 le_trans [OF mult_le_mono2 [OF min.cobounded1] times_div_less_eq_dividend])
    then show ?thesis by (simp only: mult.assoc)
  qed
  consider "ISFAT32 d" | "\<not> ISFAT32 d" "?K \<le> 64" | "\<not> ISFAT32 d" "64 < ?K" "F \<le> 32762" | "\<not> ISFAT32 d" "64 < ?K" "32762 < F" by linarith
  then show ?thesis
  proof cases
    case 3
    show ?thesis
    proof (cases "F = 32762")
      case True
      have "?K div 2 * 65525 = ?K div 2 * (2 * 32762) + ?K div 2" by simp
      then show ?thesis using assms 3 True half [of 32762] by (simp add: reported_def Let_def)
    qed (use assms 3 half [of F] in \<open>simp add: reported_def Let_def\<close>)
  next
    case 4
    have "?K div 2 * 65525 \<le> ?K div 2 * (2 * F)" using 4(3) by (intro mult_le_mono2) simp
    also have "\<dots> \<le> ?K * F" by (rule half)
    finally show ?thesis using assms 4 by (simp add: reported_def Let_def)
  qed (use assms fat32 in \<open>auto simp: reported_def Let_def\<close>)
qed

text \<open>
  C25. The free space a program is told is there. On a local drive whose medium is in order, \<^verbatim>\<open>DosGetFree\<close>
  counts the free clusters of the file allocation table, which it does not change, and reports them in words. With at most 64
  sectors per cluster a FAT12 or FAT16 drive gets the exact numbers; with more, half the sectors per
  cluster and twice the clusters, but 65525 from 32762 free clusters on. A FAT32 drive gets its clusters joined
  in pairs as often as a word needs to count them, at most to 32 kilobytes; the number is rounded down, cut off at 65525, and exact when nothing has
  to be joined or cut off. The product of the two numbers is never more than the free sectors, with one exception: on FAT12 and FAT16 drives with more
  than 64 sectors per cluster, exactly 32762 free clusters are reported as half a cluster more.
\<close>

theorem DosGetFree_honest:
  assumes c: "get_cds1 (ucast drive) s = Some c" "cdsFlags c AND CDSNETWDRV = 0" "cdsDpb c = Some dp"
    and m: "media_check (blk E) (med E) (bios_drive E) (Some dp) (ks (fsys s)) = Some (rc, t)" "0 \<le> rc"
    and ok: "fat_ok (blk E) rd M X V dp g t" "\<exists>c. in_fat g c" and cl: "ISFAT32 (dpbs t dp) \<Longrightarrow> cluster_ok (dpbs t dp)"
  defines "d \<equiv> dpbs t dp" and "F \<equiv> card {c. in_fat g c \<and> fat_at rd X g t c = FREE}"
  shows "\<exists>sc navc nc f. DosGetFree E rg drive True s = Some (Some (sc, navc, dpb_secsize d, nc), s\<lparr>fsys := f\<rparr>)
    \<and> fat_at rd X g (ks f) = fat_at rd X g t \<and> reported d F (unat sc) (unat navc)
    \<and> unat sc * unat navc \<le> (unat (dpb_clsmask d) + 1) * F
        + (if \<not> ISFAT32 d \<and> 64 \<le> unat (dpb_clsmask d) \<and> F = 32762 then (unat (dpb_clsmask d) + 1) div 2 else 0)"
proof -
  obtain n t2 where n: "dos_free (blk E) dp t = Some (n, t2)" "unat n = F" "fat_at rd X g t2 = fat_at rd X g t"
    using dos_free_counts [OF ok] unfolding F_def by blast
  obtain sc navc nc where r: "(if ISFAT32 d then free32 d n else free16 d (ucast n)) = (sc, navc, nc)" by (metis prod_cases3)
  have D: "DosGetFree E rg drive True s = Some (Some (sc, navc, dpb_secsize d, nc), s\<lparr>fsys := (fsys s)\<lparr>ks := t2\<rparr>\<rparr>)"
    using c m n(1) r unfolding d_def by (simp add: DosGetFree_def Let_def)
  have small: "unat (ucast n :: u16) = F" if "\<not> ISFAT32 d"
    using free_count_less [OF fat_ok_sel(6) [OF ok(1)] ok(2), of "fat_at rd X g t"] that n(2) geom_eq(2) [OF fat_ok_sel(2) [OF ok(1)]]
    unfolding d_def F_def free_count_def by (subst unat_ucast_le) auto
  have "reported d F (unat sc) (unat navc)"
  proof (cases "ISFAT32 d")
    case True
    then show ?thesis using free32_exact [of d n] r cl n(2) unfolding d_def by (auto simp: reported_def)
  next
    case False
    then show ?thesis using free16_exact [of d "ucast n"] r small by (auto simp: reported_def split: if_splits)
  qed
  with reported_honest [OF this] show ?thesis using D n(3) by auto
qed

theorem DosGetFree_honest_witness:
  "\<exists>navc nc s. DosGetFree demo_env (\<lambda>_. None) 0 True (demo_dos demo_kst) = Some (Some (1, navc, 512, nc), s)
    \<and> unat navc = card {c. in_fat demo_dpb c \<and> fat_at disk_read {16, 32} demo_dpb demo_kst c = FREE}"
proof -
  let ?s = "demo_dos demo_kst" and ?F = "card {c. in_fat demo_dpb c \<and> fat_at disk_read {16, 32} demo_dpb demo_kst c = FREE}"
  obtain c where c: "get_cds1 (ucast (0 :: u8)) ?s = Some c" "cdsFlags c AND CDSNETWDRV = 0" "cdsDpb c = Some 1"
    by (simp add: get_cds1_def get_cds_def demo_dos_def demo_fs_def CDSVALID_def CDSPHYSDRV_def CDSJOINED_def CDSNETWDRV_def)
  have k: "ks (fsys ?s) = demo_kst" "dpbs demo_kst 1 = demo_dpb" "dpb_flags demo_dpb = 0" "\<not> ISFAT32 demo_dpb" "blk demo_env = demo_driver"
    by (simp_all add: demo_dos_def demo_fs_def demo_kst_def demo_dpb_def ISFAT32_def demo_env_def)
  have m: "media_check (blk demo_env) (med demo_env) (bios_drive demo_env) (Some 1) (ks (fsys ?s)) = Some (SUCCESS, demo_kst)" using demo_media k by simp
  have d: "dpb_secsize demo_dpb = 512" "dpb_clsmask demo_dpb = 0" "\<exists>c. in_fat demo_dpb c" using demo_in_fat by (auto simp: demo_dpb_def)
  have one: "unat x = 1 \<longleftrightarrow> x = 1" for x :: u16 by (simp add: word_unat_eq_iff)
  show ?thesis using DosGetFree_honest [OF c m, of disk_read demo_M "{16, 32}" demo_V demo_dpb "\<lambda>_. None"] demo_fat d k one
    by (auto simp: SUCCESS_def reported_def Let_def)
qed

subsection \<open>Temporary files\<close>

text \<open>
  The letters of a temporary file for programs of old versions of DOS: not digits, as the code means, and
  for the value 9 a bracket, which \<^verbatim>\<open>truename\<close> refuses.
\<close>

lemma tmp_letter_illegal: "tmp_letter 4 9 = 0x5b \<and> \<not> DirChar (tmp_letter 4 9) \<and> tmp_letter 4 0 = 0x52"
  by (simp add: tmp_letter_def DirChar_def DirChars_def)

end
