(* ===== verification/CharIo.thy ===== *)
theory CharIo
  imports Handles
begin

text \<open>
  The console: \<^verbatim>\<open>kernel/chario.c\<close> above its requests to drivers, and \<^verbatim>\<open>kernel/break.c\<close>. Keys are read, echoed and edited
  to lines, output is expanded and the break key is watched. The kernel state below, \<open>rest\<close>, is arbitrary: the
  console and \<^verbatim>\<open>DosRWSft\<close> call each other, so \<^verbatim>\<open>DosRWSft\<close> is an argument here, as the console is one of its own.
\<close>

subsection \<open>Keys\<close>

definition CTL_C :: u8 where "CTL_C = 0x03"
definition CTL_F :: u16 where "CTL_F = 0x06"
definition BELL :: u8 where "BELL = 0x07"
definition BS :: u8 where "BS = 0x08"
definition HT :: u8 where "HT = 0x09"
definition LF :: u8 where "LF = 0x0a"
definition CR :: u8 where "CR = 0x0d"
definition CTL_S :: u8 where "CTL_S = 0x13"
definition CTL_Z :: u8 where "CTL_Z = 0x1a"
definition ESC :: u16 where "ESC = 0x1b"
definition CTL_BS :: u16 where "CTL_BS = 0x7f"
definition INS :: u16 where "INS = 0x5200"
definition DEL :: u16 where "DEL = 0x5300"
definition F1 :: u16 where "F1 = 0x3b00"
definition F2 :: u16 where "F2 = 0x3c00"
definition F3 :: u16 where "F3 = 0x3d00"
definition F4 :: u16 where "F4 = 0x3e00"
definition F5 :: u16 where "F5 = 0x3f00"
definition F6 :: u16 where "F6 = 0x4000"
definition LEFT :: u16 where "LEFT = 0x4b00"
definition RIGHT :: u16 where "RIGHT = 0x4d00"
definition LINEBUFSIZECON :: u8 where "LINEBUFSIZECON = 128"
definition S_BUSY :: u16 where "S_BUSY = 0x0200"
definition C_NDREAD :: u8 where "C_NDREAD = 0x05"
definition C_ISTAT :: u8 where "C_ISTAT = 0x06"
definition C_IFLUSH :: u8 where "C_IFLUSH = 0x07"
definition STDIN :: u16 where "STDIN = 0"
definition STDOUT :: u16 where "STDOUT = 1"
definition STDAUX :: u16 where "STDAUX = 3"
definition STDPRN :: u16 where "STDPRN = 4"
definition SFT_FCONOUT :: u16 where "SFT_FCONOUT = 0x0002"

named_theorems keys \<open>characters and keys\<close>

declare CTL_C_def [keys] CTL_F_def [keys] BELL_def [keys] BS_def [keys] HT_def [keys] LF_def [keys] CR_def [keys] CTL_S_def [keys]
  CTL_Z_def [keys] ESC_def [keys] CTL_BS_def [keys] INS_def [keys] DEL_def [keys] F1_def [keys] F2_def [keys] F3_def [keys]
  F4_def [keys] F5_def [keys] F6_def [keys] LEFT_def [keys] RIGHT_def [keys] LINEBUFSIZECON_def [keys]

subsection \<open>State\<close>

text \<open>
  The variables of the console: the column of the cursor, the echo to the printer, and the two counters that
  say whether the kernel is being called and whether it is handling an error.
\<close>

record 's con =
  rest :: 's
  scr_pos :: u8
  PrinterEcho :: bool
  InDOS :: u8
  ErrorMode :: u8

text \<open>
  A call returns, or it is broken off: the break key leads to the program's interrupt 23, and the kernel does not
  come back to the call. A call that waits forever is \<^term>\<open>None\<close>.
\<close>

datatype ('a, 's) flow = Returns 'a 's | Breaks 's

definition andthen :: "('a, 's) flow option \<Rightarrow> ('a \<Rightarrow> 's \<Rightarrow> ('b, 's) flow option) \<Rightarrow> ('b, 's) flow option" where
  "andthen m f = (case m of None \<Rightarrow> None | Some (Returns a s) \<Rightarrow> f a s | Some (Breaks s) \<Rightarrow> Some (Breaks s))"

definition floop :: "('a \<Rightarrow> 's \<Rightarrow> ('r + 'a, 's) flow option) \<Rightarrow> 'a \<Rightarrow> 's \<Rightarrow> ('r, 's) flow option" where
  "floop body a s = loopM (\<lambda>(a, s). case body a s of
       None \<Rightarrow> None
     | Some (Breaks s') \<Rightarrow> Some (Inl (Breaks s'))
     | Some (Returns (Inl r) s') \<Rightarrow> Some (Inl (Returns r s'))
     | Some (Returns (Inr a') s') \<Rightarrow> Some (Inr (a', s'))) (a, s)"

definition plainly :: "('a \<times> 's) option \<Rightarrow> ('a, 's) flow option" where
  "plainly m = map_option (\<lambda>(a, s). Returns a s) m"

text \<open>
  What the console uses: the drivers by the addresses of their devices (the transfer area of a non-destructive
  read is the byte looked at), the system console, which devices take fast output and how it is made, the flag of
  the break key, the idle interrupt and whether the call may make it (\<^verbatim>\<open>user_r->AH < 0xd\<close>), the way out through interrupt 23, \<^verbatim>\<open>DosRWSft\<close>, the device of an entry of the file table
  (the system console for an invalid index, \<^term>\<open>None\<close> for a file) and whether its position is at its end, the
  entries and flags of the standard handles, and the byte the stack holds where \<^verbatim>\<open>read_char_sft_dev\<close> has its local variable.
\<close>

record 's conenv =
  chr_drv :: "u16 \<Rightarrow> (u8 list, 's) chardrv"
  syscon :: u16
  fastcon :: "u16 \<Rightarrow> bool"
  fast_put_char :: "u8 \<Rightarrow> 's \<Rightarrow> 's"
  break_flag :: "'s \<Rightarrow> bool"
  reset_flag :: "'s \<Rightarrow> 's"
  DosIdle_int :: "'s \<Rightarrow> 's"
  char_stack :: bool
  spawn_int23 :: "'s \<Rightarrow> 's"
  rw_sft :: "int \<Rightarrow> u8 list \<Rightarrow> u16 \<Rightarrow> 's con \<Rightarrow> (int \<times> u8 list, 's con) flow option"
  sft_to_dev :: "int \<Rightarrow> 's \<Rightarrow> u16 option"
  sft_at_end :: "int \<Rightarrow> 's \<Rightarrow> bool"
  std_idx :: "u16 \<Rightarrow> 's \<Rightarrow> int"
  std_flags :: "u16 \<Rightarrow> 's \<Rightarrow> u16"
  stack_byte :: u8

subsection \<open>Requests\<close>

definition CharIO :: "'s conenv \<Rightarrow> u16 \<Rightarrow> u8 \<Rightarrow> u8 \<Rightarrow> 's con \<Rightarrow> (int \<times> 's con) option" where
  "CharIO E dev c command s = do {
     (err, _, area, k) \<leftarrow> BinaryCharIO (chr_drv E dev) 1 command [c] (rest s);
     Some (if err = 0 then 256 else if err < 0 then err else int (unat (hd area)), s\<lparr>rest := k\<rparr>)
   }"

definition CharCmd :: "'s conenv \<Rightarrow> u16 \<Rightarrow> u8 \<Rightarrow> 's con \<Rightarrow> (u16 \<times> u8 list \<times> 's con) option" where
  "CharCmd E dev command s = do {
     (st, area, k) \<leftarrow> loopM (\<lambda>k. do {
       (err, st, _, area, k1) \<leftarrow> CharRequest (chr_drv E dev) command 0 [0] k;
       Some (if err = 1 then Inr k1 else Inl (st, area, k1))
     }) (rest s);
     Some (st, area, s\<lparr>rest := k\<rparr>)
   }"

definition Busy :: "'s conenv \<Rightarrow> u16 \<Rightarrow> 's con \<Rightarrow> (bool \<times> 's con) option" where
  "Busy E dev s = do { (st, _, s1) \<leftarrow> CharCmd E dev C_ISTAT s; Some (st AND S_BUSY \<noteq> 0, s1) }"

definition con_flush :: "'s conenv \<Rightarrow> u16 \<Rightarrow> 's con \<Rightarrow> 's con option" where
  "con_flush E dev s = do { (_, _, s1) \<leftarrow> CharCmd E dev C_IFLUSH s; Some s1 }"

definition StdinBusy :: "'s conenv \<Rightarrow> 's con \<Rightarrow> (bool \<times> 's con) option" where
  "StdinBusy E s =
     (let i = std_idx E STDIN (rest s) in
      case sft_to_dev E i (rest s) of
        Some dev \<Rightarrow> Busy E dev s
      | None \<Rightarrow> Some (sft_at_end E i (rest s), s))"

definition ndread :: "'s conenv \<Rightarrow> u16 \<Rightarrow> 's con \<Rightarrow> (int \<times> 's con) option" where
  "ndread E dev s = do {
     (st, area, s1) \<leftarrow> CharCmd E dev C_NDREAD s;
     Some (if st AND S_BUSY \<noteq> 0 then -1 else int (unat (hd area)), s1)
   }"

definition update_scr_pos :: "u8 \<Rightarrow> u8 \<Rightarrow> 's con \<Rightarrow> 's con" where
  "update_scr_pos c count s = s\<lparr>scr_pos :=
     (if c = CR then 0
      else if c = BS then if scr_pos s > 0 then scr_pos s - 1 else scr_pos s
      else if c \<noteq> LF \<and> c \<noteq> BELL then scr_pos s + count else scr_pos s)\<rparr>"

subsection \<open>The break key\<close>

text \<open>
  The functions below call each other through \<^verbatim>\<open>handle_break\<close>, which is their first argument \<open>hb\<close>; it is defined at the end.
\<close>

type_synonym 's handler = "u16 \<Rightarrow> int \<Rightarrow> 's con \<Rightarrow> (unit, 's con) flow option"

definition check_handle_break :: "'s handler \<Rightarrow> 's conenv \<Rightarrow> u16 \<Rightarrow> 's con \<Rightarrow> (u8, 's con) flow option" where
  "check_handle_break hb E dev s = do {
     (c, s1) \<leftarrow> (if \<not> break_flag E (rest s) then map_option (\<lambda>(r, t). (word_of_int r, t)) (ndread E (syscon E) s) else Some (CTL_C, s));
     (c', s2) \<leftarrow> (if c \<noteq> CTL_C \<and> dev \<noteq> syscon E then map_option (\<lambda>(r, t). (word_of_int r, t)) (ndread E dev s1) else Some (c, s1));
     andthen (if c' = CTL_C then hb dev (-1) s2 else Some (Returns () s2)) (\<lambda>_ s3. Some (Returns c' s3))
   }"

subsection \<open>Reading characters\<close>

text \<open>The loop that waits for a key of a device.\<close>

definition wait_key :: "'s handler \<Rightarrow> 's conenv \<Rightarrow> u16 \<Rightarrow> bool \<Rightarrow> unit \<Rightarrow> 's con \<Rightarrow> (u8 + unit, 's con) flow option" where
  "wait_key hb E dev check_break u s =
     (if break_flag E (rest s) then Some (Returns (Inl CTL_C) s)
      else do {
        (busy, s1) \<leftarrow> Busy E dev s;
        if \<not> busy then do {
          (c, s2) \<leftarrow> CharIO E dev 0 C_INPUT s1;
          Some (Returns (Inl (word_of_int c)) s2)
        } else andthen (if check_break \<and> dev \<noteq> syscon E then check_handle_break hb E (syscon E) s1 else Some (Returns 0 s1))
            (\<lambda>_ s2. Some (Returns (Inr ()) (if char_stack E then s2\<lparr>rest := DosIdle_int E (rest s2)\<rparr> else s2)))
      })"

text \<open>The character itself, before the check for break and stop keys.\<close>

definition get_key :: "'s handler \<Rightarrow> 's conenv \<Rightarrow> int \<Rightarrow> u16 option \<Rightarrow> bool \<Rightarrow> 's con \<Rightarrow> (u8, 's con) flow option" where
  "get_key hb E sft_in dev check_break s =
     (case dev of
        Some d \<Rightarrow> floop (wait_key hb E d check_break) () s
      | None \<Rightarrow> andthen (rw_sft E sft_in [stack_byte E] XFR_READ s) (\<lambda>(_, bp) s1. Some (Returns (hd bp) s1)))"

text \<open>With \<open>check_break\<close> off, the function is \<^const>\<open>get_key\<close>; \<^verbatim>\<open>read_char\<close> looks the device up again.\<close>

definition read_char_sft_dev :: "'s handler \<Rightarrow> 's conenv \<Rightarrow> int \<Rightarrow> int \<Rightarrow> u16 option \<Rightarrow> bool \<Rightarrow> 's con \<Rightarrow> (u8, 's con) flow option" where
  "read_char_sft_dev hb E sft_in sft_out dev check_break s =
     andthen (get_key hb E sft_in dev check_break s) (\<lambda>c s1.
       if check_break \<and> (c = CTL_C \<or> c = CTL_S) then
         andthen (if c = CTL_S then get_key hb E sft_in dev False s1 else Some (Returns c s1)) (\<lambda>c2 s2.
         andthen (if c2 = CTL_C then hb (case dev of None \<Rightarrow> 0 | Some d \<Rightarrow> d) sft_out s2 else Some (Returns () s2)) (\<lambda>_ s3.
         get_key hb E sft_in (sft_to_dev E sft_in (rest s3)) False s3))
       else Some (Returns c s1))"

definition raw_get_char :: "'s handler \<Rightarrow> 's conenv \<Rightarrow> u16 \<Rightarrow> bool \<Rightarrow> 's con \<Rightarrow> (u8, 's con) flow option" where
  "raw_get_char hb E dev check_break s = read_char_sft_dev hb E (-1) (-1) (Some dev) check_break s"

definition read_char :: "'s handler \<Rightarrow> 's conenv \<Rightarrow> int \<Rightarrow> int \<Rightarrow> bool \<Rightarrow> 's con \<Rightarrow> (u8, 's con) flow option" where
  "read_char hb E sft_in sft_out check_break s = read_char_sft_dev hb E sft_in sft_out (sft_to_dev E sft_in (rest s)) check_break s"

definition read_char_stdin :: "'s handler \<Rightarrow> 's conenv \<Rightarrow> bool \<Rightarrow> 's con \<Rightarrow> (u8, 's con) flow option" where
  "read_char_stdin hb E check_break s = read_char hb E (std_idx E STDIN (rest s)) (std_idx E STDOUT (rest s)) check_break s"

text \<open>
  The tests for errors in \<^verbatim>\<open>cooked_read\<close> are on the \<^verbatim>\<open>int\<close> that a character is converted to; \<open>n\<close> characters are left.
\<close>

fun cooked_read :: "'s handler \<Rightarrow> 's conenv \<Rightarrow> u16 \<Rightarrow> nat \<Rightarrow> u8 list \<Rightarrow> 's con \<Rightarrow> (int \<times> u8 list, 's con) flow option" where
  "cooked_read hb E dev 0 acc s = Some (Returns (int (length acc), acc) s)"
| "cooked_read hb E dev (Suc n) acc s =
     andthen (raw_get_char hb E dev True s) (\<lambda>ch1 s1. let c = int (unat ch1) in
       if c < 0 then Some (Returns (c, acc) s1)
       else if c = 256 then Some (Returns (int (length acc), acc) s1)
       else if ch1 = CTL_Z then Some (Returns (int (length acc) + 1, acc @ [ch1]) s1)
       else cooked_read hb E dev n (acc @ [ch1]) s1)"

subsection \<open>Writing characters\<close>

text \<open>
  One character \<open>count\<close> times: the loop inside \<^verbatim>\<open>cooked_write\<close>. The result is an error of the device, or the
  counter that decides when the break key is looked at.
\<close>

fun put_char :: "'s handler \<Rightarrow> 's conenv \<Rightarrow> u16 \<Rightarrow> u8 \<Rightarrow> nat \<Rightarrow> u8 \<Rightarrow> 's con \<Rightarrow> (int + u8, 's con) flow option" where
  "put_char hb E dev c 0 fast_counter s = Some (Returns (Inr fast_counter) s)"
| "put_char hb E dev c (Suc n) fast_counter s =
     andthen (if fast_counter \<le> 0x80 then check_handle_break hb E dev s else Some (Returns 0 s)) (\<lambda>b s1.
     andthen (if fast_counter \<le> 0x80 \<and> b = CTL_S then raw_get_char hb E dev True s1 else Some (Returns 0 s1)) (\<lambda>_ s2.
       let fc = (fast_counter + 1) AND 0x9f in
       andthen (if PrinterEcho s2 then rw_sft E (std_idx E STDPRN (rest s2)) [c] XFR_WRITE s2 else Some (Returns (0, [])  s2)) (\<lambda>_ s3.
         if fc AND 0x80 \<noteq> 0 then put_char hb E dev c n fc (s3\<lparr>rest := fast_put_char E c (rest s3)\<rparr>)
         else andthen (plainly (CharIO E dev c C_OUTPUT s3)) (\<lambda>err s4.
           if err < 0 then Some (Returns (Inl err) s4) else put_char hb E dev c n fc s4))))"

fun cooked_loop :: "'s handler \<Rightarrow> 's conenv \<Rightarrow> u16 \<Rightarrow> u8 list \<Rightarrow> nat \<Rightarrow> u8 \<Rightarrow> 's con \<Rightarrow> (int, 's con) flow option" where
  "cooked_loop hb E dev [] xfer fast_counter s = Some (Returns (int xfer) s)"
| "cooked_loop hb E dev (b # bs) xfer fast_counter s =
     (if b = CTL_Z then Some (Returns (int xfer) s)
      else
        let count = (if b = HT then 8 - (scr_pos s AND 7) else 1); c = (if b = HT then 0x20 else b) in
        andthen (put_char hb E dev c (unat count) fast_counter (update_scr_pos c count s)) (\<lambda>r s1.
          case r of Inl err \<Rightarrow> Some (Returns err s1) | Inr fc \<Rightarrow> cooked_loop hb E dev bs (Suc xfer) fc s1))"

definition cooked_write :: "'s handler \<Rightarrow> 's conenv \<Rightarrow> u16 \<Rightarrow> u8 list \<Rightarrow> 's con \<Rightarrow> (int, 's con) flow option" where
  "cooked_write hb E dev bp s = cooked_loop hb E dev bp 0 (if fastcon E dev then 0x80 else 0) s"

text \<open>
  \<^verbatim>\<open>handle_break\<close> echoes the key and leaves. Its echo looks at the break key again, so that it may be entered
  from itself; the depth is the room on the stack of the kernel, and \<^term>\<open>None\<close> is a stack that has overflowed.
\<close>

fun handle_break :: "nat \<Rightarrow> 's conenv \<Rightarrow> 's handler" where
  "handle_break 0 E dev sft_out s = None"
| "handle_break (Suc depth) E dev sft_out s = do {
     s1 \<leftarrow> con_flush E dev (s\<lparr>rest := reset_flag E (rest s)\<rparr>);
     let buf = [0x5e, 0x43, CR, LF];
     andthen (if sft_out = -1 then andthen (cooked_write (handle_break depth E) E dev buf s1) (\<lambda>_ s2. Some (Returns () s2))
              else andthen (rw_sft E sft_out buf XFR_FORCE_WRITE s1) (\<lambda>_ s2. Some (Returns () s2)))
       (\<lambda>_ s2.
         let s3 = (if ErrorMode s2 = 0 \<and> InDOS s2 \<noteq> 0 then s2\<lparr>InDOS := InDOS s2 - 1\<rparr> else s2)
         in Some (Breaks (s3\<lparr>rest := spawn_int23 E (rest s3)\<rparr>)))
   }"

definition write_char :: "'s conenv \<Rightarrow> u8 \<Rightarrow> int \<Rightarrow> 's con \<Rightarrow> (unit, 's con) flow option" where
  "write_char E c sft_idx s = andthen (rw_sft E sft_idx [c] XFR_FORCE_WRITE s) (\<lambda>_ s1. Some (Returns () s1))"

fun write_chars :: "'s conenv \<Rightarrow> u8 \<Rightarrow> int \<Rightarrow> nat \<Rightarrow> 's con \<Rightarrow> (unit, 's con) flow option" where
  "write_chars E c sft_idx 0 s = Some (Returns () s)"
| "write_chars E c sft_idx (Suc n) s = andthen (write_char E c sft_idx s) (\<lambda>_ s1. write_chars E c sft_idx n s1)"

fun write_stdout :: "'s conenv \<Rightarrow> u8 \<Rightarrow> nat \<Rightarrow> 's con \<Rightarrow> (unit, 's con) flow option" where
  "write_stdout E c 0 s = Some (Returns () s)"
| "write_stdout E c (Suc n) s = andthen (write_char E c (std_idx E STDOUT (rest s)) s) (\<lambda>_ s1. write_stdout E c n s1)"

text \<open>The entry is looked up for every character, since writing may change the handles.\<close>

definition write_char_stdout :: "'s conenv \<Rightarrow> u8 \<Rightarrow> 's con \<Rightarrow> (unit, 's con) flow option" where
  "write_char_stdout E c s =
     (let flags = std_flags E STDOUT (rest s) in if flags AND (SFT_FDEVICE OR SFT_FBINARY) \<noteq> SFT_FDEVICE then
        let count = (if c = HT then 8 - (scr_pos s AND 7) else 1); c' = (if c = HT then 0x20 else c);
            s1 = (if flags AND (SFT_FDEVICE OR SFT_FCONOUT) \<noteq> SFT_FDEVICE OR SFT_FCONOUT then update_scr_pos c' count s else s)
        in write_stdout E c' (unat count) s1
      else write_stdout E c 1 s)"

definition iscntrl :: "u8 \<Rightarrow> bool" where
  "iscntrl c \<longleftrightarrow> c < 0x20"

definition echo_char :: "'s conenv \<Rightarrow> u8 \<Rightarrow> int \<Rightarrow> 's con \<Rightarrow> (unit, 's con) flow option" where
  "echo_char E c sft_idx s =
     (if iscntrl c \<and> c \<noteq> HT \<and> c \<noteq> LF \<and> c \<noteq> CR
      then andthen (write_char E 0x5e sft_idx s) (\<lambda>_ s1. write_char E (c + 0x40) sft_idx s1)
      else write_char E c sft_idx s)"

definition destr_bs :: "'s conenv \<Rightarrow> int \<Rightarrow> 's con \<Rightarrow> (unit, 's con) flow option" where
  "destr_bs E sft_idx s =
     andthen (write_char E BS sft_idx s) (\<lambda>_ s1. andthen (write_char E 0x20 sft_idx s1) (\<lambda>_ s2. write_char E BS sft_idx s2))"

end
