(* ===== verification/LineEdit.thy ===== *)
theory LineEdit
  imports CharIo
begin

text \<open>
  The line editor of \<^verbatim>\<open>kernel/chario.c\<close>: \<^verbatim>\<open>read_line\<close> with its function keys, \<^verbatim>\<open>read_line_handle\<close>, which hands out the
  line to reads of the console, and the character calls of \<^verbatim>\<open>kernel/inthndlr.c\<close>. The buffers are at addresses, because
  the line being typed is kept in \<^verbatim>\<open>local_buffer\<close>, 256 bytes of which the upper half is the console's own line \<^verbatim>\<open>kb_buf\<close>.
\<close>

subsection \<open>Memory\<close>

type_synonym far = "u16 \<times> u16"
type_synonym memory = "nat \<Rightarrow> u8"

text \<open>The address of a byte behind a far pointer: offsets wrap within the segment.\<close>

definition at :: "far \<Rightarrow> u16 \<Rightarrow> nat" where
  "at p i = 16 * unat (fst p) + unat (snd p + i)"

definition kb_size :: "far \<Rightarrow> memory \<Rightarrow> u8" where
  "kb_size kp m = m (at kp 0)"

definition kb_count :: "far \<Rightarrow> memory \<Rightarrow> u8" where
  "kb_count kp m = m (at kp 1)"

text \<open>The bytes of the line of a keyboard buffer.\<close>

definition kb_line :: "far \<Rightarrow> far" where
  "kb_line kp = (fst kp, snd kp + 2)"

text \<open>The console's own line is in the middle of the 256 bytes of \<^verbatim>\<open>local_buffer\<close> (\<^verbatim>\<open>kernel.asm\<close>), which start at \<open>L\<close>.\<close>

definition kb_buf :: "far \<Rightarrow> far" where
  "kb_buf L = (fst L, snd L + 128)"

fun fmemcpy :: "far \<Rightarrow> far \<Rightarrow> nat \<Rightarrow> memory \<Rightarrow> memory" where
  "fmemcpy d s 0 m = m"
| "fmemcpy d s (Suc n) m = (let m' = fmemcpy d s n m in m'(at d (of_nat n) := m' (at s (of_nat n))))"

definition fmemchr :: "far \<Rightarrow> u16 \<Rightarrow> u8 \<Rightarrow> u16 \<Rightarrow> memory \<Rightarrow> nat option" where
  "fmemchr p i c n m = find (\<lambda>j. m (at p (i + of_nat j)) = c) [0..<unat n]"

text \<open>The console with the memory; \<^verbatim>\<open>inputptr\<close> is an offset in the segment of \<^verbatim>\<open>kb_buf\<close>, 0 when there is no line.\<close>

record 's tty =
  console :: "'s con"
  mem :: memory
  inputptr :: u16

definition io :: "('s con \<Rightarrow> ('a, 's con) flow option) \<Rightarrow> 's tty \<Rightarrow> ('a, 's tty) flow option" where
  "io f t = (case f (console t) of
       None \<Rightarrow> None
     | Some (Returns a c) \<Rightarrow> Some (Returns a (t\<lparr>console := c\<rparr>))
     | Some (Breaks c) \<Rightarrow> Some (Breaks (t\<lparr>console := c\<rparr>)))"

definition poke :: "nat \<Rightarrow> u8 \<Rightarrow> 's tty \<Rightarrow> 's tty" where
  "poke a c t = t\<lparr>mem := (mem t)(a := c)\<rparr>"

subsection \<open>The state of the editor\<close>

text \<open>The local variables of \<^verbatim>\<open>read_line\<close>.\<close>

record editor =
  ed_count :: u16
  stored_pos :: u16
  stored_size :: u16
  ed_insert :: bool
  ed_first :: bool

text \<open>A character is echoed and stored.\<close>

definition store_char :: "far \<Rightarrow> 's conenv \<Rightarrow> int \<Rightarrow> u8 \<Rightarrow> editor \<Rightarrow> 's tty \<Rightarrow> (editor, 's tty) flow option" where
  "store_char L E sft_out c e t = andthen (io (echo_char E c sft_out) t) (\<lambda>_ t1.
     Some (Returns (e\<lparr>ed_count := ed_count e + 1\<rparr>) (poke (at L (ed_count e)) c t1)))"

definition copy_stored :: "far \<Rightarrow> far \<Rightarrow> 's conenv \<Rightarrow> int \<Rightarrow> editor \<Rightarrow> 's tty \<Rightarrow> (editor, 's tty) flow option" where
  "copy_stored L kp E sft_out e t =
     store_char L E sft_out (mem t (at (kb_line kp) (stored_pos e))) (e\<lparr>stored_pos := stored_pos e + 1\<rparr>) t"

text \<open>The loop of F2 and F3.\<close>

definition copy_body :: "far \<Rightarrow> far \<Rightarrow> 's conenv \<Rightarrow> int \<Rightarrow> u16 \<Rightarrow> u16 \<Rightarrow> editor \<Rightarrow> 's tty \<Rightarrow> (editor + editor, 's tty) flow option" where
  "copy_body L kp E sft_out ksize new_pos e t =
     (if stored_pos e < new_pos \<and> ed_count e < ksize - 1
      then andthen (copy_stored L kp E sft_out e t) (\<lambda>e1 t1. Some (Returns (Inr e1) t1))
      else Some (Returns (Inl e) t))"

text \<open>The position the stored line is copied or skipped to by F2, F3 and F4. Characters come from \<open>key\<close>.\<close>

definition target :: "('s con \<Rightarrow> (u8, 's con) flow option) \<Rightarrow> far \<Rightarrow> u16 \<Rightarrow> editor \<Rightarrow> 's tty \<Rightarrow> (u16, 's tty) flow option" where
  "target key kp c e t =
     (if c = F3 then Some (Returns (stored_size e) t)
      else andthen (io key t) (\<lambda>c2 t1.
        if c2 = 0 then andthen (io key t1) (\<lambda>_ t2. Some (Returns (stored_pos e) t2))
        else Some (Returns (case fmemchr (kb_line kp) (stored_pos e) c2 (stored_size e - stored_pos e) (mem t1) of
                              None \<Rightarrow> stored_pos e
                            | Some i \<Rightarrow> of_nat i + 1) t1)))"

text \<open>The column behind the first \<open>n\<close> characters, when a tab is taken back.\<close>

fun column :: "u8 list \<Rightarrow> u16 \<Rightarrow> u16" where
  "column [] new_pos = new_pos"
| "column (c # cs) new_pos =
     column cs (if c = HT then (new_pos + 8) AND NOT 7 else if iscntrl c then new_pos + 2 else new_pos + 1)"

definition erase_tab :: "'s conenv \<Rightarrow> int \<Rightarrow> u16 \<Rightarrow> 's con \<Rightarrow> (unit, 's con) flow option" where
  "erase_tab E sft_out new_pos s = floop (\<lambda>u s. andthen (destr_bs E sft_out s) (\<lambda>_ s1.
     Some (Returns (if ucast (scr_pos s1) > new_pos then Inr () else Inl ()) s1))) () s"

text \<open>The first \<open>n\<close> bytes behind a pointer.\<close>

definition bytes :: "far \<Rightarrow> nat \<Rightarrow> memory \<Rightarrow> u8 list" where
  "bytes p n m = map (\<lambda>i. m (at p (of_nat i))) [0..<n]"

definition backspace :: "far \<Rightarrow> 's conenv \<Rightarrow> int \<Rightarrow> u16 \<Rightarrow> editor \<Rightarrow> 's tty \<Rightarrow> (editor, 's tty) flow option" where
  "backspace L E sft_out cu_pos e t =
     (let step = (\<lambda>e t. Some (Returns (e\<lparr>stored_pos := (if stored_pos e > 0 then stored_pos e - 1 else stored_pos e)\<rparr>) t)) in
      if ed_count e > 0 then
        let e1 = e\<lparr>ed_count := ed_count e - 1\<rparr>; c2 = mem t (at L (ed_count e1)) in
        if c2 = HT then andthen (io (erase_tab E sft_out (column (bytes L (unat (ed_count e1)) (mem t)) cu_pos)) t) (\<lambda>_. step e1)
        else andthen (if iscntrl c2 then io (destr_bs E sft_out) t else Some (Returns () t)) (\<lambda>_ t1.
          andthen (io (destr_bs E sft_out) t1) (\<lambda>_. step e1))
      else step e t)"

definition start_new_line :: "'s conenv \<Rightarrow> int \<Rightarrow> u16 \<Rightarrow> editor \<Rightarrow> 's tty \<Rightarrow> (editor, 's tty) flow option" where
  "start_new_line E sft_out cu_pos e t =
     andthen (io (write_char E CR sft_out) t) (\<lambda>_ t1. andthen (io (write_char E LF sft_out) t1) (\<lambda>_ t2.
     andthen (io (write_chars E 0x20 sft_out (unat cu_pos)) t2) (\<lambda>_ t3.
     Some (Returns (e\<lparr>ed_count := 0, stored_pos := 0, ed_insert := False\<rparr>) t3))))"

subsection \<open>Keys\<close>

text \<open>A character that is typed, or control-Z for F6.\<close>

definition type_char :: "far \<Rightarrow> 's conenv \<Rightarrow> int \<Rightarrow> u16 \<Rightarrow> u16 \<Rightarrow> editor \<Rightarrow> 's tty \<Rightarrow> (editor, 's tty) flow option" where
  "type_char L E sft_out ksize c e t =
     andthen (if ed_count e < ksize - 1 \<or> c = ucast CR then store_char L E sft_out (ucast c) e t
              else andthen (io (write_char E BELL sft_out) t) (\<lambda>_ t1. Some (Returns e t1))) (\<lambda>e1 t1.
     Some (Returns (if stored_pos e1 < stored_size e1 \<and> \<not> ed_insert e1 then e1\<lparr>stored_pos := stored_pos e1 + 1\<rparr> else e1) t1))"

text \<open>A line feed is shown unless it is the first key, and never stored.\<close>

definition line_feed :: "'s conenv \<Rightarrow> int \<Rightarrow> editor \<Rightarrow> 's tty \<Rightarrow> (editor, 's tty) flow option" where
  "line_feed E sft_out e t =
     (if \<not> ed_first e then andthen (io (write_char E CR sft_out) t) (\<lambda>_ t1. andthen (io (write_char E LF sft_out) t1) (\<lambda>_ t2. Some (Returns e t2)))
      else Some (Returns e t))"

definition copy_one :: "far \<Rightarrow> far \<Rightarrow> 's conenv \<Rightarrow> int \<Rightarrow> u16 \<Rightarrow> editor \<Rightarrow> 's tty \<Rightarrow> (editor, 's tty) flow option" where
  "copy_one L kp E sft_out ksize e t =
     (if stored_pos e < stored_size e \<and> ed_count e < ksize - 1 then copy_stored L kp E sft_out e t else Some (Returns e t))"

text \<open>F2, F3 and F4.\<close>

definition copy_to :: "('s con \<Rightarrow> (u8, 's con) flow option) \<Rightarrow> far \<Rightarrow> far \<Rightarrow> 's conenv \<Rightarrow> int \<Rightarrow> u16 \<Rightarrow> u16 \<Rightarrow> editor \<Rightarrow> 's tty \<Rightarrow>
    (editor, 's tty) flow option" where
  "copy_to key L kp E sft_out ksize c e t =
     andthen (target key kp c e t) (\<lambda>new_pos t1.
     andthen (if c \<noteq> F4 then floop (copy_body L kp E sft_out ksize new_pos) e t1 else Some (Returns e t1)) (\<lambda>e1 t2.
     Some (Returns (e1\<lparr>stored_pos := new_pos\<rparr>) t2)))"

text \<open>F5: the line typed becomes the stored line.\<close>

definition keep_line :: "far \<Rightarrow> far \<Rightarrow> 's conenv \<Rightarrow> int \<Rightarrow> u16 \<Rightarrow> editor \<Rightarrow> 's tty \<Rightarrow> (editor, 's tty) flow option" where
  "keep_line L kp E sft_out cu_pos e t =
     (let t1 = t\<lparr>mem := fmemcpy (kb_line kp) L (unat (ed_count e)) (mem t)\<rparr> in
      andthen (io (write_char E 0x40 sft_out) t1) (\<lambda>_ t2. start_new_line E sft_out cu_pos (e\<lparr>stored_size := ed_count e\<rparr>) t2))"

text \<open>One key.\<close>

definition edit_key :: "('s con \<Rightarrow> (u8, 's con) flow option) \<Rightarrow> far \<Rightarrow> far \<Rightarrow> 's conenv \<Rightarrow> int \<Rightarrow> u16 \<Rightarrow> u16 \<Rightarrow> u16 \<Rightarrow> editor \<Rightarrow> 's tty \<Rightarrow>
    (editor, 's tty) flow option" where
  "edit_key key L kp E sft_out cu_pos ksize c e t =
     (if c = ucast LF then line_feed E sft_out e t
      else if c = CTL_F then Some (Returns e t)
      else if c = RIGHT \<or> c = F1 then copy_one L kp E sft_out ksize e t
      else if c = F2 \<or> c = F4 \<or> c = F3 then copy_to key L kp E sft_out ksize c e t
      else if c = F5 then keep_line L kp E sft_out cu_pos e t
      else if c = INS then Some (Returns (e\<lparr>ed_insert := \<not> ed_insert e\<rparr>) t)
      else if c = DEL then Some (Returns (e\<lparr>stored_pos := stored_pos e + 1\<rparr>) t)
      else if c = LEFT \<or> c = CTL_BS \<or> c = ucast BS then backspace L E sft_out cu_pos e t
      else if c = ESC then andthen (io (write_char E 0x5c sft_out) t) (\<lambda>_ t1. start_new_line E sft_out cu_pos e t1)
      else type_char L E sft_out ksize (if c = F6 then ucast CTL_Z else c) e t)"

text \<open>A key is one byte, or two when the first is 0.\<close>

definition get_code :: "('s con \<Rightarrow> (u8, 's con) flow option) \<Rightarrow> 's tty \<Rightarrow> (u16, 's tty) flow option" where
  "get_code key t = andthen (io key t) (\<lambda>c1 t1.
     if c1 = 0 then andthen (io key t1) (\<lambda>c2 t2. Some (Returns (push_bit 8 (ucast c2)) t2)) else Some (Returns (ucast c1) t1))"

definition line_body :: "('s con \<Rightarrow> (u8, 's con) flow option) \<Rightarrow> far \<Rightarrow> far \<Rightarrow> 's conenv \<Rightarrow> int \<Rightarrow> u16 \<Rightarrow> u16 \<Rightarrow> editor \<Rightarrow> 's tty \<Rightarrow>
    (editor + editor, 's tty) flow option" where
  "line_body key L kp E sft_out cu_pos ksize e t =
     andthen (get_code key t) (\<lambda>c t1.
     andthen (edit_key key L kp E sft_out cu_pos ksize c e t1) (\<lambda>e1 t2.
     let e2 = e1\<lparr>ed_first := False\<rparr>; c' = (if c = F6 then ucast CTL_Z else c)
     in Some (Returns (if c' \<noteq> ucast CR then Inr e2 else Inl e2) t2)))"

text \<open>
  When the line has run over into the console's own line, that one is marked as invalid. \<^verbatim>\<open>kb_count\<close> does not include the
  final carriage return.
\<close>

definition finish_line :: "far \<Rightarrow> far \<Rightarrow> editor \<Rightarrow> 's tty \<Rightarrow> 's tty" where
  "finish_line L kp e t =
     (let t1 = t\<lparr>mem := fmemcpy (kb_line kp) L (unat (ed_count e)) (mem t)\<rparr>;
          t2 = (if ed_count e > ucast LINEBUFSIZECON then poke (at (kb_buf L) 0) 0 t1 else t1)
      in poke (at kp 1) (ucast (ed_count e - 1)) t2)"

definition start_editor :: "far \<Rightarrow> memory \<Rightarrow> editor" where
  "start_editor kp m =
     (let stored = ucast (kb_count kp m) in
      \<lparr>ed_count = 0, stored_pos = 0, stored_size = (if m (at (kb_line kp) stored) \<noteq> CR then 0 else stored),
       ed_insert = False, ed_first = True\<rparr>)"

definition read_line :: "'s handler \<Rightarrow> far \<Rightarrow> 's conenv \<Rightarrow> int \<Rightarrow> int \<Rightarrow> far \<Rightarrow> 's tty \<Rightarrow> (unit, 's tty) flow option" where
  "read_line hb L E sft_in sft_out kp t =
     (let ksize = ucast (kb_size kp (mem t)) in
      if ksize = 0 then Some (Returns () t)
      else andthen (floop (line_body (read_char hb E sft_in sft_out True) L kp E sft_out (ucast (scr_pos (console t))) ksize) (start_editor kp (mem t)) t)
        (\<lambda>e t1. Some (Returns () (finish_line L kp e t1))))"

subsection \<open>Reading the console through a handle\<close>

text \<open>A new line is read when the last one has been handed out completely; a line that starts with control-Z is the end of the file.\<close>

definition fill_line :: "'s handler \<Rightarrow> far \<Rightarrow> 's conenv \<Rightarrow> int \<Rightarrow> 's tty \<Rightarrow> (unit, 's tty) flow option" where
  "fill_line hb L E sft_idx t =
     (let kp = kb_buf L;
          t0 = (if kb_size kp (mem t) \<noteq> LINEBUFSIZECON then poke (at kp 0) LINEBUFSIZECON (poke (at kp 1) 0 t) else t) in
      andthen (read_line hb L E sft_idx sft_idx kp t0) (\<lambda>_ t1.
      andthen (io (echo_char E LF sft_idx) t1) (\<lambda>_ t2.
      let t3 = poke (at (kb_line kp) (ucast (kb_count kp (mem t2)) + 1)) LF t2
      in Some (Returns () (t3\<lparr>inputptr := (if mem t3 (at (kb_line kp) 0) = CTL_Z then 0 else snd (kb_line kp))\<rparr>)))))"

text \<open>The buffer of the caller gets the bytes returned.\<close>

definition read_line_handle :: "'s handler \<Rightarrow> far \<Rightarrow> 's conenv \<Rightarrow> int \<Rightarrow> u16 \<Rightarrow> 's tty \<Rightarrow> (u8 list, 's tty) flow option" where
  "read_line_handle hb L E sft_idx n t =
     andthen (if inputptr t = 0 then fill_line hb L E sft_idx t else Some (Returns () t)) (\<lambda>_ t1.
       if inputptr t = 0 \<and> inputptr t1 = 0 then Some (Returns [] t1)
       else
         let kp = kb_buf L; chars_left = snd (kb_line kp) + ucast (kb_count kp (mem t1)) + 2 - inputptr t1; m = min n chars_left in
         Some (Returns (bytes (fst L, inputptr t1) (unat m) (mem t1))
           (t1\<lparr>inputptr := (if m = chars_left then 0 else inputptr t1 + m)\<rparr>)))"

subsection \<open>The calls of programs for characters\<close>

text \<open>The registers that the calls 1 to 12 use: a result in \<open>AL\<close>, and the zero flag.\<close>

record regs =
  AH :: u8
  AL :: u8
  DL :: u8
  DS_DX :: far
  ZF :: bool

definition DOS_01 :: "'s handler \<Rightarrow> 's conenv \<Rightarrow> regs \<Rightarrow> 's tty \<Rightarrow> (regs, 's tty) flow option" where
  "DOS_01 hb E r t = andthen (io (read_char_stdin hb E True) t) (\<lambda>c t1. andthen (io (write_char_stdout E c) t1) (\<lambda>_ t2. Some (Returns (r\<lparr>AL := c\<rparr>) t2)))"

definition DOS_02 :: "'s conenv \<Rightarrow> regs \<Rightarrow> 's tty \<Rightarrow> (regs, 's tty) flow option" where
  "DOS_02 E r t = andthen (io (write_char_stdout E (DL r)) t) (\<lambda>_ t1. Some (Returns (r\<lparr>AL := DL r\<rparr>) t1))"

definition DOS_07 :: "'s handler \<Rightarrow> 's conenv \<Rightarrow> bool \<Rightarrow> regs \<Rightarrow> 's tty \<Rightarrow> (regs, 's tty) flow option" where
  "DOS_07 hb E check_break r t = andthen (io (read_char_stdin hb E check_break) t) (\<lambda>c t1. Some (Returns (r\<lparr>AL := c\<rparr>) t1))"

definition DOS_06 :: "'s handler \<Rightarrow> 's conenv \<Rightarrow> regs \<Rightarrow> 's tty \<Rightarrow> (regs, 's tty) flow option" where
  "DOS_06 hb E r t =
     (if DL r \<noteq> 0xff then DOS_02 E r t
      else andthen (io (\<lambda>s. plainly (StdinBusy E s)) t) (\<lambda>busy t1.
        if busy then Some (Returns (r\<lparr>AL := 0, ZF := True\<rparr>) (t1\<lparr>console := (console t1)\<lparr>rest := DosIdle_int E (rest (console t1))\<rparr>\<rparr>))
        else DOS_07 hb E False (r\<lparr>AL := 0, ZF := False\<rparr>) t1))"

text \<open>The string ends at a dollar sign; without one the loop goes round the segment.\<close>

definition DOS_09 :: "'s conenv \<Rightarrow> regs \<Rightarrow> 's tty \<Rightarrow> (regs, 's tty) flow option" where
  "DOS_09 E r t = floop (\<lambda>i t.
     let c = mem t (at (DS_DX r) i) in
     if c = 0x24 then Some (Returns (Inl (r\<lparr>AL := c\<rparr>)) t)
     else andthen (io (write_char_stdout E c) t) (\<lambda>_ t1. Some (Returns (Inr (i + 1)) t1))) 0 t"

definition DOS_0A :: "'s handler \<Rightarrow> far \<Rightarrow> 's conenv \<Rightarrow> regs \<Rightarrow> 's tty \<Rightarrow> (regs, 's tty) flow option" where
  "DOS_0A hb L E r t =
     andthen (read_line hb L E (std_idx E STDIN (rest (console t))) (std_idx E STDOUT (rest (console t))) (DS_DX r) t) (\<lambda>_ t1. Some (Returns r t1))"

definition DOS_0C :: "'s handler \<Rightarrow> far \<Rightarrow> 's conenv \<Rightarrow> regs \<Rightarrow> 's tty \<Rightarrow> (regs, 's tty) flow option" where
  "DOS_0C hb L E r t =
     andthen (case sft_to_dev E (std_idx E STDIN (rest (console t))) (rest (console t)) of
                None \<Rightarrow> Some (Returns () t)
              | Some dev \<Rightarrow> io (\<lambda>s. plainly (map_option (\<lambda>s1. ((), s1)) (con_flush E dev s))) t) (\<lambda>_ t1.
       if AL r = 0x01 then DOS_01 hb E r t1
       else if AL r = 0x06 then DOS_06 hb E r t1
       else if AL r = 0x07 then DOS_07 hb E False r t1
       else if AL r = 0x08 then DOS_07 hb E True r t1
       else if AL r = 0x0a then DOS_0A hb L E r t1
       else Some (Returns (r\<lparr>AL := 0\<rparr>) t1))"

text \<open>The check for the break key before a call, and the call.\<close>

definition int21_char :: "'s handler \<Rightarrow> far \<Rightarrow> 's conenv \<Rightarrow> bool \<Rightarrow> regs \<Rightarrow> 's tty \<Rightarrow> (regs, 's tty) flow option" where
  "int21_char hb L E break_ena r t =
     andthen (if break_ena \<or> 1 \<le> AH r \<and> AH r \<le> 5 \<or> 8 \<le> AH r \<and> AH r \<le> 0x0b then io (check_handle_break hb E (syscon E)) t else Some (Returns 0 t)) (\<lambda>_ t1.
     let k = rest (console t1) in
     if AH r = 0x01 then DOS_01 hb E r t1
     else if AH r = 0x02 then DOS_02 E r t1
     else if AH r = 0x03 then andthen (io (read_char hb E (std_idx E STDAUX k) (std_idx E STDAUX k) True) t1) (\<lambda>c t2. Some (Returns (r\<lparr>AL := c\<rparr>) t2))
     else if AH r = 0x04 then andthen (io (write_char E (DL r) (std_idx E STDAUX k)) t1) (\<lambda>_ t2. Some (Returns r t2))
     else if AH r = 0x05 then andthen (io (write_char E (DL r) (std_idx E STDPRN k)) t1) (\<lambda>_ t2. Some (Returns r t2))
     else if AH r = 0x06 then DOS_06 hb E r t1
     else if AH r = 0x07 then DOS_07 hb E False r t1
     else if AH r = 0x08 then DOS_07 hb E True r t1
     else if AH r = 0x09 then DOS_09 E r t1
     else if AH r = 0x0a then DOS_0A hb L E r t1
     else if AH r = 0x0b then andthen (io (\<lambda>s. plainly (StdinBusy E s)) t1) (\<lambda>busy t2. Some (Returns (r\<lparr>AL := (if busy then 0 else 0xff)\<rparr>) t2))
     else DOS_0C hb L E r t1)"

end
