(* ===== verification/LineSafe.thy ===== *)
theory LineSafe
  imports LineEdit
begin

text \<open>
  What \<^verbatim>\<open>read_line\<close> writes. A small logic for the calls that may be broken off: \<^verbatim>\<open>runs A t P r\<close> says that the call
  with the outcome \<open>r\<close> changed memory only in \<open>A\<close>, also when it was broken off, and that \<open>P\<close> holds if it returned.
\<close>

subsection \<open>Memory\<close>

lemma at_inj: "i < 65536 \<Longrightarrow> j < 65536 \<Longrightarrow> at p (of_nat i) = at p (of_nat j) \<longleftrightarrow> i = j"
proof -
  assume ij: "i < 65536" "j < 65536"
  have "at p (of_nat i) = at p (of_nat j) \<longleftrightarrow> (of_nat i :: u16) = of_nat j" by (simp add: at_def flip: word_unat_eq_iff)
  also have "\<dots> \<longleftrightarrow> i = j" using ij by (metis unat_of_nat16)
  finally show ?thesis .
qed

lemma fmemcpy_else: "(\<And>i. i < n \<Longrightarrow> x \<noteq> at d (of_nat i)) \<Longrightarrow> fmemcpy d s n m x = m x"
  by (induction n) (auto simp: Let_def)

lemma fmemcpy_at:
  assumes "n \<le> 65536" "\<And>i j. i < n \<Longrightarrow> j < n \<Longrightarrow> at d (of_nat i) \<noteq> at s (of_nat j)" "i < n"
  shows "fmemcpy d s n m (at d (of_nat i)) = m (at s (of_nat i))"
  using assms
proof (induction n)
  case (Suc n)
  have s: "fmemcpy d s n m (at s (of_nat j)) = m (at s (of_nat j))" if "j \<le> n" for j
    using Suc.prems(2) that by (intro fmemcpy_else) (metis less_Suc_eq_le less_SucI)
  show ?case
  proof (cases "i = n")
    case False
    then show ?thesis using Suc at_inj [of i n d] by (simp add: Let_def)
  qed (use s in \<open>simp add: Let_def\<close>)
qed simp


subsection \<open>The logic\<close>

definition same :: "nat set \<Rightarrow> 's tty \<Rightarrow> 's tty \<Rightarrow> bool" where
  "same A t t' \<longleftrightarrow> (\<forall>x. x \<notin> A \<longrightarrow> mem t' x = mem t x)"

fun runs :: "nat set \<Rightarrow> 's tty \<Rightarrow> ('a \<Rightarrow> 's tty \<Rightarrow> bool) \<Rightarrow> ('a, 's tty) flow option \<Rightarrow> bool" where
  "runs A t P None \<longleftrightarrow> True"
| "runs A t P (Some (Returns a t')) \<longleftrightarrow> same A t t' \<and> P a t'"
| "runs A t P (Some (Breaks t')) \<longleftrightarrow> same A t t'"

lemma same_refl [simp]: "same A t t"
  by (simp add: same_def)

lemma same_console [simp]: "same A t (t'\<lparr>console := c\<rparr>) = same A t t'" "same A t (t'\<lparr>inputptr := p\<rparr>) = same A t t'"
  by (simp_all add: same_def)

lemma same_poke: "same A t t' \<Longrightarrow> x \<in> A \<Longrightarrow> same A t (poke x c t')"
  by (auto simp: same_def poke_def)

lemma same_fmemcpy: "same A t t' \<Longrightarrow> (\<And>i. i < n \<Longrightarrow> at d (of_nat i) \<in> A) \<Longrightarrow> same A t (t'\<lparr>mem := fmemcpy d s n (mem t')\<rparr>)"
proof -
  assume s: "same A t t'" and d: "\<And>i. i < n \<Longrightarrow> at d (of_nat i) \<in> A"
  have "fmemcpy d s n (mem t') x = mem t x" if "x \<notin> A" for x
    using s d that fmemcpy_else [of n x d s "mem t'"] by (auto simp: same_def)
  then show ?thesis by (simp add: same_def)
qed

lemma runs_andthen:
  assumes "runs A t Q m" "\<And>a t'. same A t t' \<Longrightarrow> Q a t' \<Longrightarrow> runs A t P (f a t')"
  shows "runs A t P (andthen m f)"
  using assms by (auto simp: andthen_def split: option.splits flow.splits)

lemma runs_io: "same A t t' \<Longrightarrow> (\<And>a c. P a (t'\<lparr>console := c\<rparr>)) \<Longrightarrow> runs A t P (io f t')"
  by (auto simp: io_def split: option.splits flow.splits)

lemma runs_weaken: "runs A t Q m \<Longrightarrow> (\<And>a t'. Q a t' \<Longrightarrow> P a t') \<Longrightarrow> runs A t P m"
  by (induction A t Q m rule: runs.induct) auto

lemma runs_floop:
  assumes "I a t0" "same A t t0"
    and step: "\<And>a t'. I a t' \<Longrightarrow> same A t t' \<Longrightarrow> runs A t (\<lambda>x t''. case x of Inl r \<Rightarrow> Q r t'' | Inr a' \<Rightarrow> I a' t'') (body a t')"
  shows "runs A t Q (floop body a t0)"
proof (cases "floop body a t0")
  case (Some r)
  have "runs A t Q (Some r)"
  proof (rule loopM_partial [OF Some [unfolded floop_def], where I = "\<lambda>(a, t'). I a t' \<and> same A t t'"])
    fix s x
    assume I: "case s of (a, t') \<Rightarrow> I a t' \<and> same A t t'"
      and b: "(case s of (a, s) \<Rightarrow> case body a s of None \<Rightarrow> None | Some (Returns (Inl r) s') \<Rightarrow> Some (Inl (Returns r s'))
        | Some (Returns (Inr a') s') \<Rightarrow> Some (Inr (a', s')) | Some (Breaks s') \<Rightarrow> Some (Inl (Breaks s'))) = Some x"
    then show "case x of Inl r \<Rightarrow> runs A t Q (Some r) | Inr (a, t') \<Rightarrow> I a t' \<and> same A t t'"
      using step [of "fst s" "snd s"] by (cases s) (auto split: option.splits flow.splits sum.splits)
  qed (use assms in simp)
  then show ?thesis using Some by simp
qed simp


subsection \<open>The editor\<close>

definition line_area :: "far \<Rightarrow> far \<Rightarrow> u8 \<Rightarrow> nat set" where
  "line_area L kp n = (\<lambda>i. at L (of_nat i)) ` {..<unat n} \<union> (\<lambda>i. at (kb_line kp) (of_nat i)) ` {..<unat n} \<union> (if n = 0 then {} else {at kp 1})"

text \<open>The line fits the buffer, and what a key leaves: a line that fits, or a complete one.\<close>

definition line_fits :: "u8 \<Rightarrow> editor \<Rightarrow> bool" where
  "line_fits n e \<longleftrightarrow> unat (ed_count e) < unat n"

definition complete :: "far \<Rightarrow> u8 \<Rightarrow> editor \<Rightarrow> 's tty \<Rightarrow> bool" where
  "complete L n e t \<longleftrightarrow> 0 < unat (ed_count e) \<and> unat (ed_count e) \<le> unat n \<and> mem t (at L (ed_count e - 1)) = CR"

definition after_key :: "far \<Rightarrow> u8 \<Rightarrow> u16 \<Rightarrow> editor \<Rightarrow> 's tty \<Rightarrow> bool" where
  "after_key L n c e t \<longleftrightarrow> (if c = ucast CR then complete L n e t else line_fits n e)"

lemma line_fits_simps [simp]: "line_fits n (e\<lparr>stored_pos := p\<rparr>) = line_fits n e" "line_fits n (e\<lparr>stored_size := p\<rparr>) = line_fits n e" "line_fits n (e\<lparr>ed_insert := b\<rparr>) = line_fits n e"
  "line_fits n (e\<lparr>ed_first := b\<rparr>) = line_fits n e" "line_fits n (e\<lparr>ed_count := 0\<rparr>) \<longleftrightarrow> 0 < n"
  by (simp_all add: line_fits_def word_less_nat_alt)

lemma complete_simps [simp]: "complete L n (e\<lparr>stored_pos := p\<rparr>) t = complete L n e t" "complete L n (e\<lparr>ed_first := b\<rparr>) t = complete L n e t"
  by (simp_all add: complete_def)

lemma area_typed: "line_fits n e \<Longrightarrow> at L (ed_count e) \<in> line_area L kp n"
  unfolding line_area_def line_fits_def by (intro UnI1 image_eqI [where x = "unat (ed_count e)"]) simp_all

lemma unat_bytes: "unat (ucast (n :: u8) :: u16) = unat n"
  by (simp add: unat_ucast8_16)

text \<open>There is room for another character: the test of the code.\<close>

lemma room_iff: "0 < n \<Longrightarrow> line_fits n e \<Longrightarrow> ed_count e < ucast n - 1 \<longleftrightarrow> unat (ed_count e) + 1 < unat n"
proof -
  assume n: "0 < n"
  then have "unat (ucast n - 1 :: u16) = unat n - 1" by (subst unat_sub) (simp_all add: unat_bytes word_le_nat_alt word_less_nat_alt)
  then show ?thesis by (auto simp: word_less_nat_alt)
qed

lemma unat_next: "line_fits n e \<Longrightarrow> unat (ed_count e + 1) = unat (ed_count e) + 1"
  using unsigned_less [of n, where 'a = nat] by (subst unat_add16) (auto simp: line_fits_def)

lemma store_runs:
  assumes "0 < n" "same (line_area L kp n) t t'" "line_fits n e"
  shows "runs (line_area L kp n) t (\<lambda>e' t''. e' = e\<lparr>ed_count := ed_count e + 1\<rparr> \<and> mem t'' (at L (ed_count e)) = c) (store_char L E so c e t')"
  unfolding store_char_def
  by (rule runs_andthen [OF runs_io [where P = "\<lambda>_ _. True"]]) (use assms in \<open>auto simp: poke_def intro: same_poke [unfolded poke_def] area_typed\<close>)

lemma copy_runs:
  assumes "0 < n" "same (line_area L kp n) t t'" "line_fits n e" "ed_count e < ucast n - 1"
  shows "runs (line_area L kp n) t (\<lambda>e' _. line_fits n e') (copy_stored L kp E so e t')"
  unfolding copy_stored_def
  by (rule runs_weaken [OF store_runs]) (use assms room_iff [OF assms(1)] unat_next [of n] in \<open>auto simp: line_fits_def\<close>)

lemma copy_loop_runs:
  assumes "0 < n" "same (line_area L kp n) t t'" "line_fits n e"
  shows "runs (line_area L kp n) t (\<lambda>e' _. line_fits n e') (floop (copy_body L kp E so (ucast n) np) e t')"
proof (rule runs_floop [where I = "\<lambda>e _. line_fits n e"])
  fix e t' assume "line_fits n e" "same (line_area L kp n) t t'"
  then show "runs (line_area L kp n) t (\<lambda>x t''. case x of Inl r \<Rightarrow> line_fits n r | Inr a' \<Rightarrow> line_fits n a') (copy_body L kp E so (ucast n) np e t')"
    by (auto simp: copy_body_def intro!: runs_andthen [OF copy_runs [OF assms(1)]])
qed (use assms in auto)

lemma target_runs: "0 < n \<Longrightarrow> same (line_area L kp n) t t' \<Longrightarrow> runs (line_area L kp n) t (\<lambda>_ _. True) (target key kp c e t')"
  by (auto simp: target_def intro!: runs_andthen [OF runs_io [where P = "\<lambda>_ _. True"]])

lemma start_runs: "0 < n \<Longrightarrow> same (line_area L kp n) t t' \<Longrightarrow> runs (line_area L kp n) t (\<lambda>e' _. line_fits n e') (start_new_line E so cu e t')"
  by (auto simp: start_new_line_def intro!: runs_andthen [OF runs_io [where P = "\<lambda>_ _. True"]])

lemma backspace_runs:
  assumes "0 < n" "same (line_area L kp n) t t'" "line_fits n e"
  shows "runs (line_area L kp n) t (\<lambda>e' _. line_fits n e') (backspace L E so cu e t')"
proof -
  have "line_fits n (e\<lparr>ed_count := ed_count e - 1\<rparr>)" if "ed_count e > 0"
    using assms(3) that by (simp add: line_fits_def unat_sub word_less_nat_alt word_le_nat_alt)
  then show ?thesis
    using assms by (auto simp: backspace_def Let_def intro!: runs_andthen [OF runs_io [where P = "\<lambda>_ _. True"]] runs_andthen [where Q = "\<lambda>_ _. True"] runs_io)
qed

lemma type_runs:
  assumes "0 < n" "same (line_area L kp n) t t'" "line_fits n e"
  shows "runs (line_area L kp n) t (\<lambda>e' t''. after_key L n c e' t'') (type_char L E so (ucast n) c e t')"
proof -
  let ?Q = "\<lambda>e' t''. after_key L n c e' t''"
  have s: "runs (line_area L kp n) t ?Q (store_char L E so (ucast c) e t')" if "ed_count e < ucast n - 1 \<or> c = ucast CR"
    by (rule runs_weaken [OF store_runs [OF assms]])
      (use that assms room_iff [OF assms(1)] unat_next [of n] in \<open>auto simp: after_key_def complete_def line_fits_def keys\<close>)
  have b: "runs (line_area L kp n) t ?Q (andthen (io (write_char E BELL so) t') (\<lambda>_ t1. Some (Returns e t1)))" if "c \<noteq> ucast CR"
    using that assms by (auto simp: after_key_def intro!: runs_andthen [OF runs_io [where P = "\<lambda>_ _. True"]])
  show ?thesis unfolding type_char_def
    by (rule runs_andthen [where Q = ?Q]) (use s b in \<open>auto simp: after_key_def split: if_splits\<close>)
qed


lemma key_runs:
  assumes "0 < n" "same (line_area L kp n) t t'" "line_fits n e"
  shows "runs (line_area L kp n) t (after_key L n (if c = F6 then ucast CTL_Z else c)) (edit_key key L kp E so cu (ucast n) c e t')"
proof -
  let ?A = "line_area L kp n" and ?c = "if c = F6 then ucast CTL_Z else c"
  note p = runs_andthen [OF runs_io [where P = "\<lambda>_ _. True"]]
  have w: "runs ?A t (after_key L n ?c) m" if "runs ?A t (\<lambda>e' _. line_fits n e') m" "c \<noteq> ucast CR" for m
    by (rule runs_weaken [OF that(1)]) (use that(2) in \<open>simp add: after_key_def keys\<close>)
  have m: "same ?A t (t'\<lparr>mem := fmemcpy (kb_line kp) L (unat (ed_count e)) (mem t')\<rparr>)"
    using assms(3) by (intro same_fmemcpy assms) (auto simp: line_area_def line_fits_def)
  have lf: "runs ?A t (\<lambda>e' _. line_fits n e') (line_feed E so e t')"
    using assms by (auto simp: line_feed_def intro!: p)
  have one: "runs ?A t (\<lambda>e' _. line_fits n e') (copy_one L kp E so (ucast n) e t')"
    using assms copy_runs [OF assms] by (simp add: copy_one_def)
  have to: "runs ?A t (\<lambda>e' _. line_fits n e') (copy_to key L kp E so (ucast n) c e t')"
    unfolding copy_to_def
    by (rule runs_andthen [OF target_runs [OF assms(1,2)]], rule runs_andthen [where Q = "\<lambda>e' _. line_fits n e'"])
      (use assms in \<open>auto intro: copy_loop_runs\<close>)
  have keep: "runs ?A t (\<lambda>e' _. line_fits n e') (keep_line L kp E so cu e t')"
    using assms m by (auto simp: keep_line_def Let_def intro!: p start_runs)
  have esc: "runs ?A t (\<lambda>e' _. line_fits n e') (andthen (io (write_char E 0x5c so) t') (\<lambda>_ t1. start_new_line E so cu e t1))"
    using assms by (auto intro!: p start_runs)
  have st: "runs ?A t (after_key L n ?c) (Some (Returns e' t'))" if "line_fits n e'" "c \<noteq> ucast CR" for e'
    using w [of "Some (Returns e' t')"] that assms(2) by simp
  show ?thesis
    using w [OF lf] w [OF one] w [OF to] w [OF keep] w [OF esc] w [OF backspace_runs [OF assms]] type_runs [OF assms, of ?c] st assms(3)
    by (auto simp: edit_key_def keys)
qed

lemma loop_runs:
  assumes "0 < n" "same (line_area L kp n) t t'" "line_fits n e"
  shows "runs (line_area L kp n) t (complete L n) (floop (line_body key L kp E so cu (ucast n)) e t')"
proof (rule runs_floop [where I = "\<lambda>e _. line_fits n e"])
  fix e t1 assume e: "line_fits n e" "same (line_area L kp n) t t1"
  have "runs (line_area L kp n) t (\<lambda>_ _. True) (get_code key t1)"
    using e by (auto simp: get_code_def intro!: runs_andthen [OF runs_io [where P = "\<lambda>_ _. True"]])
  then show "runs (line_area L kp n) t (\<lambda>x t''. case x of Inl r \<Rightarrow> complete L n r t'' | Inr a' \<Rightarrow> line_fits n a') (line_body key L kp E so cu (ucast n) e t1)"
    unfolding line_body_def
    by (rule runs_andthen) (rule runs_andthen [OF key_runs [OF assms(1) _ e(1)]], auto simp: after_key_def Let_def)
qed (use assms in auto)

text \<open>The line in the buffer does not overlap the characters being typed.\<close>

definition buffers_apart :: "far \<Rightarrow> far \<Rightarrow> u8 \<Rightarrow> bool" where
  "buffers_apart L kp n \<longleftrightarrow> (\<forall>i < unat n. \<forall>j < unat n. at (kb_line kp) (of_nat i) \<noteq> at L (of_nat j))"

lemma area_kp: "i < unat n \<Longrightarrow> at (kb_line kp) (of_nat i) \<in> line_area L kp n"
  by (auto simp: line_area_def)

lemma at_kb_line: "at (kb_line kp) i = at kp (i + 2)"
  by (simp add: at_def kb_line_def ac_simps)

lemma at_kb_buf: "at (kb_buf L) i = at L (i + 128)"
  by (simp add: at_def kb_buf_def ac_simps)

lemma at_eq_iff: "at p i = at p j \<longleftrightarrow> i = j"
  by (simp add: at_def flip: word_unat_eq_iff)

lemma finish_same:
  assumes "same (line_area L kp n) t t'" "0 < n" "complete L n e t'"
  shows "same (line_area L kp n) t (finish_line L kp e t')"
proof -
  have k: "at kp 1 \<in> line_area L kp n" using assms(2) by (simp add: line_area_def)
  have b: "at (kb_buf L) 0 \<in> line_area L kp n" if "ed_count e > ucast LINEBUFSIZECON"
  proof -
    have "128 < unat n" using that assms(3) by (simp add: complete_def word_less_nat_alt keys)
    then show ?thesis unfolding at_kb_buf line_area_def by (intro UnI1 image_eqI [where x = 128]) simp_all
  qed
  have "same (line_area L kp n) t (t'\<lparr>mem := fmemcpy (kb_line kp) L (unat (ed_count e)) (mem t')\<rparr>)"
    using assms(3) by (intro same_fmemcpy assms area_kp) (auto simp: complete_def)
  then show ?thesis using b k by (auto simp: finish_line_def Let_def intro!: same_poke)
qed

lemma finish_ends:
  assumes "0 < n" "complete L n e t'" "buffers_apart L kp n"
  shows "unat (kb_count kp (mem (finish_line L kp e t'))) < unat n \<and>
    mem (finish_line L kp e t') (at (kb_line kp) (ucast (kb_count kp (mem (finish_line L kp e t'))))) = CR"
proof -
  let ?m = "unat (ed_count e)" and ?k = "ed_count e - 1"
  have c: "0 < ?m" "?m \<le> unat n" "mem t' (at L ?k) = CR" using assms(2) by (simp_all add: complete_def)
  have k: "unat ?k = ?m - 1" using c(1) by (simp add: unat_sub word_le_nat_alt)
  have n: "unat n < 256" using unsigned_less [of n, where 'a = nat] by simp
  have cnt: "kb_count kp (mem (finish_line L kp e t')) = ucast ?k" by (simp add: finish_line_def kb_count_def poke_def Let_def)
  have u8: "unat (ucast ?k :: u8) = ?m - 1" using c n k by (subst unat_ucast_le) simp_all
  then have u: "ucast (ucast ?k :: u8) = ?k" using k by (simp add: word_unat_eq_iff)
  have "fmemcpy (kb_line kp) L ?m (mem t') (at (kb_line kp) (of_nat (?m - 1))) = mem t' (at L (of_nat (?m - 1)))"
    using assms(3) c n by (intro fmemcpy_at) (auto simp: buffers_apart_def)
  moreover have o: "of_nat (?m - 1) = ?k" by (rule word16_eqI) (use c n k in \<open>subst unat_of_nat16; simp\<close>)
  ultimately have f: "fmemcpy (kb_line kp) L ?m (mem t') (at (kb_line kp) ?k) = CR" using c(3) by simp
  have "unat (?k + 2) = ?m + 1" using k c n by (subst unat_add16) simp_all
  then have "?k + 2 \<noteq> 1" using c(1) by (metis add_eq_self_zero less_numeral_extra(3) unat_1 add.commute)
  then have "at (kb_line kp) ?k \<noteq> at kp 1" unfolding at_kb_line at_eq_iff .
  moreover have "at (kb_line kp) ?k \<noteq> at (kb_buf L) 0" if "ed_count e > ucast LINEBUFSIZECON"
  proof -
    have "128 < ?m" using that by (simp add: word_less_nat_alt keys)
    then have "at (kb_line kp) (of_nat (?m - 1)) \<noteq> at L (of_nat 128)" using assms(3) c(2) unfolding buffers_apart_def by (metis Suc_diff_1 c(1) less_le_trans lessI)
    then show ?thesis using o by (simp add: at_kb_buf)
  qed
  ultimately show ?thesis unfolding cnt u u8 using f c by (simp add: finish_line_def Let_def poke_def)
qed


fun left_in :: "('a, 's) flow \<Rightarrow> 's" where
  "left_in (Returns a t) = t"
| "left_in (Breaks t) = t"

text \<open>C16. Whatever is typed, wherever characters come from and go to, and wherever the line buffer lies,
  \<^verbatim>\<open>read_line\<close> writes only to as many bytes of \<^verbatim>\<open>local_buffer\<close> and of the line as the buffer of the caller has, and to
  its \<^verbatim>\<open>kb_count\<close>, also when the break key ends it; a line that is returned fits the buffer and ends with a carriage
  return.\<close>

theorem read_line_bounded:
  assumes r: "read_line hb L E sft_in sft_out kp t = Some r"
  shows "(x \<notin> line_area L kp (kb_size kp (mem t)) \<longrightarrow> mem (left_in r) x = mem t x) \<and>
    (r = Returns () t' \<and> 0 < kb_size kp (mem t) \<and> buffers_apart L kp (kb_size kp (mem t)) \<longrightarrow>
       kb_count kp (mem t') < kb_size kp (mem t) \<and> mem t' (at (kb_line kp) (ucast (kb_count kp (mem t')))) = CR)"
proof (cases "kb_size kp (mem t) = 0")
  case False
  define n where "n = kb_size kp (mem t)"
  have n: "0 < n" using False by (simp add: n_def word_neq_0_conv)
  have f: "line_fits n (start_editor kp (mem t))" using n by (simp add: line_fits_def start_editor_def Let_def word_less_nat_alt)
  have z: "ucast n \<noteq> (0 :: u16)" using n by (metis unat_ucast8_16 unat_0 word_less_nat_alt less_irrefl)
  let ?P = "\<lambda>_ t'. buffers_apart L kp n \<longrightarrow> unat (kb_count kp (mem t')) < unat n \<and> mem t' (at (kb_line kp) (ucast (kb_count kp (mem t')))) = CR"
  have "runs (line_area L kp n) t ?P (read_line hb L E sft_in sft_out kp t)"
    unfolding read_line_def Let_def n_def [symmetric] if_not_P [OF z]
    by (rule runs_andthen [OF loop_runs [OF n same_refl f]]) (simp add: finish_same [OF _ n] finish_ends [OF n])
  then show ?thesis using r by (cases r) (auto simp: same_def n_def word_less_nat_alt)
qed (use r in \<open>auto simp: read_line_def\<close>)

end
