(* ===== verification/LineSpec.thy ===== *)
theory LineSpec
  imports LineSafe
begin

text \<open>
  What the keys of the line editor do, on lists: the line typed so far, the stored line of the last call and the
  position in it. The loop of \<^verbatim>\<open>read_line\<close> computes this from the characters that the console delivers; what it asks of
  the console is the locale \<open>terminal\<close>, which is interpreted on the console functions of the kernel.
\<close>

subsection \<open>The editor on lists\<close>

record edstate =
  typed :: "u8 list"
  stored :: "u8 list"
  ed_pos :: nat
  inserting :: bool

definition next_code :: "u8 list \<Rightarrow> (u16 \<times> u8 list) option" where
  "next_code bs = (case bs of
       [] \<Rightarrow> None
     | c # cs \<Rightarrow> if c \<noteq> 0 then Some (ucast c, cs) else (case cs of [] \<Rightarrow> None | c2 # cs2 \<Rightarrow> Some (push_bit 8 (ucast c2), cs2)))"

text \<open>
  F2 and F4 take a character; \<open>found_at\<close> is the position behind the first one like it. The position is counted from where the
  search starts, not from the start of the stored line. Behind the stored line there is no position.
\<close>

definition found_at :: "u8 \<Rightarrow> edstate \<Rightarrow> nat" where
  "found_at c st = (case find (\<lambda>j. drop (ed_pos st) (stored st) ! j = c) [0..<length (stored st) - ed_pos st] of None \<Rightarrow> ed_pos st | Some j \<Rightarrow> j + 1)"

definition jump_spec :: "u16 \<Rightarrow> u8 list \<Rightarrow> edstate \<Rightarrow> (nat \<times> u8 list) option" where
  "jump_spec c bs st =
     (if c = F3 then Some (length (stored st), bs)
      else if ed_pos st > length (stored st) then None
      else case bs of
        [] \<Rightarrow> None
      | c2 # bs1 \<Rightarrow> if c2 \<noteq> 0 then Some (found_at c2 st, bs1) else (case bs1 of [] \<Rightarrow> None | _ # bs2 \<Rightarrow> Some (ed_pos st, bs2)))"

text \<open>A buffer of \<open>n\<close> bytes has room for the line and its carriage return.\<close>

definition copied :: "nat \<Rightarrow> nat \<Rightarrow> edstate \<Rightarrow> edstate" where
  "copied n to st = st\<lparr>typed := typed st @ take (n - 1 - length (typed st)) (take (to - ed_pos st) (drop (ed_pos st) (stored st)))\<rparr>"

definition typed_char :: "nat \<Rightarrow> u16 \<Rightarrow> edstate \<Rightarrow> edstate" where
  "typed_char n c st =
     st\<lparr>typed := (if length (typed st) < n - 1 \<or> c = ucast CR then typed st @ [ucast c] else typed st),
        ed_pos := (if ed_pos st < length (stored st) \<and> \<not> inserting st then ed_pos st + 1 else ed_pos st)\<rparr>"

definition key_spec :: "nat \<Rightarrow> u16 \<Rightarrow> u8 list \<Rightarrow> edstate \<Rightarrow> (edstate \<times> u8 list) option" where
  "key_spec n c bs st =
     (if c = ucast LF \<or> c = CTL_F then Some (st, bs)
      else if c = RIGHT \<or> c = F1 then
        Some (if ed_pos st < length (stored st) \<and> length (typed st) < n - 1
              then st\<lparr>typed := typed st @ [stored st ! ed_pos st], ed_pos := ed_pos st + 1\<rparr> else st, bs)
      else if c = F2 \<or> c = F4 \<or> c = F3 then
        map_option (\<lambda>(to, bs1). ((if c = F4 then st else copied n to st)\<lparr>ed_pos := to\<rparr>, bs1)) (jump_spec c bs st)
      else if c = F5 then Some (\<lparr>typed = [], stored = typed st, ed_pos = 0, inserting = False\<rparr>, bs)
      else if c = INS then Some (st\<lparr>inserting := \<not> inserting st\<rparr>, bs)
      else if c = DEL then Some (st\<lparr>ed_pos := ed_pos st + 1\<rparr>, bs)
      else if c = LEFT \<or> c = CTL_BS \<or> c = ucast BS then Some (st\<lparr>typed := butlast (typed st), ed_pos := ed_pos st - 1\<rparr>, bs)
      else if c = ESC then Some (st\<lparr>typed := [], ed_pos := 0, inserting := False\<rparr>, bs)
      else Some (typed_char n (if c = F6 then ucast CTL_Z else c) st, bs))"

lemma next_code_shorter: "next_code bs = Some (c, bs') \<Longrightarrow> length bs' < length bs"
  by (auto simp: next_code_def split: list.splits if_splits)

lemma jump_spec_shorter: "jump_spec c bs st = Some (to, bs') \<Longrightarrow> length bs' \<le> length bs"
  by (auto simp: jump_spec_def split: list.splits if_splits)

lemma key_spec_shorter: "key_spec n c bs st = Some (st', bs') \<Longrightarrow> length bs' \<le> length bs"
  by (auto simp: key_spec_def split: if_splits dest: jump_spec_shorter)

text \<open>The line, with its carriage return, and the keys that are left.\<close>

function edit_line :: "nat \<Rightarrow> u8 list \<Rightarrow> edstate \<Rightarrow> (u8 list \<times> u8 list) option" where
  "edit_line n bs st =
     (case next_code bs of
        None \<Rightarrow> None
      | Some (c, bs1) \<Rightarrow> (case key_spec n c bs1 st of
            None \<Rightarrow> None
          | Some (st1, bs2) \<Rightarrow> if c = ucast CR then Some (typed st1, bs2) else edit_line n bs2 st1))"
  by pat_completeness auto
termination
  by (relation "measure (\<lambda>(n, bs, st). length bs)") (auto dest!: next_code_shorter key_spec_shorter)

declare edit_line.simps [simp del]

subsection \<open>Bytes in memory\<close>

lemma length_bytes [simp]: "length (bytes p n m) = n"
  by (simp add: bytes_def)

lemma bytes_nth: "i < n \<Longrightarrow> bytes p n m ! i = m (at p (of_nat i))"
  by (simp add: bytes_def)

lemma take_bytes: "k \<le> n \<Longrightarrow> take k (bytes p n m) = bytes p k m"
  by (simp add: bytes_def take_map)

lemma bytes_cong: "(\<And>i. i < n \<Longrightarrow> m (at p (of_nat i)) = m' (at q (of_nat i))) \<Longrightarrow> bytes p n m = bytes q n m'"
  by (simp add: bytes_def)

lemma bytes_snoc: "n < 65536 \<Longrightarrow> bytes p (Suc n) (m(at p (of_nat n) := c)) = bytes p n m @ [c]"
  by (auto simp: bytes_def at_inj intro!: map_cong)

lemma bytes_upd: "(\<And>i. i < n \<Longrightarrow> at p (of_nat i) \<noteq> x) \<Longrightarrow> bytes p n (m(x := c)) = bytes p n m"
  by (rule bytes_cong) simp

lemma bytes_fmemcpy:
  assumes "n \<le> 65536" "\<And>i j. i < n \<Longrightarrow> j < n \<Longrightarrow> at d (of_nat i) \<noteq> at s (of_nat j)"
  shows "bytes d n (fmemcpy d s n m) = bytes s n m"
  by (rule bytes_cong) (use fmemcpy_at [OF assms] in simp)

subsection \<open>The editor of the code and the editor on lists\<close>

definition line_rel :: "far \<Rightarrow> far \<Rightarrow> u8 \<Rightarrow> edstate \<Rightarrow> editor \<Rightarrow> memory \<Rightarrow> bool" where
  "line_rel L kp n st e m \<longleftrightarrow>
     unat (ed_count e) = length (typed st) \<and> bytes L (length (typed st)) m = typed st \<and>
     unat (stored_size e) = length (stored st) \<and> bytes (kb_line kp) (length (stored st)) m = stored st \<and>
     unat (stored_pos e) = ed_pos st \<and> ed_insert e = inserting st \<and> length (stored st) < unat n"

lemma u8_bound: "unat (n :: u8) < 256"
  using unsigned_less [of n, where 'a = nat] by simp

lemma rel_store:
  assumes r: "line_rel L kp n st e m" and l: "length (typed st) < unat n" and b: "buffers_apart L kp n"
  shows "line_rel L kp n (st\<lparr>typed := typed st @ [c]\<rparr>) (e\<lparr>ed_count := ed_count e + 1\<rparr>) (m(at L (ed_count e) := c))"
proof -
  have k: "ed_count e = of_nat (length (typed st))" using r by (metis line_rel_def word_unat_eq_iff unat_of_nat16 unat_lt16)
  have "bytes L (Suc (length (typed st))) (m(at L (ed_count e) := c)) = typed st @ [c]"
    unfolding k using l u8_bound [of n] r by (subst bytes_snoc) (simp_all add: line_rel_def)
  moreover have "bytes (kb_line kp) (length (stored st)) (m(at L (ed_count e) := c)) = stored st"
    unfolding k using l b r by (subst bytes_upd) (auto simp: buffers_apart_def line_rel_def)
  moreover have "unat (ed_count e + 1) = unat (ed_count e) + 1" using r l u8_bound [of n] by (subst unat_add16) (auto simp: line_rel_def)
  ultimately show ?thesis using r by (simp add: line_rel_def)
qed

lemma rel_pos: "line_rel L kp n st e m \<Longrightarrow> unat p = q \<Longrightarrow> line_rel L kp n (st\<lparr>ed_pos := q\<rparr>) (e\<lparr>stored_pos := p\<rparr>) m"
  by (simp add: line_rel_def)

lemma rel_room:
  assumes "line_rel L kp n st e m" "length (typed st) < unat n"
  shows "ed_count e < ucast n - 1 \<longleftrightarrow> length (typed st) < unat n - 1"
proof -
  have "0 < n" "line_fits n e" using assms by (auto simp: line_fits_def line_rel_def word_less_nat_alt)
  from room_iff [OF this] show ?thesis using assms by (auto simp: line_rel_def)
qed

lemma rel_next_pos: "line_rel L kp n st e m \<Longrightarrow> ed_pos st < 65535 \<Longrightarrow> line_rel L kp n (st\<lparr>ed_pos := ed_pos st + 1\<rparr>) (e\<lparr>stored_pos := stored_pos e + 1\<rparr>) m"
  by (intro rel_pos) (auto simp: line_rel_def unat_add16)

lemma rel_keep:
  assumes r: "line_rel L kp n st e m" and l: "length (typed st) < unat n" and b: "buffers_apart L kp n"
  shows "line_rel L kp n \<lparr>typed = [], stored = typed st, ed_pos = 0, inserting = False\<rparr>
    (e\<lparr>stored_size := ed_count e, ed_count := 0, stored_pos := 0, ed_insert := False\<rparr>) (fmemcpy (kb_line kp) L (unat (ed_count e)) m)"
proof -
  have "bytes (kb_line kp) (length (typed st)) (fmemcpy (kb_line kp) L (length (typed st)) m) = typed st"
    using r l b u8_bound [of n] by (subst bytes_fmemcpy) (auto simp: buffers_apart_def line_rel_def)
  then show ?thesis using r l by (simp add: line_rel_def bytes_def)
qed

lemma rel_butlast:
  assumes "line_rel L kp n st e m" "typed st \<noteq> []"
  shows "line_rel L kp n (st\<lparr>typed := butlast (typed st)\<rparr>) (e\<lparr>ed_count := ed_count e - 1\<rparr>) m"
proof -
  have l: "0 < length (typed st)" using assms(2) by simp
  then have "unat (ed_count e - 1) = unat (ed_count e) - 1" using assms(1) by (subst unat_sub) (auto simp: line_rel_def word_le_nat_alt Suc_le_eq)
  moreover have "bytes L (length (typed st) - 1) m = butlast (typed st)"
    using assms(1) by (metis butlast_conv_take diff_le_self line_rel_def take_bytes)
  ultimately show ?thesis using assms(1) by (simp add: line_rel_def)
qed

lemma length_copied: "length (typed st) < n \<Longrightarrow> length (typed (copied n to st)) < n"
  by (auto simp: copied_def)

lemma key_spec_length: "key_spec n c bs st = Some (st', bs') \<Longrightarrow> length (typed st) < n \<Longrightarrow> c \<noteq> ucast CR \<Longrightarrow> length (typed st') < n"
  by (auto simp: key_spec_def typed_char_def keys length_copied split: if_splits)

lemma key_spec_CR: "key_spec n (ucast CR) bs st = Some (st', bs') \<Longrightarrow> typed st' = typed st @ [CR] \<and> bs' = bs"
  by (auto simp: key_spec_def typed_char_def keys)

lemma jump_spec_pos: "jump_spec c bs st = Some (to, bs') \<Longrightarrow> to \<le> length (stored st)"
  by (auto simp: jump_spec_def found_at_def find_Some_iff split: list.splits if_splits option.splits)

lemma key_spec_pos: "key_spec n c bs st = Some (st', bs') \<Longrightarrow> ed_pos st' \<le> max (length (stored st)) (ed_pos st + 1)"
  by (auto simp: key_spec_def typed_char_def split: if_splits dest: jump_spec_pos)

text \<open>The stored line of a buffer; it counts only if it ends with a carriage return.\<close>

definition stored_line :: "far \<Rightarrow> memory \<Rightarrow> u8 list" where
  "stored_line kp m = (if m (at (kb_line kp) (ucast (kb_count kp m))) \<noteq> CR then [] else bytes (kb_line kp) (unat (kb_count kp m)) m)"

definition start_state :: "far \<Rightarrow> memory \<Rightarrow> edstate" where
  "start_state kp m = \<lparr>typed = [], stored = stored_line kp m, ed_pos = 0, inserting = False\<rparr>"

text \<open>A buffer holds a line with its carriage return.\<close>

definition holds_line :: "far \<Rightarrow> u8 list \<Rightarrow> memory \<Rightarrow> bool" where
  "holds_line kp l m \<longleftrightarrow> unat (kb_count kp m) + 1 = length l \<and> bytes (kb_line kp) (length l) m = l \<and> last l = CR"

lemma start_rel: "unat (kb_count kp m) < unat n \<Longrightarrow> line_rel L kp n (start_state kp m) (start_editor kp m) m"
  by (auto simp: line_rel_def start_state_def start_editor_def stored_line_def Let_def bytes_def)

lemma console_finish [simp]: "console (finish_line L kp e t) = console t"
  by (simp add: finish_line_def Let_def poke_def)

lemma finish_holds:
  assumes "0 < n" "unat (ed_count e) = length l" "bytes L (length l) (mem t) = l" "last l = CR" "length l \<le> unat n" "l \<noteq> []" "buffers_apart L kp n"
  shows "holds_line kp l (mem (finish_line L kp e t))"
proof -
  let ?m = "mem (finish_line L kp e t)"
  have l: "0 < length l" using assms(6) by simp
  have k: "unat (ed_count e - 1) = length l - 1" using l assms(2) by (subst unat_sub) (auto simp: word_le_nat_alt Suc_le_eq)
  have "kb_count kp ?m = ucast (ed_count e - 1)" by (simp add: finish_line_def kb_count_def poke_def Let_def)
  moreover have "unat (ucast (ed_count e - 1) :: u8) = length l - 1"
    using k l assms(5) u8_bound [of n] by (subst unat_ucast_le) simp_all
  ultimately have c: "unat (kb_count kp ?m) + 1 = length l" using l by simp
  have "?m (at (kb_line kp) (of_nat i)) = mem t (at L (of_nat i))" if i: "i < length l" for i
  proof -
    have f: "fmemcpy (kb_line kp) L (unat (ed_count e)) (mem t) (at (kb_line kp) (of_nat i)) = mem t (at L (of_nat i))"
      using assms(2,5,7) i u8_bound [of n] by (intro fmemcpy_at) (auto simp: buffers_apart_def)
    have "i + 2 < 65536" using i assms(5) u8_bound [of n] by simp
    then have "unat (of_nat i + 2 :: u16) = i + 2" using unat_of_nat16 [of "i + 2"] by (simp add: add.commute)
    then have "(of_nat i + 2 :: u16) \<noteq> 1" by (metis add_2_eq_Suc' nat.distinct(1) nat.inject unat_1 One_nat_def)
    then have "at (kb_line kp) (of_nat i) \<noteq> at kp 1" unfolding at_kb_line at_eq_iff .
    moreover have "at (kb_line kp) (of_nat i) \<noteq> at (kb_buf L) 0" if "ed_count e > ucast LINEBUFSIZECON"
    proof -
      have "128 < unat n" using that assms(2,5) by (simp add: word_less_nat_alt keys)
      then have "at (kb_line kp) (of_nat i) \<noteq> at L (of_nat 128)" using assms(5,7) i unfolding buffers_apart_def by (meson less_le_trans)
      then show ?thesis by (simp add: at_kb_buf)
    qed
    ultimately show ?thesis using f by (simp add: finish_line_def Let_def poke_def)
  qed
  then have "bytes (kb_line kp) (length l) ?m = bytes L (length l) (mem t)" by (rule bytes_cong)
  then show ?thesis using c assms(3,4) by (simp add: holds_line_def)
qed

subsection \<open>Calls that return\<close>

definition yields :: "('a \<Rightarrow> 's \<Rightarrow> bool) \<Rightarrow> ('a, 's) flow option \<Rightarrow> bool" where
  "yields P m \<longleftrightarrow> (\<exists>a t. m = Some (Returns a t) \<and> P a t)"

lemma yields_Returns [simp]: "yields P (Some (Returns a t)) = P a t"
  by (simp add: yields_def)

lemma yields_andthen: "yields Q m \<Longrightarrow> (\<And>a t. Q a t \<Longrightarrow> yields P (f a t)) \<Longrightarrow> yields P (andthen m f)"
  by (auto simp: yields_def andthen_def)

lemma andthen_Returns [simp]: "andthen (Some (Returns a t)) f = f a t"
  by (simp add: andthen_def)

lemma yields_weaken: "yields Q m \<Longrightarrow> (\<And>a t. Q a t \<Longrightarrow> P a t) \<Longrightarrow> yields P m"
  by (auto simp: yields_def)

lemma yields_io: "yields (\<lambda>a c. P a (t\<lparr>console := c\<rparr>)) (f (console t)) \<Longrightarrow> yields P (io f t)"
  by (auto simp: yields_def io_def)

lemma floop_unfold: "floop body a s = andthen (body a s) (\<lambda>x s'. case x of Inl r \<Rightarrow> Some (Returns r s') | Inr a' \<Rightarrow> floop body a' s')"
  unfolding floop_def by (subst loopM.simps) (auto simp: andthen_def split: option.splits flow.splits sum.splits)

subsection \<open>The console the editor relies on\<close>

locale terminal =
  fixes inv :: "'a con \<Rightarrow> bool"
    and pending :: "'a con \<Rightarrow> u8 list"
    and key :: "'a con \<Rightarrow> (u8, 'a con) flow option"
    and E :: "'a conenv"
    and out :: int
  assumes key: "inv s \<Longrightarrow> pending s = c # cs \<Longrightarrow> yields (\<lambda>c' s'. c' = c \<and> inv s' \<and> pending s' = cs) (key s)"
    and put: "inv s \<Longrightarrow> yields (\<lambda>_ s'. inv s' \<and> pending s' = pending s \<and> (c \<in> {BS, 0x20} \<longrightarrow> scr_pos s' = scr_pos (update_scr_pos c 1 s))) (write_char E c out s)"
begin

lemma put': "inv s \<Longrightarrow> pending s = bs \<Longrightarrow> yields (\<lambda>_ s'. inv s' \<and> pending s' = bs) (write_char E c out s)"
  by (rule yields_weaken [OF put]) auto

lemma echo: "inv s \<Longrightarrow> pending s = bs \<Longrightarrow> yields (\<lambda>_ s'. inv s' \<and> pending s' = bs) (echo_char E c out s)"
  by (auto simp: echo_char_def intro!: yields_andthen [OF put'] put')

lemma puts: "inv s \<Longrightarrow> pending s = bs \<Longrightarrow> yields (\<lambda>_ s'. inv s' \<and> pending s' = bs) (write_chars E c out n s)"
  by (induction n arbitrary: s) (auto intro!: yields_andthen [OF put'])

lemma put_col:
  "inv s \<Longrightarrow> pending s = bs \<Longrightarrow> c \<in> {BS, 0x20} \<Longrightarrow> yields (\<lambda>_ s'. inv s' \<and> pending s' = bs \<and> scr_pos s' = scr_pos (update_scr_pos c 1 s)) (write_char E c out s)"
  by (rule yields_weaken [OF put]) auto

lemma destr:
  assumes "inv s" "pending s = bs"
  shows "yields (\<lambda>_ s'. inv s' \<and> pending s' = bs \<and> (0 < scr_pos s' \<longrightarrow> unat (scr_pos s') < unat (scr_pos s))) (destr_bs E out s)"
proof -
  have "(x :: u8) - 1 + 1 = x" for x by simp
  then have "unat (x - 1) < unat x" if "0 < x" for x :: u8 using that by (simp add: unat_sub word_le_nat_alt word_less_nat_alt)
  then show ?thesis unfolding destr_bs_def using assms
    by (auto intro!: yields_andthen [OF put_col [where bs = bs]] yields_weaken [OF put_col [where bs = bs]] simp: update_scr_pos_def keys)
qed

lemma destr': "inv s \<Longrightarrow> pending s = bs \<Longrightarrow> yields (\<lambda>_ s'. inv s' \<and> pending s' = bs) (destr_bs E out s)"
  by (rule yields_weaken [OF destr]) auto

lemma erase: "inv s \<Longrightarrow> pending s = bs \<Longrightarrow> yields (\<lambda>_ s'. inv s' \<and> pending s' = bs) (erase_tab E out np s)"
proof (induction "unat (scr_pos s)" arbitrary: s rule: less_induct)
  case less
  have pos: "0 < (x :: u8)" if "np < ucast x" for x
    using that by (metis not_less_zero ucast_0 word_coorder.not_eq_extremum word_not_simps(1))
  have "yields (\<lambda>x t. inv t \<and> pending t = bs \<and> (x = Inr () \<longrightarrow> unat (scr_pos t) < unat (scr_pos s)))
      (andthen (destr_bs E out s) (\<lambda>_ s1. Some (Returns (if np < ucast (scr_pos s1) then Inr () else Inl ()) s1)))"
    by (rule yields_andthen [OF destr [OF less.prems]]) (auto dest: pos)
  moreover have "yields (\<lambda>_ s'. inv s' \<and> pending s' = bs) (erase_tab E out np t)"
    if "inv t" "pending t = bs" "unat (scr_pos t) < unat (scr_pos s)" for t
    using less.hyps that by blast
  ultimately show ?case unfolding erase_tab_def
    by (subst floop_unfold, elim yields_andthen) (auto split: sum.splits)
qed


definition on :: "u8 list \<Rightarrow> 'a tty \<Rightarrow> bool" where
  "on bs t \<longleftrightarrow> inv (console t) \<and> pending (console t) = bs"

definition edits :: "far \<Rightarrow> far \<Rightarrow> u8 \<Rightarrow> u8 list \<Rightarrow> edstate \<Rightarrow> (editor, 'a tty) flow option \<Rightarrow> bool" where
  "edits L kp n bs st = yields (\<lambda>e t. on bs t \<and> line_rel L kp n st e (mem t))"

lemma io_on:
  assumes "\<And>s. inv s \<Longrightarrow> pending s = bs \<Longrightarrow> yields (\<lambda>_ s'. inv s' \<and> pending s' = bs) (f s)" "on bs t"
  shows "yields (\<lambda>_ t'. on bs t' \<and> mem t' = mem t) (io f t)"
  by (rule yields_io, rule yields_weaken [OF assms(1)]) (use assms(2) in \<open>auto simp: on_def\<close>)

lemma ios:
  assumes "on bs t"
  shows "yields (\<lambda>_ t'. on bs t' \<and> mem t' = mem t) (io (write_char E c out) t)"
    and "yields (\<lambda>_ t'. on bs t' \<and> mem t' = mem t) (io (echo_char E c out) t)"
    and "yields (\<lambda>_ t'. on bs t' \<and> mem t' = mem t) (io (write_chars E c out k) t)"
    and "yields (\<lambda>_ t'. on bs t' \<and> mem t' = mem t) (io (erase_tab E out np) t)"
    and "yields (\<lambda>_ t'. on bs t' \<and> mem t' = mem t) (io (destr_bs E out) t)"
  using assms by (auto intro!: io_on put' echo puts erase destr')

lemma io_key: "on (c # bs) t \<Longrightarrow> yields (\<lambda>c' t'. c' = c \<and> on bs t' \<and> mem t' = mem t) (io key t)"
  by (rule yields_io, rule yields_weaken [OF key]) (auto simp: on_def)

lemma store_edits:
  assumes "on bs t" "line_rel L kp n st e (mem t)" "length (typed st) < unat n" "buffers_apart L kp n"
  shows "edits L kp n bs (st\<lparr>typed := typed st @ [c]\<rparr>) (store_char L E out c e t)"
  unfolding store_char_def edits_def
  by (rule yields_andthen [OF ios(2) [OF assms(1)]]) (use rel_store [OF assms(2-4)] in \<open>auto simp: poke_def on_def\<close>)

lemma copy_edits:
  assumes "on bs t" "line_rel L kp n st e (mem t)" "length (typed st) < unat n" "buffers_apart L kp n" "ed_pos st < length (stored st)"
  shows "edits L kp n bs (st\<lparr>typed := typed st @ [stored st ! ed_pos st], ed_pos := ed_pos st + 1\<rparr>) (copy_stored L kp E out e t)"
proof -
  have p: "stored_pos e = of_nat (ed_pos st)" using assms(2) by (metis line_rel_def word_unat_eq_iff unat_of_nat16 unat_lt16)
  have c: "mem t (at (kb_line kp) (stored_pos e)) = stored st ! ed_pos st"
    unfolding p using assms(2,5) by (metis bytes_nth line_rel_def)
  have "line_rel L kp n (st\<lparr>ed_pos := ed_pos st + 1\<rparr>) (e\<lparr>stored_pos := stored_pos e + 1\<rparr>) (mem t)"
    using rel_next_pos [OF assms(2)] assms(2,5) u8_bound [of n] by (auto simp: line_rel_def)
  from store_edits [OF assms(1) this, of "stored st ! ed_pos st"] show ?thesis using assms(3,4)
    unfolding copy_stored_def c by (cases st) simp
qed

lemma copied_step:
  assumes "ed_pos st < to" "to \<le> length (stored st)" "length (typed st) < n - 1"
  shows "copied n to (st\<lparr>typed := typed st @ [stored st ! ed_pos st], ed_pos := ed_pos st + 1\<rparr>) = (copied n to st)\<lparr>ed_pos := ed_pos st + 1\<rparr>"
proof -
  obtain r k where "n - 1 - length (typed st) = Suc r" "to - ed_pos st = Suc k" using assms by (metis Suc_diff_Suc)
  moreover from this have "n - 1 - length (typed st @ [stored st ! ed_pos st]) = r" "to - (ed_pos st + 1) = k" by auto
  moreover have "drop (ed_pos st) (stored st) = stored st ! ed_pos st # drop (ed_pos st + 1) (stored st)" using assms by (simp add: Cons_nth_drop_Suc)
  ultimately show ?thesis by (simp add: copied_def)
qed

lemma copy_loop_edits:
  assumes "on bs t" "line_rel L kp n st e (mem t)" "length (typed st) < unat n" "buffers_apart L kp n" "unat to \<le> length (stored st)"
  shows "\<exists>p. edits L kp n bs ((copied (unat n) (unat to) st)\<lparr>ed_pos := p\<rparr>) (floop (copy_body L kp E out (ucast n) to) e t)"
  using assms
proof (induction "unat to - ed_pos st" arbitrary: st e t rule: less_induct)
  case less
  note r = less.prems(2)
  show ?case
  proof (cases "ed_pos st < unat to \<and> length (typed st) < unat n - 1")
    case True
    let ?st = "st\<lparr>typed := typed st @ [stored st ! ed_pos st], ed_pos := ed_pos st + 1\<rparr>"
    have g: "stored_pos e < to \<and> ed_count e < ucast n - 1" using True r rel_room [OF r less.prems(3)] by (auto simp: line_rel_def word_less_nat_alt)
    from copy_edits [OF less.prems(1-4)] obtain e1 t1 where c: "copy_stored L kp E out e t = Some (Returns e1 t1)" "on bs t1" "line_rel L kp n ?st e1 (mem t1)"
      using True less.prems(5) by (auto simp: edits_def yields_def)
    obtain p where "edits L kp n bs ((copied (unat n) (unat to) ?st)\<lparr>ed_pos := p\<rparr>) (floop (copy_body L kp E out (ucast n) to) e1 t1)"
      using less.hyps [OF _ c(2,3)] True less.prems(4,5) by fastforce
    then have "edits L kp n bs ((copied (unat n) (unat to) st)\<lparr>ed_pos := p\<rparr>) (floop (copy_body L kp E out (ucast n) to) e t)"
      using g c(1) copied_step [of st "unat to" "unat n"] True less.prems(5) by (subst floop_unfold) (simp add: copy_body_def andthen_def)
    then show ?thesis ..
  next
    case False
    have "\<not> (stored_pos e < to \<and> ed_count e < ucast n - 1)" using False r rel_room [OF r less.prems(3)] by (auto simp: line_rel_def word_less_nat_alt)
    moreover have "copied (unat n) (unat to) st = st" using False by (auto simp: copied_def)
    ultimately have "edits L kp n bs ((copied (unat n) (unat to) st)\<lparr>ed_pos := ed_pos st\<rparr>) (floop (copy_body L kp E out (ucast n) to) e t)"
      using less.prems(1,2) by (subst floop_unfold) (auto simp: copy_body_def andthen_def edits_def)
    then show ?thesis ..
  qed
qed


lemma jump_edits:
  assumes "on bs t" "line_rel L kp n st e (mem t)" "jump_spec c bs st = Some (to, bs')"
  shows "yields (\<lambda>np t'. on bs' t' \<and> mem t' = mem t \<and> unat np = to \<and> to \<le> length (stored st)) (target key kp c e t)"
proof (cases "c = F3")
  case False
  note r = assms(2) [unfolded line_rel_def]
  have pos: "ed_pos st \<le> length (stored st)" using assms(3) False by (auto simp: jump_spec_def split: if_splits)
  have u: "unat (stored_size e - stored_pos e) = length (stored st) - ed_pos st" using r pos by (subst unat_sub) (auto simp: word_le_nat_alt)
  have "mem t (at (kb_line kp) (stored_pos e + of_nat j)) = drop (ed_pos st) (stored st) ! j" if "j < length (stored st) - ed_pos st" for j
  proof -
    have "stored_pos e + of_nat j = of_nat (ed_pos st + j)" using r by (metis of_nat_add word_unat_eq_iff unat_of_nat16 unat_lt16)
    moreover have "mem t (at (kb_line kp) (of_nat (ed_pos st + j))) = stored st ! (ed_pos st + j)"
      using r that by (metis bytes_nth less_diff_conv add.commute)
    ultimately show ?thesis using pos by simp
  qed
  then have f: "fmemchr (kb_line kp) (stored_pos e) c2 (stored_size e - stored_pos e) (mem t) =
      find (\<lambda>j. drop (ed_pos st) (stored st) ! j = c2) [0..<length (stored st) - ed_pos st]" for c2
    unfolding fmemchr_def u by (intro find_cong) auto
  have "found_at c2 st \<le> length (stored st)" for c2
    using pos by (auto simp: found_at_def find_Some_iff split: option.splits)
  moreover have "unat (case find (\<lambda>j. drop (ed_pos st) (stored st) ! j = c2) [0..<length (stored st) - ed_pos st] of None \<Rightarrow> stored_pos e | Some i \<Rightarrow> of_nat i + 1) = found_at c2 st" for c2
  proof (cases "find (\<lambda>j. drop (ed_pos st) (stored st) ! j = c2) [0..<length (stored st) - ed_pos st]")
    case (Some j)
    then have "j < length (stored st) - ed_pos st" by (auto simp: find_Some_iff)
    then have "j + 1 < 65536" using r u8_bound [of n] by linarith
    then have "unat (of_nat j + 1 :: u16) = j + 1" using unat_of_nat16 [of "j + 1"] by (simp add: add.commute)
    then show ?thesis unfolding found_at_def Some by simp
  qed (use r in \<open>simp add: found_at_def\<close>)
  ultimately show ?thesis using False assms pos r
    by (auto simp: target_def jump_spec_def f split: if_splits list.splits intro!: yields_andthen [OF io_key])
qed (use assms in \<open>auto simp: jump_spec_def target_def line_rel_def\<close>)

lemma start_edits:
  assumes "on bs t" "line_rel L kp n st e (mem t)"
  shows "edits L kp n bs (st\<lparr>typed := [], ed_pos := 0, inserting := False\<rparr>) (start_new_line E out cu e t)"
  unfolding start_new_line_def edits_def
  by (intro yields_andthen [OF ios(1)] yields_andthen [OF ios(3)]) (use assms in \<open>auto simp: line_rel_def bytes_def\<close>)

lemma keep_edits:
  assumes "on bs t" "line_rel L kp n st e (mem t)" "length (typed st) < unat n" "buffers_apart L kp n"
  shows "edits L kp n bs \<lparr>typed = [], stored = typed st, ed_pos = 0, inserting = False\<rparr> (keep_line L kp E out cu e t)"
proof -
  let ?t = "t\<lparr>mem := fmemcpy (kb_line kp) L (unat (ed_count e)) (mem t)\<rparr>"
  have "on bs ?t" using assms(1) by (simp add: on_def)
  then have "yields (\<lambda>_ t'. on bs t' \<and> mem t' = mem ?t) (io (write_char E 0x40 out) ?t)" by (rule ios)
  moreover have "edits L kp n bs \<lparr>typed = [], stored = typed st, ed_pos = 0, inserting = False\<rparr> (start_new_line E out cu (e\<lparr>stored_size := ed_count e\<rparr>) t')"
    if "on bs t'" "mem t' = mem ?t" for t'
    using rel_keep [OF assms(2-4)] that unfolding start_new_line_def edits_def
    by (intro yields_andthen [OF ios(1)] yields_andthen [OF ios(3)]) auto
  ultimately show ?thesis unfolding keep_line_def Let_def edits_def by (rule yields_andthen) auto
qed

lemma backspace_edits:
  assumes "on bs t" "line_rel L kp n st e (mem t)"
  shows "edits L kp n bs (st\<lparr>typed := butlast (typed st), ed_pos := ed_pos st - 1\<rparr>) (backspace L E out cu e t)"
proof -
  let ?stepped = "\<lambda>e t. Some (Returns (e\<lparr>stored_pos := if stored_pos e > 0 then stored_pos e - 1 else stored_pos e\<rparr>) t)"
  have b: "edits L kp n bs (st'\<lparr>ed_pos := ed_pos st' - 1\<rparr>) (?stepped e t)" if "on bs t" "line_rel L kp n st' e (mem t)" for st' e t
  proof -
    have "unat (if stored_pos e > 0 then stored_pos e - 1 else stored_pos e) = ed_pos st' - 1"
      using that(2) by (auto simp: line_rel_def unat_sub word_le_nat_alt word_less_nat_alt)
    from rel_pos [OF that(2) this] show ?thesis using that(1) by (simp add: edits_def)
  qed
  show ?thesis
  proof (cases "ed_count e > 0")
    case True
    then have "typed st \<noteq> []" using assms(2) by (auto simp: line_rel_def word_less_nat_alt)
    note rel = rel_butlast [OF assms(2) this]
    have "edits L kp n bs (st\<lparr>typed := butlast (typed st), ed_pos := ed_pos st - 1\<rparr>) (?stepped (e\<lparr>ed_count := ed_count e - 1\<rparr>) t')"
      if "on bs t'" "mem t' = mem t" for t'
      using b [OF that(1), of "st\<lparr>typed := butlast (typed st)\<rparr>" "e\<lparr>ed_count := ed_count e - 1\<rparr>"] rel that(2) by simp
    then show ?thesis using True assms(1) unfolding backspace_def Let_def edits_def
      by (auto intro!: yields_andthen [OF ios(5)] yields_andthen [OF ios(4)])
  next
    case False
    then have "typed st = []" using assms(2) by (auto simp: line_rel_def word_less_nat_alt)
    then have "st\<lparr>typed := butlast (typed st), ed_pos := ed_pos st - 1\<rparr> = st\<lparr>ed_pos := ed_pos st - 1\<rparr>" by simp
    then show ?thesis using b [OF assms] False by (simp add: backspace_def Let_def)
  qed
qed

lemma type_edits:
  assumes "on bs t" "line_rel L kp n st e (mem t)" "length (typed st) < unat n" "buffers_apart L kp n"
  shows "edits L kp n bs (typed_char (unat n) c st) (type_char L E out (ucast n) c e t)"
proof -
  define st1 where "st1 = st\<lparr>typed := (if length (typed st) < unat n - 1 \<or> c = ucast CR then typed st @ [ucast c] else typed st)\<rparr>"
  note room = rel_room [OF assms(2,3)]
  have "edits L kp n bs st1 (if ed_count e < ucast n - 1 \<or> c = ucast CR then store_char L E out (ucast c) e t
      else andthen (io (write_char E BELL out) t) (\<lambda>_ t1. Some (Returns e t1)))"
    using store_edits [OF assms, of "ucast c"] assms(1,2) room by (auto simp: st1_def edits_def intro!: yields_andthen [OF ios(1)])
  moreover have "edits L kp n bs (typed_char (unat n) c st)
      (Some (Returns (if stored_pos e1 < stored_size e1 \<and> \<not> ed_insert e1 then e1\<lparr>stored_pos := stored_pos e1 + 1\<rparr> else e1) t1))"
    if "on bs t1" "line_rel L kp n st1 e1 (mem t1)" for e1 t1
    using that rel_next_pos [OF that(2)] u8_bound [of n] by (auto simp: edits_def typed_char_def st1_def line_rel_def word_less_nat_alt)
  ultimately show ?thesis unfolding type_char_def edits_def by (rule yields_andthen) auto
qed


lemma key_edits:
  assumes "on bs t" "line_rel L kp n st e (mem t)" "length (typed st) < unat n" "buffers_apart L kp n" "ed_pos st < 65535"
    and k: "key_spec (unat n) c bs st = Some (st', bs')"
  shows "edits L kp n bs' st' (edit_key key L kp E out cu (ucast n) c e t)"
proof -
  note A = assms(1-4)
  have lf: "edits L kp n bs st (line_feed E out e t)"
    using assms(1,2) by (auto simp: line_feed_def edits_def intro!: yields_andthen [OF ios(1)])
  have one: "edits L kp n bs (if ed_pos st < length (stored st) \<and> length (typed st) < unat n - 1
      then st\<lparr>typed := typed st @ [stored st ! ed_pos st], ed_pos := ed_pos st + 1\<rparr> else st) (copy_one L kp E out (ucast n) e t)"
    using copy_edits [OF A] rel_room [OF assms(2,3)] assms(1,2) by (auto simp: copy_one_def edits_def line_rel_def word_less_nat_alt)
  have to: "edits L kp n b1 ((if c = F4 then st else copied (unat n) to st)\<lparr>ed_pos := to\<rparr>) (copy_to key L kp E out (ucast n) c e t)"
    if j: "jump_spec c bs st = Some (to, b1)" for to b1
    unfolding copy_to_def edits_def
  proof (rule yields_andthen [OF jump_edits [OF assms(1,2) j]], elim conjE)
    fix np :: u16 and t1 assume t1: "on b1 t1" "mem t1 = mem t" "unat np = to" "to \<le> length (stored st)"
    have r: "line_rel L kp n st e (mem t1)" using assms(2) t1 by simp
    have "yields (\<lambda>e1 t2. on b1 t2 \<and> (\<exists>p. line_rel L kp n ((if c = F4 then st else copied (unat n) to st)\<lparr>ed_pos := p\<rparr>) e1 (mem t2)))
        (if c \<noteq> F4 then floop (copy_body L kp E out (ucast n) np) e t1 else Some (Returns e t1))"
    proof (cases "c = F4")
      case True
      have "line_rel L kp n (st\<lparr>ed_pos := ed_pos st\<rparr>) e (mem t1)" using r by simp
      then show ?thesis using True t1(1) by (auto intro: exI [of _ "ed_pos st"])
    next
      case False
      have "unat np \<le> length (stored st)" using t1(3,4) by simp
      from copy_loop_edits [OF t1(1) r assms(3,4) this] show ?thesis using False t1(3)
        by (auto simp: edits_def elim: yields_weaken)
    qed
    then show "yields (\<lambda>e t. on b1 t \<and> line_rel L kp n ((if c = F4 then st else copied (unat n) to st)\<lparr>ed_pos := to\<rparr>) e (mem t))
        (andthen (if c \<noteq> F4 then floop (copy_body L kp E out (ucast n) np) e t1 else Some (Returns e t1)) (\<lambda>e1 t2. Some (Returns (e1\<lparr>stored_pos := np\<rparr>) t2)))"
      by (rule yields_andthen) (use t1(3) in \<open>auto dest: rel_pos\<close>)
  qed
  have esc: "edits L kp n bs (st\<lparr>typed := [], ed_pos := 0, inserting := False\<rparr>) (andthen (io (write_char E 0x5c out) t) (\<lambda>_ t1. start_new_line E out cu e t1))"
    unfolding edits_def by (rule yields_andthen [OF ios(1) [OF assms(1)]]) (use start_edits assms(2) in \<open>auto simp: edits_def\<close>)
  have ins: "edits L kp n bs (st\<lparr>inserting := \<not> inserting st\<rparr>) (Some (Returns (e\<lparr>ed_insert := \<not> ed_insert e\<rparr>) t))"
    using assms(1,2) by (simp add: edits_def line_rel_def)
  have del: "edits L kp n bs (st\<lparr>ed_pos := ed_pos st + 1\<rparr>) (Some (Returns (e\<lparr>stored_pos := stored_pos e + 1\<rparr>) t))"
    using assms(1,5) rel_next_pos [OF assms(2)] by (simp add: edits_def)
  have same: "edits L kp n bs st (Some (Returns e t))" using assms(1,2) by (simp add: edits_def)
  show ?thesis
  proof (cases "c = ucast LF \<or> c = CTL_F \<or> c = RIGHT \<or> c = F1")
    case True
    then show ?thesis using k lf one same by (auto simp: key_spec_def edit_key_def keys)
  next
    case basic: False
    show ?thesis
    proof (cases "c = F2 \<or> c = F4 \<or> c = F3")
      case True
      then obtain to where "jump_spec c bs st = Some (to, bs')" "st' = (if c = F4 then st else copied (unat n) to st)\<lparr>ed_pos := to\<rparr>"
        using k basic by (auto simp: key_spec_def)
      then show ?thesis using to True basic by (simp add: edit_key_def)
    next
      case False
      consider "c = F5" | "c = INS" | "c = DEL" | "c = LEFT \<or> c = CTL_BS \<or> c = ucast BS" | "c = ESC" | "c \<notin> {F5, INS, DEL, LEFT, CTL_BS, ucast BS, ESC}"
        by blast
      then show ?thesis
      proof cases
        case 1 with k keep_edits [OF A] show ?thesis by (simp add: key_spec_def edit_key_def keys)
      next
        case 2 with k ins show ?thesis by (simp add: key_spec_def edit_key_def keys)
      next
        case 3 with k del show ?thesis by (simp add: key_spec_def edit_key_def keys)
      next
        case 4 with k backspace_edits [OF assms(1,2)] show ?thesis by (auto simp: key_spec_def edit_key_def keys)
      next
        case 5 with k esc show ?thesis by (simp add: key_spec_def edit_key_def keys)
      next
        case 6 with k basic False type_edits [OF A] show ?thesis by (auto simp: key_spec_def edit_key_def)
      qed
    qed
  qed
qed

lemma code_on:
  assumes "on bs t" "next_code bs = Some (c, bs')"
  shows "yields (\<lambda>c' t'. c' = c \<and> on bs' t' \<and> mem t' = mem t) (get_code key t)"
  using assms by (auto simp: next_code_def get_code_def split: list.splits if_splits intro!: yields_andthen [OF io_key])

text \<open>The loop of the code is the recursion of the specification.\<close>

lemma loop_edits:
  assumes "edit_line (unat n) bs st = Some (l, bs')" "on bs t" "line_rel L kp n st e (mem t)" "length (typed st) < unat n" "buffers_apart L kp n"
    "ed_pos st + length bs < 65535" "length bs < 65000"
  shows "yields (\<lambda>e t. on bs' t \<and> unat (ed_count e) = length l \<and> bytes L (length l) (mem t) = l \<and> last l = CR \<and> length l \<le> unat n \<and> l \<noteq> [])
    (floop (line_body key L kp E out cu (ucast n)) e t)"
  using assms
proof (induction "unat n" bs st arbitrary: e t rule: edit_line.induct)
  case (1 bs st)
  obtain c b1 where c: "next_code bs = Some (c, b1)" using "1.prems"(1) by (auto simp: edit_line.simps [of _ bs] split: option.splits)
  obtain st1 b2 where k: "key_spec (unat n) c b1 st = Some (st1, b2)" using "1.prems"(1) c by (auto simp: edit_line.simps [of _ bs] split: option.splits)
  have len: "length b2 < length bs" using next_code_shorter [OF c] key_spec_shorter [OF k] by simp
  have body: "yields (\<lambda>x t'. on b2 t' \<and> (\<exists>e'. x = (if c = ucast CR then Inl e' else Inr e') \<and> line_rel L kp n st1 e' (mem t'))) (line_body key L kp E out cu (ucast n) e t)"
    unfolding line_body_def
  proof (rule yields_andthen [OF code_on [OF "1.prems"(2) c]], elim conjE)
    fix c' t1 assume t1: "c' = c" "on b1 t1" "mem t1 = mem t"
    have "edits L kp n b2 st1 (edit_key key L kp E out cu (ucast n) c e t1)"
      using k t1 "1.prems"(3-6) by (intro key_edits) auto
    then show "yields (\<lambda>x t'. on b2 t' \<and> (\<exists>e'. x = (if c = ucast CR then Inl e' else Inr e') \<and> line_rel L kp n st1 e' (mem t')))
        (andthen (edit_key key L kp E out cu (ucast n) c' e t1) (\<lambda>e1 t2. let e2 = e1\<lparr>ed_first := False\<rparr>; c' = if c' = F6 then ucast CTL_Z else c'
          in Some (Returns (if c' \<noteq> ucast CR then Inr e2 else Inl e2) t2)))"
      unfolding edits_def t1(1) by (rule yields_andthen) (auto simp: Let_def line_rel_def keys)
  qed
  show ?case
  proof (cases "c = ucast CR")
    case True
    then have l: "l = typed st @ [CR]" "bs' = b2" "typed st1 = l"
      using "1.prems"(1) c k key_spec_CR [of "unat n" b1 st st1 b2] by (auto simp: edit_line.simps [of _ bs])
    show ?thesis
      by (subst floop_unfold, rule yields_andthen [OF body]) (use True l "1.prems"(4) in \<open>auto simp: line_rel_def\<close>)
  next
    case False
    have e: "edit_line (unat n) b2 st1 = Some (l, bs')" using "1.prems"(1) c k False by (simp add: edit_line.simps [of _ bs])
    have bounds: "length (typed st1) < unat n" "ed_pos st1 + length b2 < 65535" "length b2 < 65000"
      using key_spec_length [OF k "1.prems"(4) False] key_spec_pos [OF k] len "1.prems"(3,6,7) u8_bound [of n] by (auto simp: line_rel_def)
    have IH: "yields (\<lambda>e t. on bs' t \<and> unat (ed_count e) = length l \<and> bytes L (length l) (mem t) = l \<and> last l = CR \<and> length l \<le> unat n \<and> l \<noteq> [])
        (floop (line_body key L kp E out cu (ucast n)) e' t')" if "on b2 t'" "line_rel L kp n st1 e' (mem t')" for e' t'
      using "1.hyps" [OF c refl k refl False e that bounds(1) "1.prems"(5) bounds(2,3)] .
    show ?thesis
      by (subst floop_unfold, rule yields_andthen [OF body]) (use False IH in auto)
  qed
qed


lemma line_edits:
  assumes key: "key = read_char hb E sft_in out True" and t: "on bs t" "length bs < 65000"
    and n: "kb_count kp (mem t) < kb_size kp (mem t)" "buffers_apart L kp (kb_size kp (mem t))"
    and l: "edit_line (unat (kb_size kp (mem t))) bs (start_state kp (mem t)) = Some (l, bs')"
  shows "yields (\<lambda>_ t'. on bs' t' \<and> holds_line kp l (mem t')) (read_line hb L E sft_in out kp t)"
proof -
  let ?n = "kb_size kp (mem t)"
  have n0: "0 < ?n" using n(1) by (metis word_coorder.not_eq_extremum word_not_simps(1))
  then have z: "ucast ?n \<noteq> (0 :: u16)" by (metis unat_ucast8_16 unat_0 word_less_nat_alt less_irrefl)
  have r: "line_rel L kp ?n (start_state kp (mem t)) (start_editor kp (mem t)) (mem t)"
    using n(1) by (intro start_rel) (simp add: word_less_nat_alt)
  have s: "length (typed (start_state kp (mem t))) < unat ?n" "ed_pos (start_state kp (mem t)) + length bs < 65535"
    using n0 t(2) by (simp_all add: start_state_def word_less_nat_alt)
  note L = loop_edits [OF l t(1) r s(1) n(2) s(2) t(2), where cu = "ucast (scr_pos (console t))", unfolded key]
  show ?thesis unfolding read_line_def Let_def if_not_P [OF z]
    by (rule yields_andthen [OF L]) (use n0 n(2) in \<open>auto intro!: finish_holds simp: on_def\<close>)
qed

end

end
