(* ===== verification/LineTerm.thy ===== *)
theory LineTerm
  imports LineSpec
begin

text \<open>
  The console of the kernel is what the line editor relies on: keys wait in a device and are not break or stop keys, and
  characters are echoed on the cooked console. Every driver that keeps the keys in order will do.
\<close>

subsection \<open>The device\<close>

text \<open>What a console driver promises: \<open>ps k\<close> are the keys that wait.\<close>

definition key_device :: "'s conenv \<Rightarrow> ('s \<Rightarrow> u8 list) \<Rightarrow> bool" where
  "key_device E ps \<longleftrightarrow> (\<forall>k c.
     (case cd_exec (chr_drv E (syscon E)) C_ISTAT 0 [0] k of (st, _, _, k') \<Rightarrow>
        st AND ST_ERROR = 0 \<and> (st AND S_BUSY \<noteq> 0 \<longleftrightarrow> ps k = []) \<and> ps k' = ps k \<and> break_flag E k' = break_flag E k) \<and>
     (case cd_exec (chr_drv E (syscon E)) C_NDREAD 0 [0] k of (st, _, a, k') \<Rightarrow>
        st AND ST_ERROR = 0 \<and> (st AND S_BUSY \<noteq> 0 \<longleftrightarrow> ps k = []) \<and> (ps k \<noteq> [] \<longrightarrow> hd a = hd (ps k)) \<and> ps k' = ps k \<and> break_flag E k' = break_flag E k) \<and>
     (case cd_exec (chr_drv E (syscon E)) C_INPUT 1 [c] k of (st, n, a, k') \<Rightarrow>
        ps k \<noteq> [] \<longrightarrow> st AND ST_ERROR = 0 \<and> n = 1 \<and> hd a = hd (ps k) \<and> ps k' = tl (ps k) \<and> break_flag E k' = break_flag E k) \<and>
     (case cd_exec (chr_drv E (syscon E)) C_OUTPUT 1 [c] k of (st, _, _, k') \<Rightarrow>
        st AND ST_ERROR = 0 \<and> ps k' = ps k \<and> break_flag E k' = break_flag E k) \<and>
     ps (fast_put_char E c k) = ps k \<and> break_flag E (fast_put_char E c k) = break_flag E k)"

text \<open>Nobody interrupts: no break key, no break or stop character among the keys, no echo to the printer.\<close>

definition quiet :: "'s conenv \<Rightarrow> ('s \<Rightarrow> u8 list) \<Rightarrow> 's con \<Rightarrow> bool" where
  "quiet E ps s \<longleftrightarrow> \<not> break_flag E (rest s) \<and> \<not> PrinterEcho s \<and> CTL_C \<notin> set (ps (rest s)) \<and> CTL_S \<notin> set (ps (rest s))"

text \<open>Characters come from the system console, and go to it as \<^verbatim>\<open>DosRWSft\<close> writes to a cooked device, as long as nobody interrupts.\<close>

definition console_env :: "'s handler \<Rightarrow> 's conenv \<Rightarrow> int \<Rightarrow> int \<Rightarrow> ('s \<Rightarrow> u8 list) \<Rightarrow> bool" where
  "console_env hb E i out ps \<longleftrightarrow> key_device E ps \<and> (\<forall>k. sft_to_dev E i k = Some (syscon E)) \<and>
     (\<forall>c s. quiet E ps s \<longrightarrow> rw_sft E out [c] XFR_FORCE_WRITE s = andthen (cooked_write hb E (syscon E) [c] s) (\<lambda>r s1. Some (Returns (r, [c]) s1)))"

lemmas key_device_at = key_device_def [THEN iffD1, THEN spec, THEN spec]

lemma CharCmd_quiet:
  assumes "cd_exec (chr_drv E dev) cmd 0 [0] (rest s) = (st, n, a, k)" "st AND ST_ERROR = 0"
  shows "CharCmd E dev cmd s = Some (st, a, s\<lparr>rest := k\<rparr>)"
  using assms by (simp add: CharCmd_def CharRequest_def SUCCESS_def loopM_Inl)

lemma CharIO_quiet:
  assumes "cd_exec (chr_drv E dev) cmd 1 [c] (rest s) = (st, n, a, k)" "st AND ST_ERROR = 0"
  shows "CharIO E dev c cmd s = Some (if n = 0 then 256 else int (unat (hd a)), s\<lparr>rest := k\<rparr>)"
  using assms by (simp add: CharIO_def BinaryCharIO_def CharRequest_def SUCCESS_def loopM_Inl unsigned_eq_0_iff)

lemma Busy_quiet:
  assumes "key_device E ps"
  shows "\<exists>k. Busy E (syscon E) s = Some (ps (rest s) = [], s\<lparr>rest := k\<rparr>) \<and> ps k = ps (rest s) \<and> break_flag E k = break_flag E (rest s)"
proof -
  obtain st n a k where x: "cd_exec (chr_drv E (syscon E)) C_ISTAT 0 [0] (rest s) = (st, n, a, k)" by (metis prod_cases4)
  then have "st AND ST_ERROR = 0 \<and> (st AND S_BUSY \<noteq> 0 \<longleftrightarrow> ps (rest s) = []) \<and> ps k = ps (rest s) \<and> break_flag E k = break_flag E (rest s)"
    using key_device_at [OF assms, of "rest s"] by simp
  then show ?thesis using CharCmd_quiet [OF x] by (auto simp: Busy_def)
qed

lemma ndread_quiet:
  assumes "key_device E ps"
  shows "\<exists>k. ndread E (syscon E) s = Some (if ps (rest s) = [] then -1 else int (unat (hd (ps (rest s)))), s\<lparr>rest := k\<rparr>) \<and>
    ps k = ps (rest s) \<and> break_flag E k = break_flag E (rest s)"
proof -
  obtain st n a k where x: "cd_exec (chr_drv E (syscon E)) C_NDREAD 0 [0] (rest s) = (st, n, a, k)" by (metis prod_cases4)
  then have "st AND ST_ERROR = 0 \<and> (st AND S_BUSY \<noteq> 0 \<longleftrightarrow> ps (rest s) = []) \<and> (ps (rest s) \<noteq> [] \<longrightarrow> hd a = hd (ps (rest s))) \<and>
      ps k = ps (rest s) \<and> break_flag E k = break_flag E (rest s)"
    using key_device_at [OF assms, of "rest s"] by simp
  then show ?thesis using CharCmd_quiet [OF x] by (auto simp: ndread_def)
qed

lemma input_quiet:
  assumes "key_device E ps" "ps (rest s) = c # cs"
  shows "\<exists>k. CharIO E (syscon E) x C_INPUT s = Some (int (unat c), s\<lparr>rest := k\<rparr>) \<and> ps k = cs \<and> break_flag E k = break_flag E (rest s)"
proof -
  obtain st n a k where e: "cd_exec (chr_drv E (syscon E)) C_INPUT 1 [x] (rest s) = (st, n, a, k)" by (metis prod_cases4)
  then have "ps (rest s) \<noteq> [] \<longrightarrow> st AND ST_ERROR = 0 \<and> n = 1 \<and> hd a = hd (ps (rest s)) \<and> ps k = tl (ps (rest s)) \<and> break_flag E k = break_flag E (rest s)"
    using key_device_at [OF assms(1), of "rest s" x] by simp
  then show ?thesis using CharIO_quiet [OF e] assms(2) by auto
qed

lemma output_quiet:
  assumes "key_device E ps"
  shows "\<exists>k r. CharIO E (syscon E) c C_OUTPUT s = Some (r, s\<lparr>rest := k\<rparr>) \<and> 0 \<le> r \<and> ps k = ps (rest s) \<and> break_flag E k = break_flag E (rest s)"
proof -
  obtain st n a k where e: "cd_exec (chr_drv E (syscon E)) C_OUTPUT 1 [c] (rest s) = (st, n, a, k)" by (metis prod_cases4)
  then have "st AND ST_ERROR = 0 \<and> ps k = ps (rest s) \<and> break_flag E k = break_flag E (rest s)"
    using key_device_at [OF assms, of "rest s" c] by simp
  then show ?thesis using CharIO_quiet [OF e] by auto
qed

subsection \<open>Reading and writing a character\<close>

lemma check_quiet:
  assumes "key_device E ps" "quiet E ps s"
  shows "\<exists>k b. check_handle_break hb E (syscon E) s = Some (Returns b (s\<lparr>rest := k\<rparr>)) \<and> b \<noteq> CTL_S \<and> ps k = ps (rest s) \<and> break_flag E k = break_flag E (rest s)"
proof -
  obtain k where k: "ndread E (syscon E) s = Some (if ps (rest s) = [] then -1 else int (unat (hd (ps (rest s)))), s\<lparr>rest := k\<rparr>)"
    "ps k = ps (rest s)" "break_flag E k = break_flag E (rest s)" using ndread_quiet [OF assms(1)] by blast
  have "ps (rest s) \<noteq> [] \<Longrightarrow> hd (ps (rest s)) \<noteq> CTL_C \<and> hd (ps (rest s)) \<noteq> CTL_S" using assms(2) by (auto simp: quiet_def dest: hd_in_set)
  then show ?thesis using k assms(2) by (auto simp: check_handle_break_def quiet_def keys)
qed

lemma put_char_quiet:
  assumes "key_device E ps" "quiet E ps s"
  shows "\<exists>k fc'. put_char hb E (syscon E) c n fc s = Some (Returns (Inr fc') (s\<lparr>rest := k\<rparr>)) \<and> ps k = ps (rest s) \<and> break_flag E k = break_flag E (rest s)"
  using assms(2)
proof (induction n arbitrary: fc s)
  case (Suc n)
  let ?fc = "(fc + 1) AND 0x9f"
  obtain k b where k: "(if fc \<le> 0x80 then check_handle_break hb E (syscon E) s else Some (Returns 0 s)) = Some (Returns b (s\<lparr>rest := k\<rparr>))"
    "b \<noteq> CTL_S \<or> \<not> fc \<le> 0x80" "ps k = ps (rest s)" "break_flag E k = break_flag E (rest s)"
    using check_quiet [OF assms(1) Suc.prems, of hb] by (cases "fc \<le> 0x80") force+
  have q: "quiet E ps (s\<lparr>rest := k\<rparr>)" using Suc.prems k by (simp add: quiet_def)
  obtain k2 r where o: "CharIO E (syscon E) c C_OUTPUT (s\<lparr>rest := k\<rparr>) = Some (r, s\<lparr>rest := k2\<rparr>)" "0 \<le> r" "ps k2 = ps k" "break_flag E k2 = break_flag E k"
    using output_quiet [OF assms(1), of c "s\<lparr>rest := k\<rparr>"] by auto
  have f: "ps (fast_put_char E c k) = ps k" "break_flag E (fast_put_char E c k) = break_flag E k"
    using key_device_at [OF assms(1), of k c] by simp_all
  have q2: "quiet E ps (s\<lparr>rest := k2\<rparr>)" "quiet E ps (s\<lparr>rest := fast_put_char E c k\<rparr>)" using q o f by (simp_all add: quiet_def)
  have "\<not> PrinterEcho s" using Suc.prems by (simp add: quiet_def)
  then show ?case using k o f Suc.IH [OF q2(1), of ?fc] Suc.IH [OF q2(2), of ?fc]
    by (auto simp: Let_def plainly_def)
next
  case 0
  show ?case by (intro exI [of _ "rest s"] exI [of _ fc]) simp
qed

text \<open>The column moves as \<^verbatim>\<open>update_scr_pos\<close> says; a control-Z is not written.\<close>

lemma write_quiet:
  assumes "console_env hb E i out ps" "quiet E ps s"
  shows "yields (\<lambda>_ s'. quiet E ps s' \<and> ps (rest s') = ps (rest s) \<and> (c \<in> {BS, 0x20} \<longrightarrow> scr_pos s' = scr_pos (update_scr_pos c 1 s))) (write_char E c out s)"
proof (cases "c = CTL_Z")
  case True
  then show ?thesis using assms by (simp add: write_char_def console_env_def cooked_write_def yields_def keys)
next
  case False
  define n where "n = (if c = HT then 8 - (scr_pos s AND 7) else 1 :: u8)"
  define c' where "c' = (if c = HT then 0x20 else c)"
  let ?s = "update_scr_pos c' n s"
  have q: "quiet E ps ?s" "rest ?s = rest s" using assms(2) by (simp_all add: quiet_def update_scr_pos_def)
  obtain k fc where p: "put_char hb E (syscon E) c' (unat n) (if fastcon E (syscon E) then 0x80 else 0) ?s = Some (Returns (Inr fc) (?s\<lparr>rest := k\<rparr>))"
    "ps k = ps (rest s)" "break_flag E k = break_flag E (rest s)"
    using put_char_quiet [of E ps ?s hb c' "unat n" "if fastcon E (syscon E) then 0x80 else 0"] assms(1) q by (auto simp: console_env_def)
  then have "write_char E c out s = Some (Returns () (?s\<lparr>rest := k\<rparr>))"
    using assms False by (simp add: write_char_def console_env_def cooked_write_def n_def c'_def Let_def)
  moreover have "quiet E ps (?s\<lparr>rest := k\<rparr>)" using q p by (simp add: quiet_def)
  moreover have "scr_pos ?s = scr_pos (update_scr_pos c 1 s)" if "c \<in> {BS, 0x20}" using that by (auto simp: c'_def n_def keys)
  ultimately show ?thesis using p(2) by (simp add: yields_def)
qed

lemma read_quiet:
  assumes "console_env hb E i out ps" "quiet E ps s" "ps (rest s) = c # cs"
  shows "yields (\<lambda>c' s'. c' = c \<and> quiet E ps s' \<and> ps (rest s') = cs) (read_char hb E i out True s)"
proof -
  have d: "key_device E ps" "sft_to_dev E i (rest s) = Some (syscon E)" using assms(1) by (simp_all add: console_env_def)
  obtain k where k: "Busy E (syscon E) s = Some (False, s\<lparr>rest := k\<rparr>)" "ps k = c # cs" "break_flag E k = break_flag E (rest s)"
    using Busy_quiet [OF d(1), of s] assms(3) by auto
  obtain k2 where k2: "CharIO E (syscon E) 0 C_INPUT (s\<lparr>rest := k\<rparr>) = Some (int (unat c), s\<lparr>rest := k2\<rparr>)" "ps k2 = cs" "break_flag E k2 = break_flag E k"
    using input_quiet [OF d(1), of "s\<lparr>rest := k\<rparr>" c cs 0] k(2) by auto
  have "get_key hb E i (Some (syscon E)) True s = Some (Returns c (s\<lparr>rest := k2\<rparr>))"
    using k(1) k2(1) assms(2) by (simp add: get_key_def floop_unfold [of _ "()"] wait_key_def quiet_def)
  then show ?thesis using assms(2,3) k k2 by (auto simp: read_char_def read_char_sft_dev_def d(2) yields_def quiet_def)
qed

interpretation con: terminal "\<lambda>s. console_env hb E i out ps \<and> quiet E ps s" "\<lambda>s. ps (rest s)" "read_char hb E i out True" E out
  for hb E i out ps
proof unfold_locales
  fix s c cs assume "console_env hb E i out ps \<and> quiet E ps s" "ps (rest s) = c # cs"
  then show "yields (\<lambda>c' s'. c' = c \<and> (console_env hb E i out ps \<and> quiet E ps s') \<and> ps (rest s') = cs) (read_char hb E i out True s)"
    by (auto intro: yields_weaken [OF read_quiet])
next
  fix s c assume "console_env hb E i out ps \<and> quiet E ps s"
  then show "yields (\<lambda>_ s'. (console_env hb E i out ps \<and> quiet E ps s') \<and> ps (rest s') = ps (rest s) \<and>
      (c \<in> {BS, 0x20} \<longrightarrow> scr_pos s' = scr_pos (update_scr_pos c 1 s))) (write_char E c out s)"
    by (auto intro: yields_weaken [OF write_quiet])
qed

text \<open>C10. \<^verbatim>\<open>read_line\<close> computes the line of the specification from the keys: characters typed, taken back, copied from
  or skipped in the stored line with the function keys. It stores that line with its carriage return in the buffer of the
  caller, and takes exactly those keys. The editor on lists is \<^const>\<open>edit_line\<close>; it is undefined where the code searches
  behind the stored line.\<close>

theorem read_line_edits:
  assumes "console_env hb E sft_in sft_out ps" "quiet E ps (console t)" "length (ps (rest (console t))) < 65000"
    and "kb_count kp (mem t) < kb_size kp (mem t)" "buffers_apart L kp (kb_size kp (mem t))"
    and "edit_line (unat (kb_size kp (mem t))) (ps (rest (console t))) (start_state kp (mem t)) = Some (l, bs)"
  shows "\<exists>t'. read_line hb L E sft_in sft_out kp t = Some (Returns () t') \<and> ps (rest (console t')) = bs \<and> holds_line kp l (mem t')"
proof -
  have "con.on hb E sft_in sft_out ps (ps (rest (console t))) t" unfolding con.on_def using assms(1,2) by simp
  from con.line_edits [OF refl this assms(3-6)] show ?thesis unfolding yields_def con.on_def by auto
qed


subsection \<open>Reading the console through a handle\<close>

text \<open>A program reads with counts \<open>ns\<close> in turn.\<close>

fun read_pieces :: "'s handler \<Rightarrow> far \<Rightarrow> 's conenv \<Rightarrow> int \<Rightarrow> u16 list \<Rightarrow> 's tty \<Rightarrow> (u8 list, 's tty) flow option" where
  "read_pieces hb L E i [] t = Some (Returns [] t)"
| "read_pieces hb L E i (n # ns) t =
     andthen (read_line_handle hb L E i n t) (\<lambda>b t1. andthen (read_pieces hb L E i ns t1) (\<lambda>r t2. Some (Returns (b @ r) t2)))"

text \<open>The bytes \<open>bs\<close> are still to be handed out.\<close>

definition handing :: "far \<Rightarrow> u8 list \<Rightarrow> 's tty \<Rightarrow> bool" where
  "handing L bs t \<longleftrightarrow> (if bs = [] then inputptr t = 0 else
     0 < unat (inputptr t) \<and> unat (inputptr t) + length bs = unat (snd L) + 130 + unat (kb_count (kb_buf L) (mem t)) + 2 \<and>
     bytes (fst L, inputptr t) (length bs) (mem t) = bs)"

lemma bytes_drop: "m \<le> n \<Longrightarrow> bytes (a, b + of_nat m) (n - m) M = drop m (bytes (a, b) n M)"
  by (rule nth_equalityI) (simp_all add: bytes_def at_def less_diff_conv ac_simps)

lemma hand_step:
  assumes "handing L bs t" "bs \<noteq> []" "unat (snd L) < 65000"
  shows "\<exists>t'. read_line_handle hb L E i n t = Some (Returns (take (unat n) bs) t') \<and> handing L (drop (unat n) bs) t' \<and> console t' = console t \<and> mem t' = mem t"
proof -
  define p where "p = inputptr t"
  define left where "left = snd (kb_line (kb_buf L)) + ucast (kb_count (kb_buf L) (mem t)) + 2 - p"
  have h: "0 < unat p" "unat p + length bs = unat (snd L) + 130 + unat (kb_count (kb_buf L) (mem t)) + 2" "bytes (fst L, p) (length bs) (mem t) = bs"
    using assms(1,2) by (simp_all add: handing_def p_def)
  have "unat (snd L + 130) = unat (snd L) + 130" using assms(3) by (subst unat_add16) simp_all
  then have e: "unat (snd L + 130 + ucast (kb_count (kb_buf L) (mem t)) + 2) = unat p + length bs"
    using h(2) assms(3) u8_bound [of "kb_count (kb_buf L) (mem t)"] by (simp add: unat_add16)
  then have left: "unat left = length bs"
    unfolding left_def kb_line_def kb_buf_def by (subst unat_sub) (simp_all add: word_le_nat_alt add.assoc)
  let ?m = "min n left" and ?t = "t\<lparr>inputptr := if min n left = left then 0 else p + min n left\<rparr>"
  have m: "unat ?m = min (unat n) (length bs)" unfolding left [symmetric] by (simp add: min_def word_le_nat_alt)
  have "read_line_handle hb L E i n t = Some (Returns (bytes (fst L, p) (unat ?m) (mem t)) ?t)"
    using h(1) by (auto simp: read_line_handle_def p_def left_def Let_def)
  moreover have "bytes (fst L, p) (unat ?m) (mem t) = take (unat n) bs"
  proof -
    have "bytes (fst L, p) (min (unat n) (length bs)) (mem t) = take (min (unat n) (length bs)) bs" using h(3) by (metis min.cobounded2 take_bytes)
    then show ?thesis unfolding m by (simp add: min_def)
  qed
  moreover have "handing L (drop (unat n) bs) ?t"
  proof (cases "unat n < length bs")
    case True
    then have ml: "?m \<noteq> left" "unat ?m = unat n" "?m = n" using m left by (auto simp: min_def word_le_nat_alt split: if_splits)
    have u: "unat (p + n) = unat p + unat n" using True h(2) assms(3) u8_bound [of "kb_count (kb_buf L) (mem t)"] by (subst unat_add16) simp_all
    have "bytes (fst L, p + n) (length bs - unat n) (mem t) = drop (unat n) bs"
      using bytes_drop [of "unat n" "length bs" "fst L" p "mem t"] True h(3) by simp
    then show ?thesis using True ml u h(1,2) by (simp add: handing_def)
  next
    case False
    then have "?m = left" using left by (simp add: min_def word_le_nat_alt word_unat_eq_iff)
    then show ?thesis using False by (simp add: handing_def)
  qed
  ultimately show ?thesis by auto
qed

lemma pieces:
  assumes "handing L bs t" "unat (snd L) < 65000" "ns = [] \<or> sum_list (map unat (butlast ns)) < length bs"
  shows "\<exists>t'. read_pieces hb L E i ns t = Some (Returns (take (sum_list (map unat ns)) bs) t') \<and> handing L (drop (sum_list (map unat ns)) bs) t' \<and> console t' = console t"
  using assms
proof (induction ns arbitrary: bs t)
  case (Cons n ns)
  have "bs \<noteq> []" using Cons.prems(3) by auto
  from hand_step [OF Cons.prems(1) this assms(2)] obtain t1 where t1: "read_line_handle hb L E i n t = Some (Returns (take (unat n) bs) t1)"
    "handing L (drop (unat n) bs) t1" "console t1 = console t" by blast
  have "ns = [] \<or> sum_list (map unat (butlast ns)) < length (drop (unat n) bs)" using Cons.prems(3) by (auto split: if_splits)
  then obtain t2 where "read_pieces hb L E i ns t1 = Some (Returns (take (sum_list (map unat ns)) (drop (unat n) bs)) t2)"
    "handing L (drop (sum_list (map unat ns)) (drop (unat n) bs)) t2" "console t2 = console t1"
    using Cons.IH [OF t1(2) assms(2)] by auto
  then show ?case using t1 by (auto simp: take_add add.commute)
qed simp

lemma kb_buf_apart: "unat n \<le> 128 \<Longrightarrow> buffers_apart L (kb_buf L) n"
proof -
  assume n: "unat n \<le> 128"
  have "(of_nat i + 130 :: u16) \<noteq> of_nat j" if "i < 128" "j < 128" for i j
  proof
    assume "(of_nat i + 130 :: u16) = of_nat j"
    then have "unat (of_nat (i + 130) :: u16) = unat (of_nat j :: u16)" by simp
    then show False using that unat_of_nat16 [of "i + 130"] unat_of_nat16 [of j] by simp
  qed
  then show ?thesis using n by (auto simp: buffers_apart_def at_kb_line at_kb_buf at_eq_iff add.assoc)
qed

lemma fill_hands:
  assumes e: "console_env hb E i i ps" "quiet E ps (console t)" "length (ps (rest (console t))) < 65000"
    and k: "kb_size (kb_buf L) (mem t) = LINEBUFSIZECON" "kb_count (kb_buf L) (mem t) < LINEBUFSIZECON" "unat (snd L) < 65000"
    and l: "edit_line 128 (ps (rest (console t))) (start_state (kb_buf L) (mem t)) = Some (l, bs)" "hd l \<noteq> CTL_Z"
  shows "\<exists>t'. fill_line hb L E i t = Some (Returns () t') \<and> ps (rest (console t')) = bs \<and> handing L (l @ [LF]) t'"
proof -
  let ?kp = "kb_buf L"
  have "con.on hb E i i ps (ps (rest (console t))) t" unfolding con.on_def using e(1,2) by simp
  from con.line_edits [OF refl this e(3), of ?kp L] k l kb_buf_apart [of LINEBUFSIZECON L]
  have "yields (\<lambda>_ t'. con.on hb E i i ps bs t' \<and> holds_line ?kp l (mem t')) (read_line hb L E i i ?kp t)" by (simp add: keys)
  then obtain t1 where t1: "read_line hb L E i i ?kp t = Some (Returns () t1)" "con.on hb E i i ps bs t1" "holds_line ?kp l (mem t1)"
    by (auto simp: yields_def)
  from con.ios(2) [OF t1(2), of LF] obtain t2 where t2: "io (echo_char E LF i) t1 = Some (Returns () t2)" "con.on hb E i i ps bs t2" "mem t2 = mem t1"
    by (auto simp: yields_def)
  define t3 where "t3 = poke (at (kb_line ?kp) (ucast (kb_count ?kp (mem t2)) + 1)) LF t2"
  have c: "unat (kb_count ?kp (mem t2)) + 1 = length l" "bytes (kb_line ?kp) (length l) (mem t2) = l" using t1(3) t2(3) by (simp_all add: holds_line_def)
  have n: "0 < length l" "length l + 2 < 65536" using c(1) u8_bound [of "kb_count ?kp (mem t2)"] by linarith+
  have addr: "ucast (kb_count ?kp (mem t2)) + 1 = (of_nat (length l) :: u16)"
    using c(1) n u8_bound [of "kb_count ?kp (mem t2)"] by (intro word16_eqI) (simp add: unat_add16 unat_of_nat16)
  have line: "bytes (kb_line ?kp) (length (l @ [LF])) (mem t3) = l @ [LF]"
    using bytes_snoc [of "length l" "kb_line ?kp" "mem t2" LF] n(2) c(2) by (simp add: t3_def poke_def addr)
  have "unat (of_nat (length l) + 2 :: u16) = length l + 2" using n(2) unat_of_nat16 [of "length l + 2"] by (simp add: add.commute)
  then have "(of_nat (length l) + 2 :: u16) \<noteq> 1" by (metis add_2_eq_Suc' nat.distinct(1) nat.inject unat_1 One_nat_def)
  then have "at (kb_line ?kp) (of_nat (length l)) \<noteq> at ?kp 1" unfolding at_kb_line at_eq_iff .
  then have cnt: "kb_count ?kp (mem t3) = kb_count ?kp (mem t2)" by (simp add: t3_def poke_def kb_count_def [of _ "_(_ := _)"] addr) (simp add: kb_count_def)
  have "mem t3 (at (kb_line ?kp) 0) = hd l" using line n(1) bytes_nth [of 0 "length (l @ [LF])" "kb_line ?kp" "mem t3"] by (simp add: nth_append hd_conv_nth)
  then have f: "fill_line hb L E i t = Some (Returns () (t3\<lparr>inputptr := snd (kb_line ?kp)\<rparr>))"
    using t1(1) t2(1) k(1) l(2) by (simp add: fill_line_def Let_def t3_def)
  have "unat (snd (kb_line ?kp)) = unat (snd L) + 130" using k(3) by (simp add: kb_line_def kb_buf_def add.assoc unat_add16)
  moreover have "(fst L, snd (kb_line ?kp)) = kb_line ?kp" by (simp add: kb_line_def kb_buf_def)
  ultimately have "handing L (l @ [LF]) (t3\<lparr>inputptr := snd (kb_line ?kp)\<rparr>)"
    using line cnt c(1) by (simp add: handing_def)
  moreover have "ps (rest (console t2)) = bs" using t2(2) unfolding con.on_def by simp
  ultimately show ?thesis using f by (intro exI [of _ "t3\<lparr>inputptr := snd (kb_line ?kp)\<rparr>"]) (simp add: t3_def poke_def)
qed

text \<open>C13. A program that reads the console through a handle in pieces gets the bytes of the line that was
  typed, with its carriage return and a line feed, each once and in order, whatever the counts of the reads: the last
  read may ask for any number of bytes, more than the line has left included, and gets no byte behind the line. When all
  are read, and only then, the next read starts a new line. The first of these reads starts a new line, which is typed within fewer than 65000 keys, without a
  break, and does not start with control-Z.\<close>

theorem console_reads_line:
  assumes e: "console_env hb E i i ps" "quiet E ps (console t)" "length (ps (rest (console t))) < 65000"
    and k: "inputptr t = 0" "kb_size (kb_buf L) (mem t) = LINEBUFSIZECON" "kb_count (kb_buf L) (mem t) < LINEBUFSIZECON" "unat (snd L) < 65000"
    and l: "edit_line 128 (ps (rest (console t))) (start_state (kb_buf L) (mem t)) = Some (l, bs)" "hd l \<noteq> CTL_Z"
    and n: "ns \<noteq> []" "sum_list (map unat (butlast ns)) < length (l @ [LF])"
  shows "\<exists>t'. read_pieces hb L E i ns t = Some (Returns (take (sum_list (map unat ns)) (l @ [LF])) t') \<and> ps (rest (console t')) = bs \<and>
    (inputptr t' = 0 \<longleftrightarrow> sum_list (map unat ns) \<ge> length (l @ [LF]))"
proof -
  obtain t1 where t1: "fill_line hb L E i t = Some (Returns () t1)" "ps (rest (console t1)) = bs" "handing L (l @ [LF]) t1"
    using fill_hands [OF e k(2-4) l] by blast
  obtain m ms where ns: "ns = m # ms" using n(1) by (cases ns) auto
  have "inputptr t1 \<noteq> 0" using t1(3) by (auto simp: handing_def)
  then have "read_pieces hb L E i ns t = read_pieces hb L E i ns t1" using t1(1) k(1) by (simp add: ns read_line_handle_def)
  moreover from pieces [OF t1(3) k(4) disjI2 [OF n(2)], of hb E i]
  obtain t2 where t2: "read_pieces hb L E i ns t1 = Some (Returns (take (sum_list (map unat ns)) (l @ [LF])) t2)"
    "handing L (drop (sum_list (map unat ns)) (l @ [LF])) t2" "console t2 = console t1"
    by blast
  moreover have "inputptr t2 = 0 \<longleftrightarrow> sum_list (map unat ns) \<ge> length (l @ [LF])"
    using t2(2) by (auto simp: handing_def split: if_splits)
  ultimately show ?thesis using t1(2) by auto
qed

subsection \<open>A console\<close>

text \<open>A driver whose state is the keys that wait; without the printer, writing does not use the file table.\<close>

definition demo_keyboard :: "(u8 list, u8 list) chardrv" where
  "demo_keyboard = \<lparr>cd_exec = (\<lambda>cmd n a k.
     if cmd = C_ISTAT then (if k = [] then 0x0300 else 0x0100, n, a, k)
     else if cmd = C_NDREAD then (if k = [] then (0x0300, n, a, k) else (0x0100, n, [hd k], k))
     else if cmd = C_INPUT then (if k = [] then (0x0100, 0, a, k) else (0x0100, 1, [hd k], tl k))
     else (0x0100, n, a, k)),
   cd_error = (\<lambda>_ k. (3, k))\<rparr>"

definition demo_base :: "(u8 list) conenv" where
  "demo_base = \<lparr>chr_drv = \<lambda>_. demo_keyboard, syscon = 0x70, fastcon = \<lambda>_. False, fast_put_char = \<lambda>_ k. k, break_flag = \<lambda>_. False,
     reset_flag = \<lambda>k. k, DosIdle_int = \<lambda>k. k, char_stack = True, spawn_int23 = \<lambda>k. k, rw_sft = \<lambda>_ _ _ _. None,
     sft_to_dev = \<lambda>_ _. Some 0x70, sft_at_end = \<lambda>_ _. False, std_idx = \<lambda>_ _. 1, std_flags = \<lambda>_ _. 0x8083, stack_byte = 0\<rparr>"

definition no_break :: "u16 \<Rightarrow> int \<Rightarrow> u8 list con \<Rightarrow> (unit, u8 list con) flow option" where
  "no_break = (\<lambda>_ _ _. None)"

definition demo_conenv :: "(u8 list) conenv" where
  "demo_conenv = demo_base\<lparr>rw_sft := (\<lambda>i buf mode s. andthen (cooked_write no_break demo_base 0x70 buf s) (\<lambda>r s1. Some (Returns (r, buf) s1)))\<rparr>"

lemma demo_device: "key_device demo_conenv (\<lambda>k. k)"
  by (auto simp: key_device_def demo_conenv_def demo_base_def demo_keyboard_def ST_ERROR_def S_BUSY_def C_ISTAT_def C_NDREAD_def C_INPUT_def C_OUTPUT_def split: list.splits)

lemma demo_same [simp]:
  "syscon demo_conenv = 0x70" "syscon demo_base = 0x70" "fastcon demo_conenv d = False" "fastcon demo_base d = False" "break_flag demo_conenv k = False"
  "break_flag demo_base k = False" "fast_put_char demo_conenv c k = k" "fast_put_char demo_base c k = k"
  "ndread demo_conenv d s = ndread demo_base d s" "CharIO demo_conenv d c cmd s = CharIO demo_base d c cmd s" "sft_to_dev demo_conenv i k = Some 0x70"
  by (simp_all add: demo_conenv_def ndread_def CharCmd_def CharIO_def) (simp_all add: demo_base_def)

lemma put_char_base:
  assumes "quiet demo_conenv (\<lambda>k. k) s"
  shows "put_char no_break demo_conenv 0x70 c n fc s = put_char no_break demo_base 0x70 c n fc s"
  using assms
proof (induction n arbitrary: fc s)
  case (Suc n)
  let ?fc = "(fc + 1) AND 0x9f"
  have e: "check_handle_break no_break demo_conenv 0x70 s = check_handle_break no_break demo_base 0x70 s" by (simp add: check_handle_break_def)
  obtain k b where k: "(if fc \<le> 0x80 then check_handle_break no_break demo_base 0x70 s else Some (Returns 0 s)) = Some (Returns b (s\<lparr>rest := k\<rparr>))"
    "b \<noteq> CTL_S \<or> \<not> fc \<le> 0x80" "k = rest s"
    using check_quiet [OF demo_device Suc.prems, of no_break] by (cases "fc \<le> 0x80") (auto simp: e)
  obtain k2 r where o: "CharIO demo_base 0x70 c C_OUTPUT s = Some (r, s\<lparr>rest := k2\<rparr>)" "k2 = rest s"
    using output_quiet [OF demo_device, of c s] by auto
  have "\<not> PrinterEcho s" using Suc.prems by (simp add: quiet_def)
  then show ?case using k o Suc.IH [OF Suc.prems, of ?fc] by (auto simp: Let_def plainly_def e)
qed simp

lemma demo_console: "console_env no_break demo_conenv 1 1 (\<lambda>k. k)"
proof -
  have "rw_sft demo_conenv 1 [c] XFR_FORCE_WRITE s = andthen (cooked_write no_break demo_conenv (syscon demo_conenv) [c] s) (\<lambda>r s1. Some (Returns (r, [c]) s1))"
    if "quiet demo_conenv (\<lambda>k. k) s" for c s
  proof -
    have "quiet demo_conenv (\<lambda>k. k) (update_scr_pos x y s)" for x y using that by (simp add: quiet_def update_scr_pos_def)
    note put_char_base [OF this]
    then have "cooked_write no_break demo_conenv 0x70 [c] s = cooked_write no_break demo_base 0x70 [c] s"
      by (simp add: cooked_write_def Let_def del: put_char.simps cong: sum.case_cong)
    then show ?thesis by (simp add: demo_conenv_def [THEN arg_cong [where f = rw_sft]])
  qed
  then show ?thesis using demo_device by (simp add: console_env_def)
qed


text \<open>A line \<^verbatim>\<open>dir\<close> is stored; F1 copies its first character, one is taken back, three are typed.\<close>

definition demo_tty :: "u8 list tty" where
  "demo_tty = \<lparr>console = \<lparr>rest = [0, 0x3b, 8, 99, 108, 115, 13, 65], scr_pos = 0, PrinterEcho = False, InDOS = 1, ErrorMode = 0\<rparr>,
     mem = (\<lambda>_. 0)(4096 := 10, 4097 := 3, 4098 := 100, 4099 := 105, 4100 := 114, 4101 := 13), inputptr = 0\<rparr>"

lemma demo_apart: "buffers_apart (0, 0x200) (0x100, 0) 10"
  by (auto simp: buffers_apart_def at_def kb_line_def unat_of_nat16 unat_add16)

lemma demo_line: "edit_line 10 [0, 0x3b, 8, 99, 108, 115, 13, 65] \<lparr>typed = [], stored = [100, 105, 114], ed_pos = 0, inserting = False\<rparr> = Some ([99, 108, 115, 13], [65])"
  by code_simp

lemma demo_start: "start_state (0x100, 0) (mem demo_tty) = \<lparr>typed = [], stored = [100, 105, 114], ed_pos = 0, inserting = False\<rparr>"
  by (simp add: start_state_def stored_line_def demo_tty_def kb_count_def at_def kb_line_def bytes_def upt_rec keys)

lemma demo_quiet: "quiet demo_conenv (\<lambda>k. k) (console demo_tty)"
  by (simp add: quiet_def demo_tty_def keys)

lemma demo_header: "kb_size (0x100, 0) (mem demo_tty) = 10" "kb_count (0x100, 0) (mem demo_tty) = 3"
  by (simp_all add: kb_size_def kb_count_def demo_tty_def at_def)

lemma demo_keys: "rest (console demo_tty) = [0, 0x3b, 8, 99, 108, 115, 13, 65]"
  by (simp add: demo_tty_def)

lemma read_line_edits_witness:
  "\<exists>t'. read_line no_break (0, 0x200) demo_conenv 1 1 (0x100, 0) demo_tty = Some (Returns () t') \<and> rest (console t') = [65] \<and>
     holds_line (0x100, 0) [99, 108, 115, 13] (mem t')"
  using read_line_edits [OF demo_console demo_quiet, of "(0x100, 0)" "(0, 0x200)" "[99, 108, 115, 13]" "[65]"] demo_line demo_apart
  by (simp add: demo_header demo_keys demo_start)

lemma read_line_bounded_witness:
  "\<exists>t'. read_line no_break (0, 0x200) demo_conenv 1 1 (0x100, 0) demo_tty = Some (Returns () t') \<and> mem t' 4108 = mem demo_tty 4108 \<and>
     kb_count (0x100, 0) (mem t') < 10 \<and> mem t' (at (kb_line (0x100, 0)) (ucast (kb_count (0x100, 0) (mem t')))) = CR"
proof -
  have "con.on no_break demo_conenv 1 1 (\<lambda>k. k) [0, 0x3b, 8, 99, 108, 115, 13, 65] demo_tty"
    using con.on_def [of no_break demo_conenv 1 1 "\<lambda>k. k" "[0, 0x3b, 8, 99, 108, 115, 13, 65]" demo_tty] demo_console demo_quiet demo_keys by simp
  from con.line_edits [OF refl this, of "(0x100, 0)" "(0, 0x200)"] demo_line demo_apart
  obtain t' where r: "read_line no_break (0, 0x200) demo_conenv 1 1 (0x100, 0) demo_tty = Some (Returns () t')"
    by (auto simp: demo_header demo_start yields_def)
  have "(4108 :: nat) \<notin> line_area (0, 0x200) (0x100, 0) 10"
    by (auto simp: line_area_def at_def kb_line_def unat_of_nat16 unat_add16)
  then show ?thesis using read_line_bounded [OF r, of 4108 t'] r demo_apart by (auto simp: demo_header)
qed

text \<open>The console's own line is empty; the line is read in a piece of two bytes and one that asks for a hundred.\<close>

definition demo_tty2 :: "u8 list tty" where
  "demo_tty2 = \<lparr>console = \<lparr>rest = [99, 108, 115, 13, 65], scr_pos = 0, PrinterEcho = False, InDOS = 1, ErrorMode = 0\<rparr>,
     mem = (\<lambda>_. 0)(640 := 128), inputptr = 0\<rparr>"

lemma console_reads_line_witness:
  "\<exists>t'. read_pieces no_break (0, 0x200) demo_conenv 1 [2, 100] demo_tty2 = Some (Returns [99, 108, 115, 13, 10] t') \<and> rest (console t') = [65] \<and> inputptr t' = 0"
proof -
  have l: "edit_line 128 [99, 108, 115, 13, 65] \<lparr>typed = [], stored = [], ed_pos = 0, inserting = False\<rparr> = Some ([99, 108, 115, 13], [65])"
    by code_simp
  have s: "start_state (kb_buf (0, 0x200)) (mem demo_tty2) = \<lparr>typed = [], stored = [], ed_pos = 0, inserting = False\<rparr>"
    by (simp add: start_state_def stored_line_def demo_tty2_def kb_count_def at_def kb_line_def kb_buf_def bytes_def keys)
  have "quiet demo_conenv (\<lambda>k. k) (console demo_tty2)" by (simp add: quiet_def demo_tty2_def keys)
  note console_reads_line [OF demo_console this, of "(0, 0x200)" "[99, 108, 115, 13]" "[65]" "[2, 100]"]
  moreover have "kb_size (kb_buf (0, 0x200)) (mem demo_tty2) = LINEBUFSIZECON" "kb_count (kb_buf (0, 0x200)) (mem demo_tty2) < LINEBUFSIZECON"
    by (simp_all add: kb_size_def kb_count_def demo_tty2_def at_def kb_buf_def keys)
  moreover have "rest (console demo_tty2) = [99, 108, 115, 13, 65]" "inputptr demo_tty2 = 0" by (simp_all add: demo_tty2_def)
  ultimately show ?thesis using l s by (simp add: keys)
qed

end
