(* ===== verification/Spec2Isabelle.thy ===== *)
theory Spec2Isabelle
  imports MemProps ShareProps SysTimeProps HandleProps NameProps LineTerm
begin

text \<open>
  A model of the core of the FreeDOS kernel, \<^verbatim>\<open>src/freedos/source/kernel\<close>, with the theorems that make
  it correct. The kernel is C for a 16-bit machine (\<^verbatim>\<open>int\<close> has 16 bits, \<^verbatim>\<open>long\<close> has 32, \<^verbatim>\<open>WITHFAT32\<close> is
  defined, the debugging output is off); machine integers are words of their width.

  \<^bold>\<open>The parts and how they interact.\<close>

  \<^item> The memory manager (\<^verbatim>\<open>kernel/memmgr.c\<close>) keeps the conventional and upper memory as chains of memory
    control blocks. It is independent of the other parts.
  \<^item> SHARE (\<^verbatim>\<open>share/share.c\<close>) is a resident program with a table of open files and a table of locks. The
    file system calls it through interrupt 2F when a file is opened, closed, read, written or locked.
  \<^item> The block cache (\<^verbatim>\<open>kernel/blockio.c\<close>) is a ring of sector buffers in least-recently-used order between
    the file system and the block device drivers.
  \<^item> The file allocation table (\<^verbatim>\<open>kernel/fattab.c\<close>) reads and writes the entries of FAT12, FAT16 and FAT32
    drives through the cache, and keeps the free cluster count of the drive.
  \<^item> The file system (\<^verbatim>\<open>kernel/fatfs.c\<close>, \<^verbatim>\<open>kernel/fatdir.c\<close>) has files and directories as chains of clusters;
    it calls the table and the cache, the clock for time stamps, and SHARE when a file is closed.
  \<^item> The calls of programs (\<^verbatim>\<open>kernel/dosfns.c\<close>, \<^verbatim>\<open>kernel/newstuff.c\<close>): names are made canonical by \<^verbatim>\<open>truename\<close> from the
    current directories of the drives; a process has a table of handles that refer to entries of the
    system file table. They call the file system, character devices, SHARE and the network redirector.
  \<^item> The console (\<^verbatim>\<open>kernel/chario.c\<close>, \<^verbatim>\<open>kernel/break.c\<close>) reads keys from a character device, watches for the break
    key, echoes and edits lines, and hands them out to programs and to reads of a handle.
  \<^item> The clock (\<^verbatim>\<open>kernel/systime.c\<close>, \<^verbatim>\<open>kernel/sysclk.c\<close>, and the request path of \<^verbatim>\<open>kernel/chario.c\<close>) converts
    between the day count and tick count of the driver and dates and times.

  \<^bold>\<open>The theories.\<close> \<^verbatim>\<open>Prelude\<close> has the machine types, the error codes and the loop combinators. A loop that
  the code does not bound is a fixed point in the option monad, so that \<^term>\<open>None\<close> is a loop that does not
  return; there is no fuel, and the results about such loops state that they return (rules \<^verbatim>\<open>loop_ghost\<close>,
  \<^verbatim>\<open>loopM_ghost\<close>).

  \<^item> \<^verbatim>\<open>MemMgr\<close> is \<^verbatim>\<open>memmgr.c\<close>: an arena maps a segment to the control block there, the state has the arena,
    the first block, the root and link state of upper memory, the allocation mode and the current process.
    \<^verbatim>\<open>MemArena\<close> relates an arena to the list of its blocks, \<^verbatim>\<open>MemAlloc\<close>, \<^verbatim>\<open>MemOps\<close> and \<^verbatim>\<open>MemLink\<close> prove the
    operations on that list, \<^verbatim>\<open>MemIface\<close> states what a program relies on as the locale
    \<^verbatim>\<open>block_allocator\<close> and interprets it on the kernel's operations, \<^verbatim>\<open>MemProps\<close> has the properties: blocks
    in use never overlap, every allocation strategy chooses the block it promises, releasing and resizing
    leave all other blocks alone, damage is detected, linking upper memory is undone by unlinking.
  \<^item> \<^verbatim>\<open>Share\<close> is \<^verbatim>\<open>share.c\<close>; \<^verbatim>\<open>ShareTable\<close> gives the abstract set of open instances and the contract of
    opening a file, \<^verbatim>\<open>ShareSafety\<close> the step relation of all requests with its invariant, \<^verbatim>\<open>ShareProps\<close> the
    properties: deny modes are respected as far as the code checks them, locks protect regions, closing
    drops locks and unlocking undoes locking; two theorems show where the code falls short of its comments.
  \<^item> \<^verbatim>\<open>BlockIO\<close> is \<^verbatim>\<open>blockio.c\<close>; \<^verbatim>\<open>BlockRing\<close> has the ring of buffers, \<^verbatim>\<open>BlockCache\<close> the contents of a disk as
    seen through the cache, \<^verbatim>\<open>BlockGet\<close> and \<^verbatim>\<open>BlockFlush\<close> the operations, \<^verbatim>\<open>CacheProps\<close> the properties: a block
    asked for is the block returned and no block changes, whatever is recycled; after a flush the disk
    has what the file system saw; a read that fails leaves a wrong block behind.
  \<^item> \<^verbatim>\<open>FatTab\<close> is \<^verbatim>\<open>fattab.c\<close>; \<^verbatim>\<open>FatEntry\<close> has the entries as bytes, \<^verbatim>\<open>FatLink\<close>, \<^verbatim>\<open>FatRead\<close> and \<^verbatim>\<open>FatWrite\<close>
    prove \<^verbatim>\<open>link_fat\<close> for the three formats, also where a 12 bit entry straddles two sectors. \<^verbatim>\<open>FatIface\<close> has
    the state of a drive, \<^verbatim>\<open>FatTable\<close> the interface of the table as the locale \<^verbatim>\<open>fat_table\<close>, the loops over
    chains and free clusters proved from it, and its interpretation on \<^verbatim>\<open>fattab.c\<close> for every driver;
    \<^verbatim>\<open>FatProps\<close> the properties: the table is a map from clusters to entries, the free count is exact,
    the search for a free cluster ends.
  \<^item> \<^verbatim>\<open>FatNode\<close> (data, names, dates), \<^verbatim>\<open>FatClus\<close> (clusters, positions, drive parameters, media checks),
    \<^verbatim>\<open>FatDir\<close> (directories), \<^verbatim>\<open>FatFs\<close> (files) and \<^verbatim>\<open>FatRw\<close> (reading and writing) are \<^verbatim>\<open>fatfs.c\<close> and
    \<^verbatim>\<open>fatdir.c\<close>. \<^verbatim>\<open>FatChain\<close> proves that growing, following and releasing chains does what the list of
    clusters of a file says, \<^verbatim>\<open>FatTrunc\<close> that truncating a file keeps the clusters it needs, \<^verbatim>\<open>FatData\<close>
    the round trip of names and the correction of drive parameters. \<^verbatim>\<open>FatIo\<close>,
    \<^verbatim>\<open>FatFile\<close> and \<^verbatim>\<open>FatOpen\<close> prove that reading an open file returns its bytes: transfers of runs of
    sectors, the rounds of \<^verbatim>\<open>rwblock\<close>, and its loop with the exchange with the file table. \<^verbatim>\<open>FatPut\<close>,
    \<^verbatim>\<open>FatStore\<close> and \<^verbatim>\<open>FatSave\<close> prove the same of writing: the clusters a write needs are linked, every round
    puts its bytes where the chain says, and no other file of the drive changes, for positions in the file,
    at its end and behind it, with SHARE installed or not. \<^verbatim>\<open>FatFrame\<close> has what the
    operations leave of the file table.
  \<^item> \<^verbatim>\<open>PathName\<close> and \<^verbatim>\<open>Truename\<close> are \<^verbatim>\<open>truename\<close> with the conversion to upper case of \<^verbatim>\<open>kernel/nls.c\<close>;
    \<^verbatim>\<open>PathSpec\<close> specifies it by the components of a name and a stack of directories, and proves that the
    loop over characters computes the specification; \<^verbatim>\<open>TruenameProps\<close> has the property for local drives, and
    what goes wrong at the edges of the buffers.
  \<^item> \<^verbatim>\<open>Handles\<close> (entries, reading, writing, seeking), \<^verbatim>\<open>HandleOps\<close> (opening, duplicating, closing) and
    \<^verbatim>\<open>NameOps\<close> (calls on names, searches, locks, free space, temporary files) are \<^verbatim>\<open>dosfns.c\<close> and the rest of
    \<^verbatim>\<open>newstuff.c\<close>; the state adds the processes, current directories and path buffers to that of the file
    system. \<^verbatim>\<open>HandleInv\<close> has the step relation of the handle calls and its invariant: handles never
    refer to free entries. \<^verbatim>\<open>HandleProps\<close> composes handles, SHARE and the file system: seeking and
    reading returns the bytes of the file, what is written is read back, locks of others are respected
    (once, unless they were set through the same entry). \<^verbatim>\<open>NameProps\<close> gives
    the numbers by which free space is reported, and shows that it is there, with one exception.
  \<^item> \<^verbatim>\<open>CharIo\<close> (requests, keys, output, break key) and \<^verbatim>\<open>LineEdit\<close> (the line editor, its lines through a handle, the
    character calls of \<^verbatim>\<open>kernel/inthndlr.c\<close>) are \<^verbatim>\<open>chario.c\<close> and \<^verbatim>\<open>break.c\<close>. A call may be broken off by the break
    key, which is an outcome of its own. \<^verbatim>\<open>LineSafe\<close> shows which memory \<^verbatim>\<open>read_line\<close> may write, for any keys;
    \<^verbatim>\<open>LineSpec\<close> has an editor on lists and, in the locale \<^verbatim>\<open>terminal\<close>, the proof that the code computes it;
    \<^verbatim>\<open>LineTerm\<close> interprets the locale on the console functions for every driver that keeps keys in order, and has
    the properties: \<^verbatim>\<open>read_line\<close> refines the editor, and reads of the console hand out each line once and in order and nothing behind it.
  \<^item> \<^verbatim>\<open>SysTime\<close> is \<^verbatim>\<open>systime.c\<close>, \<^verbatim>\<open>sysclk.c\<close> and the request path of \<^verbatim>\<open>chario.c\<close>; \<^verbatim>\<open>SysTimeProps\<close> shows that a
    date or time set is read back, and the conversion of days to dates and back.

  \<^bold>\<open>Parameters.\<close> Block and character device drivers, the BIOS and the critical error dialogue are arguments
  of the definitions. What is assumed of a block driver where contents matter is \<^const>\<open>disk_driver\<close>: single
  sectors and runs of sectors are read and written faithfully and requests report success. The record
  \<^verbatim>\<open>env\<close> gathers what the calls of programs use besides: the drivers, the network redirector and the cooked
  transfers of the console; \<^const>\<open>env_ok\<close> states that these leave the handles alone. The theorems about a drive are
  for all geometries with \<^const>\<open>fat_geom\<close>: sectors of 512 bytes, one of the three FAT formats, and FAT
  copies and the information sector that do not overlap the first FAT. Writing asks besides that
  the last block of the data area has a 32 bit number (\<^const>\<open>data_fits\<close>). Each is applied to a concrete
  disk with a 12 bit FAT in its witness. Memory is modelled at the level of control blocks, and pointers to
  buffers and drive parameter blocks are offsets.

  \<^bold>\<open>Not modelled.\<close> File control blocks (\<^verbatim>\<open>fcbfns.c\<close>), \<^verbatim>\<open>SetJFTSize\<close>, long file names (\<^verbatim>\<open>lfnapi.c\<close>), processes (\<^verbatim>\<open>task.c\<close>), the rest of national language
  support, initialisation and \<^verbatim>\<open>CONFIG.SYS\<close>, the BIOS disk driver (\<^verbatim>\<open>dsk.c\<close>), the interrupt dispatch and
  the assembler parts; the network redirector; and the other programs of the distribution, which are
  separate from the kernel.
\<close>

end
